(* ===== verification/Prelude.thy ===== *)
theory Prelude
  imports "HOL-Library.Word" "HOL-Library.Multiset" "HOL-Library.Monad_Syntax" "HOL-Library.Char_ord"
begin

text \<open>
  Shared vocabulary of the development: the C integer types as machine words, C strings and
  buffers, checked reads and writes of a buffer, and the named collections of simplification
  rules that the component theories fill.

  A result of type \<open>'a option\<close> is \<open>None\<close> exactly where the C code has no defined result: it
  dereferences a null or dangling pointer, leaves an array, or spins forever on a lock that nobody
  releases. Ordinary error returns of the code are values.
\<close>

unbundle bit_operations_syntax

section \<open>C integer types\<close>

type_synonym u8 = "8 word"
type_synonym u16 = "16 word"
type_synonym u32 = "32 word"
type_synonym u64 = "64 word"

text \<open>\<open>int32_t\<close> variables that the code keeps small are \<open>int\<close>; where overflow matters the
  value is reduced by \<open>s32\<close>, the two's complement reading of the low 32 bits.\<close>

definition s32 :: "int \<Rightarrow> int" where
  "s32 i = sint (word_of_int i :: u32)"

lemma s32_id: "- (2 ^ 31) \<le> i \<Longrightarrow> i < 2 ^ 31 \<Longrightarrow> s32 i = i"
  by (simp add: s32_def signed_take_bit_int_eq_self sint_sbintrunc')

text \<open>Signed division of C, which truncates towards zero; a division by zero is undefined.\<close>

definition cdiv :: "int \<Rightarrow> int \<Rightarrow> int" where
  "cdiv a b = (if (0 \<le> a) = (0 \<le> b) then \<bar>a\<bar> div \<bar>b\<bar> else - (\<bar>a\<bar> div \<bar>b\<bar>))"

lemma cdiv_nonneg [simp]: "0 \<le> a \<Longrightarrow> 0 < b \<Longrightarrow> cdiv a b = a div b"
  by (simp add: cdiv_def)

section \<open>Checked buffer access\<close>

named_theorems buf_simps "reads and writes of buffers"

definition fetch :: "'a list \<Rightarrow> nat \<Rightarrow> 'a option" where
  "fetch b i = (if i < length b then Some (b ! i) else None)"

definition store :: "'a list \<Rightarrow> nat \<Rightarrow> 'a \<Rightarrow> 'a list option" where
  "store b i x = (if i < length b then Some (b[i := x]) else None)"

lemma fetch_Some_iff [buf_simps]: "fetch b i = Some x \<longleftrightarrow> i < length b \<and> b ! i = x"
  by (auto simp: fetch_def)

lemma fetch_None_iff [buf_simps]: "fetch b i = None \<longleftrightarrow> length b \<le> i"
  by (auto simp: fetch_def)

lemma fetch_in [simp]: "i < length b \<Longrightarrow> fetch b i = Some (b ! i)"
  by (simp add: fetch_def)

lemma store_Some_iff [buf_simps]: "store b i x = Some b' \<longleftrightarrow> i < length b \<and> b' = b[i := x]"
  by (auto simp: store_def)

lemma store_None_iff [buf_simps]: "store b i x = None \<longleftrightarrow> length b \<le> i"
  by (auto simp: store_def)

lemma store_in [simp]: "i < length b \<Longrightarrow> store b i x = Some (b[i := x])"
  by (simp add: store_def)

text \<open>\<open>memcpy (dst + off, src, n)\<close> for a source of \<open>n\<close> bytes.\<close>

definition memcpy :: "'a list \<Rightarrow> nat \<Rightarrow> 'a list \<Rightarrow> 'a list option" where
  "memcpy b off src =
     (if off + length src \<le> length b
      then Some (take off b @ src @ drop (off + length src) b) else None)"

lemma memcpy_length: "memcpy b off src = Some b' \<Longrightarrow> length b' = length b"
  by (auto simp: memcpy_def split: if_splits)

section \<open>C strings\<close>

text \<open>A C string is the list of its characters before the terminating NUL; \<open>cchar s i\<close> is the
  character the code reads at index \<open>i\<close>, the NUL at index \<open>length s\<close>. Nothing in the model looks
  past the NUL except to combine it with an already negative value.\<close>

definition cchar :: "string \<Rightarrow> nat \<Rightarrow> char" where
  "cchar s i = (if i < length s then s ! i else CHR 0x00)"

lemma cchar_in [simp]: "i < length s \<Longrightarrow> cchar s i = s ! i"
  by (simp add: cchar_def)

lemma cchar_out [simp]: "length s \<le> i \<Longrightarrow> cchar s i = CHR 0x00"
  by (simp add: cchar_def)

section \<open>Generic lemmas\<close>

lemma filter_eq_self: "(\<And>x. x \<in> set xs \<Longrightarrow> P x) \<Longrightarrow> filter P xs = xs"
  by (induction xs) auto

lemma last_conv_nth_append: "last (xs @ [x]) = x"
  by simp

lemma distinct_split_unique:
  assumes "distinct (xs @ a # ys)" and "xs @ a # ys = us @ a # vs"
  shows "us = xs \<and> vs = ys"
proof -
  have "distinct (us @ a # vs)" using assms by metis
  then have "a \<notin> set xs" "a \<notin> set us" using assms(1) by auto
  with assms show ?thesis by (auto simp: append_eq_append_conv2 Cons_eq_append_conv append_eq_Cons_conv)
qed

lemma set_take_subset_nth: "x \<in> set (take n xs) \<Longrightarrow> \<exists>i<n. i < length xs \<and> xs ! i = x"
  by (auto simp: in_set_conv_nth)

lemma distinct_mset_sub:
  assumes "mset ys \<subseteq># mset xs" "distinct xs"
  shows "distinct ys"
proof -
  from assms(1) obtain M where "mset xs = mset ys + M" by (auto simp: mset_subset_eq_exists_conv)
  moreover obtain zs where "mset zs = M" using ex_mset by blast
  ultimately have "mset xs = mset (ys @ zs)" by simp
  with assms(2) have "distinct (ys @ zs)" using mset_eq_imp_distinct_iff by blast
  then show ?thesis by simp
qed

lemma set_update_ok: "\<forall>a \<in> set xs. P a \<Longrightarrow> P x \<Longrightarrow> \<forall>a \<in> set (xs[i := x]). P a"
  using set_update_subset_insert [of xs i x] by blast

end
