(* ===== verification/LList.thy ===== *)
theory LList
  imports Prelude
begin

text \<open>
  The singly linked list of \<open>module-datastruct-llist.c\<close>, on an explicit heap. \<open>LL_NODE\<close>s and
  \<open>LLIST\<close>s live at addresses (\<open>0\<close> is NULL), objects are opaque non-null addresses, and an
  \<open>LL_ITER\<close> is the struct the callers keep on their stack (so the tests \<open>if (it)\<close> are true).

  \<^item> \<open>add_garbage\<close> appends to a log: the collector of \<open>oscam-garbage.c\<close> frees a block at the
    earliest five seconds later, so a node stays readable during the operation that retires it.
  \<^item> \<open>malloc\<close> answers are read off the list \<open>mallocs\<close>, an answer \<open>0\<close> (or the end of the list) is
    a failed allocation. That answers are fresh is a hypothesis of the theorems that need it.
  \<^item> An operation runs from the moment its wait for the list's lock ends. A lock found taken with
    no other thread to release it is a wait for ever: \<open>None\<close>.

  The abstract view of a list is the sequence of its cells (address, object, flag); every operation
  is shown to act on it as the corresponding list operation.
\<close>

section \<open>State\<close>

type_synonym addr = nat

record llnode =
  nobj :: addr
  nnxt :: addr
  nflag :: u8

record llist =
  l_initial :: addr
  l_last :: addr
  l_count :: int
  l_wlock :: nat
  l_flag :: int

record lliter =
  it_l :: addr
  it_cur :: addr
  it_prv :: addr

record heap =
  nodes :: "addr \<Rightarrow> llnode option"
  lists :: "addr \<Rightarrow> llist option"
  garbage :: "addr list"
  mallocs :: "addr list"

definition get_node :: "heap \<Rightarrow> addr \<Rightarrow> llnode option" where
  "get_node h p = (if p = 0 then None else nodes h p)"

definition put_node :: "heap \<Rightarrow> addr \<Rightarrow> llnode \<Rightarrow> heap" where
  "put_node h p n = h\<lparr>nodes := (nodes h)(p \<mapsto> n)\<rparr>"

definition get_list :: "heap \<Rightarrow> addr \<Rightarrow> llist option" where
  "get_list h l = (if l = 0 then None else lists h l)"

definition put_list :: "heap \<Rightarrow> addr \<Rightarrow> llist \<Rightarrow> heap" where
  "put_list h l L = h\<lparr>lists := (lists h)(l \<mapsto> L)\<rparr>"

definition retire :: "heap \<Rightarrow> addr \<Rightarrow> heap" where
  "retire h p = (if p = 0 then h else h\<lparr>garbage := garbage h @ [p]\<rparr>)"

definition malloc :: "heap \<Rightarrow> addr \<times> heap" where
  "malloc h = (case mallocs h of [] \<Rightarrow> (0, h) | a # as \<Rightarrow> (a, h\<lparr>mallocs := as\<rparr>))"

definition new_node :: "heap \<Rightarrow> addr \<times> heap" where
  "new_node h = (case malloc h of (p, h1) \<Rightarrow>
     if p = 0 then (0, h1) else (p, put_node h1 p \<lparr>nobj = 0, nnxt = 0, nflag = 0\<rparr>))"

section \<open>Operations\<close>

text \<open>\<open>cs_malloc (.., 0)\<close> exits the process when it fails.\<close>

definition ll_create :: "heap \<Rightarrow> (addr \<times> heap) option" where
  "ll_create h = (case malloc h of (l, h1) \<Rightarrow>
     if l = 0 then None
     else Some (l, put_list h1 l \<lparr>l_initial = 0, l_last = 0, l_count = 0, l_wlock = 0, l_flag = 0\<rparr>))"

definition ll_lock :: "heap \<Rightarrow> addr \<Rightarrow> (bool \<times> heap) option" where
  "ll_lock h l =
     (if l = 0 then Some (False, h)
      else do {
        L \<leftarrow> get_list h l;
        if l_flag L \<noteq> 0 then Some (False, h)
        else if l_wlock L \<noteq> 0 then None
        else Some (True, put_list h l (L\<lparr>l_wlock := 1\<rparr>)) })"

definition ll_unlock :: "heap \<Rightarrow> addr \<Rightarrow> heap option" where
  "ll_unlock h l =
     (if l = 0 then Some h
      else do {
        L \<leftarrow> get_list h l;
        Some (put_list h l (L\<lparr>l_wlock := l_wlock L - 1\<rparr>)) })"

definition ll_iter_next_nolock :: "heap \<Rightarrow> lliter \<Rightarrow> (addr \<times> lliter) option" where
  "ll_iter_next_nolock h it =
     (if it_l it = 0 then Some (0, it)
      else do {
        it' \<leftarrow> (if it_cur it \<noteq> 0
                then do { c \<leftarrow> get_node h (it_cur it);
                          Some (it\<lparr>it_prv := it_cur it, it_cur := nnxt c\<rparr>) }
                else do { L \<leftarrow> get_list h (it_l it);
                          Some (if l_initial L \<noteq> 0 \<and> it_prv it = 0
                                then it\<lparr>it_cur := l_initial L\<rparr> else it) });
        if it_cur it' \<noteq> 0
        then do { c \<leftarrow> get_node h (it_cur it'); Some (nobj c, it') }
        else Some (0, it') })"

partial_function (option) ll_clear_nodes :: "heap \<Rightarrow> addr \<Rightarrow> bool \<Rightarrow> heap option" where
  "ll_clear_nodes h n clear_data =
     (if n = 0 then Some h
      else do {
        N \<leftarrow> get_node h n;
        let h1 = put_node h n (N\<lparr>nflag := nflag N + 1\<rparr>);
        let h2 = (if nflag N = 0
                  then retire (if clear_data then retire h1 (nobj N) else h1) n else h1);
        ll_clear_nodes h2 (nnxt N) clear_data })"

definition ll_clear_int :: "heap \<Rightarrow> addr \<Rightarrow> bool \<Rightarrow> heap option" where
  "ll_clear_int h l clear_data =
     (if l = 0 then Some h
      else do {
        (ok, h1) \<leftarrow> ll_lock h l;
        if \<not> ok then Some h1
        else do {
          L \<leftarrow> get_list h1 l;
          h2 \<leftarrow> ll_clear_nodes h1 (l_initial L) clear_data;
          L2 \<leftarrow> get_list h2 l;
          ll_unlock (put_list h2 l (L2\<lparr>l_count := 0, l_initial := 0, l_last := 0\<rparr>)) l } })"

definition ll_clear :: "heap \<Rightarrow> addr \<Rightarrow> heap option" where
  "ll_clear h l = ll_clear_int h l False"

definition ll_clear_data :: "heap \<Rightarrow> addr \<Rightarrow> heap option" where
  "ll_clear_data h l = ll_clear_int h l True"

text \<open>\<open>_destroy\<close>: the write lock is taken (after the wait or its timeout) and never released.\<close>

definition ll_destroy_int :: "heap \<Rightarrow> addr \<Rightarrow> heap option" where
  "ll_destroy_int h l =
     (if l = 0 then Some h
      else do {
        L \<leftarrow> get_list h l;
        if l_flag L = 0
        then Some (retire (put_list h l (L\<lparr>l_flag := l_flag L + 1, l_wlock := 1\<rparr>)) l)
        else Some (put_list h l (L\<lparr>l_flag := l_flag L + 1\<rparr>)) })"

definition ll_destroy :: "heap \<Rightarrow> addr \<Rightarrow> heap option" where
  "ll_destroy h l = (if l = 0 then Some h else do { h1 \<leftarrow> ll_clear h l; ll_destroy_int h1 l })"

definition ll_destroy_data :: "heap \<Rightarrow> addr \<Rightarrow> heap option" where
  "ll_destroy_data h l =
     (if l = 0 then Some h else do { h1 \<leftarrow> ll_clear_data h l; ll_destroy_int h1 l })"

definition ll_append_nolock :: "heap \<Rightarrow> addr \<Rightarrow> addr \<Rightarrow> (addr \<times> heap) option" where
  "ll_append_nolock h l ob =
     (if l \<noteq> 0 \<and> ob \<noteq> 0
      then (case new_node h of (p, h1) \<Rightarrow>
        if p = 0 then Some (0, h1)
        else do {
          N \<leftarrow> get_node h1 p;
          let h2 = put_node h1 p (N\<lparr>nobj := ob\<rparr>);
          L \<leftarrow> get_list h2 l;
          (h3, L1) \<leftarrow> (if l_last L \<noteq> 0
                 then do { E \<leftarrow> get_node h2 (l_last L);
                           Some (put_node h2 (l_last L) (E\<lparr>nnxt := p\<rparr>), L) }
                 else Some (h2, L\<lparr>l_initial := p\<rparr>));
          Some (p, put_list h3 l (L1\<lparr>l_last := p, l_count := l_count L1 + 1\<rparr>)) })
      else Some (0, h))"

definition ll_append :: "heap \<Rightarrow> addr \<Rightarrow> addr \<Rightarrow> (addr \<times> heap) option" where
  "ll_append h l ob =
     (if l \<noteq> 0 \<and> ob \<noteq> 0
      then do {
        (ok, h1) \<leftarrow> ll_lock h l;
        if \<not> ok then Some (0, h1)
        else do {
          (n, h2) \<leftarrow> ll_append_nolock h1 l ob;
          h3 \<leftarrow> ll_unlock h2 l;
          Some (n, h3) } }
      else Some (0, h))"

definition ll_prepend :: "heap \<Rightarrow> addr \<Rightarrow> addr \<Rightarrow> (addr \<times> heap) option" where
  "ll_prepend h l ob =
     (if l \<noteq> 0 \<and> ob \<noteq> 0
      then (case new_node h of (p, h1) \<Rightarrow>
        if p = 0 then Some (0, h1)
        else do {
          (ok, h2) \<leftarrow> ll_lock h1 l;
          if \<not> ok then Some (0, retire h2 p)
          else do {
            N \<leftarrow> get_node h2 p;
            L \<leftarrow> get_list h2 l;
            let h3 = put_node h2 p (N\<lparr>nobj := ob, nnxt := l_initial L\<rparr>);
            let L1 = L\<lparr>l_initial := p, l_last := (if l_last L = 0 then p else l_last L),
                       l_count := l_count L + 1\<rparr>;
            h4 \<leftarrow> ll_unlock (put_list h3 l L1) l;
            Some (p, h4) } })
      else Some (0, h))"

definition ll_iter_create :: "addr \<Rightarrow> lliter" where
  "ll_iter_create l = \<lparr>it_l = l, it_cur = 0, it_prv = 0\<rparr>"

definition ll_iter_next :: "heap \<Rightarrow> lliter \<Rightarrow> (addr \<times> lliter \<times> heap) option" where
  "ll_iter_next h it =
     (if it_l it = 0 then Some (0, it, h)
      else do {
        (ok, h1) \<leftarrow> ll_lock h (it_l it);
        if \<not> ok then Some (0, it, h1)
        else do {
          (r, it') \<leftarrow> ll_iter_next_nolock h1 it;
          h2 \<leftarrow> ll_unlock h1 (it_l it);
          Some (r, it', h2) } })"

text \<open>\<open>ll_iter_move\<close> and \<open>ll_iter_peek\<close> count up to \<open>offset\<close>, at most zero rounds for a negative one.\<close>

fun ll_move_loop :: "heap \<Rightarrow> lliter \<Rightarrow> nat \<Rightarrow> addr \<Rightarrow> (addr \<times> lliter) option" where
  "ll_move_loop h it 0 res = Some (res, it)"
| "ll_move_loop h it (Suc k) res =
     do { (r, it') \<leftarrow> ll_iter_next_nolock h it;
          if r = 0 then Some (0, it') else ll_move_loop h it' k r }"

definition ll_iter_move :: "heap \<Rightarrow> lliter \<Rightarrow> int \<Rightarrow> (addr \<times> lliter \<times> heap) option" where
  "ll_iter_move h it off =
     (if it_l it = 0 then Some (0, it, h)
      else do {
        (ok, h1) \<leftarrow> ll_lock h (it_l it);
        if \<not> ok then Some (0, it, h1)
        else do {
          (r, it') \<leftarrow> ll_move_loop h1 it (nat off) 0;
          h2 \<leftarrow> ll_unlock h1 (it_l it);
          Some (r, it', h2) } })"

fun ll_peek_loop :: "heap \<Rightarrow> addr \<Rightarrow> nat \<Rightarrow> addr option" where
  "ll_peek_loop h n 0 = Some n"
| "ll_peek_loop h n (Suc k) =
     (if n = 0 then Some 0 else do { N \<leftarrow> get_node h n; ll_peek_loop h (nnxt N) k })"

definition ll_iter_peek :: "heap \<Rightarrow> lliter \<Rightarrow> int \<Rightarrow> (addr \<times> heap) option" where
  "ll_iter_peek h it off =
     (if it_l it = 0 then Some (0, h)
      else do {
        (ok, h1) \<leftarrow> ll_lock h (it_l it);
        if \<not> ok then Some (0, h1)
        else do {
          n \<leftarrow> ll_peek_loop h1 (it_cur it) (nat off);
          h2 \<leftarrow> ll_unlock h1 (it_l it);
          if n = 0 then Some (0, h2)
          else do { N \<leftarrow> get_node h2 n; Some (nobj N, h2) } } })"

definition ll_iter_reset :: "lliter \<Rightarrow> lliter" where
  "ll_iter_reset it = it\<lparr>it_prv := 0, it_cur := 0\<rparr>"

definition ll_iter_insert :: "heap \<Rightarrow> lliter \<Rightarrow> addr \<Rightarrow> heap option" where
  "ll_iter_insert h it ob =
     (if ob = 0 then Some h
      else do {
        (ok, h1) \<leftarrow> ll_lock h (it_l it);
        if \<not> ok then Some h1
        else do {
          at_end \<leftarrow> (if it_cur it = 0 then Some True
                     else do { C \<leftarrow> get_node h1 (it_cur it); Some (nnxt C = 0) });
          if at_end
          then do { (_, h2) \<leftarrow> ll_append_nolock h1 (it_l it) ob; ll_unlock h2 (it_l it) }
          else (case new_node h1 of (p, h2) \<Rightarrow>
            if p = 0 then ll_unlock h2 (it_l it)
            else do {
              C \<leftarrow> get_node h2 (it_cur it);
              let h3 = put_node h2 p \<lparr>nobj = ob, nnxt = nnxt C, nflag = 0\<rparr>;
              let h4 = put_node h3 (it_cur it) (C\<lparr>nnxt := p\<rparr>);
              L \<leftarrow> get_list h4 (it_l it);
              ll_unlock (put_list h4 (it_l it) (L\<lparr>l_count := l_count L + 1\<rparr>)) (it_l it) }) } })"

partial_function (option) ll_seek :: "heap \<Rightarrow> lliter \<Rightarrow> addr \<Rightarrow> lliter option" where
  "ll_seek h it prv =
     (if prv = 0 then Some it
      else do {
        (r, it') \<leftarrow> ll_iter_next_nolock h it;
        if r = 0 \<or> it_cur it' = prv then Some it' else ll_seek h it' prv })"

definition ll_iter_remove :: "heap \<Rightarrow> lliter \<Rightarrow> (addr \<times> lliter \<times> heap) option" where
  "ll_iter_remove h it =
     do {
       (ok, h1) \<leftarrow> ll_lock h (it_l it);
       if \<not> ok then Some (0, it, h1)
       else if it_cur it = 0 then do { h2 \<leftarrow> ll_unlock h1 (it_l it); Some (0, it, h2) }
       else do {
         D \<leftarrow> get_node h1 (it_cur it);
         let h2 = put_node h1 (it_cur it) (D\<lparr>nflag := nflag D + 1\<rparr>);
         if nflag D \<noteq> 0 then do { h3 \<leftarrow> ll_unlock h2 (it_l it); Some (0, it, h3) }
         else do {
           L \<leftarrow> get_list h2 (it_l it);
           (h3, L1) \<leftarrow> (if it_prv it \<noteq> 0
                  then do { P \<leftarrow> get_node h2 (it_prv it);
                            Some (put_node h2 (it_prv it) (P\<lparr>nnxt := nnxt D\<rparr>), L) }
                  else Some (h2, L\<lparr>l_initial := nnxt D\<rparr>));
           let L2 = L1\<lparr>l_last := if l_initial L1 = 0 then 0
                     else if it_cur it = l_last L1 then it_prv it else l_last L1\<rparr>;
           let h4 = put_list h3 (it_l it) (L2\<lparr>l_count := l_count L2 - 1\<rparr>);
           it' \<leftarrow> ll_seek h4 (ll_iter_reset it) (it_prv it);
           h5 \<leftarrow> ll_unlock (retire h4 (it_cur it)) (it_l it);
           Some (nobj D, it', h5) } } }"

definition ll_iter_move_first :: "heap \<Rightarrow> lliter \<Rightarrow> (int \<times> lliter \<times> heap) option" where
  "ll_iter_move_first h it =
     do {
       (ok, h1) \<leftarrow> ll_lock h (it_l it);
       if \<not> ok then Some (0, it, h1)
       else if it_cur it = 0 then do { h2 \<leftarrow> ll_unlock h1 (it_l it); Some (0, it, h2) }
       else do {
         M \<leftarrow> get_node h1 (it_cur it);
         let h2 = put_node h1 (it_cur it) (M\<lparr>nflag := nflag M + 1\<rparr>);
         if nflag M \<noteq> 0 then do { h3 \<leftarrow> ll_unlock h2 (it_l it); Some (0, it, h3) }
         else do {
           L \<leftarrow> get_list h2 (it_l it);
           (h3, L1) \<leftarrow> (if it_prv it \<noteq> 0
                  then do { P \<leftarrow> get_node h2 (it_prv it);
                            Some (put_node h2 (it_prv it) (P\<lparr>nnxt := nnxt M\<rparr>), L) }
                  else Some (h2, L\<lparr>l_initial := nnxt M\<rparr>));
           let L2 = (if it_prv it \<noteq> 0 \<and> l_last L1 = it_cur it
                     then L1\<lparr>l_last := it_prv it\<rparr> else L1);
           M3 \<leftarrow> get_node h3 (it_cur it);
           let h4 = put_node h3 (it_cur it) (M3\<lparr>nnxt := l_initial L2\<rparr>);
           let h5 = put_list h4 (it_l it) (L2\<lparr>l_initial := it_cur it\<rparr>);
           h6 \<leftarrow> ll_unlock h5 (it_l it);
           Some (1, ll_iter_reset it, h6) } } }"

definition ll_iter_remove_data :: "heap \<Rightarrow> lliter \<Rightarrow> (lliter \<times> heap) option" where
  "ll_iter_remove_data h it =
     do { (ob, it', h1) \<leftarrow> ll_iter_remove h it; Some (it', retire h1 ob) }"

definition ll_count :: "heap \<Rightarrow> addr \<Rightarrow> int option" where
  "ll_count h l = (if l = 0 then Some 0 else map_option l_count (get_list h l))"

definition ll_has_elements :: "heap \<Rightarrow> addr \<Rightarrow> addr option" where
  "ll_has_elements h l =
     (if l = 0 then Some 0
      else do {
        L \<leftarrow> get_list h l;
        if l_initial L = 0 then Some 0 else map_option nobj (get_node h (l_initial L)) })"

text \<open>The search loop \<open>while ((data = next (&it))) if (test) break;\<close>, over any iterator.\<close>

partial_function (option) iter_find ::
  "('s \<Rightarrow> 'i \<Rightarrow> (addr \<times> 'i \<times> 's) option) \<Rightarrow> (addr \<Rightarrow> bool) \<Rightarrow> 's \<Rightarrow> 'i \<Rightarrow> (addr \<times> 'i \<times> 's) option"
where
  "iter_find nxt p s i =
     do {
       (d, i', s') \<leftarrow> nxt s i;
       if d = 0 \<or> p d then Some (d, i', s') else iter_find nxt p s' i' }"

definition ll_contains :: "heap \<Rightarrow> addr \<Rightarrow> addr \<Rightarrow> (bool \<times> heap) option" where
  "ll_contains h l ob =
     (if l = 0 \<or> ob = 0 then Some (False, h)
      else do {
        (d, _, h1) \<leftarrow> iter_find ll_iter_next (\<lambda>d. d = ob) h (ll_iter_create l);
        Some (d = ob, h1) })"

text \<open>\<open>mem d\<close> is the memory of the object at \<open>d\<close>; \<open>memcmp\<close> compares the first \<open>size\<close> bytes.\<close>

definition ll_contains_data ::
  "(addr \<Rightarrow> u8 list) \<Rightarrow> heap \<Rightarrow> addr \<Rightarrow> addr \<Rightarrow> nat \<Rightarrow> (addr \<times> heap) option" where
  "ll_contains_data mem h l ob sz =
     (if l = 0 \<or> ob = 0 then Some (0, h)
      else do {
        (d, _, h1) \<leftarrow> iter_find ll_iter_next (\<lambda>d. take sz (mem d) = take sz (mem ob)) h
                       (ll_iter_create l);
        Some (d, h1) })"

partial_function (option) ll_remove_loop ::
  "heap \<Rightarrow> lliter \<Rightarrow> addr \<Rightarrow> int \<Rightarrow> (int \<times> heap) option" where
  "ll_remove_loop h it ob n =
     do {
       (d, it1, h1) \<leftarrow> ll_iter_next h it;
       if d = 0 then Some (n, h1)
       else if d = ob
       then do { (_, it2, h2) \<leftarrow> ll_iter_remove h1 it1; ll_remove_loop h2 it2 ob (n + 1) }
       else ll_remove_loop h1 it1 ob n }"

definition ll_remove :: "heap \<Rightarrow> addr \<Rightarrow> addr \<Rightarrow> (int \<times> heap) option" where
  "ll_remove h l ob = ll_remove_loop h (ll_iter_create l) ob 0"

partial_function (option) ll_remove_data_loop ::
  "heap \<Rightarrow> lliter \<Rightarrow> addr \<Rightarrow> heap option" where
  "ll_remove_data_loop h it ob =
     do {
       (d, it1, h1) \<leftarrow> ll_iter_next h it;
       if d = 0 then Some h1
       else if d = ob
       then do { (it2, h2) \<leftarrow> ll_iter_remove_data h1 it1; ll_remove_data_loop h2 it2 ob }
       else ll_remove_data_loop h1 it1 ob }"

definition ll_remove_data :: "heap \<Rightarrow> addr \<Rightarrow> addr \<Rightarrow> heap option" where
  "ll_remove_data h l ob = ll_remove_data_loop h (ll_iter_create l) ob"

partial_function (option) ll_remove_all_loop ::
  "heap \<Rightarrow> lliter \<Rightarrow> lliter \<Rightarrow> int \<Rightarrow> (int \<times> heap) option" where
  "ll_remove_all_loop h it1 it2 n =
     do {
       (d, it1', h1) \<leftarrow> ll_iter_next h it1;
       if d = 0 then Some (n, h1)
       else do {
         (e, it2', h2) \<leftarrow> iter_find ll_iter_next (\<lambda>e. e = d) h1 (ll_iter_reset it2);
         if e \<noteq> 0
         then do { (_, it1'', h3) \<leftarrow> ll_iter_remove h2 it1'; ll_remove_all_loop h3 it1'' it2' (n + 1) }
         else ll_remove_all_loop h2 it1' it2' n } }"

definition ll_remove_all :: "heap \<Rightarrow> addr \<Rightarrow> addr \<Rightarrow> (int \<times> heap) option" where
  "ll_remove_all h l els = ll_remove_all_loop h (ll_iter_create l) (ll_iter_create els) 0"

text \<open>\<open>ll_sort\<close> copies the objects to an array, calls \<open>qsort\<close>, and writes them back in order.
  \<open>qs\<close> is \<open>qsort\<close> with the caller's comparator.\<close>

partial_function (option) ll_read_objs :: "heap \<Rightarrow> addr \<Rightarrow> addr list option" where
  "ll_read_objs h n =
     (if n = 0 then Some []
      else do { N \<leftarrow> get_node h n; os \<leftarrow> ll_read_objs h (nnxt N); Some (nobj N # os) })"

fun ll_write_objs :: "heap \<Rightarrow> addr \<Rightarrow> addr list \<Rightarrow> heap option" where
  "ll_write_objs h n os =
     (if n = 0 then Some h
      else (case os of [] \<Rightarrow> None
            | ob # os' \<Rightarrow> do { N \<leftarrow> get_node h n;
                               ll_write_objs (put_node h n (N\<lparr>nobj := ob\<rparr>)) (nnxt N) os' }))"

declare ll_write_objs.simps [simp del]

definition ll_sort :: "(addr list \<Rightarrow> addr list) option \<Rightarrow> heap \<Rightarrow> addr \<Rightarrow> heap option" where
  "ll_sort compare h l =
     (if l = 0 then Some h
      else do {
        L0 \<leftarrow> get_list h l;
        case compare of None \<Rightarrow> Some h
        | Some qs \<Rightarrow>
            if l_initial L0 = 0 then Some h
            else do {
              (ok, h1) \<leftarrow> ll_lock h l;
              if \<not> ok then Some h1
              else (case malloc h1 of (p, h2) \<Rightarrow>
                if p = 0 then None
                else do {
                  L \<leftarrow> get_list h2 l;
                  os \<leftarrow> ll_read_objs h2 (l_initial L);
                  h3 \<leftarrow> (if int (length os) \<le> l_count L
                         then ll_write_objs h2 (l_initial L)
                                (qs (os @ replicate (nat (l_count L) - length os) 0)) else None);
                  ll_unlock h3 l }) } })"


section \<open>The abstract list\<close>

type_synonym cell = "addr \<times> addr \<times> u8"

abbreviation c_addr :: "cell \<Rightarrow> addr" where "c_addr c \<equiv> fst c"
abbreviation c_obj :: "cell \<Rightarrow> addr" where "c_obj c \<equiv> fst (snd c)"
abbreviation c_flag :: "cell \<Rightarrow> u8" where "c_flag c \<equiv> snd (snd c)"

named_theorems heap_simps "accessors of the heap"

text \<open>\<open>seg N p xs q\<close>: following \<open>nxt\<close> from \<open>p\<close> passes the cells \<open>xs\<close> and arrives at \<open>q\<close>.\<close>

fun seg :: "(addr \<Rightarrow> llnode option) \<Rightarrow> addr \<Rightarrow> cell list \<Rightarrow> addr \<Rightarrow> bool" where
  "seg N p [] q \<longleftrightarrow> p = q"
| "seg N p (c # xs) q \<longleftrightarrow>
     p = c_addr c \<and> p \<noteq> 0 \<and>
     (case N p of None \<Rightarrow> False
      | Some n \<Rightarrow> nobj n = c_obj c \<and> nflag n = c_flag c \<and> seg N (nnxt n) xs q)"

definition last_addr :: "cell list \<Rightarrow> addr" where
  "last_addr xs = (if xs = [] then 0 else c_addr (last xs))"

definition lrep :: "(addr \<Rightarrow> llnode option) \<Rightarrow> llist \<Rightarrow> cell list \<Rightarrow> bool" where
  "lrep N L xs \<longleftrightarrow>
     seg N (l_initial L) xs 0 \<and> l_last L = last_addr xs \<and> l_count L = int (length xs) \<and>
     l_flag L = 0 \<and> distinct (map fst xs) \<and> (\<forall>c \<in> set xs. c_obj c \<noteq> 0)"

definition llinv :: "heap \<Rightarrow> addr \<Rightarrow> cell list \<Rightarrow> bool" where
  "llinv h l xs \<longleftrightarrow> l \<noteq> 0 \<and>
     (case lists h l of None \<Rightarrow> False | Some L \<Rightarrow> l_wlock L = 0 \<and> lrep (nodes h) L xs)"

text \<open>What an operation on the list at \<open>l\<close> with cells at \<open>A\<close> leaves alone.\<close>

definition framed :: "heap \<Rightarrow> heap \<Rightarrow> addr \<Rightarrow> addr set \<Rightarrow> bool" where
  "framed h h' l A \<longleftrightarrow>
     (\<forall>m. m \<noteq> l \<longrightarrow> lists h' m = lists h m) \<and> (\<forall>a. a \<notin> A \<longrightarrow> nodes h' a = nodes h a)"

section \<open>Lemmas on the heap\<close>

lemma put_list_sel [simp]:
  "nodes (put_list h l L) = nodes h" "garbage (put_list h l L) = garbage h"
  "mallocs (put_list h l L) = mallocs h" "lists (put_list h l L) = (lists h)(l \<mapsto> L)"
  by (simp_all add: put_list_def)

lemma put_node_sel [simp]:
  "nodes (put_node h p n) = (nodes h)(p \<mapsto> n)" "garbage (put_node h p n) = garbage h"
  "mallocs (put_node h p n) = mallocs h" "lists (put_node h p n) = lists h"
  by (simp_all add: put_node_def)

lemma retire_sel [simp]:
  "nodes (retire h p) = nodes h" "mallocs (retire h p) = mallocs h" "lists (retire h p) = lists h"
  "garbage (retire h p) = garbage h @ (if p = 0 then [] else [p])"
  by (simp_all add: retire_def)

lemma get_node_Some [simp]: "p \<noteq> 0 \<Longrightarrow> get_node h p = nodes h p"
  by (simp add: get_node_def)

lemma get_list_Some [simp]: "l \<noteq> 0 \<Longrightarrow> get_list h l = lists h l"
  by (simp add: get_list_def)

lemma put_list_twice [simp]: "put_list (put_list h l L) l L' = put_list h l L'"
  by (simp add: put_list_def)

lemma put_list_same [simp]: "lists h l = Some L \<Longrightarrow> put_list h l L = h"
  by (simp add: put_list_def fun_upd_idem)

lemma unlocked_same [simp]: "l_wlock L = 0 \<Longrightarrow> L\<lparr>l_wlock := 0\<rparr> = L"
  by (cases L) simp

lemma framed_trans: "framed h1 h2 l A \<Longrightarrow> framed h2 h3 l B \<Longrightarrow> framed h1 h3 l (A \<union> B)"
  by (simp add: framed_def)

lemma framed_refl: "framed h h l A"
  by (simp add: framed_def)

lemma framed_mono: "framed h h' l A \<Longrightarrow> A \<subseteq> B \<Longrightarrow> framed h h' l B"
  by (auto simp: framed_def)

section \<open>Lemmas on segments\<close>

lemma last_addr_simps [simp]:
  "last_addr [] = 0" "last_addr [c] = c_addr c"
  "last_addr (xs @ c # ys) = last_addr (c # ys)"
  by (simp_all add: last_addr_def)

lemma last_addr_Cons: "last_addr (c # xs) = (if xs = [] then c_addr c else last_addr xs)"
  by (simp add: last_addr_def)

lemma last_addr_append: "ys \<noteq> [] \<Longrightarrow> last_addr (xs @ ys) = last_addr ys"
  by (simp add: last_addr_def)

lemma seg_append: "seg N p (xs @ ys) q \<longleftrightarrow> (\<exists>r. seg N p xs r \<and> seg N r ys q)"
  by (induction xs arbitrary: p) (auto split: option.splits)

lemma seg_ConsD:
  assumes "seg N p (c # xs) q"
  obtains n where "p = c_addr c" "c_addr c \<noteq> 0" "N (c_addr c) = Some n" "nobj n = c_obj c"
    "nflag n = c_flag c" "seg N (nnxt n) xs q"
  using assms by (auto split: option.splits)

declare seg.simps(2) [simp del]

lemma seg_Nil_head [simp]: "seg N p [] q = (p = q)"
  by simp

lemma seg_upd [simp]: "a \<notin> c_addr ` set xs \<Longrightarrow> seg (N(a := v)) p xs q = seg N p xs q"
  by (induction xs arbitrary: p) (auto simp: seg.simps split: option.splits)

lemma seg_nonzero: "seg N p xs q \<Longrightarrow> c \<in> set xs \<Longrightarrow> c_addr c \<noteq> 0"
  by (induction xs arbitrary: p) (auto simp: seg.simps split: option.splits)

lemma seg_head: "seg N p xs 0 \<Longrightarrow> p = (if xs = [] then 0 else c_addr (hd xs))"
  by (cases xs) (auto simp: seg.simps)

lemma seg_null: "seg N p xs 0 \<Longrightarrow> p = 0 \<longleftrightarrow> xs = []"
  by (cases xs) (auto simp: seg.simps)

lemma seg_cong: "\<forall>c \<in> set xs. N' (c_addr c) = N (c_addr c) \<Longrightarrow> seg N' p xs q = seg N p xs q"
  by (induction xs arbitrary: p) (auto simp: seg.simps split: option.splits)

text \<open>Redirecting the last cell of a segment.\<close>

lemma seg_snoc_redirect:
  assumes "seg N p (xs @ [c]) q" and "c_addr c \<notin> c_addr ` set xs"
    and "N (c_addr c) = Some n"
  shows "seg (N(c_addr c \<mapsto> n\<lparr>nnxt := r\<rparr>)) p (xs @ [c]) r"
  using assms by (auto simp: seg_append seg.simps split: option.splits)

lemma seg_last_node:
  assumes "seg N p xs q" and "xs \<noteq> []"
  obtains n where "N (last_addr xs) = Some n" "last_addr xs \<noteq> 0" "nnxt n = q"
  using assms
proof (cases xs rule: rev_cases)
  case (snoc ys c)
  with assms that show thesis by (auto simp: seg_append seg.simps split: option.splits)
qed simp

lemma last_addr_null: "seg N p xs q \<Longrightarrow> last_addr xs = 0 \<longleftrightarrow> xs = []"
  by (cases "xs = []") (auto elim: seg_last_node)

lemma last_addr_mem: "xs \<noteq> [] \<Longrightarrow> last_addr xs \<in> c_addr ` set xs"
  by (simp add: last_addr_def)

section \<open>The lock\<close>

lemma llinvE:
  assumes "llinv h l xs"
  obtains L where "l \<noteq> 0" "lists h l = Some L" "l_wlock L = 0" "lrep (nodes h) L xs"
    "ll_lock h l = Some (True, put_list h l (L\<lparr>l_wlock := 1\<rparr>))"
proof -
  from assms obtain L where L: "l \<noteq> 0" "lists h l = Some L" "l_wlock L = 0" "lrep (nodes h) L xs"
    by (auto simp: llinv_def split: option.splits)
  then have "ll_lock h l = Some (True, put_list h l (L\<lparr>l_wlock := 1\<rparr>))"
    by (simp add: ll_lock_def lrep_def)
  with L that show thesis by blast
qed

lemma ll_unlock_put [simp]:
  "l \<noteq> 0 \<Longrightarrow> ll_unlock (put_list h l L) l = Some (put_list h l (L\<lparr>l_wlock := l_wlock L - 1\<rparr>))"
  by (simp add: ll_unlock_def)

lemma lrep_upd_wlock [simp]: "lrep N (L\<lparr>l_wlock := w\<rparr>) xs = lrep N L xs"
  by (simp add: lrep_def)

lemma llinv_frame:
  assumes "llinv h l xs" and "framed h h' m A" and "l \<noteq> m" and "A \<inter> c_addr ` set xs = {}"
  shows "llinv h' l xs"
proof -
  have "seg (nodes h') p xs 0 = seg (nodes h) p xs 0" for p
    using assms(2,4) by (intro seg_cong) (auto simp: framed_def)
  moreover have "lists h' l = lists h l"
    using assms(2,3) by (simp add: framed_def)
  ultimately show ?thesis
    using assms(1) by (simp add: llinv_def lrep_def split: option.splits)
qed

section \<open>Iteration\<close>

text \<open>\<open>it_pos l us vs it\<close>: \<open>it\<close> stands on the last cell of \<open>us\<close> (before the first cell when \<open>us\<close> is
  empty) and \<open>vs\<close> is still to come; \<open>it_end l xs it\<close>: it has run off the end of \<open>xs\<close>.\<close>

definition it_pos :: "addr \<Rightarrow> cell list \<Rightarrow> lliter \<Rightarrow> bool" where
  "it_pos l us it \<longleftrightarrow> it_l it = l \<and> it_cur it = last_addr us \<and> it_prv it = last_addr (butlast us)"

definition it_end :: "addr \<Rightarrow> cell list \<Rightarrow> lliter \<Rightarrow> bool" where
  "it_end l xs it \<longleftrightarrow> it_l it = l \<and> it_cur it = 0 \<and> it_prv it = last_addr xs"

lemma it_pos_create: "it_pos l [] (ll_iter_create l)"
  by (simp add: it_pos_def ll_iter_create_def)

lemma it_pos_reset: "it_l it = l \<Longrightarrow> it_pos l [] (ll_iter_reset it)"
  by (simp add: it_pos_def ll_iter_reset_def)

text \<open>One step of \<open>ll_iter_next_nolock\<close>, on any heap that represents the cells (locked or not).\<close>

lemma next_nolock_Cons:
  assumes "l \<noteq> 0" "lists h l = Some L" "lrep (nodes h) L (us @ c # vs)" "it_pos l us it"
  shows "\<exists>it'. ll_iter_next_nolock h it = Some (c_obj c, it') \<and> it_pos l (us @ [c]) it'"
proof (cases "us = []")
  case True
  with assms(3) have "seg (nodes h) (l_initial L) (c # vs) 0" by (simp add: lrep_def)
  then obtain n where "l_initial L = c_addr c" "c_addr c \<noteq> 0" "nodes h (c_addr c) = Some n"
    "nobj n = c_obj c" by (rule seg_ConsD)
  with assms(1,2,4) True show ?thesis
    by (auto simp: ll_iter_next_nolock_def it_pos_def)
next
  case False
  from assms(3) obtain r where r: "seg (nodes h) (l_initial L) us r" "seg (nodes h) r (c # vs) 0"
    by (auto simp: lrep_def seg_append)
  from r(1) False obtain n where n: "nodes h (last_addr us) = Some n" "last_addr us \<noteq> 0" "nnxt n = r"
    by (rule seg_last_node)
  from r(2) obtain m where "r = c_addr c" "c_addr c \<noteq> 0" "nodes h (c_addr c) = Some m"
    "nobj m = c_obj c" by (rule seg_ConsD)
  with assms(1,2,4) n show ?thesis
    by (auto simp: ll_iter_next_nolock_def it_pos_def)
qed

lemma next_nolock_end:
  assumes "l \<noteq> 0" "lists h l = Some L" "lrep (nodes h) L xs" "it_pos l xs it \<or> it_end l xs it"
  shows "\<exists>it'. ll_iter_next_nolock h it = Some (0, it') \<and> it_end l xs it'"
proof (cases "xs = []")
  case True
  with assms show ?thesis
    by (auto simp: ll_iter_next_nolock_def it_pos_def it_end_def lrep_def)
next
  case False
  from assms(3) have seg: "seg (nodes h) (l_initial L) xs 0" by (simp add: lrep_def)
  from seg False obtain n where n: "nodes h (last_addr xs) = Some n" "last_addr xs \<noteq> 0" "nnxt n = 0"
    by (rule seg_last_node)
  with assms(1,2,4) show ?thesis
    by (auto simp: ll_iter_next_nolock_def it_pos_def it_end_def)
qed

text \<open>Taking and giving back the lock around a reader leaves the heap as it was.\<close>

lemma ll_iter_next_lift:
  assumes "llinv h l xs" "it_l it = l"
    and "\<And>h' L. l \<noteq> 0 \<Longrightarrow> lists h' l = Some L \<Longrightarrow> lrep (nodes h') L xs \<Longrightarrow>
           \<exists>it'. ll_iter_next_nolock h' it = Some (r, it') \<and> P it'"
  shows "\<exists>it'. ll_iter_next h it = Some (r, it', h) \<and> P it'"
proof -
  from assms(1) obtain L where L: "l \<noteq> 0" "lists h l = Some L" "l_wlock L = 0"
    "lrep (nodes h) L xs" "ll_lock h l = Some (True, put_list h l (L\<lparr>l_wlock := 1\<rparr>))"
    by (rule llinvE)
  let ?h = "put_list h l (L\<lparr>l_wlock := 1\<rparr>)"
  have "\<exists>it'. ll_iter_next_nolock ?h it = Some (r, it') \<and> P it'"
    using L assms(3) [of ?h "L\<lparr>l_wlock := 1\<rparr>"] by simp
  with L assms(2) show ?thesis by (auto simp: ll_iter_next_def)
qed

lemma ll_iter_next_Cons:
  assumes "llinv h l (us @ c # vs)" "it_pos l us it"
  shows "\<exists>it'. ll_iter_next h it = Some (c_obj c, it', h) \<and> it_pos l (us @ [c]) it'"
  using assms by (intro ll_iter_next_lift next_nolock_Cons) (auto simp: it_pos_def)

lemma ll_iter_next_end:
  assumes "llinv h l xs" "it_pos l xs it \<or> it_end l xs it"
  shows "\<exists>it'. ll_iter_next h it = Some (0, it', h) \<and> it_end l xs it'"
  using assms by (intro ll_iter_next_lift next_nolock_end) (auto simp: it_pos_def it_end_def)

text \<open>The interface the search loops rely on: an iterator that yields a finite sequence of non-null
  objects, leaves the store alone and then answers NULL for ever.\<close>

locale cursor =
  fixes nxt :: "'s \<Rightarrow> 'i \<Rightarrow> (addr \<times> 'i \<times> 's) option"
    and rest :: "'s \<Rightarrow> 'i \<Rightarrow> addr list \<Rightarrow> bool"
  assumes rest_Cons: "rest s i (x # xs) \<Longrightarrow>
      x \<noteq> 0 \<and> (\<exists>i'. nxt s i = Some (x, i', s) \<and> rest s i' xs)"
    and rest_Nil: "rest s i [] \<Longrightarrow> \<exists>i'. nxt s i = Some (0, i', s) \<and> rest s i' []"
begin

lemma find_spec:
  "rest s i xs \<Longrightarrow>
     \<exists>i'. iter_find nxt p s i = Some (case List.find p xs of None \<Rightarrow> 0 | Some x \<Rightarrow> x, i', s)
          \<and> rest s i' (tl (dropWhile (\<lambda>x. \<not> p x) xs))"
proof (induction xs arbitrary: i)
  case Nil
  then obtain i' where "nxt s i = Some (0, i', s)" "rest s i' []" using rest_Nil by blast
  then show ?case by (subst iter_find.simps) simp
next
  case (Cons x xs)
  from rest_Cons [OF Cons.prems] obtain i' where
    x: "x \<noteq> 0" and i': "nxt s i = Some (x, i', s)" "rest s i' xs" by blast
  have step: "iter_find nxt p s i = (if p x then Some (x, i', s) else iter_find nxt p s i')"
    using x i'(1) by (subst iter_find.simps) simp
  show ?case
  proof (cases "p x")
    case True
    with step i'(2) show ?thesis by simp
  next
    case False
    with step Cons.IH [OF i'(2)] show ?thesis by simp
  qed
qed

lemma rest_nonzero: "rest s i xs \<Longrightarrow> 0 \<notin> set xs"
  by (induction xs arbitrary: i) (auto dest: rest_Cons)

lemma find_hit:
  assumes "rest s i xs" "x \<in> set xs" "p x"
  obtains y i' where "iter_find nxt p s i = Some (y, i', s)" "y \<noteq> 0" "y \<in> set xs" "p y"
proof -
  from assms(2,3) obtain y where y: "List.find p xs = Some y" "y \<in> set xs" "p y"
    by (metis find_None_iff find_Some_iff nth_mem option.exhaust)
  have "y \<noteq> 0" using y(2) rest_nonzero [OF assms(1)] by metis
  moreover obtain i' where "iter_find nxt p s i = Some (y, i', s)"
    using find_spec [OF assms(1), of p] y(1) by auto
  ultimately show thesis using y that by blast
qed

lemma find_miss:
  assumes "rest s i xs" "\<forall>x \<in> set xs. \<not> p x"
  obtains i' where "iter_find nxt p s i = Some (0, i', s)"
proof -
  have "List.find p xs = None" using assms(2) by (simp add: find_None_iff)
  with find_spec [OF assms(1), of p] that show thesis by auto
qed

end

definition ll_rest :: "addr \<Rightarrow> heap \<Rightarrow> lliter \<Rightarrow> addr list \<Rightarrow> bool" where
  "ll_rest l h it os \<longleftrightarrow>
     (\<exists>us vs. llinv h l (us @ vs) \<and> os = map c_obj vs \<and>
        (it_pos l us it \<or> vs = [] \<and> it_end l us it))"

lemma llinv_obj: "llinv h l xs \<Longrightarrow> c \<in> set xs \<Longrightarrow> c_obj c \<noteq> 0"
  by (auto simp: llinv_def lrep_def split: option.splits)

interpretation ll: cursor ll_iter_next "ll_rest l" for l
proof unfold_locales
  fix s i x xs
  assume "ll_rest l s i (x # xs)"
  then obtain us c vs where inv: "llinv s l (us @ c # vs)" and x: "x = c_obj c"
    and xs: "xs = map c_obj vs" and pos: "it_pos l us i"
    by (auto simp: ll_rest_def Cons_eq_map_conv)
  from ll_iter_next_Cons [OF inv pos] obtain i' where
    i': "ll_iter_next s i = Some (c_obj c, i', s)" "it_pos l (us @ [c]) i'" by blast
  from inv have "llinv s l ((us @ [c]) @ vs)" by simp
  with i'(2) xs have "ll_rest l s i' xs" unfolding ll_rest_def by blast
  moreover have "c_obj c \<noteq> 0" using inv by (rule llinv_obj) simp
  ultimately show "x \<noteq> 0 \<and> (\<exists>i'. ll_iter_next s i = Some (x, i', s) \<and> ll_rest l s i' xs)"
    using i'(1) x by simp
next
  fix s i
  assume "ll_rest l s i []"
  then obtain us where us: "llinv s l (us @ [])" "it_pos l us i \<or> it_end l us i"
    by (auto simp: ll_rest_def)
  then obtain i' where i': "ll_iter_next s i = Some (0, i', s)" "it_end l us i'"
    using ll_iter_next_end [of s l us i] by auto
  with us(1) have "ll_rest l s i' []" unfolding ll_rest_def by blast
  with i'(1) show "\<exists>i'. ll_iter_next s i = Some (0, i', s) \<and> ll_rest l s i' []" by blast
qed

lemma ll_rest_iter: "ll_rest l h it os \<Longrightarrow> it_l it = l"
  by (auto simp: ll_rest_def it_pos_def it_end_def)

lemma ll_rest_create: "llinv h l xs \<Longrightarrow> ll_rest l h (ll_iter_create l) (map c_obj xs)"
  unfolding ll_rest_def using it_pos_create [of l] by (metis append_Nil)

section \<open>Operations that change the list\<close>

lemma new_node_Some:
  assumes "mallocs h = p # ps" "p \<noteq> 0"
  shows "new_node h = (p, put_node (h\<lparr>mallocs := ps\<rparr>) p \<lparr>nobj = 0, nnxt = 0, nflag = 0\<rparr>)"
  using assms by (simp add: new_node_def malloc_def)

lemma llinvI:
  "l \<noteq> 0 \<Longrightarrow> lists h l = Some L \<Longrightarrow> l_wlock L = 0 \<Longrightarrow> lrep (nodes h) L xs \<Longrightarrow> llinv h l xs"
  by (simp add: llinv_def)

lemma lrep_snoc:
  assumes "lrep N L xs" "p \<noteq> 0" "p \<notin> c_addr ` set xs" "ob \<noteq> 0" "N p = Some \<lparr>nobj = ob, nnxt = 0, nflag = 0\<rparr>"
  shows "lrep (if xs = [] then N else N(last_addr xs \<mapsto> (the (N (last_addr xs)))\<lparr>nnxt := p\<rparr>))
           (L\<lparr>l_initial := if xs = [] then p else l_initial L, l_last := p, l_count := l_count L + 1\<rparr>)
           (xs @ [(p, ob, 0)])"
proof (cases xs rule: rev_cases)
  case Nil
  with assms show ?thesis by (simp add: lrep_def seg.simps)
next
  case (snoc ys c)
  from assms(1) snoc have seg: "seg N (l_initial L) (ys @ [c]) 0"
    and dist: "c_addr c \<notin> c_addr ` set ys" by (auto simp: lrep_def)
  then obtain n where n: "N (c_addr c) = Some n"
    by (auto simp: seg_append seg.simps split: option.splits)
  have "seg (N(c_addr c \<mapsto> n\<lparr>nnxt := p\<rparr>)) (l_initial L) (ys @ [c]) p"
    using seg dist n by (rule seg_snoc_redirect)
  moreover have "seg (N(c_addr c \<mapsto> n\<lparr>nnxt := p\<rparr>)) p [(p, ob, 0)] 0"
    using assms(2,3,5) snoc by (simp add: seg.simps)
  ultimately have "seg (N(c_addr c \<mapsto> n\<lparr>nnxt := p\<rparr>)) (l_initial L) ((ys @ [c]) @ [(p, ob, 0)]) 0"
    by (subst seg_append) blast
  then show ?thesis
    using assms(1-4) snoc n by (auto simp: lrep_def last_addr_Cons)
qed

text \<open>\<open>ll_append_nolock\<close> under the lock; \<open>w\<close> is the lock's value.\<close>

lemma append_nolock_spec:
  assumes "l \<noteq> 0" "lists h l = Some L" "lrep (nodes h) L xs" "ob \<noteq> 0"
    and "mallocs h = p # ps" "p \<noteq> 0" "p \<notin> c_addr ` set xs"
  shows "\<exists>h' L'. ll_append_nolock h l ob = Some (p, h') \<and> lists h' l = Some L' \<and>
     l_wlock L' = l_wlock L \<and> lrep (nodes h') L' (xs @ [(p, ob, 0)]) \<and>
     mallocs h' = ps \<and> garbage h' = garbage h \<and> framed h h' l (insert p (c_addr ` set xs))"
proof -
  let ?N = "(nodes h)(p \<mapsto> \<lparr>nobj = ob, nnxt = 0, nflag = 0\<rparr>)"
  have rep: "lrep ?N L xs"
    using assms(3,7) by (simp add: lrep_def)
  from lrep_snoc [OF this assms(6,7,4)]
  have rep': "lrep (if xs = [] then ?N else ?N(last_addr xs \<mapsto> (the (?N (last_addr xs)))\<lparr>nnxt := p\<rparr>))
     (L\<lparr>l_initial := if xs = [] then p else l_initial L, l_last := p, l_count := l_count L + 1\<rparr>)
     (xs @ [(p, ob, 0)])" by simp
  show ?thesis
  proof (cases "xs = []")
    case True
    with assms rep' show ?thesis
      by (auto simp: ll_append_nolock_def new_node_Some lrep_def framed_def)
  next
    case False
    from rep have "seg ?N (l_initial L) xs 0" by (simp add: lrep_def)
    then obtain n where n: "?N (last_addr xs) = Some n" "last_addr xs \<noteq> 0"
      using False by (rule seg_last_node)
    have "last_addr xs \<noteq> p" using last_addr_mem [OF False] assms(7) by auto
    moreover have "l_last L = last_addr xs" using rep by (simp add: lrep_def)
    ultimately show ?thesis
      using False assms(1,2,4-6) rep' n last_addr_mem [OF False]
      by (auto simp: ll_append_nolock_def new_node_Some framed_def fun_upd_twist)
  qed
qed

lemma ll_append_spec:
  assumes "llinv h l xs" "ob \<noteq> 0" "mallocs h = p # ps" "p \<noteq> 0" "p \<notin> c_addr ` set xs"
  shows "\<exists>h'. ll_append h l ob = Some (p, h') \<and> llinv h' l (xs @ [(p, ob, 0)]) \<and>
     mallocs h' = ps \<and> garbage h' = garbage h \<and> framed h h' l (insert p (c_addr ` set xs))"
proof -
  from assms(1) obtain L where L: "l \<noteq> 0" "lists h l = Some L" "l_wlock L = 0"
    "lrep (nodes h) L xs" "ll_lock h l = Some (True, put_list h l (L\<lparr>l_wlock := 1\<rparr>))"
    by (rule llinvE)
  let ?h = "put_list h l (L\<lparr>l_wlock := 1\<rparr>)"
  from append_nolock_spec [of l ?h "L\<lparr>l_wlock := 1\<rparr>" xs ob p ps] L assms
  obtain h2 L2 where h2: "ll_append_nolock ?h l ob = Some (p, h2)" "lists h2 l = Some L2"
    "l_wlock L2 = 1" "lrep (nodes h2) L2 (xs @ [(p, ob, 0)])" "mallocs h2 = ps"
    "garbage h2 = garbage h" "framed ?h h2 l (insert p (c_addr ` set xs))" by auto
  then have "ll_append h l ob = Some (p, put_list h2 l (L2\<lparr>l_wlock := 0\<rparr>))"
    using L assms(2) by (simp add: ll_append_def ll_unlock_def)
  moreover have "llinv (put_list h2 l (L2\<lparr>l_wlock := 0\<rparr>)) l (xs @ [(p, ob, 0)])"
    using L(1) h2(4) by (simp add: llinv_def)
  moreover have "framed h (put_list h2 l (L2\<lparr>l_wlock := 0\<rparr>)) l (insert p (c_addr ` set xs))"
    using h2(7) by (auto simp: framed_def)
  ultimately show ?thesis using h2(5,6) by auto
qed

text \<open>A failed allocation changes nothing but the answers left.\<close>

lemma ll_append_nomem:
  assumes "llinv h l xs" "ob \<noteq> 0" "mallocs h = 0 # ps \<or> mallocs h = [] \<and> ps = []"
  shows "ll_append h l ob = Some (0, h\<lparr>mallocs := ps\<rparr>)"
proof -
  from assms(1) obtain L where L: "l \<noteq> 0" "lists h l = Some L" "l_wlock L = 0"
    "ll_lock h l = Some (True, put_list h l (L\<lparr>l_wlock := 1\<rparr>))" by (rule llinvE)
  have "new_node (put_list h l (L\<lparr>l_wlock := 1\<rparr>)) =
     (0, (put_list h l (L\<lparr>l_wlock := 1\<rparr>))\<lparr>mallocs := ps\<rparr>)"
    using assms(3) by (auto simp: new_node_def malloc_def put_list_def)
  with L assms(2) show ?thesis
    by (cases h) (simp add: ll_append_def ll_append_nolock_def ll_unlock_def put_list_def fun_upd_idem)
qed

lemma ll_prepend_spec:
  assumes "llinv h l xs" "ob \<noteq> 0" "mallocs h = p # ps" "p \<noteq> 0" "p \<notin> c_addr ` set xs"
  shows "\<exists>h'. ll_prepend h l ob = Some (p, h') \<and> llinv h' l ((p, ob, 0) # xs) \<and>
     mallocs h' = ps \<and> garbage h' = garbage h \<and> framed h h' l {p}"
proof -
  from assms(1) obtain L where L: "l \<noteq> 0" "lists h l = Some L" "l_wlock L = 0"
    "lrep (nodes h) L xs" by (rule llinvE)
  let ?n = "\<lparr>nobj = ob, nnxt = l_initial L, nflag = 0\<rparr>"
  let ?L = "L\<lparr>l_initial := p, l_last := if l_last L = 0 then p else l_last L,
              l_count := l_count L + 1, l_wlock := 0\<rparr>"
  have seg: "seg (nodes h) (l_initial L) xs 0" using L(4) by (simp add: lrep_def)
  have "lrep ((nodes h)(p \<mapsto> ?n)) ?L ((p, ob, 0) # xs)"
    using L(4) assms(2,4,5) last_addr_null [OF seg]
    by (auto simp: lrep_def seg.simps last_addr_Cons)
  moreover have "ll_prepend h l ob =
      Some (p, put_list (put_node (h\<lparr>mallocs := ps\<rparr>) p ?n) l ?L)"
    using L assms(2,3,4)
    by (simp add: ll_prepend_def new_node_Some ll_lock_def lrep_def ll_unlock_def put_list_def
        put_node_def)
  ultimately show ?thesis
    using L(1) by (auto simp: llinv_def framed_def)
qed

text \<open>The loop that walks an iterator back to the predecessor of a removed cell.\<close>

lemma ll_seek_spec:
  assumes "l \<noteq> 0" "lists h l = Some L" "lrep (nodes h) L (us @ ws @ vs)" "it_pos l us it" "ws \<noteq> []"
  shows "\<exists>it'. ll_seek h it (last_addr (us @ ws)) = Some it' \<and> it_pos l (us @ ws) it'"
  using assms(3-5)
proof (induction ws arbitrary: us it)
  case (Cons c ws)
  from Cons.prems(1) have rep: "lrep (nodes h) L (us @ c # ws @ vs)" by simp
  from next_nolock_Cons [OF assms(1,2) rep Cons.prems(2)]
  obtain it1 where it1: "ll_iter_next_nolock h it = Some (c_obj c, it1)" "it_pos l (us @ [c]) it1"
    by blast
  have obj: "c_obj c \<noteq> 0" using rep by (simp add: lrep_def)
  have seg: "seg (nodes h) (l_initial L) ((us @ c # ws) @ vs) 0" using rep by (simp add: lrep_def)
  then obtain r where "seg (nodes h) (l_initial L) (us @ c # ws) r" by (auto simp only: seg_append)
  then have nz: "last_addr (us @ c # ws) \<noteq> 0" by (simp add: last_addr_null del: last_addr_simps)
  have cur: "it_cur it1 = c_addr c" using it1(2) by (simp add: it_pos_def)
  show ?case
  proof (cases "ws = []")
    case True
    with it1 nz cur obj show ?thesis by (subst ll_seek.simps) auto
  next
    case False
    have "distinct (map c_addr (us @ c # ws))" using rep by (auto simp: lrep_def)
    then have "c_addr c \<notin> c_addr ` set ws" by auto
    then have "last_addr ws \<noteq> c_addr c" using last_addr_mem [OF False] by metis
    then have "ll_seek h it (last_addr (us @ c # ws)) = ll_seek h it1 (last_addr ((us @ [c]) @ ws))"
      using it1 nz cur obj False by (subst ll_seek.simps) (auto simp: last_addr_Cons)
    with Cons.IH [of "us @ [c]" it1] rep it1(2) False show ?thesis by auto
  qed
qed simp

lemma ll_seek_reset:
  assumes "l \<noteq> 0" "lists h l = Some L" "lrep (nodes h) L (us @ vs)" "it_l it = l"
  shows "\<exists>it'. ll_seek h (ll_iter_reset it) (last_addr us) = Some it' \<and> it_pos l us it'"
proof (cases "us = []")
  case True
  with it_pos_reset [OF assms(4)] show ?thesis by (subst ll_seek.simps) simp
next
  case False
  with ll_seek_spec [of l h L "[]" us vs "ll_iter_reset it"] assms it_pos_reset [OF assms(4)]
  show ?thesis by simp
qed

text \<open>Unlinking the cell after \<open>us\<close>.\<close>

lemma lrep_parts:
  assumes "lrep N L (us @ c # vs)"
  obtains D where "N (c_addr c) = Some D" "nobj D = c_obj c" "nflag D = c_flag c" "c_addr c \<noteq> 0"
    "seg N (l_initial L) us (c_addr c)" "seg N (nnxt D) vs 0"
  using assms by (auto simp: lrep_def seg_append elim!: seg_ConsD)

lemma lrep_unlink:
  assumes rep: "lrep N L (us @ c # vs)" and D: "N (c_addr c) = Some D"
    and P: "us \<noteq> [] \<Longrightarrow> N (last_addr us) = Some P"
    and L1: "L1 = L\<lparr>l_initial := if us = [] then nnxt D else l_initial L,
                    l_last := last_addr (us @ vs), l_count := l_count L - 1\<rparr>"
  shows "lrep (if us = [] then N(c_addr c \<mapsto> D')
               else N(c_addr c \<mapsto> D', last_addr us \<mapsto> P\<lparr>nnxt := nnxt D\<rparr>)) L1 (us @ vs)"
proof -
  from rep D have seg: "seg N (l_initial L) us (c_addr c)" "seg N (nnxt D) vs 0"
    by (auto elim: lrep_parts)
  have dist: "distinct (map c_addr (us @ c # vs))" using rep by (simp add: lrep_def)
  show ?thesis
  proof (cases us rule: rev_cases)
    case Nil
    with rep seg dist L1 show ?thesis by (auto simp: lrep_def)
  next
    case (snoc ws w)
    then have "seg (N(c_addr c \<mapsto> D')) (l_initial L) (ws @ [w]) (c_addr c)"
      using seg(1) dist by simp
    moreover have "(N(c_addr c \<mapsto> D')) (c_addr w) = Some P" "c_addr w \<notin> c_addr ` set ws"
      using P snoc dist by auto
    ultimately have "seg (N(c_addr c \<mapsto> D', c_addr w \<mapsto> P\<lparr>nnxt := nnxt D\<rparr>)) (l_initial L) (ws @ [w]) (nnxt D)"
      using seg_snoc_redirect by blast
    moreover have "seg (N(c_addr c \<mapsto> D', c_addr w \<mapsto> P\<lparr>nnxt := nnxt D\<rparr>)) (nnxt D) vs 0"
      using seg(2) dist snoc by auto
    ultimately have "seg (N(c_addr c \<mapsto> D', c_addr w \<mapsto> P\<lparr>nnxt := nnxt D\<rparr>)) (l_initial L) (us @ vs) 0"
      unfolding snoc by (subst seg_append) blast
    with rep snoc L1 show ?thesis by (auto simp: lrep_def)
  qed
qed

lemma ll_iter_remove_spec:
  assumes inv: "llinv h l (us @ c # vs)" and pos: "it_pos l (us @ [c]) it" and flag: "c_flag c = 0"
  shows "\<exists>it' h'. ll_iter_remove h it = Some (c_obj c, it', h') \<and> it_pos l us it' \<and>
     llinv h' l (us @ vs) \<and> garbage h' = garbage h @ [c_addr c] \<and> mallocs h' = mallocs h \<and>
     framed h h' l (c_addr ` set (us @ [c]))"
proof -
  from inv obtain L where L: "l \<noteq> 0" "lists h l = Some L" "l_wlock L = 0"
    "lrep (nodes h) L (us @ c # vs)" "ll_lock h l = Some (True, put_list h l (L\<lparr>l_wlock := 1\<rparr>))"
    by (rule llinvE)
  from L(4) obtain D where D: "nodes h (c_addr c) = Some D" "nobj D = c_obj c"
    "nflag D = c_flag c" "c_addr c \<noteq> 0" "seg (nodes h) (l_initial L) us (c_addr c)"
    "seg (nodes h) (nnxt D) vs 0" by (rule lrep_parts)
  have dist: "distinct (map c_addr (us @ c # vs))" using L(4) by (simp add: lrep_def)
  have it: "it_l it = l" "it_cur it = c_addr c" "it_prv it = last_addr us"
    using pos by (auto simp: it_pos_def)
  let ?fst = "if us = [] then nnxt D else l_initial L"
  define L1 where "L1 = L\<lparr>l_initial := ?fst,
     l_last := if ?fst = 0 then 0 else if c_addr c = l_last L then last_addr us else l_last L,
     l_count := l_count L - 1\<rparr>"
  define D' where "D' = D\<lparr>nflag := 1\<rparr>"
  define P where "P = the (nodes h (last_addr us))"
  have P: "us \<noteq> [] \<Longrightarrow> nodes h (last_addr us) = Some P"
    unfolding P_def using seg_last_node [OF D(5)] by (metis option.sel)
  have pz: "last_addr us = 0 \<longleftrightarrow> us = []" using D(5) by (rule last_addr_null)
  have cus: "c_addr c \<notin> c_addr ` set us" "c_addr c \<notin> c_addr ` set vs" using dist by auto
  have pc: "us \<noteq> [] \<Longrightarrow> last_addr us \<noteq> c_addr c" using last_addr_mem cus by metis
  have last: "(if (if us = [] then nnxt D else l_initial L) = 0 then 0
               else if c_addr c = l_last L then last_addr us else l_last L) = last_addr (us @ vs)"
  proof -
    have i: "(if us = [] then nnxt D else l_initial L) = 0 \<longleftrightarrow> us @ vs = []"
    proof -
      have "seg (nodes h) (l_initial L) (us @ c # vs) 0" using L(4) by (simp add: lrep_def)
      from seg_null [OF this] seg_null [OF D(6)] show ?thesis by simp
    qed
    have lst: "l_last L = last_addr (c # vs)" using L(4) by (simp add: lrep_def)
    show ?thesis
    proof (cases "vs = []")
      case False
      then have "last_addr vs \<noteq> c_addr c" using last_addr_mem cus by metis
      with False lst i show ?thesis by (cases vs) (auto simp: last_addr_Cons)
    qed (use lst i in \<open>auto simp: last_addr_Cons\<close>)
  qed
  let ?N = "if us = [] then (nodes h)(c_addr c \<mapsto> D')
               else (nodes h)(c_addr c \<mapsto> D', last_addr us \<mapsto> P\<lparr>nnxt := nnxt D\<rparr>)"
  have rep': "lrep ?N L1 (us @ vs)"
    using L(4) D(1) P L1_def [unfolded last] by (rule lrep_unlink)
  define h4 where "h4 = put_list (h\<lparr>nodes := ?N\<rparr>) l (L1\<lparr>l_wlock := 1\<rparr>)"
  have "\<exists>it'. ll_seek h4 (ll_iter_reset it) (last_addr us) = Some it' \<and> it_pos l us it'"
    using L(1) rep' it(1) by (intro ll_seek_reset [where L = "L1\<lparr>l_wlock := 1\<rparr>"]) (simp_all add: h4_def)
  then obtain it' where it': "ll_seek h4 (ll_iter_reset it) (last_addr us) = Some it'" "it_pos l us it'"
    by blast
  have step: "ll_iter_remove h it =
     Some (c_obj c, it', put_list (retire h4 (c_addr c)) l L1)"
  proof (cases "us = []")
    case True
    with L D it it'(1) flag show ?thesis
      by (cases L) (auto simp: ll_iter_remove_def h4_def L1_def D'_def ll_unlock_def put_list_def
          put_node_def retire_def Let_def split: if_splits)
  next
    case False
    with L D it it'(1) P pz pc flag show ?thesis
      by (cases L) (auto simp: ll_iter_remove_def h4_def L1_def D'_def ll_unlock_def put_list_def
          put_node_def retire_def Let_def split: if_splits)
  qed
  have "llinv (put_list (retire h4 (c_addr c)) l L1) l (us @ vs)"
    using L(1,3) rep' by (simp add: llinv_def h4_def L1_def)
  moreover have "framed h (put_list (retire h4 (c_addr c)) l L1) l (c_addr ` set (us @ [c]))"
    using last_addr_mem by (auto simp: framed_def h4_def)
  ultimately show ?thesis using step it'(2) D(4) by (auto simp: h4_def)
qed

text \<open>A cell whose flag is set is not removed; its flag still counts up.\<close>

lemma ll_iter_remove_flagged:
  assumes inv: "llinv h l (us @ c # vs)" and pos: "it_pos l (us @ [c]) it" and flag: "c_flag c \<noteq> 0"
  shows "\<exists>h'. ll_iter_remove h it = Some (0, it, h') \<and>
     llinv h' l (us @ (c_addr c, c_obj c, c_flag c + 1) # vs) \<and> garbage h' = garbage h \<and>
     mallocs h' = mallocs h \<and> framed h h' l (c_addr ` set (us @ [c]))"
proof -
  from inv obtain L where L: "l \<noteq> 0" "lists h l = Some L" "l_wlock L = 0"
    "lrep (nodes h) L (us @ c # vs)" "ll_lock h l = Some (True, put_list h l (L\<lparr>l_wlock := 1\<rparr>))"
    by (rule llinvE)
  from L(4) obtain D where D: "nodes h (c_addr c) = Some D" "nobj D = c_obj c"
    "nflag D = c_flag c" "c_addr c \<noteq> 0" "seg (nodes h) (l_initial L) us (c_addr c)"
    "seg (nodes h) (nnxt D) vs 0" by (rule lrep_parts)
  have it: "it_l it = l" "it_cur it = c_addr c" using pos by (auto simp: it_pos_def)
  let ?h = "put_node h (c_addr c) (D\<lparr>nflag := c_flag c + 1\<rparr>)"
  have "ll_iter_remove h it = Some (0, it, ?h)"
    using L it D flag
    by (simp add: ll_iter_remove_def ll_unlock_def put_list_def put_node_def Let_def)
       (cases h, simp add: fun_upd_idem)
  moreover have "llinv ?h l (us @ (c_addr c, c_obj c, c_flag c + 1) # vs)"
  proof -
    have "c_addr c \<notin> c_addr ` set us" "c_addr c \<notin> c_addr ` set vs" using L(4) by (auto simp: lrep_def)
    then have "seg (nodes ?h) (l_initial L) (us @ (c_addr c, c_obj c, c_flag c + 1) # vs) 0"
      using D by (auto simp: seg_append seg.simps)
    with L show ?thesis by (auto simp: llinv_def lrep_def last_addr_Cons)
  qed
  ultimately show ?thesis by (auto simp: framed_def)
qed

lemma lrep_cons:
  assumes "lrep N L xs" "a \<noteq> 0" "a \<notin> c_addr ` set xs" "ob \<noteq> 0"
  shows "lrep (N(a \<mapsto> \<lparr>nobj = ob, nnxt = l_initial L, nflag = f\<rparr>))
           (L\<lparr>l_initial := a, l_last := last_addr ((a, ob, f) # xs), l_count := l_count L + 1\<rparr>)
           ((a, ob, f) # xs)"
  using assms by (auto simp: lrep_def seg.simps)

lemma ll_iter_move_first_spec:
  assumes inv: "llinv h l (us @ c # vs)" and pos: "it_pos l (us @ [c]) it" and flag: "c_flag c = 0"
  shows "\<exists>h'. ll_iter_move_first h it = Some (1, ll_iter_reset it, h') \<and>
     llinv h' l ((c_addr c, c_obj c, 1) # us @ vs) \<and> garbage h' = garbage h \<and>
     mallocs h' = mallocs h \<and> framed h h' l (c_addr ` set (us @ [c]))"
proof -
  from inv obtain L where L: "l \<noteq> 0" "lists h l = Some L" "l_wlock L = 0"
    "lrep (nodes h) L (us @ c # vs)" "ll_lock h l = Some (True, put_list h l (L\<lparr>l_wlock := 1\<rparr>))"
    by (rule llinvE)
  from L(4) obtain D where D: "nodes h (c_addr c) = Some D" "nobj D = c_obj c"
    "nflag D = c_flag c" "c_addr c \<noteq> 0" "seg (nodes h) (l_initial L) us (c_addr c)"
    "seg (nodes h) (nnxt D) vs 0" by (rule lrep_parts)
  have cus: "c_addr c \<notin> c_addr ` set us" "c_addr c \<notin> c_addr ` set vs" using L(4) by (auto simp: lrep_def)
  have ob: "c_obj c \<noteq> 0" using L(4) by (simp add: lrep_def)
  have it: "it_l it = l" "it_cur it = c_addr c" "it_prv it = last_addr us"
    using pos by (auto simp: it_pos_def)
  define P where "P = the (nodes h (last_addr us))"
  have P: "us \<noteq> [] \<Longrightarrow> nodes h (last_addr us) = Some P"
    unfolding P_def using seg_last_node [OF D(5)] by (metis option.sel)
  have pz: "last_addr us = 0 \<longleftrightarrow> us = []" using D(5) by (rule last_addr_null)
  have pc: "us \<noteq> [] \<Longrightarrow> last_addr us \<noteq> c_addr c" using last_addr_mem cus by metis
  have lst: "l_last L = last_addr (c # vs)" using L(4) by (simp add: lrep_def)
  have vsc: "vs \<noteq> [] \<Longrightarrow> last_addr vs \<noteq> c_addr c" using last_addr_mem cus by metis
  let ?L1 = "L\<lparr>l_initial := if us = [] then nnxt D else l_initial L,
               l_last := last_addr (us @ vs), l_count := l_count L - 1\<rparr>"
  let ?N1 = "if us = [] then (nodes h)(c_addr c \<mapsto> D)
             else (nodes h)(c_addr c \<mapsto> D, last_addr us \<mapsto> P\<lparr>nnxt := nnxt D\<rparr>)"
  let ?N2 = "?N1(c_addr c \<mapsto> \<lparr>nobj = c_obj c, nnxt = l_initial ?L1, nflag = 1\<rparr>)"
  let ?L2 = "?L1\<lparr>l_initial := c_addr c, l_last := last_addr ((c_addr c, c_obj c, 1) # us @ vs),
               l_count := l_count ?L1 + 1\<rparr>"
  have rep: "lrep ?N2 ?L2 ((c_addr c, c_obj c, 1) # us @ vs)"
    using lrep_unlink [OF L(4) D(1) P refl] D(4) cus ob by (intro lrep_cons) auto
  have "last_addr ((c_addr c, c_obj c, 1) # us @ vs) =
      (if us \<noteq> [] \<and> l_last L = c_addr c then last_addr us else l_last L)"
    using lst vsc by (cases "vs = []") (auto simp: last_addr_def)
  then have step: "ll_iter_move_first h it = Some (1, ll_iter_reset it, put_list (h\<lparr>nodes := ?N2\<rparr>) l ?L2)"
    using L D it P pz pc flag
    by (cases L; cases D; cases "us = []")
       (auto simp: ll_iter_move_first_def ll_unlock_def put_list_def put_node_def Let_def fun_upd_twist)
  have "llinv (put_list (h\<lparr>nodes := ?N2\<rparr>) l ?L2) l ((c_addr c, c_obj c, 1) # us @ vs)"
    using L(1,3) rep by (simp add: llinv_def)
  moreover have "framed h (put_list (h\<lparr>nodes := ?N2\<rparr>) l ?L2) l (c_addr ` set (us @ [c]))"
    using last_addr_mem by (auto simp: framed_def)
  ultimately show ?thesis using step by auto
qed

section \<open>Insertion at an iterator\<close>

lemma lrep_insert:
  assumes rep: "lrep N L (us @ vs)" and us: "us \<noteq> []" and vs: "vs \<noteq> []" and C: "N (last_addr us) = Some C"
    and new: "p \<noteq> 0" "p \<notin> c_addr ` set (us @ vs)" "ob \<noteq> 0"
  shows "lrep (N(p \<mapsto> \<lparr>nobj = ob, nnxt = nnxt C, nflag = 0\<rparr>, last_addr us \<mapsto> C\<lparr>nnxt := p\<rparr>))
           (L\<lparr>l_count := l_count L + 1\<rparr>) (us @ (p, ob, 0) # vs)"
proof -
  let ?N = "N(p \<mapsto> \<lparr>nobj = ob, nnxt = nnxt C, nflag = 0\<rparr>, last_addr us \<mapsto> C\<lparr>nnxt := p\<rparr>)"
  from us obtain ws w where snoc: "us = ws @ [w]" by (cases us rule: rev_cases) auto
  from rep obtain r where r: "seg N (l_initial L) (ws @ [w]) r" "seg N r vs 0"
    unfolding snoc lrep_def by (subst (asm) seg_append) blast
  have dist: "c_addr w \<notin> c_addr ` set ws" "c_addr w \<notin> c_addr ` set vs" "c_addr w \<noteq> p"
    "p \<notin> c_addr ` set ws" "p \<notin> c_addr ` set vs"
    using rep new snoc by (auto simp: lrep_def)
  have rC: "r = nnxt C" using seg_last_node [OF r(1)] C snoc by (metis append_is_Nil_conv not_Cons_self2 option.sel)
  have "seg (N(p \<mapsto> \<lparr>nobj = ob, nnxt = nnxt C, nflag = 0\<rparr>)) (l_initial L) (ws @ [w]) r"
    using r(1) dist by simp
  then have "seg ?N (l_initial L) (ws @ [w]) p"
    using seg_snoc_redirect [of _ _ ws w r C p] C dist snoc by auto
  moreover have "seg ?N p ((p, ob, 0) # vs) 0"
    using r(2) rC dist new snoc by (simp add: seg.simps)
  ultimately have "seg ?N (l_initial L) (us @ (p, ob, 0) # vs) 0"
    unfolding snoc by (subst seg_append) blast
  with rep new vs show ?thesis by (auto simp: lrep_def last_addr_Cons last_addr_append)
qed

text \<open>The position an insertion takes effect at: after the current cell, at the end of the list
  when the iterator stands on no cell or on the last one.\<close>

lemma ll_iter_insert_spec:
  assumes inv: "llinv h l (us @ vs)" and pos: "it_pos l us it" and ob: "ob \<noteq> 0"
    and new: "mallocs h = p # ps" "p \<noteq> 0" "p \<notin> c_addr ` set (us @ vs)"
  shows "\<exists>h'. ll_iter_insert h it ob = Some h' \<and> mallocs h' = ps \<and> garbage h' = garbage h \<and>
     llinv h' l (if us = [] then vs @ [(p, ob, 0)] else us @ (p, ob, 0) # vs)"
proof -
  from inv obtain L where L: "l \<noteq> 0" "lists h l = Some L" "l_wlock L = 0"
    "lrep (nodes h) L (us @ vs)" "ll_lock h l = Some (True, put_list h l (L\<lparr>l_wlock := 1\<rparr>))"
    by (rule llinvE)
  let ?h = "put_list h l (L\<lparr>l_wlock := 1\<rparr>)"
  from append_nolock_spec [of l ?h "L\<lparr>l_wlock := 1\<rparr>" "us @ vs" ob p ps] L ob new
  obtain h2 L2 where app: "ll_append_nolock ?h l ob = Some (p, h2)" "lists h2 l = Some L2"
    "l_wlock L2 = 1" "lrep (nodes h2) L2 ((us @ vs) @ [(p, ob, 0)])" "mallocs h2 = ps"
    "garbage h2 = garbage h" by auto
  have inv2: "llinv (put_list h2 l (L2\<lparr>l_wlock := 0\<rparr>)) l ((us @ vs) @ [(p, ob, 0)])"
    using L(1) app(4) by (simp add: llinv_def)
  show ?thesis
  proof (cases "us = []")
    case True
    with L app inv2 pos ob show ?thesis
      by (auto simp: ll_iter_insert_def it_pos_def ll_unlock_def)
  next
    case False
    from L(4) obtain r where r: "seg (nodes h) (l_initial L) us r" "seg (nodes h) r vs 0"
      by (auto simp: lrep_def seg_append)
    obtain C where C: "nodes h (last_addr us) = Some C" "last_addr us \<noteq> 0" "nnxt C = r"
      using seg_last_node [OF r(1) False] by blast
    show ?thesis
    proof (cases "vs = []")
      case True
      with False L app inv2 pos ob C r show ?thesis
        by (auto simp: ll_iter_insert_def it_pos_def ll_unlock_def)
    next
      case nonempty: False
      have "r \<noteq> 0" using r(2) nonempty seg_null by metis
      have lp: "last_addr us \<noteq> p" using last_addr_mem [OF False] new(3) by auto
      let ?N = "(nodes h)(p \<mapsto> \<lparr>nobj = ob, nnxt = nnxt C, nflag = 0\<rparr>, last_addr us \<mapsto> C\<lparr>nnxt := p\<rparr>)"
      let ?h' = "put_list (h\<lparr>mallocs := ps, nodes := ?N\<rparr>) l (L\<lparr>l_count := l_count L + 1\<rparr>)"
      have "lrep ?N (L\<lparr>l_count := l_count L + 1\<rparr>) (us @ (p, ob, 0) # vs)"
        using L(4) False nonempty C(1) new(2,3) ob by (rule lrep_insert)
      then have "llinv ?h' l (us @ (p, ob, 0) # vs)" using L(1,3) by (simp add: llinv_def)
      moreover have "ll_iter_insert h it ob = Some ?h'"
        using L False pos ob C \<open>r \<noteq> 0\<close> lp new(1,2)
        by (cases L) (auto simp: ll_iter_insert_def it_pos_def ll_unlock_def new_node_Some put_list_def
            put_node_def Let_def)
      ultimately show ?thesis using False by auto
    qed
  qed
qed

section \<open>Clearing and destroying\<close>

definition cleared :: "bool \<Rightarrow> cell list \<Rightarrow> addr list" where
  "cleared d xs = concat (map (\<lambda>c. if c_flag c = 0 then (if d then [c_obj c] else []) @ [c_addr c] else []) xs)"

lemma ll_clear_nodes_spec:
  assumes "seg (nodes h) p xs 0" "distinct (map c_addr xs)" "\<forall>c \<in> set xs. c_obj c \<noteq> 0"
  shows "\<exists>h'. ll_clear_nodes h p d = Some h' \<and> lists h' = lists h \<and> mallocs h' = mallocs h \<and>
     garbage h' = garbage h @ cleared d xs \<and> (\<forall>a. a \<notin> c_addr ` set xs \<longrightarrow> nodes h' a = nodes h a)"
  using assms
proof (induction xs arbitrary: h p)
  case Nil
  then show ?case by (subst ll_clear_nodes.simps) (simp add: cleared_def)
next
  case (Cons c xs)
  from Cons.prems(1) obtain n where n: "p = c_addr c" "c_addr c \<noteq> 0" "nodes h (c_addr c) = Some n"
    "nobj n = c_obj c" "nflag n = c_flag c" "seg (nodes h) (nnxt n) xs 0" by (rule seg_ConsD)
  let ?h1 = "put_node h p (n\<lparr>nflag := nflag n + 1\<rparr>)"
  let ?h2 = "if nflag n = 0 then retire (if d then retire ?h1 (nobj n) else ?h1) p else ?h1"
  have "nodes ?h2 = (nodes h)(p \<mapsto> n\<lparr>nflag := nflag n + 1\<rparr>)" by simp
  then have "seg (nodes ?h2) (nnxt n) xs 0" using n Cons.prems(2) by simp
  from Cons.IH [OF this] Cons.prems(2,3) obtain h' where h': "ll_clear_nodes ?h2 (nnxt n) d = Some h'"
    "lists h' = lists ?h2" "mallocs h' = mallocs ?h2" "garbage h' = garbage ?h2 @ cleared d xs"
    "\<forall>a. a \<notin> c_addr ` set xs \<longrightarrow> nodes h' a = nodes ?h2 a" by auto
  have "ll_clear_nodes h p d = Some h'"
    using n h'(1) by (subst ll_clear_nodes.simps) (auto simp: Let_def split: if_splits)
  moreover have "garbage h' = garbage h @ cleared d (c # xs)"
    using h'(4) n Cons.prems(3) by (simp add: cleared_def)
  ultimately show ?case using h' n(1) by auto
qed

lemma ll_clear_int_spec:
  assumes "llinv h l xs"
  shows "\<exists>h'. ll_clear_int h l d = Some h' \<and> llinv h' l [] \<and> garbage h' = garbage h @ cleared d xs \<and>
     mallocs h' = mallocs h \<and> framed h h' l (c_addr ` set xs)"
proof -
  from assms obtain L where L: "l \<noteq> 0" "lists h l = Some L" "l_wlock L = 0"
    "lrep (nodes h) L xs" "ll_lock h l = Some (True, put_list h l (L\<lparr>l_wlock := 1\<rparr>))"
    by (rule llinvE)
  let ?h = "put_list h l (L\<lparr>l_wlock := 1\<rparr>)"
  have "seg (nodes ?h) (l_initial L) xs 0" "distinct (map c_addr xs)" "\<forall>c \<in> set xs. c_obj c \<noteq> 0"
    using L(4) by (auto simp: lrep_def)
  from ll_clear_nodes_spec [OF this] obtain h' where h': "ll_clear_nodes ?h (l_initial L) d = Some h'"
    "lists h' = lists ?h" "mallocs h' = mallocs h" "garbage h' = garbage h @ cleared d xs"
    "\<forall>a. a \<notin> c_addr ` set xs \<longrightarrow> nodes h' a = nodes h a" by auto
  let ?L = "L\<lparr>l_count := 0, l_initial := 0, l_last := 0\<rparr>"
  have "ll_clear_int h l d = Some (put_list h' l ?L)"
    using L h' by (cases L) (simp add: ll_clear_int_def)
  moreover have "llinv (put_list h' l ?L) l []"
    using L by (simp add: llinv_def lrep_def)
  ultimately show ?thesis using h' by (auto simp: framed_def)
qed

section \<open>The loops built on the iterator\<close>

text \<open>What \<open>ll_remove\<close> leaves of a list: cells of other objects, and the cells of this object whose
  flag was already set (counted up).\<close>

definition survives :: "(addr \<Rightarrow> bool) \<Rightarrow> cell \<Rightarrow> cell list" where
  "survives p c =
     (if \<not> p (c_obj c) then [c] else if c_flag c = 0 then [] else [(c_addr c, c_obj c, c_flag c + 1)])"

definition retained :: "(addr \<Rightarrow> bool) \<Rightarrow> cell list \<Rightarrow> cell list" where
  "retained p xs = concat (map (survives p) xs)"

lemma retained_simps [simp]:
  "retained p [] = []" "retained p (c # xs) = survives p c @ retained p xs"
  by (simp_all add: retained_def)

lemma retained_unflagged:
  "\<forall>c \<in> set xs. c_flag c = 0 \<Longrightarrow> retained p xs = filter (\<lambda>c. \<not> p (c_obj c)) xs"
  by (induction xs) (auto simp: survives_def)

lemma it_pos_end_Nil: "it_end l us it \<Longrightarrow> it_l it = l"
  by (simp add: it_end_def)

text \<open>One round of a removal loop, from a cell that matches.\<close>

lemma remove_round:
  assumes inv: "llinv h l (us @ c # vs)" and pos: "it_pos l (us @ [c]) it" and p: "p (c_obj c)"
  shows "\<exists>it' h' r. ll_iter_remove h it = Some (r, it', h') \<and> it_pos l (us @ survives p c) it' \<and>
     llinv h' l ((us @ survives p c) @ vs) \<and> framed h h' l (c_addr ` set (us @ [c])) \<and>
     garbage h' = garbage h @ (if c_flag c = 0 then [c_addr c] else []) \<and> mallocs h' = mallocs h \<and>
     (c_flag c = 0 \<longrightarrow> r = c_obj c) \<and> (c_flag c \<noteq> 0 \<longrightarrow> r = 0)"
proof (cases "c_flag c = 0")
  case True
  with ll_iter_remove_spec [OF inv pos] p show ?thesis by (auto simp: survives_def)
next
  case False
  from ll_iter_remove_flagged [OF inv pos False] obtain h' where h': "ll_iter_remove h it = Some (0, it, h')"
    "llinv h' l (us @ (c_addr c, c_obj c, c_flag c + 1) # vs)" "garbage h' = garbage h"
    "mallocs h' = mallocs h" "framed h h' l (c_addr ` set (us @ [c]))" by blast
  have "it_pos l (us @ [(c_addr c, c_obj c, c_flag c + 1)]) it"
    using pos by (simp add: it_pos_def)
  with h' False p show ?thesis by (simp add: survives_def)
qed

lemma ll_remove_loop_spec:
  assumes "llinv h l (us @ vs)" "it_pos l us it" "ob \<noteq> 0"
  shows "\<exists>h'. ll_remove_loop h it ob n = Some (n + int (count_list (map c_obj vs) ob), h') \<and>
     llinv h' l (us @ retained (\<lambda>d. d = ob) vs) \<and>
     garbage h' = garbage h @ cleared False (filter (\<lambda>c. c_obj c = ob) vs)"
  using assms
proof (induction vs arbitrary: h us it n)
  case Nil
  from ll_iter_next_end [of h l us it] Nil.prems obtain it' where "ll_iter_next h it = Some (0, it', h)"
    by auto
  then have "ll_remove_loop h it ob n = Some (n, h)" by (subst ll_remove_loop.simps) simp
  with Nil.prems show ?case by (simp add: cleared_def)
next
  case (Cons c vs)
  from ll_iter_next_Cons [OF Cons.prems(1,2)] obtain it1 where
    it1: "ll_iter_next h it = Some (c_obj c, it1, h)" "it_pos l (us @ [c]) it1" by blast
  have nz: "c_obj c \<noteq> 0" using Cons.prems(1) by (rule llinv_obj) simp
  show ?case
  proof (cases "c_obj c = ob")
    case True
    from remove_round [OF Cons.prems(1) it1(2), of "\<lambda>d. d = ob"] True
    obtain it2 h2 r where h2: "ll_iter_remove h it1 = Some (r, it2, h2)"
      "it_pos l (us @ survives (\<lambda>d. d = ob) c) it2" "llinv h2 l ((us @ survives (\<lambda>d. d = ob) c) @ vs)"
      "garbage h2 = garbage h @ (if c_flag c = 0 then [c_addr c] else [])" by auto
    have "ll_remove_loop h it ob n = ll_remove_loop h2 it2 ob (n + 1)"
      using it1 h2(1) True Cons.prems(3) by (subst ll_remove_loop.simps) simp
    with Cons.IH [OF h2(3,2) Cons.prems(3), of "n + 1"] h2(4) True show ?thesis
      by (auto simp: cleared_def)
  next
    case False
    have "ll_remove_loop h it ob n = ll_remove_loop h it1 ob n"
      using it1 nz False by (subst ll_remove_loop.simps) simp
    moreover have "llinv h l ((us @ [c]) @ vs)" using Cons.prems(1) by simp
    ultimately show ?thesis
      using Cons.IH [OF _ it1(2) Cons.prems(3), of h n] False by (simp add: survives_def)
  qed
qed

lemma ll_remove_data_loop_spec:
  assumes "llinv h l (us @ vs)" "it_pos l us it" "ob \<noteq> 0"
  shows "\<exists>h'. ll_remove_data_loop h it ob = Some h' \<and> llinv h' l (us @ retained (\<lambda>d. d = ob) vs)"
  using assms
proof (induction vs arbitrary: h us it)
  case Nil
  from ll_iter_next_end [of h l us it] Nil.prems obtain it' where "ll_iter_next h it = Some (0, it', h)"
    by auto
  then have "ll_remove_data_loop h it ob = Some h" by (subst ll_remove_data_loop.simps) simp
  with Nil.prems show ?case by simp
next
  case (Cons c vs)
  from ll_iter_next_Cons [OF Cons.prems(1,2)] obtain it1 where
    it1: "ll_iter_next h it = Some (c_obj c, it1, h)" "it_pos l (us @ [c]) it1" by blast
  have nz: "c_obj c \<noteq> 0" using Cons.prems(1) by (rule llinv_obj) simp
  show ?case
  proof (cases "c_obj c = ob")
    case True
    from remove_round [OF Cons.prems(1) it1(2), of "\<lambda>d. d = ob"] True
    obtain it2 h2 r where h2: "ll_iter_remove h it1 = Some (r, it2, h2)"
      "it_pos l (us @ survives (\<lambda>d. d = ob) c) it2" "llinv h2 l ((us @ survives (\<lambda>d. d = ob) c) @ vs)"
      by auto
    have "llinv (retire h2 r) l ((us @ survives (\<lambda>d. d = ob) c) @ vs)"
      using h2(3) by (simp add: llinv_def split: option.splits)
    moreover have "ll_remove_data_loop h it ob = ll_remove_data_loop (retire h2 r) it2 ob"
      using it1 h2(1) True Cons.prems(3)
      by (subst ll_remove_data_loop.simps) (simp add: ll_iter_remove_data_def)
    ultimately show ?thesis
      using Cons.IH [OF _ h2(2) Cons.prems(3), of "retire h2 r"] True by auto
  next
    case False
    have "ll_remove_data_loop h it ob = ll_remove_data_loop h it1 ob"
      using it1 nz False by (subst ll_remove_data_loop.simps) simp
    moreover have "llinv h l ((us @ [c]) @ vs)" using Cons.prems(1) by simp
    ultimately show ?thesis
      using Cons.IH [OF _ it1(2) Cons.prems(3), of h] False by (simp add: survives_def)
  qed
qed

text \<open>\<open>ll_remove_all\<close> walks the second list once per element of the first; the lists do not share
  nodes.\<close>

lemma llinv_disjoint_framed:
  "llinv h m ys \<Longrightarrow> framed h h' l A \<Longrightarrow> l \<noteq> m \<Longrightarrow> A \<inter> c_addr ` set ys = {} \<Longrightarrow> llinv h' m ys"
  using llinv_frame by metis

lemma find_eq_self:
  "(case List.find (\<lambda>e. e = x) xs of None \<Rightarrow> 0 | Some y \<Rightarrow> y) = (if x \<in> set xs then x else (0 :: addr))"
  by (induction xs) auto

lemma survives_addr: "c_addr ` set (survives p c) \<subseteq> {c_addr c}"
  by (auto simp: survives_def)

lemma ll_remove_all_loop_spec:
  assumes "llinv h l (us @ vs)" "it_pos l us it1" "llinv h m ys" "it_l it2 = m" "l \<noteq> m"
    and "c_addr ` set (us @ vs) \<inter> c_addr ` set ys = {}"
  shows "\<exists>h'. ll_remove_all_loop h it1 it2 n =
       Some (n + int (length (filter (\<lambda>d. d \<in> c_obj ` set ys) (map c_obj vs))), h') \<and>
     llinv h' l (us @ retained (\<lambda>d. d \<in> c_obj ` set ys) vs) \<and> llinv h' m ys"
  using assms
proof (induction vs arbitrary: h us it1 it2 n)
  case Nil
  from ll_iter_next_end [of h l us it1] Nil.prems(1,2) obtain it' where
    "ll_iter_next h it1 = Some (0, it', h)" by auto
  then have "ll_remove_all_loop h it1 it2 n = Some (n, h)" by (subst ll_remove_all_loop.simps) simp
  with Nil.prems show ?case by simp
next
  case (Cons c vs)
  let ?p = "\<lambda>d. d \<in> c_obj ` set ys"
  from ll_iter_next_Cons [OF Cons.prems(1,2)] obtain it1' where
    it1': "ll_iter_next h it1 = Some (c_obj c, it1', h)" "it_pos l (us @ [c]) it1'" by blast
  have nz: "c_obj c \<noteq> 0" using Cons.prems(1) by (rule llinv_obj) simp
  have rest: "ll_rest m h (ll_iter_reset it2) (map c_obj ys)"
    unfolding ll_rest_def using Cons.prems(3) it_pos_reset [OF Cons.prems(4)] by (metis append_Nil)
  from ll.find_spec [OF rest, of "\<lambda>e. e = c_obj c"] obtain it2' where
    f: "iter_find ll_iter_next (\<lambda>e. e = c_obj c) h (ll_iter_reset it2) =
      Some (case List.find (\<lambda>e. e = c_obj c) (map c_obj ys) of None \<Rightarrow> 0 | Some x \<Rightarrow> x, it2', h)"
    and r2: "ll_rest m h it2' (tl (dropWhile (\<lambda>x. x \<noteq> c_obj c) (map c_obj ys)))" by auto
  have it2': "it_l it2' = m" using r2 by (rule ll_rest_iter)
  have found: "(case List.find (\<lambda>e. e = c_obj c) (map c_obj ys) of None \<Rightarrow> 0 | Some x \<Rightarrow> x) =
      (if ?p (c_obj c) then c_obj c else 0)"
    using find_eq_self [of "c_obj c" "map c_obj ys"] by simp
  show ?case
  proof (cases "?p (c_obj c)")
    case True
    from remove_round [OF Cons.prems(1) it1'(2), of ?p] True
    obtain it1'' h3 r where h3: "ll_iter_remove h it1' = Some (r, it1'', h3)"
      "it_pos l (us @ survives ?p c) it1''" "llinv h3 l ((us @ survives ?p c) @ vs)"
      "framed h h3 l (c_addr ` set (us @ [c]))" by blast
    have m: "llinv h3 m ys"
      using Cons.prems(3) h3(4) Cons.prems(5) by (rule llinv_disjoint_framed) (use Cons.prems(6) in auto)
    have disj: "c_addr ` set ((us @ survives ?p c) @ vs) \<inter> c_addr ` set ys = {}"
    proof -
      have "c_addr ` set ((us @ survives ?p c) @ vs) \<subseteq> c_addr ` set (us @ c # vs)"
        using survives_addr [of ?p c] by (auto simp: image_Un)
      with Cons.prems(6) show ?thesis by blast
    qed
    have "ll_remove_all_loop h it1 it2 n = ll_remove_all_loop h3 it1'' it2' (n + 1)"
      using it1'(1) nz f found True h3(1) by (subst ll_remove_all_loop.simps) simp
    with Cons.IH [OF h3(3,2) m it2' Cons.prems(5) disj, of "n + 1"] True show ?thesis by auto
  next
    case False
    have "ll_remove_all_loop h it1 it2 n = ll_remove_all_loop h it1' it2' n"
      using it1'(1) nz f found False by (subst ll_remove_all_loop.simps) simp
    moreover have "llinv h l ((us @ [c]) @ vs)" "c_addr ` set ((us @ [c]) @ vs) \<inter> c_addr ` set ys = {}"
      using Cons.prems(1,6) by auto
    ultimately show ?thesis
      using Cons.IH [OF _ it1'(2) Cons.prems(3) it2' Cons.prems(5), of n] False
      by (simp add: survives_def)
  qed
qed

section \<open>Sorting\<close>

lemma ll_read_objs_spec:
  "seg (nodes h) p xs 0 \<Longrightarrow> ll_read_objs h p = Some (map c_obj xs)"
proof (induction xs arbitrary: p)
  case Nil
  then show ?case by (subst ll_read_objs.simps) simp
next
  case (Cons c xs)
  from Cons.prems obtain n where n: "p = c_addr c" "c_addr c \<noteq> 0" "nodes h (c_addr c) = Some n"
    "nobj n = c_obj c" "nflag n = c_flag c" "seg (nodes h) (nnxt n) xs 0" by (rule seg_ConsD)
  with Cons.IH [OF n(6)] show ?case by (subst ll_read_objs.simps) simp
qed

definition set_objs :: "cell list \<Rightarrow> addr list \<Rightarrow> cell list" where
  "set_objs xs os = map (\<lambda>(c, ob). (c_addr c, ob, c_flag c)) (zip xs os)"

lemma set_objs_sel:
  "length os = length xs \<Longrightarrow> map c_addr (set_objs xs os) = map c_addr xs"
  "length os = length xs \<Longrightarrow> map c_flag (set_objs xs os) = map c_flag xs"
  "length os = length xs \<Longrightarrow> map c_obj (set_objs xs os) = os"
  by (induction xs os rule: list_induct2') (auto simp: set_objs_def)

lemma last_addr_cong: "map c_addr xs = map c_addr ys \<Longrightarrow> last_addr xs = last_addr ys"
  by (induction xs ys rule: list_induct2') (auto simp: last_addr_Cons)

lemma ll_write_objs_spec:
  assumes "seg (nodes h) p xs 0" "distinct (map c_addr xs)" "length os = length xs"
  shows "\<exists>h'. ll_write_objs h p os = Some h' \<and> seg (nodes h') p (set_objs xs os) 0 \<and>
     lists h' = lists h \<and> (\<forall>a. a \<notin> c_addr ` set xs \<longrightarrow> nodes h' a = nodes h a)"
  using assms
proof (induction xs arbitrary: h p os)
  case Nil
  then show ?case by (simp add: ll_write_objs.simps set_objs_def)
next
  case (Cons c xs)
  then obtain ob os' where os: "os = ob # os'" by (cases os) auto
  from Cons.prems(1) obtain n where n: "p = c_addr c" "c_addr c \<noteq> 0" "nodes h (c_addr c) = Some n"
    "nobj n = c_obj c" "nflag n = c_flag c" "seg (nodes h) (nnxt n) xs 0" by (rule seg_ConsD)
  let ?h = "put_node h p (n\<lparr>nobj := ob\<rparr>)"
  have "seg (nodes ?h) (nnxt n) xs 0" using n Cons.prems(2) by simp
  from Cons.IH [OF this, of os'] Cons.prems(2,3) os obtain h' where h':
    "ll_write_objs ?h (nnxt n) os' = Some h'" "seg (nodes h') (nnxt n) (set_objs xs os') 0"
    "lists h' = lists h" "\<forall>a. a \<notin> c_addr ` set xs \<longrightarrow> nodes h' a = nodes ?h a" by auto
  have "nodes h' p = Some (n\<lparr>nobj := ob\<rparr>)" using h'(4) n(1) Cons.prems(2) by simp
  then have "seg (nodes h') p (set_objs (c # xs) os) 0"
    using h'(2) n os by (simp add: set_objs_def seg.simps)
  moreover have "ll_write_objs h p os = Some h'"
    using n h'(1) os by (subst ll_write_objs.simps) simp
  ultimately show ?case using h'(3,4) n(1) by auto
qed

section \<open>Properties\<close>

text \<open>A list of three cells, for the instances below.\<close>

definition heap3 :: heap where
  "heap3 = \<lparr>nodes = [10 \<mapsto> \<lparr>nobj = 5, nnxt = 11, nflag = 0\<rparr>, 11 \<mapsto> \<lparr>nobj = 6, nnxt = 12, nflag = 0\<rparr>,
                    12 \<mapsto> \<lparr>nobj = 5, nnxt = 0, nflag = 0\<rparr>],
            lists = [100 \<mapsto> \<lparr>l_initial = 10, l_last = 12, l_count = 3, l_wlock = 0, l_flag = 0\<rparr>,
                     101 \<mapsto> \<lparr>l_initial = 0, l_last = 0, l_count = 0, l_wlock = 0, l_flag = 0\<rparr>],
            garbage = [], mallocs = [13, 14]\<rparr>"

lemma heap3_inv: "llinv heap3 100 [(10, 5, 0), (11, 6, 0), (12, 5, 0)]"
  by (simp add: llinv_def lrep_def heap3_def seg.simps last_addr_def)

lemma heap3_sel [simp]: "garbage heap3 = []" "mallocs heap3 = [13, 14]"
  by (simp_all add: heap3_def)

lemma heap3_empty: "llinv heap3 101 []"
  by (simp add: llinv_def lrep_def heap3_def seg.simps last_addr_def)

text \<open>C33. \<open>ll_append\<close> adds the object behind all others: the list stays well formed (chain, \<open>last\<close>,
  \<open>count\<close>, lock released), no other list changes, nothing is freed.\<close>

theorem ll_append_refines:
  assumes "llinv h l xs" "ob \<noteq> 0" "mallocs h = p # ps" "p \<noteq> 0" "p \<notin> c_addr ` set xs"
  shows "\<exists>h'. ll_append h l ob = Some (p, h') \<and> llinv h' l (xs @ [(p, ob, 0)]) \<and>
     mallocs h' = ps \<and> garbage h' = garbage h \<and> framed h h' l (insert p (c_addr ` set xs))"
  using assms by (rule ll_append_spec)

theorem ll_append_refines_witness:
  "\<exists>h'. ll_append heap3 100 7 = Some (13, h') \<and>
     llinv h' 100 [(10, 5, 0), (11, 6, 0), (12, 5, 0), (13, 7, 0)]"
  using ll_append_refines [OF heap3_inv, of 7 13 "[14]"] by auto

text \<open>C34. \<open>ll_iter_remove\<close> on an unflagged cell returns its object, unlinks exactly that cell whatever
  its position, retires the node once, and leaves the iterator on the predecessor.\<close>

theorem ll_iter_remove_refines:
  assumes "llinv h l (us @ c # vs)" "it_pos l (us @ [c]) it" "c_flag c = 0"
  shows "\<exists>it' h'. ll_iter_remove h it = Some (c_obj c, it', h') \<and> it_pos l us it' \<and>
     llinv h' l (us @ vs) \<and> garbage h' = garbage h @ [c_addr c] \<and> mallocs h' = mallocs h \<and>
     framed h h' l (c_addr ` set (us @ [c]))"
  using assms by (rule ll_iter_remove_spec)

theorem ll_iter_remove_refines_witness:
  "\<exists>it' h'. ll_iter_remove heap3 \<lparr>it_l = 100, it_cur = 12, it_prv = 11\<rparr> = Some (5, it', h') \<and>
     llinv h' 100 [(10, 5, 0), (11, 6, 0)] \<and> garbage h' = [12]"
  using ll_iter_remove_refines [of heap3 100 "[(10, 5, 0), (11, 6, 0)]" "(12, 5, 0)" "[]"
      "\<lparr>it_l = 100, it_cur = 12, it_prv = 11\<rparr>"] heap3_inv
  by (auto simp: it_pos_def last_addr_def)

text \<open>\<open>ll_iter_move_first\<close> brings the cell to the front and marks it; from then on
  \<open>ll_iter_remove\<close> on it returns NULL and the cell stays in the list.\<close>

theorem ll_iter_move_first_pins:
  assumes "llinv h l (us @ c # vs)" "it_pos l (us @ [c]) it" "c_flag c = 0"
  shows "\<exists>h1. ll_iter_move_first h it = Some (1, ll_iter_reset it, h1) \<and>
     llinv h1 l ((c_addr c, c_obj c, 1) # us @ vs) \<and>
     (\<exists>it1 h2. ll_iter_next h1 (ll_iter_reset it) = Some (c_obj c, it1, h1) \<and>
        ll_iter_remove h1 it1 = Some (0, it1, h2) \<and>
        llinv h2 l ((c_addr c, c_obj c, 2) # us @ vs) \<and> garbage h2 = garbage h)"
proof -
  from ll_iter_move_first_spec [OF assms] obtain h1 where h1:
    "ll_iter_move_first h it = Some (1, ll_iter_reset it, h1)"
    "llinv h1 l ((c_addr c, c_obj c, 1) # us @ vs)" "garbage h1 = garbage h" by blast
  have pos: "it_pos l [] (ll_iter_reset it)" using assms(2) by (simp add: it_pos_def ll_iter_reset_def)
  from ll_iter_next_Cons [of h1 l "[]" "(c_addr c, c_obj c, 1)" "us @ vs"] h1(2) pos obtain it1 where
    it1: "ll_iter_next h1 (ll_iter_reset it) = Some (c_obj c, it1, h1)" "it_pos l [(c_addr c, c_obj c, 1)] it1"
    by auto
  from ll_iter_remove_flagged [of h1 l "[]" "(c_addr c, c_obj c, 1)" "us @ vs" it1] h1(2,3) it1
  show ?thesis using h1(1) by auto
qed

theorem ll_iter_move_first_pins_witness:
  "\<exists>h1. ll_iter_move_first heap3 \<lparr>it_l = 100, it_cur = 11, it_prv = 10\<rparr> =
       Some (1, \<lparr>it_l = 100, it_cur = 0, it_prv = 0\<rparr>, h1) \<and>
     llinv h1 100 [(11, 6, 1), (10, 5, 0), (12, 5, 0)]"
  using ll_iter_move_first_pins [of heap3 100 "[(10, 5, 0)]" "(11, 6, 0)" "[(12, 5, 0)]"
      "\<lparr>it_l = 100, it_cur = 11, it_prv = 10\<rparr>"] heap3_inv
  by (auto simp: it_pos_def last_addr_def ll_iter_reset_def)

text \<open>\<open>ll_remove\<close> terminates, removes every unflagged occurrence of the object and nothing else,
  keeps the order of the rest, and returns the number of occurrences.\<close>

theorem ll_remove_refines:
  assumes "llinv h l xs" "ob \<noteq> 0" "\<forall>c \<in> set xs. c_flag c = 0"
  shows "\<exists>h'. ll_remove h l ob = Some (int (count_list (map c_obj xs) ob), h') \<and>
     llinv h' l (filter (\<lambda>c. c_obj c \<noteq> ob) xs) \<and>
     garbage h' = garbage h @ map c_addr (filter (\<lambda>c. c_obj c = ob) xs)"
proof -
  have "cleared False (filter (\<lambda>c. c_obj c = ob) xs) = map c_addr (filter (\<lambda>c. c_obj c = ob) xs)"
    using assms(3) by (induction xs) (auto simp: cleared_def)
  then show ?thesis
    using ll_remove_loop_spec [of h l "[]" xs "ll_iter_create l" ob 0] assms
    by (simp add: ll_remove_def it_pos_create retained_unflagged)
qed

theorem ll_remove_refines_witness:
  "\<exists>h'. ll_remove heap3 100 5 = Some (2, h') \<and> llinv h' 100 [(11, 6, 0)] \<and> garbage h' = [10, 12]"
  using ll_remove_refines [OF heap3_inv, of 5] by auto

text \<open>\<open>ll_remove_all\<close> terminates and removes from the first list exactly the objects of the second,
  which it leaves as it was; the result is the number of removed elements.\<close>

theorem ll_remove_all_refines:
  assumes "llinv h l xs" "llinv h m ys" "l \<noteq> m" "c_addr ` set xs \<inter> c_addr ` set ys = {}"
    and "\<forall>c \<in> set xs. c_flag c = 0"
  shows "\<exists>h'. ll_remove_all h l m =
       Some (int (length (filter (\<lambda>d. d \<in> c_obj ` set ys) (map c_obj xs))), h') \<and>
     llinv h' l (filter (\<lambda>c. c_obj c \<notin> c_obj ` set ys) xs) \<and> llinv h' m ys"
proof -
  have "it_l (ll_iter_create m) = m" by (simp add: ll_iter_create_def)
  then show ?thesis
    using ll_remove_all_loop_spec [of h l "[]" xs "ll_iter_create l" m ys "ll_iter_create m" 0] assms
    by (simp add: ll_remove_all_def it_pos_create retained_unflagged)
qed

theorem ll_remove_all_refines_witness:
  "\<exists>h'. ll_remove_all heap3 100 101 = Some (0, h') \<and>
     llinv h' 100 [(10, 5, 0), (11, 6, 0), (12, 5, 0)]"
  using ll_remove_all_refines [OF heap3_inv heap3_empty] by auto

text \<open>\<open>ll_contains\<close> is membership and \<open>ll_contains_data\<close> finds the first object with the wanted
  bytes; both terminate and change nothing.\<close>

theorem ll_contains_refines:
  assumes "llinv h l xs" "ob \<noteq> 0"
  shows "ll_contains h l ob = Some (ob \<in> c_obj ` set xs, h) \<and>
     ll_contains_data mem h l ob n =
       Some (case List.find (\<lambda>d. take n (mem d) = take n (mem ob)) (map c_obj xs) of
               None \<Rightarrow> 0 | Some d \<Rightarrow> d, h)"
proof
  have l: "l \<noteq> 0" using assms(1) by (simp add: llinv_def)
  note rest = ll_rest_create [OF assms(1)]
  from ll.find_spec [OF rest, of "\<lambda>d. d = ob"] l assms(2)
  show "ll_contains h l ob = Some (ob \<in> c_obj ` set xs, h)"
    using find_eq_self [of ob "map c_obj xs"] by (auto simp: ll_contains_def)
  from ll.find_spec [OF rest, of "\<lambda>d. take n (mem d) = take n (mem ob)"] l assms(2)
  show "ll_contains_data mem h l ob n = Some (case List.find (\<lambda>d. take n (mem d) = take n (mem ob))
      (map c_obj xs) of None \<Rightarrow> 0 | Some d \<Rightarrow> d, h)"
    by (auto simp: ll_contains_data_def)
qed

theorem ll_contains_refines_witness:
  "ll_contains heap3 100 6 = Some (True, heap3) \<and> ll_contains heap3 100 9 = Some (False, heap3)"
  using ll_contains_refines [OF heap3_inv, of 6] ll_contains_refines [OF heap3_inv, of 9] by simp

text \<open>\<open>ll_sort\<close> permutes the objects into the order \<open>qsort\<close> gives and touches nothing else of
  the list; \<open>qs\<close> is \<open>qsort\<close> with the comparator, of which only the permutation is assumed.\<close>

theorem ll_sort_refines:
  assumes "llinv h l xs" "xs \<noteq> []" "mallocs h = p # ps" "p \<noteq> 0"
    and qsort: "mset (qs (map c_obj xs)) = mset (map c_obj xs)"
  shows "\<exists>h' ys. ll_sort (Some qs) h l = Some h' \<and> llinv h' l ys \<and> map c_obj ys = qs (map c_obj xs) \<and>
     map c_addr ys = map c_addr xs \<and> map c_flag ys = map c_flag xs"
proof -
  from assms(1) obtain L where L: "l \<noteq> 0" "lists h l = Some L" "l_wlock L = 0"
    "lrep (nodes h) L xs" "ll_lock h l = Some (True, put_list h l (L\<lparr>l_wlock := 1\<rparr>))"
    by (rule llinvE)
  let ?os = "qs (map c_obj xs)"
  let ?h2 = "(put_list h l (L\<lparr>l_wlock := 1\<rparr>))\<lparr>mallocs := ps\<rparr>"
  have seg: "seg (nodes ?h2) (l_initial L) xs 0" and dist: "distinct (map c_addr xs)"
    and cnt: "l_count L = int (length xs)" using L(4) by (auto simp: lrep_def)
  have i: "l_initial L \<noteq> 0" using seg_null [OF seg] assms(2) by simp
  have len: "length ?os = length xs" using mset_eq_length [OF qsort] by simp
  from ll_write_objs_spec [OF seg dist len] obtain h' where h': "ll_write_objs ?h2 (l_initial L) ?os = Some h'"
    "seg (nodes h') (l_initial L) (set_objs xs ?os) 0" "lists h' = lists ?h2" by blast
  have "ll_sort (Some qs) h l = Some (put_list h' l L)"
    using L i assms(3,4) ll_read_objs_spec [OF seg] h' cnt
    by (cases L) (simp add: ll_sort_def malloc_def ll_unlock_def)
  moreover have "llinv (put_list h' l L) l (set_objs xs ?os)"
  proof -
    have "last_addr (set_objs xs ?os) = last_addr xs"
      using set_objs_sel(1) [OF len] by (rule last_addr_cong)
    moreover have "\<forall>c \<in> set (set_objs xs ?os). c_obj c \<noteq> 0"
    proof -
      have "c_obj ` set (set_objs xs ?os) = c_obj ` set xs"
        using set_objs_sel(3) [OF len] mset_eq_setD [OF qsort] by (metis set_map)
      then show ?thesis using L(4) unfolding lrep_def by (metis image_iff)
    qed
    moreover have "length (set_objs xs ?os) = length xs" using len by (simp add: set_objs_def)
    ultimately show ?thesis
      using L h'(2) set_objs_sel(1) [OF len] by (simp add: llinv_def lrep_def)
  qed
  ultimately show ?thesis using set_objs_sel [OF len] by blast
qed

theorem ll_sort_refines_witness:
  "\<exists>h' ys. ll_sort (Some rotate1) heap3 100 = Some h' \<and> llinv h' 100 ys \<and> map c_obj ys = [6, 5, 5]"
proof -
  have "mset (rotate1 (map c_obj [(10, 5, 0), (11, 6, 0), (12, 5, 0 :: u8)])) =
      mset (map c_obj [(10, 5, 0), (11, 6, 0), (12, 5, 0 :: u8)])" by simp
  from ll_sort_refines [where qs = rotate1, OF heap3_inv _ heap3_sel(2) _ this] obtain h' ys where
    "ll_sort (Some rotate1) heap3 100 = Some h'" "llinv h' 100 ys" "map c_obj ys = [6, 5, 5]" by auto
  then show ?thesis by (intro exI [of _ h'] exI [of _ ys]) simp
qed

text \<open>After \<open>ll_destroy\<close> every operation that needs the lock answers without touching the list,
  also if the caller still holds the pointer.\<close>

theorem ll_destroy_safe:
  assumes "llinv h l xs" "mallocs h = p # ps"
  shows "\<exists>h'. ll_destroy h l = Some h' \<and> garbage h' = garbage h @ cleared False xs @ [l] \<and>
     ll_iter_next h' (ll_iter_create l) = Some (0, ll_iter_create l, h') \<and>
     ll_append h' l ob = Some (0, h') \<and> ll_count h' l = Some 0 \<and> ll_clear h' l = Some h'"
proof -
  from ll_clear_int_spec [OF assms(1)] obtain h1 where h1: "ll_clear_int h l False = Some h1"
    "llinv h1 l []" "garbage h1 = garbage h @ cleared False xs" by blast
  from h1(2) obtain L where L: "l \<noteq> 0" "lists h1 l = Some L" "l_wlock L = 0" "lrep (nodes h1) L []"
    by (rule llinvE)
  with h1 show ?thesis
    by (simp add: ll_destroy_def ll_clear_def ll_destroy_int_def lrep_def ll_iter_next_def
        ll_iter_create_def ll_lock_def ll_append_def ll_count_def ll_clear_int_def)
qed

theorem ll_destroy_safe_witness:
  "\<exists>h'. ll_destroy heap3 100 = Some h' \<and> garbage h' = [10, 11, 12, 100]"
  using ll_destroy_safe [OF heap3_inv, of 13 "[14]"] by (auto simp: cleared_def)

end
