(* ===== verification/Simples.thy ===== *)
theory Simples
  imports Prelude
begin

text \<open>
  The conversions, string helpers and small tables of \<open>oscam-simples.c\<close>. Strings are lists of
  characters without the terminating NUL; a result of type \<open>'a option\<close> is \<open>None\<close> where the C code
  would leave a buffer or shift by the width of the type. \<open>errno\<close> is a second component of the
  result (\<open>True\<close> for \<open>EINVAL\<close>).
\<close>

section \<open>Hexadecimal text\<close>

definition gethexval :: "char \<Rightarrow> int" where
  "gethexval c =
     (let k = int (of_char c) in
      if 48 \<le> k \<and> k \<le> 57 then k - 48
      else if 65 \<le> k \<and> k \<le> 70 then k - 65 + 10
      else if 97 \<le> k \<and> k \<le> 102 then k - 97 + 10
      else -1)"

text \<open>\<open>(gethexval (a) << 4) | gethexval (b)\<close>.\<close>

definition hexpair :: "char \<Rightarrow> char \<Rightarrow> int" where
  "hexpair a b = push_bit 4 (gethexval a) OR gethexval b"

fun cs_atob_loop :: "string \<Rightarrow> nat \<Rightarrow> nat \<Rightarrow> u8 list option" where
  "cs_atob_loop asc i 0 = Some []"
| "cs_atob_loop asc i (Suc k) =
     (let rc = hexpair (cchar asc (2 * i)) (cchar asc (2 * i + 1)) in
      if bit rc 8 then None
      else map_option ((#) (word_of_int rc)) (cs_atob_loop asc (Suc i) k))"

text \<open>\<open>Some bs\<close> for the return value \<open>n\<close> with the bytes written, \<open>None\<close> for \<open>-1\<close>.\<close>

definition cs_atob :: "string \<Rightarrow> nat \<Rightarrow> u8 list option" where
  "cs_atob asc n = cs_atob_loop asc 0 n"

fun cs_atoi_loop :: "string \<Rightarrow> bool \<Rightarrow> nat \<Rightarrow> nat \<Rightarrow> u32 \<Rightarrow> u32 \<times> bool" where
  "cs_atoi_loop asc voe 0 n rc = (rc, False)"
| "cs_atoi_loop asc voe (Suc l) n rc =
     (if n < 4 then
        (let b = hexpair (cchar asc (2 * l)) (cchar asc (2 * l + 1)) in
         if b < 0 then (if voe then 0xFFFFFFFF else 0, True)
         else cs_atoi_loop asc voe l (n + 1) (rc OR push_bit (8 * n) (word_of_int b)))
      else (rc, False))"

definition cs_atoi :: "string \<Rightarrow> nat \<Rightarrow> bool \<Rightarrow> u32 \<times> bool" where
  "cs_atoi asc l val_on_err = cs_atoi_loop asc val_on_err l 0 0"

definition is_blank :: "char \<Rightarrow> bool" where
  "is_blank c \<longleftrightarrow> c = CHR '' '' \<or> c = CHR 0x09 \<or> c = CHR 0x0A \<or> c = CHR 0x0D"

text \<open>Leading blanks go only when the first of them is a space.\<close>

definition trim :: "string \<Rightarrow> string" where
  "trim txt =
     (let s = (case txt of [] \<Rightarrow> [] | c # _ \<Rightarrow> if c = CHR '' '' then dropWhile is_blank txt else txt)
      in rev (dropWhile is_blank (rev s)))"

definition byte_atob :: "string \<Rightarrow> int" where
  "byte_atob asc =
     (let s = trim asc in
      if length s \<noteq> 2 then -1
      else (let rc = hexpair (cchar s 0) (cchar s 1) in if bit rc 8 then -1 else rc))"

definition word_atob :: "string \<Rightarrow> int" where
  "word_atob asc =
     (let s = trim asc in
      if length s \<noteq> 4 then -1
      else (let rc = push_bit 12 (gethexval (cchar s 0)) OR push_bit 8 (gethexval (cchar s 1))
                     OR push_bit 4 (gethexval (cchar s 2)) OR gethexval (cchar s 3)
            in if bit rc 16 then -1 else rc))"

definition dyn_word_atob :: "string \<Rightarrow> int" where
  "dyn_word_atob asc =
     (let s = trim asc in
      if length s \<le> 4 \<and> 0 < length s
      then (let rc = foldl (\<lambda>rc c. push_bit 4 rc OR gethexval c) 0 s
            in if bit rc 16 then -1 else rc)
      else -1)"

fun key_atob_loop :: "string \<Rightarrow> nat \<Rightarrow> nat \<Rightarrow> int \<Rightarrow> int \<times> u8 list" where
  "key_atob_loop asc i 0 rc = (rc, [])"
| "key_atob_loop asc i (Suc k) rc =
     (let n1 = gethexval (cchar asc i); n2 = gethexval (cchar asc (i + 1));
          rc' = (if n1 < 0 \<or> n2 < 0 then -1 else rc)
      in case key_atob_loop asc (i + 2) k rc' of (r, bs) \<Rightarrow>
           (r, word_of_int (push_bit 4 n1 + (n2 AND 0xff)) # bs))"

definition key_atob_l :: "string \<Rightarrow> nat \<Rightarrow> int \<times> u8 list" where
  "key_atob_l asc l = key_atob_loop asc 0 ((l + 1) div 2) 0"

definition hexdigit :: "nat \<Rightarrow> char" where
  "hexdigit n = ''0123456789ABCDEF'' ! (n mod 16)"

text \<open>\<open>"%02X"\<close> of a byte.\<close>

definition hex02 :: "u8 \<Rightarrow> string" where
  "hex02 b = [hexdigit (unat b div 16), hexdigit (unat b)]"

definition cs_hexdump :: "bool \<Rightarrow> u8 list \<Rightarrow> nat \<Rightarrow> nat \<Rightarrow> string" where
  "cs_hexdump m buf n len =
     (let w = (if m then 3 else 2);
          n' = (if len \<le> w * n then len div w - 1 else n)
      in concat (map (\<lambda>b. hex02 b @ (if m then '' '' else [])) (take n' buf)))"

definition to_hex :: "u8 \<Rightarrow> char" where
  "to_hex code = ''0123456789abcdef'' ! unat (code AND 15)"

definition char_to_hex :: "u8 list \<Rightarrow> string" where
  "char_to_hex p = concat (map (\<lambda>b. [to_hex (drop_bit 4 b), to_hex (b AND 15)]) p)"

section \<open>Big-endian numbers\<close>

definition b2i :: "int \<Rightarrow> u8 list \<Rightarrow> u32 option" where
  "b2i n b =
     (if n = 2 then
        do { b0 \<leftarrow> fetch b 0; b1 \<leftarrow> fetch b 1; Some (push_bit 8 (ucast b0) OR ucast b1) }
      else if n = 3 then
        do { b0 \<leftarrow> fetch b 0; b1 \<leftarrow> fetch b 1; b2 \<leftarrow> fetch b 2;
             Some (push_bit 16 (ucast b0) OR push_bit 8 (ucast b1) OR ucast b2) }
      else if n = 4 then
        do { b0 \<leftarrow> fetch b 0; b1 \<leftarrow> fetch b 1; b2 \<leftarrow> fetch b 2; b3 \<leftarrow> fetch b 3;
             Some (push_bit 24 (ucast b0) OR push_bit 16 (ucast b1) OR push_bit 8 (ucast b2) OR ucast b3) }
      else Some 0)"

definition b2ll :: "nat \<Rightarrow> u8 list \<Rightarrow> u64 option" where
  "b2ll n b =
     (if n \<le> length b then Some (foldl (\<lambda>k x. push_bit 8 k + ucast x) 0 (take n b)) else None)"

text \<open>The case for three bytes has no \<open>break\<close> and runs on into the case for four.\<close>

definition i2b_buf4 :: "u32 \<Rightarrow> u8 list \<Rightarrow> u8 list option" where
  "i2b_buf4 i b =
     do { b1 \<leftarrow> store b 0 (ucast (drop_bit 24 i)); b2 \<leftarrow> store b1 1 (ucast (drop_bit 16 i));
          b3 \<leftarrow> store b2 2 (ucast (drop_bit 8 i)); store b3 3 (ucast i) }"

definition i2b_buf :: "int \<Rightarrow> u32 \<Rightarrow> u8 list \<Rightarrow> u8 list option" where
  "i2b_buf n i b =
     (if n = 2 then
        do { b1 \<leftarrow> store b 0 (ucast (drop_bit 8 i)); store b1 1 (ucast i) }
      else if n = 3 then
        do { b1 \<leftarrow> store b 0 (ucast (drop_bit 16 i)); b2 \<leftarrow> store b1 1 (ucast (drop_bit 8 i));
             b3 \<leftarrow> store b2 2 (ucast i); i2b_buf4 i b3 }
      else if n = 4 then i2b_buf4 i b
      else Some b)"

text \<open>\<open>a2i\<close>: the last \<open>2 * |bytes|\<close> hex digits; a negative \<open>bytes\<close> fills missing digits with \<open>F\<close>.\<close>

fun a2i_loop :: "string \<Rightarrow> bool \<Rightarrow> nat \<Rightarrow> nat \<Rightarrow> u32 \<Rightarrow> (u32 \<times> bool) option" where
  "a2i_loop s neg i 0 rc = Some (rc, False)"
| "a2i_loop s neg i (Suc k) rc =
     (if i < length s then
        (let rcl = gethexval (s ! (length s - 1 - i)) in
         if rcl < 0 then Some (0x1F1F1F, True)
         else if 8 \<le> i then None
         else a2i_loop s neg (i + 1) k (rc OR push_bit (4 * i) (word_of_int rcl)))
      else if neg then
        (if 8 \<le> i then None else a2i_loop s neg (i + 1) k (rc OR push_bit (4 * i) 0xf))
      else a2i_loop s neg (i + 1) k rc)"

definition a2i :: "string \<Rightarrow> int \<Rightarrow> (u32 \<times> bool) option" where
  "a2i asc bytes = a2i_loop (trim asc) (bytes < 0) 0 (2 * nat \<bar>bytes\<bar>) 0"

definition boundary :: "nat \<Rightarrow> int \<Rightarrow> int" where
  "boundary e n = push_bit e (drop_bit e (n - 1) + 1)"

definition check_filled :: "u8 list option \<Rightarrow> nat \<Rightarrow> nat option" where
  "check_filled v len =
     (case v of None \<Rightarrow> Some 0
      | Some b \<Rightarrow> if len \<le> length b
                  then Some (foldl (\<lambda>j i. if 0 < b ! i then i + 1 else j) 0 [0..<len]) else None)"

section \<open>Strings\<close>

text \<open>\<open>dst\<close> is the destination array, NUL-terminated afterwards; \<open>num\<close> wraps below zero.\<close>

definition cs_strncpy :: "string \<Rightarrow> string \<Rightarrow> u64 \<Rightarrow> string option" where
  "cs_strncpy dst src num =
     (let sz = length src; l = (if unat (num - 1) < sz then unat (num - 1) else sz)
      in do { d1 \<leftarrow> memcpy dst 0 (take l src); store d1 l (CHR 0x00) })"

definition toupper :: "char \<Rightarrow> int" where
  "toupper c = (let k = int (of_char c) in if 97 \<le> k \<and> k \<le> 122 then k - 32 else k)"

fun cs_strnicmp :: "string \<Rightarrow> string \<Rightarrow> nat \<Rightarrow> int" where
  "cs_strnicmp (a # as) (b # bs) (Suc num) =
     (let diff = toupper a - toupper b in if diff \<noteq> 0 then diff else cs_strnicmp as bs num)"
| "cs_strnicmp _ _ _ = 0"

definition strtolower :: "string \<Rightarrow> string" where
  "strtolower txt = map (\<lambda>c. if 65 \<le> (of_char c :: nat) \<and> (of_char c :: nat) \<le> 90
                              then char_of ((of_char c :: nat) + 32) else c) txt"

section \<open>Random numbers, time, serial numbers\<close>

definition fast_rnd :: "u32 \<Rightarrow> u8 \<times> u32" where
  "fast_rnd seed = (let s = seed * 4079 + 12923 in (ucast (s mod 0xFF), s))"

text \<open>\<open>rnd i\<close> is the \<open>i\<close>-th answer of \<open>rand ()\<close>.\<close>

definition create_rand_str :: "(nat \<Rightarrow> nat) \<Rightarrow> nat \<Rightarrow> string" where
  "create_rand_str rnd sz = map (\<lambda>i. char_of (rnd i mod 94 + 32)) [0..<sz]"

record timeb =
  tb_time :: int
  tb_millitm :: int

definition comp_timeb :: "timeb \<Rightarrow> timeb \<Rightarrow> int" where
  "comp_timeb a b =
     (if tb_time a > tb_time b then 1
      else if tb_time a < tb_time b then -1
      else if tb_millitm a > tb_millitm b then 1
      else if tb_millitm a < tb_millitm b then -1
      else 0)"

text \<open>The Irdeto and Betacrypt, and the Viaccess and Cryptoworks, layouts of a serial number.\<close>

definition hexserial_to_newcamd :: "u8 list \<Rightarrow> u8 list \<Rightarrow> u16 \<Rightarrow> u8 list option" where
  "hexserial_to_newcamd source dest caid =
     (let c = drop_bit 8 caid in
      if c = 0x17 \<or> c = 0x06 then
        do { s0 \<leftarrow> fetch source 0; s1 \<leftarrow> fetch source 1; s2 \<leftarrow> fetch source 2; s3 \<leftarrow> fetch source 3;
             memcpy dest 0 [0, 0, s3, s0, s1, s2] }
      else if c = 0x05 \<or> c = 0x0D then
        (if length source < 5 then None else memcpy dest 0 (0 # take 5 source))
      else (if length source < 6 then None else memcpy dest 0 (take 6 source)))"

definition newcamd_to_hexserial :: "u8 list \<Rightarrow> u8 list \<Rightarrow> u16 \<Rightarrow> u8 list option" where
  "newcamd_to_hexserial source dest caid =
     (let c = drop_bit 8 caid in
      if length source < 6 then None
      else if c = 0x17 \<or> c = 0x06 then
        memcpy dest 0 [source ! 3, source ! 4, source ! 5, source ! 2, 0, 0]
      else if c = 0x05 \<or> c = 0x0D then memcpy dest 0 (take 5 (drop 1 source) @ [0])
      else memcpy dest 0 (take 6 source))"

definition hexserialset :: "u8 list option \<Rightarrow> bool" where
  "hexserialset hexserial = (case hexserial of None \<Rightarrow> False | Some s \<Rightarrow> (\<exists>b \<in> set (take 8 s). b \<noteq> 0))"

section \<open>Hexadecimal text: lemmas\<close>

lemma less_16_cases: "n < 16 \<Longrightarrow> n \<in> {0, 1, 2, 3, 4, 5, 6, 7, 8, 9, 10, 11, 12, 13, 14, 15 :: nat}"
  by (simp, presburger)

lemma gethexval_cases:
  "gethexval c \<in> {-1, 0, 1, 2, 3, 4, 5, 6, 7, 8, 9, 10, 11, 12, 13, 14, 15}"
proof -
  have "-1 \<le> gethexval c" "gethexval c \<le> 15" by (simp_all add: gethexval_def Let_def)
  then show ?thesis by (simp, presburger)
qed

lemma gethexval_hexdigit [simp]: "gethexval (hexdigit n) = int (n mod 16)"
proof -
  have "n mod 16 \<in> {0, 1, 2, 3, 4, 5, 6, 7, 8, 9, 10, 11, 12, 13, 14, 15}"
    by (rule less_16_cases) simp
  then show ?thesis unfolding hexdigit_def gethexval_def by (elim insertE) simp_all
qed

lemma gethexval_range: "-1 \<le> gethexval c" "gethexval c \<le> 15"
  by (simp_all add: gethexval_def Let_def)

text \<open>A pair of digits has bit 8 set exactly when one of them is no hex digit.\<close>

lemma hexpair_nonneg:
  assumes "0 \<le> gethexval a" "0 \<le> gethexval b"
  shows "hexpair a b = 16 * gethexval a + gethexval b"
proof -
  have "gethexval b < 2 ^ 4" using gethexval_range(2) [of b] by simp
  then have "\<not> bit (gethexval b) n" if "4 \<le> n" for n
    using assms(2) that by (metis bit_take_bit_iff leD take_bit_int_eq_self)
  then have "push_bit 4 (gethexval a) + gethexval b = hexpair a b"
    unfolding hexpair_def by (intro disjunctive_add_eq_or bit_eqI) (auto simp: bit_simps)
  then show ?thesis by (simp add: push_bit_eq_mult)
qed

lemma hexpair_negative: "hexpair a b < 0 \<longleftrightarrow> gethexval a < 0 \<or> gethexval b < 0"
  by (simp add: hexpair_def)

lemma hexpair_bounds: "- 16 \<le> hexpair a b" "hexpair a b < 256"
proof -
  have b: "gethexval a = -1 \<or> 0 \<le> gethexval a" "gethexval b = -1 \<or> 0 \<le> gethexval b"
    using gethexval_range(1) [of a] gethexval_range(1) [of b] by auto
  have "- 16 \<le> hexpair a b \<and> hexpair a b < 256"
  proof (cases "0 \<le> gethexval a \<and> 0 \<le> gethexval b")
    case True
    with gethexval_range [of a] gethexval_range [of b] show ?thesis by (simp add: hexpair_nonneg)
  next
    case False
    then have "hexpair a b < 0" by (auto simp: hexpair_negative)
    moreover have "- 16 \<le> hexpair a b"
    proof (cases "gethexval b = -1")
      case True
      then show ?thesis by (simp add: hexpair_def)
    next
      case False
      then have "gethexval a = -1" using \<open>hexpair a b < 0\<close> b by (auto simp: hexpair_negative)
      then show ?thesis using gethexval_cases [of b] unfolding hexpair_def
        by (elim insertE) (simp_all add: mask_eq_exp_minus_1)
    qed
    ultimately show ?thesis by simp
  qed
  then show "- 16 \<le> hexpair a b" "hexpair a b < 256" by auto
qed


lemma bit_nonneg_256: "0 \<le> r \<Longrightarrow> r < 256 \<Longrightarrow> 8 \<le> n \<Longrightarrow> \<not> bit (r :: int) n"
proof -
  assume r: "0 \<le> r" "r < 256" and n: "8 \<le> n"
  have "take_bit 8 r = r" using r by (simp add: take_bit_int_eq_self)
  then show ?thesis using n by (metis bit_take_bit_iff not_le)
qed

lemma hexpair_bit8: "bit (hexpair a b) 8 \<longleftrightarrow> hexpair a b < 0"
proof (cases "0 \<le> hexpair a b")
  case True
  with hexpair_bounds(2) [of a b] show ?thesis by (auto dest: bit_nonneg_256 [of _ 8])
next
  case False
  then have "0 \<le> NOT (hexpair a b)" "NOT (hexpair a b) < 256"
    using hexpair_bounds(1) [of a b] by (simp_all add: not_int_def)
  then have "\<not> bit (NOT (hexpair a b)) 8" by (rule bit_nonneg_256) simp
  with False show ?thesis by (simp add: bit_simps)
qed

lemma hexpair_hexdigit: "hexpair (hexdigit m) (hexdigit n) = int (16 * (m mod 16) + n mod 16)"
  by (simp add: hexpair_nonneg)

lemma hexpair_hex02: "hexpair (hexdigit (unat b div 16)) (hexdigit (unat b)) = int (unat (b :: u8))"
proof -
  have "unat b < 256" using unsigned_less [of b] by simp
  then have "unat b div 16 < 16" by (simp add: less_mult_imp_div_less)
  then show ?thesis by (simp add: hexpair_hexdigit)
qed

lemma concat_hex02_nth:
  "i < length bs \<Longrightarrow> cchar (concat (map hex02 bs)) (2 * i) = hexdigit (unat (bs ! i) div 16)"
  "i < length bs \<Longrightarrow> cchar (concat (map hex02 bs)) (2 * i + 1) = hexdigit (unat (bs ! i))"
proof -
  have len: "length (concat (map hex02 cs)) = 2 * length cs" for cs
    by (induction cs) (simp_all add: hex02_def)
  have "concat (map hex02 bs) ! (2 * i) = hexdigit (unat (bs ! i) div 16) \<and>
        concat (map hex02 bs) ! (2 * i + 1) = hexdigit (unat (bs ! i))" if "i < length bs"
    using that
  proof (induction bs arbitrary: i)
    case (Cons b bs)
    then show ?case by (cases i) (simp_all add: hex02_def)
  qed simp
  with len show "i < length bs \<Longrightarrow> cchar (concat (map hex02 bs)) (2 * i) = hexdigit (unat (bs ! i) div 16)"
    "i < length bs \<Longrightarrow> cchar (concat (map hex02 bs)) (2 * i + 1) = hexdigit (unat (bs ! i))"
    by auto
qed

lemma all_less_Suc_shift: "(\<forall>j < Suc k. P j) \<longleftrightarrow> P 0 \<and> (\<forall>j < k. P (Suc j))"
  by (auto simp: less_Suc_eq_0_disj)

text \<open>\<open>cs_atob\<close> is total on its input: it fails exactly on a character that is no hex digit.\<close>

lemma cs_atob_loop_spec:
  "cs_atob_loop asc i k =
     (if \<forall>j < k. 0 \<le> hexpair (cchar asc (2 * (i + j))) (cchar asc (2 * (i + j) + 1))
      then Some (map (\<lambda>j. word_of_int (hexpair (cchar asc (2 * (i + j))) (cchar asc (2 * (i + j) + 1)))) [0..<k])
      else None)"
proof (induction k arbitrary: i)
  case (Suc k)
  let ?h = "\<lambda>j. hexpair (cchar asc (2 * j)) (cchar asc (2 * j + 1))"
  have all: "(\<forall>j < Suc k. 0 \<le> ?h (i + j)) \<longleftrightarrow> 0 \<le> ?h i \<and> (\<forall>j < k. 0 \<le> ?h (Suc i + j))"
    using all_less_Suc_shift [of k "\<lambda>j. 0 \<le> ?h (i + j)"] by simp
  have "map (\<lambda>j. word_of_int (?h (i + j)) :: u8) [0..<Suc k] =
      word_of_int (?h i) # map (\<lambda>j. word_of_int (?h (Suc i + j))) [0..<k]"
    by (simp add: upt_conv_Cons map_Suc_upt [symmetric] comp_def del: upt_Suc)
  moreover have "cs_atob_loop asc i (Suc k) =
      (if 0 \<le> ?h i then map_option ((#) (word_of_int (?h i))) (cs_atob_loop asc (Suc i) k) else None)"
    by (simp add: hexpair_bit8 Let_def)
  ultimately show ?case
    unfolding Suc.IH [of "Suc i"] all by (simp only: option.map if_distrib) simp
qed simp

lemma cs_atob_hex02: "cs_atob (concat (map hex02 bs)) (length bs) = Some bs"
proof -
  have h: "hexpair (cchar (concat (map hex02 bs)) (2 * j)) (cchar (concat (map hex02 bs)) (2 * j + 1))
      = int (unat (bs ! j))" if "j < length bs" for j
    using concat_hex02_nth [OF that] by (simp add: hexpair_hex02)
  have "map (\<lambda>j. word_of_int (hexpair (cchar (concat (map hex02 bs)) (2 * j))
      (cchar (concat (map hex02 bs)) (2 * j + 1))) :: u8) [0..<length bs] = bs"
    using h by (intro nth_equalityI) simp_all
  with h show ?thesis by (simp add: cs_atob_def cs_atob_loop_spec)
qed

section \<open>Properties of the conversions\<close>

text \<open>Printing bytes with \<open>cs_hexdump\<close> and reading them back with \<open>cs_atob\<close> gives the bytes.\<close>

theorem hex_text_roundtrip:
  assumes "n \<le> length buf" "2 * n < len"
  shows "cs_atob (cs_hexdump False buf n len) n = Some (take n buf)"
proof -
  have "cs_hexdump False buf n len = concat (map hex02 (take n buf))"
    using assms(2) by (simp add: cs_hexdump_def)
  moreover have "length (take n buf) = n" using assms(1) by simp
  ultimately show ?thesis using cs_atob_hex02 [of "take n buf"] by simp
qed

theorem hex_text_roundtrip_witness: "cs_atob (cs_hexdump False [0x0F, 0xA0] 2 9) 2 = Some [0x0F, 0xA0]"
  using hex_text_roundtrip [of 2 "[0x0F, 0xA0]" 9] by simp

text \<open>\<open>cs_hexdump\<close> and its terminating NUL fit the target, whatever the number of bytes asked for.\<close>

theorem cs_hexdump_fits:
  assumes "0 < len"
  shows "length (cs_hexdump m buf n len) < len"
proof -
  define w :: nat where "w = (if m then 3 else 2)"
  have len: "length (cs_hexdump m buf n len) = w * min (length buf) (if len \<le> w * n then len div w - 1 else n)"
  proof -
    have "length (concat (map (\<lambda>b. hex02 b @ (if m then '' '' else [])) bs)) = w * length bs" for bs
      by (induction bs) (auto simp: hex02_def w_def)
    then show ?thesis by (simp add: cs_hexdump_def w_def Let_def)
  qed
  show ?thesis
  proof (cases "len \<le> w * n")
    case True
    have "w * (len div w - 1) < len"
    proof (cases "len div w")
      case (Suc k)
      have "w * (len div w) \<le> len" by (rule times_div_less_eq_dividend)
      with Suc show ?thesis by (auto simp: w_def split: if_splits)
    qed (use assms in simp)
    moreover have "w * min (length buf) (len div w - 1) \<le> w * (len div w - 1)" by simp
    moreover have "length (cs_hexdump m buf n len) = w * min (length buf) (len div w - 1)"
      using True len by simp
    ultimately show ?thesis by linarith
  next
    case False
    have "w * min (length buf) n \<le> w * n" by simp
    moreover have "length (cs_hexdump m buf n len) = w * min (length buf) n" using False len by simp
    ultimately show ?thesis using False by linarith
  qed
qed

theorem cs_hexdump_fits_witness: "length (cs_hexdump True [1, 2, 3] 3 8) < 8"
  using cs_hexdump_fits [of 8 True "[1, 2, 3]" 3] by simp

text \<open>\<open>i2b_buf\<close> and \<open>b2i\<close> are inverse for two and four bytes; for three bytes the missing
  \<open>break\<close> makes \<open>i2b_buf\<close> write a fourth byte, and the three bytes at the front then hold the number
  without its low byte.\<close>

theorem i2b_buf_b2i:
  fixes i :: u32
  assumes "4 \<le> length b"
  shows "\<exists>b2 b3 b4. i2b_buf 2 i b = Some b2 \<and> b2i 2 b2 = Some (take_bit 16 i) \<and>
     i2b_buf 4 i b = Some b4 \<and> b2i 4 b4 = Some i \<and>
     i2b_buf 3 i b = Some b3 \<and> b3 = b4 \<and> b2i 3 b3 = Some (drop_bit 8 i) \<and>
     i2b_buf 3 i (take 3 b) = None"
proof -
  have 2: "push_bit 8 (ucast (ucast (drop_bit 8 i) :: u8)) OR ucast (ucast i :: u8) = take_bit 16 i"
    by (rule bit_word_eqI) (auto simp: bit_simps)
  have 3: "push_bit 16 (ucast (ucast (drop_bit 24 i) :: u8)) OR push_bit 8 (ucast (ucast (drop_bit 16 i) :: u8))
      OR ucast (ucast (drop_bit 8 i) :: u8) = drop_bit 8 i"
  proof (rule bit_word_eqI)
    fix n
    assume "n < LENGTH(32)"
    then consider "n < 8" | "8 \<le> n" "n < 16" | "16 \<le> n" "n < 24" | "24 \<le> n" by linarith
    then show "bit (push_bit 16 (ucast (ucast (drop_bit 24 i) :: u8) :: u32) OR push_bit 8 (ucast (ucast (drop_bit 16 i) :: u8))
        OR ucast (ucast (drop_bit 8 i) :: u8)) n = bit (drop_bit 8 i) n"
      by cases (auto simp: bit_simps dest: bit_imp_le_length)
  qed
  have 4: "push_bit 24 (ucast (ucast (drop_bit 24 i) :: u8)) OR push_bit 16 (ucast (ucast (drop_bit 16 i) :: u8))
      OR push_bit 8 (ucast (ucast (drop_bit 8 i) :: u8)) OR ucast (ucast i :: u8) = i"
  proof (rule bit_word_eqI)
    fix n
    assume "n < LENGTH(32)"
    then consider "n < 8" | "8 \<le> n" "n < 16" | "16 \<le> n" "n < 24" | "24 \<le> n" "n < 32" by fastforce
    then show "bit (push_bit 24 (ucast (ucast (drop_bit 24 i) :: u8) :: u32)
        OR push_bit 16 (ucast (ucast (drop_bit 16 i) :: u8))
        OR push_bit 8 (ucast (ucast (drop_bit 8 i) :: u8)) OR ucast (ucast i :: u8)) n = bit i n"
      by cases (auto simp: bit_simps dest: bit_imp_le_length)
  qed
  have short: "i2b_buf 3 i (take 3 b) = None"
    using assms by (simp add: i2b_buf_def i2b_buf4_def store_def)
  from assms obtain w x y z r where "b = w # x # y # z # r"
    by (metis Suc_le_length_iff numeral_eq_Suc pred_numeral_simps(2) pred_numeral_simps(3) semiring_norm(26) semiring_norm(27))
  with 2 3 4 short show ?thesis by (simp add: i2b_buf_def i2b_buf4_def b2i_def)
qed

theorem i2b_buf_b2i_witness:
  "\<exists>b3. i2b_buf 3 0x000604 [0, 0, 0, 0] = Some b3 \<and> b2i 3 b3 = Some 0x0006"
  using i2b_buf_b2i [of "[0, 0, 0, 0]" "0x000604"] by auto

text \<open>The serial number a newcamd client is sent maps back to the card's: four bytes for Irdeto
  and Betacrypt, five for Viaccess and Cryptoworks, six for the rest.\<close>

theorem hexserial_newcamd_roundtrip:
  assumes "6 \<le> length src" "6 \<le> length d1" "6 \<le> length d2"
  shows "\<exists>x y. hexserial_to_newcamd src d1 caid = Some x \<and> newcamd_to_hexserial x d2 caid = Some y \<and>
     take 6 y = (let c = drop_bit 8 caid in
       if c = 0x17 \<or> c = 0x06 then take 4 src @ [0, 0]
       else if c = 0x05 \<or> c = 0x0D then take 5 src @ [0] else take 6 src)"
proof -
  have six: "\<exists>a b c d e f r. (xs :: u8 list) = a # b # c # d # e # f # r" if "6 \<le> length xs" for xs
    using that by (auto simp: numeral_eq_Suc Suc_le_length_iff)
  from six [OF assms(1)] obtain a b c d e f r where s: "src = a # b # c # d # e # f # r" by blast
  from six [OF assms(2)] obtain a' b' c' d' e' f' r' where d1: "d1 = a' # b' # c' # d' # e' # f' # r'" by blast
  from six [OF assms(3)] obtain a2 b2 c2 d2' e2 f2 r2 where d2: "d2 = a2 # b2 # c2 # d2' # e2 # f2 # r2" by blast
  show ?thesis
    unfolding s d1 d2
    by (simp add: hexserial_to_newcamd_def newcamd_to_hexserial_def memcpy_def Let_def)
qed

theorem hexserial_newcamd_roundtrip_witness:
  "\<exists>x y. hexserial_to_newcamd [1, 2, 3, 4, 0, 0, 0, 0] (replicate 6 9) 0x0604 = Some x \<and>
     newcamd_to_hexserial x (replicate 8 9) 0x0604 = Some y \<and> take 6 y = [1, 2, 3, 4, 0, 0]"
  using hexserial_newcamd_roundtrip [of "[1, 2, 3, 4, 0, 0, 0, 0]" "replicate 6 9" "replicate 8 9" "0x0604"]
  by simp

text \<open>\<open>cs_strncpy\<close> with the true size of the array never leaves it, always terminates the string
  inside, and keeps as much of the source as fits.\<close>

theorem cs_strncpy_safe:
  assumes "0 < num" "unat num \<le> length dst"
  shows "\<exists>d. cs_strncpy dst src num = Some d \<and> length d = length dst \<and>
     (\<exists>l < unat num. l = min (length src) (unat num - 1) \<and> take l d = take l src \<and> d ! l = CHR 0x00)"
proof -
  have n: "unat (num - 1) = unat num - 1"
    using assms(1) by (simp add: unat_minus_one word_neq_0_conv)
  have n0: "0 < unat num" using assms(1) by (simp add: word_less_nat_alt)
  define l where "l = min (length src) (unat num - 1)"
  have l: "(if unat (num - 1) < length src then unat (num - 1) else length src) = l"
    unfolding n l_def by auto
  have lt: "l < unat num" "l < length dst" using n0 assms(2) by (auto simp: l_def)
  define d1 where "d1 = take l src @ drop l dst"
  have len: "length (take l src) = l" by (simp add: l_def)
  have d1: "memcpy dst 0 (take l src) = Some d1"
    using lt(2) len by (simp add: memcpy_def d1_def)
  have "length d1 = length dst" using memcpy_length [OF d1] .
  moreover have "take l d1 = take l src" using len by (simp add: d1_def)
  moreover have "cs_strncpy dst src num = Some (d1[l := CHR 0x00])"
    using lt(2) d1 \<open>length d1 = length dst\<close> by (simp add: cs_strncpy_def l Let_def)
  ultimately show ?thesis using lt l_def by (intro exI [of _ "d1[l := CHR 0x00]"]) auto
qed

theorem cs_strncpy_safe_witness:
  "\<exists>d. cs_strncpy ''....'' ''abcdef'' 4 = Some d \<and> length d = 4"
  using cs_strncpy_safe [of 4 "''....''" "''abcdef''"] by auto

end
