(* ===== verification/Contracts.thy ===== *)
theory Contracts
  imports Prelude
begin

text \<open>
  The contracts that several parts of the program share, each stated once as a locale with what follows from it: a printer and its reader,
  a machine with an invariant, and a procedure that uses up its chances. The components interpret them on their own operations.
\<close>

section \<open>Writing and reading\<close>

text \<open>One part of the program writes a value for another part, or for its next start, to read; \<open>seen\<close> is what the reader makes of it.\<close>

locale codec =
  fixes enc :: "'a \<Rightarrow> 'b option" and dec :: "'b \<Rightarrow> 'c option" and good :: "'a \<Rightarrow> bool" and seen :: "'a \<Rightarrow> 'c"
  assumes written_read: "good x \<Longrightarrow> \<exists>b. enc x = Some b \<and> dec b = Some (seen x)"
begin

lemma read_back: "good x \<Longrightarrow> enc x = Some b \<Longrightarrow> dec b = Some (seen x)"
  using written_read by fastforce

lemma written: "good x \<Longrightarrow> enc x \<noteq> None"
  using written_read by fastforce

text \<open>What the reader makes of two values differs only if they were written differently.\<close>

lemma injective: "good x \<Longrightarrow> good y \<Longrightarrow> enc x = enc y \<Longrightarrow> seen x = seen y"
  using read_back [of x] read_back [of y] written [of x] by auto

lemma all_read_back:
  "list_all good xs \<Longrightarrow> \<exists>bs. map enc xs = map Some bs \<and> map dec bs = map (Some \<circ> seen) xs"
proof (induction xs)
  case (Cons x xs)
  then obtain bs where bs: "map enc xs = map Some bs" "map dec bs = map (Some \<circ> seen) xs" by auto
  from Cons.prems obtain b where "enc x = Some b" "dec b = Some (seen x)" using written_read [of x] by auto
  with bs show ?case by (intro exI [of _ "b # bs"]) simp
qed simp

end

text \<open>A reader that gives back the value itself: writing tells good values apart, and what was read may be written again.\<close>

locale exact_codec = codec enc dec good "\<lambda>x. x" for enc :: "'a \<Rightarrow> 'b option" and dec good
begin

lemma distinct_written: "good x \<Longrightarrow> good y \<Longrightarrow> enc x = enc y \<Longrightarrow> x = y"
  by (rule injective)

lemma again: "good x \<Longrightarrow> Option.bind (enc x) dec = Some x"
  using written_read by fastforce

end

section \<open>Machines with an invariant\<close>

locale machine =
  fixes step :: "'s \<Rightarrow> 's \<Rightarrow> bool" and inv :: "'s \<Rightarrow> bool"
  assumes keeps: "inv s \<Longrightarrow> step s s' \<Longrightarrow> inv s'"
begin

lemma reach: "step\<^sup>*\<^sup>* s s' \<Longrightarrow> inv s \<Longrightarrow> inv s'"
  by (induction rule: rtranclp_induct) (auto intro: keeps)

lemma always: "step\<^sup>*\<^sup>* s s' \<Longrightarrow> inv s \<Longrightarrow> (\<And>t. inv t \<Longrightarrow> P t) \<Longrightarrow> P s'"
  using reach by blast

end

section \<open>Procedures that use up their chances\<close>

fun repeat_step :: "('s \<Rightarrow> 's option) \<Rightarrow> nat \<Rightarrow> 's \<Rightarrow> 's option" where
  "repeat_step f 0 s = Some s"
| "repeat_step f (Suc k) s = Option.bind (f s) (repeat_step f k)"

locale draining =
  fixes step :: "'s \<Rightarrow> 's option" and going :: "'s \<Rightarrow> bool" and ended :: "'s \<Rightarrow> bool" and left :: "'s \<Rightarrow> nat"
  assumes progress: "going s \<Longrightarrow> \<exists>s'. step s = Some s' \<and> (ended s' \<or> going s' \<and> left s' < left s)"
    and some_left: "going s \<Longrightarrow> 0 < left s"
begin

lemma ends: "going s \<Longrightarrow> \<exists>k s'. 0 < k \<and> k \<le> left s \<and> repeat_step step k s = Some s' \<and> ended s'"
proof (induction "left s" arbitrary: s rule: less_induct)
  case less
  from progress [OF less.prems] obtain s1 where s1: "step s = Some s1" "ended s1 \<or> going s1 \<and> left s1 < left s" by blast
  from s1(2) show ?case
  proof
    assume "ended s1"
    then show ?thesis using s1(1) some_left [OF less.prems] by (intro exI [of _ 1] exI [of _ s1]) simp
  next
    assume a: "going s1 \<and> left s1 < left s"
    then obtain k s' where "0 < k" "k \<le> left s1" "repeat_step step k s1 = Some s'" "ended s'" using less.hyps [of s1] by blast
    then show ?thesis using s1(1) a by (intro exI [of _ "Suc k"] exI [of _ s']) simp
  qed
qed

end

end
