(* ===== verification/Locks.thy ===== *)
theory Locks
  imports Contracts
begin

text \<open>
  The reader/writer lock of \<open>oscam-simples.c\<close> (\<open>CS_MUTEX_LOCK\<close>, \<open>cs_writelock\<close>, \<open>cs_writeunlock\<close>,
  \<open>cs_readlock\<close>, \<open>cs_readunlock\<close>, \<open>cs_try_readlock\<close>, \<open>cs_try_writelock\<close>) as a machine of
  interleaved threads. A thread's program counter names the next access to the shared fields; one
  step performs one access. The increments and decrements are atomic, as the code's comments
  demand; the assignments of a timeout form one step.
\<close>

section \<open>State and steps\<close>

datatype pc =
    Idle
  | W_test | W_sleep | W_inc | W_chk | W_dec | W_rd | W_rsleep | W_got | W_held
  | U_test | U_dec
  | R_test | R_sleep | R_inc | R_chk | R_dec | R_got | R_held
  | RU_test | RU_dec
  | TR_test | TR_inc | TR_chk | TR_dec
  | TW_test | TW_inc | TW_chk | TW_dec | TW_got | TW_held

text \<open>What an idle thread asks for; ignored by a thread that is under way.\<close>

datatype request = Write | Read | Try_Read | Try_Write

record lockst =
  write_lock :: int
  read_lock :: int
  lastlock :: int
  timeout :: int
  now :: int
  pcs :: "pc list"

definition goto :: "lockst \<Rightarrow> nat \<Rightarrow> pc \<Rightarrow> lockst" where
  "goto s i q = s\<lparr>pcs := (pcs s)[i := q]\<rparr>"

definition expired :: "lockst \<Rightarrow> bool" where
  "expired s \<longleftrightarrow> timeout s \<noteq> 0 \<and> now s > lastlock s + timeout s"

definition lock_step :: "lockst \<Rightarrow> nat \<Rightarrow> request \<Rightarrow> lockst" where
  "lock_step s i r = (case pcs s ! i of
     Idle \<Rightarrow> goto s i (case r of Write \<Rightarrow> W_test | Read \<Rightarrow> R_test | Try_Read \<Rightarrow> TR_test
                                | Try_Write \<Rightarrow> TW_test)
   \<comment> \<open>\<open>cs_writelock\<close>\<close>
   | W_test \<Rightarrow> goto s i (if write_lock s \<noteq> 0 then W_sleep else W_inc)
   | W_sleep \<Rightarrow> if expired s \<and> write_lock s \<noteq> 0
                then goto (s\<lparr>write_lock := 0, read_lock := 0, lastlock := now s\<rparr>) i W_inc
                else goto s i W_test
   | W_inc \<Rightarrow> goto (s\<lparr>write_lock := write_lock s + 1\<rparr>) i W_chk
   | W_chk \<Rightarrow> goto s i (if write_lock s > 1 then W_dec else W_rd)
   | W_dec \<Rightarrow> goto (s\<lparr>write_lock := write_lock s - 1\<rparr>) i W_test
   | W_rd \<Rightarrow> goto s i (if read_lock s \<noteq> 0 then W_rsleep else W_got)
   | W_rsleep \<Rightarrow> if expired s then goto (s\<lparr>lastlock := now s, read_lock := 0\<rparr>) i W_got
                 else goto s i W_rd
   | W_got \<Rightarrow> goto (s\<lparr>lastlock := now s\<rparr>) i W_held
   \<comment> \<open>\<open>cs_writeunlock\<close>\<close>
   | W_held \<Rightarrow> goto s i U_test
   | TW_held \<Rightarrow> goto s i U_test
   | U_test \<Rightarrow> goto s i (if write_lock s > 0 then U_dec else Idle)
   | U_dec \<Rightarrow> goto (s\<lparr>write_lock := write_lock s - 1\<rparr>) i Idle
   \<comment> \<open>\<open>cs_readlock\<close>\<close>
   | R_test \<Rightarrow> goto s i (if write_lock s \<noteq> 0 then R_sleep else R_inc)
   | R_sleep \<Rightarrow> if expired s \<and> write_lock s \<noteq> 0
                then goto (s\<lparr>write_lock := 0, read_lock := 0, lastlock := now s\<rparr>) i R_inc
                else goto s i R_test
   | R_inc \<Rightarrow> goto (s\<lparr>read_lock := read_lock s + 1\<rparr>) i R_chk
   | R_chk \<Rightarrow> goto s i (if write_lock s > 0 then R_dec else R_got)
   | R_dec \<Rightarrow> goto (s\<lparr>read_lock := read_lock s - 1\<rparr>) i R_test
   | R_got \<Rightarrow> goto (s\<lparr>lastlock := now s\<rparr>) i R_held
   \<comment> \<open>\<open>cs_readunlock\<close>\<close>
   | R_held \<Rightarrow> goto s i RU_test
   | RU_test \<Rightarrow> goto s i (if read_lock s > 0 then RU_dec else Idle)
   | RU_dec \<Rightarrow> goto (s\<lparr>read_lock := read_lock s - 1\<rparr>) i Idle
   \<comment> \<open>\<open>cs_try_readlock\<close>\<close>
   | TR_test \<Rightarrow> goto s i (if write_lock s \<noteq> 0 then Idle else TR_inc)
   | TR_inc \<Rightarrow> goto (s\<lparr>read_lock := read_lock s + 1\<rparr>) i TR_chk
   | TR_chk \<Rightarrow> goto s i (if write_lock s > 0 then TR_dec else R_got)
   | TR_dec \<Rightarrow> goto (s\<lparr>read_lock := read_lock s - 1\<rparr>) i Idle
   \<comment> \<open>\<open>cs_try_writelock\<close>\<close>
   | TW_test \<Rightarrow> goto s i (if write_lock s \<noteq> 0 then Idle else TW_inc)
   | TW_inc \<Rightarrow> goto (s\<lparr>write_lock := write_lock s + 1\<rparr>) i TW_chk
   | TW_chk \<Rightarrow> goto s i (if write_lock s > 1 then TW_dec else TW_got)
   | TW_dec \<Rightarrow> goto (s\<lparr>write_lock := write_lock s - 1\<rparr>) i Idle
   | TW_got \<Rightarrow> goto (s\<lparr>lastlock := now s\<rparr>) i TW_held)"

text \<open>\<open>cs_lock_create\<close>, with \<open>n\<close> threads that may use the lock.\<close>

definition cs_lock_create :: "int \<Rightarrow> int \<Rightarrow> nat \<Rightarrow> lockst" where
  "cs_lock_create t0 tmo n =
     \<lparr>write_lock = 0, read_lock = 0, lastlock = 0, timeout = tmo, now = t0, pcs = replicate n Idle\<rparr>"

inductive lock_reach :: "lockst \<Rightarrow> lockst \<Rightarrow> bool" for s0 where
  start: "lock_reach s0 s0"
| step: "lock_reach s0 s \<Longrightarrow> i < length (pcs s) \<Longrightarrow> lock_reach s0 (lock_step s i r)"
| tick: "lock_reach s0 s \<Longrightarrow> lock_reach s0 (s\<lparr>now := now s + 1\<rparr>)"

fun lock_run :: "lockst \<Rightarrow> (nat \<times> request) list \<Rightarrow> lockst" where
  "lock_run s [] = s"
| "lock_run s ((i, r) # es) = lock_run (lock_step s i r) es"

section \<open>The invariant without timeouts\<close>

definition w_owner :: "pc \<Rightarrow> bool" where
  "w_owner q \<longleftrightarrow> q \<in> {W_rd, W_rsleep, W_got, W_held, TW_got, TW_held, U_test, U_dec}"

definition w_trying :: "pc \<Rightarrow> bool" where
  "w_trying q \<longleftrightarrow> q \<in> {W_chk, W_dec, TW_chk, TW_dec}"

definition r_counted :: "pc \<Rightarrow> bool" where
  "r_counted q \<longleftrightarrow> q \<in> {R_chk, R_dec, R_got, R_held, RU_test, RU_dec, TR_chk, TR_dec}"

definition w_excl :: "pc \<Rightarrow> bool" where "w_excl q \<longleftrightarrow> q \<in> {W_got, W_held}"
definition r_holds :: "pc \<Rightarrow> bool" where "r_holds q \<longleftrightarrow> q \<in> {R_got, R_held}"

definition cnt :: "(pc \<Rightarrow> bool) \<Rightarrow> lockst \<Rightarrow> int" where
  "cnt P s = int (length (filter P (pcs s)))"

definition lock_inv :: "lockst \<Rightarrow> bool" where
  "lock_inv s \<longleftrightarrow> timeout s = 0 \<and> write_lock s = cnt w_owner s + cnt w_trying s \<and>
     read_lock s = cnt r_counted s \<and> cnt w_owner s \<le> 1 \<and> (0 < cnt w_excl s \<longrightarrow> cnt r_holds s = 0)"

lemma count_list_update:
  "i < length xs \<Longrightarrow> int (length (filter P (xs[i := q]))) =
     int (length (filter P xs)) - (if P (xs ! i) then 1 else 0) + (if P q then 1 else 0)"
proof (induction xs arbitrary: i)
  case (Cons x xs)
  show ?case
  proof (cases i)
    case (Suc j)
    with Cons.prems Cons.IH [of j] show ?thesis by (auto split: if_splits)
  qed simp
qed simp

lemma cnt_goto:
  "i < length (pcs s) \<Longrightarrow>
     cnt P (goto s i q) = cnt P s - (if P (pcs s ! i) then 1 else 0) + (if P q then 1 else 0)"
  by (simp add: cnt_def goto_def count_list_update)

lemma cnt_frame [simp]:
  "cnt P (s\<lparr>write_lock := w\<rparr>) = cnt P s" "cnt P (s\<lparr>read_lock := w\<rparr>) = cnt P s"
  "cnt P (s\<lparr>lastlock := t\<rparr>) = cnt P s" "cnt P (s\<lparr>now := t\<rparr>) = cnt P s"
  by (simp_all add: cnt_def)

lemma goto_sel [simp]:
  "write_lock (goto s i q) = write_lock s" "read_lock (goto s i q) = read_lock s"
  "lastlock (goto s i q) = lastlock s" "timeout (goto s i q) = timeout s" "now (goto s i q) = now s"
  "pcs (goto s i q) = (pcs s)[i := q]"
  by (simp_all add: goto_def)

lemma cnt_nonneg: "0 \<le> cnt P s"
  by (simp add: cnt_def)

lemma cnt_pos: "i < length (pcs s) \<Longrightarrow> P (pcs s ! i) \<Longrightarrow> 0 < cnt P s"
  by (auto simp: cnt_def filter_empty_conv)

lemma cnt_mono: "(\<And>q. P q \<Longrightarrow> Q q) \<Longrightarrow> cnt P s \<le> cnt Q s"
proof -
  assume imp: "\<And>q. P q \<Longrightarrow> Q q"
  have "length (filter P xs) \<le> length (filter Q xs)" for xs
    by (induction xs) (auto dest: imp)
  then show ?thesis by (simp add: cnt_def)
qed

lemmas pc_classes = w_owner_def w_trying_def r_counted_def w_excl_def r_holds_def

lemma lock_step_inv:
  assumes inv: "lock_inv s" and i: "i < length (pcs s)"
  shows "lock_inv (lock_step s i r)"
proof -
  have nonneg: "0 \<le> cnt w_owner s" "0 \<le> cnt w_trying s" "0 \<le> cnt r_counted s" "0 \<le> cnt w_excl s"
    "0 \<le> cnt r_holds s" by (simp_all add: cnt_nonneg)
  have sub: "cnt w_excl s \<le> cnt w_owner s" "cnt r_holds s \<le> cnt r_counted s"
    by (auto intro!: cnt_mono simp: pc_classes)
  have pos: "P (pcs s ! i) \<Longrightarrow> 0 < cnt P s" for P using i by (rule cnt_pos)
  have "\<not> expired s" using inv by (simp add: lock_inv_def expired_def)
  then show ?thesis
    using inv nonneg sub pos [of w_owner] pos [of w_trying] pos [of r_counted] pos [of w_excl]
      pos [of r_holds] i
    by (cases "pcs s ! i"; cases r)
       (simp_all add: lock_step_def lock_inv_def cnt_goto pc_classes)
qed

lemma lock_step_length [simp]: "length (pcs (lock_step s i r)) = length (pcs s)"
  by (simp add: lock_step_def split: pc.splits request.splits)

lemma lock_inv_create: "lock_inv (cs_lock_create t0 0 n)"
  by (simp add: lock_inv_def cs_lock_create_def cnt_def pc_classes)

inductive lock_next :: "lockst \<Rightarrow> lockst \<Rightarrow> bool" where
  thread: "i < length (pcs s) \<Longrightarrow> lock_next s (lock_step s i r)"
| clock: "lock_next s (s\<lparr>now := now s + 1\<rparr>)"

inductive_cases lock_nextE: "lock_next s s'"

interpretation lock: machine lock_next lock_inv
  by unfold_locales (erule lock_nextE, auto intro: lock_step_inv, simp add: lock_inv_def)

lemma lock_reach_steps: "lock_reach s0 s \<Longrightarrow> lock_next\<^sup>*\<^sup>* s0 s"
  by (induction rule: lock_reach.induct) (auto intro: rtranclp.rtrancl_into_rtrancl thread clock)

lemma lock_reach_inv: "lock_reach (cs_lock_create t0 0 n) s \<Longrightarrow> lock_inv s"
  by (rule lock.reach [OF lock_reach_steps lock_inv_create])

lemma cnt_le_1_unique:
  assumes "cnt P s \<le> 1" "i < length (pcs s)" "j < length (pcs s)" "P (pcs s ! i)" "P (pcs s ! j)"
  shows "i = j"
proof (rule ccontr)
  assume "i \<noteq> j"
  with assms have "{i, j} \<subseteq> {k. k < length (pcs s) \<and> P (pcs s ! k)}" "card {i, j} = 2" by auto
  then have "2 \<le> card {k. k < length (pcs s) \<and> P (pcs s ! k)}"
    by (metis (no_types, lifting) card_mono finite_nat_set_iff_bounded mem_Collect_eq)
  with assms(1) show False by (simp add: cnt_def length_filter_conv_card)
qed

section \<open>Properties\<close>

definition writing :: "lockst \<Rightarrow> nat \<Rightarrow> bool" where
  "writing s i \<longleftrightarrow> i < length (pcs s) \<and> pcs s ! i \<in> {W_held, TW_held}"

definition reading :: "lockst \<Rightarrow> nat \<Rightarrow> bool" where
  "reading s i \<longleftrightarrow> i < length (pcs s) \<and> pcs s ! i = R_held"


lemma lock_run_reach:
  "lock_reach s0 s \<Longrightarrow> \<forall>(i, r) \<in> set es. i < length (pcs s) \<Longrightarrow> lock_reach s0 (lock_run s es)"
proof (induction es arbitrary: s)
  case (Cons e es)
  obtain i r where e: "e = (i, r)" by (cases e)
  with Cons.prems have "lock_reach s0 (lock_step s i r)" by (auto intro: lock_reach.step)
  from Cons.IH [OF this] Cons.prems(2) e show ?case by auto
qed simp

text \<open>A schedule in which thread 0 takes the write lock while thread 1 tries.\<close>

definition sched :: "(nat \<times> request) list" where
  "sched = [(0, Write), (0, Write), (1, Try_Write), (0, Write), (1, Write), (0, Write), (0, Write),
            (0, Write)]"


text \<open>Two limits of the lock: \<open>cs_try_writelock\<close> succeeds while a read lock is held, and with a
  timeout two threads can hold the write lock at once.\<close>

definition sched_try :: "(nat \<times> request) list" where
  "sched_try = map (\<lambda>_. (0, Read)) [0..<5] @ map (\<lambda>_. (1, Try_Write)) [0..<5]"

definition late :: "lockst \<Rightarrow> lockst" where "late s = s\<lparr>now := now s + 6\<rparr>"

theorem lock_limits:
  "(let s = lock_run (cs_lock_create 7 0 2) sched_try in reading s 0 \<and> writing s 1) \<and>
   (let s1 = lock_run (cs_lock_create 7 5 2) (map (\<lambda>_. (0, Write)) [0..<6]);
        s2 = lock_run (late s1) (map (\<lambda>_. (1, Write)) [0..<7])
    in writing s2 0 \<and> writing s2 1)"
  by code_simp

text \<open>Releasing gives everything back: when every thread is idle again the lock is free.\<close>

theorem lock_released:
  assumes "lock_reach (cs_lock_create t0 0 n) s" "\<forall>i < length (pcs s). pcs s ! i = Idle"
  shows "write_lock s = 0 \<and> read_lock s = 0"
proof -
  from assms(1) have inv: "lock_inv s" by (rule lock_reach_inv)
  have "filter P (pcs s) = []" if "\<not> P Idle" for P
    using assms(2) that by (auto simp: filter_empty_conv in_set_conv_nth)
  then have "cnt w_owner s = 0" "cnt w_trying s = 0" "cnt r_counted s = 0"
    by (auto simp: cnt_def pc_classes)
  with inv show ?thesis by (simp add: lock_inv_def)
qed

theorem lock_released_witness:
  "write_lock (lock_run (cs_lock_create 7 0 1) (map (\<lambda>_. (0, Write)) [0..<9])) = 0"
proof -
  let ?s = "lock_run (cs_lock_create 7 0 1) (map (\<lambda>_. (0, Write)) [0..<9])"
  have "lock_reach (cs_lock_create 7 0 1) ?s"
    by (rule lock_run_reach [OF lock_reach.start]) (auto simp: cs_lock_create_def)
  moreover have "pcs ?s = [Idle]"
    by (simp add: cs_lock_create_def lock_step_def goto_def upt_conv_Cons)
  ultimately show ?thesis using lock_released [of 7 1 ?s] by simp
qed

end
