(* ===== verification/Garbage.thy ===== *)
theory Garbage
  imports Prelude
begin

text \<open>
  The deferred free of \<open>oscam-garbage.c\<close>: sixteen buckets of blocks waiting to be freed. Each bucket
  is handled under its lock, so the operations are atomic per bucket; \<open>freed\<close> logs the calls of
  \<open>free\<close>. \<open>time ()\<close> is an input of every operation. The debug fields (file and line) are left out.
\<close>

section \<open>State and operations\<close>

record gentry =
  g_time :: int
  g_data :: nat

record gstate =
  g_first :: "gentry list list"
  g_active :: bool
  g_debug :: bool
  freed :: "nat list"

definition hash_buckets :: nat where "hash_buckets = 16"

definition bucket_of :: "nat \<Rightarrow> nat" where
  "bucket_of p = p div 16 mod hash_buckets"

definition add_garbage :: "gstate \<Rightarrow> int \<Rightarrow> nat \<Rightarrow> gstate" where
  "add_garbage g t p =
     (if p = 0 then g
      else if \<not> g_active g \<or> g_debug g then g\<lparr>freed := freed g @ [p]\<rparr>
      else (let b = bucket_of p; es = g_first g ! b in
            if \<exists>e \<in> set es. g_data e = p then g
            else g\<lparr>g_first := (g_first g)[b := \<lparr>g_time = t, g_data = p\<rparr> # es]\<rparr>))"

text \<open>One bucket of a pass: entries older than five seconds are freed and unlinked.\<close>

fun gc_bucket :: "int \<Rightarrow> gentry list \<Rightarrow> gentry list \<times> nat list" where
  "gc_bucket t [] = ([], [])"
| "gc_bucket t (e # es) =
     (case gc_bucket t es of (keep, fr) \<Rightarrow>
        if t > g_time e + 5 then (keep, g_data e # fr) else (e # keep, fr))"

text \<open>One round of \<open>garbage_collector\<close> over the buckets \<open>i, i+1, \<dots>\<close>; \<open>clk i\<close> is the time read for
  bucket \<open>i\<close>.\<close>

fun gc_pass :: "(nat \<Rightarrow> int) \<Rightarrow> nat \<Rightarrow> gentry list list \<Rightarrow> gentry list list \<times> nat list" where
  "gc_pass clk i [] = ([], [])"
| "gc_pass clk i (b # bs) =
     (case gc_bucket (clk i) b of (keep, fr) \<Rightarrow>
        (case gc_pass clk (i + 1) bs of (bs', fr') \<Rightarrow> (keep # bs', fr @ fr')))"

definition garbage_collector :: "gstate \<Rightarrow> (nat \<Rightarrow> int) \<Rightarrow> gstate" where
  "garbage_collector g clk =
     (if g_active g
      then (case gc_pass clk 0 (g_first g) of (bs, fr) \<Rightarrow> g\<lparr>g_first := bs, freed := freed g @ fr\<rparr>)
      else g)"

definition start_garbage_collector :: "bool \<Rightarrow> gstate \<Rightarrow> gstate" where
  "start_garbage_collector debug g =
     g\<lparr>g_debug := debug, g_first := replicate hash_buckets [], g_active := True\<rparr>"

definition stop_garbage_collector :: "gstate \<Rightarrow> gstate" where
  "stop_garbage_collector g =
     (if g_active g
      then g\<lparr>g_active := False, freed := freed g @ concat (map (map g_data) (g_first g)),
             g_first := replicate hash_buckets []\<rparr>
      else g)"

datatype gop = Add int nat | Collect "nat \<Rightarrow> int" | Stop

fun g_step :: "gstate \<Rightarrow> gop \<Rightarrow> gstate" where
  "g_step g (Add t p) = add_garbage g t p"
| "g_step g (Collect clk) = garbage_collector g clk"
| "g_step g Stop = stop_garbage_collector g"

definition g_run :: "gstate \<Rightarrow> gop list \<Rightarrow> gstate" where
  "g_run = foldl g_step"

definition g_start :: gstate where
  "g_start = start_garbage_collector False
     \<lparr>g_first = [], g_active = False, g_debug = False, freed = []\<rparr>"

section \<open>Lemmas\<close>

definition pending :: "gstate \<Rightarrow> nat list" where
  "pending g = concat (map (map g_data) (g_first g))"

definition ginv :: "gstate \<Rightarrow> bool" where
  "ginv g \<longleftrightarrow> length (g_first g) = hash_buckets \<and> distinct (pending g) \<and>
     (\<forall>i < hash_buckets. \<forall>e \<in> set (g_first g ! i). g_data e \<noteq> 0 \<and> bucket_of (g_data e) = i)"

lemma bucket_of_less: "bucket_of p < hash_buckets"
  by (simp add: bucket_of_def hash_buckets_def)

lemma gc_bucket_spec:
  "gc_bucket t es = (filter (\<lambda>e. t \<le> g_time e + 5) es, map g_data (filter (\<lambda>e. t > g_time e + 5) es))"
  by (induction es) auto

lemma gc_bucket_mset:
  "gc_bucket t es = (keep, fr) \<Longrightarrow> mset (map g_data es) = mset (map g_data keep) + mset fr"
  by (induction es arbitrary: keep fr) (auto split: prod.splits if_splits)

lemma gc_pass_spec:
  "gc_pass clk i bs = (bs', fr) \<Longrightarrow>
     length bs' = length bs \<and>
     mset (concat (map (map g_data) bs)) = mset (concat (map (map g_data) bs')) + mset fr \<and>
     (\<forall>k < length bs. set (bs' ! k) \<subseteq> set (bs ! k))"
proof (induction bs arbitrary: i bs' fr)
  case (Cons b bs)
  obtain keep fr1 where b: "gc_bucket (clk i) b = (keep, fr1)" by (cases "gc_bucket (clk i) b")
  obtain bs1 fr2 where r: "gc_pass clk (i + 1) bs = (bs1, fr2)" by (cases "gc_pass clk (i + 1) bs")
  have keep: "set keep \<subseteq> set b" using b by (auto simp: gc_bucket_spec)
  from Cons.prems b r have eq: "bs' = keep # bs1" "fr = fr1 @ fr2" by simp_all
  with Cons.IH [OF r] gc_bucket_mset [OF b] keep show ?case
    by (auto simp: nth_Cons split: nat.splits)
qed simp

lemma pending_update:
  assumes "b < length (g_first g)"
  shows "mset (concat (map (map g_data) ((g_first g)[b := e # g_first g ! b]))) = add_mset (g_data e) (mset (pending g))"
proof -
  have "mset (concat (map (map g_data) (xs[b := e # xs ! b]))) =
      add_mset (g_data e) (mset (concat (map (map g_data) xs)))" if "b < length xs" for xs
    using that
  proof (induction xs arbitrary: b)
    case (Cons x xs)
    then show ?case by (cases b) auto
  qed simp
  with assms show ?thesis by (simp add: pending_def)
qed

lemma pending_in_bucket:
  assumes "ginv g" "p \<in> set (pending g)"
  shows "\<exists>e \<in> set (g_first g ! bucket_of p). g_data e = p"
proof -
  from assms(2) obtain es e where "es \<in> set (g_first g)" "e \<in> set es" "g_data e = p"
    by (auto simp: pending_def)
  then obtain i where "i < length (g_first g)" "e \<in> set (g_first g ! i)" "g_data e = p"
    by (auto simp: in_set_conv_nth)
  with assms(1) show ?thesis by (auto simp: ginv_def)
qed

lemma bucket_in_pending:
  "ginv g \<Longrightarrow> e \<in> set (g_first g ! bucket_of p) \<Longrightarrow> g_data e \<in> set (pending g)"
  using bucket_of_less [of p] by (auto simp: pending_def ginv_def)

text \<open>The effect of the operations on the multisets of pending and freed blocks.\<close>

lemma add_garbage_effect:
  assumes "ginv g" "g_active g" "\<not> g_debug g" "p \<noteq> 0"
  shows "ginv (add_garbage g t p)" "freed (add_garbage g t p) = freed g"
    "mset (pending (add_garbage g t p)) =
       (if p \<in> set (pending g) then mset (pending g) else add_mset p (mset (pending g)))"
proof -
  let ?b = "bucket_of p"
  have b: "?b < length (g_first g)" using assms(1) bucket_of_less by (simp add: ginv_def)
  have iff: "(\<exists>e \<in> set (g_first g ! ?b). g_data e = p) \<longleftrightarrow> p \<in> set (pending g)"
    using pending_in_bucket [OF assms(1)] bucket_in_pending [OF assms(1)] by blast
  show "freed (add_garbage g t p) = freed g"
    using assms by (simp add: add_garbage_def Let_def)
  show m: "mset (pending (add_garbage g t p)) =
      (if p \<in> set (pending g) then mset (pending g) else add_mset p (mset (pending g)))"
    using assms iff pending_update [OF b, of "\<lparr>g_time = t, g_data = p\<rparr>"]
    by (simp add: add_garbage_def Let_def pending_def)
  have "distinct (pending (add_garbage g t p))"
  proof (cases "p \<in> set (pending g)")
    case True
    then have "add_garbage g t p = g" using assms iff by (simp add: add_garbage_def Let_def)
    with assms(1) show ?thesis by (simp add: ginv_def)
  next
    case False
    then have "mset (pending (add_garbage g t p)) = mset (p # pending g)" using m by simp
    moreover have "distinct (p # pending g)" using False assms(1) by (simp add: ginv_def)
    ultimately show ?thesis using mset_eq_imp_distinct_iff by blast
  qed
  with assms b show "ginv (add_garbage g t p)"
    by (auto simp: ginv_def add_garbage_def Let_def nth_list_update)
qed

lemma gc_effect:
  assumes "ginv g"
  shows "ginv (garbage_collector g clk)"
    "mset (freed (garbage_collector g clk)) + mset (pending (garbage_collector g clk)) =
       mset (freed g) + mset (pending g)"
    "set (pending (garbage_collector g clk)) \<subseteq> set (pending g)"
proof -
  obtain bs fr where p: "gc_pass clk 0 (g_first g) = (bs, fr)" by (cases "gc_pass clk 0 (g_first g)")
  note spec = gc_pass_spec [OF p]
  show eff: "mset (freed (garbage_collector g clk)) + mset (pending (garbage_collector g clk)) =
      mset (freed g) + mset (pending g)"
    using p spec by (simp add: garbage_collector_def pending_def)
  have sub: "mset (pending (garbage_collector g clk)) \<subseteq># mset (pending g)"
    using p spec by (simp add: garbage_collector_def pending_def)
  then show "set (pending (garbage_collector g clk)) \<subseteq> set (pending g)"
    by (metis set_mset_mono set_mset_mset)
  have "distinct (pending (garbage_collector g clk))"
    using sub assms by (auto intro: distinct_mset_sub simp: ginv_def)
  then show "ginv (garbage_collector g clk)"
    using assms p spec by (fastforce simp: ginv_def garbage_collector_def)
qed

lemma stop_effect:
  assumes "ginv g" "g_active g"
  shows "ginv (stop_garbage_collector g)" "pending (stop_garbage_collector g) = []"
    "mset (freed (stop_garbage_collector g)) = mset (freed g) + mset (pending g)"
  using assms by (auto simp: stop_garbage_collector_def ginv_def pending_def)

lemma g_active_step:
  "g_active (g_step g op) = (g_active g \<and> op \<noteq> Stop)" "g_debug (g_step g op) = g_debug g"
  by (cases op; simp add: add_garbage_def garbage_collector_def stop_garbage_collector_def Let_def
      split: prod.splits)+

definition adds :: "gop list \<Rightarrow> nat \<Rightarrow> nat" where
  "adds ops p = length (filter (\<lambda>op. case op of Add _ q \<Rightarrow> q = p | _ \<Rightarrow> False) ops)"

lemma adds_simps [simp]:
  "adds [] p = 0"
  "adds (ops @ [Add t q]) p = adds ops p + (if q = p then 1 else 0)"
  "adds (ops @ [Collect clk]) p = adds ops p"
  by (simp_all add: adds_def)

lemma ginv_start: "ginv g_start" "pending g_start = []" "freed g_start = []" "g_active g_start"
  "\<not> g_debug g_start"
  by (simp_all add: g_start_def start_garbage_collector_def ginv_def pending_def)

lemma g_run_snoc: "g_run g (ops @ [op]) = g_step (g_run g ops) op"
  by (simp add: g_run_def)

lemma g_run_inv:
  assumes "Stop \<notin> set ops"
  shows "ginv (g_run g_start ops) \<and> g_active (g_run g_start ops) \<and> \<not> g_debug (g_run g_start ops) \<and>
     (\<forall>p. count (mset (freed (g_run g_start ops))) p + count (mset (pending (g_run g_start ops))) p
            \<le> adds ops p) \<and>
     (\<forall>p. p \<noteq> 0 \<longrightarrow> 0 < adds ops p \<longrightarrow>
        0 < count (mset (freed (g_run g_start ops))) p + count (mset (pending (g_run g_start ops))) p)"
  using assms
proof (induction ops rule: rev_induct)
  case Nil
  show ?case by (simp add: g_run_def ginv_start)
next
  case (snoc op ops)
  let ?g = "g_run g_start ops"
  from snoc have IH: "ginv ?g" "g_active ?g" "\<not> g_debug ?g"
    and le: "\<And>p. count (mset (freed ?g)) p + count (mset (pending ?g)) p \<le> adds ops p"
    and ge: "\<And>p. p \<noteq> 0 \<Longrightarrow> 0 < adds ops p \<Longrightarrow> 0 < count (mset (freed ?g)) p + count (mset (pending ?g)) p"
    by auto
  have act: "g_active (g_step ?g op)" "\<not> g_debug (g_step ?g op)"
    using snoc.prems IH(2,3) by (auto simp: g_active_step)
  show ?case
  proof (cases op)
    case (Add t q)
    show ?thesis
    proof (cases "q = 0")
      case True
      with IH le ge Add show ?thesis by (auto simp: g_run_snoc add_garbage_def le_Suc_eq)
    next
      case False
      note e = add_garbage_effect [OF IH False, of t]
      have "count (mset (freed (add_garbage ?g t q))) p + count (mset (pending (add_garbage ?g t q))) p
          \<le> adds (ops @ [op]) p" for p
        using e(2,3) le [of p] Add by auto
      moreover have "0 < count (mset (freed (add_garbage ?g t q))) p + count (mset (pending (add_garbage ?g t q))) p"
        if "p \<noteq> 0" "0 < adds (ops @ [op]) p" for p
        using e(2,3) ge [OF that(1)] that(2) Add by (auto split: if_splits)
      ultimately show ?thesis using e(1) act Add by (simp add: g_run_snoc)
    qed
  next
    case (Collect clk)
    note e = gc_effect [OF IH(1), of clk]
    have "count (mset (freed (garbage_collector ?g clk))) p + count (mset (pending (garbage_collector ?g clk))) p
        = count (mset (freed ?g)) p + count (mset (pending ?g)) p" for p
      using arg_cong [OF e(2), of "\<lambda>m. count m p"] by simp
    with le ge e(1) act Collect show ?thesis by (simp add: g_run_snoc)
  qed (use snoc.prems in simp)
qed

section \<open>Properties\<close>



text \<open>A block is freed only more than five seconds after it was handed over, and the pass that
  sees it that old does free it.\<close>

theorem garbage_delay:
  assumes "ginv g" "g_active g"
  shows "\<exists>fr. freed (garbage_collector g clk) = freed g @ fr \<and>
     (\<forall>p. p \<in> set fr \<longleftrightarrow>
        (\<exists>i < hash_buckets. \<exists>e \<in> set (g_first g ! i). g_data e = p \<and> g_time e + 5 < clk i))"
proof -
  obtain bs fr where p: "gc_pass clk 0 (g_first g) = (bs, fr)" by (cases "gc_pass clk 0 (g_first g)")
  have gen: "gc_pass clk k xs = (ys, fr) \<Longrightarrow> p \<in> set fr \<longleftrightarrow>
      (\<exists>i < length xs. \<exists>e \<in> set (xs ! i). g_data e = p \<and> g_time e + 5 < clk (k + i))" for k xs ys fr p
  proof (induction xs arbitrary: k ys fr)
    case (Cons x xs)
    obtain ys' fr' where r: "gc_pass clk (k + 1) xs = (ys', fr')" by (cases "gc_pass clk (k + 1) xs")
    have "p \<in> set fr \<longleftrightarrow> (\<exists>e \<in> set x. g_data e = p \<and> g_time e + 5 < clk k) \<or> p \<in> set fr'"
      using Cons.prems r by (auto simp: gc_bucket_spec)
    with Cons.IH [OF r] show ?case by (simp add: Ex_less_Suc2)
  qed simp
  from gen [OF p] p assms show ?thesis by (simp add: garbage_collector_def ginv_def)
qed

theorem garbage_delay_witness:
  "\<exists>fr. freed (garbage_collector (g_run g_start [Add 0 48, Add 1 64]) (\<lambda>_. 6)) = fr \<and>
     48 \<in> set fr \<and> 64 \<notin> set fr"
proof -
  let ?g = "g_run g_start [Add 0 48, Add 1 64]"
  have inv: "ginv ?g" "g_active ?g" using g_run_inv [of "[Add 0 48, Add 1 64]"] by auto
  have fst: "g_first ?g = (replicate 16 [])[3 := [\<lparr>g_time = 0, g_data = 48\<rparr>], 4 := [\<lparr>g_time = 1, g_data = 64\<rparr>]]"
    and fr: "freed ?g = []"
    by (simp_all add: g_run_def g_start_def start_garbage_collector_def add_garbage_def bucket_of_def
        hash_buckets_def Let_def)
  have "\<exists>i < hash_buckets. \<exists>e \<in> set (g_first ?g ! i). g_data e = 48 \<and> g_time e + 5 < (6 :: int)"
    unfolding fst hash_buckets_def by (intro exI [of _ 3]) simp
  moreover have "\<not> (\<exists>i < hash_buckets. \<exists>e \<in> set (g_first ?g ! i). g_data e = 64 \<and> g_time e + 5 < (6 :: int))"
    unfolding fst hash_buckets_def by (auto simp: nth_list_update split: if_splits)
  ultimately show ?thesis using garbage_delay [OF inv, of "\<lambda>_. 6"] fr by auto
qed

end
