(* ===== verification/Globals.thy ===== *)
theory Globals
  imports Prelude
begin

text \<open>
  The structures of \<open>globals.h\<close> that the request path shares. An array with its own counter
  (\<open>nfilts\<close> and \<open>filts\<close>, \<open>nprids\<close> and \<open>prids\<close>, \<open>an\<close> and \<open>aclass\<close>, \<dots>) is the list of its used
  entries; a linked list (\<open>next\<close>) is a list; fields that no modelled function reads are left out.
\<close>

section \<open>Constants\<close>

definition E_FOUND :: int where "E_FOUND = 0"
definition E_CACHE1 :: int where "E_CACHE1 = 1"
definition E_CACHE2 :: int where "E_CACHE2 = 2"
definition E_EMU :: int where "E_EMU = 3"
definition E_NOTFOUND :: int where "E_NOTFOUND = 4"
definition E_TIMEOUT :: int where "E_TIMEOUT = 5"
definition E_FAKE :: int where "E_FAKE = 7"
definition E_UNHANDLED :: int where "E_UNHANDLED = 100"

lemmas rc_defs = E_FOUND_def E_CACHE1_def E_CACHE2_def E_EMU_def E_NOTFOUND_def E_TIMEOUT_def
  E_FAKE_def E_UNHANDLED_def

definition R_IS_NETWORK :: int where "R_IS_NETWORK = 0x60"

text \<open>\<open>(E1 << 4) | E2\<close> of the extended return codes.\<close>

definition rcex :: "nat \<Rightarrow> nat \<Rightarrow> u8" where
  "rcex e1 e2 = of_nat (e1 * 16 + e2)"

definition E1_USER :: nat where "E1_USER = 1"
definition E1_SERVER :: nat where "E1_SERVER = 3"
definition E1_LSERVER :: nat where "E1_LSERVER = 4"
definition E2_IDENT :: nat where "E2_IDENT = 3"
definition E2_CLASS :: nat where "E2_CLASS = 4"
definition E2_CHID :: nat where "E2_CHID = 5"
definition E2_CCCAM_NOK1 :: u8 where "E2_CCCAM_NOK1 = 0x28"
definition E2_CCCAM_NOK2 :: u8 where "E2_CCCAM_NOK2 = 0x29"
definition E2_CCCAM_LOOP :: u8 where "E2_CCCAM_LOOP = 0x30"
definition E2_WRONG_CHKSUM :: u8 where "E2_WRONG_CHKSUM = 0x31"

lemmas e_defs = E1_USER_def E1_SERVER_def E1_LSERVER_def E2_IDENT_def E2_CLASS_def E2_CHID_def rcex_def
  E2_CCCAM_NOK1_def E2_CCCAM_NOK2_def E2_CCCAM_LOOP_def E2_WRONG_CHKSUM_def

section \<open>Filter tables\<close>

record classtab =
  aclass :: "u8 list"
  bclass :: "u8 list"

text \<open>\<open>caid\<close> and \<open>mask\<close> of the \<open>CS_MAXCAIDTAB\<close> slots; an unused slot has \<open>caid = 0\<close>.\<close>

type_synonym caidtab = "(u16 \<times> u16) list"

record sidtab =
  st_caid :: "u16 list"
  st_provid :: "u32 list"
  st_srvid :: "u16 list"

record filter_rec =
  f_caid :: u16
  f_prids :: "u32 list"

type_synonym ftab = "filter_rec list"

type_synonym caidvaluetab = "(u16 \<times> u16) list"

text \<open>\<open>s_ecmWhitelist\<close>, \<open>s_ecmWhitelistIdent\<close> and \<open>s_ecmWhitelistLen\<close>.\<close>

type_synonym ecm_whitelist = "(u16 \<times> (u32 \<times> int list) list) list"

section \<open>Requests, clients, readers\<close>

record ecm_request =
  er_ecm :: "u8 list"
  er_cw :: "u8 list"
  er_ecmd5 :: "u8 list"
  er_l :: int
  er_caid :: u16
  er_ocaid :: u16
  er_srvid :: u16
  er_chid :: u16
  er_prid :: u32
  er_rc :: int
  er_rcEx :: u8

record acasc_shm =
  ac_count :: nat
  ac_deny :: bool

record s_client =
  cl_typ :: char
  cl_grp :: u64
  cl_sidtabok :: u64
  cl_sidtabno :: u64
  cl_ftab :: ftab
  cl_fchid :: ftab
  cl_cltab :: classtab
  cl_port_idx :: nat
  cl_pending :: int
  cl_login :: int
  cl_account :: nat
  cl_ac_limit :: nat
  cl_acasc :: acasc_shm

record s_reader =
  rdr_id :: nat
  rdr_client :: "s_client option"
  rdr_fd :: int
  rdr_grp :: u64
  rdr_typ :: int
  rdr_caid :: u16
  rdr_ctab :: caidtab
  rdr_ftab :: ftab
  rdr_fchid :: ftab
  rdr_cltab :: classtab
  rdr_ecmWhitelist :: ecm_whitelist
  rdr_ncd_disable_server_filt :: bool
  rdr_prid :: "u8 list list"
  rdr_audisabled :: bool
  rdr_hexserial :: "u8 list"
  rdr_auprovid :: u32

end
