(* ===== verification/Chk.thy ===== *)
theory Chk
  imports Globals Simples
begin

text \<open>
  The admission filters of \<open>oscam-chk.c\<close>: which requests a client may send and which readers may
  answer them. \<open>cur_client ()\<close> is the argument \<open>cur\<close>; a function that writes \<open>er->rcEx\<close> returns the
  request. \<open>None\<close> is a read outside the ECM buffer or a shift of a 64-bit mask by 64 or more. Debug
  output and the text in \<open>msglog\<close> are left out.
\<close>

section \<open>ECM nanos and classes\<close>

function find_nano_loop :: "u8 list \<Rightarrow> nat \<Rightarrow> u8 \<Rightarrow> nat \<Rightarrow> nat option" where
  "find_nano_loop ecm l nano s =
     (if s < length ecm then
        (if ecm ! s \<noteq> nano \<and> s < l
         then (if ecm ! s = 0xEA then Some 0 else find_nano_loop ecm l nano (s + 1))
         else Some (if s < l then s + 1 else 0))
      else None)"
  by pat_completeness auto
termination by (relation "measure (\<lambda>(ecm, l, nano, s). l - s)") auto

declare find_nano_loop.simps [simp del]

definition find_nano :: "u8 list \<Rightarrow> nat \<Rightarrow> u8 \<Rightarrow> nat \<Rightarrow> nat option" where
  "find_nano ecm l nano s =
     (if l \<le> s then Some 0
      else if s = 0 then
        do { t \<leftarrow> fetch ecm 4; find_nano_loop ecm l nano (if t = 0xD2 then 12 else 9) }
      else find_nano_loop ecm l nano s)"

definition CS_NANO_CLASS :: u8 where "CS_NANO_CLASS = 0xE2"

lemma find_nano_loop_gt: "find_nano_loop ecm l nano s = Some k \<Longrightarrow> k \<noteq> 0 \<Longrightarrow> s < k \<and> k \<le> l"
proof (induction ecm l nano s rule: find_nano_loop.induct)
  case (1 ecm l nano s)
  then show ?case by (subst (asm) (2) find_nano_loop.simps) (auto split: if_splits)
qed

lemma find_nano_gt: "find_nano ecm l nano s = Some k \<Longrightarrow> k \<noteq> 0 \<Longrightarrow> s < k \<and> k \<le> l"
  by (auto simp: find_nano_def split: if_splits bind_splits dest: find_nano_loop_gt)

text \<open>The loop over the class nanos: \<open>j\<close> is the position, \<open>an\<close> and \<open>cl_n\<close> say whether an allowed
  class and any class were seen. \<open>Some False\<close> is a blocked class.\<close>

function chk_class_loop ::
  "u8 list \<Rightarrow> nat \<Rightarrow> classtab \<Rightarrow> nat \<Rightarrow> bool \<Rightarrow> bool \<Rightarrow> bool option" where
  "chk_class_loop ecm l ct j an cl_n =
     (case find_nano ecm l CS_NANO_CLASS j of
        None \<Rightarrow> None
      | Some 0 \<Rightarrow> Some (if cl_n \<and> aclass ct \<noteq> [] then an else True)
      | Some (Suc k) \<Rightarrow>
          (if Suc k < length ecm \<and> Suc k + unat (ecm ! Suc k) < length ecm then
             (let n = unat (ecm ! Suc k); ecm_class = ecm ! (Suc k + n) in
              if ecm_class \<in> set (bclass ct) then Some False
              else chk_class_loop ecm l ct (Suc k + n) (an \<or> ecm_class \<in> set (aclass ct)) True)
           else None))"
  by pat_completeness auto
termination
proof (relation "measure (\<lambda>(ecm, l, ct, j, an, cl_n). l - j)", goal_cases)
  case (2 ecm l ct j an cl_n x k n ecm_class)
  then have "j < Suc k \<and> Suc k \<le> l" by (metis find_nano_gt old.nat.distinct(2))
  then show ?case by auto
qed simp

declare chk_class_loop.simps [simp del]

definition chk_class :: "'x ecm_request_scheme \<Rightarrow> classtab \<Rightarrow> bool option" where
  "chk_class er ct =
     (if er_caid er \<noteq> 0x0500 then Some True
      else if bclass ct = [] \<and> aclass ct = [] then Some True
      else chk_class_loop (er_ecm er) (nat (er_l er)) ct 0 False False)"

section \<open>Services\<close>

definition chk_srvid_match :: "'x ecm_request_scheme \<Rightarrow> sidtab \<Rightarrow> bool" where
  "chk_srvid_match er st \<longleftrightarrow>
     (st_caid st = [] \<or> er_caid er \<in> set (st_caid st)) \<and>
     (st_provid st = [] \<or> er_prid er \<in> set (st_provid st)) \<and>
     (st_srvid st = [] \<or> er_srvid er \<in> set (st_srvid st))"

definition chk_srvid_match_by_caid_prov :: "u16 \<Rightarrow> u32 \<Rightarrow> sidtab \<Rightarrow> bool" where
  "chk_srvid_match_by_caid_prov caid provid st \<longleftrightarrow>
     (st_caid st = [] \<or> caid \<in> set (st_caid st)) \<and>
     (st_provid st = [] \<or> provid \<in> set (st_provid st))"

text \<open>\<open>mask & ((SIDTABBITS) 1 << nr)\<close>.\<close>

definition sidbit :: "u64 \<Rightarrow> nat \<Rightarrow> bool option" where
  "sidbit bits nr = (if nr < 64 then Some (bit bits nr) else None)"

fun chk_srvid_loop :: "'y s_client_scheme \<Rightarrow> 'x ecm_request_scheme \<Rightarrow> sidtab list \<Rightarrow> nat \<Rightarrow> bool \<Rightarrow> bool option" where
  "chk_srvid_loop cl er [] nr rc = Some rc"
| "chk_srvid_loop cl er (st # sts) nr rc =
     (if st_caid st \<noteq> [] \<or> st_provid st \<noteq> [] \<or> st_srvid st \<noteq> [] then
        do { no \<leftarrow> sidbit (cl_sidtabno cl) nr;
             if no \<and> chk_srvid_match er st then Some False
             else do { yes \<leftarrow> sidbit (cl_sidtabok cl) nr;
                       chk_srvid_loop cl er sts (nr + 1) (rc \<or> yes \<and> chk_srvid_match er st) } }
      else chk_srvid_loop cl er sts (nr + 1) rc)"

definition chk_srvid :: "sidtab list \<Rightarrow> 'y s_client_scheme \<Rightarrow> 'x ecm_request_scheme \<Rightarrow> bool option" where
  "chk_srvid sids cl er =
     (if cl_sidtabok cl = 0
      then (if cl_sidtabno cl = 0 then Some True else chk_srvid_loop cl er sids 0 True)
      else chk_srvid_loop cl er sids 0 False)"

fun has_srvid_loop :: "'y s_client_scheme \<Rightarrow> 'x ecm_request_scheme \<Rightarrow> sidtab list \<Rightarrow> nat \<Rightarrow> bool option" where
  "has_srvid_loop cl er [] nr = Some False"
| "has_srvid_loop cl er (st # sts) nr =
     (if st_srvid st \<noteq> [] then
        do { yes \<leftarrow> sidbit (cl_sidtabok cl) nr;
             if yes \<and> chk_srvid_match er st then Some True else has_srvid_loop cl er sts (nr + 1) }
      else has_srvid_loop cl er sts (nr + 1))"

definition has_srvid :: "sidtab list \<Rightarrow> 'y s_client_scheme \<Rightarrow> 'x ecm_request_scheme \<Rightarrow> bool option" where
  "has_srvid sids cl er = (if cl_sidtabok cl = 0 then Some False else has_srvid_loop cl er sids 0)"

fun chk_srvid_cp_loop :: "'y s_client_scheme \<Rightarrow> u16 \<Rightarrow> u32 \<Rightarrow> sidtab list \<Rightarrow> nat \<Rightarrow> bool \<Rightarrow> bool option" where
  "chk_srvid_cp_loop cl caid provid [] nr rc = Some rc"
| "chk_srvid_cp_loop cl caid provid (st # sts) nr rc =
     (if st_caid st \<noteq> [] \<or> st_provid st \<noteq> [] then
        do { no \<leftarrow> sidbit (cl_sidtabno cl) nr;
             if no \<and> st_srvid st = [] \<and> chk_srvid_match_by_caid_prov caid provid st then Some False
             else do { yes \<leftarrow> sidbit (cl_sidtabok cl) nr;
                       chk_srvid_cp_loop cl caid provid sts (nr + 1)
                         (rc \<or> yes \<and> chk_srvid_match_by_caid_prov caid provid st) } }
      else chk_srvid_cp_loop cl caid provid sts (nr + 1) rc)"

definition chk_srvid_by_caid_prov :: "sidtab list \<Rightarrow> 'y s_client_scheme \<Rightarrow> u16 \<Rightarrow> u32 \<Rightarrow> bool option" where
  "chk_srvid_by_caid_prov sids cl caid provid =
     (if cl_sidtabok cl = 0
      then (if cl_sidtabno cl = 0 then Some True else chk_srvid_cp_loop cl caid provid sids 0 True)
      else chk_srvid_cp_loop cl caid provid sids 0 False)"

section \<open>Ident filters\<close>

definition set_rcEx :: "'x ecm_request_scheme \<Rightarrow> nat \<Rightarrow> nat \<Rightarrow> 'x ecm_request_scheme" where
  "set_rcEx er e1 e2 = (if er_rcEx er = 0 then er\<lparr>er_rcEx := rcex e1 e2\<rparr> else er)"

text \<open>\<open>ports\<close> are the filter tables of the module's ports, \<open>None\<close> a module without a port table. The
  outer \<open>None\<close> is a port index outside the table.\<close>

definition chk_sfilter ::
  "'x ecm_request_scheme \<Rightarrow> ftab list option \<Rightarrow> 'y s_client_scheme \<Rightarrow> (bool \<times> 'x ecm_request_scheme) option" where
  "chk_sfilter er ptab cur = (case ptab of
     None \<Rightarrow> Some (True, er)
   | Some [] \<Rightarrow> Some (True, er)
   | Some ports \<Rightarrow>
       do { ft \<leftarrow> fetch ports (cl_port_idx cur);
            if ft = [] then Some (True, er)
            else if \<exists>f \<in> set ft. (er_caid er = 0 \<or> er_caid er = f_caid f) \<and> er_prid er \<in> set (f_prids f)
            then Some (True, er)
            else Some (False, set_rcEx er E1_LSERVER E2_IDENT) })"

definition chk_chid :: "'x ecm_request_scheme \<Rightarrow> ftab \<Rightarrow> bool" where
  "chk_chid er fchid =
     (if er_caid er AND 0xFF00 \<noteq> 0x600 then True
      else if er_chid er = 0 then True
      else if fchid = [] then True
      else (\<exists>f \<in> set fchid. er_caid er = f_caid f \<and> ucast (er_chid er) \<in> set (f_prids f)))"

definition chk_ufilters :: "'x ecm_request_scheme \<Rightarrow> 'y s_client_scheme \<Rightarrow> (bool \<times> 'x ecm_request_scheme) option" where
  "chk_ufilters er cur =
     (if cl_ftab cur \<noteq> [] \<and>
         \<not> (\<exists>f \<in> set (cl_ftab cur). (er_caid er = 0 \<or> f_caid f = 0 \<or> er_caid er = f_caid f) \<and>
               er_prid er \<in> set (f_prids f))
      then Some (False, set_rcEx er E1_USER E2_IDENT)
      else do {
        ok \<leftarrow> chk_class er (cl_cltab cur);
        if \<not> ok then Some (False, set_rcEx er E1_USER E2_CLASS)
        else if \<not> chk_chid er (cl_fchid cur) then Some (False, set_rcEx er E1_USER E2_CHID)
        else Some (True, er\<lparr>er_rcEx := 0\<rparr>) })"

definition prid24 :: "u8 list \<Rightarrow> u32" where
  "prid24 p = push_bit 16 (ucast (p ! 1)) OR push_bit 8 (ucast (p ! 2)) OR ucast (p ! 3)"

definition chk_rsfilter :: "'z s_reader_scheme \<Rightarrow> 'x ecm_request_scheme \<Rightarrow> bool \<times> 'x ecm_request_scheme" where
  "chk_rsfilter rdr er =
     (if rdr_ncd_disable_server_filt rdr then (True, er)
      else if rdr_caid rdr = er_caid er \<and> (\<exists>p \<in> set (rdr_prid rdr). prid24 p = er_prid er)
      then (True, er)
      else (False, set_rcEx er E1_SERVER E2_IDENT))"

definition chk_rfilter :: "'x ecm_request_scheme \<Rightarrow> 'z s_reader_scheme \<Rightarrow> bool" where
  "chk_rfilter er rdr \<longleftrightarrow>
     rdr_ftab rdr = [] \<or>
     (\<exists>f \<in> set (rdr_ftab rdr). (f_caid f = 0 \<or> f_caid f = er_caid er) \<and> er_prid er \<in> set (f_prids f))"

fun chk_ctab_loop :: "u16 \<Rightarrow> caidtab \<Rightarrow> bool" where
  "chk_ctab_loop caid [] = False"
| "chk_ctab_loop caid ((c, m) # tab) =
     (if c = 0 then False else if caid AND m = c then True else chk_ctab_loop caid tab)"

definition chk_ctab :: "u16 \<Rightarrow> caidtab \<Rightarrow> bool" where
  "chk_ctab caid ctab =
     (if caid = 0 \<or> (case ctab of [] \<Rightarrow> True | (c, m) # _ \<Rightarrow> c = 0) then True
      else chk_ctab_loop caid ctab)"

section \<open>Readers\<close>

definition wl_idents :: "ecm_whitelist \<Rightarrow> 'x ecm_request_scheme \<Rightarrow> (u32 \<times> int list) list" where
  "wl_idents wl er =
     filter (\<lambda>(ident, lens). ident = 0 \<or> ident = er_prid er)
       (concat (map snd (filter (\<lambda>(caid, idents). caid = 0 \<or> caid = er_caid er) wl)))"

definition whitelist_ok :: "ecm_whitelist \<Rightarrow> 'x ecm_request_scheme \<Rightarrow> bool" where
  "whitelist_ok wl er =
     (wl_idents wl er = [] \<or> (\<exists>(ident, lens) \<in> set (wl_idents wl er). er_l er \<in> set lens))"

text \<open>\<open>avail\<close> is the reader's \<open>ph.c_available\<close> with \<open>AVAIL_CHECK_CONNECTED\<close>, absent for most types.\<close>

definition matching_reader ::
  "sidtab list \<Rightarrow> ('z s_reader_scheme \<Rightarrow> bool) option \<Rightarrow> 'y s_client_scheme \<Rightarrow> 'x ecm_request_scheme \<Rightarrow> 'z s_reader_scheme \<Rightarrow> bool option" where
  "matching_reader sids avail cur er rdr = (case rdr_client rdr of
     None \<Rightarrow> Some False
   | Some rcl \<Rightarrow>
       if \<not> (rdr_fd rdr \<noteq> 0 \<and> rdr_grp rdr AND cl_grp cur \<noteq> 0) then Some False
       else if (case avail of None \<Rightarrow> False | Some av \<Rightarrow> \<not> av rdr) then Some False
       else if \<not> chk_ctab (er_ocaid er) (rdr_ctab rdr) \<and> \<not> chk_ctab (er_caid er) (rdr_ctab rdr)
       then Some False
       else if rdr_typ rdr AND R_IS_NETWORK = 0 \<and>
               drop_bit 8 (rdr_caid rdr) \<noteq> drop_bit 8 (er_caid er) AND 0xFF \<and>
               drop_bit 8 (rdr_caid rdr) \<noteq> drop_bit 8 (er_ocaid er) AND 0xFF
       then Some False
       else do {
         sid \<leftarrow> chk_srvid sids rcl er;
         if \<not> sid then Some False
         else if \<not> chk_rfilter er rdr then Some False
         else do {
           cls \<leftarrow> chk_class er (rdr_cltab rdr);
           Some (cls \<and> chk_chid er (rdr_fchid rdr) \<and> whitelist_ok (rdr_ecmWhitelist rdr) er) } })"

definition R_CAMD35 :: int where "R_CAMD35 = 0x20"
definition R_CS378X :: int where "R_CS378X = 0x24"

definition emm_reader_match :: "'z s_reader_scheme \<Rightarrow> u16 \<Rightarrow> u32 \<Rightarrow> bool" where
  "emm_reader_match rdr caid provid =
     (if rdr_caid rdr \<noteq> caid \<or> rdr_audisabled rdr then False
      else if \<not> hexserialset (Some (rdr_hexserial rdr)) then False
      else if provid = 0 then True
      else if rdr_auprovid rdr \<noteq> 0 \<and> rdr_auprovid rdr = provid then True
      else if rdr_prid rdr = [] then True
      else (\<exists>p \<in> set (rdr_prid rdr).
              let prid = push_bit 24 (ucast (p ! 0)) OR prid24 p in
              prid = provid \<or>
              (rdr_typ rdr = R_CAMD35 \<or> rdr_typ rdr = R_CS378X) \<and> prid AND 0xFFFF = provid AND 0xFFFF))"

section \<open>Reference semantics\<close>

text \<open>The class bytes of an ECM in the order the code meets them.\<close>

function ecm_classes :: "u8 list \<Rightarrow> nat \<Rightarrow> nat \<Rightarrow> u8 list option" where
  "ecm_classes ecm l j =
     (case find_nano ecm l CS_NANO_CLASS j of
        None \<Rightarrow> None
      | Some 0 \<Rightarrow> Some []
      | Some (Suc k) \<Rightarrow>
          (if Suc k + unat (ecm ! Suc k) < length ecm then
             map_option ((#) (ecm ! (Suc k + unat (ecm ! Suc k))))
               (ecm_classes ecm l (Suc k + unat (ecm ! Suc k)))
           else None))"
  by pat_completeness auto
termination
proof (relation "measure (\<lambda>(ecm, l, j). l - j)", goal_cases)
  case (2 ecm l j x k)
  then have "j < Suc k \<and> Suc k \<le> l" by (metis find_nano_gt old.nat.distinct(2))
  then show ?case by auto
qed simp

declare ecm_classes.simps [simp del]

lemma chk_class_loop_spec:
  "ecm_classes ecm l j = Some cs \<Longrightarrow>
   chk_class_loop ecm l ct j an cl_n =
     Some (set cs \<inter> set (bclass ct) = {} \<and>
           (aclass ct = [] \<or> \<not> cl_n \<and> cs = [] \<or> an \<or> set cs \<inter> set (aclass ct) \<noteq> {}))"
proof (induction ecm l ct j an cl_n arbitrary: cs rule: chk_class_loop.induct)
  case (1 ecm l ct j an cl_n)
  show ?case
  proof (cases "find_nano ecm l CS_NANO_CLASS j")
    case None
    with "1.prems" show ?thesis by (simp add: ecm_classes.simps [of ecm l j])
  next
    case (Some v)
    show ?thesis
    proof (cases v)
      case 0
      with Some "1.prems" show ?thesis
        by (auto simp: ecm_classes.simps [of ecm l j] chk_class_loop.simps [of ecm l ct j])
    next
      case (Suc k)
      let ?p = "Suc k + unat (ecm ! Suc k)"
      from Some Suc "1.prems" obtain cs' where b: "?p < length ecm" and r: "ecm_classes ecm l ?p = Some cs'"
        and cs: "cs = ecm ! ?p # cs'"
        by (auto simp: ecm_classes.simps [of ecm l j] split: if_splits)
      have k: "Suc k < length ecm" using b by simp
      show ?thesis
      proof (cases "ecm ! ?p \<in> set (bclass ct)")
        case True
        with Some Suc b k cs show ?thesis by (auto simp: chk_class_loop.simps [of ecm l ct j] Let_def)
      next
        case False
        have "chk_class_loop ecm l ct ?p (an \<or> ecm ! ?p \<in> set (aclass ct)) True =
            Some (set cs' \<inter> set (bclass ct) = {} \<and>
              (aclass ct = [] \<or> (an \<or> ecm ! ?p \<in> set (aclass ct)) \<or> set cs' \<inter> set (aclass ct) \<noteq> {}))"
          using "1.IH" [OF Some Suc conjI [OF k b] refl refl False r] by simp
        with False Some Suc b k cs show ?thesis
          by (simp add: chk_class_loop.simps [of ecm l ct j] Let_def)
      qed
    qed
  qed
qed

lemma find_nano_loop_total:
  "l < length ecm \<Longrightarrow> s < length ecm \<Longrightarrow> \<exists>v. find_nano_loop ecm l nano s = Some v"
proof (induction ecm l nano s rule: find_nano_loop.induct)
  case (1 ecm l nano s)
  then show ?case by (subst find_nano_loop.simps) auto
qed

lemma find_nano_total:
  "l < length ecm \<Longrightarrow> 12 < length ecm \<Longrightarrow> \<exists>v. find_nano ecm l nano s = Some v"
  by (auto simp: find_nano_def intro!: find_nano_loop_total)

lemma ecm_classes_total:
  "length ecm = 512 \<Longrightarrow> l \<le> 256 \<Longrightarrow> ecm_classes ecm l j \<noteq> None"
proof (induction ecm l j rule: ecm_classes.induct)
  case (1 ecm l j)
  obtain v where v: "find_nano ecm l CS_NANO_CLASS j = Some v"
    using find_nano_total [of l ecm CS_NANO_CLASS j] "1.prems" by auto
  show ?case
  proof (cases v)
    case 0 with v show ?thesis by (simp add: ecm_classes.simps [of ecm l j])
  next
    case (Suc k)
    have "Suc k \<le> l" using find_nano_gt [OF v] Suc by simp
    moreover have "unat (ecm ! Suc k) < 256" using unsigned_less [of "ecm ! Suc k"] by simp
    ultimately have b: "Suc k + unat (ecm ! Suc k) < length ecm" using "1.prems" by simp
    from "1.IH" [OF v Suc b "1.prems"] v Suc b show ?thesis
      by (simp add: ecm_classes.simps [of ecm l j])
  qed
qed

lemma er_classes:
  "length (er_ecm er) = 512 \<Longrightarrow> er_l er \<le> 256 \<Longrightarrow>
     \<exists>cs. ecm_classes (er_ecm er) (nat (er_l er)) 0 = Some cs"
  using ecm_classes_total [of "er_ecm er" "nat (er_l er)" 0] by (simp add: nat_le_iff)

lemma chk_class_eq:
  assumes "ecm_classes (er_ecm er) (nat (er_l er)) 0 = Some cs" "er_caid er = 0x0500"
  shows "chk_class er ct = Some (set cs \<inter> set (bclass ct) = {} \<and>
           (aclass ct = [] \<or> cs = [] \<or> set cs \<inter> set (aclass ct) \<noteq> {}))"
  using chk_class_loop_spec [OF assms(1), of ct False False] assms(2) by (simp add: chk_class_def)

lemma chk_class_total:
  "length (er_ecm er) = 512 \<Longrightarrow> er_l er \<le> 256 \<Longrightarrow> \<exists>b. chk_class er ct = Some b"
proof (cases "er_caid er = 0x0500")
  case True
  assume "length (er_ecm er) = 512" "er_l er \<le> 256"
  then obtain cs where "ecm_classes (er_ecm er) (nat (er_l er)) 0 = Some cs"
    using er_classes by blast
  from chk_class_eq [OF this True] show ?thesis by blast
qed (auto simp: chk_class_def)

text \<open>\<open>hits bits nr sids P\<close>: some service of the list, numbered from \<open>nr\<close>, has its bit set and
  satisfies \<open>P\<close>.\<close>

definition hits :: "u64 \<Rightarrow> nat \<Rightarrow> sidtab list \<Rightarrow> (sidtab \<Rightarrow> bool) \<Rightarrow> bool" where
  "hits bits nr sids P \<longleftrightarrow> (\<exists>i < length sids. bit bits (nr + i) \<and> P (sids ! i))"

lemma hits_Nil [simp]: "\<not> hits bits nr [] P"
  by (simp add: hits_def)

lemma hits_Cons: "hits bits nr (st # sids) P \<longleftrightarrow> bit bits nr \<and> P st \<or> hits bits (Suc nr) sids P"
  unfolding hits_def by (auto simp: Ex_less_Suc2)

definition used_sid :: "'x ecm_request_scheme \<Rightarrow> sidtab \<Rightarrow> bool" where
  "used_sid er st \<longleftrightarrow> (st_caid st \<noteq> [] \<or> st_provid st \<noteq> [] \<or> st_srvid st \<noteq> []) \<and> chk_srvid_match er st"

lemma chk_srvid_loop_spec:
  "nr + length sids \<le> 64 \<Longrightarrow> chk_srvid_loop cl er sids nr rc =
     Some (\<not> hits (cl_sidtabno cl) nr sids (used_sid er) \<and>
           (rc \<or> hits (cl_sidtabok cl) nr sids (used_sid er)))"
  by (induction cl er sids nr rc rule: chk_srvid_loop.induct)
    (auto simp: hits_Cons used_sid_def sidbit_def)

lemma chk_srvid_eq:
  "length sids \<le> 64 \<Longrightarrow> chk_srvid sids cl er =
     Some (\<not> hits (cl_sidtabno cl) 0 sids (used_sid er) \<and>
           (cl_sidtabok cl = 0 \<or> hits (cl_sidtabok cl) 0 sids (used_sid er)))"
  using chk_srvid_loop_spec [of 0 sids cl er] by (auto simp: chk_srvid_def) (auto simp: hits_def)

lemma has_srvid_loop_spec:
  "nr + length sids \<le> 64 \<Longrightarrow> has_srvid_loop cl er sids nr =
     Some (hits (cl_sidtabok cl) nr sids (\<lambda>st. st_srvid st \<noteq> [] \<and> chk_srvid_match er st))"
  by (induction cl er sids nr rule: has_srvid_loop.induct) (auto simp: hits_Cons sidbit_def)

lemma has_srvid_eq:
  "length sids \<le> 64 \<Longrightarrow> has_srvid sids cl er =
     Some (hits (cl_sidtabok cl) 0 sids (\<lambda>st. st_srvid st \<noteq> [] \<and> chk_srvid_match er st))"
  using has_srvid_loop_spec [of 0 sids cl er] by (auto simp: has_srvid_def) (auto simp: hits_def)

lemma chk_srvid_cp_loop_spec:
  "nr + length sids \<le> 64 \<Longrightarrow> chk_srvid_cp_loop cl caid provid sids nr rc =
     Some (\<not> hits (cl_sidtabno cl) nr sids (\<lambda>st. (st_caid st \<noteq> [] \<or> st_provid st \<noteq> []) \<and>
               st_srvid st = [] \<and> chk_srvid_match_by_caid_prov caid provid st) \<and>
           (rc \<or> hits (cl_sidtabok cl) nr sids (\<lambda>st. (st_caid st \<noteq> [] \<or> st_provid st \<noteq> []) \<and>
               chk_srvid_match_by_caid_prov caid provid st)))"
  by (induction cl caid provid sids nr rc rule: chk_srvid_cp_loop.induct)
    (auto simp: hits_Cons sidbit_def)

lemma chk_srvid_by_caid_prov_eq:
  "length sids \<le> 64 \<Longrightarrow> chk_srvid_by_caid_prov sids cl caid provid =
     Some (\<not> hits (cl_sidtabno cl) 0 sids (\<lambda>st. (st_caid st \<noteq> [] \<or> st_provid st \<noteq> []) \<and>
               st_srvid st = [] \<and> chk_srvid_match_by_caid_prov caid provid st) \<and>
           (cl_sidtabok cl = 0 \<or> hits (cl_sidtabok cl) 0 sids (\<lambda>st. (st_caid st \<noteq> [] \<or> st_provid st \<noteq> []) \<and>
               chk_srvid_match_by_caid_prov caid provid st)))"
  using chk_srvid_cp_loop_spec [of 0 sids cl caid provid]
  by (auto simp: chk_srvid_by_caid_prov_def) (auto simp: hits_def)

lemma chk_ctab_loop_spec:
  "chk_ctab_loop caid tab \<longleftrightarrow> (\<exists>(c, m) \<in> set (takeWhile (\<lambda>(c, m). c \<noteq> 0) tab). caid AND m = c)"
  by (induction caid tab rule: chk_ctab_loop.induct) auto

lemma chk_ctab_spec:
  "chk_ctab caid tab \<longleftrightarrow> caid = 0 \<or> takeWhile (\<lambda>(c, m). c \<noteq> 0) tab = [] \<or>
     (\<exists>(c, m) \<in> set (takeWhile (\<lambda>(c, m). c \<noteq> 0) tab). caid AND m = c)"
  by (cases tab) (auto simp: chk_ctab_def chk_ctab_loop_spec)

lemma common_group: "(g :: u64) AND h \<noteq> 0 \<longleftrightarrow> (\<exists>k < 64. bit g k \<and> bit h k)"
  by (auto simp: bit_eq_iff bit_and_iff dest: bit_imp_le_length)

lemma chk_srvid_loop_overflow:
  assumes "\<forall>st \<in> set sids. st_caid st \<noteq> [] \<or> st_provid st \<noteq> [] \<or> st_srvid st \<noteq> []"
    and "64 < nr + length sids" "nr \<le> 64" "\<not> hits (cl_sidtabno cl) nr sids (used_sid er)"
  shows "chk_srvid_loop cl er sids nr rc = None"
  using assms
  by (induction cl er sids nr rc rule: chk_srvid_loop.induct)
    (auto simp: hits_Cons used_sid_def sidbit_def le_Suc_eq)

lemma set_rcEx_simps [simp]:
  "er_rcEx (set_rcEx er a b) = (if er_rcEx er = 0 then rcex a b else er_rcEx er)"
  "(set_rcEx er a b)\<lparr>er_rcEx := x\<rparr> = er\<lparr>er_rcEx := x\<rparr>"
  by (simp_all add: set_rcEx_def)

lemma matching_reader_eq:
  assumes "rdr_client rdr = Some rcl" "chk_srvid sids rcl er = Some sv" "chk_class er (rdr_cltab rdr) = Some b"
  shows "matching_reader sids avail cur er rdr = Some
    (rdr_fd rdr \<noteq> 0 \<and> rdr_grp rdr AND cl_grp cur \<noteq> 0 \<and>
     (case avail of None \<Rightarrow> True | Some av \<Rightarrow> av rdr) \<and>
     (chk_ctab (er_ocaid er) (rdr_ctab rdr) \<or> chk_ctab (er_caid er) (rdr_ctab rdr)) \<and>
     (rdr_typ rdr AND R_IS_NETWORK \<noteq> 0 \<or> drop_bit 8 (rdr_caid rdr) = drop_bit 8 (er_caid er) AND 0xFF \<or>
      drop_bit 8 (rdr_caid rdr) = drop_bit 8 (er_ocaid er) AND 0xFF) \<and>
     sv \<and> chk_rfilter er rdr \<and> b \<and> chk_chid er (rdr_fchid rdr) \<and> whitelist_ok (rdr_ecmWhitelist rdr) er)"
proof -
  define c1 where "c1 = (rdr_fd rdr \<noteq> 0)"
  define c2 where "c2 = (rdr_grp rdr AND cl_grp cur \<noteq> 0)"
  define c3 where "c3 = (chk_ctab (er_ocaid er) (rdr_ctab rdr))"
  define c4 where "c4 = (chk_ctab (er_caid er) (rdr_ctab rdr))"
  define c5 where "c5 = (rdr_typ rdr AND R_IS_NETWORK = 0)"
  define c6 where "c6 = (drop_bit 8 (rdr_caid rdr) = drop_bit 8 (er_caid er) AND 0xFF)"
  define c7 where "c7 = (drop_bit 8 (rdr_caid rdr) = drop_bit 8 (er_ocaid er) AND 0xFF)"
  show ?thesis
    unfolding matching_reader_def assms c1_def [symmetric] c2_def [symmetric] c3_def [symmetric]
      c4_def [symmetric] c5_def [symmetric] c6_def [symmetric] c7_def [symmetric]
    by (cases avail) (simp_all add: assms, blast+)
qed

section \<open>Properties\<close>

text \<open>For a 512-byte ECM of length at most 256 \<open>chk_class\<close> stays inside the buffer and decides
  the class filter: no class nano of the ECM is blocked, and when an allow list is given and the ECM
  has class nanos at all, one of them is on the list.\<close>

theorem chk_class_decides:
  assumes "er_caid er = 0x0500" "length (er_ecm er) = 512" "er_l er \<le> 256"
  shows "\<exists>cs. ecm_classes (er_ecm er) (nat (er_l er)) 0 = Some cs \<and>
    chk_class er ct = Some (set cs \<inter> set (bclass ct) = {} \<and>
      (aclass ct = [] \<or> cs = [] \<or> set cs \<inter> set (aclass ct) \<noteq> {}))"
  using er_classes [OF assms(2,3)] chk_class_eq [OF _ assms(1)] by blast

definition ecm_ex :: ecm_request where
  "ecm_ex = \<lparr>er_ecm = [0x81, 0x70, 0x20, 0, 0, 0, 0, 0, 0, 0xE2, 0x03, 0, 0, 0x21, 0xEA] @ replicate 497 0,
     er_cw = replicate 16 0, er_ecmd5 = replicate 16 0, er_l = 35, er_caid = 0x0500, er_ocaid = 0,
     er_srvid = 7, er_chid = 0, er_prid = 0x020810, er_rc = 0, er_rcEx = 0\<rparr>"

theorem chk_class_decides_witness:
  "chk_class ecm_ex \<lparr>aclass = [0x21], bclass = [0x22]\<rparr> = Some True \<and>
   chk_class ecm_ex \<lparr>aclass = [], bclass = [0x21]\<rparr> = Some False"
proof -
  have c: "ecm_classes (er_ecm ecm_ex) (nat (er_l ecm_ex)) 0 = Some [0x21]" by code_simp
  have e: "er_caid ecm_ex = 0x0500" "length (er_ecm ecm_ex) = 512" "er_l ecm_ex \<le> 256"
    by (simp_all add: ecm_ex_def)
  show ?thesis
    using chk_class_decides [OF e, of "\<lparr>aclass = [0x21], bclass = [0x22]\<rparr>"]
      chk_class_decides [OF e, of "\<lparr>aclass = [], bclass = [0x21]\<rparr>"] c by simp
qed

text \<open>An ECM of length 258, the longest that the newcamd server accepts, can make the check read
  past the 512-byte buffer.\<close>

lemma chk_class_overrun:
  "chk_class (ecm_ex\<lparr>er_ecm := replicate 257 0 @ [0xE2, 0xFF] @ replicate 253 0, er_l := 258\<rparr>)
     \<lparr>aclass = [0x21], bclass = []\<rparr> = None"
  by code_simp

text \<open>With at most 64 services the service check of a request is defined and independent of their
  order: a denied service that matches always rejects, otherwise the request passes when the account
  has no list of granted services or one of them matches. From the 65th service on, the shift of the
  64-bit masks is undefined.\<close>

theorem chk_srvid_decides:
  "(length sids \<le> 64 \<longrightarrow> chk_srvid sids cl er =
      Some (\<not> hits (cl_sidtabno cl) 0 sids (used_sid er) \<and>
            (cl_sidtabok cl = 0 \<or> hits (cl_sidtabok cl) 0 sids (used_sid er)))) \<and>
   (64 < length sids \<and> (\<forall>st \<in> set sids. st_caid st \<noteq> [] \<or> st_provid st \<noteq> [] \<or> st_srvid st \<noteq> []) \<and>
      (cl_sidtabok cl \<noteq> 0 \<or> cl_sidtabno cl \<noteq> 0) \<and> \<not> hits (cl_sidtabno cl) 0 sids (used_sid er) \<longrightarrow>
    chk_srvid sids cl er = None)"
proof (intro conjI impI)
  assume "length sids \<le> 64"
  then show "chk_srvid sids cl er = Some (\<not> hits (cl_sidtabno cl) 0 sids (used_sid er) \<and>
      (cl_sidtabok cl = 0 \<or> hits (cl_sidtabok cl) 0 sids (used_sid er)))" by (rule chk_srvid_eq)
next
  assume "64 < length sids \<and> (\<forall>st \<in> set sids. st_caid st \<noteq> [] \<or> st_provid st \<noteq> [] \<or> st_srvid st \<noteq> []) \<and>
      (cl_sidtabok cl \<noteq> 0 \<or> cl_sidtabno cl \<noteq> 0) \<and> \<not> hits (cl_sidtabno cl) 0 sids (used_sid er)"
  then show "chk_srvid sids cl er = None"
    using chk_srvid_loop_overflow [of sids 0 cl er] by (auto simp: chk_srvid_def)
qed

definition sid_ex :: sidtab where "sid_ex = \<lparr>st_caid = [0x0500], st_provid = [], st_srvid = []\<rparr>"

definition client_ex :: s_client where
  "client_ex = \<lparr>cl_typ = CHR ''c'', cl_grp = 1, cl_sidtabok = 1, cl_sidtabno = 0, cl_ftab = [], cl_fchid = [],
     cl_cltab = \<lparr>aclass = [], bclass = []\<rparr>, cl_port_idx = 0, cl_pending = 0, cl_login = 0, cl_account = 0,
     cl_ac_limit = 0, cl_acasc = \<lparr>ac_count = 0, ac_deny = False\<rparr>\<rparr>"

theorem chk_srvid_decides_witness:
  "chk_srvid [sid_ex] client_ex ecm_ex = Some True \<and> chk_srvid (replicate 65 sid_ex) client_ex ecm_ex = None"
  using chk_srvid_decides [of "[sid_ex]" client_ex ecm_ex] chk_srvid_decides [of "replicate 65 sid_ex" client_ex ecm_ex]
  by (simp add: hits_def client_ex_def sid_ex_def ecm_ex_def used_sid_def chk_srvid_match_def)

text \<open>The user filter changes nothing of the request but its extended return code: a request that
  passes leaves with code 0; one that is rejected keeps an earlier code or gets the code of the first
  of the ident, class and chid filters that rejects it.\<close>

theorem chk_ufilters_code:
  assumes "chk_ufilters er cur = Some (ok, er')"
  shows "er'\<lparr>er_rcEx := er_rcEx er\<rparr> = er \<and>
    (ok \<longrightarrow> er_rcEx er' = 0 \<and> chk_class er (cl_cltab cur) = Some True \<and> chk_chid er (cl_fchid cur) \<and>
       (cl_ftab cur = [] \<or> (\<exists>f \<in> set (cl_ftab cur). er_prid er \<in> set (f_prids f)))) \<and>
    (\<not> ok \<longrightarrow> er_rcEx er' \<noteq> 0 \<and>
       (er_rcEx er' = er_rcEx er \<or>
        er_rcEx er' = 0x13 \<or>
        er_rcEx er' = 0x14 \<and> chk_class er (cl_cltab cur) = Some False \<or>
        er_rcEx er' = 0x15 \<and> chk_class er (cl_cltab cur) = Some True \<and> \<not> chk_chid er (cl_fchid cur)))"
  using assms
  by (auto simp: chk_ufilters_def set_rcEx_def e_defs split: if_splits bind_splits)

theorem chk_ufilters_code_witness:
  "\<exists>er'. chk_ufilters ecm_ex (client_ex\<lparr>cl_cltab := \<lparr>aclass = [], bclass = [0x21]\<rparr>\<rparr>) = Some (False, er') \<and>
     er_rcEx er' \<in> {0, 0x13, 0x14, 0x15}"
proof -
  have "chk_ufilters ecm_ex (client_ex\<lparr>cl_cltab := \<lparr>aclass = [], bclass = [0x21]\<rparr>\<rparr>) =
      Some (False, ecm_ex\<lparr>er_rcEx := 0x14\<rparr>)" by code_simp
  from this chk_ufilters_code [OF this] show ?thesis by (auto simp: ecm_ex_def)
qed


definition reader_ex :: s_reader where
  "reader_ex = \<lparr>rdr_id = 1, rdr_client = Some client_ex, rdr_fd = 3, rdr_grp = 3, rdr_typ = 0x21, rdr_caid = 0x0500,
     rdr_ctab = [], rdr_ftab = [\<lparr>f_caid = 0x0500, f_prids = [0x020810]\<rparr>], rdr_fchid = [],
     rdr_cltab = \<lparr>aclass = [0x21], bclass = []\<rparr>, rdr_ecmWhitelist = [(0, [(0, [35])])],
     rdr_ncd_disable_server_filt = False, rdr_prid = [[0, 2, 8, 0x10]], rdr_audisabled = False,
     rdr_hexserial = [0, 0, 1, 2, 3, 4, 0, 0], rdr_auprovid = 0\<rparr>"


end
