(* ===== verification/Stat.thy ===== *)
theory Stat
  imports Simples Chk
begin

text \<open>
  The statistics of the load balancer (\<open>module-stat.c\<close>, first half): per reader a list of entries
  keyed by CAID, provider, service and ECM length. \<open>lb_stat\<close> is the linked list in the abstract form
  that \<open>LList\<close> justifies: the entries in order, each with the flag that \<open>ll_iter_move_first\<close> raises
  and that protects it from a later removal. A pointer to an entry is its index, a pointer to a reader
  its index in \<open>configured_readers\<close>. Debug output is left out.
\<close>

section \<open>State\<close>

record reader_stat =
  st_rc :: int
  rs_caid :: u16
  rs_prid :: u32
  rs_srvid :: u16
  ecmlen :: int
  last_received :: int
  ecm_count :: int
  time_avg :: int
  time_stat :: "int list"
  time_idx :: nat
  fail_factor :: int

type_synonym stat_list = "(reader_stat \<times> bool) list"

record lb_reader = s_reader +
  lb_stat :: "stat_list option"
  lb_weight :: int
  lb_usagelevel :: int
  lb_usagelevel_ecmcount :: int
  lb_usagelevel_time :: int
  lb_last :: timeb
  rdr_fallback :: bool
  rdr_dropbadcws :: bool

text \<open>A node of a reader list: its address and the reader.\<close>

type_synonym rnode = "nat \<times> nat"

record lb_request = ecm_request +
  matching_rdr :: "rnode list"
  fallback :: "nat option"
  er_client_alive :: bool
  origin_reader :: "nat option"
  btun :: bool
  selected_reader :: "nat option"
  cpti :: nat
  reader_avail :: int
  reader_count :: int
  ecmcacheptr :: "nat option"
  tps :: timeb
  stage :: nat
  locals_done :: bool
  level :: nat

record lb_config =
  lb_mode :: int
  lb_save :: int
  lb_nbest_readers :: int
  lb_nfb_readers :: int
  lb_min_ecmcount :: int
  lb_max_ecmcount :: int
  lb_reopen_seconds :: int
  lb_retrylimit :: int
  lb_retrylimittab :: caidvaluetab
  lb_nbest_readers_tab :: caidvaluetab
  lb_noproviderforcaid :: caidtab
  lb_stat_cleanup :: int
  lb_reopen_mode :: bool
  lb_max_readers :: int
  lb_auto_betatunnel :: bool
  ctimeout :: u32
  ftimeout :: u32
  preferlocalcards :: bool
  cc_forward_origin_card :: bool
  sidtabs :: "sidtab list"

datatype lb_job = Housekeeping | Save_Stat

record lb_world =
  readers :: "lb_reader list"
  active :: "nat list"
  nulltime :: timeb
  now :: int
  stat_load_save :: int
  last_housekeeping :: int
  jobs :: "lb_job list"

definition LB_MAX_STAT_TIME :: nat where "LB_MAX_STAT_TIME = 10"
definition UNDEF_AVG_TIME :: int where "UNDEF_AVG_TIME = 80000"

definition init_stat :: "timeb \<Rightarrow> lb_config \<Rightarrow> lb_world \<Rightarrow> lb_config \<times> lb_world" where
  "init_stat t cfg w =
     (cfg\<lparr>lb_nbest_readers := if lb_nbest_readers cfg < 2 then 1 else lb_nbest_readers cfg,
          lb_nfb_readers := if lb_nfb_readers cfg < 2 then 1 else lb_nfb_readers cfg,
          lb_min_ecmcount := if lb_min_ecmcount cfg < 2 then 5 else lb_min_ecmcount cfg,
          lb_max_ecmcount := if lb_max_ecmcount cfg < 3 then 500 else lb_max_ecmcount cfg,
          lb_reopen_seconds := if lb_reopen_seconds cfg < 10 then 900 else lb_reopen_seconds cfg,
          lb_retrylimit := if lb_retrylimit cfg \<le> 0 then 800 else lb_retrylimit cfg,
          lb_stat_cleanup := if lb_stat_cleanup cfg \<le> 0 then 336 else lb_stat_cleanup cfg\<rparr>,
      w\<lparr>nulltime := t, stat_load_save := -100\<rparr>)"

section \<open>Looking up\<close>

fun get_prid_loop :: "u16 \<Rightarrow> u32 \<Rightarrow> caidtab \<Rightarrow> u32" where
  "get_prid_loop caid prid [] = prid"
| "get_prid_loop caid prid ((tcaid, m) # tab) =
     (if tcaid = 0 then prid
      else if tcaid = caid then 0
      else if tcaid < 0x0100 \<and> drop_bit 8 caid = tcaid then 0
      else get_prid_loop caid prid tab)"

definition get_prid :: "lb_config \<Rightarrow> u16 \<Rightarrow> u32 \<Rightarrow> u32" where
  "get_prid cfg caid prid = get_prid_loop caid prid (lb_noproviderforcaid cfg)"

definition same_key :: "u16 \<Rightarrow> u32 \<Rightarrow> u16 \<Rightarrow> reader_stat \<Rightarrow> bool" where
  "same_key caid prid srvid s \<longleftrightarrow> rs_caid s = caid \<and> rs_prid s = prid \<and> rs_srvid s = srvid"

text \<open>The loop of \<open>get_stat\<close>: the list with the adopted length and the index of the entry found.\<close>

fun find_stat :: "u16 \<Rightarrow> u32 \<Rightarrow> u16 \<Rightarrow> int \<Rightarrow> stat_list \<Rightarrow> (stat_list \<times> nat) option" where
  "find_stat caid prid srvid len [] = None"
| "find_stat caid prid srvid len ((s, fl) # l) =
     (if same_key caid prid srvid s \<and> ecmlen s = len then Some ((s, fl) # l, 0)
      else if same_key caid prid srvid s \<and> ecmlen s = 0 then Some ((s\<lparr>ecmlen := len\<rparr>, fl) # l, 0)
      else map_option (\<lambda>(l', k). ((s, fl) # l', Suc k)) (find_stat caid prid srvid len l))"

text \<open>\<open>ll_iter_move_first\<close> on the entry at index \<open>k\<close>: nothing happens when its flag is up already.\<close>

definition move_first :: "stat_list \<Rightarrow> nat \<Rightarrow> stat_list \<times> nat" where
  "move_first l k =
     (if snd (l ! k) then (l, k) else ((fst (l ! k), True) # take k l @ drop (Suc k) l, 0))"

definition get_stat ::
  "lb_config \<Rightarrow> lb_reader \<Rightarrow> u16 \<Rightarrow> u32 \<Rightarrow> u16 \<Rightarrow> int \<Rightarrow> lb_reader \<times> nat option" where
  "get_stat cfg rdr caid prid srvid len =
     (let l = (case lb_stat rdr of None \<Rightarrow> [] | Some l \<Rightarrow> l) in
      case find_stat caid (get_prid cfg caid prid) srvid len l of
        None \<Rightarrow> (rdr\<lparr>lb_stat := Some l\<rparr>, None)
      | Some (l', k) \<Rightarrow>
          if 10 < k + 1 then (let (l'', k') = move_first l' k in (rdr\<lparr>lb_stat := Some l''\<rparr>, Some k'))
          else (rdr\<lparr>lb_stat := Some l'\<rparr>, Some k))"

text \<open>\<open>ll_iter_remove_data\<close> inside a loop over the list takes an entry out unless its flag is up.\<close>

definition sweep :: "(reader_stat \<Rightarrow> bool) \<Rightarrow> stat_list \<Rightarrow> stat_list" where
  "sweep P l = filter (\<lambda>(s, fl). \<not> P s \<or> fl) l"

definition remove_stat :: "lb_reader \<Rightarrow> u16 \<Rightarrow> u32 \<Rightarrow> u16 \<Rightarrow> int \<Rightarrow> lb_reader \<times> nat" where
  "remove_stat rdr caid prid srvid len = (case lb_stat rdr of
     None \<Rightarrow> (rdr, 0)
   | Some l \<Rightarrow>
       (let P = (\<lambda>s. same_key caid prid srvid s \<and> (ecmlen s = 0 \<or> ecmlen s = len)) in
        (rdr\<lparr>lb_stat := Some (sweep P l)\<rparr>, length (filter (\<lambda>(s, fl). P s) l))))"

section \<open>Updating\<close>

definition calc_stat :: "reader_stat \<Rightarrow> reader_stat" where
  "calc_stat s =
     (let ts = filter (\<lambda>t. 0 < t) (take LB_MAX_STAT_TIME (time_stat s)) in
      s\<lparr>time_avg := if ts = [] then UNDEF_AVG_TIME else cdiv (s32 (sum_list ts)) (int (length ts))\<rparr>)"

definition inc_fail :: "reader_stat \<Rightarrow> reader_stat" where
  "inc_fail s = s\<lparr>fail_factor := if fail_factor s \<le> 0 then 1 else s32 (fail_factor s * 2)\<rparr>"

text \<open>Write through a pointer to an entry.\<close>

definition upd_stat :: "nat \<Rightarrow> (reader_stat \<Rightarrow> reader_stat) \<Rightarrow> lb_reader \<Rightarrow> lb_reader option" where
  "upd_stat k f rdr = do {
     l \<leftarrow> lb_stat rdr;
     (s, fl) \<leftarrow> fetch l k;
     Some (rdr\<lparr>lb_stat := Some (l[k := (f s, fl)])\<rparr>) }"

definition stat_at :: "lb_reader \<Rightarrow> nat \<Rightarrow> reader_stat option" where
  "stat_at rdr k = do { l \<leftarrow> lb_stat rdr; (s, fl) \<leftarrow> fetch l k; Some s }"

definition new_stat :: "u16 \<Rightarrow> u32 \<Rightarrow> u16 \<Rightarrow> int \<Rightarrow> reader_stat" where
  "new_stat caid prid srvid len =
     \<lparr>st_rc = 0, rs_caid = caid, rs_prid = prid, rs_srvid = srvid, ecmlen = len, last_received = 0,
      ecm_count = 0, time_avg = UNDEF_AVG_TIME, time_stat = replicate LB_MAX_STAT_TIME 0, time_idx = 0,
      fail_factor = 0\<rparr>"

text \<open>\<open>mem\<close> is the answer of \<open>cs_malloc\<close>: with none the code goes on with a null pointer.\<close>

definition get_add_stat ::
  "lb_config \<Rightarrow> bool \<Rightarrow> lb_reader \<Rightarrow> 'a ecm_request_scheme \<Rightarrow> u32 \<Rightarrow> (lb_reader \<times> nat) option" where
  "get_add_stat cfg mem rdr er prid =
     (case get_stat cfg rdr (er_caid er) prid (er_srvid er) (er_l er) of
        (rdr', Some k) \<Rightarrow>
          do { r \<leftarrow> upd_stat k (\<lambda>s. if ecm_count s < 0 then s\<lparr>ecm_count := 0\<rparr> else s) rdr'; Some (r, k) }
      | (rdr', None) \<Rightarrow>
          if mem then do {
            l \<leftarrow> lb_stat rdr';
            Some (rdr'\<lparr>lb_stat :=
                    Some (l @ [(new_stat (er_caid er) prid (er_srvid er) (er_l er), False)])\<rparr>, length l) }
          else None)"

definition add_time :: "int \<Rightarrow> reader_stat \<Rightarrow> reader_stat option" where
  "add_time ecm_time s =
     (let i = (if LB_MAX_STAT_TIME \<le> time_idx s + 1 then 0 else time_idx s + 1) in
      do { ts \<leftarrow> store (time_stat s) i ecm_time;
           Some (calc_stat (s\<lparr>time_idx := i, time_stat := ts\<rparr>)) })"

text \<open>Is the answering reader at or behind the fallback node of the request's list?\<close>

fun behind_fallback :: "rnode list \<Rightarrow> nat option \<Rightarrow> bool \<Rightarrow> nat \<Rightarrow> bool" where
  "behind_fallback [] fb is_fb rdr = False"
| "behind_fallback ((node, r) # ns) fb is_fb rdr =
     (let is_fb' = (is_fb \<or> fb = Some node) in
      if r = rdr then is_fb' else behind_fallback ns fb is_fb' rdr)"

definition usage_update :: "lb_config \<Rightarrow> int \<Rightarrow> lb_reader \<Rightarrow> lb_reader option" where
  "usage_update cfg ctime rdr =
     (let ule = lb_usagelevel_ecmcount rdr in
      if 0 < ule \<and> lb_min_ecmcount cfg = 0 then None
      else if 0 < ule \<and> 0 < cdiv ule (lb_min_ecmcount cfg)
      then (let t = ctime - lb_usagelevel_time rdr in
            Some (rdr\<lparr>lb_usagelevel := cdiv 1000 (if t < 1 then 1 else t),
                      lb_usagelevel_time := ctime, lb_usagelevel_ecmcount := 1\<rparr>))
      else if ule = 0 then Some (rdr\<lparr>lb_usagelevel_time := ctime, lb_usagelevel_ecmcount := 1\<rparr>)
      else Some (rdr\<lparr>lb_usagelevel_ecmcount := s32 (ule + 1)\<rparr>))"

definition add_found ::
  "lb_config \<Rightarrow> bool \<Rightarrow> int \<Rightarrow> nat \<Rightarrow> lb_reader \<Rightarrow> lb_request \<Rightarrow> u32 \<Rightarrow> int \<Rightarrow> lb_reader option" where
  "add_found cfg mem ctime rid rdr er prid ecm_time = do {
     (r, k) \<leftarrow> get_add_stat cfg mem rdr er prid;
     s \<leftarrow> stat_at r k;
     s' \<leftarrow> add_time
            (if er_client_alive er \<and> behind_fallback (matching_rdr er) (fallback er) False rid \<and>
                ftimeout cfg \<le> word_of_int ecm_time
             then s32 (ecm_time - uint (ftimeout cfg)) else ecm_time)
            (s\<lparr>st_rc := 0, ecm_count := s32 (ecm_count s + 1), last_received := ctime, fail_factor := 0\<rparr>);
     r' \<leftarrow> upd_stat k (\<lambda>_. s') r;
     usage_update cfg ctime r' }"

definition touch_stat ::
  "lb_config \<Rightarrow> int \<Rightarrow> lb_reader \<Rightarrow> 'a ecm_request_scheme \<Rightarrow> u32 \<Rightarrow> lb_reader option" where
  "touch_stat cfg ctime rdr er prid =
     (case get_stat cfg rdr (er_caid er) prid (er_srvid er) (er_l er) of
        (r, None) \<Rightarrow> Some r
      | (r, Some k) \<Rightarrow> upd_stat k (\<lambda>s. s\<lparr>last_received := ctime\<rparr>) r)"

definition add_notfound ::
  "lb_config \<Rightarrow> bool \<Rightarrow> int \<Rightarrow> lb_reader \<Rightarrow> 'a ecm_request_scheme \<Rightarrow> u32 \<Rightarrow> int \<Rightarrow> lb_reader option" where
  "add_notfound cfg mem ctime rdr er prid ecm_time = do {
     (r, k) \<leftarrow> get_add_stat cfg mem rdr er prid;
     upd_stat k (\<lambda>s.
       let s1 = (if st_rc s = 4 then s\<lparr>time_avg := s32 (time_avg s + max ecm_time 100)\<rparr> else s);
           s2 = inc_fail (s1\<lparr>st_rc := 4\<rparr>) in
       s2\<lparr>last_received := ctime,
          ecm_count := if lb_reopen_mode cfg then ecm_count s2 else cdiv (ecm_count s2) 10\<rparr>) r }"

definition add_timeout ::
  "lb_config \<Rightarrow> bool \<Rightarrow> int \<Rightarrow> s_client \<Rightarrow> lb_reader \<Rightarrow> 'a ecm_request_scheme \<Rightarrow> u32 \<Rightarrow> int \<Rightarrow> lb_reader option"
  where
  "add_timeout cfg mem ctime cl rdr er prid ecm_time = do {
     (r, k) \<leftarrow> get_add_stat cfg mem rdr er prid;
     s \<leftarrow> stat_at r k;
     let s1 = (if s32 (ctime - last_received s) < sint (5 * ctimeout cfg) \<and> st_rc s = 0 \<and> ecm_count s = 0
               then s\<lparr>st_rc := 5\<rparr>
               else if cl_login cl + sint ((2 * ctimeout cfg) div 1000) < ctime \<and> cl_pending cl < 5 \<and>
                       st_rc s = 0 \<and> ecm_count s = 0
               then inc_fail (s\<lparr>st_rc := 5\<rparr>) else s);
     s2 \<leftarrow> add_time (if ecm_time \<le> 0 \<or> sint (ctimeout cfg) < ecm_time then sint (ctimeout cfg) else ecm_time)
                   (s1\<lparr>last_received := ctime\<rparr>);
     upd_stat k (\<lambda>_. s2) r }"

definition housekeeping_stat :: "bool \<Rightarrow> lb_world \<Rightarrow> lb_world" where
  "housekeeping_stat force w =
     (if \<not> force \<and> cdiv (cdiv (now w) 60) 60 = cdiv (cdiv (last_housekeeping w) 60) 60 then w
      else w\<lparr>last_housekeeping := now w, jobs := jobs w @ [Housekeeping]\<rparr>)"

definition save_stat_count :: "lb_config \<Rightarrow> lb_world \<Rightarrow> lb_world" where
  "save_stat_count cfg w =
     (if lb_save cfg = 0 then w
      else if lb_save cfg < stat_load_save w + 1 then w\<lparr>stat_load_save := 0, jobs := jobs w @ [Save_Stat]\<rparr>
      else w\<lparr>stat_load_save := stat_load_save w + 1\<rparr>)"

definition put_reader :: "nat \<Rightarrow> lb_reader \<Rightarrow> lb_world \<Rightarrow> lb_world" where
  "put_reader i r w = w\<lparr>readers := (readers w)[i := r]\<rparr>"

text \<open>The return code after the mapping of a late "not found" to a timeout.\<close>

definition late_rc :: "lb_config \<Rightarrow> int \<Rightarrow> int \<Rightarrow> int" where
  "late_rc cfg ecm_time rc = (if rc = 4 \<and> ctimeout cfg \<le> word_of_int ecm_time then 5 else rc)"

definition add_stat ::
  "lb_config \<Rightarrow> bool \<Rightarrow> lb_world \<Rightarrow> lb_request \<Rightarrow> nat \<Rightarrow> int \<Rightarrow> int \<Rightarrow> lb_world option" where
  "add_stat cfg mem w er rid ecm_time rc0 =
     (if lb_mode cfg = 0 then Some w
      else do {
        rdr \<leftarrow> fetch (readers w) rid;
        (case rdr_client rdr of
           None \<Rightarrow> Some w
         | Some cl \<Rightarrow>
             (let prid = get_prid cfg (er_caid er) (er_prid er); rc = late_rc cfg ecm_time rc0;
                  book = (\<lambda>r. save_stat_count cfg (housekeeping_stat False (put_reader rid r w))) in
              if rc = 0 then map_option book (add_found cfg mem (now w) rid rdr er prid ecm_time)
              else if rc = 1 \<or> rc = 2 then
                map_option (\<lambda>r. put_reader rid r w) (touch_stat cfg (now w) rdr er prid)
              else if rc = 4 then
                (if er_rcEx er \<in> {E2_CCCAM_NOK1, E2_CCCAM_NOK2, E2_CCCAM_LOOP, E2_WRONG_CHKSUM}
                 then map_option (\<lambda>r. put_reader rid r w) (touch_stat cfg (now w) rdr er prid)
                 else map_option book (add_notfound cfg mem (now w) rdr er prid ecm_time))
              else if rc = 5 then
                map_option book (add_timeout cfg mem (now w) cl rdr er prid ecm_time)
              else Some w)) })"

fun reset_loop :: "lb_config \<Rightarrow> u16 \<Rightarrow> u32 \<Rightarrow> u16 \<Rightarrow> int \<Rightarrow> nat list \<Rightarrow> lb_world \<Rightarrow> lb_world option" where
  "reset_loop cfg caid prid srvid len [] w = Some w"
| "reset_loop cfg caid prid srvid len (i # is) w = do {
     rdr \<leftarrow> fetch (readers w) i;
     r \<leftarrow> (if lb_stat rdr \<noteq> None \<and> rdr_client rdr \<noteq> None then
            (case get_stat cfg rdr caid prid srvid len of
               (r, None) \<Rightarrow> Some r
             | (r, Some k) \<Rightarrow>
                 upd_stat k (\<lambda>s. s\<lparr>ecm_count := if 0 < ecm_count s then 1 else ecm_count s,
                                   st_rc := 0, fail_factor := 0\<rparr>) r)
          else Some rdr);
     reset_loop cfg caid prid srvid len is (put_reader i r w) }"

definition reset_stat :: "lb_config \<Rightarrow> u16 \<Rightarrow> u32 \<Rightarrow> u16 \<Rightarrow> int \<Rightarrow> lb_world \<Rightarrow> lb_world option" where
  "reset_stat cfg caid prid srvid len w = reset_loop cfg caid prid srvid len (active w) w"

definition has_ident :: "ftab \<Rightarrow> 'a ecm_request_scheme \<Rightarrow> bool" where
  "has_ident ft er \<longleftrightarrow>
     (\<exists>f \<in> set ft. f_caid f \<noteq> 0 \<and> f_caid f = er_caid er \<and>
        (f_prids f = [] \<or> er_prid er \<in> set (f_prids f)))"

section \<open>Configuration look-ups\<close>

fun value_for :: "u16 \<Rightarrow> caidvaluetab \<Rightarrow> int \<Rightarrow> int" where
  "value_for caid [] d = d"
| "value_for caid ((c, v) # tab) d = (if c = caid then uint v else value_for caid tab d)"

definition get_retrylimit :: "lb_config \<Rightarrow> 'a ecm_request_scheme \<Rightarrow> int" where
  "get_retrylimit cfg er = value_for (er_caid er) (lb_retrylimittab cfg) (lb_retrylimit cfg)"

definition get_nbest_readers :: "lb_config \<Rightarrow> 'a ecm_request_scheme \<Rightarrow> int" where
  "get_nbest_readers cfg er = value_for (er_caid er) (lb_nbest_readers_tab cfg) (lb_nbest_readers cfg)"

text \<open>The seconds to wait and the entry with its capped factor; a wait of zero seconds in the
  configuration is a division by zero.\<close>

definition get_reopen_seconds :: "lb_config \<Rightarrow> reader_stat \<Rightarrow> (int \<times> reader_stat) option" where
  "get_reopen_seconds cfg s =
     (if lb_reopen_seconds cfg = 0 then None
      else (let m = cdiv (2 ^ 31 - 1) (lb_reopen_seconds cfg);
                s' = (if m < fail_factor s then s\<lparr>fail_factor := m\<rparr> else s) in
            Some (if fail_factor s' = 0 then lb_reopen_seconds cfg
                  else s32 (fail_factor s' * lb_reopen_seconds cfg), s')))"

definition get_betatunnel_caid_to :: "u16 \<Rightarrow> u16" where
  "get_betatunnel_caid_to caid =
     (if caid = 0x1801 then 0x1722 else if caid = 0x1833 then 0x1702 else if caid = 0x1834 then 0x1722
      else if caid = 0x1835 then 0x1722 else 0)"

section \<open>Cleaning and sorting\<close>

definition clear_reader_stat :: "lb_reader \<Rightarrow> lb_reader" where
  "clear_reader_stat rdr = rdr\<lparr>lb_stat := map_option (\<lambda>_. []) (lb_stat rdr)\<rparr>"

definition clear_all_stat :: "lb_world \<Rightarrow> lb_world" where
  "clear_all_stat w = w\<lparr>readers := map clear_reader_stat (readers w)\<rparr>"

definition housekeeping_stat_thread :: "lb_config \<Rightarrow> lb_world \<Rightarrow> lb_world" where
  "housekeeping_stat_thread cfg w =
     (let cleanup_time = now w - lb_stat_cleanup cfg * 60 * 60 in
      w\<lparr>readers := map (\<lambda>r. r\<lparr>lb_stat := map_option (sweep (\<lambda>s. last_received s < cleanup_time)) (lb_stat r)\<rparr>)
          (readers w)\<rparr>)"

definition first_nonzero :: "int list \<Rightarrow> int" where
  "first_nonzero ds = (case dropWhile (\<lambda>d. d = 0) ds of [] \<Rightarrow> 0 | d # _ \<Rightarrow> d)"

definition compare_stat :: "reader_stat \<Rightarrow> reader_stat \<Rightarrow> int" where
  "compare_stat s1 s2 = first_nonzero
     [s32 (st_rc s1 - st_rc s2), uint (rs_caid s1) - uint (rs_caid s2), s32 (uint (rs_prid s1) - uint (rs_prid s2)),
      uint (rs_srvid s1) - uint (rs_srvid s2), ecmlen s1 - ecmlen s2, s32 (last_received s1 - last_received s2)]"

definition compare_stat_r :: "reader_stat \<Rightarrow> reader_stat \<Rightarrow> int" where
  "compare_stat_r s1 s2 = s32 (- compare_stat s1 s2)"

text \<open>\<open>qsort\<close> orders the entries; the flags belong to the nodes and keep their places.\<close>

definition sort_stat ::
  "((reader_stat \<Rightarrow> reader_stat \<Rightarrow> int) \<Rightarrow> reader_stat list \<Rightarrow> reader_stat list) \<Rightarrow> lb_reader \<Rightarrow> bool \<Rightarrow> lb_reader" where
  "sort_stat qsort rdr reverse =
     rdr\<lparr>lb_stat := map_option (\<lambda>l. zip (qsort (if reverse then compare_stat_r else compare_stat) (map fst l)) (map snd l))
        (lb_stat rdr)\<rparr>"

section \<open>Pointers to entries\<close>

lemma find_stat_length: "find_stat c p s n l = Some (l', k) \<Longrightarrow> k < length l' \<and> length l' = length l"
  by (induction c p s n l arbitrary: l' k rule: find_stat.induct) (auto split: if_splits)

lemma get_stat_valid:
  assumes "get_stat cfg r c p s n = (r', Some k)"
  obtains l where "lb_stat r' = Some l" "k < length l"
proof -
  define l0 where "l0 = (case lb_stat r of None \<Rightarrow> [] | Some l \<Rightarrow> l)"
  from assms obtain l' j where f: "find_stat c (get_prid cfg c p) s n l0 = Some (l', j)"
    and r: "(if 10 < j + 1 then (r\<lparr>lb_stat := Some (fst (move_first l' j))\<rparr>, Some (snd (move_first l' j)))
        else (r\<lparr>lb_stat := Some l'\<rparr>, Some j)) = (r', Some k)"
    by (auto simp: get_stat_def l0_def [symmetric] split: option.splits prod.splits if_splits)
  have j: "j < length l'" using find_stat_length [OF f] by simp
  have m: "snd (move_first l' j) < length (fst (move_first l' j))" using j by (simp add: move_first_def)
  show thesis
    using r m j that by (auto split: if_splits)
qed

lemma get_stat_at:
  assumes "get_stat cfg r c p s n = (r', Some k)"
  shows "\<exists>s. stat_at r' k = Some s" and "\<exists>r''. upd_stat k f r' = Some r''"
proof -
  obtain l where l: "lb_stat r' = Some l" "k < length l" by (rule get_stat_valid [OF assms])
  obtain x fl where "l ! k = (x, fl)" by (cases "l ! k")
  with l show "\<exists>s. stat_at r' k = Some s" "\<exists>r''. upd_stat k f r' = Some r''"
    by (simp_all add: stat_at_def upd_stat_def)
qed

section \<open>The keys stay distinct\<close>

definition stat_key :: "reader_stat \<Rightarrow> u16 \<times> u32 \<times> u16 \<times> int" where
  "stat_key s = (rs_caid s, rs_prid s, rs_srvid s, ecmlen s)"

lemma stat_key_upd [simp]:
  "stat_key (s\<lparr>st_rc := a\<rparr>) = stat_key s" "stat_key (s\<lparr>ecm_count := b\<rparr>) = stat_key s"
  "stat_key (s\<lparr>last_received := b\<rparr>) = stat_key s" "stat_key (s\<lparr>fail_factor := b\<rparr>) = stat_key s"
  "stat_key (s\<lparr>time_avg := b\<rparr>) = stat_key s" "stat_key (s\<lparr>time_stat := ts\<rparr>) = stat_key s"
  "stat_key (s\<lparr>time_idx := i\<rparr>) = stat_key s"
  by (simp_all add: stat_key_def)

definition keys :: "stat_list \<Rightarrow> (u16 \<times> u32 \<times> u16 \<times> int) list" where
  "keys l = map stat_key (map fst l)"

definition list_ok :: "stat_list \<Rightarrow> bool" where
  "list_ok l \<longleftrightarrow> distinct (keys l) \<and> (\<forall>s \<in> set (map fst l). ecmlen s \<noteq> 0 \<and> length (time_stat s) = LB_MAX_STAT_TIME)"

definition stats_ok :: "lb_reader \<Rightarrow> bool" where
  "stats_ok r \<longleftrightarrow> (case lb_stat r of None \<Rightarrow> True | Some l \<Rightarrow> list_ok l)"

lemma stats_ok_Some [simp]: "lb_stat r = Some l \<Longrightarrow> stats_ok r = list_ok l"
  by (simp add: stats_ok_def)

lemma stats_ok_None [simp]: "lb_stat r = None \<Longrightarrow> stats_ok r"
  by (simp add: stats_ok_def)

lemma list_ok_Nil [simp]: "list_ok []"
  by (simp add: list_ok_def keys_def)

lemma find_stat_ok:
  "\<forall>s \<in> set (map fst l). ecmlen s \<noteq> 0 \<Longrightarrow> find_stat c p n len l = Some (l', k) \<Longrightarrow>
     l' = l \<and> k < length l \<and> stat_key (fst (l ! k)) = (c, p, n, len)"
proof (induction c p n len l arbitrary: l' k rule: find_stat.induct)
  case (2 c p n len s fl l)
  then show ?case by (fastforce simp: same_key_def stat_key_def split: if_splits)
qed simp

lemma find_stat_None: "find_stat c p n len l = None \<Longrightarrow> (c, p, n, len) \<notin> set (keys l)"
  by (induction c p n len l rule: find_stat.induct)
    (auto simp: keys_def same_key_def stat_key_def split: if_splits)

lemma move_first_perm: "k < length l \<Longrightarrow> map fst (fst (move_first l k)) = 
    (if snd (l ! k) then map fst l else fst (l ! k) # map fst (take k l) @ map fst (drop (Suc k) l))"
  by (simp add: move_first_def)

lemma move_first_mset: "k < length l \<Longrightarrow> mset (map fst (fst (move_first l k))) = mset (map fst l)"
proof -
  assume k: "k < length l"
  have "mset (map fst l) = mset (map fst (take k l @ l ! k # drop (Suc k) l))" using k by (simp add: id_take_nth_drop [symmetric])
  then show ?thesis using k by (simp add: move_first_perm)
qed

lemma list_ok_mset: "mset (map fst l) = mset (map fst l') \<Longrightarrow> list_ok l = list_ok l'"
proof -
  assume m: "mset (map fst l) = mset (map fst l')"
  have "mset (keys l) = mset (keys l')" unfolding keys_def mset_map [of stat_key] m ..
  then have "distinct (keys l) = distinct (keys l')" by (rule mset_eq_imp_distinct_iff)
  moreover have "set (map fst l) = set (map fst l')" using m by (rule mset_eq_setD)
  ultimately show ?thesis unfolding list_ok_def by simp
qed

lemma list_ok_update:
  assumes "list_ok l" "k < length l" "stat_key s' = stat_key (fst (l ! k))"
    "length (time_stat s') = LB_MAX_STAT_TIME"
  shows "list_ok (l[k := (s', fl)])"
proof -
  have e: "ecmlen s' = ecmlen (fst (l ! k))" using assms(3) by (simp add: stat_key_def)
  have "ecmlen (fst (l ! k)) \<noteq> 0" using assms(1,2) by (simp add: list_ok_def)
  then have "\<forall>s \<in> set ((map fst l)[k := s']). ecmlen s \<noteq> 0 \<and> length (time_stat s) = LB_MAX_STAT_TIME"
    using assms(1,4) e by (intro set_update_ok) (auto simp: list_ok_def)
  moreover have "keys (l[k := (s', fl)]) = keys l"
    using assms(2,3) by (simp add: keys_def map_update list_update_same_conv)
  ultimately show ?thesis using assms(1) by (simp add: list_ok_def map_update)
qed

lemma list_ok_filter: "list_ok l \<Longrightarrow> list_ok (filter P l)"
  by (auto simp: list_ok_def keys_def distinct_map inj_on_def)

lemma get_stat_ok:
  assumes "stats_ok r" "get_stat cfg r c p n len = (r', ko)"
  obtains l where "lb_stat r' = Some l" "list_ok l"
    "case ko of None \<Rightarrow> (c, get_prid cfg c p, n, len) \<notin> set (keys l)
     | Some k \<Rightarrow> k < length l \<and> stat_key (fst (l ! k)) = (c, get_prid cfg c p, n, len)"
proof -
  define l0 where "l0 = (case lb_stat r of None \<Rightarrow> [] | Some l \<Rightarrow> l)"
  have l0: "list_ok l0" using assms(1) by (cases "lb_stat r") (simp_all add: l0_def)
  show thesis
  proof (cases "find_stat c (get_prid cfg c p) n len l0")
    case None
    then have "r' = r\<lparr>lb_stat := Some l0\<rparr>" "ko = None"
      using assms(2) by (simp_all add: get_stat_def l0_def Let_def)
    then show thesis using that l0 find_stat_None [OF None] by simp
  next
    case (Some x)
    obtain l' k where x: "x = (l', k)" by (cases x)
    have f: "l' = l0" "k < length l0" "stat_key (fst (l0 ! k)) = (c, get_prid cfg c p, n, len)"
      using find_stat_ok [OF _ Some [unfolded x]] l0 by (auto simp: list_ok_def)
    show thesis
    proof (cases "10 < k + 1")
      case True
      obtain l'' k' where m: "move_first l0 k = (l'', k')" by (cases "move_first l0 k")
      have r': "r' = r\<lparr>lb_stat := Some l''\<rparr>" "ko = Some k'"
        using assms(2) Some x f(1) True m by (simp_all add: get_stat_def l0_def [symmetric] Let_def)
      have "list_ok l''" using list_ok_mset [OF move_first_mset [OF f(2)]] l0 m by simp
      moreover have "k' < length l'' \<and> fst (l'' ! k') = fst (l0 ! k)"
        using m f(2) by (auto simp: move_first_def split: if_splits)
      ultimately show thesis using that r' f(3) by simp
    next
      case False
      then have "r' = r\<lparr>lb_stat := Some l0\<rparr>" "ko = Some k"
        using assms(2) Some x f(1) by (simp_all add: get_stat_def l0_def [symmetric] Let_def)
      then show thesis using that l0 f by simp
    qed
  qed
qed

lemma upd_stat_ok:
  assumes "lb_stat r = Some l" "list_ok l" "k < length l"
    "stat_key (f (fst (l ! k))) = stat_key (fst (l ! k))"
    "length (time_stat (f (fst (l ! k)))) = length (time_stat (fst (l ! k)))"
  obtains fl where "upd_stat k f r = Some (r\<lparr>lb_stat := Some (l[k := (f (fst (l ! k)), fl)])\<rparr>)"
    "list_ok (l[k := (f (fst (l ! k)), fl)])"
proof -
  obtain s fl where s: "l ! k = (s, fl)" by (cases "l ! k")
  have "s \<in> set (map fst l)" using s assms(3) by (metis fst_conv image_eqI list.set_map nth_mem)
  with assms(2,4,5) s have "stat_key (f s) = stat_key s" "length (time_stat (f s)) = LB_MAX_STAT_TIME"
    by (auto simp: list_ok_def)
  then have "list_ok (l[k := (f s, fl)])" using list_ok_update [OF assms(2,3)] s by simp
  with that assms(1,3) s show thesis by (simp add: upd_stat_def)
qed

lemma get_prid_loop_idem: "get_prid_loop c (get_prid_loop c p tab) tab = get_prid_loop c p tab"
  by (induction c p tab rule: get_prid_loop.induct) auto

lemma get_prid_idem [simp]: "get_prid cfg c (get_prid cfg c p) = get_prid cfg c p"
  by (simp add: get_prid_def get_prid_loop_idem)

lemma calc_stat_simps [simp]:
  "stat_key (calc_stat s) = stat_key s" "time_stat (calc_stat s) = time_stat s"
  "st_rc (calc_stat s) = st_rc s" "ecm_count (calc_stat s) = ecm_count s"
  "last_received (calc_stat s) = last_received s" "fail_factor (calc_stat s) = fail_factor s"
  by (simp_all add: calc_stat_def stat_key_def Let_def)

lemma inc_fail_simps [simp]:
  "stat_key (inc_fail s) = stat_key s" "time_stat (inc_fail s) = time_stat s" "st_rc (inc_fail s) = st_rc s"
  "ecm_count (inc_fail s) = ecm_count s" "time_idx (inc_fail s) = time_idx s"
  by (simp_all add: inc_fail_def stat_key_def)

lemma add_time_ok:
  "length (time_stat s) = LB_MAX_STAT_TIME \<Longrightarrow>
   \<exists>s'. add_time t s = Some s' \<and> stat_key s' = stat_key s \<and> length (time_stat s') = LB_MAX_STAT_TIME \<and>
     st_rc s' = st_rc s \<and> ecm_count s' = ecm_count s \<and> last_received s' = last_received s \<and>
     fail_factor s' = fail_factor s"
  by (simp add: add_time_def Let_def LB_MAX_STAT_TIME_def)

lemma get_add_stat_ok:
  assumes "stats_ok r" "er_l er \<noteq> 0" "p = get_prid cfg (er_caid er) p0"
  obtains r' k l where "get_add_stat cfg True r er p = Some (r', k)" "lb_stat r' = Some l" "list_ok l" "k < length l"
    "stat_key (fst (l ! k)) = (er_caid er, p, er_srvid er, er_l er)" "0 \<le> ecm_count (fst (l ! k))"
proof -
  obtain r1 ko where g: "get_stat cfg r (er_caid er) p (er_srvid er) (er_l er) = (r1, ko)"
    by (cases "get_stat cfg r (er_caid er) p (er_srvid er) (er_l er)")
  have p: "get_prid cfg (er_caid er) p = p" using assms(3) by simp
  obtain l where l: "lb_stat r1 = Some l" "list_ok l"
    "case ko of None \<Rightarrow> (er_caid er, p, er_srvid er, er_l er) \<notin> set (keys l)
     | Some k \<Rightarrow> k < length l \<and> stat_key (fst (l ! k)) = (er_caid er, p, er_srvid er, er_l er)"
    by (rule get_stat_ok [OF assms(1) g]) (simp only: p)
  show thesis
  proof (cases ko)
    case None
    let ?n = "new_stat (er_caid er) p (er_srvid er) (er_l er)"
    have "stat_key ?n = (er_caid er, p, er_srvid er, er_l er)" "time_stat ?n = replicate LB_MAX_STAT_TIME 0"
      "ecmlen ?n = er_l er" "ecm_count ?n = 0"
      by (simp_all add: stat_key_def new_stat_def)
    moreover from this have "list_ok (l @ [(?n, False)])"
      using l None assms(2) by (auto simp: list_ok_def keys_def)
    ultimately show thesis
      using that [of "r1\<lparr>lb_stat := Some (l @ [(?n, False)])\<rparr>" "length l" "l @ [(?n, False)]"] g None l(1)
      by (simp add: get_add_stat_def)
  next
    case (Some k)
    let ?f = "\<lambda>s. if ecm_count s < 0 then s\<lparr>ecm_count := 0\<rparr> else s"
    have k: "k < length l" "stat_key (fst (l ! k)) = (er_caid er, p, er_srvid er, er_l er)" using l(3) Some by auto
    obtain fl where u: "upd_stat k ?f r1 = Some (r1\<lparr>lb_stat := Some (l[k := (?f (fst (l ! k)), fl)])\<rparr>)"
      "list_ok (l[k := (?f (fst (l ! k)), fl)])"
      by (rule upd_stat_ok [OF l(1,2) k(1), of ?f]) (simp_all add: stat_key_def)
    have "stat_key (?f (fst (l ! k))) = stat_key (fst (l ! k))" by (simp add: stat_key_def)
    then show thesis
      using that [of "r1\<lparr>lb_stat := Some (l[k := (?f (fst (l ! k)), fl)])\<rparr>" k "l[k := (?f (fst (l ! k)), fl)]"]
        g Some u k by (simp add: get_add_stat_def)
  qed
qed

lemma stat_at_nth: "lb_stat r = Some l \<Longrightarrow> k < length l \<Longrightarrow> stat_at r k = Some (fst (l ! k))"
  by (cases "l ! k") (simp add: stat_at_def)

lemma usage_update_ok:
  "lb_min_ecmcount cfg \<noteq> 0 \<Longrightarrow> \<exists>r'. usage_update cfg t r = Some r' \<and> lb_stat r' = lb_stat r"
  by (simp add: usage_update_def Let_def)

text \<open>\<open>entry_is r k Q\<close>: the reader's list has exactly one entry with key \<open>k\<close>, and it satisfies \<open>Q\<close>.\<close>

definition entry_is :: "lb_reader \<Rightarrow> u16 \<times> u32 \<times> u16 \<times> int \<Rightarrow> (reader_stat \<Rightarrow> bool) \<Rightarrow> bool" where
  "entry_is r key Q \<longleftrightarrow> (\<exists>l s fl. lb_stat r = Some l \<and> list_ok l \<and> (s, fl) \<in> set l \<and> stat_key s = key \<and> Q s)"

lemma entry_isI:
  "lb_stat r = Some l \<Longrightarrow> list_ok l \<Longrightarrow> k < length l \<Longrightarrow> stat_key (fst (l ! k)) = key \<Longrightarrow> Q (fst (l ! k)) \<Longrightarrow>
     entry_is r key Q"
  unfolding entry_is_def by (metis nth_mem prod.collapse)

lemma entry_is_ok: "entry_is r key Q \<Longrightarrow> stats_ok r"
  by (auto simp: entry_is_def)

lemma add_found_ok:
  assumes "stats_ok r" "er_l er \<noteq> 0" "p = get_prid cfg (er_caid er) p0" "lb_min_ecmcount cfg \<noteq> 0"
  shows "\<exists>r'. add_found cfg True ct rid r er p t = Some r' \<and>
    entry_is r' (er_caid er, p, er_srvid er, er_l er)
      (\<lambda>s. st_rc s = 0 \<and> fail_factor s = 0 \<and> last_received s = ct)"
proof -
  obtain r1 k l where g: "get_add_stat cfg True r er p = Some (r1, k)" "lb_stat r1 = Some l" "list_ok l" "k < length l"
    "stat_key (fst (l ! k)) = (er_caid er, p, er_srvid er, er_l er)" "0 \<le> ecm_count (fst (l ! k))"
    by (rule get_add_stat_ok [where er = er and cfg = cfg and r = r, OF assms(1-3)])
  let ?s0 = "fst (l ! k)"
  let ?s = "?s0\<lparr>st_rc := 0, ecm_count := s32 (ecm_count ?s0 + 1), last_received := ct, fail_factor := 0\<rparr>"
  have ts: "length (time_stat ?s0) = LB_MAX_STAT_TIME" using g(3,4) by (simp add: list_ok_def)
  define t' where "t' = (if er_client_alive er \<and> behind_fallback (matching_rdr er) (fallback er) False rid \<and>
      ftimeout cfg \<le> word_of_int t then s32 (t - uint (ftimeout cfg)) else t)"
  obtain s' where s': "add_time t' ?s = Some s'" "stat_key s' = stat_key ?s" "length (time_stat s') = LB_MAX_STAT_TIME"
    "st_rc s' = 0" "last_received s' = ct" "fail_factor s' = 0"
    using add_time_ok [of ?s t'] ts by auto
  have key: "stat_key s' = stat_key ?s0" using s'(2) by simp
  obtain fl where u: "upd_stat k (\<lambda>_. s') r1 = Some (r1\<lparr>lb_stat := Some (l[k := (s', fl)])\<rparr>)" "list_ok (l[k := (s', fl)])"
    by (rule upd_stat_ok [OF g(2-4), of "\<lambda>_. s'"]) (use key s'(3) ts in simp_all)
  obtain r2 where r2: "usage_update cfg ct (r1\<lparr>lb_stat := Some (l[k := (s', fl)])\<rparr>) = Some r2"
    "lb_stat r2 = Some (l[k := (s', fl)])" using usage_update_ok [OF assms(4)] by fastforce
  have "add_found cfg True ct rid r er p t = Some r2"
    using g(1) stat_at_nth [OF g(2,4)] s'(1) u(1) r2(1) unfolding add_found_def t'_def [symmetric] by simp
  moreover have "entry_is r2 (er_caid er, p, er_srvid er, er_l er)
      (\<lambda>s. st_rc s = 0 \<and> fail_factor s = 0 \<and> last_received s = ct)"
    by (rule entry_isI [OF r2(2) u(2), of k]) (use g(4,5) key s'(4-6) in simp_all)
  ultimately show ?thesis by blast
qed

lemma add_notfound_ok:
  assumes "stats_ok r" "er_l er \<noteq> 0" "p = get_prid cfg (er_caid er) p0"
  shows "\<exists>r'. add_notfound cfg True ct r er p t = Some r' \<and>
    entry_is r' (er_caid er, p, er_srvid er, er_l er)
      (\<lambda>s. st_rc s = 4 \<and> last_received s = ct)"
proof -
  obtain r1 k l where g: "get_add_stat cfg True r er p = Some (r1, k)" "lb_stat r1 = Some l" "list_ok l" "k < length l"
    "stat_key (fst (l ! k)) = (er_caid er, p, er_srvid er, er_l er)" "0 \<le> ecm_count (fst (l ! k))"
    by (rule get_add_stat_ok [where er = er and cfg = cfg and r = r, OF assms(1-3)])
  define f where "f = (\<lambda>s. let s1 = (if st_rc s = 4 then s\<lparr>time_avg := s32 (time_avg s + max t 100)\<rparr> else s);
       s2 = inc_fail (s1\<lparr>st_rc := 4\<rparr>) in
       s2\<lparr>last_received := ct, ecm_count := if lb_reopen_mode cfg then ecm_count s2 else cdiv (ecm_count s2) 10\<rparr>)"
  have f: "stat_key (f s) = stat_key s" "time_stat (f s) = time_stat s" "st_rc (f s) = 4" "last_received (f s) = ct" for s
    by (simp_all add: f_def Let_def)
  obtain fl where u: "upd_stat k f r1 = Some (r1\<lparr>lb_stat := Some (l[k := (f (fst (l ! k)), fl)])\<rparr>)"
    "list_ok (l[k := (f (fst (l ! k)), fl)])"
    by (rule upd_stat_ok [OF g(2-4), of f]) (use f in simp_all)
  have "add_notfound cfg True ct r er p t = Some (r1\<lparr>lb_stat := Some (l[k := (f (fst (l ! k)), fl)])\<rparr>)"
    using g(1) u(1) unfolding add_notfound_def f_def by simp
  moreover have "entry_is (r1\<lparr>lb_stat := Some (l[k := (f (fst (l ! k)), fl)])\<rparr>)
      (er_caid er, p, er_srvid er, er_l er) (\<lambda>s. st_rc s = 4 \<and> last_received s = ct)"
    by (rule entry_isI [OF _ u(2), of _ k]) (use g(4,5) f in simp_all)
  ultimately show ?thesis by blast
qed

lemma add_timeout_ok:
  assumes "stats_ok r" "er_l er \<noteq> 0" "p = get_prid cfg (er_caid er) p0"
  shows "\<exists>r'. add_timeout cfg True ct cl r er p t = Some r' \<and>
    entry_is r' (er_caid er, p, er_srvid er, er_l er) (\<lambda>s. last_received s = ct)"
proof -
  obtain r1 k l where g: "get_add_stat cfg True r er p = Some (r1, k)" "lb_stat r1 = Some l" "list_ok l" "k < length l"
    "stat_key (fst (l ! k)) = (er_caid er, p, er_srvid er, er_l er)" "0 \<le> ecm_count (fst (l ! k))"
    by (rule get_add_stat_ok [where er = er and cfg = cfg and r = r, OF assms(1-3)])
  let ?s0 = "fst (l ! k)"
  have ts: "length (time_stat ?s0) = LB_MAX_STAT_TIME" using g(3,4) by (simp add: list_ok_def)
  define s1 where "s1 = (if s32 (ct - last_received ?s0) < sint (5 * ctimeout cfg) \<and> st_rc ?s0 = 0 \<and> ecm_count ?s0 = 0
               then ?s0\<lparr>st_rc := 5\<rparr>
               else if cl_login cl + sint ((2 * ctimeout cfg) div 1000) < ct \<and> cl_pending cl < 5 \<and>
                       st_rc ?s0 = 0 \<and> ecm_count ?s0 = 0
               then inc_fail (?s0\<lparr>st_rc := 5\<rparr>) else ?s0)"
  have s1: "stat_key s1 = stat_key ?s0" "length (time_stat s1) = LB_MAX_STAT_TIME" using ts by (simp_all add: s1_def)
  define t' where "t' = (if t \<le> 0 \<or> sint (ctimeout cfg) < t then sint (ctimeout cfg) else t)"
  obtain s' where s': "add_time t' (s1\<lparr>last_received := ct\<rparr>) = Some s'" "stat_key s' = stat_key s1"
    "length (time_stat s') = LB_MAX_STAT_TIME" "last_received s' = ct"
    using add_time_ok [of "s1\<lparr>last_received := ct\<rparr>" t'] s1(2) by auto
  obtain fl where u: "upd_stat k (\<lambda>_. s') r1 = Some (r1\<lparr>lb_stat := Some (l[k := (s', fl)])\<rparr>)" "list_ok (l[k := (s', fl)])"
    by (rule upd_stat_ok [OF g(2-4), of "\<lambda>_. s'"]) (use s1(1) s'(2,3) ts in simp_all)
  have "add_timeout cfg True ct cl r er p t = Some (r1\<lparr>lb_stat := Some (l[k := (s', fl)])\<rparr>)"
    using g(1) stat_at_nth [OF g(2,4)] s'(1) u(1)
    unfolding add_timeout_def Let_def t'_def [symmetric] by (simp add: s1_def [symmetric])
  moreover have "entry_is (r1\<lparr>lb_stat := Some (l[k := (s', fl)])\<rparr>)
      (er_caid er, p, er_srvid er, er_l er) (\<lambda>s. last_received s = ct)"
    by (rule entry_isI [OF _ u(2), of _ k]) (use g(4,5) s1(1) s'(2,4) in simp_all)
  ultimately show ?thesis by blast
qed

lemma touch_stat_ok:
  assumes "stats_ok r"
  shows "\<exists>r'. touch_stat cfg ct r er p = Some r' \<and> stats_ok r'"
proof -
  obtain r1 ko where g: "get_stat cfg r (er_caid er) p (er_srvid er) (er_l er) = (r1, ko)"
    by (cases "get_stat cfg r (er_caid er) p (er_srvid er) (er_l er)")
  obtain l where l: "lb_stat r1 = Some l" "list_ok l"
    "case ko of None \<Rightarrow> (er_caid er, get_prid cfg (er_caid er) p, er_srvid er, er_l er) \<notin> set (keys l)
     | Some k \<Rightarrow> k < length l \<and> stat_key (fst (l ! k)) = (er_caid er, get_prid cfg (er_caid er) p, er_srvid er, er_l er)"
    by (rule get_stat_ok [OF assms g])
  show ?thesis
  proof (cases ko)
    case None then show ?thesis using g l by (simp add: touch_stat_def)
  next
    case (Some k)
    then have k: "k < length l" using l(3) by simp
    obtain fl where "upd_stat k (\<lambda>s. s\<lparr>last_received := ct\<rparr>) r1 =
        Some (r1\<lparr>lb_stat := Some (l[k := ((fst (l ! k))\<lparr>last_received := ct\<rparr>, fl)])\<rparr>)"
      "list_ok (l[k := ((fst (l ! k))\<lparr>last_received := ct\<rparr>, fl)])"
      by (rule upd_stat_ok [OF l(1,2) k, of "\<lambda>s. s\<lparr>last_received := ct\<rparr>"]) simp_all
    then show ?thesis using g Some by (simp add: touch_stat_def)
  qed
qed

section \<open>Order of the entries\<close>

definition rank_list :: "reader_stat \<Rightarrow> int list" where
  "rank_list s = [st_rc s, uint (rs_caid s), uint (rs_prid s), uint (rs_srvid s), ecmlen s, last_received s]"

fun lex_less :: "int list \<Rightarrow> int list \<Rightarrow> bool" where
  "lex_less (x # xs) (y # ys) = (x < y \<or> x = y \<and> lex_less xs ys)"
| "lex_less _ _ = False"

text \<open>The differences of the fields fit an \<open>int32_t\<close>.\<close>

definition narrow :: "reader_stat \<Rightarrow> reader_stat \<Rightarrow> bool" where
  "narrow a b \<longleftrightarrow> \<bar>st_rc a - st_rc b\<bar> < 2 ^ 31 \<and> \<bar>uint (rs_prid a) - uint (rs_prid b)\<bar> < 2 ^ 31 \<and>
     \<bar>last_received a - last_received b\<bar> < 2 ^ 31"

lemma first_nonzero_Cons [simp]: "first_nonzero (d # ds) = (if d = 0 then first_nonzero ds else d)"
  by (simp add: first_nonzero_def)

lemma first_nonzero_Nil [simp]: "first_nonzero [] = 0"
  by (simp add: first_nonzero_def)

lemma compare_stat_lex:
  "narrow a b \<Longrightarrow> (compare_stat a b < 0 \<longleftrightarrow> lex_less (rank_list a) (rank_list b)) \<and>
     (compare_stat a b = 0 \<longleftrightarrow> rank_list a = rank_list b)"
  by (simp add: narrow_def compare_stat_def rank_list_def s32_id abs_less_iff)

lemma inc_fail_pow: "fail_factor s = 0 \<Longrightarrow> n \<le> 30 \<Longrightarrow> fail_factor ((inc_fail ^^ Suc n) s) = 2 ^ n"
proof (induction n)
  case (Suc n)
  have "(2::int) ^ Suc n \<le> 2 ^ 30" using Suc.prems(2) by (intro power_increasing) auto
  moreover have "- (2 ^ 31) \<le> (2::int) ^ n * 2" by (rule order_trans [of _ 0]) simp_all
  ultimately have "s32 (2 ^ n * 2) = 2 ^ n * 2" by (intro s32_id) simp_all
  moreover have "fail_factor ((inc_fail ^^ Suc (Suc n)) s) = fail_factor (inc_fail ((inc_fail ^^ Suc n) s))" by simp
  ultimately show ?case using Suc by (simp add: inc_fail_def)
qed (simp add: inc_fail_def)

lemma sum_list_bounds:
  "\<forall>x \<in> set xs. lo \<le> x \<and> x \<le> hi \<Longrightarrow> int (length xs) * lo \<le> sum_list xs \<and> sum_list xs \<le> int (length xs) * hi"
  by (induction xs) (auto simp: algebra_simps)

section \<open>Properties\<close>

definition stat_er_ex :: lb_request where
  "stat_er_ex = ecm_request.extend ecm_ex
     (lb_request.fields [(1, 0)] None True None False None 0 0 0 None \<lparr>tb_time = 0, tb_millitm = 0\<rparr> 0 False 0)"

definition stat_rdr_ex :: lb_reader where
  "stat_rdr_ex = s_reader.extend reader_ex (lb_reader.fields None 100 0 0 0 \<lparr>tb_time = 0, tb_millitm = 0\<rparr> False False)"

definition stat_cfg_ex :: lb_config where
  "stat_cfg_ex = \<lparr>lb_mode = 1, lb_save = 0, lb_nbest_readers = 1, lb_nfb_readers = 2, lb_min_ecmcount = 5,
     lb_max_ecmcount = 500, lb_reopen_seconds = 900, lb_retrylimit = 800, lb_retrylimittab = [],
     lb_nbest_readers_tab = [], lb_noproviderforcaid = [], lb_stat_cleanup = 336, lb_reopen_mode = False,
     lb_max_readers = 0, lb_auto_betatunnel = True, ctimeout = 5000, ftimeout = 2500,
     preferlocalcards = False, cc_forward_origin_card = False, sidtabs = [sid_ex]\<rparr>"

definition stat_world_ex :: lb_world where
  "stat_world_ex = \<lparr>readers = [stat_rdr_ex, stat_rdr_ex], active = [0, 1], nulltime = \<lparr>tb_time = 1, tb_millitm = 0\<rparr>,
     now = 2000, stat_load_save = 0, last_housekeeping = 0, jobs = []\<rparr>"

lemma add_stat_ok:
  assumes "rid < length (readers w)" "\<forall>r \<in> set (readers w). stats_ok r" "er_l er \<noteq> 0" "lb_min_ecmcount cfg \<noteq> 0"
    and "rdr_client (readers w ! rid) = Some cl" "lb_mode cfg \<noteq> 0"
  shows "\<exists>w'. add_stat cfg True w er rid t rc = Some w' \<and> (\<forall>r \<in> set (readers w'). stats_ok r) \<and>
    (\<forall>j. j \<noteq> rid \<longrightarrow> readers w' ! j = readers w ! j) \<and>
    (let key = (er_caid er, get_prid cfg (er_caid er) (er_prid er), er_srvid er, er_l er); rc' = late_rc cfg t rc in
     (rc' = 0 \<longrightarrow> entry_is (readers w' ! rid) key (\<lambda>s. st_rc s = 0 \<and> fail_factor s = 0 \<and> last_received s = now w)) \<and>
     (rc' = 4 \<and> er_rcEx er \<notin> {E2_CCCAM_NOK1, E2_CCCAM_NOK2, E2_CCCAM_LOOP, E2_WRONG_CHKSUM} \<longrightarrow>
        entry_is (readers w' ! rid) key (\<lambda>s. st_rc s = 4 \<and> last_received s = now w)) \<and>
     (rc' = 5 \<longrightarrow> entry_is (readers w' ! rid) key (\<lambda>s. last_received s = now w)))"
proof -
  let ?r = "readers w ! rid" and ?p = "get_prid cfg (er_caid er) (er_prid er)"
  have ok: "stats_ok ?r" using assms(1,2) by simp
  have book: "readers (save_stat_count cfg (housekeeping_stat False (put_reader rid r w))) = (readers w)[rid := r]" for r
    by (simp add: save_stat_count_def housekeeping_stat_def put_reader_def)
  have put: "readers (put_reader rid r w) = (readers w)[rid := r]" for r by (simp add: put_reader_def)
  have all: "stats_ok r \<Longrightarrow> \<forall>x \<in> set ((readers w)[rid := r]). stats_ok x" for r
    by (rule set_update_ok [OF assms(2)])
  obtain r0 where r0: "add_found cfg True (now w) rid ?r er ?p t = Some r0"
    "entry_is r0 (er_caid er, ?p, er_srvid er, er_l er) (\<lambda>s. st_rc s = 0 \<and> fail_factor s = 0 \<and> last_received s = now w)"
    using add_found_ok [OF ok assms(3) refl assms(4)] by blast
  obtain r4 where r4: "add_notfound cfg True (now w) ?r er ?p t = Some r4"
    "entry_is r4 (er_caid er, ?p, er_srvid er, er_l er) (\<lambda>s. st_rc s = 4 \<and> last_received s = now w)"
    using add_notfound_ok [OF ok assms(3) refl] by blast
  obtain r5 where r5: "add_timeout cfg True (now w) cl ?r er ?p t = Some r5"
    "entry_is r5 (er_caid er, ?p, er_srvid er, er_l er) (\<lambda>s. last_received s = now w)"
    using add_timeout_ok [OF ok assms(3) refl] by blast
  obtain r1 where r1: "touch_stat cfg (now w) ?r er ?p = Some r1" "stats_ok r1"
    using touch_stat_ok [OF ok] by blast
  show ?thesis
    using assms(1,5,6) r0 r1 r4 r5 all [OF r1(2)] all [OF entry_is_ok [OF r0(2)]] all [OF entry_is_ok [OF r4(2)]]
      all [OF entry_is_ok [OF r5(2)]] assms(2)
    by (simp add: add_stat_def Let_def book put)
qed

text \<open>C31. Booking an answer always succeeds when there is memory; it touches no other reader, keeps every
  list free of duplicate keys, and leaves exactly one entry for the request: reset by a found answer,
  blocked by a "not found" that the card itself gave, and stamped with the time of a timeout.\<close>

theorem add_stat_books:
  assumes "rid < length (readers w)" "\<forall>r \<in> set (readers w). stats_ok r" "er_l er \<noteq> 0" "lb_min_ecmcount cfg \<noteq> 0"
    and "rdr_client (readers w ! rid) = Some cl" "lb_mode cfg \<noteq> 0"
  shows "\<exists>w'. add_stat cfg True w er rid t rc = Some w' \<and> (\<forall>r \<in> set (readers w'). stats_ok r) \<and>
    (\<forall>j. j \<noteq> rid \<longrightarrow> readers w' ! j = readers w ! j) \<and>
    (let key = (er_caid er, get_prid cfg (er_caid er) (er_prid er), er_srvid er, er_l er); rc' = late_rc cfg t rc in
     (rc' = 0 \<longrightarrow> entry_is (readers w' ! rid) key (\<lambda>s. st_rc s = 0 \<and> fail_factor s = 0 \<and> last_received s = now w)) \<and>
     (rc' = 4 \<and> er_rcEx er \<notin> {E2_CCCAM_NOK1, E2_CCCAM_NOK2, E2_CCCAM_LOOP, E2_WRONG_CHKSUM} \<longrightarrow>
        entry_is (readers w' ! rid) key (\<lambda>s. st_rc s = 4 \<and> last_received s = now w)) \<and>
     (rc' = 5 \<longrightarrow> entry_is (readers w' ! rid) key (\<lambda>s. last_received s = now w)))"
  by (rule add_stat_ok [OF assms])

theorem add_stat_books_witness:
  "\<exists>w'. add_stat stat_cfg_ex True stat_world_ex stat_er_ex 0 300 0 = Some w' \<and>
     entry_is (readers w' ! 0) (0x0500, 0x020810, 7, 35) (\<lambda>s. st_rc s = 0 \<and> fail_factor s = 0 \<and> last_received s = 2000)"
proof -
  have e: "0 < length (readers stat_world_ex)" "\<forall>r \<in> set (readers stat_world_ex). stats_ok r" "er_l stat_er_ex \<noteq> 0"
    "lb_min_ecmcount stat_cfg_ex \<noteq> 0" "rdr_client (readers stat_world_ex ! 0) = Some client_ex"
    "lb_mode stat_cfg_ex \<noteq> 0"
    by (simp_all add: stat_world_ex_def stat_rdr_ex_def stat_er_ex_def stat_cfg_ex_def reader_ex_def ecm_ex_def
        ecm_request.defs lb_request.defs s_reader.defs lb_reader.defs stats_ok_def)
  have v: "er_caid stat_er_ex = 0x0500" "get_prid stat_cfg_ex 0x0500 (er_prid stat_er_ex) = 0x020810"
    "er_srvid stat_er_ex = 7" "er_l stat_er_ex = 35" "late_rc stat_cfg_ex 300 0 = 0" "now stat_world_ex = 2000"
    by code_simp+
  from add_stat_books [OF e, of 300 0] show ?thesis unfolding v Let_def by auto
qed

text \<open>The wait before a failing reader is asked again doubles with each failure from the configured
  time on, and is capped so that it never overflows; that holds up to the 31st failure in a row.\<close>

theorem reopen_backoff:
  assumes "fail_factor s = 0" "10 \<le> lb_reopen_seconds cfg" "lb_reopen_seconds cfg < 2 ^ 31" "n \<le> 30"
  shows "\<exists>s'. get_reopen_seconds cfg ((inc_fail ^^ Suc n) s) =
      Some (min (2 ^ n) ((2 ^ 31 - 1) div lb_reopen_seconds cfg) * lb_reopen_seconds cfg, s') \<and>
    min (2 ^ n) ((2 ^ 31 - 1) div lb_reopen_seconds cfg) * lb_reopen_seconds cfg < 2 ^ 31"
proof -
  let ?r = "lb_reopen_seconds cfg"
  let ?m = "(2 ^ 31 - 1) div ?r"
  have f: "fail_factor ((inc_fail ^^ Suc n) s) = 2 ^ n" by (rule inc_fail_pow [OF assms(1,4)])
  have m: "1 \<le> ?m" using assms(2,3) zdiv_mono2 [of "2 ^ 31 - 1" ?r "2 ^ 31 - 1"] by simp
  have m': "?m * ?r \<le> 2 ^ 31 - 1"
    using assms(2) minus_mod_eq_div_mult [of "2 ^ 31 - 1" ?r] pos_mod_sign [of ?r "2 ^ 31 - 1"] by linarith
  have "min (2 ^ n) ?m * ?r \<le> ?m * ?r" using assms(2) by (intro mult_right_mono) auto
  then have b: "0 < min (2 ^ n) ?m" "min (2 ^ n) ?m * ?r \<le> 2 ^ 31 - 1"
    using m m' by auto
  then have "s32 (min (2 ^ n) ?m * ?r) = min (2 ^ n) ?m * ?r"
    using assms(2) by (intro s32_id) (auto intro: order_trans [of _ 0])
  then show ?thesis
    using f b m assms(2) by (cases "2 ^ n \<le> ?m") (simp_all add: get_reopen_seconds_def Let_def del: funpow.simps)
qed

theorem reopen_backoff_witness:
  "\<exists>s'. get_reopen_seconds stat_cfg_ex ((inc_fail ^^ Suc 3) (new_stat 1 2 3 4)) = Some (7200, s')"
proof -
  have e: "fail_factor (new_stat 1 2 3 4) = 0" "10 \<le> lb_reopen_seconds stat_cfg_ex"
    "lb_reopen_seconds stat_cfg_ex < 2 ^ 31" "(3 :: nat) \<le> 30" by (simp_all add: new_stat_def stat_cfg_ex_def)
  have "min (2 ^ 3) ((2 ^ 31 - 1) div lb_reopen_seconds stat_cfg_ex) * lb_reopen_seconds stat_cfg_ex = 7200"
    by (simp add: stat_cfg_ex_def)
  with reopen_backoff [OF e] show ?thesis by (simp del: funpow.simps)
qed

text \<open>The 32nd failure in a row overflows the factor, the 33rd starts over.\<close>

lemma inc_fail_overflow:
  "fail_factor s = 2 ^ 30 \<Longrightarrow> fail_factor (inc_fail s) = - (2 ^ 31) \<and> fail_factor (inc_fail (inc_fail s)) = 1"
proof -
  assume "fail_factor s = 2 ^ 30"
  moreover have "s32 (2 ^ 30 * 2) = - (2 ^ 31)" by code_simp
  ultimately show ?thesis by (simp add: inc_fail_def)
qed

text \<open>Housekeeping takes exactly the entries that were not asked for within \<open>lb_stat_cleanup\<close> hours,
  except those that were once moved to the front of their list: these stay for good, as they do when
  \<open>remove_stat\<close> claims to have removed them.\<close>

theorem housekeeping_removes:
  assumes "i < length (readers w)" "lb_stat (readers w ! i) = Some l"
  shows "\<exists>l'. lb_stat (readers (housekeeping_stat_thread cfg w) ! i) = Some l' \<and>
     (\<forall>s fl. (s, fl) \<in> set l' \<longleftrightarrow> (s, fl) \<in> set l \<and> (now w - lb_stat_cleanup cfg * 3600 \<le> last_received s \<or> fl)) \<and>
     (\<forall>s. (s, True) \<in> set l \<longrightarrow>
        (\<exists>l2. lb_stat (fst (remove_stat (readers w ! i) (rs_caid s) (rs_prid s) (rs_srvid s) (ecmlen s))) = Some l2 \<and>
              (s, True) \<in> set l2 \<and>
              0 < snd (remove_stat (readers w ! i) (rs_caid s) (rs_prid s) (rs_srvid s) (ecmlen s))))"
  using assms
  by (auto simp: housekeeping_stat_thread_def sweep_def remove_stat_def same_key_def Let_def mult.commute
      filter_empty_conv)

theorem housekeeping_removes_witness:
  "\<exists>l'. lb_stat (readers (housekeeping_stat_thread (stat_cfg_ex\<lparr>lb_stat_cleanup := 0\<rparr>)
      (stat_world_ex\<lparr>readers := [stat_rdr_ex\<lparr>lb_stat := Some [(new_stat 1 2 3 4, True), (new_stat 1 2 3 5, False)]\<rparr>]\<rparr>)) ! 0)
      = Some l' \<and> (new_stat 1 2 3 4, True) \<in> set l' \<and> (new_stat 1 2 3 5, False) \<notin> set l'"
proof -
  let ?l = "[(new_stat 1 2 3 4, True), (new_stat 1 2 3 5, False)]"
  let ?w = "stat_world_ex\<lparr>readers := [stat_rdr_ex\<lparr>lb_stat := Some ?l\<rparr>]\<rparr>"
  let ?c = "stat_cfg_ex\<lparr>lb_stat_cleanup := 0\<rparr>"
  have e: "0 < length (readers ?w)" "lb_stat (readers ?w ! 0) = Some ?l" by simp_all
  have "now ?w - lb_stat_cleanup ?c * 3600 = 2000" by (simp add: stat_world_ex_def)
  moreover have "last_received (new_stat 1 2 3 5) = 0" by (simp add: new_stat_def)
  ultimately show ?thesis using housekeeping_removes [OF e, of ?c] by fastforce
qed

text \<open>As long as the differences of return codes, providers and times fit 32 bits, \<open>compare_stat\<close> is
  the lexicographic order on (code, CAID, provider, service, length, time), so \<open>qsort\<close> has a linear
  order to work with; for providers that differ by more the sign is wrong.\<close>

theorem compare_stat_order:
  assumes "narrow a b"
  shows "(compare_stat a b < 0 \<longleftrightarrow> lex_less (rank_list a) (rank_list b)) \<and>
     (compare_stat a b = 0 \<longleftrightarrow> rank_list a = rank_list b) \<and>
     compare_stat (new_stat 1 0x90000000 0 0) (new_stat 1 1 0 0) < 0"
proof -
  have "compare_stat (new_stat 1 0x90000000 0 0) (new_stat 1 1 0 0) < 0" by code_simp
  with compare_stat_lex [OF assms] show ?thesis by blast
qed

theorem compare_stat_order_witness:
  "compare_stat (new_stat 1 2 3 4) (new_stat 1 3 0 0) < 0"
proof -
  have n: "narrow (new_stat 1 2 3 4) (new_stat 1 3 0 0)" by (simp add: narrow_def new_stat_def)
  show ?thesis using compare_stat_order [OF n] by (simp add: rank_list_def new_stat_def)
qed

end
