(* ===== verification/Ecm.thy ===== *)
theory Ecm
  imports Stat
begin

text \<open>
  The transformations of a request in \<open>oscam.c\<close>: finding the provider in an ECM, guessing the card
  system, CAID mapping, tunnelling into betacrypt, and the checks on a control word. The ECM is the
  512-byte buffer of the request; \<open>None\<close> is an access outside it or outside the table
  \<open>len4caid\<close>. \<open>MD5\<close> is a parameter. Debug output and the \<open>cwtun\<close> counters are left out.
\<close>

section \<open>CAID mapping\<close>

text \<open>A slot of the client's table: \<open>caid\<close>, \<open>mask\<close> and \<open>cmap\<close>; all \<open>CS_MAXCAIDTAB\<close> slots are
  compared, the unused ones included.\<close>

type_synonym cmaptab = "(u16 \<times> u16 \<times> u16) list"

fun chk_caid :: "u16 \<Rightarrow> cmaptab \<Rightarrow> int" where
  "chk_caid caid [] = -1"
| "chk_caid caid ((c, m, cmap) # tab) =
     (if caid AND m = c then (if cmap \<noteq> 0 then uint cmap else uint caid) else chk_caid caid tab)"

definition chk_bcaid :: "'a ecm_request_scheme \<Rightarrow> cmaptab \<Rightarrow> bool \<times> 'a ecm_request_scheme" where
  "chk_bcaid er ctab =
     (let caid = chk_caid (er_caid er) ctab in
      if caid < 0 then (False, er) else (True, er\<lparr>er_caid := word_of_int caid\<rparr>))"

section \<open>The provider of an ECM\<close>

text \<open>The Viaccess nano at \<open>off\<close>: a D2 nano in front of it is skipped.\<close>

definition via_nano :: "u8 list \<Rightarrow> nat \<Rightarrow> u8 \<Rightarrow> u32 \<Rightarrow> u32 option" where
  "via_nano ecm off nlen provid = do {
     t \<leftarrow> fetch ecm off;
     l \<leftarrow> fetch ecm (off + 1);
     let i = (if t = 0xD2 then unat l + 2 else 0);
     n \<leftarrow> fetch ecm (off + 1 + i);
     if n = nlen then do {
       h \<leftarrow> fetch ecm (off + i);
       if h = 0x90 \<or> h = 0x40 then do { p \<leftarrow> b2i 3 (drop (off + 2 + i) ecm); Some (p AND 0xFFFFF0) }
       else Some provid }
     else Some provid }"

function cw_provid :: "u8 list \<Rightarrow> nat \<Rightarrow> nat \<Rightarrow> u32 option" where
  "cw_provid ecm len i =
     (if len \<le> i then Some 0
      else if i + 1 < length ecm then
        (if ecm ! i = 0x83
         then do { b \<leftarrow> fetch ecm (i + 2); Some (ucast b AND 0xFE) }
         else cw_provid ecm len (i + unat (ecm ! (i + 1)) + 2))
      else None)"
  by pat_completeness auto
termination by (relation "measure (\<lambda>(ecm, len, i). len - i)") auto

declare cw_provid.simps [simp del]

definition ecm_length :: "u8 list \<Rightarrow> nat option" where
  "ecm_length ecm = do {
     b1 \<leftarrow> fetch ecm 1; b2 \<leftarrow> fetch ecm 2;
     Some (unat (b1 AND 0xF) * 256 + unat b2 + 3) }"

definition chk_provid :: "u8 list \<Rightarrow> u16 \<Rightarrow> u32 option" where
  "chk_provid ecm caid =
     (let sys = drop_bit 8 caid in
      if sys = 0x01 then b2i 2 (drop 3 ecm)
      else if sys = 0x05 then do { p \<leftarrow> via_nano ecm 4 3 0; via_nano ecm 6 7 p }
      else if sys = 0x0D then do { len \<leftarrow> ecm_length ecm; cw_provid ecm len 8 }
      else Some 0)"

section \<open>Guessing the card system\<close>

record irdeto_guess =
  ig_b47 :: u32
  ig_caid :: u16
  ig_sid :: u16

fun guess_irdeto_loop :: "'a ecm_request_scheme \<Rightarrow> u32 \<Rightarrow> irdeto_guess list \<Rightarrow> 'a ecm_request_scheme" where
  "guess_irdeto_loop er b47 [] = er"
| "guess_irdeto_loop er b47 (g # gs) =
     (if b47 = ig_b47 g then
        (if er_srvid er \<noteq> 0 \<and> er_srvid er \<noteq> ig_sid g then er
         else er\<lparr>er_caid := ig_caid g, er_srvid := ig_sid g, er_chid := ucast (ig_b47 g)\<rparr>)
      else guess_irdeto_loop er b47 gs)"

definition guess_irdeto :: "(u8 \<Rightarrow> irdeto_guess list) \<Rightarrow> 'a ecm_request_scheme \<Rightarrow> 'a ecm_request_scheme option" where
  "guess_irdeto itab er = do {
     b3 \<leftarrow> fetch (er_ecm er) 3;
     if itab b3 = [] then Some er
     else do { b47 \<leftarrow> b2i 4 (drop 4 (er_ecm er)); Some (guess_irdeto_loop er b47 (itab b3)) } }"

text \<open>The reads at fixed offsets need an ECM of ten bytes.\<close>

definition guess_cardsystem ::
  "u16 list \<Rightarrow> (u8 \<Rightarrow> irdeto_guess list) \<Rightarrow> 'a ecm_request_scheme \<Rightarrow> 'a ecm_request_scheme option" where
  "guess_cardsystem len4caid itab er0 = do {
     p \<leftarrow> chk_provid (er_ecm er0) 0x500;
     let e = er_ecm er0;
     let er1 = er0\<lparr>er_prid := p, er_caid := if p \<noteq> 0 then 0x500 else er_caid er0\<rparr>;
     _ \<leftarrow> fetch e 11;
     let er2 = (if e ! 6 = 1 \<and> int (unat (e ! 4)) = int (unat (e ! 2)) - 2 then er1\<lparr>er_caid := 0x1801\<rparr> else er1);
     let hope = (if e ! 8 = 0x10 \<and> e ! 9 AND 0xF1 = 1 then 0x100 else 0);
     let hope' = (if e ! 3 = 0x81 \<and> e ! 4 = 0xFF \<and> e ! 5 = 0 \<and> e ! 6 = 0 \<and>
                     int (unat (e ! 7)) = int (unat (e ! 2)) - 5 then 0xD00 else hope);
     er3 \<leftarrow> (if er_caid er2 = 0 \<and> e ! 2 = 0x31 \<and> e ! 11 = 0x28 then guess_irdeto itab er2 else Some er2);
     er4 \<leftarrow> (if er_caid er3 = 0
            then do { c \<leftarrow> fetch len4caid (unat (e ! 2) + 3); Some (er3\<lparr>er_caid := c\<rparr>) } else Some er3);
     Some (if er_caid er4 = 0 then er4\<lparr>er_caid := hope'\<rparr> else er4) }"

section \<open>Betacrypt tunnel\<close>

definition headerN3 :: "u8 list" where
  "headerN3 = [0xc7, 0x00, 0x00, 0x00, 0x01, 0x10, 0x10, 0x00, 0x87, 0x12]"

definition headerN2 :: "u8 list" where
  "headerN2 = [0xc9, 0x00, 0x00, 0x00, 0x01, 0x10, 0x10, 0x00, 0x48, 0x12]"

definition convert_to_beta :: "lb_request \<Rightarrow> u16 \<Rightarrow> lb_request option" where
  "convert_to_beta er caidto = do {
     b2 \<leftarrow> fetch (er_ecm er) 2;
     let l = unat b2 + 3;
     ecm1 \<leftarrow> (if l \<le> length (er_ecm er) then memcpy (er_ecm er) 13 (take (l - 3) (drop 3 (er_ecm er))) else None);
     ecm2 \<leftarrow> (if 0x88 < l then do {
               e \<leftarrow> memcpy ecm1 3 headerN3;
               let e' = (if e ! 0 = 0x81 then e[12 := e ! 12 + 1] else e);
               Some (e'[1 := 0x70]) }
             else memcpy ecm1 3 headerN2);
     Some (er\<lparr>er_caid := caidto, er_prid := 0, er_l := int l + 10, btun := True,
              er_ecm := ecm2[2 := of_nat (l + 10 - 3)]\<rparr>) }"

definition convert_to_beta_int :: "(u8 list \<Rightarrow> u8 list) \<Rightarrow> lb_request \<Rightarrow> u16 \<Rightarrow> lb_request option" where
  "convert_to_beta_int MD5 er caid_to = do {
     er' \<leftarrow> convert_to_beta er caid_to;
     Some (er'\<lparr>er_ecmd5 := MD5 (take (nat (er_l er' - 13)) (drop 13 (er_ecm er')))\<rparr>) }"

record tun_entry =
  bt_caidfrom :: u16
  bt_caidto :: u16
  bt_srvid :: u16

fun cs_betatunnel :: "tun_entry list \<Rightarrow> lb_request \<Rightarrow> lb_request option" where
  "cs_betatunnel [] er = Some er"
| "cs_betatunnel (t # ttab) er =
     (if er_caid er = bt_caidfrom t \<and> (er_srvid er = bt_srvid t \<or> bt_srvid t = 0xFFFF)
      then convert_to_beta er (bt_caidto t) else cs_betatunnel ttab er)"

section \<open>Control words\<close>

definition checkCW :: "'a ecm_request_scheme \<Rightarrow> 'a ecm_request_scheme" where
  "checkCW er = (if \<exists>b \<in> set (take 16 (er_cw er)). b \<noteq> 0 then er else er\<lparr>er_rc := E_NOTFOUND\<rparr>)"

text \<open>The checksum loop of \<open>write_ecm_answer\<close> at the word starting at \<open>i\<close>; the result tells whether
  the answer was dropped.\<close>

definition cw_sum :: "u8 list \<Rightarrow> nat \<Rightarrow> u8" where
  "cw_sum cw i = cw ! i + cw ! (i + 1) + cw ! (i + 2)"

fun cw_check :: "bool \<Rightarrow> u8 list \<Rightarrow> nat list \<Rightarrow> bool \<times> u8 list" where
  "cw_check dropbad cw [] = (False, cw)"
| "cw_check dropbad cw (i # is) =
     (if cw ! (i + 3) \<noteq> cw_sum cw i then
        (if dropbad then (True, cw) else cw_check dropbad (cw[i + 3 := cw_sum cw i]) is)
      else cw_check dropbad cw is)"

end
