(* ===== verification/Balance.thy ===== *)
theory Balance
  imports Ecm
begin

text \<open>
  \<open>get_best_reader\<close> of \<open>module-stat.c\<close>, cut into its stages: forwarding of a CCcam card, the decision
  for betacrypt, the ranking of the matching readers, the choice of primary and fallback readers, and
  the reopening of blocked readers. Each stage is the code's loop over its list; the stages are put
  together in \<open>get_best_reader\<close>. The parameters are the clock readings \<open>clk\<close>, the reader check \<open>avail\<close>
  (\<open>ph.c_available\<close> with \<open>AVAIL_CHECK_LOADBALANCE\<close>), the allocator's answer \<open>mem\<close> and \<open>MD5\<close>.
  Nodes of the result list get the addresses \<open>fresh\<close>, \<open>fresh + 1\<close> and so on.
\<close>

section \<open>Statistics of a reader in the world\<close>

definition w_get_stat ::
  "lb_config \<Rightarrow> lb_world \<Rightarrow> nat \<Rightarrow> u16 \<Rightarrow> u32 \<Rightarrow> u16 \<Rightarrow> int \<Rightarrow> (lb_world \<times> lb_reader \<times> nat option) option" where
  "w_get_stat cfg w i caid prid srvid len = do {
     rdr \<leftarrow> fetch (readers w) i;
     let rk = get_stat cfg rdr caid prid srvid len;
     Some (put_reader i (fst rk) w, fst rk, snd rk) }"

definition is_network :: "lb_world \<Rightarrow> nat \<Rightarrow> bool" where
  "is_network w i = (case fetch (readers w) i of None \<Rightarrow> False | Some r \<Rightarrow> rdr_typ r AND R_IS_NETWORK \<noteq> 0)"

section \<open>Nagra or betacrypt\<close>

record beta_state =
  b_w :: lb_world
  needs_nagra :: bool
  needs_beta :: bool
  time_nagra :: int
  time_beta :: int

definition beta_time :: "lb_reader \<Rightarrow> nat option \<Rightarrow> int \<Rightarrow> int option" where
  "beta_time rdr k t = (case k of
     None \<Rightarrow> Some t
   | Some k \<Rightarrow> do {
       s \<leftarrow> stat_at rdr k;
       let weight = (if lb_weight rdr \<le> 0 then 1 else lb_weight rdr);
       let time = cdiv (s32 (time_avg s * 100)) weight;
       Some (if st_rc s = 0 \<and> (t = 0 \<or> time < t) then time else t) })"

text \<open>Both lookups are done before either pointer is used. The second may move its entry to the front,
  so the first entry is read through the reader as the first lookup left it; the second lookup changes
  no entry's time or return code.\<close>

fun beta_loop :: "lb_config \<Rightarrow> lb_request \<Rightarrow> u32 \<Rightarrow> u16 \<Rightarrow> rnode list \<Rightarrow> beta_state \<Rightarrow> beta_state option" where
  "beta_loop cfg er prid caid_to [] b = Some b"
| "beta_loop cfg er prid caid_to ((node, i) # ns) b =
     (if needs_nagra b \<or> needs_beta b then Some b
      else do {
        (w1, r1, k1) \<leftarrow> w_get_stat cfg (b_w b) i (er_caid er) prid (er_srvid er) (er_l er);
        (w2, r2, k2) \<leftarrow> w_get_stat cfg w1 i caid_to prid (er_srvid er) (er_l er + 10);
        tn \<leftarrow> beta_time r1 k1 (time_nagra b);
        tb \<leftarrow> beta_time r2 k2 (time_beta b);
        beta_loop cfg er prid caid_to ns
          \<lparr>b_w = w2, needs_nagra = (k1 = None), needs_beta = (k2 = None), time_nagra = tn, time_beta = tb\<rparr> })"

definition beta_decide ::
  "lb_config \<Rightarrow> (u8 list \<Rightarrow> u8 list) \<Rightarrow> lb_world \<Rightarrow> lb_request \<Rightarrow> u32 \<Rightarrow> (lb_world \<times> lb_request) option" where
  "beta_decide cfg MD5 w er prid =
     (let caid_to = get_betatunnel_caid_to (er_caid er) in
      if lb_auto_betatunnel cfg \<and> drop_bit 8 (er_caid er) = 0x18 \<and> caid_to \<noteq> 0 then do {
        b \<leftarrow> beta_loop cfg er prid caid_to (matching_rdr er)
               \<lparr>b_w = w, needs_nagra = False, needs_beta = False, time_nagra = 0, time_beta = 0\<rparr>;
        er' \<leftarrow> (if needs_nagra b \<or> needs_beta b
               then (if needs_beta b then convert_to_beta_int MD5 er caid_to else Some er)
               else if time_beta b \<noteq> 0 \<and> (time_nagra b = 0 \<or> time_beta b \<le> time_nagra b)
               then convert_to_beta_int MD5 er caid_to
               else Some er);
        Some (b_w b, er') }
      else Some (w, er))"

section \<open>Ranking\<close>

record stat_value =
  v_rdr :: nat
  v_value :: int
  v_time :: int

record lb_sel =
  s_w :: lb_world
  s_result :: "rnode list"
  s_selected :: "stat_value list"
  s_timeouts :: "nat list"
  s_new_stats :: bool
  s_nlocal :: int
  s_null :: timeb
  s_nreaders :: int
  s_next :: nat

definition sel_append :: "nat \<Rightarrow> lb_sel \<Rightarrow> lb_sel" where
  "sel_append i st =
     st\<lparr>s_result := s_result st @ [(s_next st, i)], s_next := s_next st + 1, s_nreaders := s_nreaders st - 1\<rparr>"

definition timeb_diff :: "timeb \<Rightarrow> timeb \<Rightarrow> int" where
  "timeb_diff a b = 1000 * (tb_time a - tb_time b) + tb_millitm a - tb_millitm b"

text \<open>The load value of a reader, or none in the modes that do not rank; the mode "oldest reader first"
  also sets the reader's time and the new reference time.\<close>

definition load_value ::
  "lb_config \<Rightarrow> timeb \<Rightarrow> timeb \<Rightarrow> reader_stat \<Rightarrow> lb_reader \<Rightarrow> (int \<times> lb_reader \<times> timeb) option" where
  "load_value cfg null new_null s rdr =
     (let weight = (if lb_weight rdr \<le> 0 then 100 else lb_weight rdr) in
      if lb_mode cfg = 1 then Some (cdiv (s32 (time_avg s * 100)) weight, rdr, new_null)
      else if lb_mode cfg = 2 then
        (let rdr' = (if tb_time (lb_last rdr) = 0 then rdr\<lparr>lb_last := null\<rparr> else rdr) in
         Some (s32 (timeb_diff (lb_last rdr') null), rdr',
               if tb_time new_null = 0 \<or> timeb_diff (lb_last rdr') new_null < 0 then lb_last rdr' else new_null))
      else if lb_mode cfg = 3 then Some (cdiv (s32 (lb_usagelevel rdr * 100)) weight, rdr, new_null)
      else None)"

definition adjust_value :: "(lb_reader \<Rightarrow> bool) option \<Rightarrow> s_client \<Rightarrow> lb_reader \<Rightarrow> int \<Rightarrow> int" where
  "adjust_value avail cl rdr v =
     (let v1 = (if case avail of None \<Rightarrow> False | Some av \<Rightarrow> \<not> av rdr then s32 (v * 2) else v);
          v2 = (if cl_pending cl \<noteq> 0 then s32 (v1 * cl_pending cl) else v1) in
      if v2 < 1 then 1 else v2)"

definition rank_reader ::
  "lb_config \<Rightarrow> (lb_reader \<Rightarrow> bool) option \<Rightarrow> s_client \<Rightarrow> reader_stat \<Rightarrow> lb_reader \<Rightarrow> nat \<Rightarrow> lb_sel \<Rightarrow> lb_sel" where
  "rank_reader cfg avail cl s rdr i st =
     (let st1 = st\<lparr>s_nlocal := if preferlocalcards cfg \<and> rdr_typ rdr AND R_IS_NETWORK = 0
                               then s_nlocal st + 1 else s_nlocal st,
                   s_timeouts := if 5 \<le> st_rc s then i # s_timeouts st else s_timeouts st\<rparr> in
      case load_value cfg (nulltime (s_w st)) (s_null st) s rdr of
        None \<Rightarrow> sel_append i st1
      | Some (v, rdr', null') \<Rightarrow>
          st1\<lparr>s_w := put_reader i rdr' (s_w st), s_null := null',
              s_selected := s_selected st @
                [\<lparr>v_rdr = i, v_value = adjust_value avail cl rdr' v, v_time = time_avg s\<rparr>]\<rparr>)"

definition needs_reset :: "lb_config \<Rightarrow> int \<Rightarrow> reader_stat \<Rightarrow> bool" where
  "needs_reset cfg retrylimit s \<longleftrightarrow>
     ecm_count s < 0 \<or> lb_max_ecmcount cfg < ecm_count s \<and> retrylimit < time_avg s"

definition consider_reader ::
  "lb_config \<Rightarrow> (lb_reader \<Rightarrow> bool) option \<Rightarrow> bool \<Rightarrow> lb_request \<Rightarrow> u32 \<Rightarrow> int \<Rightarrow> nat \<Rightarrow> lb_sel \<Rightarrow> lb_sel option" where
  "consider_reader cfg avail mem er prid retrylimit i st0 = do {
     (w, rdr, k) \<leftarrow> w_get_stat cfg (s_w st0) i (er_caid er) prid (er_srvid er) (er_l er);
     let st = st0\<lparr>s_w := w\<rparr>;
     (case k of
        None \<Rightarrow> do { w' \<leftarrow> add_stat cfg mem w er i 1 (-1);
                     Some ((sel_append i (st\<lparr>s_w := w'\<rparr>))\<lparr>s_new_stats := True\<rparr>) }
      | Some k \<Rightarrow> do {
          s \<leftarrow> stat_at rdr k;
          if needs_reset cfg retrylimit s
          then do { w' \<leftarrow> reset_stat cfg (er_caid er) prid (er_srvid er) (er_l er) w;
                    Some (sel_append i (st\<lparr>s_w := w'\<rparr>)) }
          else do {
            cl \<leftarrow> rdr_client rdr;
            h \<leftarrow> has_srvid (sidtabs cfg) cl er;
            Some (if st_rc s = 0 \<and> ecm_count s < lb_min_ecmcount cfg
                  then (sel_append i st)\<lparr>s_new_stats := True\<rparr>
                  else if st_rc s = 0 \<or> h \<or> has_ident (rdr_ftab rdr) er
                  then rank_reader cfg avail cl s rdr i st
                  else st) } }) }"

fun consider_loop ::
  "lb_config \<Rightarrow> (lb_reader \<Rightarrow> bool) option \<Rightarrow> bool \<Rightarrow> lb_request \<Rightarrow> u32 \<Rightarrow> int \<Rightarrow> rnode list \<Rightarrow> lb_sel \<Rightarrow> lb_sel option"
  where
  "consider_loop cfg avail mem er prid lim [] st = Some st"
| "consider_loop cfg avail mem er prid lim ((node, i) # ns) st =
     (if s_nreaders st = 0 then Some st
      else do { st' \<leftarrow> consider_reader cfg avail mem er prid lim i st;
                consider_loop cfg avail mem er prid lim ns st' })"

section \<open>Choice\<close>

text \<open>The inner loop: the first of the smallest values that are not zero.\<close>

fun pick_loop :: "(nat \<Rightarrow> bool) \<Rightarrow> stat_value list \<Rightarrow> nat \<Rightarrow> (nat \<times> int) option \<Rightarrow> (nat \<times> int) option" where
  "pick_loop skip [] k best = best"
| "pick_loop skip (v # vs) k best =
     pick_loop skip vs (k + 1)
       (if \<not> skip (v_rdr v) \<and> v_value v \<noteq> 0 \<and> (case best of None \<Rightarrow> True | Some (_, b) \<Rightarrow> v_value v < b)
        then Some (k, v_value v) else best)"

record lb_pick =
  p_w :: lb_world
  p_selected :: "stat_value list"
  p_nlocal :: int
  p_nbest :: int
  p_nfb :: int
  p_nreaders :: int
  p_result :: "rnode list"
  p_next :: nat
  p_fallback :: "nat option"
  p_best :: "(nat \<times> int) option"
  p_n :: nat

definition set_last :: "timeb \<Rightarrow> nat \<Rightarrow> lb_world \<Rightarrow> lb_world" where
  "set_last t i w = (case fetch (readers w) i of None \<Rightarrow> w | Some r \<Rightarrow> put_reader i (r\<lparr>lb_last := t\<rparr>) w)"

text \<open>One turn of the outer loop and whether the loop goes on.\<close>

definition choose_step :: "(nat \<Rightarrow> timeb) \<Rightarrow> nat list \<Rightarrow> lb_pick \<Rightarrow> bool \<times> lb_pick" where
  "choose_step clk tmo p =
     (if p_nreaders p = 0 then (False, p)
      else case pick_loop (\<lambda>i. p_nlocal p \<noteq> 0 \<and> is_network (p_w p) i) (p_selected p) 0 None of
        None \<Rightarrow> (False, p)
      | Some (k, _) \<Rightarrow>
          (let v = p_selected p ! k; i = v_rdr v; d = (if i \<in> set tmo then 0 else 1);
               p1 = p\<lparr>p_n := p_n p + 1, p_best := (case p_best p of None \<Rightarrow> Some (i, v_time v) | b \<Rightarrow> b),
                      p_selected := (p_selected p)[k := v\<lparr>v_value := 0\<rparr>]\<rparr>;
               p2 = p1\<lparr>p_result := p_result p @ [(p_next p, i)], p_next := p_next p + 1\<rparr>;
               p3 = p2\<lparr>p_nreaders := p_nreaders p - 1, p_w := set_last (clk (p_n p)) i (p_w p)\<rparr> in
           if p_nlocal p \<noteq> 0 then (True, p3\<lparr>p_nlocal := p_nlocal p - d\<rparr>)
           else if p_nbest p \<noteq> 0 then (True, p3\<lparr>p_nbest := p_nbest p - d\<rparr>)
           else if p_nfb p \<noteq> 0 then
             (True, p2\<lparr>p_nfb := p_nfb p - d,
                       p_fallback := (case p_fallback p of None \<Rightarrow> Some (p_next p) | f \<Rightarrow> f)\<rparr>)
           else (False, p1)))"

definition open_values :: "lb_pick \<Rightarrow> nat" where
  "open_values p = length (filter (\<lambda>v. v_value v \<noteq> 0) (p_selected p))"

lemma pick_loop_Some:
  assumes "pick_loop skip vs k best = Some (j, x)"
  shows "best = Some (j, x) \<or>
    k \<le> j \<and> j < k + length vs \<and> v_value (vs ! (j - k)) = x \<and> x \<noteq> 0 \<and> \<not> skip (v_rdr (vs ! (j - k)))"
  using assms
proof (induction vs arbitrary: k best)
  case Nil then show ?case by simp
next
  case (Cons v vs)
  let ?c = "\<not> skip (v_rdr v) \<and> v_value v \<noteq> 0 \<and> (case best of None \<Rightarrow> True | Some (_, b) \<Rightarrow> v_value v < b)"
  let ?best = "if ?c then Some (k, v_value v) else best"
  from Cons.prems have "pick_loop skip vs (k + 1) ?best = Some (j, x)" by simp
  from Cons.IH [OF this]
  have "?best = Some (j, x) \<or> k + 1 \<le> j \<and> j < k + 1 + length vs \<and> v_value (vs ! (j - (k + 1))) = x \<and> x \<noteq> 0 \<and>
      \<not> skip (v_rdr (vs ! (j - (k + 1))))" by auto
  then show ?case
  proof
    assume "?best = Some (j, x)"
    then show ?thesis by (auto split: if_splits)
  next
    assume a: "k + 1 \<le> j \<and> j < k + 1 + length vs \<and> v_value (vs ! (j - (k + 1))) = x \<and> x \<noteq> 0 \<and>
      \<not> skip (v_rdr (vs ! (j - (k + 1))))"
    then have "(v # vs) ! (j - k) = vs ! (j - (k + 1))" by (simp add: nth_Cons')
    with a show ?thesis by simp
  qed
qed

lemma pick_loop_None0:
  "pick_loop skip vs 0 None = Some (j, x) \<Longrightarrow>
     j < length vs \<and> v_value (vs ! j) = x \<and> x \<noteq> 0 \<and> \<not> skip (v_rdr (vs ! j))"
  using pick_loop_Some [of skip vs 0 None j x] by simp

lemma filter_update_less:
  "k < length xs \<Longrightarrow> P (xs ! k) \<Longrightarrow> \<not> P y \<Longrightarrow>
     length (filter P (xs[k := y])) < length (filter P xs)"
proof (induction xs arbitrary: k)
  case (Cons x xs) then show ?case by (cases k) auto
qed simp

lemma choose_step_less: "choose_step clk tmo p = (True, p') \<Longrightarrow> open_values p' < open_values p"
  by (auto simp: choose_step_def open_values_def Let_def split: if_splits option.splits prod.splits
      dest!: pick_loop_None0 intro!: filter_update_less)

function choose_loop :: "(nat \<Rightarrow> timeb) \<Rightarrow> nat list \<Rightarrow> lb_pick \<Rightarrow> lb_pick" where
  "choose_loop clk tmo p =
     (if fst (choose_step clk tmo p) then choose_loop clk tmo (snd (choose_step clk tmo p))
      else snd (choose_step clk tmo p))"
  by pat_completeness auto
termination
  by (relation "measure (\<lambda>(clk, tmo, p). open_values p)") (auto intro!: choose_step_less simp: prod_eq_iff)

declare choose_loop.simps [simp del]

section \<open>Reopening\<close>

record lb_open =
  o_w :: lb_world
  o_result :: "rnode list"
  o_next :: nat
  o_nreaders :: int
  o_n :: nat

text \<open>No best reader: take every reader back that once decoded and has waited long enough.\<close>

definition reopen_valid ::
  "lb_config \<Rightarrow> lb_request \<Rightarrow> u32 \<Rightarrow> nat \<Rightarrow> lb_open \<Rightarrow> lb_open option" where
  "reopen_valid cfg er prid i p = do {
     (w, rdr, k) \<leftarrow> w_get_stat cfg (o_w p) i (er_caid er) prid (er_srvid er) (er_l er);
     (case k of
        None \<Rightarrow> Some (p\<lparr>o_w := w\<rparr>)
      | Some k \<Rightarrow> do {
          s \<leftarrow> stat_at rdr k;
          if 0 < ecm_count s then do {
            (secs, s') \<leftarrow> get_reopen_seconds cfg s;
            rdr' \<leftarrow> upd_stat k (\<lambda>_. s') rdr;
            let p' = p\<lparr>o_w := put_reader i rdr' w\<rparr>;
            Some (if last_received s' + secs < now w then
                    (if i \<notin> snd ` set (o_result p) \<and> o_nreaders p \<noteq> 0
                     then p'\<lparr>o_result := o_result p @ [(o_next p, i)], o_next := o_next p + 1,
                             o_nreaders := o_nreaders p - 1, o_n := o_n p + 1\<rparr>
                     else p'\<lparr>o_n := o_n p + 1\<rparr>)
                  else p') }
          else Some (p\<lparr>o_w := w\<rparr>) }) }"

fun reopen_valid_loop ::
  "lb_config \<Rightarrow> lb_request \<Rightarrow> u32 \<Rightarrow> rnode list \<Rightarrow> lb_open \<Rightarrow> lb_open option" where
  "reopen_valid_loop cfg er prid [] p = Some p"
| "reopen_valid_loop cfg er prid ((node, i) # ns) p =
     do { p' \<leftarrow> reopen_valid cfg er prid i p; reopen_valid_loop cfg er prid ns p' }"

text \<open>Try a blocked reader again: it moves to the front of the result.\<close>

definition reopen_blocked ::
  "lb_config \<Rightarrow> lb_request \<Rightarrow> u32 \<Rightarrow> nat \<Rightarrow> lb_open \<Rightarrow> lb_open option" where
  "reopen_blocked cfg er prid i p = do {
     (w, rdr, k) \<leftarrow> w_get_stat cfg (o_w p) i (er_caid er) prid (er_srvid er) (er_l er);
     (case k of
        None \<Rightarrow> Some (p\<lparr>o_w := w\<rparr>)
      | Some k \<Rightarrow> do {
          s \<leftarrow> stat_at rdr k;
          if st_rc s = 0 then Some (p\<lparr>o_w := w\<rparr>)
          else do {
            (due, s') \<leftarrow> (if lb_reopen_mode cfg then Some (True, s)
                         else do { (secs, s') \<leftarrow> get_reopen_seconds cfg s;
                                   Some (last_received s' + secs < now w, s') });
            rdr' \<leftarrow> upd_stat k (\<lambda>_. if due then s'\<lparr>last_received := now w\<rparr> else s') rdr;
            let p' = p\<lparr>o_w := put_reader i rdr' w\<rparr>;
            let rest = filter (\<lambda>(node, r). r \<noteq> i) (o_result p);
            Some (if due
                  then p'\<lparr>o_result := (o_next p, i) # rest, o_next := o_next p + 1,
                          o_nreaders := o_nreaders p + int (length (o_result p)) - int (length rest) - 1\<rparr>
                  else p') } }) }"

fun reopen_blocked_loop ::
  "lb_config \<Rightarrow> lb_request \<Rightarrow> u32 \<Rightarrow> rnode list \<Rightarrow> lb_open \<Rightarrow> lb_open option" where
  "reopen_blocked_loop cfg er prid [] p = Some p"
| "reopen_blocked_loop cfg er prid ((node, i) # ns) p =
     (if o_nreaders p = 0 then Some p
      else do { p' \<leftarrow> reopen_blocked cfg er prid i p; reopen_blocked_loop cfg er prid ns p' })"

definition reopen_readers ::
  "lb_config \<Rightarrow> lb_request \<Rightarrow> u32 \<Rightarrow> int \<Rightarrow> bool \<Rightarrow> lb_pick \<Rightarrow> lb_open option" where
  "reopen_readers cfg er prid retrylimit new_stats p =
     (let o0 = \<lparr>o_w = p_w p, o_result = p_result p, o_next = p_next p, o_nreaders = p_nreaders p, o_n = p_n p\<rparr> in
      if new_stats \<or> length (matching_rdr er) \<le> length (p_result p) then Some o0
      else do {
        o1 \<leftarrow> (if p_n p = 0 then reopen_valid_loop cfg er prid (matching_rdr er) o0 else Some o0);
        if (case p_best p of None \<Rightarrow> True | Some (_, t) \<Rightarrow> t \<noteq> 0 \<and> retrylimit < t)
        then reopen_blocked_loop cfg er prid (matching_rdr er) o1 else Some o1 })"

section \<open>The best readers\<close>

definition pick_start :: "lb_config \<Rightarrow> lb_request \<Rightarrow> lb_sel \<Rightarrow> lb_pick" where
  "pick_start cfg er st =
     (let nbest = get_nbest_readers cfg er; few = s_nlocal st \<le> nbest in
      \<lparr>p_w = s_w st, p_selected = s_selected st,
       p_nlocal = (if few then s_nlocal st else nbest), p_nbest = (if few then nbest - s_nlocal st else 0),
       p_nfb = lb_nfb_readers cfg, p_nreaders = s_nreaders st, p_result = s_result st, p_next = s_next st,
       p_fallback = None, p_best = None, p_n = 0\<rparr>)"

definition lb_rank ::
  "lb_config \<Rightarrow> (nat \<Rightarrow> timeb) \<Rightarrow> (lb_reader \<Rightarrow> bool) option \<Rightarrow> bool \<Rightarrow> nat \<Rightarrow> lb_world \<Rightarrow> lb_request \<Rightarrow> u32 \<Rightarrow>
   (lb_world \<times> lb_request) option" where
  "lb_rank cfg clk avail mem fresh w er prid = do {
     st \<leftarrow> consider_loop cfg avail mem er prid (get_retrylimit cfg er) (matching_rdr er)
            \<lparr>s_w = w, s_result = [], s_selected = [], s_timeouts = [], s_new_stats = False, s_nlocal = 0,
             s_null = \<lparr>tb_time = 0, tb_millitm = 0\<rparr>,
             s_nreaders = (if lb_max_readers cfg = 0 then -1 else lb_max_readers cfg), s_next = fresh\<rparr>;
     let p = choose_loop clk (s_timeouts st) (pick_start cfg er st);
     o1 \<leftarrow> reopen_readers cfg er prid (get_retrylimit cfg er) (s_new_stats st) p;
     Some ((o_w o1)\<lparr>nulltime := if tb_time (s_null st) \<noteq> 0 then s_null st else nulltime (o_w o1)\<rparr>,
           er\<lparr>matching_rdr := o_result o1, fallback := p_fallback p\<rparr>) }"

definition lb_run ::
  "lb_config \<Rightarrow> (u8 list \<Rightarrow> u8 list) \<Rightarrow> (nat \<Rightarrow> timeb) \<Rightarrow> (lb_reader \<Rightarrow> bool) option \<Rightarrow> bool \<Rightarrow> nat \<Rightarrow>
   lb_world \<Rightarrow> lb_request \<Rightarrow> (bool \<times> lb_world \<times> lb_request) option" where
  "lb_run cfg MD5 clk avail mem fresh w er = do {
     let prid = get_prid cfg (er_caid er) (er_prid er);
     (w1, er1) \<leftarrow> beta_decide cfg MD5 w er prid;
     (w2, er2) \<leftarrow> lb_rank cfg clk avail mem fresh w1 er1 prid;
     Some (True, w2, er2) }"

definition get_best_reader ::
  "lb_config \<Rightarrow> (u8 list \<Rightarrow> u8 list) \<Rightarrow> (nat \<Rightarrow> timeb) \<Rightarrow> (lb_reader \<Rightarrow> bool) option \<Rightarrow> bool \<Rightarrow> nat \<Rightarrow>
   lb_world \<Rightarrow> lb_request \<Rightarrow> (bool \<times> lb_world \<times> lb_request) option" where
  "get_best_reader cfg MD5 clk avail mem fresh w er =
     (if lb_mode cfg = 0 \<or> lb_mode cfg = 10 then Some (False, w, er)
      else case (if cc_forward_origin_card cfg then origin_reader er else None) of
        Some r \<Rightarrow>
          if r \<in> snd ` set (matching_rdr er) then Some (True, w, er\<lparr>matching_rdr := [(fresh, r)]\<rparr>)
          else lb_run cfg MD5 clk avail mem fresh w er
      | None \<Rightarrow> lb_run cfg MD5 clk avail mem fresh w er)"

section \<open>What stays as it is\<close>

text \<open>The statistics change, the readers and the list of active readers do not.\<close>

named_theorems shape_simps "what the statistics operations keep of a reader"

definition reader_key :: "lb_reader \<Rightarrow> s_client option \<times> int \<times> ftab" where
  "reader_key r = (rdr_client r, rdr_typ r, rdr_ftab r)"

definition same_shape :: "lb_world \<Rightarrow> lb_world \<Rightarrow> bool" where
  "same_shape w w' \<longleftrightarrow> map reader_key (readers w') = map reader_key (readers w) \<and>
     active w' = active w \<and> now w' = now w"

lemma same_shape_refl [simp]: "same_shape w w"
  by (simp add: same_shape_def)

lemma same_shape_trans [trans]: "same_shape a b \<Longrightarrow> same_shape b c \<Longrightarrow> same_shape a c"
  by (simp add: same_shape_def)

lemma same_shape_length: "same_shape w w' \<Longrightarrow> length (readers w') = length (readers w)"
  unfolding same_shape_def by (metis length_map)

lemma same_shape_nth:
  assumes "same_shape w w'" "i < length (readers w)"
  shows "reader_key (readers w' ! i) = reader_key (readers w ! i)"
proof -
  from assms(1) have "map reader_key (readers w') ! i = map reader_key (readers w) ! i"
    by (simp add: same_shape_def)
  then show ?thesis using assms same_shape_length [OF assms(1)] by simp
qed

lemma same_shape_put:
  "i < length (readers w) \<Longrightarrow> reader_key r = reader_key (readers w ! i) \<Longrightarrow> same_shape w (put_reader i r w)"
  by (simp add: same_shape_def put_reader_def map_update list_update_same_conv)

lemma reader_key_lb_stat [shape_simps, simp]: "reader_key (r\<lparr>lb_stat := l\<rparr>) = reader_key r"
  by (simp add: reader_key_def)

lemma reader_key_lb_last [shape_simps, simp]: "reader_key (r\<lparr>lb_last := t\<rparr>) = reader_key r"
  by (simp add: reader_key_def)

lemma get_stat_key [simp]: "reader_key (fst (get_stat cfg r c p s l)) = reader_key r"
  by (auto simp: get_stat_def Let_def split: option.splits prod.splits)

lemma upd_stat_key: "upd_stat k f r = Some r' \<Longrightarrow> reader_key r' = reader_key r"
  by (auto simp: upd_stat_def split: bind_splits)

lemma w_get_stat_ok:
  assumes "i < length (readers w)"
  obtains w' r k where "w_get_stat cfg w i c p s n = Some (w', r, k)" "same_shape w w'"
    "i < length (readers w')" "readers w' ! i = r" "reader_key r = reader_key (readers w ! i)"
    "get_stat cfg (readers w ! i) c p s n = (r, k)"
proof -
  obtain r k where g: "get_stat cfg (readers w ! i) c p s n = (r, k)"
    by (cases "get_stat cfg (readers w ! i) c p s n")
  have key: "reader_key r = reader_key (readers w ! i)"
    using get_stat_key [of cfg "readers w ! i" c p s n] g by simp
  show thesis
    by (rule that [of "put_reader i r w" r k])
      (use assms g key same_shape_put [OF assms, of r] in \<open>simp_all add: w_get_stat_def put_reader_def\<close>)
qed

lemma put_reader_shape:
  "same_shape w w1 \<Longrightarrow> i < length (readers w1) \<Longrightarrow> reader_key r = reader_key (readers w1 ! i) \<Longrightarrow>
     same_shape w (put_reader i r w1)"
  using same_shape_put same_shape_trans by blast

lemma add_stat_start:
  "i < length (readers w) \<Longrightarrow> add_stat cfg mem w er i 1 (-1) = Some w"
  by (simp add: add_stat_def late_rc_def Let_def split: option.splits)

lemma reset_loop_ok:
  "\<forall>i \<in> set is. i < length (readers w) \<Longrightarrow>
     \<exists>w'. reset_loop cfg c p s n is w = Some w' \<and> same_shape w w'"
proof (induction "is" arbitrary: w)
  case Nil then show ?case by simp
next
  case (Cons i "is")
  let ?r = "readers w ! i"
  obtain r k where g: "get_stat cfg ?r c p s n = (r, k)" by (cases "get_stat cfg ?r c p s n")
  have key: "reader_key r = reader_key ?r" using get_stat_key [of cfg ?r c p s n] g by simp
  have step: "\<exists>r'. (if lb_stat ?r \<noteq> None \<and> rdr_client ?r \<noteq> None then
            (case get_stat cfg ?r c p s n of
               (r, None) \<Rightarrow> Some r
             | (r, Some k) \<Rightarrow>
                 upd_stat k (\<lambda>s. s\<lparr>ecm_count := if 0 < ecm_count s then 1 else ecm_count s,
                                   st_rc := 0, fail_factor := 0\<rparr>) r)
          else Some ?r) = Some r' \<and> reader_key r' = reader_key ?r"
  proof (cases k)
    case None then show ?thesis using g key by simp
  next
    case (Some k')
    from get_stat_at(2) [OF g [unfolded Some]] obtain r'' where
      u: "upd_stat k' (\<lambda>s. s\<lparr>ecm_count := if 0 < ecm_count s then 1 else ecm_count s, st_rc := 0, fail_factor := 0\<rparr>) r
        = Some r''" by blast
    with Some g key upd_stat_key [OF u] show ?thesis by simp
  qed
  then obtain r' where r': "(if lb_stat ?r \<noteq> None \<and> rdr_client ?r \<noteq> None then
            (case get_stat cfg ?r c p s n of
               (r, None) \<Rightarrow> Some r
             | (r, Some k) \<Rightarrow>
                 upd_stat k (\<lambda>s. s\<lparr>ecm_count := if 0 < ecm_count s then 1 else ecm_count s,
                                   st_rc := 0, fail_factor := 0\<rparr>) r)
          else Some ?r) = Some r'" "reader_key r' = reader_key ?r" by blast
  have sh: "same_shape w (put_reader i r' w)" using Cons.prems r'(2) by (simp add: same_shape_put)
  have "\<forall>j \<in> set is. j < length (readers (put_reader i r' w))"
    using Cons.prems same_shape_length [OF sh] by simp
  from Cons.IH [OF this] obtain w' where
    "reset_loop cfg c p s n is (put_reader i r' w) = Some w'" "same_shape (put_reader i r' w) w'" by blast
  with sh r'(1) Cons.prems show ?case by (auto intro: same_shape_trans)
qed

section \<open>Ranking loses and invents no reader\<close>

definition content :: "lb_sel \<Rightarrow> nat multiset" where
  "content st = mset (map snd (s_result st)) + mset (map v_rdr (s_selected st))"

definition sel_ok :: "lb_world \<Rightarrow> nat list \<Rightarrow> lb_sel \<Rightarrow> bool" where
  "sel_ok w is st \<longleftrightarrow> same_shape w (s_w st) \<and> content st \<subseteq># mset is \<and> (\<forall>v \<in> set (s_selected st). 0 < v_value v)"

text \<open>The readers of a request exist and have a client, and so do the active ones.\<close>

definition lb_ok :: "lb_config \<Rightarrow> lb_world \<Rightarrow> nat list \<Rightarrow> bool" where
  "lb_ok cfg w is \<longleftrightarrow>
     (\<forall>i \<in> set is. i < length (readers w) \<and> rdr_client (readers w ! i) \<noteq> None) \<and>
     (\<forall>i \<in> set (active w). i < length (readers w)) \<and>
     length (sidtabs cfg) \<le> 64 \<and> lb_reopen_seconds cfg \<noteq> 0"

lemma adjust_value_pos: "0 < adjust_value avail cl r v"
  by (simp add: adjust_value_def Let_def)

lemma load_value_key:
  "load_value cfg null nn s r = Some (v, r', nn') \<Longrightarrow> reader_key r' = reader_key r"
  by (auto simp: load_value_def Let_def split: if_splits)

lemma sel_append_simps [simp]:
  "s_w (sel_append i st) = s_w st" "s_selected (sel_append i st) = s_selected st"
  "content (sel_append i st) = add_mset i (content st)"
  by (simp_all add: sel_append_def content_def)

lemma content_simps [simp]:
  "content (st\<lparr>s_w := w\<rparr>) = content st" "content (st\<lparr>s_new_stats := b\<rparr>) = content st"
  "content (st\<lparr>s_nlocal := n\<rparr>) = content st" "content (st\<lparr>s_timeouts := t\<rparr>) = content st"
  by (simp_all add: content_def)

lemma sel_ok_append: "sel_ok w is st \<Longrightarrow> sel_ok w (is @ [i]) (sel_append i st)"
  by (simp add: sel_ok_def)

lemma sel_ok_skip: "sel_ok w is st \<Longrightarrow> sel_ok w (is @ [i]) st"
  by (auto simp: sel_ok_def intro: subset_mset.order_trans)

lemma sel_ok_world: "sel_ok w is st \<Longrightarrow> same_shape w w' \<Longrightarrow> sel_ok w is (st\<lparr>s_w := w'\<rparr>)"
  by (simp add: sel_ok_def)

lemma sel_ok_upd [simp]:
  "sel_ok w is (st\<lparr>s_new_stats := b\<rparr>) = sel_ok w is st"
  "sel_ok w is (st\<lparr>s_nlocal := n\<rparr>) = sel_ok w is st"
  "sel_ok w is (st\<lparr>s_timeouts := t\<rparr>) = sel_ok w is st"
  by (simp_all add: sel_ok_def)

lemma rank_reader_ok:
  assumes "sel_ok w is st" "i < length (readers (s_w st))" "reader_key rdr = reader_key (readers (s_w st) ! i)"
  shows "sel_ok w (is @ [i]) (rank_reader cfg avail cl s rdr i st)"
proof (cases "load_value cfg (nulltime (s_w st)) (s_null st) s rdr")
  case None
  then show ?thesis using assms(1) by (simp add: rank_reader_def Let_def sel_ok_append)
next
  case (Some x)
  obtain v r' n where x: "x = (v, r', n)" by (cases x)
  have "reader_key r' = reader_key (readers (s_w st) ! i)"
    using load_value_key [OF Some [unfolded x]] assms(3) by simp
  then have "same_shape w (put_reader i r' (s_w st))"
    using assms(1,2) put_reader_shape by (auto simp: sel_ok_def)
  moreover have "add_mset i (content st) \<subseteq># add_mset i (mset is)" using assms(1) by (simp add: sel_ok_def)
  ultimately show ?thesis using assms(1) Some x
    by (auto simp: rank_reader_def Let_def sel_ok_def content_def adjust_value_pos)
qed

lemma consider_reader_ok:
  assumes "sel_ok w is st" "lb_ok cfg w js" "i \<in> set js"
  shows "\<exists>st'. consider_reader cfg avail mem er prid lim i st = Some st' \<and> sel_ok w (is @ [i]) st'"
proof -
  have sh0: "same_shape w (s_w st)" using assms(1) by (simp add: sel_ok_def)
  have i: "i < length (readers w)" "rdr_client (readers w ! i) \<noteq> None" "length (sidtabs cfg) \<le> 64"
    using assms(2,3) by (auto simp: lb_ok_def)
  then have i0: "i < length (readers (s_w st))" using same_shape_length [OF sh0] by simp
  obtain w1 r k where g: "w_get_stat cfg (s_w st) i (er_caid er) prid (er_srvid er) (er_l er) = Some (w1, r, k)"
    "same_shape (s_w st) w1" "i < length (readers w1)" "readers w1 ! i = r"
    "reader_key r = reader_key (readers (s_w st) ! i)"
    "get_stat cfg (readers (s_w st) ! i) (er_caid er) prid (er_srvid er) (er_l er) = (r, k)"
    by (rule w_get_stat_ok [OF i0])
  have sh1: "same_shape w w1" using same_shape_trans [OF sh0 g(2)] .
  have ok1: "sel_ok w is (st\<lparr>s_w := w1\<rparr>)" using sel_ok_world [OF assms(1) sh1] .
  have client: "rdr_client r \<noteq> None"
    using g(5) same_shape_nth [OF sh0 i(1)] i(2) by (simp add: reader_key_def)
  show ?thesis
  proof (cases k)
    case None
    have "consider_reader cfg avail mem er prid lim i st = Some ((sel_append i (st\<lparr>s_w := w1\<rparr>))\<lparr>s_new_stats := True\<rparr>)"
      using g None by (simp add: consider_reader_def add_stat_start Let_def)
    then show ?thesis using sel_ok_append [OF ok1, of i] by simp
  next
    case (Some k')
    obtain s where s: "stat_at r k' = Some s" using get_stat_at(1) [OF g(6) [unfolded Some]] by blast
    show ?thesis
    proof (cases "needs_reset cfg lim s")
      case True
      have "\<forall>j \<in> set (active w1). j < length (readers w1)"
        using assms(2) sh1 same_shape_length [OF sh1] by (simp add: lb_ok_def same_shape_def)
      from reset_loop_ok [OF this] obtain w2 where
        w2: "reset_stat cfg (er_caid er) prid (er_srvid er) (er_l er) w1 = Some w2" "same_shape w1 w2"
        unfolding reset_stat_def by blast
      have "consider_reader cfg avail mem er prid lim i st = Some (sel_append i (st\<lparr>s_w := w2\<rparr>))"
        using g Some s True w2 by (simp add: consider_reader_def Let_def)
      then show ?thesis
        using sel_ok_append [OF sel_ok_world [OF assms(1) same_shape_trans [OF sh1 w2(2)]], of i] by simp
    next
      case False
      obtain cl where cl: "rdr_client r = Some cl" using client by blast
      have st1: "s_w (st\<lparr>s_w := w1\<rparr>) = w1" by simp
      have rk: "sel_ok w (is @ [i]) (rank_reader cfg avail cl s r i (st\<lparr>s_w := w1\<rparr>))"
        by (rule rank_reader_ok [OF ok1]) (use g(3,4) in simp_all)
      obtain h where "has_srvid (sidtabs cfg) cl er = Some h"
        using has_srvid_eq [OF i(3)] by blast
      then have "\<exists>st'. consider_reader cfg avail mem er prid lim i st = Some st' \<and>
          (st' = (sel_append i (st\<lparr>s_w := w1\<rparr>))\<lparr>s_new_stats := True\<rparr> \<or>
           st' = rank_reader cfg avail cl s r i (st\<lparr>s_w := w1\<rparr>) \<or> st' = st\<lparr>s_w := w1\<rparr>)"
        using g(1) Some s False cl by (simp add: consider_reader_def Let_def)
      then show ?thesis using rk sel_ok_append [OF ok1, of i] sel_ok_skip [OF ok1, of i] by auto
    qed
  qed
qed

lemma consider_loop_ok:
  "sel_ok w is st \<Longrightarrow> lb_ok cfg w js \<Longrightarrow> snd ` set ns \<subseteq> set js \<Longrightarrow>
   \<exists>st'. consider_loop cfg avail mem er prid lim ns st = Some st' \<and> sel_ok w (is @ map snd ns) st'"
proof (induction ns arbitrary: "is" st)
  case Nil then show ?case by simp
next
  case (Cons x ns)
  obtain node i where x: "x = (node, i)" by (cases x)
  show ?case
  proof (cases "s_nreaders st = 0")
    case True
    have "mset is \<subseteq># mset (is @ map snd (x # ns))" by simp
    then have "sel_ok w (is @ map snd (x # ns)) st" using Cons.prems(1)
      unfolding sel_ok_def by (meson subset_mset.order_trans)
    with True x show ?thesis by auto
  next
    case False
    obtain st1 where s: "consider_reader cfg avail mem er prid lim i st = Some st1" "sel_ok w (is @ [i]) st1"
      using consider_reader_ok [OF Cons.prems(1,2)] Cons.prems(3) x by fastforce
    from Cons.IH [OF s(2) Cons.prems(2)] Cons.prems(3) s(1) False x show ?thesis by auto
  qed
qed

section \<open>The choice and the reopening keep the readers\<close>

definition pick_ok :: "lb_world \<Rightarrow> nat list \<Rightarrow> lb_pick \<Rightarrow> bool" where
  "pick_ok w is p \<longleftrightarrow> same_shape w (p_w p) \<and>
     mset (map snd (p_result p)) + mset (map v_rdr (filter (\<lambda>v. v_value v \<noteq> 0) (p_selected p))) \<subseteq># mset is"

lemma filter_update_mset:
  "k < length xs \<Longrightarrow> P (xs ! k) \<Longrightarrow> \<not> P y \<Longrightarrow>
     add_mset (xs ! k) (mset (filter P (xs[k := y]))) = mset (filter P xs)"
proof (induction xs arbitrary: k)
  case (Cons x xs) then show ?case by (cases k) (auto simp: add_mset_commute)
qed simp

lemma set_last_shape: "same_shape w w1 \<Longrightarrow> same_shape w (set_last t i w1)"
  by (auto simp: set_last_def buf_simps put_reader_shape split: option.splits)

lemma pick_taken:
  assumes "pick_ok w is p" "pick_loop skip (p_selected p) 0 None = Some (k, x)"
  defines "v \<equiv> p_selected p ! k"
  shows "mset (map snd (p_result p)) + add_mset (v_rdr v)
           (mset (map v_rdr (filter (\<lambda>v. v_value v \<noteq> 0) ((p_selected p)[k := v\<lparr>v_value := 0\<rparr>])))) \<subseteq># mset is"
proof -
  have k: "k < length (p_selected p)" "v_value v \<noteq> 0"
    using pick_loop_None0 [OF assms(2)] by (auto simp: v_def)
  have "add_mset v (mset (filter (\<lambda>v. v_value v \<noteq> 0) ((p_selected p)[k := v\<lparr>v_value := 0\<rparr>]))) =
      mset (filter (\<lambda>v. v_value v \<noteq> 0) (p_selected p))"
    using filter_update_mset [of k "p_selected p" "\<lambda>v. v_value v \<noteq> 0" "v\<lparr>v_value := 0\<rparr>"] k by (simp add: v_def)
  from arg_cong [OF this, of "image_mset v_rdr"] assms(1) show ?thesis
    by (simp add: pick_ok_def)
qed

lemma choose_step_ok:
  assumes "pick_ok w is p"
  shows "pick_ok w is (snd (choose_step clk tmo p))"
proof (cases "pick_loop (\<lambda>i. p_nlocal p \<noteq> 0 \<and> is_network (p_w p) i) (p_selected p) 0 None")
  case None then show ?thesis using assms by (simp add: choose_step_def)
next
  case (Some kx)
  obtain k x where kx: "kx = (k, x)" by (cases kx)
  let ?M = "mset (map v_rdr (filter (\<lambda>v. v_value v \<noteq> 0)
      ((p_selected p)[k := (p_selected p ! k)\<lparr>v_value := 0\<rparr>])))"
  have taken: "mset (map snd (p_result p)) + add_mset (v_rdr (p_selected p ! k)) ?M \<subseteq># mset is"
    using pick_taken [OF assms Some [unfolded kx]] .
  have part: "mset (map snd (p_result p)) + ?M \<subseteq># mset is"
    by (rule subset_mset.order_trans [OF _ taken]) simp
  have "same_shape w (p_w p)" using assms by (simp add: pick_ok_def)
  then show ?thesis
    using Some kx taken part assms by (simp add: choose_step_def Let_def pick_ok_def set_last_shape)
qed

lemma choose_loop_ok: "pick_ok w is p \<Longrightarrow> pick_ok w is (choose_loop clk tmo p)"
proof (induction clk tmo p rule: choose_loop.induct)
  case (1 clk tmo p)
  have "pick_ok w is (snd (choose_step clk tmo p))" using choose_step_ok [OF "1.prems"] .
  with "1.IH" show ?case by (subst choose_loop.simps) simp
qed

definition open_ok :: "lb_world \<Rightarrow> nat list \<Rightarrow> lb_open \<Rightarrow> bool" where
  "open_ok w is p \<longleftrightarrow> same_shape w (o_w p) \<and> snd ` set (o_result p) \<subseteq> set is \<and>
     (distinct is \<longrightarrow> distinct (map snd (o_result p)))"

lemma get_reopen_total: "lb_reopen_seconds cfg \<noteq> 0 \<Longrightarrow> \<exists>secs s'. get_reopen_seconds cfg s = Some (secs, s')"
  by (simp add: get_reopen_seconds_def Let_def)

lemma reopen_valid_ok:
  assumes "open_ok w is p" "lb_ok cfg w is" "i \<in> set is"
  shows "\<exists>p'. reopen_valid cfg er prid i p = Some p' \<and> open_ok w is p'"
proof -
  have sh0: "same_shape w (o_w p)" using assms(1) by (simp add: open_ok_def)
  have i0: "i < length (readers (o_w p))"
    using assms(2,3) same_shape_length [OF sh0] by (auto simp: lb_ok_def)
  obtain w1 r k where g: "w_get_stat cfg (o_w p) i (er_caid er) prid (er_srvid er) (er_l er) = Some (w1, r, k)"
    "same_shape (o_w p) w1" "i < length (readers w1)" "readers w1 ! i = r"
    "reader_key r = reader_key (readers (o_w p) ! i)"
    "get_stat cfg (readers (o_w p) ! i) (er_caid er) prid (er_srvid er) (er_l er) = (r, k)"
    by (rule w_get_stat_ok [OF i0])
  have sh1: "same_shape w w1" using same_shape_trans [OF sh0 g(2)] .
  show ?thesis
  proof (cases k)
    case None then show ?thesis using g(1) sh1 assms(1) by (simp add: reopen_valid_def open_ok_def)
  next
    case (Some k')
    obtain s where s: "stat_at r k' = Some s" using get_stat_at(1) [OF g(6) [unfolded Some]] by blast
    obtain secs s' where q: "get_reopen_seconds cfg s = Some (secs, s')"
      using get_reopen_total [of cfg s] assms(2) unfolding lb_ok_def by blast
    obtain r2 where u: "upd_stat k' (\<lambda>_. s') r = Some r2"
      using get_stat_at(2) [OF g(6) [unfolded Some]] by blast
    have "same_shape w (put_reader i r2 w1)"
      using put_reader_shape [OF sh1 g(3)] upd_stat_key [OF u] g(4) by simp
    then show ?thesis
      using Some g(1) s q u sh1 assms(1,3) by (simp add: reopen_valid_def Let_def open_ok_def)
  qed
qed

lemma reopen_valid_loop_ok:
  "open_ok w is p \<Longrightarrow> lb_ok cfg w is \<Longrightarrow> snd ` set ns \<subseteq> set is \<Longrightarrow>
     \<exists>p'. reopen_valid_loop cfg er prid ns p = Some p' \<and> open_ok w is p'"
proof (induction ns arbitrary: p)
  case (Cons x ns)
  obtain node i where x: "x = (node, i)" by (cases x)
  obtain p1 where s: "reopen_valid cfg er prid i p = Some p1" "open_ok w is p1"
    using reopen_valid_ok [OF Cons.prems(1,2)] Cons.prems(3) x by fastforce
  from Cons.IH [OF s(2) Cons.prems(2)] Cons.prems(3) s(1) x show ?case by auto
qed simp

lemma reopen_blocked_ok:
  assumes "open_ok w is p" "lb_ok cfg w is" "i \<in> set is"
  shows "\<exists>p'. reopen_blocked cfg er prid i p = Some p' \<and> open_ok w is p'"
proof -
  have sh0: "same_shape w (o_w p)" using assms(1) by (simp add: open_ok_def)
  have i0: "i < length (readers (o_w p))"
    using assms(2,3) same_shape_length [OF sh0] by (auto simp: lb_ok_def)
  obtain w1 r k where g: "w_get_stat cfg (o_w p) i (er_caid er) prid (er_srvid er) (er_l er) = Some (w1, r, k)"
    "same_shape (o_w p) w1" "i < length (readers w1)" "readers w1 ! i = r"
    "reader_key r = reader_key (readers (o_w p) ! i)"
    "get_stat cfg (readers (o_w p) ! i) (er_caid er) prid (er_srvid er) (er_l er) = (r, k)"
    by (rule w_get_stat_ok [OF i0])
  have sh1: "same_shape w w1" using same_shape_trans [OF sh0 g(2)] .
  show ?thesis
  proof (cases k)
    case None then show ?thesis using g(1) sh1 assms(1) by (simp add: reopen_blocked_def open_ok_def)
  next
    case (Some k')
    obtain s where s: "stat_at r k' = Some s" using get_stat_at(1) [OF g(6) [unfolded Some]] by blast
    obtain secs s1 where q: "get_reopen_seconds cfg s = Some (secs, s1)"
      using get_reopen_total [of cfg s] assms(2) unfolding lb_ok_def by blast
    define due where "due = (lb_reopen_mode cfg \<or> last_received s1 + secs < now w1)"
    define s' where "s' = (if lb_reopen_mode cfg then s else s1)"
    have e: "(if lb_reopen_mode cfg then Some (True, s)
              else do { (secs, s') \<leftarrow> get_reopen_seconds cfg s; Some (last_received s' + secs < now w1, s') })
            = Some (due, s')"
      using q by (simp add: due_def s'_def)
    obtain r2 where u: "upd_stat k' (\<lambda>_. if due then s'\<lparr>last_received := now w1\<rparr> else s') r = Some r2"
      using get_stat_at(2) [OF g(6) [unfolded Some]] by blast
    have sh2: "same_shape w (put_reader i r2 w1)"
      using put_reader_shape [OF sh1 g(3)] upd_stat_key [OF u] g(4) by simp
    have f: "distinct is \<Longrightarrow> distinct (map snd (filter (\<lambda>(node, r). r \<noteq> i) (o_result p)))"
      "i \<notin> snd ` set (filter (\<lambda>(node, r). r \<noteq> i) (o_result p))"
      "snd ` set (filter (\<lambda>(node, r). r \<noteq> i) (o_result p)) \<subseteq> set is"
      using assms(1) by (auto simp: open_ok_def distinct_map inj_on_def)
    show ?thesis
      using Some g(1) s e u sh1 sh2 assms(1,3) f
      by (simp add: reopen_blocked_def Let_def open_ok_def)
  qed
qed

lemma reopen_blocked_loop_ok:
  "open_ok w is p \<Longrightarrow> lb_ok cfg w is \<Longrightarrow> snd ` set ns \<subseteq> set is \<Longrightarrow>
     \<exists>p'. reopen_blocked_loop cfg er prid ns p = Some p' \<and> open_ok w is p'"
proof (induction ns arbitrary: p)
  case (Cons x ns)
  obtain node i where x: "x = (node, i)" by (cases x)
  obtain p1 where s: "reopen_blocked cfg er prid i p = Some p1" "open_ok w is p1"
    using reopen_blocked_ok [OF Cons.prems(1,2)] Cons.prems(3) x by fastforce
  from Cons.IH [OF s(2) Cons.prems(2)] Cons.prems s(1) x show ?case by auto
qed simp

section \<open>Putting the stages together\<close>

lemma subseteq_mset_distinct: "M \<subseteq># mset is \<Longrightarrow> mset xs = M \<Longrightarrow> set xs \<subseteq> set is \<and> (distinct is \<longrightarrow> distinct xs)"
  by (metis distinct_mset_sub set_mset_mono set_mset_mset)

lemma open_start:
  assumes "pick_ok w is p"
  shows "open_ok w is \<lparr>o_w = p_w p, o_result = p_result p, o_next = p_next p, o_nreaders = p_nreaders p, o_n = p_n p\<rparr>"
proof -
  have "mset (map snd (p_result p)) \<subseteq># mset is"
    using assms unfolding pick_ok_def by (metis mset_subset_eq_add_left subset_mset.order_trans)
  from subseteq_mset_distinct [OF this refl] assms show ?thesis by (simp add: open_ok_def pick_ok_def)
qed

lemma reopen_readers_ok:
  assumes "pick_ok w (map snd (matching_rdr er)) p" "lb_ok cfg w (map snd (matching_rdr er))"
  shows "\<exists>o1. reopen_readers cfg er prid lim new p = Some o1 \<and> open_ok w (map snd (matching_rdr er)) o1"
proof -
  let ?is = "map snd (matching_rdr er)"
  let ?o0 = "\<lparr>o_w = p_w p, o_result = p_result p, o_next = p_next p, o_nreaders = p_nreaders p, o_n = p_n p\<rparr>"
  have sub: "snd ` set (matching_rdr er) \<subseteq> set ?is" by simp
  note o0 = open_start [OF assms(1)]
  obtain o1 where o1: "(if p_n p = 0 then reopen_valid_loop cfg er prid (matching_rdr er) ?o0 else Some ?o0) = Some o1"
    "open_ok w ?is o1"
    using reopen_valid_loop_ok [OF o0 assms(2) sub] o0 by (cases "p_n p = 0") auto
  obtain o2 where o2: "reopen_blocked_loop cfg er prid (matching_rdr er) o1 = Some o2" "open_ok w ?is o2"
    using reopen_blocked_loop_ok [OF o1(2) assms(2) sub] by blast
  show ?thesis using o0 o1 o2 unfolding reopen_readers_def Let_def by auto
qed

lemma lb_ok_shape:
  assumes "lb_ok cfg w is" "same_shape w w'"
  shows "lb_ok cfg w' is"
proof -
  have l: "length (readers w') = length (readers w)" by (rule same_shape_length [OF assms(2)])
  have "rdr_client (readers w' ! i) = rdr_client (readers w ! i)" if "i < length (readers w)" for i
    using same_shape_nth [OF assms(2) that] by (simp add: reader_key_def)
  then show ?thesis using assms l by (auto simp: lb_ok_def same_shape_def)
qed

lemma lb_rank_ok:
  assumes "lb_ok cfg w (map snd (matching_rdr er))"
  shows "\<exists>w' er'. lb_rank cfg clk avail mem fresh w er prid = Some (w', er') \<and> same_shape w w' \<and>
     snd ` set (matching_rdr er') \<subseteq> snd ` set (matching_rdr er) \<and>
     (distinct (map snd (matching_rdr er)) \<longrightarrow> distinct (map snd (matching_rdr er')))"
proof -
  let ?is = "map snd (matching_rdr er)"
  let ?st0 = "\<lparr>s_w = w, s_result = [], s_selected = [], s_timeouts = [], s_new_stats = False, s_nlocal = 0,
             s_null = \<lparr>tb_time = 0, tb_millitm = 0\<rparr>,
             s_nreaders = (if lb_max_readers cfg = 0 then -1 else lb_max_readers cfg), s_next = fresh\<rparr>"
  have "sel_ok w [] ?st0" by (simp add: sel_ok_def content_def)
  from consider_loop_ok [OF this assms, of "matching_rdr er"] obtain st where
    st: "consider_loop cfg avail mem er prid (get_retrylimit cfg er) (matching_rdr er) ?st0 = Some st"
      "sel_ok w ?is st" by fastforce
  have "pick_ok w ?is (pick_start cfg er st)"
  proof -
    have "filter (\<lambda>v. v_value v \<noteq> 0) (s_selected st) = s_selected st"
      using st(2) by (intro filter_eq_self) (auto simp: sel_ok_def)
    then show ?thesis using st(2) by (simp add: pick_ok_def pick_start_def Let_def sel_ok_def content_def)
  qed
  from reopen_readers_ok [OF choose_loop_ok [OF this] assms] obtain o1 where
    o1: "reopen_readers cfg er prid (get_retrylimit cfg er) (s_new_stats st)
          (choose_loop clk (s_timeouts st) (pick_start cfg er st)) = Some o1" "open_ok w ?is o1" by blast
  show ?thesis
    using st(1) o1 by (simp add: lb_rank_def Let_def open_ok_def same_shape_def)
qed

lemma convert_to_beta_ok:
  "length (er_ecm er) = 512 \<Longrightarrow>
     \<exists>er'. convert_to_beta er c = Some er' \<and> matching_rdr er' = matching_rdr er \<and> length (er_ecm er') = 512"
proof -
  assume len: "length (er_ecm er) = 512"
  have b: "unat (er_ecm er ! 2) < 256" using unsigned_less [of "er_ecm er ! 2"] by simp
  then show ?thesis using len
    by (simp add: convert_to_beta_def Let_def memcpy_def headerN3_def headerN2_def)
qed

lemma beta_loop_ok:
  "lb_ok cfg w (map snd ns) \<Longrightarrow> same_shape w (b_w b) \<Longrightarrow>
     \<exists>b'. beta_loop cfg er prid c ns b = Some b' \<and> same_shape w (b_w b')"
proof (induction ns arbitrary: b)
  case (Cons x ns)
  obtain node i where x: "x = (node, i)" by (cases x)
  have i: "i < length (readers (b_w b))"
    using Cons.prems x same_shape_length [OF Cons.prems(2)] by (simp add: lb_ok_def)
  obtain w1 r1 k1 where g1: "w_get_stat cfg (b_w b) i (er_caid er) prid (er_srvid er) (er_l er) = Some (w1, r1, k1)"
    "same_shape (b_w b) w1" "i < length (readers w1)"
    "get_stat cfg (readers (b_w b) ! i) (er_caid er) prid (er_srvid er) (er_l er) = (r1, k1)"
    by (rule w_get_stat_ok [OF i])
  obtain w2 r2 k2 where g2: "w_get_stat cfg w1 i c prid (er_srvid er) (er_l er + 10) = Some (w2, r2, k2)"
    "same_shape w1 w2" "get_stat cfg (readers w1 ! i) c prid (er_srvid er) (er_l er + 10) = (r2, k2)"
    by (rule w_get_stat_ok [OF g1(3)])
  have t: "\<exists>t. beta_time r k t0 = Some t" if "get_stat cfg r0 a p s n = (r, k)" for r0 a p s n r k t0
    using get_stat_at(1) [of cfg r0 a p s n r] that by (cases k) (auto simp: beta_time_def Let_def)
  obtain tn where tn: "beta_time r1 k1 (time_nagra b) = Some tn" using t [OF g1(4)] by blast
  obtain tb where tb: "beta_time r2 k2 (time_beta b) = Some tb" using t [OF g2(3)] by blast
  have sh: "same_shape w w2" using Cons.prems(2) g1(2) g2(2) same_shape_trans by blast
  have ok: "lb_ok cfg w (map snd ns)" using Cons.prems(1) by (simp add: lb_ok_def)
  show ?case
    using Cons.IH [OF ok, of "\<lparr>b_w = w2, needs_nagra = (k1 = None), needs_beta = (k2 = None),
        time_nagra = tn, time_beta = tb\<rparr>"] Cons.prems(2) sh x g1(1) g2(1) tn tb by auto
qed simp

lemma beta_decide_ok:
  assumes "lb_ok cfg w (map snd (matching_rdr er))" "length (er_ecm er) = 512"
  shows "\<exists>w' er'. beta_decide cfg MD5 w er prid = Some (w', er') \<and> same_shape w w' \<and>
     matching_rdr er' = matching_rdr er"
proof (cases "lb_auto_betatunnel cfg \<and> drop_bit 8 (er_caid er) = 0x18 \<and> get_betatunnel_caid_to (er_caid er) \<noteq> 0")
  case True
  obtain b where b: "beta_loop cfg er prid (get_betatunnel_caid_to (er_caid er)) (matching_rdr er)
      \<lparr>b_w = w, needs_nagra = False, needs_beta = False, time_nagra = 0, time_beta = 0\<rparr> = Some b" "same_shape w (b_w b)"
    using beta_loop_ok [OF assms(1), of "\<lparr>b_w = w, needs_nagra = False, needs_beta = False,
      time_nagra = 0, time_beta = 0\<rparr>" er prid "get_betatunnel_caid_to (er_caid er)"] by auto
  obtain er1 where "convert_to_beta er (get_betatunnel_caid_to (er_caid er)) = Some er1"
    "matching_rdr er1 = matching_rdr er" using convert_to_beta_ok [OF assms(2)] by blast
  then show ?thesis using True b by (simp add: beta_decide_def Let_def convert_to_beta_int_def)
next
  case False then show ?thesis by (auto simp: beta_decide_def Let_def)
qed

lemma lb_run_ok:
  assumes "lb_ok cfg w (map snd (matching_rdr er))" "length (er_ecm er) = 512"
  shows "\<exists>w' er'. lb_run cfg MD5 clk avail mem fresh w er = Some (True, w', er') \<and> same_shape w w' \<and>
     snd ` set (matching_rdr er') \<subseteq> snd ` set (matching_rdr er) \<and>
     (distinct (map snd (matching_rdr er)) \<longrightarrow> distinct (map snd (matching_rdr er')))"
proof -
  let ?p = "get_prid cfg (er_caid er) (er_prid er)"
  obtain w1 er1 where b: "beta_decide cfg MD5 w er ?p = Some (w1, er1)" "same_shape w w1"
    "matching_rdr er1 = matching_rdr er" using beta_decide_ok [OF assms] by blast
  have "lb_ok cfg w1 (map snd (matching_rdr er1))" using lb_ok_shape [OF assms(1) b(2)] b(3) by simp
  from lb_rank_ok [OF this, of clk avail mem fresh ?p] b show ?thesis
    by (auto simp: lb_run_def Let_def intro: same_shape_trans)
qed

section \<open>The order of the choice\<close>

definition load_of :: "stat_value list \<Rightarrow> nat \<Rightarrow> int" where
  "load_of vs i = (case find (\<lambda>v. v_rdr v = i) vs of None \<Rightarrow> 0 | Some v \<Rightarrow> v_value v)"

lemma load_of_Cons: "load_of (v # vs) i = (if v_rdr v = i then v_value v else load_of vs i)"
  by (simp add: load_of_def)

lemma load_of_nth: "distinct (map v_rdr vs) \<Longrightarrow> k < length vs \<Longrightarrow> load_of vs (v_rdr (vs ! k)) = v_value (vs ! k)"
proof (induction vs arbitrary: k)
  case (Cons v vs)
  show ?case
  proof (cases k)
    case (Suc m)
    then have "vs ! m \<in> set vs" using Cons.prems by simp
    then have "v_rdr v \<noteq> v_rdr (vs ! m)" using Cons.prems(1) by auto
    then show ?thesis using Cons Suc by (simp add: load_of_Cons)
  qed (simp add: load_of_Cons)
qed simp

lemma load_of_in: "load_of vs i \<noteq> 0 \<Longrightarrow> \<exists>v \<in> set vs. v_rdr v = i \<and> v_value v = load_of vs i"
  by (induction vs) (auto simp: load_of_Cons, simp add: load_of_def)

lemma load_of_zeroed:
  "k < length vs \<Longrightarrow> distinct (map v_rdr vs) \<Longrightarrow>
     load_of (vs[k := (vs ! k)\<lparr>v_value := 0\<rparr>]) i = (if i = v_rdr (vs ! k) then 0 else load_of vs i)"
proof (induction vs arbitrary: k)
  case (Cons v vs) then show ?case by (cases k) (auto simp: load_of_Cons)
qed simp

lemma pick_loop_min:
  assumes "pick_loop skip vs k best = Some (j, x)"
  shows "(\<forall>v \<in> set vs. \<not> skip (v_rdr v) \<and> v_value v \<noteq> 0 \<longrightarrow> x \<le> v_value v) \<and>
    (\<forall>a b. best = Some (a, b) \<longrightarrow> x \<le> b)"
  using assms
proof (induction skip vs k best rule: pick_loop.induct)
  case (2 skip v vs k best)
  then show ?case by (fastforce split: if_splits option.splits)
qed simp

lemma pick_zero_min:
  assumes "pick_loop (\<lambda>_. False) vs 0 None = Some (k, x)" "distinct (map v_rdr vs)"
  shows "k < length vs" "x = load_of vs (v_rdr (vs ! k))" "x \<noteq> 0" "load_of vs i \<noteq> 0 \<Longrightarrow> x \<le> load_of vs i"
proof -
  from pick_loop_None0 [OF assms(1)] show k: "k < length vs" and x: "x \<noteq> 0"
    and "x = load_of vs (v_rdr (vs ! k))" using load_of_nth [OF assms(2)] by auto
  assume "load_of vs i \<noteq> 0"
  from load_of_in [OF this] obtain v where "v \<in> set vs" "v_value v = load_of vs i" by blast
  with pick_loop_min [OF assms(1)] \<open>load_of vs i \<noteq> 0\<close> show "x \<le> load_of vs i" by auto
qed

lemma choose_step_simps:
  assumes "choose_step clk tmo p = (True, p')" "p_nlocal p = 0"
  obtains k x where "pick_loop (\<lambda>_. False) (p_selected p) 0 None = Some (k, x)"
    "p_selected p' = (p_selected p)[k := (p_selected p ! k)\<lparr>v_value := 0\<rparr>]"
    "p_result p' = p_result p @ [(p_next p, v_rdr (p_selected p ! k))]" "p_nlocal p' = 0"
  using assms by (auto simp: choose_step_def Let_def split: if_splits option.splits)

lemma choose_step_result: "choose_step clk tmo p = (False, p') \<Longrightarrow> p_result p' = p_result p"
  by (auto simp: choose_step_def Let_def split: if_splits option.splits)

lemma map_v_rdr_zeroed: "map v_rdr (vs[k := (vs ! k)\<lparr>v_value := 0\<rparr>]) = map v_rdr vs"
  by (cases "k < length vs") (simp_all add: map_update list_update_same_conv list_update_beyond)

lemma choose_loop_sorted:
  "p_nlocal p = 0 \<Longrightarrow> distinct (map v_rdr (p_selected p)) \<Longrightarrow>
   \<exists>xs. p_result (choose_loop clk tmo p) = p_result p @ xs \<and>
     sorted (map (\<lambda>(node, i). load_of (p_selected p) i) xs) \<and> (\<forall>(node, i) \<in> set xs. load_of (p_selected p) i \<noteq> 0)"
proof (induction clk tmo p rule: choose_loop.induct)
  case (1 clk tmo p)
  obtain go p1 where st: "choose_step clk tmo p = (go, p1)" by (cases "choose_step clk tmo p")
  show ?case
  proof (cases go)
    case False
    then have "p_result (choose_loop clk tmo p) = p_result p"
      using st choose_step_result [of clk tmo p p1] by (subst choose_loop.simps) simp
    then show ?thesis by (intro exI [of _ "[]"]) simp
  next
    case True
    obtain k x where k: "pick_loop (\<lambda>_. False) (p_selected p) 0 None = Some (k, x)"
      "p_selected p1 = (p_selected p)[k := (p_selected p ! k)\<lparr>v_value := 0\<rparr>]"
      "p_result p1 = p_result p @ [(p_next p, v_rdr (p_selected p ! k))]" "p_nlocal p1 = 0"
      by (rule choose_step_simps [OF _ "1.prems"(1)]) (use st True in auto)
    note m = pick_zero_min [OF k(1) "1.prems"(2)]
    let ?i = "v_rdr (p_selected p ! k)"
    have d: "distinct (map v_rdr (p_selected p1))" using "1.prems"(2) k(2) map_v_rdr_zeroed by metis
    have go: "fst (choose_step clk tmo p)" "snd (choose_step clk tmo p) = p1" using st True by simp_all
    obtain xs where xs: "p_result (choose_loop clk tmo p1) = p_result p1 @ xs"
      "sorted (map (\<lambda>(node, i). load_of (p_selected p1) i) xs)"
      "\<forall>(node, i) \<in> set xs. load_of (p_selected p1) i \<noteq> 0"
      using "1.IH" [OF go(1)] k(4) d go(2) by auto
    have l: "load_of (p_selected p1) j = (if j = ?i then 0 else load_of (p_selected p) j)" for j
      using load_of_zeroed [OF m(1) "1.prems"(2)] k(2) by simp
    have same: "\<forall>(node, j) \<in> set xs. load_of (p_selected p1) j = load_of (p_selected p) j \<and> load_of (p_selected p) j \<noteq> 0"
      using xs(3) l by (auto split: if_splits)
    then have eq: "map (\<lambda>(node, j). load_of (p_selected p) j) xs = map (\<lambda>(node, j). load_of (p_selected p1) j) xs"
      by (intro map_cong) auto
    have "p_result (choose_loop clk tmo p) = p_result p @ (p_next p, ?i) # xs"
      using go xs(1) k(3) by (subst choose_loop.simps) simp
    moreover have "sorted (map (\<lambda>(node, j). load_of (p_selected p) j) ((p_next p, ?i) # xs))"
      using xs(2) same m(2,4) by (auto simp: eq [symmetric])
    ultimately show ?thesis using same m(2,3) by (intro exI [of _ "(p_next p, ?i) # xs"]) auto
  qed
qed

section \<open>Local readers that time out\<close>

lemma is_network_shape: "same_shape w w' \<Longrightarrow> is_network w' i = is_network w i"
proof -
  assume s: "same_shape w w'"
  show ?thesis
  proof (cases "i < length (readers w)")
    case True
    then have "rdr_typ (readers w' ! i) = rdr_typ (readers w ! i)"
      using same_shape_nth [OF s True] by (simp add: reader_key_def)
    then show ?thesis using True same_shape_length [OF s] by (simp add: is_network_def)
  next
    case False
    then show ?thesis using same_shape_length [OF s] by (simp add: is_network_def fetch_def)
  qed
qed

lemma choose_loop_local:
  assumes "p_nlocal p \<noteq> 0" "p_fallback p = None"
    and "\<forall>v \<in> set (p_selected p). is_network (p_w p) (v_rdr v) \<or> v_rdr v \<in> set tmo"
  shows "\<exists>xs. p_result (choose_loop clk tmo p) = p_result p @ xs \<and>
    (\<forall>(node, i) \<in> set xs. \<not> is_network (p_w p) i) \<and> p_fallback (choose_loop clk tmo p) = None"
  using assms
proof (induction clk tmo p rule: choose_loop.induct)
  case (1 clk tmo p)
  let ?skip = "\<lambda>i. p_nlocal p \<noteq> 0 \<and> is_network (p_w p) i"
  show ?case
  proof (cases "p_nreaders p = 0 \<or> pick_loop ?skip (p_selected p) 0 None = None")
    case True
    then have "choose_step clk tmo p = (False, p)" by (auto simp: choose_step_def)
    then show ?thesis using "1.prems" by (subst choose_loop.simps, subst (2) choose_loop.simps) simp
  next
    case False
    then obtain k x where k: "pick_loop ?skip (p_selected p) 0 None = Some (k, x)" by auto
    let ?v = "p_selected p ! k"
    from pick_loop_None0 [OF k] "1.prems"(1) have v: "k < length (p_selected p)" "\<not> is_network (p_w p) (v_rdr ?v)"
      by auto
    then have t: "v_rdr ?v \<in> set tmo" using "1.prems"(3) nth_mem by blast
    define p1 where "p1 = snd (choose_step clk tmo p)"
    have s: "fst (choose_step clk tmo p)" "p_nlocal p1 = p_nlocal p" "p_fallback p1 = None"
      "p_selected p1 = (p_selected p)[k := ?v\<lparr>v_value := 0\<rparr>]" "p_result p1 = p_result p @ [(p_next p, v_rdr ?v)]"
      "p_w p1 = set_last (clk (p_n p)) (v_rdr ?v) (p_w p)"
      using False k t "1.prems"(1,2) by (simp_all add: choose_step_def Let_def p1_def)
    have net: "is_network (p_w p1) i = is_network (p_w p) i" for i
      unfolding s(6) by (rule is_network_shape [OF set_last_shape]) simp
    have sel: "\<forall>u \<in> set (p_selected p1). is_network (p_w p1) (v_rdr u) \<or> v_rdr u \<in> set tmo"
      unfolding s(4) net by (rule set_update_ok [OF "1.prems"(3)]) (simp add: t)
    from "1.IH" [OF s(1)] s(2,3) sel "1.prems"(1) obtain xs where
      xs: "p_result (choose_loop clk tmo p1) = p_result p1 @ xs" "\<forall>(node, i) \<in> set xs. \<not> is_network (p_w p1) i"
        "p_fallback (choose_loop clk tmo p1) = None" by (auto simp: p1_def)
    have "choose_loop clk tmo p = choose_loop clk tmo p1"
      using s(1) by (subst choose_loop.simps) (simp add: p1_def)
    then show ?thesis
      using xs s(5) v(2) net by (intro exI [of _ "(p_next p, v_rdr ?v) # xs"]) auto
  qed
qed

section \<open>Properties\<close>

definition stat_ex :: "int \<Rightarrow> int \<Rightarrow> reader_stat" where
  "stat_ex rc avg = \<lparr>st_rc = rc, rs_caid = 0x0500, rs_prid = 0x020810, rs_srvid = 7, ecmlen = 35,
     last_received = 0, ecm_count = 9, time_avg = avg, time_stat = replicate 10 avg, time_idx = 0, fail_factor = 0\<rparr>"

definition lb_reader_ex :: "int \<Rightarrow> int \<Rightarrow> int \<Rightarrow> lb_reader" where
  "lb_reader_ex typ rc avg = s_reader.extend (reader_ex\<lparr>rdr_typ := typ\<rparr>)
     (lb_reader.fields (Some [(stat_ex rc avg, False)]) 100 0 0 0 \<lparr>tb_time = 0, tb_millitm = 0\<rparr> False False)"

definition lb_config_ex :: lb_config where
  "lb_config_ex = \<lparr>lb_mode = 1, lb_save = 0, lb_nbest_readers = 1, lb_nfb_readers = 2, lb_min_ecmcount = 5,
     lb_max_ecmcount = 500, lb_reopen_seconds = 900, lb_retrylimit = 800, lb_retrylimittab = [],
     lb_nbest_readers_tab = [], lb_noproviderforcaid = [], lb_stat_cleanup = 336, lb_reopen_mode = False,
     lb_max_readers = 0, lb_auto_betatunnel = True, ctimeout = 5000, ftimeout = 2500,
     preferlocalcards = False, cc_forward_origin_card = False, sidtabs = [sid_ex]\<rparr>"

definition lb_world_ex :: "lb_reader list \<Rightarrow> lb_world" where
  "lb_world_ex rs = \<lparr>readers = rs, active = [0..<length rs], nulltime = \<lparr>tb_time = 1, tb_millitm = 0\<rparr>,
     now = 2000, stat_load_save = 0, last_housekeeping = 0, jobs = []\<rparr>"

definition lb_request_ex :: "nat list \<Rightarrow> lb_request" where
  "lb_request_ex is = ecm_request.extend ecm_ex
     (lb_request.fields (zip [0..<length is] is) None True None False None 0 0 0 None \<lparr>tb_time = 0, tb_millitm = 0\<rparr> 0 False 0)"

definition clk_ex :: "nat \<Rightarrow> timeb" where "clk_ex n = \<lparr>tb_time = 2000, tb_millitm = int n\<rparr>"

text \<open>C11. When the readers of a request exist and have a client, there are at most 64 services and a
  reopening time is set, \<open>get_best_reader\<close> comes to a result: the readers it keeps are readers of the
  request, none of them twice, and no reader, type or list of active readers changes.\<close>

theorem get_best_reader_keeps:
  assumes "lb_ok cfg w (map snd (matching_rdr er))" "length (er_ecm er) = 512"
  shows "\<exists>b w' er'. get_best_reader cfg MD5 clk avail mem fresh w er = Some (b, w', er') \<and> same_shape w w' \<and>
     snd ` set (matching_rdr er') \<subseteq> snd ` set (matching_rdr er) \<and>
     (distinct (map snd (matching_rdr er)) \<longrightarrow> distinct (map snd (matching_rdr er')))"
proof -
  from lb_run_ok [OF assms] obtain w' er' where r: "lb_run cfg MD5 clk avail mem fresh w er = Some (True, w', er')"
    "same_shape w w'" "snd ` set (matching_rdr er') \<subseteq> snd ` set (matching_rdr er)"
    "distinct (map snd (matching_rdr er)) \<longrightarrow> distinct (map snd (matching_rdr er'))" by blast
  show ?thesis
    using r by (cases "if cc_forward_origin_card cfg then origin_reader er else None")
      (auto simp: get_best_reader_def)
qed

theorem get_best_reader_keeps_witness:
  "\<exists>b w' er'. get_best_reader lb_config_ex (\<lambda>m. m) clk_ex None True 10
      (lb_world_ex [lb_reader_ex 0x21 0 300, lb_reader_ex 0x10 0 200]) (lb_request_ex [0, 1]) = Some (b, w', er') \<and>
     distinct (map snd (matching_rdr er'))"
proof -
  have "lb_ok lb_config_ex (lb_world_ex [lb_reader_ex 0x21 0 300, lb_reader_ex 0x10 0 200])
      (map snd (matching_rdr (lb_request_ex [0, 1])))"
    "length (er_ecm (lb_request_ex [0, 1])) = 512" "distinct (map snd (matching_rdr (lb_request_ex [0, 1])))"
    by code_simp+
  from get_best_reader_keeps [OF this(1,2), of "\<lambda>m. m" clk_ex None True 10] this(3) show ?thesis by blast
qed


definition pick_ex :: lb_pick where
  "pick_ex = \<lparr>p_w = lb_world_ex [lb_reader_ex 0x21 0 300, lb_reader_ex 0x10 0 200],
     p_selected = [\<lparr>v_rdr = 0, v_value = 300, v_time = 300\<rparr>, \<lparr>v_rdr = 1, v_value = 200, v_time = 200\<rparr>],
     p_nlocal = 0, p_nbest = 1, p_nfb = 1, p_nreaders = -1, p_result = [], p_next = 10, p_fallback = None,
     p_best = None, p_n = 0\<rparr>"


text \<open>When local cards are preferred and every local reader of the choice is known to time out, the
  count of local readers never drops: only local readers are chosen, there is no fallback, and the
  proxies that could answer are left out.\<close>

theorem local_timeouts_starve:
  assumes "p_nlocal p \<noteq> 0" "p_fallback p = None"
    and "\<forall>v \<in> set (p_selected p). is_network (p_w p) (v_rdr v) \<or> v_rdr v \<in> set tmo"
  shows "\<exists>xs. p_result (choose_loop clk tmo p) = p_result p @ xs \<and>
    (\<forall>(node, i) \<in> set xs. \<not> is_network (p_w p) i) \<and> p_fallback (choose_loop clk tmo p) = None"
  by (rule choose_loop_local [OF assms])

theorem local_timeouts_starve_witness:
  "map snd (p_result (choose_loop clk_ex [1] (pick_ex\<lparr>p_w := lb_world_ex [lb_reader_ex 0x21 0 300, lb_reader_ex 0x7 5 200],
     p_nlocal := 1\<rparr>))) = [1] \<and> is_network (p_w pick_ex) 0 = True \<and>
   p_fallback (choose_loop clk_ex [1] (pick_ex\<lparr>p_w := lb_world_ex [lb_reader_ex 0x21 0 300, lb_reader_ex 0x7 5 200],
     p_nlocal := 1\<rparr>)) = None"
proof -
  let ?p = "pick_ex\<lparr>p_w := lb_world_ex [lb_reader_ex 0x21 0 300, lb_reader_ex 0x7 5 200], p_nlocal := 1\<rparr>"
  have "p_nlocal ?p \<noteq> 0" "p_fallback ?p = None"
    "\<forall>v \<in> set (p_selected ?p). is_network (p_w ?p) (v_rdr v) \<or> v_rdr v \<in> set [1]" by code_simp+
  from local_timeouts_starve [OF this, of clk_ex] have "p_fallback (choose_loop clk_ex [1] ?p) = None" by blast
  moreover have "map snd (p_result (choose_loop clk_ex [1] ?p)) = [1]" "is_network (p_w pick_ex) 0 = True" by code_simp+
  ultimately show ?thesis by blast
qed

text \<open>Reopening a reader that is already a fallback frees the node the request's \<open>fallback\<close> points to.\<close>

lemma fallback_dangles:
  "case get_best_reader (lb_config_ex\<lparr>lb_retrylimit := 100, lb_nfb_readers := 1\<rparr>) (\<lambda>m. m) clk_ex None True 10
      (lb_world_ex [lb_reader_ex 0x21 0 300, lb_reader_ex 0x21 4 400, lb_reader_ex 0x21 9 500]) (lb_request_ex [0, 1, 2])
   of None \<Rightarrow> False
    | Some (b, w', er') \<Rightarrow> fallback er' \<noteq> None \<and> fallback er' \<notin> Some ` fst ` set (matching_rdr er')"
  by code_simp

end
