(* ===== verification/Cache.thy ===== *)
theory Cache
  imports Ecm
begin

text \<open>
  The ECM cache of \<open>oscam.c\<close>: \<open>check_and_store_ecmcache\<close>, \<open>check_cwcache1\<close>, \<open>check_cwcache2\<close> and
  \<open>store_cw_in_cache\<close>. The cache is the list of its entries, each with its address; a request refers to
  its entry by that address. \<open>t0\<close> is the clock reading, \<open>fresh\<close> the address of a new entry. A write
  through the address of an entry that is no longer in the list is \<open>None\<close>.
\<close>

definition E_99 :: int where "E_99 = 99"
definition CS_CACHE_TIMEOUT :: int where "CS_CACHE_TIMEOUT = 60"

record cache_entry =
  ce_id :: nat
  ce_md5 :: "u8 list"
  ce_cw :: "u8 list"
  ce_caid :: u16
  ce_grp :: u64
  ce_reader :: "nat option"
  ce_rc :: int
  ce_time :: int

definition cache_limit :: "u32 \<Rightarrow> int \<Rightarrow> int" where
  "cache_limit ctmo t0 = t0 - uint (ctmo div 1000) - CS_CACHE_TIMEOUT"

definition cache_hit :: "'a ecm_request_scheme \<Rightarrow> u64 \<Rightarrow> cache_entry \<Rightarrow> bool" where
  "cache_hit er grp e \<longleftrightarrow>
     (grp = 0 \<or> grp AND ce_grp e \<noteq> 0) \<and> ce_caid e = er_caid er \<and> ce_md5 e = er_ecmd5 er"

text \<open>The loop over the cache: entries older than \<open>limit\<close> are removed on the way to the first hit.\<close>

fun scan_cache ::
  "int \<Rightarrow> (cache_entry \<Rightarrow> bool) \<Rightarrow> cache_entry list \<Rightarrow> cache_entry list \<times> cache_entry option" where
  "scan_cache limit hit [] = ([], None)"
| "scan_cache limit hit (e # es) =
     (if ce_time e < limit then scan_cache limit hit es
      else if hit e then (e # es, Some e)
      else (let r = scan_cache limit hit es in (e # fst r, snd r)))"

definition new_entry :: "nat \<Rightarrow> int \<Rightarrow> u64 \<Rightarrow> 'a ecm_request_scheme \<Rightarrow> cache_entry" where
  "new_entry fresh t0 grp er =
     \<lparr>ce_id = fresh, ce_md5 = er_ecmd5 er, ce_cw = replicate 16 0, ce_caid = er_caid er, ce_grp = grp,
      ce_reader = None, ce_rc = E_99, ce_time = t0\<rparr>"

definition check_and_store_ecmcache ::
  "u32 \<Rightarrow> int \<Rightarrow> nat \<Rightarrow> u64 \<Rightarrow> cache_entry list \<Rightarrow> lb_request \<Rightarrow> cache_entry list \<times> lb_request \<times> int" where
  "check_and_store_ecmcache ctmo t0 fresh grp cache er =
     (case scan_cache (cache_limit ctmo t0) (cache_hit er grp) cache of
        (cache', None) \<Rightarrow>
          (new_entry fresh t0 grp er # cache', er\<lparr>ecmcacheptr := Some fresh\<rparr>, E_UNHANDLED)
      | (cache', Some e) \<Rightarrow>
          (let er' = er\<lparr>er_cw := ce_cw e, selected_reader := ce_reader e\<rparr> in
           if ce_rc e = E_FOUND then (cache', er', E_CACHE1)
           else (cache', er'\<lparr>ecmcacheptr := Some (ce_id e)\<rparr>, ce_rc e)))"

definition check_cwcache1 ::
  "u32 \<Rightarrow> int \<Rightarrow> u64 \<Rightarrow> cache_entry list \<Rightarrow> lb_request \<Rightarrow> cache_entry list \<times> lb_request \<times> bool" where
  "check_cwcache1 ctmo t0 grp cache er =
     (case scan_cache (cache_limit ctmo t0) (\<lambda>e. ce_rc e = E_FOUND \<and> cache_hit er grp e) cache of
        (cache', None) \<Rightarrow> (cache', er, False)
      | (cache', Some e) \<Rightarrow> (cache', er\<lparr>er_cw := ce_cw e, selected_reader := ce_reader e\<rparr>, True))"

definition check_cwcache2 ::
  "u32 \<Rightarrow> int \<Rightarrow> u64 \<Rightarrow> cache_entry list \<Rightarrow> lb_request \<Rightarrow> cache_entry list \<times> lb_request \<times> bool" where
  "check_cwcache2 ctmo t0 grp cache er = check_cwcache1 ctmo t0 grp cache er"

definition entry_of :: "cache_entry list \<Rightarrow> nat \<Rightarrow> cache_entry option" where
  "entry_of cache i = find (\<lambda>e. ce_id e = i) cache"

definition store_cw_in_cache ::
  "int \<Rightarrow> u64 \<Rightarrow> int \<Rightarrow> cache_entry list \<Rightarrow> lb_request \<Rightarrow> cache_entry list option" where
  "store_cw_in_cache t0 grp rc cache er =
     (if 0 \<le> t0 - tb_time (tps er) - CS_CACHE_TIMEOUT then Some cache
      else case ecmcacheptr er of
        None \<Rightarrow> Some cache
      | Some i \<Rightarrow> do {
          e \<leftarrow> entry_of cache i;
          Some (if ce_rc e \<le> rc then cache
                else map (\<lambda>x. if ce_id x = i
                              then x\<lparr>ce_md5 := er_ecmd5 er, ce_cw := er_cw er, ce_caid := er_caid er, ce_grp := grp,
                                     ce_reader := selected_reader er, ce_rc := rc, ce_time := t0\<rparr>
                              else x) cache) })"

section \<open>Scanning\<close>

lemma scan_cache_hit:
  "scan_cache limit hit es = (es', Some e) \<Longrightarrow> e \<in> set es \<and> hit e \<and> limit \<le> ce_time e \<and> e \<in> set es'"
  by (induction limit hit es arbitrary: es' rule: scan_cache.induct)
    (auto simp: Let_def split: if_splits, (metis prod.collapse)+)

lemma scan_cache_subset: "set (fst (scan_cache limit hit es)) \<subseteq> set es"
  by (induction limit hit es rule: scan_cache.induct) (auto simp: Let_def)

lemma scan_cache_keeps: "e \<in> set es \<Longrightarrow> limit \<le> ce_time e \<Longrightarrow> e \<in> set (fst (scan_cache limit hit es))"
  by (induction limit hit es rule: scan_cache.induct) (auto simp: Let_def)

lemma scan_cache_miss:
  "snd (scan_cache limit hit es) = None \<Longrightarrow> e \<in> set (fst (scan_cache limit hit es)) \<Longrightarrow> \<not> hit e"
  by (induction limit hit es rule: scan_cache.induct) (auto simp: Let_def split: if_splits)

lemma scan_cache_ids: "distinct (map ce_id es) \<Longrightarrow> distinct (map ce_id (fst (scan_cache limit hit es)))"
proof (induction limit hit es rule: scan_cache.induct)
  case (2 limit hit e es)
  then show ?case using scan_cache_subset [of limit hit es] by (auto simp: Let_def)
qed simp

lemma entry_of_in: "e \<in> set cache \<Longrightarrow> distinct (map ce_id cache) \<Longrightarrow> entry_of cache (ce_id e) = Some e"
  unfolding entry_of_def by (induction cache) (auto simp: image_iff)

lemma entry_of_Some: "entry_of cache i = Some e \<Longrightarrow> e \<in> set cache \<and> ce_id e = i"
  by (auto simp: entry_of_def find_Some_iff)

lemma cache_limit_le: "cache_limit ctmo t0 \<le> t0"
  using uint_ge_0 [of "ctmo div 1000"] unfolding cache_limit_def CS_CACHE_TIMEOUT_def by linarith

section \<open>Properties\<close>

lemma check_store_cases:
  assumes "check_and_store_ecmcache ctmo t0 fresh grp cache er = (cache', er', rc)"
  shows "(rc = E_CACHE1 \<and> (\<exists>e \<in> set cache. cache_hit er grp e \<and> cache_limit ctmo t0 \<le> ce_time e \<and>
            ce_rc e = E_FOUND \<and> er_cw er' = ce_cw e)) \<or>
    (\<exists>e \<in> set cache'. ecmcacheptr er' = Some (ce_id e) \<and> e \<in> set cache \<and> cache_hit er grp e \<and> rc = ce_rc e \<and>
            rc \<noteq> E_FOUND) \<or>
    (rc = E_UNHANDLED \<and> ecmcacheptr er' = Some fresh \<and> cache' = new_entry fresh t0 grp er # tl cache' \<and>
       (\<forall>e \<in> set (tl cache'). \<not> cache_hit er grp e))"
proof -
  obtain c h where s: "scan_cache (cache_limit ctmo t0) (cache_hit er grp) cache = (c, h)"
    by (cases "scan_cache (cache_limit ctmo t0) (cache_hit er grp) cache")
  show ?thesis
  proof (cases h)
    case None
    then show ?thesis
      using assms s scan_cache_miss [of "cache_limit ctmo t0" "cache_hit er grp" cache]
      by (auto simp: check_and_store_ecmcache_def)
  next
    case (Some e)
    then show ?thesis
      using assms s scan_cache_hit [OF s [unfolded Some]]
      by (auto simp: check_and_store_ecmcache_def Let_def split: if_splits)
  qed
qed


definition cache_er_ex :: lb_request where
  "cache_er_ex = ecm_request.extend ecm_ex
     (lb_request.fields [(1, 0)] None True None False None 0 0 0 None \<lparr>tb_time = 100, tb_millitm = 0\<rparr> 0 False 0)"

definition entry_ex :: cache_entry where
  "entry_ex = \<lparr>ce_id = 5, ce_md5 = replicate 16 0, ce_cw = replicate 16 7, ce_caid = 0x0500, ce_grp = 3,
     ce_reader = Some 0, ce_rc = 0, ce_time = 90\<rparr>"


text \<open>C5. Of two requests for the same ECM the second one waits for the first: within the cache time it gets
  the code 99 and the entry of the first, and no new entry is made, so the readers are asked once.\<close>

theorem cache_dedupes:
  assumes "check_and_store_ecmcache ctmo t1 fresh g1 cache er1 = (cache1, er1', E_UNHANDLED)"
    and "er_caid er2 = er_caid er1" "er_ecmd5 er2 = er_ecmd5 er1" "g2 = 0 \<or> g2 AND g1 \<noteq> 0"
    and "cache_limit ctmo t2 \<le> t1" "\<forall>e \<in> set cache. ce_rc e \<noteq> E_UNHANDLED"
  shows "\<exists>er2'. check_and_store_ecmcache ctmo t2 fresh2 g2 cache1 er2 = (cache1, er2', E_99) \<and>
     ecmcacheptr er2' = ecmcacheptr er1'"
proof -
  from assms(1,6) check_store_cases [OF assms(1)] obtain rest where
    c: "cache1 = new_entry fresh t1 g1 er1 # rest" "ecmcacheptr er1' = Some fresh"
    by (auto simp: rc_defs)
  have "cache_hit er2 g2 (new_entry fresh t1 g1 er1)"
    using assms(2-4) by (simp add: cache_hit_def new_entry_def)
  moreover have "\<not> t1 < cache_limit ctmo t2" using assms(5) by simp
  ultimately show ?thesis
    using c by (simp add: check_and_store_ecmcache_def new_entry_def Let_def E_99_def E_FOUND_def)
qed

theorem cache_dedupes_witness:
  "\<exists>er2'. check_and_store_ecmcache 5000 102 10 1 [new_entry 9 100 1 cache_er_ex] cache_er_ex =
     ([new_entry 9 100 1 cache_er_ex], er2', E_99) \<and> ecmcacheptr er2' = Some 9"
proof -
  have c: "check_and_store_ecmcache 5000 100 9 1 [] cache_er_ex =
      ([new_entry 9 100 1 cache_er_ex], cache_er_ex\<lparr>ecmcacheptr := Some 9\<rparr>, E_UNHANDLED)" by code_simp
  have "cache_limit 5000 102 \<le> 100" by code_simp
  from cache_dedupes [OF c refl refl _ this, of 1 10] show ?thesis by simp
qed

text \<open>C6. Storing and looking up: when a reader's answer is stored within a minute of the request that
  opened the entry, a later request for the same ECM from a client of one of the reader's groups is
  answered from the cache with exactly that control word.\<close>

theorem cache_roundtrip:
  assumes "check_and_store_ecmcache ctmo t1 fresh g1 cache er1 = (cache1, er1', E_UNHANDLED)"
    and "\<forall>e \<in> set cache. ce_rc e \<noteq> E_UNHANDLED"
    and "ans = er1'\<lparr>er_cw := cw, selected_reader := Some rd\<rparr>" "t2 - tb_time (tps er1') < CS_CACHE_TIMEOUT"
    and "er_caid er_b = er_caid er1'" "er_ecmd5 er_b = er_ecmd5 er1'" "g_b = 0 \<or> g_b AND rgrp \<noteq> 0"
    and "cache_limit ctmo t_c \<le> t2"
  shows "\<exists>cache2 cache3 er_b'. store_cw_in_cache t2 rgrp E_FOUND cache1 ans = Some cache2 \<and>
     check_and_store_ecmcache ctmo t_c fresh_b g_b cache2 er_b = (cache3, er_b', E_CACHE1) \<and> er_cw er_b' = cw"
proof -
  from assms(1,2) check_store_cases [OF assms(1)] obtain rest where
    c: "cache1 = new_entry fresh t1 g1 er1 # rest" "ecmcacheptr er1' = Some fresh"
    by (auto simp: rc_defs)
  have e: "entry_of cache1 fresh = Some (new_entry fresh t1 g1 er1)"
    using c by (simp add: entry_of_def new_entry_def)
  have p: "ecmcacheptr ans = Some fresh" "tps ans = tps er1'" "er_caid ans = er_caid er1'" "er_ecmd5 ans = er_ecmd5 er1'"
    "er_cw ans = cw" using c(2) assms(3) by simp_all
  define x where "x = (new_entry fresh t1 g1 er1)\<lparr>ce_md5 := er_ecmd5 ans, ce_cw := er_cw ans, ce_caid := er_caid ans,
      ce_grp := rgrp, ce_reader := selected_reader ans, ce_rc := E_FOUND, ce_time := t2\<rparr>"
  have "\<exists>rest'. store_cw_in_cache t2 rgrp E_FOUND cache1 ans = Some (x # rest')"
    using e p assms(4) c(1)
    by (simp add: store_cw_in_cache_def x_def) (simp add: new_entry_def E_99_def E_FOUND_def)
  then obtain rest' where st: "store_cw_in_cache t2 rgrp E_FOUND cache1 ans = Some (x # rest')" by blast
  have "cache_hit er_b g_b x" "\<not> ce_time x < cache_limit ctmo t_c" "ce_rc x = E_FOUND" "ce_cw x = cw"
    using assms(5-8) p by (simp_all add: cache_hit_def x_def)
  then show ?thesis
    using st by (simp add: check_and_store_ecmcache_def Let_def)
qed

theorem cache_roundtrip_witness:
  "\<exists>cache2 cache3 er2'. store_cw_in_cache 103 2 E_FOUND [new_entry 9 100 1 cache_er_ex]
       (cache_er_ex\<lparr>ecmcacheptr := Some 9, er_cw := replicate 16 3, selected_reader := Some 0\<rparr>) = Some cache2 \<and>
     check_and_store_ecmcache 5000 104 10 2 cache2 cache_er_ex = (cache3, er2', E_CACHE1) \<and>
     er_cw er2' = replicate 16 3"
proof -
  have c: "check_and_store_ecmcache 5000 100 9 1 [] cache_er_ex =
      ([new_entry 9 100 1 cache_er_ex], cache_er_ex\<lparr>ecmcacheptr := Some 9\<rparr>, E_UNHANDLED)" by code_simp
  have "cache_limit 5000 104 \<le> 103" "103 - tb_time (tps (cache_er_ex\<lparr>ecmcacheptr := Some 9\<rparr>)) < CS_CACHE_TIMEOUT"
    "(2 :: u64) AND 2 \<noteq> 0" by code_simp+
  from cache_roundtrip [OF c _ refl this(2), where er_b = cache_er_ex and g_b = 2 and rgrp = 2 and t_c = 104
      and cw = "replicate 16 3" and rd = 0 and fresh_b = 10] this show ?thesis
    by simp
qed

text \<open>The check on the request's own time does not protect the entry: an entry that another request
  opened earlier can be gone when the answer comes.\<close>

lemma store_after_free:
  "store_cw_in_cache 130 1 E_FOUND
     (fst (check_and_store_ecmcache 5000 130 11 1 [new_entry 9 50 1 cache_er_ex] (cache_er_ex\<lparr>er_caid := 1\<rparr>)))
     (cache_er_ex\<lparr>ecmcacheptr := Some 9\<rparr>) = None"
  by code_simp

end
