(* ===== verification/AntiCasc.thy ===== *)
theory AntiCasc
  imports Globals
begin

text \<open>
  Anti-cascading (\<open>oscam-ac.c\<close>): the request counter of each client, the ring of samples of its
  account, and the decision to deny. The counter is a 15-bit field and the limit a 16-bit field; both
  wrap. Clients refer to their account by its index in \<open>cfg.account\<close>. \<open>None\<close> is an index outside the
  sample ring or a remainder by zero. \<open>ac_ecmd5\<close> is the static variable that all clients share.
\<close>

section \<open>State\<close>

record s_acasc =
  stat :: "nat list"
  idx :: nat

record s_auth =
  ac_users :: int
  ac_penalty :: nat
  ac_stat :: s_acasc

record s_cpmap =
  cp_caid :: u16
  cp_provid :: u32
  cp_sid :: u16
  cp_chid :: u16
  cp_dwtime :: nat

record ac_config =
  ac_enabled :: bool
  ac_stime :: int
  ac_samples :: nat
  ac_denysamples :: nat
  cpmap :: "s_cpmap list"

section \<open>Operations\<close>

definition ac_zero :: s_acasc where
  "ac_zero = \<lparr>stat = replicate 10 0, idx = 0\<rparr>"

definition ac_clear :: "'y s_client_scheme list \<Rightarrow> 'z s_auth_scheme list \<Rightarrow> 'y s_client_scheme list \<times> 'z s_auth_scheme list" where
  "ac_clear cls accs =
     (map (\<lambda>c. if cl_typ c = CHR ''c'' then c\<lparr>cl_acasc := \<lparr>ac_count = 0, ac_deny = False\<rparr>\<rparr> else c) cls,
      map (\<lambda>a. a\<lparr>ac_stat := ac_zero\<rparr>) accs)"

definition ac_exceeds :: "ac_config \<Rightarrow> nat list \<Rightarrow> nat \<Rightarrow> nat" where
  "ac_exceeds cfg st limit = length (filter (\<lambda>v. limit < v) (take (ac_samples cfg) st))"

text \<open>The decision of one turn of \<open>ac_do_stat\<close> on the samples \<open>st\<close>, of which the one at \<open>i\<close> is the
  count \<open>n\<close> just stored: the new \<open>prev_deny\<close>, the new \<open>ac_deny\<close> and the samples.\<close>

definition ac_judge ::
  "ac_config \<Rightarrow> nat \<Rightarrow> nat \<Rightarrow> bool \<Rightarrow> bool \<Rightarrow> nat \<Rightarrow> nat \<Rightarrow> nat list \<Rightarrow> (bool \<times> bool \<times> nat list) option" where
  "ac_judge cfg penalty limit prev deny n i st =
     (if n \<noteq> 0 then
        (if penalty = 2 then Some (prev, True, st)
         else if length st < ac_samples cfg then None
         else let d = ac_denysamples cfg \<le> ac_exceeds cfg st limit in
              Some (deny, d, if d then st[i := 0] else st))
      else if deny then Some (True, False, st)
      else Some (prev, deny, st))"

definition ac_next :: "ac_config \<Rightarrow> bool \<Rightarrow> nat \<Rightarrow> nat option" where
  "ac_next cfg stay i =
     (if stay then Some i else if ac_samples cfg = 0 then None else Some ((i + 1) mod ac_samples cfg))"

text \<open>One turn of the client loop of \<open>ac_do_stat\<close>: \<open>prev\<close> is the local \<open>prev_deny\<close>, which lives across
  the turns.\<close>

definition ac_do_client ::
  "ac_config \<Rightarrow> bool \<Rightarrow> 'y s_client_scheme \<Rightarrow> s_auth list \<Rightarrow> (bool \<times> 'y s_client_scheme \<times> s_auth list) option" where
  "ac_do_client cfg prev c accs =
     (if cl_typ c \<noteq> CHR ''c'' then Some (prev, c, accs)
      else do {
        acc \<leftarrow> fetch accs (cl_account c);
        let i = idx (ac_stat acc);
        let n = ac_count (cl_acasc c);
        st \<leftarrow> store (stat (ac_stat acc)) i n;
        (prev', deny', st') \<leftarrow>
          ac_judge cfg (ac_penalty acc) (cl_ac_limit c) prev (ac_deny (cl_acasc c)) n i st;
        i' \<leftarrow> ac_next cfg (deny' \<or> prev') i;
        Some (prev', c\<lparr>cl_acasc := \<lparr>ac_count = 0, ac_deny = deny'\<rparr>\<rparr>,
              accs[cl_account c := acc\<lparr>ac_stat := \<lparr>stat = st', idx = i'\<rparr>\<rparr>]) })"

fun ac_do_loop ::
  "ac_config \<Rightarrow> bool \<Rightarrow> s_client list \<Rightarrow> s_auth list \<Rightarrow> (s_client list \<times> s_auth list) option" where
  "ac_do_loop cfg prev [] accs = Some ([], accs)"
| "ac_do_loop cfg prev (c # cls) accs = do {
     (prev', c', accs') \<leftarrow> ac_do_client cfg prev c accs;
     (cls', accs'') \<leftarrow> ac_do_loop cfg prev' cls accs';
     Some (c' # cls', accs'') }"

definition ac_do_stat :: "ac_config \<Rightarrow> s_client list \<Rightarrow> s_auth list \<Rightarrow> (s_client list \<times> s_auth list) option" where
  "ac_do_stat cfg cls accs = ac_do_loop cfg False cls accs"

definition ac_init_client :: "ac_config \<Rightarrow> 'y s_client_scheme \<Rightarrow> 'z s_auth_scheme \<Rightarrow> 'y s_client_scheme" where
  "ac_init_client cfg c acc =
     c\<lparr>cl_ac_limit :=
        (if ac_enabled cfg \<and> ac_users acc \<noteq> 0
         then nat (s32 ((ac_users acc * 100 + 80) * ac_stime cfg) mod 65536) else 0)\<rparr>"

fun ac_dw_weight :: "s_cpmap list \<Rightarrow> 'x ecm_request_scheme \<Rightarrow> nat" where
  "ac_dw_weight [] er = 16"
| "ac_dw_weight (m # ms) er =
     (if (cp_caid m = 0 \<or> cp_caid m = er_caid er) \<and> (cp_provid m = 0 \<or> cp_provid m = er_prid er) \<and>
         (cp_sid m = 0 \<or> cp_sid m = er_srvid er) \<and> (cp_chid m = 0 \<or> cp_chid m = er_chid er)
      then cp_dwtime m * 100 div 60 else ac_dw_weight ms er)"

definition count_add :: "'y s_client_scheme \<Rightarrow> nat \<Rightarrow> 'y s_client_scheme" where
  "count_add c n = c\<lparr>cl_acasc := (cl_acasc c)\<lparr>ac_count := (ac_count (cl_acasc c) + n) mod 2 ^ 15\<rparr>\<rparr>"

text \<open>The result holds the client, the request and the new \<open>ac_ecmd5\<close>; the delay is left out.\<close>

definition ac_chk ::
  "ac_config \<Rightarrow> nat \<Rightarrow> u8 list \<Rightarrow> 'y s_client_scheme \<Rightarrow> 'x ecm_request_scheme \<Rightarrow> int \<Rightarrow> 'y s_client_scheme \<times> 'x ecm_request_scheme \<times> u8 list" where
  "ac_chk cfg penalty md5 c er level =
     (if cl_ac_limit c = 0 \<or> \<not> ac_enabled cfg then (c, er, md5)
      else if level = 1 then
        (let c1 = (if er_rc er = E_FAKE then count_add c 1 else c) in
         if E_NOTFOUND \<le> er_rc er then (c1, er, md5)
         else if md5 \<noteq> er_ecmd5 er then (count_add c1 (ac_dw_weight (cpmap cfg) er), er, er_ecmd5 er)
         else (c1, er, md5))
      else if ac_deny (cl_acasc c) \<and> penalty \<noteq> 0 \<and> penalty \<noteq> 3
      then (c, er\<lparr>er_rc := E_FAKE, er_rcEx := 0\<rparr>, md5)
      else (c, er, md5))"

section \<open>The sample ring\<close>

definition acc_ok :: "ac_config \<Rightarrow> s_auth \<Rightarrow> bool" where
  "acc_ok cfg a \<longleftrightarrow> length (stat (ac_stat a)) = 10 \<and> idx (ac_stat a) < ac_samples cfg"

definition cfg_ok :: "ac_config \<Rightarrow> bool" where
  "cfg_ok cfg \<longleftrightarrow> 2 \<le> ac_samples cfg \<and> ac_samples cfg \<le> 10 \<and> 0 < ac_denysamples cfg \<and>
     ac_denysamples cfg < ac_samples cfg"

definition accs_ok :: "ac_config \<Rightarrow> s_client list \<Rightarrow> s_auth list \<Rightarrow> bool" where
  "accs_ok cfg cls accs \<longleftrightarrow> (\<forall>a \<in> set accs. acc_ok cfg a) \<and> (\<forall>c \<in> set cls. cl_account c < length accs)"

lemma ac_judge_ok:
  "cfg_ok cfg \<Longrightarrow> length st = 10 \<Longrightarrow>
   \<exists>p d st'. ac_judge cfg penalty limit prev deny n i st = Some (p, d, st') \<and> length st' = 10"
  by (auto simp: ac_judge_def cfg_ok_def Let_def)

lemma ac_next_ok:
  "cfg_ok cfg \<Longrightarrow> i < ac_samples cfg \<Longrightarrow> \<exists>j. ac_next cfg stay i = Some j \<and> j < ac_samples cfg"
  by (auto simp: ac_next_def cfg_ok_def)

lemma ac_do_client_ok:
  assumes "cfg_ok cfg" "\<forall>a \<in> set accs. acc_ok cfg a" "cl_account c < length accs"
  shows "\<exists>prev' c' accs'. ac_do_client cfg prev c accs = Some (prev', c', accs') \<and>
     (\<forall>a \<in> set accs'. acc_ok cfg a) \<and> length accs' = length accs \<and>
     cl_account c' = cl_account c \<and> cl_typ c' = cl_typ c \<and>
     (cl_typ c = CHR ''c'' \<longrightarrow> ac_count (cl_acasc c') = 0)"
proof (cases "cl_typ c = CHR ''c''")
  case True
  let ?a = "accs ! cl_account c" and ?n = "ac_count (cl_acasc c)"
  let ?i = "idx (ac_stat ?a)" and ?st = "stat (ac_stat ?a)"
  have a: "length ?st = 10" "?i < ac_samples cfg" "ac_samples cfg \<le> 10"
    using assms by (auto simp: acc_ok_def cfg_ok_def)
  have "length (?st[?i := ?n]) = 10" using a by simp
  from ac_judge_ok [OF assms(1) this] obtain p d st' where
    j: "ac_judge cfg (ac_penalty ?a) (cl_ac_limit c) prev (ac_deny (cl_acasc c)) ?n ?i
      (?st[?i := ?n]) = Some (p, d, st')" "length st' = 10" by blast
  obtain k where k: "ac_next cfg (d \<or> p) ?i = Some k" "k < ac_samples cfg"
    using ac_next_ok [OF assms(1) a(2)] by blast
  have "\<forall>a \<in> set (accs[cl_account c := ?a\<lparr>ac_stat := \<lparr>stat = st', idx = k\<rparr>\<rparr>]). acc_ok cfg a"
    by (rule set_update_ok [OF assms(2)]) (simp add: acc_ok_def j k)
  then show ?thesis using True assms(3) a j k by (simp add: ac_do_client_def Let_def)
next
  case False then show ?thesis using assms by (simp add: ac_do_client_def)
qed

lemma ac_do_loop_ok:
  assumes "cfg_ok cfg" "accs_ok cfg cls accs"
  shows "\<exists>cls' accs'. ac_do_loop cfg prev cls accs = Some (cls', accs') \<and> accs_ok cfg cls' accs' \<and>
     length accs' = length accs \<and> map cl_account cls' = map cl_account cls \<and>
     (\<forall>c \<in> set cls'. cl_typ c = CHR ''c'' \<longrightarrow> ac_count (cl_acasc c) = 0)"
  using assms(2)
proof (induction cls arbitrary: prev accs)
  case Nil then show ?case by (simp add: accs_ok_def)
next
  case (Cons c cls)
  from Cons.prems have a: "\<forall>a \<in> set accs. acc_ok cfg a" "cl_account c < length accs"
    by (auto simp: accs_ok_def)
  from ac_do_client_ok [OF assms(1) a] obtain p c' accs1 where
    s: "ac_do_client cfg prev c accs = Some (p, c', accs1)" "\<forall>a \<in> set accs1. acc_ok cfg a"
      "length accs1 = length accs" "cl_account c' = cl_account c" "cl_typ c' = cl_typ c"
      "cl_typ c = CHR ''c'' \<longrightarrow> ac_count (cl_acasc c') = 0" by blast
  have "accs_ok cfg cls accs1" using s(2,3) Cons.prems by (auto simp: accs_ok_def)
  from Cons.IH [OF this, of p] obtain cls' accs' where
    "ac_do_loop cfg p cls accs1 = Some (cls', accs')" "accs_ok cfg cls' accs'"
      "length accs' = length accs1" "map cl_account cls' = map cl_account cls"
      "\<forall>c \<in> set cls'. cl_typ c = CHR ''c'' \<longrightarrow> ac_count (cl_acasc c) = 0" by blast
  with s a show ?case by (auto simp: accs_ok_def)
qed

section \<open>Properties\<close>

definition ac_cfg0 :: ac_config where
  "ac_cfg0 = \<lparr>ac_enabled = True, ac_stime = 2, ac_samples = 4, ac_denysamples = 2,
     cpmap = [\<lparr>cp_caid = 0x0500, cp_provid = 0, cp_sid = 0, cp_chid = 0, cp_dwtime = 30\<rparr>]\<rparr>"

definition ac_client0 :: "nat \<Rightarrow> nat \<Rightarrow> bool \<Rightarrow> s_client" where
  "ac_client0 k n d = \<lparr>cl_typ = CHR ''c'', cl_grp = 1, cl_sidtabok = 0, cl_sidtabno = 0, cl_ftab = [],
     cl_fchid = [], cl_cltab = \<lparr>aclass = [], bclass = []\<rparr>, cl_port_idx = 0, cl_pending = 0, cl_login = 0,
     cl_account = k, cl_ac_limit = 360, cl_acasc = \<lparr>ac_count = n, ac_deny = d\<rparr>\<rparr>"

definition ac_acc0 :: s_auth where
  "ac_acc0 = \<lparr>ac_users = 1, ac_penalty = 1, ac_stat = \<lparr>stat = [400, 400, 0, 0, 0, 0, 0, 0, 0, 0], idx = 2\<rparr>\<rparr>"

text \<open>C40. With the limits that the configuration reader enforces (two to ten samples, fewer denied
  samples than samples) a pass of the anti-cascading thread stays inside every sample ring, leaves
  every ring with ten samples and an index below the number of samples, and restarts every counter.\<close>

theorem ac_do_stat_ok:
  assumes "cfg_ok cfg" "accs_ok cfg cls accs"
  shows "\<exists>cls' accs'. ac_do_stat cfg cls accs = Some (cls', accs') \<and> accs_ok cfg cls' accs' \<and>
     length accs' = length accs \<and> map cl_account cls' = map cl_account cls \<and>
     (\<forall>c \<in> set cls'. cl_typ c = CHR ''c'' \<longrightarrow> ac_count (cl_acasc c) = 0)"
  unfolding ac_do_stat_def by (rule ac_do_loop_ok [OF assms])

theorem ac_do_stat_ok_witness:
  "ac_do_stat ac_cfg0 [ac_client0 0 400 False, ac_client0 1 0 False] [ac_acc0, ac_acc0] \<noteq> None"
  using ac_do_stat_ok [of ac_cfg0 "[ac_client0 0 400 False, ac_client0 1 0 False]" "[ac_acc0, ac_acc0]"]
  by (auto simp: cfg_ok_def accs_ok_def acc_ok_def ac_cfg0_def ac_client0_def ac_acc0_def)

text \<open>A turn denies exactly the active clients whose account is banned or has at least
  \<open>ac_denysamples\<close> samples above the limit, whatever the turns before. The ring moves on exactly when
  the client is neither denied now nor was before; except that an idle client's ring also stands still
  after a turn that left \<open>prev_deny\<close> set, which the code does not reset between clients.\<close>

theorem ac_do_client_decides:
  assumes "ac_do_client cfg prev c accs = Some (prev', c', accs')" "cl_typ c = CHR ''c''"
  defines "a \<equiv> accs ! cl_account c" and "n \<equiv> ac_count (cl_acasc c)"
  defines "deny' \<equiv> ac_deny (cl_acasc c')" and "i \<equiv> idx (ac_stat a)"
  shows "(deny' \<longleftrightarrow> n \<noteq> 0 \<and> (ac_penalty a = 2 \<or>
            ac_denysamples cfg \<le> ac_exceeds cfg ((stat (ac_stat a))[i := n]) (cl_ac_limit c))) \<and>
     idx (ac_stat (accs' ! cl_account c)) =
       (if \<not> deny' \<and> \<not> ac_deny (cl_acasc c) \<and> \<not> (prev \<and> n = 0)
        then (i + 1) mod ac_samples cfg else i)"
  using assms(1,2) unfolding a_def n_def deny'_def i_def
  by (auto simp: ac_do_client_def ac_judge_def ac_next_def Let_def buf_simps split: if_splits bind_splits)

theorem ac_do_client_decides_witness:
  "\<exists>p c accs'. ac_do_client ac_cfg0 False (ac_client0 0 400 False) [ac_acc0, ac_acc0] = Some (p, c, accs') \<and>
     ac_deny (cl_acasc c)"
proof -
  have t: "cl_typ (ac_client0 0 400 False) = CHR ''c''" by (simp add: ac_client0_def)
  obtain p c accs' where
    r: "ac_do_client ac_cfg0 False (ac_client0 0 400 False) [ac_acc0, ac_acc0] = Some (p, c, accs')"
    using ac_do_client_ok [of ac_cfg0 "[ac_acc0, ac_acc0]" "ac_client0 0 400 False" False]
    by (auto simp: cfg_ok_def acc_ok_def ac_cfg0_def ac_client0_def ac_acc0_def)
  have "ac_deny (cl_acasc c)"
    using ac_do_client_decides [OF r t]
    by (simp add: ac_acc0_def ac_client0_def ac_cfg0_def ac_exceeds_def)
  with r show ?thesis by blast
qed

text \<open>A found request is charged its weight once: it raises the client's 15-bit counter by the
  weight of its control-word period, and a second request for the same ECM is free. The last ECM is
  remembered for all clients together, so a second client that asks for the same ECM right after the
  first is not charged at all.\<close>

theorem ac_chk_charges_once:
  assumes "cl_ac_limit c1 \<noteq> 0" "cl_ac_limit c2 \<noteq> 0" "ac_enabled cfg"
    and "er_rc er < E_NOTFOUND" "md5 \<noteq> er_ecmd5 er"
  shows "\<exists>c1'. ac_chk cfg pen md5 c1 er 1 = (c1', er, er_ecmd5 er) \<and>
     ac_count (cl_acasc c1') = (ac_count (cl_acasc c1) + ac_dw_weight (cpmap cfg) er) mod 2 ^ 15 \<and>
     ac_deny (cl_acasc c1') = ac_deny (cl_acasc c1) \<and>
     ac_chk cfg pen (er_ecmd5 er) c2 er 1 = (c2, er, er_ecmd5 er)"
  using assms by (simp add: ac_chk_def count_add_def Let_def E_NOTFOUND_def E_FAKE_def)

definition ac_er0 :: ecm_request where
  "ac_er0 = \<lparr>er_ecm = [], er_cw = [], er_ecmd5 = [1], er_l = 35, er_caid = 0x0500, er_ocaid = 0,
     er_srvid = 7, er_chid = 0, er_prid = 0x020810, er_rc = 0, er_rcEx = 0\<rparr>"

theorem ac_chk_charges_once_witness:
  "\<exists>c1'. ac_chk ac_cfg0 1 [0] (ac_client0 0 7 False) ac_er0 1 = (c1', ac_er0, [1]) \<and>
     ac_count (cl_acasc c1') = 57"
proof -
  have e: "cl_ac_limit (ac_client0 0 7 False) \<noteq> 0" "cl_ac_limit (ac_client0 1 0 False) \<noteq> 0"
    "ac_enabled ac_cfg0" "er_rc ac_er0 < E_NOTFOUND" "[0] \<noteq> er_ecmd5 ac_er0"
    by (simp_all add: ac_client0_def ac_cfg0_def ac_er0_def E_NOTFOUND_def)
  have v: "ac_count (cl_acasc (ac_client0 0 7 False)) = 7" "ac_dw_weight (cpmap ac_cfg0) ac_er0 = 50"
    "er_ecmd5 ac_er0 = [1]"
    by (simp_all add: ac_client0_def ac_cfg0_def ac_er0_def)
  from ac_chk_charges_once [OF e, of 1] show ?thesis unfolding v by auto
qed

text \<open>The limit of a client is its account's allowance for one sample period as long as that fits
  16 bits; an allowance of 32767 or more can never be exceeded by the 15-bit counter, so such a client is
  never denied.\<close>

theorem ac_limit_bounds:
  assumes "0 < ac_users acc" "0 < ac_stime cfg" "(ac_users acc * 100 + 80) * ac_stime cfg < 65536"
    and "ac_enabled cfg" "cfg_ok cfg"
  shows "int (cl_ac_limit (ac_init_client cfg c acc)) = (ac_users acc * 100 + 80) * ac_stime cfg \<and>
     (32767 \<le> (ac_users acc * 100 + 80) * ac_stime cfg \<and> (\<forall>v \<in> set st. v < 2 ^ 15) \<longrightarrow>
        \<not> ac_denysamples cfg \<le> ac_exceeds cfg st (cl_ac_limit (ac_init_client cfg c acc)))"
proof -
  let ?p = "(ac_users acc * 100 + 80) * ac_stime cfg"
  have p: "0 < ?p" using assms(1,2) by simp
  then have s: "s32 ?p = ?p" using assms(3) by (intro s32_id) auto
  have l: "int (cl_ac_limit (ac_init_client cfg c acc)) = ?p"
    using assms p by (simp add: ac_init_client_def s)
  moreover have "ac_exceeds cfg st (cl_ac_limit (ac_init_client cfg c acc)) = 0"
    if "32767 \<le> ?p" "\<forall>v \<in> set st. v < 2 ^ 15"
  proof -
    have "32767 \<le> cl_ac_limit (ac_init_client cfg c acc)" using that(1) l by linarith
    with that(2) show ?thesis by (fastforce simp: ac_exceeds_def filter_empty_conv dest: in_set_takeD)
  qed
  ultimately show ?thesis using assms(5) by (auto simp: cfg_ok_def)
qed

theorem ac_limit_bounds_witness:
  "cl_ac_limit (ac_init_client ac_cfg0 (ac_client0 0 0 False) ac_acc0) = 360"
  using ac_limit_bounds [of ac_acc0 ac_cfg0 "ac_client0 0 0 False" "[]"]
  by (simp add: ac_acc0_def ac_cfg0_def cfg_ok_def)

text \<open>The product is cut to 16 bits: 327 users on a two-minute period get a smaller limit than one.\<close>

lemma ac_limit_wraps:
  "cl_ac_limit (ac_init_client ac_cfg0 (ac_client0 0 0 False) (ac_acc0\<lparr>ac_users := 327\<rparr>)) = 24"
  by (simp add: ac_init_client_def ac_acc0_def ac_cfg0_def s32_id)

end
