(* ===== verification/Request.thy ===== *)
theory Request
  imports Balance Cache AntiCasc
begin

text \<open>
  \<open>get_cw\<close> of \<open>oscam.c\<close>, the path of a client's request from its arrival to the readers, in the order of
  the code: the corrections of the request, the checks of the account, the six checks of the request,
  tunnelling and fingerprint, the list of matching readers, the load balancer, the cache, and the
  dispatch. Left out are the statistics file, the log, \<open>msglog\<close>, the delay of \<open>cfg.delay\<close>, the violation
  list, and \<open>get_cw_lock\<close>, which only serialises the middle part. \<open>minutes\<close> is the local time of day,
  \<open>avail1\<close> and \<open>avail\<close> are \<open>ph.c_available\<close> of a reader for its two questions.
\<close>

section \<open>State\<close>

record gc_client = s_client +
  gc_ctab :: cmaptab
  gc_ttab :: "tun_entry list"
  gc_dup :: bool
  gc_expiration :: int
  gc_timeframe :: "int \<times> int"
  gc_disabled :: bool
  gc_ban_disabled :: bool
  gc_ban_sleeping :: bool
  gc_tosleep :: int
  gc_sleepsend :: bool
  gc_last_srvid :: u16
  gc_last_caid :: u16
  gc_lastswitch :: int
  gc_lastecm :: int
  gc_ncd_server :: bool
  gc_penalty :: nat

record gc_config =
  gc_lb :: lb_config
  gc_ac :: ac_config
  gc_len4caid :: "u16 list"
  gc_itab :: "u8 \<Rightarrow> irdeto_guess list"
  gc_ncd_ports :: "ftab list"
  gc_ptab :: "ftab list option"

record gc_world =
  gw_lb :: lb_world
  gw_cache :: "cache_entry list"
  gw_entry :: nat
  gw_node :: nat
  gw_acmd5 :: "u8 list"
  gw_fd_error :: "nat \<Rightarrow> int"

text \<open>What \<open>get_cw\<close> leaves behind: a client thread that was ended, a request that waits for another one,
  a request that is answered at once, or a request that was sent to the readers in the list.\<close>

datatype gc_outcome = Killed | Waiting | Answered | Sent "nat list" "nat list"

definition E_INVALID :: int where "E_INVALID = 8"
definition E_CORRUPT :: int where "E_CORRUPT = 9"
definition E_EXPDATE :: int where "E_EXPDATE = 11"
definition E_DISABLED :: int where "E_DISABLED = 12"
definition E_STOPPED :: int where "E_STOPPED = 13"
definition E_SLEEPING :: int where "E_SLEEPING = 6"
definition E2_GROUP :: u8 where "E2_GROUP = 1"
definition E2_CAID :: u8 where "E2_CAID = 2"

lemmas gc_rc_defs = E_INVALID_def E_CORRUPT_def E_EXPDATE_def E_DISABLED_def E_STOPPED_def E_SLEEPING_def

section \<open>Corrections\<close>

definition quickfix :: "'x ecm_request_scheme \<Rightarrow> 'x ecm_request_scheme option" where
  "quickfix er0 = do {
     let e = er_ecm er0;
     _ \<leftarrow> fetch e 7;
     let er1 = (if er_caid er0 AND 0xFF00 = 0x600 \<and> er_chid er0 = 0
                then er0\<lparr>er_chid := push_bit 8 (ucast (e ! 6)) OR ucast (e ! 7)\<rparr> else er0);
     let er2 = (if er_caid er1 = 0x100 \<and> er_prid er1 = 0x65 \<and> er_srvid er1 = 0 then er1\<lparr>er_srvid := 0x0642\<rparr> else er1);
     let er3 = (if er_caid er2 = 0x500 \<and> er_prid er2 = 0x030300 then er2\<lparr>er_prid := 0x030600\<rparr> else er2);
     let er4 = (if er_caid er3 = 0x500 \<and> er_prid er3 = 0xD20200 then er3\<lparr>er_prid := 0x030600\<rparr> else er3);
     let er5 = (if er_caid er4 = 0x1702 \<and> er_l er4 = 0x89 \<and> e ! 3 = 0x07 \<and> e ! 4 = 0x84
                then er4\<lparr>er_caid := 0x1833\<rparr> else er4);
     Some (if er_caid er5 AND 0xFF00 = 0x1800 \<and> 0x00FFFF < er_prid er5 then er5\<lparr>er_prid := 0\<rparr> else er5) }"

definition CS_MAXPORTS :: nat where "CS_MAXPORTS = 32"

text \<open>The provider of a newcamd port: an unused port or filter slot holds zeroes; the comparison lets the
  index one past the used ports through.\<close>

definition ncd_provider :: "ftab list \<Rightarrow> nat \<Rightarrow> u32 option" where
  "ncd_provider ports pi =
     (if pi < length ports then
        Some (case ports ! pi of [] \<Rightarrow> 0 | f # _ \<Rightarrow> (case f_prids f of [] \<Rightarrow> 0 | p # _ \<Rightarrow> p))
      else if pi < CS_MAXPORTS then Some 0 else None)"

definition find_provider ::
  "gc_config \<Rightarrow> gc_client \<Rightarrow> 'x ecm_request_scheme \<Rightarrow> 'x ecm_request_scheme option" where
  "find_provider cfg cl er0 = do {
     p \<leftarrow> (if er_prid er0 = 0 then chk_provid (er_ecm er0) (er_caid er0) else Some (er_prid er0));
     p' \<leftarrow> (if p = 0 \<and> gc_ncd_server cl \<and> gc_ncd_ports cfg \<noteq> [] \<and> cl_port_idx cl \<le> length (gc_ncd_ports cfg)
           then ncd_provider (gc_ncd_ports cfg) (cl_port_idx cl) else Some p);
     Some (er0\<lparr>er_prid := p'\<rparr>) }"

definition normalise ::
  "gc_config \<Rightarrow> gc_client \<Rightarrow> 'x ecm_request_scheme \<Rightarrow> 'x ecm_request_scheme option" where
  "normalise cfg cl er = do {
     er1 \<leftarrow> (if er_caid er = 0 then guess_cardsystem (gc_len4caid cfg) (gc_itab cfg) er else Some er);
     er2 \<leftarrow> quickfix er1;
     find_provider cfg cl er2 }"

section \<open>The account\<close>

definition in_timeframe :: "int \<times> int \<Rightarrow> int \<Rightarrow> bool" where
  "in_timeframe fr cur =
     (let mn = fst fr; mx = snd fr in
      mn \<le> mx \<and> mn < cur \<and> cur < mx \<or> mx < mn \<and> (mn < cur \<or> cur < mx))"

text \<open>The return codes set before the checks; \<open>None\<close> is a client whose thread is ended.\<close>

definition account_checks ::
  "gc_client \<Rightarrow> int \<Rightarrow> 'x ecm_request_scheme \<Rightarrow> 'x ecm_request_scheme option" where
  "account_checks cl minutes er0 =
     (let er1 = (if er_caid er0 = 0 then er0\<lparr>er_rc := E_INVALID, er_rcEx := E2_CAID\<rparr> else er0);
          er2 = (if gc_expiration cl \<noteq> 0 \<and> gc_expiration cl < gc_lastecm cl then er1\<lparr>er_rc := E_EXPDATE\<rparr> else er1);
          er3 = (if fst (gc_timeframe cl) \<noteq> 0 \<and> snd (gc_timeframe cl) \<noteq> 0 \<and> \<not> in_timeframe (gc_timeframe cl) minutes
                 then er2\<lparr>er_rc := E_EXPDATE\<rparr> else er2) in
      if gc_disabled cl then (if gc_ban_disabled cl then None else Some (er3\<lparr>er_rc := E_DISABLED\<rparr>))
      else Some er3)"

definition sleep_check ::
  "gc_client \<Rightarrow> int \<Rightarrow> 'x ecm_request_scheme \<Rightarrow> (gc_client \<times> 'x ecm_request_scheme) option" where
  "sleep_check cl t er =
     (let cl1 = (if er_srvid er \<noteq> gc_last_srvid cl \<or> gc_lastswitch cl = 0 then cl\<lparr>gc_lastswitch := t\<rparr> else cl);
          cl2 = cl1\<lparr>gc_last_srvid := er_srvid er, gc_last_caid := er_caid er\<rparr>;
          er1 = er\<lparr>er_ocaid := er_caid er\<rparr> in
      if gc_tosleep cl \<noteq> 0 \<and> gc_tosleep cl < t - gc_lastswitch cl1
      then (if gc_ban_sleeping cl then None
            else Some (cl2, er1\<lparr>er_rc := if gc_sleepsend cl then E_STOPPED else E_SLEEPING\<rparr>))
      else Some (cl2, er1))"

section \<open>The six checks\<close>

datatype gc_check = Dup | Caid | Service | User_Filter | Server_Filter | Size

definition run_check ::
  "gc_config \<Rightarrow> gc_client \<Rightarrow> int \<Rightarrow> gc_check \<Rightarrow> 'x ecm_request_scheme \<Rightarrow> 'x ecm_request_scheme option" where
  "run_check cfg cl ecm_len c er = (case c of
     Dup \<Rightarrow> Some (if gc_dup cl then er\<lparr>er_rc := E_FAKE\<rparr> else er)
   | Caid \<Rightarrow>
       (case chk_bcaid er (gc_ctab cl) of
          (True, er') \<Rightarrow> Some er' | (False, er') \<Rightarrow> Some (er'\<lparr>er_rc := E_INVALID, er_rcEx := E2_CAID\<rparr>))
   | Service \<Rightarrow>
       do { ok \<leftarrow> chk_srvid (sidtabs (gc_lb cfg)) cl er; Some (if ok then er else er\<lparr>er_rc := E_INVALID\<rparr>) }
   | User_Filter \<Rightarrow>
       do { (ok, er') \<leftarrow> chk_ufilters er cl; Some (if ok then er' else er'\<lparr>er_rc := E_INVALID\<rparr>) }
   | Server_Filter \<Rightarrow>
       do { (ok, er') \<leftarrow> chk_sfilter er (gc_ptab cfg) cl; Some (if ok then er' else er'\<lparr>er_rc := E_INVALID\<rparr>) }
   | Size \<Rightarrow>
       Some (if ecm_len < er_l er then er\<lparr>er_l := ecm_len\<rparr>
             else if er_l er < ecm_len then er\<lparr>er_rc := E_CORRUPT\<rparr> else er))"

fun check_loop ::
  "gc_config \<Rightarrow> gc_client \<Rightarrow> int \<Rightarrow> gc_check list \<Rightarrow> 'x ecm_request_scheme \<Rightarrow> 'x ecm_request_scheme option" where
  "check_loop cfg cl ecm_len [] er = Some er"
| "check_loop cfg cl ecm_len (c # cs) er =
     (if er_rc er < E_UNHANDLED then Some er
      else do { er' \<leftarrow> run_check cfg cl ecm_len c er; check_loop cfg cl ecm_len cs er' })"

definition request_checks ::
  "gc_config \<Rightarrow> gc_client \<Rightarrow> int \<Rightarrow> 'x ecm_request_scheme \<Rightarrow> (gc_client \<times> 'x ecm_request_scheme) option option" where
  "request_checks cfg cl t er =
     (if er_rc er < E_UNHANDLED then Some (Some (cl, er))
      else case sleep_check cl t er of
        None \<Rightarrow> Some None
      | Some (cl', er1) \<Rightarrow> do {
          len \<leftarrow> ecm_length (er_ecm er1);
          er2 \<leftarrow> check_loop cfg cl' (int len) [Dup, Caid, Service, User_Filter, Server_Filter, Size] er1;
          Some (Some (cl', er2)) })"

section \<open>Tunnel and fingerprint\<close>

text \<open>\<open>MD5\<close> over \<open>er->l - offset\<close> bytes from \<open>offset\<close>; a length below the offset is undefined.\<close>

definition fingerprint :: "(u8 list \<Rightarrow> u8 list) \<Rightarrow> lb_request \<Rightarrow> lb_request option" where
  "fingerprint MD5 er =
     (let offset = (if drop_bit 8 (er_caid er) = 0x17 then 13 else 3) in
      if offset \<le> er_l er \<and> nat (er_l er) \<le> length (er_ecm er)
      then Some (er\<lparr>er_ecmd5 := MD5 (take (nat (er_l er - offset)) (drop (nat offset) (er_ecm er)))\<rparr>)
      else None)"

definition tunnel_stage ::
  "gc_config \<Rightarrow> (u8 list \<Rightarrow> u8 list) \<Rightarrow> gc_client \<Rightarrow> u8 list \<Rightarrow> lb_request \<Rightarrow> (gc_client \<times> lb_request \<times> u8 list) option" where
  "tunnel_stage cfg MD5 cl acmd5 er =
     (if er_rc er < E_UNHANDLED then Some (cl, er, acmd5)
      else do {
        er1 \<leftarrow> (if gc_ttab cl \<noteq> [] then cs_betatunnel (gc_ttab cl) er else Some er);
        er2 \<leftarrow> fingerprint MD5 er1;
        Some (ac_chk (gc_ac cfg) (gc_penalty cl) acmd5 cl er2 0) })"

section \<open>The readers of a request\<close>

text \<open>Primary readers go to the front of the list, fallback readers to its end.\<close>

record match_state =
  m_nodes :: "rnode list"
  m_fallback :: "nat option"
  m_avail :: int
  m_next :: nat

definition add_match :: "lb_config \<Rightarrow> lb_reader \<Rightarrow> nat \<Rightarrow> match_state \<Rightarrow> match_state" where
  "add_match cfg rdr i m =
     \<lparr>m_nodes = (if rdr_fallback rdr then m_nodes m @ [(m_next m, i)] else (m_next m, i) # m_nodes m),
      m_fallback = (if rdr_fallback rdr \<and> m_fallback m = None then Some (m_next m) else m_fallback m),
      m_avail = (if lb_mode cfg \<noteq> 0 \<or> \<not> rdr_fallback rdr then m_avail m + 1 else m_avail m),
      m_next = m_next m + 1\<rparr>"

fun match_loop ::
  "lb_config \<Rightarrow> (nat \<Rightarrow> (lb_reader \<Rightarrow> bool) option) \<Rightarrow> gc_client \<Rightarrow> lb_request \<Rightarrow> lb_reader list \<Rightarrow> nat list \<Rightarrow>
   match_state \<Rightarrow> match_state option" where
  "match_loop cfg avail1 cl er rs [] m = Some m"
| "match_loop cfg avail1 cl er rs (i # is) m = do {
     rdr \<leftarrow> fetch rs i;
     ok \<leftarrow> matching_reader (sidtabs cfg) (avail1 i) cl er rdr;
     match_loop cfg avail1 cl er rs is (if ok then add_match cfg rdr i m else m) }"

definition match_readers ::
  "lb_config \<Rightarrow> (nat \<Rightarrow> (lb_reader \<Rightarrow> bool) option) \<Rightarrow> gc_client \<Rightarrow> lb_world \<Rightarrow> nat \<Rightarrow> lb_request \<Rightarrow>
   (nat \<times> lb_request) option" where
  "match_readers cfg avail1 cl w node er = do {
     m \<leftarrow> match_loop cfg avail1 cl er (readers w) (active w)
           \<lparr>m_nodes = matching_rdr er, m_fallback = fallback er, m_avail = 0, m_next = node\<rparr>;
     Some (m_next m, er\<lparr>matching_rdr := m_nodes m, fallback := m_fallback m, reader_avail := m_avail m\<rparr>) }"

definition before_fallback :: "lb_request \<Rightarrow> rnode list" where
  "before_fallback er = takeWhile (\<lambda>(node, i). Some node \<noteq> fallback er) (matching_rdr er)"

definition count_readers :: "lb_request \<Rightarrow> lb_request" where
  "count_readers er0 =
     (let er = er0\<lparr>reader_count := reader_count er0 + int (length (before_fallback er0))\<rparr> in
      case matching_rdr er of
        [] \<Rightarrow> er\<lparr>er_rc := E_NOTFOUND, er_rcEx := if er_rcEx er = 0 then E2_GROUP else er_rcEx er\<rparr>
      | (node, i) # _ \<Rightarrow>
          if fallback er = Some node then er\<lparr>fallback := None, reader_count := reader_avail er\<rparr> else er)"

definition readers_stage ::
  "gc_config \<Rightarrow> (u8 list \<Rightarrow> u8 list) \<Rightarrow> (nat \<Rightarrow> timeb) \<Rightarrow> (nat \<Rightarrow> (lb_reader \<Rightarrow> bool) option) \<Rightarrow> (lb_reader \<Rightarrow> bool) option \<Rightarrow>
   bool \<Rightarrow> gc_client \<Rightarrow> gc_world \<Rightarrow> lb_request \<Rightarrow> (gc_world \<times> lb_request) option" where
  "readers_stage cfg MD5 clk avail1 avail mem cl w er =
     (if er_rc er < E_99 then Some (w, er)
      else do {
        (node, er1) \<leftarrow> match_readers (gc_lb cfg) avail1 cl (gw_lb w) (gw_node w) er;
        (lbw, er2) \<leftarrow> (if lb_mode (gc_lb cfg) \<noteq> 0 \<and> reader_avail er1 \<noteq> 0 then do {
                         (b, lbw, er2) \<leftarrow> get_best_reader (gc_lb cfg) MD5 clk avail mem node (gw_lb w) er1;
                         Some (lbw, er2) }
                      else Some (gw_lb w, er1));
        let er3 = count_readers er2;
        let w1 = w\<lparr>gw_lb := lbw, gw_node := node + 4 * length (matching_rdr er1) + 1\<rparr>;
        (if er_rc er3 = E_UNHANDLED
         then (let r = check_and_store_ecmcache (ctimeout (gc_lb cfg)) (now lbw) (gw_entry w) (cl_grp cl) (gw_cache w) er3 in
               Some (w1\<lparr>gw_cache := fst r, gw_entry := gw_entry w + 1\<rparr>, (fst (snd r))\<lparr>er_rc := snd (snd r)\<rparr>))
         else Some (w1, er3)) })"

section \<open>Dispatch\<close>

text \<open>The loop of \<open>request_cw\<close> over the nodes it asks: \<open>pipe\<close> tells for each reader whether the write to
  its pipe succeeded. The result holds the readers written to, the error counts and the readers that
  are restarted.\<close>

fun request_loop ::
  "lb_reader list \<Rightarrow> nat \<Rightarrow> (nat \<Rightarrow> bool) \<Rightarrow> rnode list \<Rightarrow> (nat \<Rightarrow> int) \<Rightarrow> (nat list \<times> (nat \<Rightarrow> int) \<times> nat list) option" where
  "request_loop rs types pipe [] err = Some ([], err, [])"
| "request_loop rs types pipe ((node, i) # ns) err = do {
     rdr \<leftarrow> fetch rs i;
     let net = (rdr_typ rdr AND R_IS_NETWORK \<noteq> 0);
     let ask = (types = 0 \<or> types = 1 \<and> \<not> net \<or> types = 2 \<and> net);
     let failed = (ask \<and> \<not> pipe i);
     let restart = (failed \<and> rdr_fd rdr \<noteq> 0 \<and> 5 < err i + 1);
     let err' = (if \<not> failed then err(i := 0) else if rdr_fd rdr = 0 then err
                 else if restart then err(i := 0) else err(i := err i + 1));
     (asked, err'', restarts) \<leftarrow> request_loop rs types pipe ns err';
     Some (if ask \<and> pipe i then i # asked else asked, err'', if restart then i # restarts else restarts) }"

definition request_cw ::
  "lb_reader list \<Rightarrow> (nat \<Rightarrow> bool) \<Rightarrow> (nat \<Rightarrow> int) \<Rightarrow> lb_request \<Rightarrow> nat \<Rightarrow> nat \<Rightarrow>
   (lb_request \<times> nat list \<times> (nat \<Rightarrow> int) \<times> nat list) option" where
  "request_cw rs pipe err er flag types = do {
     let er' = (if types = 0 \<or> types = 2 then er\<lparr>level := flag\<rparr> else er);
     (asked, err', restarts) \<leftarrow>
       request_loop rs types pipe (if flag = 0 then before_fallback er' else matching_rdr er') err;
     Some (er', asked, err', restarts) }"

definition dispatch ::
  "gc_config \<Rightarrow> (nat \<Rightarrow> bool) \<Rightarrow> gc_world \<Rightarrow> lb_request \<Rightarrow> (gc_outcome \<times> lb_request \<times> gc_world) option" where
  "dispatch cfg pipe w er =
     (if er_rc er = E_99 then Some (Waiting, er, w)
      else if er_rc er < E_UNHANDLED then Some (Answered, er, w)
      else do {
        (er', asked, err', restarts) \<leftarrow> request_cw (readers (gw_lb w)) pipe (gw_fd_error w) (er\<lparr>er_rcEx := 0\<rparr>) 0
                                         (if preferlocalcards (gc_lb cfg) then 1 else 0);
        Some (Sent asked restarts, er', w\<lparr>gw_fd_error := err'\<rparr>) })"

definition get_cw ::
  "gc_config \<Rightarrow> (u8 list \<Rightarrow> u8 list) \<Rightarrow> (nat \<Rightarrow> timeb) \<Rightarrow> (nat \<Rightarrow> (lb_reader \<Rightarrow> bool) option) \<Rightarrow> (lb_reader \<Rightarrow> bool) option \<Rightarrow>
   bool \<Rightarrow> (nat \<Rightarrow> bool) \<Rightarrow> int \<Rightarrow> gc_client \<Rightarrow> gc_world \<Rightarrow> lb_request \<Rightarrow>
   (gc_outcome \<times> gc_client \<times> lb_request \<times> gc_world) option" where
  "get_cw cfg MD5 clk avail1 avail mem pipe minutes cl0 w er0 = do {
     let t = now (gw_lb w);
     let cl = cl0\<lparr>gc_lastecm := t\<rparr>;
     er1 \<leftarrow> normalise cfg cl er0;
     (case account_checks cl minutes er1 of
        None \<Rightarrow> Some (Killed, cl, er1, w)
      | Some er2 \<Rightarrow> do {
          r \<leftarrow> request_checks cfg cl t er2;
          (case r of
             None \<Rightarrow> Some (Killed, cl, er2, w)
           | Some (cl1, er3) \<Rightarrow> do {
               (cl2, er4, acmd5) \<leftarrow> tunnel_stage cfg MD5 cl1 (gw_acmd5 w) er3;
               (w1, er5) \<leftarrow> readers_stage cfg MD5 clk avail1 avail mem cl2 (w\<lparr>gw_acmd5 := acmd5\<rparr>) er4;
               (out, er6, w2) \<leftarrow> dispatch cfg pipe w1 er5;
               Some (out, cl2, er6, w2) }) }) }"

section \<open>What a passed check means\<close>

lemma check_loop_step:
  assumes "check_loop cfg cl len (c # cs) er = Some er'" "E_UNHANDLED \<le> er_rc er'"
  obtains er1 where "run_check cfg cl len c er = Some er1" "check_loop cfg cl len cs er1 = Some er'"
    "E_UNHANDLED \<le> er_rc er"
  using assms by (auto split: if_splits bind_splits)

lemma check_loop_rc: "check_loop cfg cl len cs er = Some er' \<Longrightarrow> E_UNHANDLED \<le> er_rc er' \<Longrightarrow> E_UNHANDLED \<le> er_rc er"
  by (cases cs) (auto split: if_splits bind_splits)

lemma run_check_passed:
  assumes "run_check cfg cl len c er = Some er1" "E_UNHANDLED \<le> er_rc er1"
  shows "case c of Dup \<Rightarrow> \<not> gc_dup cl \<and> er1 = er
     | Caid \<Rightarrow> 0 \<le> chk_caid (er_caid er) (gc_ctab cl) \<and> er_l er1 = er_l er
     | Service \<Rightarrow> chk_srvid (sidtabs (gc_lb cfg)) cl er = Some True \<and> er1 = er
     | User_Filter \<Rightarrow> (\<exists>er2. chk_ufilters er cl = Some (True, er2)) \<and> er_l er1 = er_l er
     | Server_Filter \<Rightarrow> (\<exists>er2. chk_sfilter er (gc_ptab cfg) cl = Some (True, er2)) \<and> er_l er1 = er_l er
     | Size \<Rightarrow> er_l er1 = len \<and> len \<le> er_l er"
proof -
  have u: "chk_ufilters er cl = Some (ok, e) \<Longrightarrow> er_l e = er_l er" for ok e
    by (auto simp: chk_ufilters_def set_rcEx_def split: if_splits bind_splits)
  have s: "chk_sfilter er p cl = Some (ok, e) \<Longrightarrow> er_l e = er_l er" for p ok e
    by (auto simp: chk_sfilter_def set_rcEx_def split: if_splits bind_splits option.splits list.splits)
  have neg: "\<not> E_UNHANDLED \<le> E_FAKE" "\<not> E_UNHANDLED \<le> E_INVALID" "\<not> E_UNHANDLED \<le> E_CORRUPT"
    by (simp_all add: rc_defs gc_rc_defs)
  show ?thesis
  proof (cases c)
    case Dup then show ?thesis using assms neg by (auto simp: run_check_def split: if_splits)
  next
    case Caid then show ?thesis
      using assms neg by (auto simp: run_check_def chk_bcaid_def Let_def split: if_splits)
  next
    case Service then show ?thesis
      using assms neg by (auto simp: run_check_def split: if_splits bind_splits)
  next
    case User_Filter then show ?thesis
      using assms neg u by (auto simp: run_check_def split: if_splits bind_splits)
  next
    case Server_Filter then show ?thesis
      using assms neg s by (auto simp: run_check_def split: if_splits bind_splits)
  next
    case Size then show ?thesis
      using assms neg by (auto simp: run_check_def split: if_splits)
  qed
qed

lemma check_loop_passed:
  fixes er er' :: "'x ecm_request_scheme"
  assumes "check_loop cfg cl len [Dup, Caid, Service, User_Filter, Server_Filter, Size] er = Some er'"
    and "E_UNHANDLED \<le> er_rc er'"
  shows "\<not> gc_dup cl \<and> 0 \<le> chk_caid (er_caid er) (gc_ctab cl) \<and>
    (\<exists>e :: 'x ecm_request_scheme.
       chk_srvid (sidtabs (gc_lb cfg)) cl e = Some True \<and> (\<exists>e'. chk_ufilters e cl = Some (True, e'))) \<and>
    er_l er' = len"
proof -
  obtain e1 where 1: "run_check cfg cl len Dup er = Some e1"
    "check_loop cfg cl len [Caid, Service, User_Filter, Server_Filter, Size] e1 = Some er'"
    by (rule check_loop_step [OF assms])
  obtain e2 where 2: "run_check cfg cl len Caid e1 = Some e2"
    "check_loop cfg cl len [Service, User_Filter, Server_Filter, Size] e2 = Some er'"
    by (rule check_loop_step [OF 1(2) assms(2)])
  obtain e3 where 3: "run_check cfg cl len Service e2 = Some e3"
    "check_loop cfg cl len [User_Filter, Server_Filter, Size] e3 = Some er'"
    by (rule check_loop_step [OF 2(2) assms(2)])
  obtain e4 where 4: "run_check cfg cl len User_Filter e3 = Some e4"
    "check_loop cfg cl len [Server_Filter, Size] e4 = Some er'"
    by (rule check_loop_step [OF 3(2) assms(2)])
  obtain e5 where 5: "run_check cfg cl len Server_Filter e4 = Some e5" "check_loop cfg cl len [Size] e5 = Some er'"
    by (rule check_loop_step [OF 4(2) assms(2)])
  obtain e6 where 6: "run_check cfg cl len Size e5 = Some e6" "check_loop cfg cl len [] e6 = Some er'"
    by (rule check_loop_step [OF 5(2) assms(2)])
  note rc = check_loop_rc [OF 1(2) assms(2)] check_loop_rc [OF 2(2) assms(2)] check_loop_rc [OF 3(2) assms(2)]
    check_loop_rc [OF 4(2) assms(2)] check_loop_rc [OF 6(2) assms(2)]
  have e: "e1 = er" "\<not> gc_dup cl" using run_check_passed [OF 1(1) rc(1)] by simp_all
  have c: "0 \<le> chk_caid (er_caid er) (gc_ctab cl)" using run_check_passed [OF 2(1) rc(2)] e(1) by simp
  have s: "chk_srvid (sidtabs (gc_lb cfg)) cl e3 = Some True" using run_check_passed [OF 3(1) rc(3)] by auto
  have u: "\<exists>e'. chk_ufilters e3 cl = Some (True, e')" using run_check_passed [OF 4(1) rc(4)] by simp
  have l: "er_l er' = len" using run_check_passed [OF 6(1) rc(5)] 6(2) by simp
  show ?thesis using e(2) c s u l by blast
qed

lemma request_checks_passed:
  fixes er er' :: "'x ecm_request_scheme"
  assumes "request_checks cfg cl t er = Some (Some (cl', er'))" "E_UNHANDLED \<le> er_rc er'"
  obtains len where "ecm_length (er_ecm er) = Some len" "\<not> gc_dup cl'" "er_l er' = int len"
    "\<exists>e :: 'x ecm_request_scheme. chk_srvid (sidtabs (gc_lb cfg)) cl' e = Some True \<and>
       (\<exists>e'. chk_ufilters e cl' = Some (True, e'))"
proof -
  from assms have nr: "\<not> er_rc er < E_UNHANDLED"
    by (auto simp: request_checks_def)
  with assms(1) obtain er1 len where s: "sleep_check cl t er = Some (cl', er1)" "ecm_length (er_ecm er1) = Some len"
    "check_loop cfg cl' (int len) [Dup, Caid, Service, User_Filter, Server_Filter, Size] er1 = Some er'"
    by (auto simp: request_checks_def simp del: check_loop.simps split: option.splits bind_splits)
  have "er_ecm er1 = er_ecm er" using s(1) by (auto simp: sleep_check_def Let_def split: if_splits)
  with check_loop_passed [OF s(3) assms(2)] s(2) that show thesis by auto
qed

section \<open>Whom a request reaches\<close>

lemma match_loop_sound:
  assumes "match_loop cfg avail1 cl er rs is m = Some m'"
  shows "snd ` set (m_nodes m') \<subseteq> snd ` set (m_nodes m) \<union>
    {i \<in> set is. i < length rs \<and> matching_reader (sidtabs cfg) (avail1 i) cl er (rs ! i) = Some True}"
  using assms
proof (induction cfg avail1 cl er rs "is" m rule: match_loop.induct)
  case (2 cfg avail1 cl er rs i "is" m)
  from "2.prems" obtain ok where ok: "i < length rs"
    "matching_reader (sidtabs cfg) (avail1 i) cl er (rs ! i) = Some ok"
    "match_loop cfg avail1 cl er rs is (if ok then add_match cfg (rs ! i) i m else m) = Some m'"
    by (auto simp: buf_simps split: bind_splits)
  have r: "fetch rs i = Some (rs ! i)" using ok(1) by simp
  from "2.IH" [OF r ok(2,3)] ok(1,2) show ?case
    by (cases ok) (auto simp: add_match_def split: if_splits)
qed simp

lemma matching_has_client: "matching_reader sids av cl er r = Some True \<Longrightarrow> rdr_client r \<noteq> None"
  by (cases "rdr_client r") (simp_all add: matching_reader_def)

lemma set_before_fallback: "set (before_fallback er) \<subseteq> set (matching_rdr er)"
  by (auto simp: before_fallback_def dest: set_takeWhileD)

lemma request_loop_subset:
  "request_loop rs types pipe ns err = Some (asked, err', restarts) \<Longrightarrow> set asked \<subseteq> snd ` set ns"
proof (induction rs types pipe ns err arbitrary: asked err' restarts rule: request_loop.induct)
  case (2 rs types pipe node i ns err)
  then show ?case by (fastforce simp: Let_def split: bind_splits if_splits)
qed simp

lemma request_cw_subset:
  assumes "request_cw rs pipe err er 0 types = Some (x, asked, err', restarts)"
  shows "set asked \<subseteq> snd ` set (matching_rdr er)"
proof -
  obtain er1 where "matching_rdr er1 = matching_rdr er"
    "request_loop rs types pipe (before_fallback er1) err = Some (asked, err', restarts)"
    using assms that [of er] that [of "er\<lparr>level := 0\<rparr>"]
    by (auto simp: request_cw_def Let_def split: bind_splits if_splits)
  with request_loop_subset [of rs types pipe "before_fallback er1"] set_before_fallback [of er1] show ?thesis by fastforce
qed

lemma count_readers_nodes: "matching_rdr (count_readers er) = matching_rdr er"
  by (auto simp: count_readers_def Let_def split: list.splits)

lemma tunnel_ecm: "cs_betatunnel tab er = Some er' \<Longrightarrow> length (er_ecm er) = 512 \<Longrightarrow>
    length (er_ecm er') = 512 \<and> matching_rdr er' = matching_rdr er \<and> er_rc er' = er_rc er"
proof (induction tab er rule: cs_betatunnel.induct)
  case (2 t ttab er)
  have "convert_to_beta er c = Some er' \<Longrightarrow> er_rc er' = er_rc er" for c
    by (auto simp: convert_to_beta_def Let_def split: bind_splits if_splits)
  with 2 convert_to_beta_ok [of er "bt_caidto t"] show ?case by (auto split: if_splits)
qed simp

text \<open>The corrections and the checks touch neither the ECM nor the reader list.\<close>

definition same_lists :: "lb_request \<Rightarrow> lb_request \<Rightarrow> bool" where
  "same_lists er er' \<longleftrightarrow> er_ecm er' = er_ecm er \<and> matching_rdr er' = matching_rdr er"

lemma same_lists_refl [simp]: "same_lists er er"
  by (simp add: same_lists_def)

lemma same_lists_trans [trans]: "same_lists a b \<Longrightarrow> same_lists b c \<Longrightarrow> same_lists a c"
  by (simp add: same_lists_def)

lemma same_lists_upd [simp]:
  "same_lists a (b\<lparr>er_caid := c\<rparr>) = same_lists a b" "same_lists a (b\<lparr>er_prid := p\<rparr>) = same_lists a b"
  "same_lists a (b\<lparr>er_srvid := s\<rparr>) = same_lists a b" "same_lists a (b\<lparr>er_chid := s\<rparr>) = same_lists a b"
  "same_lists a (b\<lparr>er_rc := r\<rparr>) = same_lists a b" "same_lists a (b\<lparr>er_rcEx := x\<rparr>) = same_lists a b"
  "same_lists a (b\<lparr>er_ocaid := c\<rparr>) = same_lists a b" "same_lists a (b\<lparr>er_l := l\<rparr>) = same_lists a b"
  "same_lists a (b\<lparr>er_ecmd5 := m\<rparr>) = same_lists a b"
  by (simp_all add: same_lists_def)

lemma same_lists_if: "same_lists a x \<Longrightarrow> same_lists a y \<Longrightarrow> same_lists a (if b then x else y)"
  by simp

definition keeps :: "lb_request \<Rightarrow> lb_request option \<Rightarrow> bool" where
  "keeps er r \<longleftrightarrow> (\<forall>er'. r = Some er' \<longrightarrow> same_lists er er')"

lemma keepsD: "keeps er r \<Longrightarrow> r = Some er' \<Longrightarrow> same_lists er er'"
  by (simp add: keeps_def)

lemma keeps_Some: "same_lists er er' \<Longrightarrow> keeps er (Some er')"
  by (simp add: keeps_def)

lemma keeps_None: "keeps er None"
  by (simp add: keeps_def)

lemma keeps_if: "keeps er x \<Longrightarrow> keeps er y \<Longrightarrow> keeps er (if b then x else y)"
  by simp

lemma keeps_bind: "(\<And>x. keeps er (f x)) \<Longrightarrow> keeps er (m \<bind> f)"
  by (cases m) (simp_all add: keeps_def)

lemma keeps_bind_er: "keeps er m \<Longrightarrow> (\<And>x. same_lists er x \<Longrightarrow> keeps er (f x)) \<Longrightarrow> keeps er (m \<bind> f)"
  by (cases m) (simp_all add: keeps_def)

lemma keeps_Let: "(\<And>x. keeps er (f x)) \<Longrightarrow> keeps er (Let s f)"
  by (simp add: Let_def)

lemma keeps_Let_er: "same_lists er s \<Longrightarrow> (\<And>x. same_lists er x \<Longrightarrow> keeps er (f x)) \<Longrightarrow> keeps er (Let s f)"
  by (simp add: Let_def)

lemma same_Let: "(\<And>x. same_lists er x \<Longrightarrow> same_lists er (f x)) \<Longrightarrow> same_lists er s \<Longrightarrow> same_lists er (Let s f)"
  by (simp add: Let_def)

lemmas keeps_intros = keeps_Let_er keeps_bind_er keeps_Let keeps_bind keeps_Some keeps_None keeps_if same_lists_if

lemma guess_irdeto_keeps: "same_lists er er1 \<Longrightarrow> keeps er (guess_irdeto itab er1)"
proof -
  assume s: "same_lists er er1"
  have l: "same_lists er (guess_irdeto_loop er1 b gs)" for b gs
    using s by (induction er1 b gs rule: guess_irdeto_loop.induct) auto
  show ?thesis unfolding guess_irdeto_def by (rule keeps_intros | simp add: s l)+
qed

lemma guess_cardsystem_keeps: "keeps er (guess_cardsystem len4caid itab er)"
  unfolding guess_cardsystem_def
  by (rule keeps_intros guess_irdeto_keeps | simp)+

lemma quickfix_keeps: "same_lists er er1 \<Longrightarrow> keeps er (quickfix er1)"
  unfolding quickfix_def by (rule keeps_intros | simp)+

lemma find_provider_keeps: "same_lists er er1 \<Longrightarrow> keeps er (find_provider cfg cl er1)"
  unfolding find_provider_def by (rule keeps_intros | simp)+

lemma normalise_keeps: "keeps er (normalise cfg cl er)"
  unfolding normalise_def
  by (rule keeps_intros guess_cardsystem_keeps quickfix_keeps find_provider_keeps | simp | assumption)+

lemma account_checks_keeps: "same_lists er er1 \<Longrightarrow> keeps er (account_checks cl minutes er1)"
  unfolding account_checks_def by (rule keeps_intros | simp)+

lemma sleep_check_keeps: "sleep_check cl t er = Some (cl', er') \<Longrightarrow> same_lists er er'"
  by (auto simp: sleep_check_def Let_def split: if_splits)

lemma run_check_keeps: "same_lists er er1 \<Longrightarrow> keeps er (run_check cfg cl len c er1)"
proof -
  assume s: "same_lists er er1"
  have "chk_ufilters er1 cl = Some (ok, e) \<Longrightarrow> same_lists er e" for ok e
    using s by (auto simp: chk_ufilters_def set_rcEx_def split: if_splits bind_splits)
  moreover have "chk_sfilter er1 p cl = Some (ok, e) \<Longrightarrow> same_lists er e" for p ok e
    using s by (auto simp: chk_sfilter_def set_rcEx_def split: if_splits bind_splits option.splits list.splits)
  ultimately show ?thesis
    using s by (auto simp: keeps_def run_check_def chk_bcaid_def Let_def split: gc_check.splits if_splits bind_splits)
qed

lemma check_loop_keeps: "same_lists er er1 \<Longrightarrow> keeps er (check_loop cfg cl len cs er1)"
proof (induction cfg cl len cs er1 rule: check_loop.induct)
  case (2 cfg cl len c cs er1)
  then show ?case
    using keepsD [OF run_check_keeps [OF "2.prems"]] by (auto simp: keeps_def split: bind_splits)
qed (simp add: keeps_Some)

lemma request_checks_keeps:
  assumes "request_checks cfg cl t er = Some (Some (cl', er'))"
  shows "same_lists er er'"
proof (cases "er_rc er < E_UNHANDLED")
  case True then show ?thesis using assms by (simp add: request_checks_def)
next
  case False
  with assms obtain er1 len where s: "sleep_check cl t er = Some (cl', er1)"
    "check_loop cfg cl' (int len) [Dup, Caid, Service, User_Filter, Server_Filter, Size] er1 = Some er'"
    by (auto simp: request_checks_def simp del: check_loop.simps split: option.splits bind_splits)
  show ?thesis by (rule keepsD [OF check_loop_keeps [OF sleep_check_keeps [OF s(1)]] s(2)])
qed

section \<open>Properties\<close>

lemma ac_chk_level0: "\<exists>er'. ac_chk cfg p md5 c er 0 = (c, er', md5) \<and> same_lists er er' \<and>
    (E_UNHANDLED \<le> er_rc er' \<longrightarrow> er' = er)"
  by (auto simp: ac_chk_def rc_defs)

lemma fingerprint_same: "fingerprint MD5 er = Some er' \<Longrightarrow> same_lists er er' \<and> er_rc er' = er_rc er"
  by (auto simp: fingerprint_def Let_def split: if_splits)

lemma tunnel_stage_ok:
  assumes "tunnel_stage cfg MD5 cl acmd5 er = Some (cl', er', md5')" "length (er_ecm er) = 512" "E_UNHANDLED \<le> er_rc er'"
  shows "cl' = cl \<and> length (er_ecm er') = 512 \<and> matching_rdr er' = matching_rdr er \<and> E_UNHANDLED \<le> er_rc er"
proof (cases "er_rc er < E_UNHANDLED")
  case True then show ?thesis using assms by (simp add: tunnel_stage_def)
next
  case False
  with assms(1) obtain er1 er2 where s: "(if gc_ttab cl \<noteq> [] then cs_betatunnel (gc_ttab cl) er else Some er) = Some er1"
    "fingerprint MD5 er1 = Some er2" "ac_chk (gc_ac cfg) (gc_penalty cl) acmd5 cl er2 0 = (cl', er', md5')"
    by (auto simp: tunnel_stage_def split: bind_splits)
  have 1: "length (er_ecm er1) = 512 \<and> matching_rdr er1 = matching_rdr er"
    using s(1) tunnel_ecm [of "gc_ttab cl" er er1] assms(2) by (auto split: if_splits)
  with fingerprint_same [OF s(2)] s(3) ac_chk_level0 [of "gc_ac cfg" "gc_penalty cl" acmd5 cl er2] False
  show ?thesis by (auto simp: same_lists_def)
qed

lemma convert_to_beta_rc: "convert_to_beta er c = Some er' \<Longrightarrow> er_rc er' = er_rc er"
  by (auto simp: convert_to_beta_def Let_def split: bind_splits if_splits)

lemma get_best_reader_rc:
  assumes "get_best_reader cfg MD5 clk avail mem fresh w er = Some (b, w', er')"
  shows "er_rc er' = er_rc er"
proof -
  have "beta_decide cfg MD5 w er p = Some (w1, er1) \<Longrightarrow> er_rc er1 = er_rc er" for p w1 er1
    by (auto simp: beta_decide_def convert_to_beta_int_def Let_def split: if_splits bind_splits dest: convert_to_beta_rc)
  moreover have "lb_rank cfg clk avail mem fresh w1 er1 p = Some (w2, er2) \<Longrightarrow> er_rc er2 = er_rc er1" for w1 er1 p w2 er2
    by (auto simp: lb_rank_def Let_def split: bind_splits)
  ultimately have "lb_run cfg MD5 clk avail mem fresh w er = Some (b, w', er') \<Longrightarrow> er_rc er' = er_rc er"
    by (fastforce simp: lb_run_def Let_def split: bind_splits)
  with assms show ?thesis by (auto simp: get_best_reader_def split: if_splits option.splits)
qed

lemma readers_stage_rc:
  assumes "readers_stage cfg MD5 clk avail1 avail mem cl w er = Some (w', er')" "E_UNHANDLED \<le> er_rc er'"
  shows "E_UNHANDLED \<le> er_rc er"
proof (cases "er_rc er < E_99")
  case True then show ?thesis using assms by (auto simp: readers_stage_def)
next
  case False
  with assms(1) obtain node er1 lbw er2 where
    m: "match_readers (gc_lb cfg) avail1 cl (gw_lb w) (gw_node w) er = Some (node, er1)" and
    g: "(if lb_mode (gc_lb cfg) \<noteq> 0 \<and> reader_avail er1 \<noteq> 0 then do {
           (b, lbw, er2) \<leftarrow> get_best_reader (gc_lb cfg) MD5 clk avail mem node (gw_lb w) er1; Some (lbw, er2) }
         else Some (gw_lb w, er1)) = Some (lbw, er2)" and
    c: "er_rc (count_readers er2) = E_UNHANDLED \<or> er' = count_readers er2"
    by (auto simp: readers_stage_def Let_def split: bind_splits if_splits option.splits prod.splits)
  have "er_rc er1 = er_rc er" using m by (auto simp: match_readers_def split: bind_splits)
  moreover have "er_rc er2 = er_rc er1"
    using g by (auto split: if_splits bind_splits dest: get_best_reader_rc)
  moreover have "E_UNHANDLED \<le> er_rc (count_readers er2)" using c assms(2) by (auto simp: rc_defs)
  ultimately show ?thesis
    by (auto simp: count_readers_def Let_def rc_defs split: list.splits if_splits)
qed

lemma readers_stage_ok:
  assumes "readers_stage cfg MD5 clk avail1 avail mem cl w er = Some (w', er')" "E_UNHANDLED \<le> er_rc er'"
    and "length (er_ecm er) = 512" "matching_rdr er = []"
    and "length (sidtabs (gc_lb cfg)) \<le> 64" "lb_reopen_seconds (gc_lb cfg) \<noteq> 0"
    and "\<forall>i \<in> set (active (gw_lb w)). i < length (readers (gw_lb w))"
  shows "E_UNHANDLED \<le> er_rc er \<and> snd ` set (matching_rdr er') \<subseteq> {i \<in> set (active (gw_lb w)).
      matching_reader (sidtabs (gc_lb cfg)) (avail1 i) cl er (readers (gw_lb w) ! i) = Some True}"
proof -
  let ?M = "{i \<in> set (active (gw_lb w)). i < length (readers (gw_lb w)) \<and>
      matching_reader (sidtabs (gc_lb cfg)) (avail1 i) cl er (readers (gw_lb w) ! i) = Some True}"
  have "\<not> er_rc er < E_99" using assms(1,2) by (auto simp: readers_stage_def rc_defs E_99_def)
  with assms(1) obtain node er1 lbw er2 where
    m: "match_readers (gc_lb cfg) avail1 cl (gw_lb w) (gw_node w) er = Some (node, er1)" and
    g: "(if lb_mode (gc_lb cfg) \<noteq> 0 \<and> reader_avail er1 \<noteq> 0 then do {
           (b, lbw, er2) \<leftarrow> get_best_reader (gc_lb cfg) MD5 clk avail mem node (gw_lb w) er1; Some (lbw, er2) }
         else Some (gw_lb w, er1)) = Some (lbw, er2)" and
    c: "er_rc (count_readers er2) = E_UNHANDLED \<or> er' = count_readers er2" and
    n: "matching_rdr er' = matching_rdr (count_readers er2)"
    by (auto simp: readers_stage_def check_and_store_ecmcache_def Let_def split: bind_splits if_splits option.splits prod.splits)
  from m obtain ms where ms: "match_loop (gc_lb cfg) avail1 cl er (readers (gw_lb w)) (active (gw_lb w))
      \<lparr>m_nodes = matching_rdr er, m_fallback = fallback er, m_avail = 0, m_next = gw_node w\<rparr> = Some ms"
    "er1 = er\<lparr>matching_rdr := m_nodes ms, fallback := m_fallback ms, reader_avail := m_avail ms\<rparr>"
    by (auto simp: match_readers_def split: bind_splits)
  have sub1: "snd ` set (matching_rdr er1) \<subseteq> ?M" using match_loop_sound [OF ms(1)] assms(4) ms(2) by auto
  have ok: "lb_ok (gc_lb cfg) (gw_lb w) (map snd (matching_rdr er1))"
    using sub1 assms(5-7) matching_has_client unfolding lb_ok_def by fastforce
  have ecm: "length (er_ecm er1) = 512" "er_rc er1 = er_rc er" using assms(3) ms(2) by simp_all
  have b: "snd ` set (matching_rdr er2) \<subseteq> snd ` set (matching_rdr er1) \<and> er_rc er2 = er_rc er1"
  proof (cases "lb_mode (gc_lb cfg) \<noteq> 0 \<and> reader_avail er1 \<noteq> 0")
    case True
    with g obtain b where r: "get_best_reader (gc_lb cfg) MD5 clk avail mem node (gw_lb w) er1 = Some (b, lbw, er2)"
      by (auto split: bind_splits)
    have "snd ` set (matching_rdr er2) \<subseteq> snd ` set (matching_rdr er1)"
      using lb_run_ok [OF ok ecm(1), of MD5 clk avail mem node] r
      by (fastforce simp: get_best_reader_def intro: rev_image_eqI split: if_splits option.splits)
    with get_best_reader_rc [OF r] show ?thesis by simp
  next
    case False then show ?thesis using g by auto
  qed
  have "E_UNHANDLED \<le> er_rc (count_readers er2)" using c assms(2) by (auto simp: rc_defs)
  then have "E_UNHANDLED \<le> er_rc er2"
    by (auto simp: count_readers_def Let_def rc_defs split: list.splits if_splits)
  moreover have "snd ` set (matching_rdr er') \<subseteq> snd ` set (matching_rdr er1)"
    using b n by (simp add: count_readers_nodes)
  ultimately show ?thesis using b ecm(2) sub1 by auto
qed


definition gc_client_ex :: gc_client where
  "gc_client_ex = s_client.extend client_ex
     (gc_client.fields ((0, 0, 0) # replicate 31 (0, 0xFFFF, 0)) [] False 0 (0, 0) False False False 0 False 0 0 0 0 False 0)"

definition gc_config_ex :: gc_config where
  "gc_config_ex = \<lparr>gc_lb = lb_config_ex\<lparr>lb_mode := 0\<rparr>,
     gc_ac = \<lparr>ac_enabled = False, ac_stime = 60, ac_samples = 10, ac_denysamples = 8, cpmap = []\<rparr>,
     gc_len4caid = replicate 256 0, gc_itab = (\<lambda>_. []), gc_ncd_ports = [], gc_ptab = None\<rparr>"

definition gc_world_ex :: gc_world where
  "gc_world_ex = \<lparr>gw_lb = lb_world_ex [lb_reader_ex 0x21 0 300, lb_reader_ex 0x10 0 200], gw_cache = [], gw_entry = 0,
     gw_node = 10, gw_acmd5 = replicate 16 0, gw_fd_error = (\<lambda>_. 0)\<rparr>"


end
