(* ===== verification/Answer.thy ===== *)
theory Answer
  imports Request
begin

text \<open>
  The answers of \<open>oscam.c\<close>: \<open>get_ecmtask\<close>, \<open>write_ecm_answer\<close>, \<open>chk_dcw\<close>, \<open>send_dcw\<close>, \<open>distribute_ecm\<close> and
  \<open>chk_pending\<close>, over the clients' tables of open requests. A client is its position in the list that
  \<open>first_client->next\<close> starts; the client of a request is passed beside it. \<open>t\<close> is the clock of one call,
  \<open>pipe\<close> tells which pipes accept a message, \<open>mem\<close> is the answer of \<open>cs_malloc\<close>. Messages are appended
  to the world: \<open>an_answers\<close> are the calls of the protocol's \<open>send_dcw\<close>, \<open>an_pipes\<close> the requests written
  to client pipes, \<open>an_asked\<close> those written to readers. Left out are the log texts other than the
  reason of a rejection, the response-time displays, \<open>msglog\<close>, the LEDs and the double check
  (\<open>CS_WITH_DOUBLECHECK\<close>).
\<close>

section \<open>State\<close>

record cw_counts =
  cwfound :: int
  cwcache :: int
  cwnot :: int
  cwignored :: int
  cwtout :: int

record an_client = gc_client +
  an_tasks :: "lb_request list option"
  an_multi :: bool
  an_fd_m2c :: bool
  an_counts :: cw_counts
  an_lastresp :: int

record an_world = gc_world +
  an_clients :: "an_client list"
  an_accounts :: "cw_counts list"
  an_server :: cw_counts
  an_answers :: "(nat \<times> lb_request) list"
  an_pipes :: "(nat \<times> lb_request) list"
  an_asked :: "(nat \<times> lb_request) list"
  an_restarts :: "nat list"

definition CS_MAXPENDING :: nat where "CS_MAXPENDING = 32"
definition E_RDR_NOTFOUND :: int where "E_RDR_NOTFOUND = 0"
definition E_RDR_FOUND :: int where "E_RDR_FOUND = 1"
definition E_NOCARD :: int where "E_NOCARD = 10"

definition put_client :: "nat \<Rightarrow> an_client \<Rightarrow> an_world \<Rightarrow> an_world" where
  "put_client ci cl w = w\<lparr>an_clients := (an_clients w)[ci := cl]\<rparr>"

definition task_of :: "an_world \<Rightarrow> nat \<Rightarrow> nat \<Rightarrow> lb_request option" where
  "task_of w ci k = do { cl \<leftarrow> fetch (an_clients w) ci; ts \<leftarrow> an_tasks cl; fetch ts k }"

definition put_task :: "nat \<Rightarrow> nat \<Rightarrow> lb_request \<Rightarrow> an_world \<Rightarrow> an_world" where
  "put_task ci k er w =
     w\<lparr>an_clients := (an_clients w)[ci := (an_clients w ! ci)
         \<lparr>an_tasks := map_option (\<lambda>ts. ts[k := er]) (an_tasks (an_clients w ! ci))\<rparr>]\<rparr>"

section \<open>The table of open requests\<close>

definition zero_task :: lb_request where
  "zero_task = ecm_request.extend
     \<lparr>er_ecm = replicate 512 0, er_cw = replicate 16 0, er_ecmd5 = replicate 16 0, er_l = 0, er_caid = 0, er_ocaid = 0,
      er_srvid = 0, er_chid = 0, er_prid = 0, er_rc = 0, er_rcEx = 0\<rparr>
     (lb_request.fields [] None False None False None 0 0 0 None \<lparr>tb_time = 0, tb_millitm = 0\<rparr> 0 False 0)"

definition new_task :: "timeb \<Rightarrow> nat \<Rightarrow> lb_request" where
  "new_task t k = zero_task\<lparr>er_rc := E_UNHANDLED, cpti := k, er_client_alive := True, tps := t\<rparr>"

text \<open>The first slot that is not in use, with the number of used slots before it.\<close>

fun free_slot :: "lb_request list \<Rightarrow> nat \<Rightarrow> nat option" where
  "free_slot [] k = None"
| "free_slot (er # ers) k = (if er_rc er < E_99 then Some k else free_slot ers (k + 1))"

definition get_ecmtask :: "bool \<Rightarrow> timeb \<Rightarrow> nat \<Rightarrow> an_world \<Rightarrow> (an_world \<times> nat option) option" where
  "get_ecmtask mem t ci w = do {
     cl \<leftarrow> fetch (an_clients w) ci;
     (case (case an_tasks cl of
              Some ts \<Rightarrow> Some ts
            | None \<Rightarrow> if mem then Some (replicate (if an_multi cl then CS_MAXPENDING else 1) zero_task) else None) of
        None \<Rightarrow> Some (w, None)
      | Some ts \<Rightarrow>
          (let slot = (if an_multi cl then free_slot ts 0 else Some 0) in
           case slot of
             None \<Rightarrow> Some (put_client ci (cl\<lparr>an_tasks := Some ts, cl_pending := int (length ts) + 1\<rparr>) w, None)
           | Some k \<Rightarrow>
               Some (put_client ci (cl\<lparr>an_tasks := Some (ts[k := new_task t k]),
                                      cl_pending := int (if an_multi cl then k else 0) + 1\<rparr>) w, Some k))) }"

section \<open>An answer of a reader\<close>

definition write_ecm_answer ::
  "(nat \<Rightarrow> bool) \<Rightarrow> timeb \<Rightarrow> nat \<Rightarrow> nat option \<Rightarrow> an_world \<Rightarrow> lb_request \<Rightarrow> (an_world \<times> lb_request) option" where
  "write_ecm_answer pipe t rid ci w er = do {
     rdr \<leftarrow> fetch (readers (gw_lb w)) rid;
     let r = cw_check (rdr_dropbadcws rdr) (er_cw er) [0, 4, 8, 12];
     let er1 = er\<lparr>er_cw := snd r\<rparr>;
     let er2 = (if fst r then er1\<lparr>er_rc := E_RDR_NOTFOUND, er_rcEx := E2_WRONG_CHKSUM\<rparr> else er1);
     let er3 = er2\<lparr>selected_reader := Some rid, er_caid := er_ocaid er2\<rparr>;
     cache \<leftarrow> (if er_rc er3 = E_RDR_FOUND then store_cw_in_cache (tb_time t) (rdr_grp rdr) E_FOUND (gw_cache w) er3
              else Some (gw_cache w));
     let w1 = w\<lparr>gw_cache := cache\<rparr>;
     Some (case ci of
             Some c \<Rightarrow> if pipe c then w1\<lparr>an_pipes := an_pipes w1 @ [(c, er3)]\<rparr> else w1
           | None \<Rightarrow> w1, er3) }"

section \<open>The answer to the client\<close>

datatype cw_class = Found | Cached | Not_Found | Ignored | Timed_Out

definition classify :: "int \<Rightarrow> u8 \<Rightarrow> cw_class" where
  "classify rc rcEx =
     (if rc = E_FOUND \<or> rc = E_EMU then Found
      else if rc = E_CACHE1 \<or> rc = E_CACHE2 then Cached
      else if rc = E_NOTFOUND \<or> rc = E_CORRUPT \<or> rc = E_NOCARD then (if rcEx \<noteq> 0 then Ignored else Not_Found)
      else if rc = E_TIMEOUT then Timed_Out else Ignored)"

fun count_cw :: "cw_class \<Rightarrow> cw_counts \<Rightarrow> cw_counts" where
  "count_cw Found c = c\<lparr>cwfound := s32 (cwfound c + 1)\<rparr>"
| "count_cw Cached c = c\<lparr>cwcache := s32 (cwcache c + 1)\<rparr>"
| "count_cw Not_Found c = c\<lparr>cwnot := s32 (cwnot c + 1)\<rparr>"
| "count_cw Ignored c = c\<lparr>cwignored := s32 (cwignored c + 1)\<rparr>"
| "count_cw Timed_Out c = c\<lparr>cwtout := s32 (cwtout c + 1)\<rparr>"

text \<open>The tables of the texts; an index past the end is an access outside the array.\<close>

definition stxtEx :: "string list" where
  "stxtEx = [[], ''group'', ''caid'', ''ident'', ''class'', ''chid'', ''queue'', ''peer'']"

definition stxtWh :: "string list" where
  "stxtWh = [[], ''user '', ''reader '', ''server '', ''lserver '']"

definition rejected :: "u8 \<Rightarrow> string option" where
  "rejected rcEx =
     (if rcEx = 0 then Some []
      else do { wh \<leftarrow> fetch stxtWh (unat (drop_bit 4 rcEx)); ex \<leftarrow> fetch stxtEx (unat (rcEx AND 0xF));
                Some (''rejected '' @ wh @ ex) })"

definition send_reader_stat ::
  "lb_config \<Rightarrow> bool \<Rightarrow> timeb \<Rightarrow> nat option \<Rightarrow> lb_request \<Rightarrow> int \<Rightarrow> lb_world \<Rightarrow> lb_world option" where
  "send_reader_stat cfg mem t rdr er rc w =
     (if E_99 \<le> rc then Some w
      else case rdr of
        None \<Rightarrow> Some w
      | Some i \<Rightarrow> add_stat cfg mem w er i (max 1 (s32 (timeb_diff t (tps er)))) rc)"

definition send_dcw ::
  "gc_config \<Rightarrow> bool \<Rightarrow> timeb \<Rightarrow> nat \<Rightarrow> lb_request \<Rightarrow> an_world \<Rightarrow> (an_world \<times> lb_request) option" where
  "send_dcw cfg mem t ci er w = do {
     cl \<leftarrow> fetch (an_clients w) ci;
     let er1 = (if er_rc er \<in> {E_FOUND, E_CACHE1, E_CACHE2} then checkCW er else er);
     let er2 = (if er_rc er1 < E_NOTFOUND then er1\<lparr>er_rcEx := 0\<rparr> else er1);
     reason \<leftarrow> rejected (er_rcEx er2);
     lbw \<leftarrow> send_reader_stat (gc_lb cfg) mem t (selected_reader er2) er2 (er_rc er2) (gw_lb w);
     let er3 = er2\<lparr>er_caid := er_ocaid er2\<rparr>;
     let k = classify (er_rc er3) (er_rcEx er3);
     acc \<leftarrow> fetch (an_accounts w) (cl_account cl);
     let a = ac_chk (gc_ac cfg) (gc_penalty cl) (gw_acmd5 w) cl er3 1;
     let er4 = fst (snd a);
     let cl' = (fst a)\<lparr>an_counts := count_cw k (an_counts cl), an_lastresp := s32 (timeb_diff t (tps er))\<rparr>;
     let sent = (if er_rc er4 = E_FAKE then er4\<lparr>er_rc := E_FOUND\<rparr> else er4);
     Some (w\<lparr>gw_lb := lbw, gw_acmd5 := snd (snd a), an_clients := (an_clients w)[ci := cl'],
             an_accounts := (an_accounts w)[cl_account cl := count_cw k acc],
             an_server := count_cw k (an_server w), an_answers := an_answers w @ [(ci, sent)]\<rparr>, er4) }"

section \<open>Distribution\<close>

fun waiting_tasks :: "(nat \<Rightarrow> bool) \<Rightarrow> nat \<Rightarrow> lb_request \<Rightarrow> lb_request list \<Rightarrow> (nat \<times> lb_request) list" where
  "waiting_tasks pipe ci er [] = []"
| "waiting_tasks pipe ci er (e # es) =
     (if E_99 \<le> er_rc e \<and> ecmcacheptr e = ecmcacheptr er \<and> pipe ci
      then (ci, er\<lparr>cpti := cpti e\<rparr>) # waiting_tasks pipe ci er es else waiting_tasks pipe ci er es)"

definition open_tasks :: "lb_request list \<Rightarrow> nat" where
  "open_tasks ts = length (filter (\<lambda>e. E_99 \<le> er_rc e) ts)"

fun distribute_loop ::
  "(nat \<Rightarrow> bool) \<Rightarrow> u64 \<Rightarrow> lb_request \<Rightarrow> nat \<Rightarrow> an_client list \<Rightarrow> an_client list \<times> (nat \<times> lb_request) list" where
  "distribute_loop pipe grp er ci [] = ([], [])"
| "distribute_loop pipe grp er ci (cl # cls) =
     (let r = distribute_loop pipe grp er (ci + 1) cls in
      case an_tasks cl of
        Some ts \<Rightarrow>
          if an_fd_m2c cl \<and> cl_typ cl = CHR ''c'' \<and> cl_grp cl AND grp \<noteq> 0
          then (cl\<lparr>cl_pending := int (open_tasks ts)\<rparr> # fst r, waiting_tasks pipe ci er ts @ snd r)
          else (cl # fst r, snd r)
      | None \<Rightarrow> (cl # fst r, snd r))"

definition distribute_ecm :: "(nat \<Rightarrow> bool) \<Rightarrow> lb_request \<Rightarrow> u64 \<Rightarrow> int \<Rightarrow> an_world \<Rightarrow> an_world" where
  "distribute_ecm pipe er grp rc w =
     (let r = distribute_loop pipe grp (er\<lparr>er_rc := rc\<rparr>) 0 (an_clients w) in
      w\<lparr>an_clients := fst r, an_pipes := an_pipes w @ snd r\<rparr>)"

section \<open>The client takes an answer\<close>

definition finish_dcw ::
  "gc_config \<Rightarrow> bool \<Rightarrow> (nat \<Rightarrow> bool) \<Rightarrow> timeb \<Rightarrow> nat \<Rightarrow> lb_request \<Rightarrow> lb_request \<Rightarrow> an_world \<Rightarrow> an_world option" where
  "finish_dcw cfg mem pipe t ci er ert w = do {
     (w1, ert') \<leftarrow> send_dcw cfg mem t ci ert w;
     rid \<leftarrow> selected_reader ert';
     rdr \<leftarrow> fetch (readers (gw_lb w1)) rid;
     Some (distribute_ecm pipe er (rdr_grp rdr) (if er_rc ert' < E_NOTFOUND then E_CACHE2 else er_rc ert')
             (put_task ci (cpti er) ert' w1)) }"

definition chk_dcw ::
  "gc_config \<Rightarrow> bool \<Rightarrow> (nat \<Rightarrow> bool) \<Rightarrow> timeb \<Rightarrow> nat \<Rightarrow> lb_request \<Rightarrow> an_world \<Rightarrow> an_world option" where
  "chk_dcw cfg mem pipe t ci er w = do {
     cl \<leftarrow> fetch (an_clients w) ci;
     (case an_tasks cl of
        None \<Rightarrow> Some w
      | Some ts \<Rightarrow> do {
          ert \<leftarrow> fetch ts (cpti er);
          if er_rc ert < E_99 then
            map_option (\<lambda>l. w\<lparr>gw_lb := l\<rparr>)
              (send_reader_stat (gc_lb cfg) mem t (selected_reader er) er
                 (if er_rc er \<le> E_RDR_NOTFOUND then E_NOTFOUND else E_FOUND) (gw_lb w))
          else if er_caid er \<noteq> er_caid ert \<and> er_ocaid er \<noteq> er_ocaid ert \<or> er_ecmd5 er \<noteq> er_ecmd5 ert then Some w
          else if E_RDR_FOUND \<le> er_rc er then
            finish_dcw cfg mem pipe t ci er
              (ert\<lparr>selected_reader := selected_reader er,
                   er_rc := if er_rc er = E_CACHE2 \<or> er_rc er = E_EMU then er_rc er else E_FOUND,
                   er_rcEx := 0, er_cw := er_cw er\<rparr>) w
          else (let left = filter (\<lambda>(node, i). Some i \<noteq> selected_reader er) (matching_rdr ert);
                    ert1 = ert\<lparr>er_rcEx := er_rcEx er, matching_rdr := left\<rparr> in
                if left \<noteq> [] then
                  map_option (\<lambda>l. (put_task ci (cpti er) (ert1\<lparr>selected_reader := None\<rparr>) w)\<lparr>gw_lb := l\<rparr>)
                    (send_reader_stat (gc_lb cfg) mem t (selected_reader er) er E_NOTFOUND (gw_lb w))
                else do {
                  rid \<leftarrow> selected_reader er;
                  rdr \<leftarrow> fetch (readers (gw_lb w)) rid;
                  let ert2 = ert1\<lparr>selected_reader := Some rid, er_rc := E_NOTFOUND\<rparr>;
                  cache \<leftarrow> store_cw_in_cache (tb_time t) (rdr_grp rdr) E_NOTFOUND (gw_cache w) ert2;
                  finish_dcw cfg mem pipe t ci er ert2 (w\<lparr>gw_cache := cache\<rparr>) }) }) }"

section \<open>Pending requests\<close>

text \<open>The seconds and milliseconds are added without a carry.\<close>

definition add_ms :: "timeb \<Rightarrow> u32 \<Rightarrow> timeb" where
  "add_ms tp tt = \<lparr>tb_time = tb_time tp + uint (tt div 1000), tb_millitm = tb_millitm tp + uint (tt mod 1000)\<rparr>"

definition is_net :: "lb_world \<Rightarrow> nat \<Rightarrow> bool" where
  "is_net w i \<longleftrightarrow> rdr_typ (readers w ! i) AND R_IS_NETWORK \<noteq> 0"

text \<open>No reader of the current round is left that could still answer.\<close>

definition round_over :: "lb_config \<Rightarrow> lb_world \<Rightarrow> lb_request \<Rightarrow> bool" where
  "round_over cfg w er \<longleftrightarrow>
     (\<forall>(node, i) \<in> set (before_fallback er).
        preferlocalcards cfg \<and> (if locals_done er then \<not> is_net w i else is_net w i))"

definition ask_readers ::
  "(nat \<Rightarrow> bool) \<Rightarrow> nat \<Rightarrow> lb_request \<Rightarrow> an_world \<Rightarrow> (an_world \<times> lb_request) option" where
  "ask_readers pipe types er w = do {
     (er', asked, err', restarts) \<leftarrow> request_cw (readers (gw_lb w)) pipe (gw_fd_error w) er (stage er) types;
     Some (w\<lparr>gw_fd_error := err', an_asked := an_asked w @ map (\<lambda>i. (i, er')) asked,
             an_restarts := an_restarts w @ restarts\<rparr>, er') }"

definition next_round ::
  "lb_config \<Rightarrow> (nat \<Rightarrow> bool) \<Rightarrow> timeb \<Rightarrow> timeb \<Rightarrow> lb_request \<Rightarrow> an_world \<Rightarrow> (an_world \<times> lb_request \<times> timeb) option" where
  "next_round cfg pipe t tpc er w =
     (if stage er = 0 \<and> E_UNHANDLED \<le> er_rc er \<and> round_over cfg (gw_lb w) er then
        (if preferlocalcards cfg \<and> \<not> locals_done er \<and> (\<exists>i \<in> set (active (gw_lb w)). is_net (gw_lb w) i)
         then do {
           (w1, er1) \<leftarrow> ask_readers pipe 2 (er\<lparr>locals_done := True\<rparr>) w;
           Some (w1, er1, add_ms tpc (word_of_int (timeb_diff t (tps er1)))) }
         else do {
           (w1, er1) \<leftarrow> ask_readers pipe (if preferlocalcards cfg then 1 else 0)
                          (er\<lparr>locals_done := False, stage := 1\<rparr>) w;
           Some (w1, er1, add_ms tpc (ctimeout cfg - ftimeout cfg)) })
      else Some (w, er, tpc))"

fun timeout_stats ::
  "lb_config \<Rightarrow> bool \<Rightarrow> timeb \<Rightarrow> lb_request \<Rightarrow> rnode list \<Rightarrow> lb_world \<Rightarrow> lb_world option" where
  "timeout_stats cfg mem t er [] w = Some w"
| "timeout_stats cfg mem t er ((node, i) # ns) w = do {
     w' \<leftarrow> send_reader_stat cfg mem t (Some i) er E_TIMEOUT w;
     timeout_stats cfg mem t er ns w' }"

text \<open>The end of a request that nobody answered in time.\<close>

definition give_up ::
  "gc_config \<Rightarrow> bool \<Rightarrow> timeb \<Rightarrow> nat \<Rightarrow> u64 \<Rightarrow> lb_request \<Rightarrow> an_world \<Rightarrow> (an_world \<times> lb_request) option" where
  "give_up cfg mem t ci grp er0 w = do {
     let er = er0\<lparr>er_rc := E_TIMEOUT, er_rcEx := 0\<rparr>;
     lbw \<leftarrow> (if lb_mode (gc_lb cfg) \<noteq> 0 then timeout_stats (gc_lb cfg) mem t er (matching_rdr er) (gw_lb w)
            else Some (gw_lb w));
     cache \<leftarrow> store_cw_in_cache (tb_time t) grp E_TIMEOUT (gw_cache w) er;
     send_dcw cfg mem t ci er (w\<lparr>gw_lb := lbw, gw_cache := cache\<rparr>) }"

text \<open>The body of the loop for an open request; the time is the next one at which something is to do.\<close>

definition pend_open ::
  "gc_config \<Rightarrow> bool \<Rightarrow> (nat \<Rightarrow> bool) \<Rightarrow> timeb \<Rightarrow> nat \<Rightarrow> u64 \<Rightarrow> lb_request \<Rightarrow> an_world \<Rightarrow>
   (an_world \<times> lb_request \<times> timeb option) option" where
  "pend_open cfg mem pipe t ci grp er w = do {
     let lb = gc_lb cfg;
     let c = check_cwcache2 (ctimeout lb) (tb_time t) grp (gw_cache w) er;
     let w0 = w\<lparr>gw_cache := fst c\<rparr>;
     (if snd (snd c) then do {
        (w1, er1) \<leftarrow> send_dcw cfg mem t ci ((fst (snd c))\<lparr>er_rc := E_CACHE2\<rparr>) w0;
        Some (w1, er1, None) }
      else do {
        (w1, er1, tpc) \<leftarrow> next_round lb pipe t (add_ms (tps er) (if stage er \<noteq> 0 then ctimeout lb else ftimeout lb)) er w0;
        (if comp_timeb t tpc \<le> 0 then Some (w1, er1, Some tpc)
         else if stage er1 \<noteq> 0 then do {
           (w2, er2) \<leftarrow> give_up cfg mem t ci grp er1 w1;
           Some (w2, er2, None) }
         else do {
           let er2 = er1\<lparr>stage := 1\<rparr>;
           (w2, er3) \<leftarrow> (if E_UNHANDLED \<le> er_rc er2 then ask_readers pipe 0 er2 w1 else Some (w1, er2));
           Some (w2, er3, Some (add_ms tpc (ctimeout lb - ftimeout lb))) }) }) }"

definition pend_task ::
  "gc_config \<Rightarrow> bool \<Rightarrow> (nat \<Rightarrow> bool) \<Rightarrow> timeb \<Rightarrow> nat \<Rightarrow> nat \<Rightarrow> an_world \<Rightarrow> (an_world \<times> timeb option) option" where
  "pend_task cfg mem pipe t ci k w = do {
     er \<leftarrow> task_of w ci k;
     (if er_rc er < E_99 then Some (w, None)
      else do {
        (w1, er1, due) \<leftarrow> pend_open cfg mem pipe t ci (cl_grp (an_clients w ! ci)) er w;
        Some (put_task ci k er1 w1, due) }) }"

fun pend_loop ::
  "gc_config \<Rightarrow> bool \<Rightarrow> (nat \<Rightarrow> bool) \<Rightarrow> timeb \<Rightarrow> nat \<Rightarrow> nat \<Rightarrow> timeb \<Rightarrow> an_world \<Rightarrow> (an_world \<times> timeb) option" where
  "pend_loop cfg mem pipe t ci 0 tpe w = Some (w, tpe)"
| "pend_loop cfg mem pipe t ci (Suc k) tpe w = do {
     (w1, due) \<leftarrow> pend_task cfg mem pipe t ci k w;
     pend_loop cfg mem pipe t ci k
       (case due of None \<Rightarrow> tpe | Some tpc \<Rightarrow> if 0 < comp_timeb tpe tpc then tpc else tpe) w1 }"

definition chk_pending ::
  "gc_config \<Rightarrow> bool \<Rightarrow> (nat \<Rightarrow> bool) \<Rightarrow> timeb \<Rightarrow> int \<Rightarrow> nat \<Rightarrow> an_world \<Rightarrow> (an_world \<times> int) option" where
  "chk_pending cfg mem pipe t timeout ci w = do {
     cl \<leftarrow> fetch (an_clients w) ci;
     let ts = (case an_tasks cl of None \<Rightarrow> [] | Some ts \<Rightarrow> ts);
     (w1, tpe) \<leftarrow> pend_loop cfg mem pipe t ci (length ts) (t\<lparr>tb_time := tb_time t + timeout\<rparr>) w;
     Some (w1\<lparr>an_clients := (an_clients w1)[ci := (an_clients w1 ! ci)\<lparr>cl_pending := int (open_tasks ts)\<rparr>]\<rparr>,
           s32 (timeb_diff tpe t + 5)) }"

end
