(* ===== verification/Pending.thy ===== *)
theory Pending
  imports Answer
begin

text \<open>
  What the answers of \<open>Answer\<close> promise: every open request of a client is answered once, and nobody
  waits longer than the timeouts.
\<close>

section \<open>Booking\<close>

definition stats_ready :: "lb_config \<Rightarrow> lb_world \<Rightarrow> bool" where
  "stats_ready cfg w \<longleftrightarrow> lb_mode cfg = 0 \<or> (\<forall>r \<in> set (readers w). stats_ok r) \<and> lb_min_ecmcount cfg \<noteq> 0"

lemma add_stat_length: "add_stat cfg mem w er i x rc = Some w' \<Longrightarrow> length (readers w') = length (readers w)"
  by (auto simp: add_stat_def Let_def put_reader_def save_stat_count_def housekeeping_stat_def
      split: if_splits bind_splits option.splits)

lemma send_reader_stat_ok:
  assumes "stats_ready cfg w" "er_l er \<noteq> 0" "\<forall>i. rdr = Some i \<longrightarrow> i < length (readers w)"
  shows "\<exists>w'. send_reader_stat cfg True t rdr er rc w = Some w' \<and> stats_ready cfg w' \<and>
    length (readers w') = length (readers w)"
proof (cases "E_99 \<le> rc \<or> rdr = None")
  case True then show ?thesis using assms(1) by (auto simp: send_reader_stat_def)
next
  case False
  then obtain i where i: "rdr = Some i" "\<not> E_99 \<le> rc" by auto
  let ?x = "max 1 (s32 (timeb_diff t (tps er)))"
  have "\<exists>w'. add_stat cfg True w er i ?x rc = Some w' \<and> stats_ready cfg w'"
  proof (cases "lb_mode cfg = 0 \<or> rdr_client (readers w ! i) = None")
    case True then show ?thesis using assms(1,3) i by (auto simp: add_stat_def)
  next
    case False
    then obtain cl where "rdr_client (readers w ! i) = Some cl" by auto
    from add_stat_ok [OF _ _ assms(2) _ this, where cfg = cfg and t = ?x and rc = rc] False assms(1,3) i
    show ?thesis by (auto simp: stats_ready_def)
  qed
  then show ?thesis using i add_stat_length by (auto simp: send_reader_stat_def)
qed

lemma timeout_stats_ok:
  assumes "stats_ready cfg w" "er_l er \<noteq> 0" "\<forall>(node, i) \<in> set ns. i < length (readers w)"
  shows "\<exists>w'. timeout_stats cfg True t er ns w = Some w' \<and> stats_ready cfg w' \<and>
    length (readers w') = length (readers w)"
  using assms
proof (induction cfg True t er ns w rule: timeout_stats.induct)
  case (2 cfg t er node i ns w)
  obtain w1 where "send_reader_stat cfg True t (Some i) er E_TIMEOUT w = Some w1" "stats_ready cfg w1"
    "length (readers w1) = length (readers w)"
    using send_reader_stat_ok [OF "2.prems"(1,2), of "Some i" t E_TIMEOUT] "2.prems"(3) by auto
  with "2.hyps" [of w1] "2.prems" show ?case by auto
qed simp

section \<open>What the steps leave alone\<close>

definition an_frame :: "an_world \<Rightarrow> an_world \<Rightarrow> bool" where
  "an_frame w w' \<longleftrightarrow> length (readers (gw_lb w')) = length (readers (gw_lb w)) \<and>
     map (\<lambda>c. (an_tasks c, cl_account c, cl_grp c)) (an_clients w') =
       map (\<lambda>c. (an_tasks c, cl_account c, cl_grp c)) (an_clients w) \<and>
     length (an_accounts w') = length (an_accounts w)"

lemma an_frame_nth:
  assumes "an_frame w w'" "j < length (an_clients w)"
  shows "an_tasks (an_clients w' ! j) = an_tasks (an_clients w ! j) \<and>
    cl_account (an_clients w' ! j) = cl_account (an_clients w ! j) \<and>
    cl_grp (an_clients w' ! j) = cl_grp (an_clients w ! j) \<and> length (an_clients w') = length (an_clients w)"
proof -
  have m: "map (\<lambda>c. (an_tasks c, cl_account c, cl_grp c)) (an_clients w') =
       map (\<lambda>c. (an_tasks c, cl_account c, cl_grp c)) (an_clients w)" using assms(1) by (simp add: an_frame_def)
  then have "length (an_clients w') = length (an_clients w)" by (rule map_eq_imp_length_eq)
  with arg_cong [OF m, of "\<lambda>l. l ! j"] assms(2) show ?thesis by simp
qed

definition closed_rc :: "lb_request \<Rightarrow> int" where
  "closed_rc er = er_rc (if er_rc er \<in> {E_FOUND, E_CACHE1, E_CACHE2} then checkCW er else er)"

lemma ac_chk_send: "\<exists>c' md5'. ac_chk cfg p md5 c er 1 = (c', er, md5') \<and> cl_account c' = cl_account c \<and>
    cl_grp c' = cl_grp c \<and> an_tasks c' = an_tasks c"
  by (auto simp: ac_chk_def count_add_def Let_def)

definition answer_of :: "lb_request \<Rightarrow> lb_request" where
  "answer_of er = (if er_rc er = E_FAKE then er\<lparr>er_rc := E_FOUND\<rparr> else er)"

text \<open>\<open>send_dcw\<close> sends exactly one answer, and it has a definite code.\<close>

lemma send_dcw_ok:
  assumes "stats_ready (gc_lb cfg) (gw_lb w)" "er_l er \<noteq> 0" "ci < length (an_clients w)"
    and "cl_account (an_clients w ! ci) < length (an_accounts w)"
    and "\<forall>i. selected_reader er = Some i \<longrightarrow> i < length (readers (gw_lb w))" "rejected (er_rcEx er) \<noteq> None"
  shows "\<exists>w' er' s. send_dcw cfg True t ci er w = Some (w', er') \<and> an_frame w w' \<and> gw_cache w' = gw_cache w \<and>
    stats_ready (gc_lb cfg) (gw_lb w') \<and> an_answers w' = an_answers w @ [(ci, s)] \<and> er_rc er' = closed_rc er \<and>
    selected_reader er' = selected_reader er \<and> er_cw er' = er_cw er \<and> s = answer_of er'"
proof -
  let ?cl = "an_clients w ! ci"
  define er1 where "er1 = (if er_rc er \<in> {E_FOUND, E_CACHE1, E_CACHE2} then checkCW er else er)"
  define er2 where "er2 = (if er_rc er1 < E_NOTFOUND then er1\<lparr>er_rcEx := 0\<rparr> else er1)"
  have cw: "er_cw er2 = er_cw er" by (auto simp: er1_def er2_def checkCW_def)
  have e2: "er_l er2 = er_l er" "selected_reader er2 = selected_reader er" "er_rcEx er2 \<in> {0, er_rcEx er}" "er_rc er2 = closed_rc er"
    by (auto simp: er1_def er2_def checkCW_def closed_rc_def)
  have "rejected (er_rcEx er2) \<noteq> None" using e2(3) assms(6) by (auto simp: rejected_def)
  then obtain reason where reason: "rejected (er_rcEx er2) = Some reason" by blast
  obtain lbw where lbw: "send_reader_stat (gc_lb cfg) True t (selected_reader er2) er2 (er_rc er2) (gw_lb w) = Some lbw"
    "stats_ready (gc_lb cfg) lbw" "length (readers lbw) = length (readers (gw_lb w))"
    using send_reader_stat_ok [OF assms(1), of er2 "selected_reader er2" t "er_rc er2"] e2(1,2) assms(2,5) by auto
  obtain c' md5' where ac: "ac_chk (gc_ac cfg) (gc_penalty ?cl) (gw_acmd5 w) ?cl (er2\<lparr>er_caid := er_ocaid er2\<rparr>) 1 =
      (c', er2\<lparr>er_caid := er_ocaid er2\<rparr>, md5')" "cl_account c' = cl_account ?cl" "cl_grp c' = cl_grp ?cl"
      "an_tasks c' = an_tasks ?cl"
    using ac_chk_send by blast
  define k where "k = classify (er_rc er2) (er_rcEx er2)"
  define cl' where "cl' = c'\<lparr>an_counts := count_cw k (an_counts ?cl), an_lastresp := s32 (timeb_diff t (tps er))\<rparr>"
  let ?er3 = "er2\<lparr>er_caid := er_ocaid er2\<rparr>"
  let ?s = "answer_of ?er3"
  let ?w = "w\<lparr>gw_lb := lbw, gw_acmd5 := md5', an_clients := (an_clients w)[ci := cl'],
      an_accounts := (an_accounts w)[cl_account ?cl := count_cw k (an_accounts w ! cl_account ?cl)],
      an_server := count_cw k (an_server w), an_answers := an_answers w @ [(ci, ?s)]\<rparr>"
  have "send_dcw cfg True t ci er w = Some (?w, ?er3)"
    unfolding send_dcw_def Let_def er1_def [symmetric] er2_def [symmetric]
    using assms(3,4) by (simp add: reason lbw(1) ac(1) k_def cl'_def answer_of_def)
  moreover have "an_frame w ?w"
    using lbw(3) ac(2-4) assms(3) by (simp add: an_frame_def map_update cl'_def list_update_same_conv)
  ultimately show ?thesis using lbw(2) e2(2,4) cw by (intro exI [of _ ?w] exI [of _ ?er3] exI [of _ ?s]) simp
qed

section \<open>Open requests\<close>

text \<open>What an open request and the cache must satisfy while the clock is between \<open>lo\<close> and \<open>hi\<close>: the readers
  exist, both timeouts have passed, and the entry the request refers to is not removed.\<close>

definition alive :: "int \<Rightarrow> cache_entry list \<Rightarrow> nat \<Rightarrow> bool" where
  "alive limit cache i \<longleftrightarrow> (\<exists>e \<in> set cache. ce_id e = i \<and> limit \<le> ce_time e)"

definition overdue :: "lb_config \<Rightarrow> int \<Rightarrow> lb_request \<Rightarrow> bool" where
  "overdue cfg lo er \<longleftrightarrow> tb_time (add_ms (tps er) (ctimeout cfg)) < lo \<and> tb_time (add_ms (tps er) (ftimeout cfg)) < lo"

definition task_ok :: "lb_config \<Rightarrow> int \<Rightarrow> int \<Rightarrow> nat \<Rightarrow> cache_entry list \<Rightarrow> lb_request \<Rightarrow> bool" where
  "task_ok cfg lo hi n cache er \<longleftrightarrow>
     er_l er \<noteq> 0 \<and> (\<forall>(node, i) \<in> set (matching_rdr er). i < n) \<and> (\<forall>i. selected_reader er = Some i \<longrightarrow> i < n) \<and>
     rejected (er_rcEx er) \<noteq> None \<and> overdue cfg lo er \<and>
     (\<forall>i. ecmcacheptr er = Some i \<longrightarrow>
        CS_CACHE_TIMEOUT \<le> lo - tb_time (tps er) \<or> alive (cache_limit (ctimeout cfg) hi) cache i)"

definition cache_safe :: "nat \<Rightarrow> cache_entry list \<Rightarrow> bool" where
  "cache_safe n cache \<longleftrightarrow> (\<forall>e \<in> set cache. \<forall>i. ce_reader e = Some i \<longrightarrow> i < n)"

text \<open>How far an open request is from its end.\<close>

definition rank :: "lb_request \<Rightarrow> nat" where
  "rank er = (if er_rc er < E_99 then 0 else if stage er \<noteq> 0 then 1 else if locals_done er then 2 else 3)"

definition same_task :: "lb_request \<Rightarrow> lb_request \<Rightarrow> bool" where
  "same_task er er' \<longleftrightarrow> er_l er' = er_l er \<and> matching_rdr er' = matching_rdr er \<and> er_rc er' = er_rc er \<and>
     selected_reader er' = selected_reader er \<and> er_rcEx er' = er_rcEx er \<and> tps er' = tps er \<and>
     ecmcacheptr er' = ecmcacheptr er"

lemma same_task_ok: "same_task er er' \<Longrightarrow> task_ok cfg lo hi n cache er \<Longrightarrow> task_ok cfg lo hi n cache er'"
  by (simp add: same_task_def task_ok_def overdue_def)

lemma task_ok_cache:
  "task_ok cfg lo hi n cache er \<Longrightarrow> \<forall>i. alive (cache_limit (ctimeout cfg) hi) cache i \<longrightarrow> alive (cache_limit (ctimeout cfg) hi) cache' i \<Longrightarrow>
   task_ok cfg lo hi n cache' er"
  unfolding task_ok_def by blast

section \<open>The cache under a pending request\<close>

lemma cache_limit_mono: "t \<le> hi \<Longrightarrow> cache_limit c t \<le> cache_limit c hi"
  by (simp add: cache_limit_def)

lemma scan_alive: "l \<le> l' \<Longrightarrow> alive l' cache i \<Longrightarrow> alive l' (fst (scan_cache l hit cache)) i"
  unfolding alive_def by (meson order_trans scan_cache_keeps)

lemma scan_safe: "cache_safe n cache \<Longrightarrow> cache_safe n (fst (scan_cache l hit cache))"
  using scan_cache_subset unfolding cache_safe_def by blast

lemma check_cwcache2_ok:
  assumes "check_cwcache2 c t grp cache er = (cache', er', b)" "cache_safe n cache" "t \<le> hi"
  shows "cache_safe n cache' \<and> (\<forall>i. alive (cache_limit c hi) cache i \<longrightarrow> alive (cache_limit c hi) cache' i) \<and>
    (if b then (\<forall>i. selected_reader er' = Some i \<longrightarrow> i < n) \<and> er_l er' = er_l er \<and> er_rcEx er' = er_rcEx er \<and>
        er_rc er' = er_rc er else er' = er)"
proof -
  obtain h where s: "scan_cache (cache_limit c t) (\<lambda>e. ce_rc e = E_FOUND \<and> cache_hit er grp e) cache = (cache', h)"
    using assms(1) by (auto simp: check_cwcache2_def check_cwcache1_def split: prod.splits option.splits)
  have "fst (scan_cache (cache_limit c t) (\<lambda>e. ce_rc e = E_FOUND \<and> cache_hit er grp e) cache) = cache'" using s by simp
  with scan_safe [OF assms(2), of "cache_limit c t"] scan_alive [OF cache_limit_mono [OF assms(3)], of c cache] have
    "cache_safe n cache' \<and> (\<forall>i. alive (cache_limit c hi) cache i \<longrightarrow> alive (cache_limit c hi) cache' i)" by metis
  moreover have "case h of None \<Rightarrow> er' = er \<and> \<not> b | Some e \<Rightarrow> er' = er\<lparr>er_cw := ce_cw e, selected_reader := ce_reader e\<rparr> \<and> b"
    using assms(1) s by (auto simp: check_cwcache2_def check_cwcache1_def split: option.splits)
  moreover have "h = Some e \<Longrightarrow> e \<in> set cache" for e using scan_cache_hit s by blast
  ultimately show ?thesis using assms(2) by (auto simp: cache_safe_def split: option.splits)
qed

lemma store_cw_ok:
  assumes "\<forall>i. ecmcacheptr er = Some i \<longrightarrow> CS_CACHE_TIMEOUT \<le> lo - tb_time (tps er) \<or> alive (cache_limit c hi) cache i"
    and "lo \<le> t" "t \<le> hi" "hi \<le> lo + CS_CACHE_TIMEOUT" "cache_safe n cache" "\<forall>i. selected_reader er = Some i \<longrightarrow> i < n"
  shows "\<exists>cache'. store_cw_in_cache t grp rc cache er = Some cache' \<and> cache_safe n cache' \<and>
    (\<forall>i. alive (cache_limit c hi) cache i \<longrightarrow> alive (cache_limit c hi) cache' i)"
proof (cases "0 \<le> t - tb_time (tps er) - CS_CACHE_TIMEOUT \<or> ecmcacheptr er = None")
  case True then show ?thesis using assms(5) by (auto simp: store_cw_in_cache_def)
next
  case False
  then obtain i where i: "ecmcacheptr er = Some i" "t - tb_time (tps er) < CS_CACHE_TIMEOUT" by auto
  then have "alive (cache_limit c hi) cache i" using assms(1,2) by auto
  then obtain e where e: "entry_of cache i = Some e"
    unfolding alive_def entry_of_def by (metis (mono_tags, lifting) find_None_iff option.exhaust)
  have l: "cache_limit c hi \<le> t"
    using assms(2,4) uint_ge_0 [of "c div 1000"] unfolding cache_limit_def by linarith
  let ?f = "\<lambda>x. if ce_id x = i then x\<lparr>ce_md5 := er_ecmd5 er, ce_cw := er_cw er, ce_caid := er_caid er, ce_grp := grp,
      ce_reader := selected_reader er, ce_rc := rc, ce_time := t\<rparr> else x"
  have "alive (cache_limit c hi) (map ?f cache) j" if "alive (cache_limit c hi) cache j" for j
  proof -
    from that obtain x where "x \<in> set cache" "ce_id x = j" "cache_limit c hi \<le> ce_time x" by (auto simp: alive_def)
    then have "?f x \<in> set (map ?f cache)" "ce_id (?f x) = j" "cache_limit c hi \<le> ce_time (?f x)" using l by auto
    then show ?thesis unfolding alive_def by blast
  qed
  moreover have "cache_safe n (map ?f cache)" using assms(5,6) by (auto simp: cache_safe_def)
  moreover have "store_cw_in_cache t grp rc cache er = Some (if ce_rc e \<le> rc then cache else map ?f cache)"
    using i e by (simp add: store_cw_in_cache_def)
  ultimately show ?thesis using assms(5) by auto
qed

section \<open>Asking readers\<close>

lemma request_loop_ok:
  "\<forall>(node, i) \<in> set ns. i < length rs \<Longrightarrow> \<exists>asked err' restarts. request_loop rs types pipe ns err = Some (asked, err', restarts)"
proof (induction ns arbitrary: err)
  case (Cons x ns)
  obtain node i where x: "x = (node, i)" by (cases x)
  have i: "i < length rs" using Cons.prems x by auto
  have "\<exists>asked err' restarts. request_loop rs types pipe ns err_b = Some (asked, err', restarts)" for err_b
    using Cons by auto
  then have "request_loop rs types pipe ns err_b \<noteq> None" for err_b by (metis option.distinct(1))
  then have "request_loop rs types pipe (x # ns) err \<noteq> None"
    using i by (simp add: x Let_def bind_eq_None_conv split_beta)
  then show ?case by (metis option.exhaust prod_cases3)
qed simp

lemma ask_readers_ok:
  assumes "\<forall>(node, i) \<in> set (matching_rdr er). i < length (readers (gw_lb w))"
  shows "\<exists>w' er'. ask_readers pipe types er w = Some (w', er') \<and> same_task er er' \<and> stage er' = stage er \<and>
    locals_done er' = locals_done er \<and> an_frame w w' \<and> gw_lb w' = gw_lb w \<and> gw_cache w' = gw_cache w \<and>
    an_answers w' = an_answers w"
proof -
  define er1 where "er1 = (if types = 0 \<or> types = 2 then er\<lparr>level := stage er\<rparr> else er)"
  have e: "same_task er er1" "stage er1 = stage er" "locals_done er1 = locals_done er" "matching_rdr er1 = matching_rdr er"
    by (simp_all add: er1_def same_task_def)
  have r: "\<forall>(node, i) \<in> set (if stage er = 0 then before_fallback er1 else matching_rdr er1). i < length (readers (gw_lb w))"
    using assms set_before_fallback [of er1] e(4) by auto
  from request_loop_ok [OF r, of types pipe "gw_fd_error w"] obtain asked err' restarts where
    "request_loop (readers (gw_lb w)) types pipe (if stage er = 0 then before_fallback er1 else matching_rdr er1)
       (gw_fd_error w) = Some (asked, err', restarts)" by blast
  then have "request_cw (readers (gw_lb w)) pipe (gw_fd_error w) er (stage er) types = Some (er1, asked, err', restarts)"
    unfolding request_cw_def Let_def er1_def [symmetric] by simp
  then show ?thesis using e by (simp add: ask_readers_def an_frame_def)
qed

lemma next_round_ok:
  assumes "\<forall>(node, i) \<in> set (matching_rdr er). i < length (readers (gw_lb w))"
  shows "\<exists>w' er' tpc'. next_round cfg pipe t tpc er w = Some (w', er', tpc') \<and> same_task er er' \<and> an_frame w w' \<and>
    gw_lb w' = gw_lb w \<and> gw_cache w' = gw_cache w \<and> an_answers w' = an_answers w \<and>
    (if stage er \<noteq> 0 then er' = er \<and> tpc' = tpc
     else stage er' \<noteq> 0 \<or> \<not> locals_done er \<and> locals_done er' \<or> er' = er \<and> tpc' = tpc)"
proof -
  have s: "same_task er er" "an_frame w w" "same_task er (er\<lparr>locals_done := True\<rparr>)"
    "same_task er (er\<lparr>locals_done := False, stage := 1\<rparr>)" by (simp_all add: same_task_def an_frame_def)
  have tr: "same_task a b \<Longrightarrow> same_task b c \<Longrightarrow> same_task a c" for a b c by (simp add: same_task_def)
  obtain w1 e1 where 1: "ask_readers pipe 2 (er\<lparr>locals_done := True\<rparr>) w = Some (w1, e1)"
    "same_task (er\<lparr>locals_done := True\<rparr>) e1" "locals_done e1" "an_frame w w1" "gw_lb w1 = gw_lb w"
    "gw_cache w1 = gw_cache w" "an_answers w1 = an_answers w"
    using ask_readers_ok [of "er\<lparr>locals_done := True\<rparr>" w pipe 2] assms by auto
  obtain w2 e2 where 2: "ask_readers pipe (if preferlocalcards cfg then 1 else 0) (er\<lparr>locals_done := False, stage := 1\<rparr>) w = Some (w2, e2)"
    "same_task (er\<lparr>locals_done := False, stage := 1\<rparr>) e2" "stage e2 = 1" "an_frame w w2" "gw_lb w2 = gw_lb w"
    "gw_cache w2 = gw_cache w" "an_answers w2 = an_answers w"
    using ask_readers_ok [of "er\<lparr>locals_done := False, stage := 1\<rparr>" w pipe "if preferlocalcards cfg then 1 else 0"] assms by auto
  show ?thesis
    using 1 2(1,3-) s tr [OF s(3) 1(2)] tr [OF s(4) 2(2)] unfolding next_round_def by simp
qed

section \<open>One slot\<close>

lemma give_up_ok:
  assumes "stats_ready (gc_lb cfg) (gw_lb w)" "ci < length (an_clients w)"
    and "cl_account (an_clients w ! ci) < length (an_accounts w)" "cache_safe (length (readers (gw_lb w))) (gw_cache w)"
    and "task_ok (gc_lb cfg) lo hi (length (readers (gw_lb w))) (gw_cache w) er"
    and "lo \<le> tb_time t" "tb_time t \<le> hi" "hi \<le> lo + CS_CACHE_TIMEOUT"
  shows "\<exists>w' er' s. give_up cfg True t ci grp er w = Some (w', er') \<and> an_frame w w' \<and> stats_ready (gc_lb cfg) (gw_lb w') \<and>
    cache_safe (length (readers (gw_lb w))) (gw_cache w') \<and>
    (\<forall>i. alive (cache_limit (ctimeout (gc_lb cfg)) hi) (gw_cache w) i \<longrightarrow>
         alive (cache_limit (ctimeout (gc_lb cfg)) hi) (gw_cache w') i) \<and>
    an_answers w' = an_answers w @ [(ci, s)] \<and> er_rc er' = E_TIMEOUT"
proof -
  let ?er = "er\<lparr>er_rc := E_TIMEOUT, er_rcEx := 0\<rparr>" and ?n = "length (readers (gw_lb w))"
  have er: "er_l ?er \<noteq> 0" "\<forall>(node, i) \<in> set (matching_rdr ?er). i < ?n" "\<forall>i. selected_reader ?er = Some i \<longrightarrow> i < ?n"
    "rejected (er_rcEx ?er) \<noteq> None"
    using assms(5) by (auto simp: task_ok_def rejected_def)
  obtain lbw where lbw: "(if lb_mode (gc_lb cfg) \<noteq> 0 then timeout_stats (gc_lb cfg) True t ?er (matching_rdr ?er) (gw_lb w)
      else Some (gw_lb w)) = Some lbw" "stats_ready (gc_lb cfg) lbw" "length (readers lbw) = ?n"
    using timeout_stats_ok [OF assms(1) er(1,2), of t] assms(1) by (cases "lb_mode (gc_lb cfg) = 0") auto
  have "\<forall>i. ecmcacheptr ?er = Some i \<longrightarrow>
      CS_CACHE_TIMEOUT \<le> lo - tb_time (tps ?er) \<or> alive (cache_limit (ctimeout (gc_lb cfg)) hi) (gw_cache w) i"
    using assms(5) by (simp add: task_ok_def)
  from store_cw_ok [OF this assms(6-8,4) er(3)] obtain cache where
    c: "store_cw_in_cache (tb_time t) grp E_TIMEOUT (gw_cache w) ?er = Some cache" "cache_safe ?n cache"
    "\<forall>i. alive (cache_limit (ctimeout (gc_lb cfg)) hi) (gw_cache w) i \<longrightarrow> alive (cache_limit (ctimeout (gc_lb cfg)) hi) cache i"
    by blast
  let ?w = "w\<lparr>gw_lb := lbw, gw_cache := cache\<rparr>"
  obtain w' er' s where s: "send_dcw cfg True t ci ?er ?w = Some (w', er')" "an_frame ?w w'" "gw_cache w' = cache"
    "stats_ready (gc_lb cfg) (gw_lb w')" "an_answers w' = an_answers w @ [(ci, s)]" "er_rc er' = closed_rc ?er"
    using send_dcw_ok [of cfg ?w ?er ci t] er lbw(2,3) assms(2,3) by auto
  have "give_up cfg True t ci grp er w = Some (w', er')"
    unfolding give_up_def Let_def using lbw(1) c(1) s(1) by simp
  moreover have "an_frame w w'" using s(2) lbw(3) by (simp add: an_frame_def)
  moreover have "closed_rc ?er = E_TIMEOUT" by (simp add: closed_rc_def rc_defs)
  ultimately show ?thesis using s c by auto
qed

text \<open>The part of the world that the loop of a client's requests needs.\<close>

definition world_ok :: "lb_config \<Rightarrow> nat \<Rightarrow> an_world \<Rightarrow> bool" where
  "world_ok cfg ci w \<longleftrightarrow> stats_ready cfg (gw_lb w) \<and> ci < length (an_clients w) \<and>
     cl_account (an_clients w ! ci) < length (an_accounts w) \<and> cache_safe (length (readers (gw_lb w))) (gw_cache w)"

lemma world_ok_frame:
  "world_ok cfg ci w \<Longrightarrow> an_frame w w' \<Longrightarrow> stats_ready cfg (gw_lb w') \<Longrightarrow>
   cache_safe (length (readers (gw_lb w))) (gw_cache w') \<Longrightarrow> world_ok cfg ci w'"
  using an_frame_nth [of w w' ci] by (simp add: world_ok_def an_frame_def)

lemma an_frame_trans: "an_frame a b \<Longrightarrow> an_frame b c \<Longrightarrow> an_frame a c"
  by (simp add: an_frame_def)

lemma an_frame_len: "an_frame w w' \<Longrightarrow> length (readers (gw_lb w')) = length (readers (gw_lb w))"
  by (simp add: an_frame_def)

text \<open>One pass over an open request is defined, and brings it nearer to its end; when it ends, one answer
  was sent.\<close>

lemma ask_all_ok:
  assumes "\<forall>(node, i) \<in> set (matching_rdr er). i < length (readers (gw_lb w))"
  shows "\<exists>w' er'. (if E_UNHANDLED \<le> er_rc er then ask_readers pipe 0 (er\<lparr>stage := 1\<rparr>) w else Some (w, er\<lparr>stage := 1\<rparr>)) = Some (w', er') \<and>
    same_task (er\<lparr>stage := 1\<rparr>) er' \<and> stage er' = 1 \<and> an_frame w w' \<and> gw_lb w' = gw_lb w \<and> gw_cache w' = gw_cache w \<and>
    an_answers w' = an_answers w"
proof (cases "E_UNHANDLED \<le> er_rc er")
  case True
  then show ?thesis using ask_readers_ok [of "er\<lparr>stage := 1\<rparr>" w pipe 0] assms by simp blast
next
  case False
  then show ?thesis by (simp add: same_task_def an_frame_def)
qed

lemma pend_open_ok:
  assumes "world_ok (gc_lb cfg) ci w" "task_ok (gc_lb cfg) lo hi (length (readers (gw_lb w))) (gw_cache w) er"
    and "E_99 \<le> er_rc er" "lo \<le> tb_time t" "tb_time t \<le> hi" "hi \<le> lo + CS_CACHE_TIMEOUT"
  shows "\<exists>w' er' due. pend_open cfg True pipe t ci grp er w = Some (w', er', due) \<and> an_frame w w' \<and>
    world_ok (gc_lb cfg) ci w' \<and>
    (\<forall>i. alive (cache_limit (ctimeout (gc_lb cfg)) hi) (gw_cache w) i \<longrightarrow>
         alive (cache_limit (ctimeout (gc_lb cfg)) hi) (gw_cache w') i) \<and>
    rank er' < rank er \<and>
    (if E_99 \<le> er_rc er' then task_ok (gc_lb cfg) lo hi (length (readers (gw_lb w'))) (gw_cache w') er' \<and> an_answers w' = an_answers w
     else \<exists>s. an_answers w' = an_answers w @ [(ci, s)])"
proof -
  let ?lb = "gc_lb cfg" and ?n = "length (readers (gw_lb w))"
  let ?A = "alive (cache_limit (ctimeout ?lb) hi)"
  obtain cache c_er b where c: "check_cwcache2 (ctimeout ?lb) (tb_time t) grp (gw_cache w) er = (cache, c_er, b)"
    by (metis prod_cases3)
  have safe: "cache_safe ?n (gw_cache w)" using assms(1) by (simp add: world_ok_def)
  note cw = check_cwcache2_ok [OF c safe assms(5)]
  let ?w0 = "w\<lparr>gw_cache := cache\<rparr>"
  have f0: "an_frame w ?w0" by (simp add: an_frame_def)
  have w0: "world_ok ?lb ci ?w0" using assms(1) cw by (simp add: world_ok_def)
  have t0: "task_ok ?lb lo hi ?n cache er" using task_ok_cache [OF assms(2)] cw by blast
  show ?thesis
  proof (cases b)
    case True
    let ?er = "c_er\<lparr>er_rc := E_CACHE2\<rparr>"
    have "er_l ?er \<noteq> 0" "\<forall>i. selected_reader ?er = Some i \<longrightarrow> i < ?n" "rejected (er_rcEx ?er) \<noteq> None"
      using cw True assms(2) by (simp_all add: task_ok_def)
    then obtain w' er' s where s: "send_dcw cfg True t ci ?er ?w0 = Some (w', er')" "an_frame ?w0 w'" "gw_cache w' = cache"
      "stats_ready ?lb (gw_lb w')" "an_answers w' = an_answers w @ [(ci, s)]" "er_rc er' = closed_rc ?er"
      using send_dcw_ok [of cfg ?w0 ?er ci t] w0 by (auto simp: world_ok_def)
    have "pend_open cfg True pipe t ci grp er w = Some (w', er', None)"
      unfolding pend_open_def Let_def c using True s(1) by simp
    moreover have fr: "an_frame w w'" using an_frame_trans [OF f0 s(2)] .
    moreover have "er_rc er' < E_99" using s(6) by (auto simp: closed_rc_def checkCW_def rc_defs E_99_def)
    then have "rank er' < rank er" "\<not> E_99 \<le> er_rc er'" using assms(3) by (auto simp: rank_def)
    ultimately show ?thesis
      using world_ok_frame [OF assms(1) fr s(4)] s(3,5) cw by auto
  next
    case False
    let ?tpc = "add_ms (tps er) (if stage er \<noteq> 0 then ctimeout ?lb else ftimeout ?lb)"
    have late: "tb_time ?tpc < tb_time t" using assms(2,4) by (auto simp: task_ok_def overdue_def)
    have m: "\<forall>(node, i) \<in> set (matching_rdr er). i < length (readers (gw_lb ?w0))"
      using assms(2) by (simp add: task_ok_def)
    obtain w1 er1 tpc where r: "next_round ?lb pipe t ?tpc er ?w0 = Some (w1, er1, tpc)" "same_task er er1"
      "an_frame ?w0 w1" "gw_lb w1 = gw_lb w" "gw_cache w1 = cache" "an_answers w1 = an_answers w"
      "if stage er \<noteq> 0 then er1 = er \<and> tpc = ?tpc
       else stage er1 \<noteq> 0 \<or> \<not> locals_done er \<and> locals_done er1 \<or> er1 = er \<and> tpc = ?tpc"
      using next_round_ok [OF m, of ?lb pipe t ?tpc] by auto
    have f1: "an_frame w w1" using an_frame_trans [OF f0 r(3)] .
    have w1: "world_ok ?lb ci w1"
      using world_ok_frame [OF assms(1) f1] r(4,5) cw assms(1) by (simp add: world_ok_def)
    have t1: "task_ok ?lb lo hi ?n cache er1" by (rule same_task_ok [OF r(2) t0])
    have rc: "er_rc er1 = er_rc er" using r(2) by (simp add: same_task_def)
    have po: "pend_open cfg True pipe t ci grp er w =
       (if comp_timeb t tpc \<le> 0 then Some (w1, er1, Some tpc)
        else if stage er1 \<noteq> 0 then do { (w2, er2) \<leftarrow> give_up cfg True t ci grp er1 w1; Some (w2, er2, None) }
        else do {
           (w2, er3) \<leftarrow> (if E_UNHANDLED \<le> er_rc er1 then ask_readers pipe 0 (er1\<lparr>stage := 1\<rparr>) w1 else Some (w1, er1\<lparr>stage := 1\<rparr>));
           Some (w2, er3, Some (add_ms tpc (ctimeout ?lb - ftimeout ?lb))) })"
      unfolding pend_open_def Let_def c using False r(1) by simp
    consider (wait) "comp_timeb t tpc \<le> 0" | (stop) "\<not> comp_timeb t tpc \<le> 0" "stage er1 \<noteq> 0"
      | (raise) "\<not> comp_timeb t tpc \<le> 0" "stage er1 = 0" by blast
    then show ?thesis
    proof cases
      case wait
      have "tpc \<noteq> ?tpc" using wait late by (auto simp: comp_timeb_def)
      then have "rank er1 < rank er" using r(7) rc assms(3) by (auto simp: rank_def split: if_splits)
      then show ?thesis using po wait f1 w1 t1 rc assms(3) r(4-6) cw by auto
    next
      case stop
      obtain w2 er2 s where g: "give_up cfg True t ci grp er1 w1 = Some (w2, er2)" "an_frame w1 w2" "stats_ready ?lb (gw_lb w2)"
        "cache_safe ?n (gw_cache w2)" "\<forall>i. ?A cache i \<longrightarrow> ?A (gw_cache w2) i" "an_answers w2 = an_answers w1 @ [(ci, s)]"
        "er_rc er2 = E_TIMEOUT"
        using give_up_ok [of cfg w1 ci lo hi er1 t grp] w1 t1 r(4,5) assms(4-6) by (auto simp: world_ok_def)
      have fr: "an_frame w w2" using an_frame_trans [OF f1 g(2)] .
      have "\<not> E_99 \<le> er_rc er2" "rank er2 < rank er"
        using g(7) assms(3) by (auto simp: rank_def rc_defs E_99_def)
      then show ?thesis
        using po stop g fr world_ok_frame [OF assms(1) fr g(3,4)] r(6) cw by auto
    next
      case raise
      let ?e = "er1\<lparr>stage := 1\<rparr>"
      have se: "same_task er1 ?e" by (simp add: same_task_def)
      have m1: "\<forall>(node, i) \<in> set (matching_rdr er1). i < length (readers (gw_lb w1))"
        using t1 r(4) by (simp add: task_ok_def)
      from ask_all_ok [OF m1] obtain w2 er3 where a: "(if E_UNHANDLED \<le> er_rc er1 then ask_readers pipe 0 ?e w1 else Some (w1, ?e)) = Some (w2, er3)"
        "same_task ?e er3" "stage er3 = 1" "an_frame w1 w2" "gw_lb w2 = gw_lb w1" "gw_cache w2 = gw_cache w1" "an_answers w2 = an_answers w1"
        by blast
      have fr: "an_frame w w2" using an_frame_trans [OF f1 a(4)] .
      have ok: "world_ok ?lb ci w2" using w1 world_ok_frame [OF w1 a(4)] a(5,6) by (simp add: world_ok_def)
      have "stage er = 0" using raise r(7) by (auto split: if_splits)
      then have "rank er3 < rank er" using a(2,3) rc assms(3) by (simp add: rank_def same_task_def)
      moreover have "er_rc er3 = er_rc er" using a(2) rc by (simp add: same_task_def)
      moreover have "task_ok ?lb lo hi ?n cache er3" by (rule same_task_ok [OF a(2) same_task_ok [OF se t1]])
      ultimately show ?thesis using po raise a fr ok r(4-6) cw assms(3) by auto
    qed
  qed
qed

section \<open>The table\<close>

definition tasks_of :: "an_world \<Rightarrow> nat \<Rightarrow> lb_request list" where
  "tasks_of w ci = (case an_tasks (an_clients w ! ci) of None \<Rightarrow> [] | Some ts \<Rightarrow> ts)"

definition pend_ok :: "lb_config \<Rightarrow> int \<Rightarrow> int \<Rightarrow> nat \<Rightarrow> an_world \<Rightarrow> bool" where
  "pend_ok cfg lo hi ci w \<longleftrightarrow> world_ok cfg ci w \<and>
     (\<forall>er \<in> set (tasks_of w ci). E_99 \<le> er_rc er \<longrightarrow>
        task_ok cfg lo hi (length (readers (gw_lb w))) (gw_cache w) er)"

lemma tasks_of_frame: "an_frame w w' \<Longrightarrow> ci < length (an_clients w) \<Longrightarrow> tasks_of w' ci = tasks_of w ci"
  using an_frame_nth [of w w' ci] by (simp add: tasks_of_def)

lemma tasks_of_put: "ci < length (an_clients w) \<Longrightarrow> tasks_of (put_task ci k er w) ci = (tasks_of w ci)[k := er]"
  by (auto simp: tasks_of_def put_task_def split: option.splits)

lemma task_of_nth: "ci < length (an_clients w) \<Longrightarrow> k < length (tasks_of w ci) \<Longrightarrow> task_of w ci k = Some (tasks_of w ci ! k)"
  by (auto simp: tasks_of_def task_of_def split: option.splits)

lemma world_ok_put: "world_ok cfg ci (put_task ci k er w) = world_ok cfg ci w"
  by (auto simp: world_ok_def put_task_def)

lemma open_tasks_update:
  "k < length ts \<Longrightarrow> open_tasks (ts[k := e]) + (if E_99 \<le> er_rc (ts ! k) then 1 else 0) =
     open_tasks ts + (if E_99 \<le> er_rc e then 1 else 0)"
proof (induction ts arbitrary: k)
  case (Cons a ts)
  then show ?case by (cases k) (auto simp: open_tasks_def)
qed simp

text \<open>Answers and open requests balance: no request is answered twice, none is lost.\<close>

definition balance :: "nat \<Rightarrow> an_world \<Rightarrow> nat" where
  "balance ci w = length (an_answers w) + open_tasks (tasks_of w ci)"

lemma pend_task_ok:
  assumes "pend_ok (gc_lb cfg) lo hi ci w" "k < length (tasks_of w ci)"
    and "lo \<le> tb_time t" "tb_time t \<le> hi" "hi \<le> lo + CS_CACHE_TIMEOUT"
  shows "\<exists>w' er' due. pend_task cfg True pipe t ci k w = Some (w', due) \<and> pend_ok (gc_lb cfg) lo hi ci w' \<and>
    tasks_of w' ci = (tasks_of w ci)[k := er'] \<and> balance ci w' = balance ci w \<and> rank er' \<le> rank (tasks_of w ci ! k) - 1"
proof -
  let ?lb = "gc_lb cfg" and ?er = "tasks_of w ci ! k"
  have ci: "ci < length (an_clients w)" using assms(1) by (simp add: pend_ok_def world_ok_def)
  note to = task_of_nth [OF ci assms(2)]
  show ?thesis
  proof (cases "er_rc ?er < E_99")
    case True
    then have "pend_task cfg True pipe t ci k w = Some (w, None)" using to by (simp add: pend_task_def)
    moreover have "rank ?er = 0" using True by (simp add: rank_def)
    ultimately show ?thesis using assms(1) by (intro exI [of _ w] exI [of _ ?er] exI [of _ None]) simp
  next
    case False
    have w: "world_ok ?lb ci w" and tk: "task_ok ?lb lo hi (length (readers (gw_lb w))) (gw_cache w) ?er"
      using assms(1,2) False by (auto simp: pend_ok_def)
    have o: "E_99 \<le> er_rc ?er" using False by simp
    obtain w1 er1 due where p: "pend_open cfg True pipe t ci (cl_grp (an_clients w ! ci)) ?er w = Some (w1, er1, due)"
      "an_frame w w1" "world_ok ?lb ci w1"
      "\<forall>i. alive (cache_limit (ctimeout ?lb) hi) (gw_cache w) i \<longrightarrow> alive (cache_limit (ctimeout ?lb) hi) (gw_cache w1) i"
      "rank er1 < rank ?er"
      "if E_99 \<le> er_rc er1 then task_ok ?lb lo hi (length (readers (gw_lb w1))) (gw_cache w1) er1 \<and> an_answers w1 = an_answers w
       else \<exists>s. an_answers w1 = an_answers w @ [(ci, s)]"
      using pend_open_ok [OF w tk o assms(3-5)] by blast
    let ?w = "put_task ci k er1 w1"
    have ci1: "ci < length (an_clients w1)" using p(3) by (simp add: world_ok_def)
    have ts: "tasks_of ?w ci = (tasks_of w ci)[k := er1]"
      using tasks_of_put [OF ci1] tasks_of_frame [OF p(2) ci] by simp
    have e: "gw_lb ?w = gw_lb w1" "gw_cache ?w = gw_cache w1" "an_answers ?w = an_answers w1" by (simp_all add: put_task_def)
    have len: "length (readers (gw_lb w1)) = length (readers (gw_lb w))" by (rule an_frame_len [OF p(2)])
    have "task_ok ?lb lo hi (length (readers (gw_lb w1))) (gw_cache w1) x" if "x \<in> set (tasks_of w ci)" "E_99 \<le> er_rc x" for x
      using task_ok_cache [OF _ p(4)] assms(1) that len by (auto simp: pend_ok_def)
    then have "pend_ok ?lb lo hi ci ?w"
      using p(3,6) ts e set_update_subset_insert [of "tasks_of w ci" k er1]
      by (auto simp: pend_ok_def world_ok_put split: if_splits)
    moreover have "balance ci ?w = balance ci w"
      using p(6) o open_tasks_update [OF assms(2), of er1] by (auto simp: balance_def ts e split: if_splits)
    moreover have "pend_task cfg True pipe t ci k w = Some (?w, due)" using to False p(1) by (simp add: pend_task_def)
    ultimately show ?thesis using ts p(5) by (intro exI [of _ ?w] exI [of _ er1] exI [of _ due]) simp
  qed
qed

lemma pend_loop_ok:
  assumes "pend_ok (gc_lb cfg) lo hi ci w" "k \<le> length (tasks_of w ci)"
    and "lo \<le> tb_time t" "tb_time t \<le> hi" "hi \<le> lo + CS_CACHE_TIMEOUT"
  shows "\<exists>w' tpe'. pend_loop cfg True pipe t ci k tpe w = Some (w', tpe') \<and> pend_ok (gc_lb cfg) lo hi ci w' \<and>
    length (tasks_of w' ci) = length (tasks_of w ci) \<and> balance ci w' = balance ci w \<and>
    (\<forall>j < k. rank (tasks_of w' ci ! j) \<le> rank (tasks_of w ci ! j) - 1) \<and>
    (\<forall>j \<ge> k. tasks_of w' ci ! j = tasks_of w ci ! j)"
  using assms(1,2)
proof (induction k arbitrary: w tpe)
  case 0
  then show ?case by simp
next
  case (Suc k)
  have kl: "k < length (tasks_of w ci)" using Suc.prems(2) by simp
  obtain w1 er1 due where 1: "pend_task cfg True pipe t ci k w = Some (w1, due)" "pend_ok (gc_lb cfg) lo hi ci w1"
    "tasks_of w1 ci = (tasks_of w ci)[k := er1]" "balance ci w1 = balance ci w" "rank er1 \<le> rank (tasks_of w ci ! k) - 1"
    using pend_task_ok [OF Suc.prems(1) kl assms(3-5), of pipe] by blast
  let ?tpe = "case due of None \<Rightarrow> tpe | Some tpc \<Rightarrow> if 0 < comp_timeb tpe tpc then tpc else tpe"
  obtain w' tpe' where 2: "pend_loop cfg True pipe t ci k ?tpe w1 = Some (w', tpe')" "pend_ok (gc_lb cfg) lo hi ci w'"
    "length (tasks_of w' ci) = length (tasks_of w1 ci)" "balance ci w' = balance ci w1"
    "\<forall>j < k. rank (tasks_of w' ci ! j) \<le> rank (tasks_of w1 ci ! j) - 1" "\<forall>j \<ge> k. tasks_of w' ci ! j = tasks_of w1 ci ! j"
    using Suc.IH [OF 1(2), of ?tpe] 1(3) Suc.prems(2) by auto
  have "rank (tasks_of w' ci ! j) \<le> rank (tasks_of w ci ! j) - 1" if "j < Suc k" for j
    using that 1(3,5) 2(5,6) Suc.prems(2) by (cases "j = k") auto
  moreover have "tasks_of w' ci ! j = tasks_of w ci ! j" if "Suc k \<le> j" for j using that 1(3) 2(6) by simp
  moreover have "pend_loop cfg True pipe t ci (Suc k) tpe w = Some (w', tpe')" using 1(1) 2(1) by simp
  ultimately show ?case using 1(3,4) 2(2-4) by auto
qed

lemma chk_pending_ok:
  assumes "pend_ok (gc_lb cfg) lo hi ci w" "lo \<le> tb_time t" "tb_time t \<le> hi" "hi \<le> lo + CS_CACHE_TIMEOUT"
  shows "\<exists>w' td. chk_pending cfg True pipe t timeout ci w = Some (w', td) \<and> pend_ok (gc_lb cfg) lo hi ci w' \<and>
    length (tasks_of w' ci) = length (tasks_of w ci) \<and> balance ci w' = balance ci w \<and>
    (\<forall>j < length (tasks_of w ci). rank (tasks_of w' ci ! j) \<le> rank (tasks_of w ci ! j) - 1)"
proof -
  let ?ts = "tasks_of w ci"
  have ci: "ci < length (an_clients w)" using assms(1) by (simp add: pend_ok_def world_ok_def)
  obtain w1 tpe where 1: "pend_loop cfg True pipe t ci (length ?ts) (t\<lparr>tb_time := tb_time t + timeout\<rparr>) w = Some (w1, tpe)"
    "pend_ok (gc_lb cfg) lo hi ci w1" "length (tasks_of w1 ci) = length ?ts" "balance ci w1 = balance ci w"
    "\<forall>j < length ?ts. rank (tasks_of w1 ci ! j) \<le> rank (?ts ! j) - 1"
    using pend_loop_ok [OF assms(1) order_refl assms(2-4)] by blast
  let ?w = "w1\<lparr>an_clients := (an_clients w1)[ci := (an_clients w1 ! ci)\<lparr>cl_pending := int (open_tasks ?ts)\<rparr>]\<rparr>"
  have ci1: "ci < length (an_clients w1)" using 1(2) by (simp add: pend_ok_def world_ok_def)
  then have t: "tasks_of ?w ci = tasks_of w1 ci" by (simp add: tasks_of_def)
  have "chk_pending cfg True pipe t timeout ci w = Some (?w, s32 (timeb_diff tpe t + 5))"
    using ci 1(1) by (simp add: chk_pending_def tasks_of_def)
  moreover have "pend_ok (gc_lb cfg) lo hi ci ?w" using 1(2) t ci1 by (simp add: pend_ok_def world_ok_def)
  ultimately show ?thesis using 1 t by (simp add: balance_def)
qed

section \<open>Properties\<close>

text \<open>C2. Nobody waits longer than the timeouts: once the client and fallback timeouts of all open requests
  of a client have passed, three passes of \<open>chk_pending\<close> end every one of them, whatever the readers do,
  and exactly one answer is sent for each. The passes need memory, a cache in which the requests'
  entries are still there, and a code that has a text.\<close>

theorem pending_answered:
  assumes "pend_ok (gc_lb cfg) lo hi ci w" "hi \<le> lo + CS_CACHE_TIMEOUT"
    and "\<forall>t \<in> {t1, t2, t3}. lo \<le> tb_time t \<and> tb_time t \<le> hi"
  shows "\<exists>w1 w2 w3 d1 d2 d3. chk_pending cfg True pipe t1 timeout ci w = Some (w1, d1) \<and>
    chk_pending cfg True pipe t2 timeout ci w1 = Some (w2, d2) \<and>
    chk_pending cfg True pipe t3 timeout ci w2 = Some (w3, d3) \<and>
    length (tasks_of w3 ci) = length (tasks_of w ci) \<and> (\<forall>er \<in> set (tasks_of w3 ci). er_rc er < E_99) \<and>
    length (an_answers w3) = length (an_answers w) + open_tasks (tasks_of w ci)"
proof -
  obtain w1 d1 where 1: "chk_pending cfg True pipe t1 timeout ci w = Some (w1, d1)" "pend_ok (gc_lb cfg) lo hi ci w1"
    "length (tasks_of w1 ci) = length (tasks_of w ci)" "balance ci w1 = balance ci w"
    "\<forall>j < length (tasks_of w ci). rank (tasks_of w1 ci ! j) \<le> rank (tasks_of w ci ! j) - 1"
    using chk_pending_ok [OF assms(1) _ _ assms(2), of t1] assms(3) by blast
  obtain w2 d2 where 2: "chk_pending cfg True pipe t2 timeout ci w1 = Some (w2, d2)" "pend_ok (gc_lb cfg) lo hi ci w2"
    "length (tasks_of w2 ci) = length (tasks_of w1 ci)" "balance ci w2 = balance ci w1"
    "\<forall>j < length (tasks_of w1 ci). rank (tasks_of w2 ci ! j) \<le> rank (tasks_of w1 ci ! j) - 1"
    using chk_pending_ok [OF 1(2) _ _ assms(2), of t2] assms(3) by blast
  obtain w3 d3 where 3: "chk_pending cfg True pipe t3 timeout ci w2 = Some (w3, d3)"
    "length (tasks_of w3 ci) = length (tasks_of w2 ci)" "balance ci w3 = balance ci w2"
    "\<forall>j < length (tasks_of w2 ci). rank (tasks_of w3 ci ! j) \<le> rank (tasks_of w2 ci ! j) - 1"
    using chk_pending_ok [OF 2(2) _ _ assms(2), of t3] assms(3) by blast
  have "er_rc er < E_99" if "er \<in> set (tasks_of w3 ci)" for er
  proof -
    from that obtain j where j: "j < length (tasks_of w ci)" "er = tasks_of w3 ci ! j"
      by (auto simp: in_set_conv_nth 1(3) 2(3) 3(2))
    have "rank (tasks_of w ci ! j) \<le> 3" by (simp add: rank_def)
    then have "rank er = 0" using 1(3,5) 2(3,5) 3(4) j by fastforce
    then show ?thesis by (simp add: rank_def split: if_splits)
  qed
  moreover from this have "open_tasks (tasks_of w3 ci) = 0"
    unfolding open_tasks_def by (fastforce simp: filter_empty_conv)
  ultimately show ?thesis using 1 2 3 by (auto simp: balance_def)
qed

definition counts_ex :: cw_counts where
  "counts_ex = \<lparr>cwfound = 0, cwcache = 0, cwnot = 0, cwignored = 0, cwtout = 0\<rparr>"

definition an_client_ex :: "lb_request list \<Rightarrow> an_client" where
  "an_client_ex ts = gc_client.extend gc_client_ex (an_client.fields (Some ts) False True counts_ex 0)"

definition an_world_ex :: "an_client list \<Rightarrow> an_world" where
  "an_world_ex cls = gc_world.extend gc_world_ex (an_world.fields cls [counts_ex] counts_ex [] [] [] [])"

definition open_ex :: lb_request where
  "open_ex = (lb_request_ex [0, 1])\<lparr>er_rc := E_UNHANDLED\<rparr>"

theorem pending_answered_witness:
  "\<exists>w1 w2 w3 d1 d2 d3. chk_pending gc_config_ex True (\<lambda>_. True) (clk_ex 0) 5 0 (an_world_ex [an_client_ex [open_ex]]) = Some (w1, d1) \<and>
    chk_pending gc_config_ex True (\<lambda>_. True) (clk_ex 1) 5 0 w1 = Some (w2, d2) \<and>
    chk_pending gc_config_ex True (\<lambda>_. True) (clk_ex 2) 5 0 w2 = Some (w3, d3) \<and> length (an_answers w3) = 1"
proof -
  let ?w = "an_world_ex [an_client_ex [open_ex]]"
  have t: "tasks_of ?w 0 = [open_ex]"
    by (simp add: tasks_of_def an_world_ex_def an_client_ex_def an_client.defs an_world.defs gc_client.defs gc_world.defs
        gc_world_ex_def)
  have "er_l open_ex = 35" "matching_rdr open_ex = [(0, 0), (1, 1)]" "selected_reader open_ex = None"
    "rejected (er_rcEx open_ex) = Some []" "overdue (gc_lb gc_config_ex) 2000 open_ex" "ecmcacheptr open_ex = None"
    by code_simp+
  then have "task_ok (gc_lb gc_config_ex) 2000 2000 2 [] open_ex" by (simp add: task_ok_def)
  moreover have v: "length (readers (gw_lb ?w)) = 2" "gw_cache ?w = []" "length (an_clients ?w) = 1"
    "cl_account (an_clients ?w ! 0) = 0" "length (an_accounts ?w) = 1" "lb_mode (gc_lb gc_config_ex) = 0" by code_simp+
  moreover have "world_ok (gc_lb gc_config_ex) 0 ?w"
    by (simp add: world_ok_def cache_safe_def stats_ready_def v)
  ultimately have "pend_ok (gc_lb gc_config_ex) 2000 2000 0 ?w" by (simp add: pend_ok_def t)
  moreover have "\<forall>t \<in> {clk_ex 0, clk_ex 1, clk_ex 2}. 2000 \<le> tb_time t \<and> tb_time t \<le> 2000" by (simp add: clk_ex_def)
  moreover have "length (an_answers ?w) = 0" "open_tasks (tasks_of ?w 0) = 1" unfolding t by code_simp+
  ultimately show ?thesis
    using pending_answered [of gc_config_ex 2000 2000 0 ?w "clk_ex 0" "clk_ex 1" "clk_ex 2" "\<lambda>_. True" 5]
    by (simp add: CS_CACHE_TIMEOUT_def) blast
qed

end
