(* ===== verification/Delivery.thy ===== *)
theory Delivery
  imports Pending
begin

text \<open>
  The way of an answer from a reader to the clients: \<open>write_ecm_answer\<close>, \<open>chk_dcw\<close>, \<open>send_dcw\<close> and
  \<open>distribute_ecm\<close> together.
\<close>

section \<open>Checksums\<close>

definition cw_ok :: "u8 list \<Rightarrow> bool" where
  "cw_ok cw \<longleftrightarrow> (\<forall>i \<in> {0, 4, 8, 12}. cw ! (i + 3) = cw_sum cw i)"

lemma cw_check_words:
  assumes "length cw = 16"
  shows "(if fst (cw_check d cw [0, 4, 8, 12]) then d else cw_ok (snd (cw_check d cw [0, 4, 8, 12]))) \<and>
    (\<forall>j < 16. j mod 4 \<noteq> 3 \<longrightarrow> snd (cw_check d cw [0, 4, 8, 12]) ! j = cw ! j) \<and>
    (cw_ok cw \<longrightarrow> cw_check d cw [0, 4, 8, 12] = (False, cw))"
proof -
  have n: "j mod 4 \<noteq> 3 \<Longrightarrow> j \<noteq> 3 \<and> j \<noteq> 7 \<and> j \<noteq> 11 \<and> j \<noteq> (15 :: nat)" for j by auto
  show ?thesis using assms n by (auto simp: cw_ok_def cw_sum_def nth_list_update)
qed

section \<open>Distribution\<close>

lemma distribute_loop_frame:
  "map (\<lambda>c. (an_tasks c, cl_account c, cl_grp c)) (fst (distribute_loop pipe grp er ci cls)) =
   map (\<lambda>c. (an_tasks c, cl_account c, cl_grp c)) cls"
  by (induction pipe grp er ci cls rule: distribute_loop.induct) (auto simp: Let_def split: option.splits)

lemma distribute_frame:
  "an_frame w (distribute_ecm pipe er grp rc w) \<and> gw_lb (distribute_ecm pipe er grp rc w) = gw_lb w \<and>
   gw_cache (distribute_ecm pipe er grp rc w) = gw_cache w \<and> an_answers (distribute_ecm pipe er grp rc w) = an_answers w"
  using distribute_loop_frame [of pipe grp "er\<lparr>er_rc := rc\<rparr>" 0 "an_clients w"]
  by (simp add: distribute_ecm_def an_frame_def Let_def)

lemma task_of_frame: "an_frame w w' \<Longrightarrow> ci < length (an_clients w) \<Longrightarrow> task_of w' ci k = task_of w ci k"
  using an_frame_nth [of w w' ci] by (simp add: task_of_def)

lemma task_of_Some:
  "task_of w ci k = Some er \<longleftrightarrow> ci < length (an_clients w) \<and> (\<exists>ts. an_tasks (an_clients w ! ci) = Some ts \<and> k < length ts \<and> ts ! k = er)"
  by (auto simp: task_of_def buf_simps split: bind_splits)

lemma task_of_upd [simp]: "task_of (w\<lparr>gw_cache := c\<rparr>) ci k = task_of w ci k" "task_of (w\<lparr>gw_lb := l\<rparr>) ci k = task_of w ci k"
  by (simp_all add: task_of_def)

lemma task_of_put: "task_of w ci k = Some er \<Longrightarrow> task_of (put_task ci k er' w) ci k = Some er'"
  by (auto simp: task_of_Some put_task_def)

text \<open>A closed request is answered and passed on; the world then holds it with its final code.\<close>

lemma finish_dcw_ok:
  assumes "world_ok (gc_lb cfg) ci w" "task_of w ci (cpti er) = Some e0" "er_l ert \<noteq> 0"
    and "selected_reader ert = Some rid" "rid < length (readers (gw_lb w))" "rejected (er_rcEx ert) \<noteq> None"
  shows "\<exists>w' e s. finish_dcw cfg True pipe t ci er ert w = Some w' \<and> world_ok (gc_lb cfg) ci w' \<and>
    length (readers (gw_lb w')) = length (readers (gw_lb w)) \<and> gw_cache w' = gw_cache w \<and>
    task_of w' ci (cpti er) = Some e \<and> er_rc e = closed_rc ert \<and> an_answers w' = an_answers w @ [(ci, s)] \<and>
    s = answer_of e \<and> er_cw e = er_cw ert"
proof -
  have ci: "ci < length (an_clients w)" using assms(1) by (simp add: world_ok_def)
  have sel: "\<forall>i. selected_reader ert = Some i \<longrightarrow> i < length (readers (gw_lb w))" using assms(4,5) by simp
  from assms(1) obtain w1 e s where s: "send_dcw cfg True t ci ert w = Some (w1, e)" "an_frame w w1" "gw_cache w1 = gw_cache w"
    "stats_ready (gc_lb cfg) (gw_lb w1)" "an_answers w1 = an_answers w @ [(ci, s)]" "er_rc e = closed_rc ert"
    "selected_reader e = selected_reader ert" "er_cw e = er_cw ert" "s = answer_of e"
    using send_dcw_ok [of cfg w ert ci t] assms(3,6) sel by (auto simp: world_ok_def)
  have r: "selected_reader e = Some rid" "rid < length (readers (gw_lb w1))"
    using s(7) assms(4,5) an_frame_len [OF s(2)] by simp_all
  let ?d = "distribute_ecm pipe er (rdr_grp (readers (gw_lb w1) ! rid)) (if er_rc e < E_NOTFOUND then E_CACHE2 else er_rc e)
     (put_task ci (cpti er) e w1)"
  have w1: "world_ok (gc_lb cfg) ci w1"
    by (rule world_ok_frame [OF assms(1) s(2,4)]) (use assms(1) s(3) in \<open>simp add: world_ok_def\<close>)
  have p: "world_ok (gc_lb cfg) ci (put_task ci (cpti er) e w1)" using w1 by (simp add: world_ok_put)
  have pt: "task_of (put_task ci (cpti er) e w1) ci (cpti er) = Some e"
    by (rule task_of_put) (use task_of_frame [OF s(2) ci] assms(2) in simp)
  have pci: "ci < length (an_clients (put_task ci (cpti er) e w1))" using p by (simp add: world_ok_def)
  note df = distribute_frame [of "put_task ci (cpti er) e w1" pipe er]
  have "world_ok (gc_lb cfg) ci ?d"
    by (rule world_ok_frame [OF p]) (use df p in \<open>simp_all add: world_ok_def\<close>)
  moreover have "task_of ?d ci (cpti er) = Some e" using task_of_frame [OF _ pci] df pt by simp
  moreover have "finish_dcw cfg True pipe t ci er ert w = Some ?d" using s(1) r by (simp add: finish_dcw_def)
  moreover have "gw_lb (put_task ci (cpti er) e w1) = gw_lb w1" "gw_cache (put_task ci (cpti er) e w1) = gw_cache w1"
    "an_answers (put_task ci (cpti er) e w1) = an_answers w1" by (simp_all add: put_task_def)
  ultimately show ?thesis using df s an_frame_len [OF s(2)] by (intro exI [of _ ?d] exI [of _ e] exI [of _ s]) simp
qed

section \<open>Taking an answer\<close>

text \<open>When the entry of a request in the cache can be written.\<close>

definition entry_ready :: "cache_entry list \<Rightarrow> int \<Rightarrow> lb_request \<Rightarrow> bool" where
  "entry_ready cache t er \<longleftrightarrow> (\<forall>i. ecmcacheptr er = Some i \<longrightarrow>
     CS_CACHE_TIMEOUT \<le> t - tb_time (tps er) \<or> (\<exists>e \<in> set cache. ce_id e = i))"

lemma store_cw_ready:
  assumes "entry_ready cache t er" "cache_safe n cache" "\<forall>i. selected_reader er = Some i \<longrightarrow> i < n"
  shows "\<exists>cache'. store_cw_in_cache t grp rc cache er = Some cache' \<and> cache_safe n cache' \<and>
    (\<forall>er'. entry_ready cache t er' \<longrightarrow> entry_ready cache' t er')"
proof (cases "0 \<le> t - tb_time (tps er) - CS_CACHE_TIMEOUT \<or> ecmcacheptr er = None")
  case True then show ?thesis using assms(2) by (auto simp: store_cw_in_cache_def)
next
  case False
  then obtain i where i: "ecmcacheptr er = Some i" "\<not> 0 \<le> t - tb_time (tps er) - CS_CACHE_TIMEOUT" by auto
  with assms(1) obtain e where e: "entry_of cache i = Some e"
    unfolding entry_ready_def entry_of_def by (metis (mono_tags, lifting) diff_ge_0_iff_ge find_None_iff option.exhaust)
  define f :: "cache_entry \<Rightarrow> cache_entry" where "f = (\<lambda>x. if ce_id x = i then x\<lparr>ce_md5 := er_ecmd5 er, ce_cw := er_cw er, ce_caid := er_caid er,
      ce_grp := grp, ce_reader := selected_reader er, ce_rc := rc, ce_time := t\<rparr> else x)"
  have id: "ce_id (f x) = ce_id x" for x by (simp add: f_def)
  have "entry_ready (map f cache) t er' = entry_ready cache t er'" for er' unfolding entry_ready_def by (simp add: id)
  moreover have "cache_safe n (map f cache)" using assms(2,3) by (auto simp: cache_safe_def f_def)
  moreover have "store_cw_in_cache t grp rc cache er = Some (if ce_rc e \<le> rc then cache else map f cache)"
    using i e by (simp add: store_cw_in_cache_def f_def)
  ultimately show ?thesis using assms(2) by auto
qed

definition same_request :: "lb_request \<Rightarrow> lb_request \<Rightarrow> bool" where
  "same_request er ert \<longleftrightarrow> (er_caid er = er_caid ert \<or> er_ocaid er = er_ocaid ert) \<and> er_ecmd5 er = er_ecmd5 ert"

text \<open>What an open request and the answer of reader \<open>rid\<close> must satisfy.\<close>

definition answer_ready :: "gc_config \<Rightarrow> timeb \<Rightarrow> nat \<Rightarrow> lb_request \<Rightarrow> lb_request \<Rightarrow> an_world \<Rightarrow> bool" where
  "answer_ready cfg t ci er ert w \<longleftrightarrow> world_ok (gc_lb cfg) ci w \<and> task_of w ci (cpti er) = Some ert \<and>
     E_99 \<le> er_rc ert \<and> same_request er ert \<and> er_l er \<noteq> 0 \<and> er_l ert \<noteq> 0 \<and> rejected (er_rcEx er) \<noteq> None \<and>
     entry_ready (gw_cache w) (tb_time t) ert"

lemma chk_dcw_last:
  assumes "answer_ready cfg t ci er ert w" "er_rc er = E_RDR_NOTFOUND" "selected_reader er = Some rid"
    and "rid < length (readers (gw_lb w))" "snd ` set (matching_rdr ert) \<subseteq> {rid}"
  shows "\<exists>w' e. chk_dcw cfg True pipe t ci er w = Some w' \<and> task_of w' ci (cpti er) = Some e \<and> er_rc e = E_NOTFOUND \<and>
    an_answers w' = an_answers w @ [(ci, e)]"
proof -
  obtain cl ts where c: "fetch (an_clients w) ci = Some cl" "an_tasks cl = Some ts" "fetch ts (cpti er) = Some ert"
    using assms(1) by (auto simp: answer_ready_def task_of_Some)
  let ?e = "ert\<lparr>er_rcEx := er_rcEx er, matching_rdr := [], selected_reader := Some rid, er_rc := E_NOTFOUND\<rparr>"
  have l: "filter (\<lambda>(node, i). Some i \<noteq> selected_reader er) (matching_rdr ert) = []"
    using assms(3,5) by (auto simp: filter_empty_conv)
  have er: "entry_ready (gw_cache w) (tb_time t) ?e" "\<forall>i. selected_reader ?e = Some i \<longrightarrow> i < length (readers (gw_lb w))"
    "cache_safe (length (readers (gw_lb w))) (gw_cache w)"
    using assms(1,4) by (simp_all add: answer_ready_def entry_ready_def world_ok_def)
  obtain cache where s: "store_cw_in_cache (tb_time t) (rdr_grp (readers (gw_lb w) ! rid)) E_NOTFOUND (gw_cache w) ?e = Some cache"
    "cache_safe (length (readers (gw_lb w))) cache"
    using store_cw_ready [OF er(1,3,2)] by blast
  have w1: "world_ok (gc_lb cfg) ci (w\<lparr>gw_cache := cache\<rparr>)" "task_of (w\<lparr>gw_cache := cache\<rparr>) ci (cpti er) = Some ert"
    using assms(1) s(2) by (simp_all add: answer_ready_def world_ok_def)
  have e: "er_l ?e \<noteq> 0" "selected_reader ?e = Some rid" "rid < length (readers (gw_lb (w\<lparr>gw_cache := cache\<rparr>)))"
    "rejected (er_rcEx ?e) \<noteq> None" using assms(1,4) by (simp_all add: answer_ready_def)
  obtain w' e' where f: "finish_dcw cfg True pipe t ci er ?e (w\<lparr>gw_cache := cache\<rparr>) = Some w'"
    "task_of w' ci (cpti er) = Some e'" "er_rc e' = closed_rc ?e" "an_answers w' = an_answers w @ [(ci, answer_of e')]"
    using finish_dcw_ok [OF w1 e, of pipe t] by auto
  have "er_rc e' = E_NOTFOUND" using f(3) by (simp add: closed_rc_def rc_defs)
  moreover from this have "answer_of e' = e'" by (simp add: answer_of_def rc_defs)
  moreover have "chk_dcw cfg True pipe t ci er w = Some w'"
    using c assms(1-4) l s(1) f(1)
    by (auto simp: chk_dcw_def Let_def answer_ready_def same_request_def E_RDR_NOTFOUND_def E_RDR_FOUND_def)
  ultimately show ?thesis using f(2,4) by auto
qed

lemma chk_dcw_more:
  assumes "answer_ready cfg t ci er ert w" "er_rc er = E_RDR_NOTFOUND" "selected_reader er = Some rid"
    and "rid < length (readers (gw_lb w))" "\<not> snd ` set (matching_rdr ert) \<subseteq> {rid}"
  shows "\<exists>w' ert'. chk_dcw cfg True pipe t ci er w = Some w' \<and> an_answers w' = an_answers w \<and>
    length (readers (gw_lb w')) = length (readers (gw_lb w)) \<and>
    (\<forall>er_b. er_l er_b = er_l er \<and> er_rcEx er_b = er_rcEx er \<and> cpti er_b = cpti er \<and> same_request er_b ert \<longrightarrow>
       answer_ready cfg t ci er_b ert' w') \<and>
    (\<forall>er_b. same_request er_b ert' = same_request er_b ert) \<and>
    snd ` set (matching_rdr ert') = snd ` set (matching_rdr ert) - {rid}"
proof -
  obtain cl ts where c: "fetch (an_clients w) ci = Some cl" "an_tasks cl = Some ts" "fetch ts (cpti er) = Some ert"
    using assms(1) by (auto simp: answer_ready_def task_of_Some)
  let ?l = "filter (\<lambda>(node, i). Some i \<noteq> selected_reader er) (matching_rdr ert)"
  let ?e = "ert\<lparr>er_rcEx := er_rcEx er, matching_rdr := ?l, selected_reader := None\<rparr>"
  have l: "?l \<noteq> []" using assms(3,5) by (auto simp: filter_empty_conv)
  have set_l: "snd ` set ?l = snd ` set (matching_rdr ert) - {rid}" using assms(3) by force
  obtain lbw where b: "send_reader_stat (gc_lb cfg) True t (Some rid) er E_NOTFOUND (gw_lb w) = Some lbw"
    "stats_ready (gc_lb cfg) lbw" "length (readers lbw) = length (readers (gw_lb w))"
    using send_reader_stat_ok [of "gc_lb cfg" "gw_lb w" er "Some rid" t E_NOTFOUND] assms(1,4)
    by (auto simp: answer_ready_def world_ok_def)
  let ?w = "(put_task ci (cpti er) ?e w)\<lparr>gw_lb := lbw\<rparr>"
  have "chk_dcw cfg True pipe t ci er w = Some ?w"
    using c assms(1-4) l b(1)
    by (auto simp: chk_dcw_def Let_def answer_ready_def same_request_def E_RDR_NOTFOUND_def E_RDR_FOUND_def)
  moreover have "task_of ?w ci (cpti er) = Some ?e"
    using task_of_put [of w ci "cpti er" ert ?e] assms(1) by (simp add: answer_ready_def)
  moreover have "world_ok (gc_lb cfg) ci ?w"
    using assms(1) world_ok_put [of "gc_lb cfg" ci "cpti er" ?e w] b(2,3)
    by (simp add: answer_ready_def world_ok_def put_task_def)
  ultimately show ?thesis
    using assms(1) b(3) set_l
    by (intro exI [of _ ?w] exI [of _ ?e])
      (simp add: answer_ready_def entry_ready_def same_request_def put_task_def)
qed

text \<open>The readers answer one after the other that they have no control word.\<close>

fun all_not_found ::
  "gc_config \<Rightarrow> bool \<Rightarrow> (nat \<Rightarrow> bool) \<Rightarrow> timeb \<Rightarrow> nat \<Rightarrow> lb_request \<Rightarrow> nat list \<Rightarrow> an_world \<Rightarrow> an_world option" where
  "all_not_found cfg mem pipe t ci er [] w = Some w"
| "all_not_found cfg mem pipe t ci er (r # rs) w = do {
     w' \<leftarrow> chk_dcw cfg mem pipe t ci (er\<lparr>er_rc := E_RDR_NOTFOUND, selected_reader := Some r\<rparr>) w;
     all_not_found cfg mem pipe t ci er rs w' }"

lemma all_not_found_ok:
  assumes "answer_ready cfg t ci er ert w" "distinct rs" "rs \<noteq> []" "snd ` set (matching_rdr ert) = set rs"
    and "\<forall>r \<in> set rs. r < length (readers (gw_lb w))"
  shows "\<exists>w' e. all_not_found cfg True pipe t ci er rs w = Some w' \<and> task_of w' ci (cpti er) = Some e \<and> er_rc e = E_NOTFOUND \<and>
    an_answers w' = an_answers w @ [(ci, e)]"
  using assms
proof (induction rs arbitrary: ert w)
  case (Cons r rs)
  let ?er = "er\<lparr>er_rc := E_RDR_NOTFOUND, selected_reader := Some r\<rparr>"
  have a: "answer_ready cfg t ci ?er ert w" using Cons.prems(1) by (simp add: answer_ready_def same_request_def)
  have r: "er_rc ?er = E_RDR_NOTFOUND" "selected_reader ?er = Some r" "r < length (readers (gw_lb w))"
    using Cons.prems(5) by simp_all
  show ?case
  proof (cases rs)
    case Nil
    then have "snd ` set (matching_rdr ert) \<subseteq> {r}" using Cons.prems(4) by simp
    from chk_dcw_last [OF a r this, of pipe] show ?thesis using Nil by auto
  next
    case (Cons r2 rs2)
    then have "\<not> snd ` set (matching_rdr ert) \<subseteq> {r}" using "Cons.prems"(2,4) by auto
    from chk_dcw_more [OF a r this, of pipe] obtain w1 ert1 where
      m: "chk_dcw cfg True pipe t ci ?er w = Some w1" "an_answers w1 = an_answers w"
      "length (readers (gw_lb w1)) = length (readers (gw_lb w))"
      "\<forall>er_b. er_l er_b = er_l ?er \<and> er_rcEx er_b = er_rcEx ?er \<and> cpti er_b = cpti ?er \<and> same_request er_b ert \<longrightarrow>
         answer_ready cfg t ci er_b ert1 w1"
      "snd ` set (matching_rdr ert1) = snd ` set (matching_rdr ert) - {r}" by blast
    have "answer_ready cfg t ci er ert1 w1" using m(4) [rule_format, of er] Cons.prems(1) by (simp add: answer_ready_def)
    moreover have "snd ` set (matching_rdr ert1) = set rs" using m(5) Cons.prems(2,4) by auto
    moreover have "\<forall>r \<in> set rs. r < length (readers (gw_lb w1))" "distinct rs" "rs \<noteq> []"
      using m(3) Cons.prems(2,5) Cons by auto
    ultimately show ?thesis using "Cons.IH" [of ert1 w1] m(1,2) by auto
  qed
qed simp

section \<open>Properties\<close>


lemma answer_ready_ex: "answer_ready gc_config_ex (clk_ex 0) 0 open_ex open_ex (an_world_ex [an_client_ex [open_ex]])"
proof -
  let ?w = "an_world_ex [an_client_ex [open_ex]]"
  have v: "length (readers (gw_lb ?w)) = 2" "gw_cache ?w = []" "length (an_clients ?w) = 1"
    "cl_account (an_clients ?w ! 0) = 0" "length (an_accounts ?w) = 1" "lb_mode (gc_lb gc_config_ex) = 0" by code_simp+
  have e: "er_l open_ex = 35" "cpti open_ex = 0" "E_99 \<le> er_rc open_ex" "rejected (er_rcEx open_ex) = Some []" "ecmcacheptr open_ex = None"
    by code_simp+
  have "task_of ?w 0 0 = Some open_ex"
    by (simp add: task_of_def an_world_ex_def an_client_ex_def an_client.defs an_world.defs gc_client.defs gc_world.defs
        gc_world_ex_def)
  then show ?thesis
    by (simp add: answer_ready_def world_ok_def cache_safe_def stats_ready_def same_request_def entry_ready_def v e)
qed


text \<open>C4. A control word of a reader reaches the client unless all of its bytes are zero, in which case the
  request is closed as not found; in both cases the client gets exactly one answer.\<close>

theorem found_answered:
  assumes "answer_ready cfg t ci er ert w" "E_RDR_FOUND \<le> er_rc er" "selected_reader er = Some rid"
    and "rid < length (readers (gw_lb w))"
  shows "\<exists>w' e. chk_dcw cfg True pipe t ci er w = Some w' \<and> task_of w' ci (cpti er) = Some e \<and>
    an_answers w' = an_answers w @ [(ci, e)] \<and> er_cw e = er_cw er \<and>
    er_rc e = (if er_rc er = E_EMU then E_EMU else if \<forall>b \<in> set (take 16 (er_cw er)). b = 0 then E_NOTFOUND
               else if er_rc er = E_CACHE2 then E_CACHE2 else E_FOUND)"
proof -
  obtain cl ts where c: "fetch (an_clients w) ci = Some cl" "an_tasks cl = Some ts" "fetch ts (cpti er) = Some ert"
    using assms(1) by (auto simp: answer_ready_def task_of_Some)
  let ?e = "ert\<lparr>selected_reader := selected_reader er, er_rc := if er_rc er = E_CACHE2 \<or> er_rc er = E_EMU then er_rc er else E_FOUND,
      er_rcEx := 0, er_cw := er_cw er\<rparr>"
  have w: "world_ok (gc_lb cfg) ci w" "task_of w ci (cpti er) = Some ert" and e: "er_l ?e \<noteq> 0" "selected_reader ?e = Some rid"
    "rejected (er_rcEx ?e) \<noteq> None"
    using assms(1,3) by (simp_all add: answer_ready_def rejected_def)
  obtain w' e' where f: "finish_dcw cfg True pipe t ci er ?e w = Some w'" "task_of w' ci (cpti er) = Some e'"
    "er_rc e' = closed_rc ?e" "an_answers w' = an_answers w @ [(ci, answer_of e')]" "er_cw e' = er_cw ?e"
    using finish_dcw_ok [OF w e(1,2) assms(4) e(3), of pipe t] by auto
  have "chk_dcw cfg True pipe t ci er w = Some w'"
    using c assms(1,2) f(1)
    by (auto simp: chk_dcw_def Let_def answer_ready_def same_request_def)
  moreover have "er_rc e' = (if er_rc er = E_EMU then E_EMU else if \<forall>b \<in> set (take 16 (er_cw er)). b = 0 then E_NOTFOUND
               else if er_rc er = E_CACHE2 then E_CACHE2 else E_FOUND)"
    using f(3) by (auto simp: closed_rc_def checkCW_def rc_defs)
  moreover from this have "answer_of e' = e'" by (auto simp: answer_of_def rc_defs)
  ultimately show ?thesis using f(2,4,5) by auto
qed

theorem found_answered_witness:
  "\<exists>w' e. chk_dcw gc_config_ex True (\<lambda>_. True) (clk_ex 0) 0 (open_ex\<lparr>er_rc := 1, selected_reader := Some 1, er_cw := replicate 16 7\<rparr>)
      (an_world_ex [an_client_ex [open_ex]]) = Some w' \<and> er_rc e = E_FOUND \<and> an_answers w' = [(0, e)]"
proof -
  let ?w = "an_world_ex [an_client_ex [open_ex]]" and ?er = "open_ex\<lparr>er_rc := 1, selected_reader := Some 1, er_cw := replicate 16 7\<rparr>"
  have "answer_ready gc_config_ex (clk_ex 0) 0 ?er open_ex ?w"
    using answer_ready_ex by (simp add: answer_ready_def same_request_def)
  moreover have "E_RDR_FOUND \<le> er_rc ?er" "selected_reader ?er = Some 1" by (simp_all add: E_RDR_FOUND_def)
  moreover have "1 < length (readers (gw_lb ?w))" "an_answers ?w = []" by code_simp+
  ultimately show ?thesis
    using found_answered [of gc_config_ex "clk_ex 0" 0 ?er open_ex ?w 1 "\<lambda>_. True"] by (auto simp: rc_defs)
qed

text \<open>C30. The checksum of a control word: when bad control words are not dropped, the answer that leaves
  \<open>write_ecm_answer\<close> has correct checksums and its other twelve bytes are the reader's; when they are
  dropped, only a control word whose checksums were all correct keeps its code.\<close>

theorem write_ecm_answer_checks:
  assumes "write_ecm_answer pipe t rid ci w er = Some (w', er')" "length (er_cw er) = 16"
  shows "(\<forall>j < 16. j mod 4 \<noteq> 3 \<longrightarrow> er_cw er' ! j = er_cw er ! j) \<and>
    (er_rc er' = E_RDR_NOTFOUND \<and> er_rcEx er' = E2_WRONG_CHKSUM \<and> rdr_dropbadcws (readers (gw_lb w) ! rid) \<and> \<not> cw_ok (er_cw er) \<or>
     cw_ok (er_cw er') \<and> er_rc er' = er_rc er \<and> (rdr_dropbadcws (readers (gw_lb w) ! rid) \<longrightarrow> er_cw er' = er_cw er)) \<and>
    er_caid er' = er_ocaid er \<and> selected_reader er' = Some rid"
proof -
  let ?d = "rdr_dropbadcws (readers (gw_lb w) ! rid)" and ?r = "cw_check (rdr_dropbadcws (readers (gw_lb w) ! rid)) (er_cw er) [0, 4, 8, 12]"
  have d: "?d \<Longrightarrow> snd ?r = er_cw er" by simp
  have k: "\<not> cw_ok (er_cw er) \<or> ?r = (False, er_cw er)" using cw_check_words [OF assms(2), of ?d] by blast
  have e: "er_cw er' = snd ?r \<and> er_caid er' = er_ocaid er \<and> selected_reader er' = Some rid \<and>
    (if fst ?r then er_rc er' = E_RDR_NOTFOUND \<and> er_rcEx er' = E2_WRONG_CHKSUM else er_rc er' = er_rc er)"
    using assms(1) unfolding write_ecm_answer_def Let_def
    by (cases "fst ?r") (auto simp del: cw_check.simps simp: buf_simps split: bind_splits)
  show ?thesis using cw_check_words [OF assms(2), of ?d] e d k by (cases "fst ?r") auto
qed

theorem write_ecm_answer_checks_witness:
  "\<exists>w' er'. write_ecm_answer (\<lambda>_. True) (clk_ex 0) 0 (Some 0) (an_world_ex []) (open_ex\<lparr>er_cw := replicate 16 1\<rparr>) = Some (w', er') \<and>
     cw_ok (er_cw er') \<and> er_cw er' ! 3 = 3"
proof -
  let ?r = "write_ecm_answer (\<lambda>_. True) (clk_ex 0) 0 (Some 0) (an_world_ex []) (open_ex\<lparr>er_cw := replicate 16 1\<rparr>)"
  have "?r \<noteq> None \<and> er_cw (snd (the ?r)) ! 3 = 3 \<and> er_rcEx (snd (the ?r)) \<noteq> E2_WRONG_CHKSUM" by code_simp
  then obtain w' er' where r: "?r = Some (w', er')" "er_cw er' ! 3 = 3" "er_rcEx er' \<noteq> E2_WRONG_CHKSUM" by auto
  have "length (er_cw (open_ex\<lparr>er_cw := replicate 16 1\<rparr>)) = 16" by simp
  from write_ecm_answer_checks [OF r(1) this] r show ?thesis by auto
qed

lemma free_slot_Some:
  "free_slot ers b = Some k \<Longrightarrow>
   \<exists>i. k = b + i \<and> i < length ers \<and> er_rc (ers ! i) < E_99 \<and> (\<forall>j < i. E_99 \<le> er_rc (ers ! j))"
proof (induction ers b rule: free_slot.induct)
  case (2 er ers b)
  show ?case
  proof (cases "er_rc er < E_99")
    case True then show ?thesis using "2.prems" by (intro exI [of _ 0]) simp
  next
    case False
    then obtain i where "k = b + 1 + i" "i < length ers" "er_rc (ers ! i) < E_99" "\<forall>j < i. E_99 \<le> er_rc (ers ! j)"
      using 2 by auto
    then show ?thesis using False by (intro exI [of _ "Suc i"]) (auto simp: less_Suc_eq_0_disj)
  qed
qed simp

lemma free_slot_None: "free_slot ers b = None \<Longrightarrow> \<forall>er \<in> set ers. E_99 \<le> er_rc er"
  by (induction ers b rule: free_slot.induct) (auto split: if_splits)

text \<open>A new request of a client that may have several never replaces an open one: it takes the first
  closed slot and leaves all others alone, and when every slot is open there is none for it. A client
  with a single slot loses its open request.\<close>

theorem get_ecmtask_slot:
  assumes "ci < length (an_clients w)" "an_tasks (an_clients w ! ci) = Some ts" "ts \<noteq> []"
  shows "\<exists>w' r. get_ecmtask mem t ci w = Some (w', r) \<and>
    (case r of
       None \<Rightarrow> an_multi (an_clients w ! ci) \<and> (\<forall>er \<in> set ts. E_99 \<le> er_rc er) \<and> tasks_of w' ci = ts
     | Some k \<Rightarrow> k < length ts \<and> tasks_of w' ci = ts[k := new_task t k] \<and>
         (if an_multi (an_clients w ! ci) then er_rc (ts ! k) < E_99 \<and> (\<forall>j < k. E_99 \<le> er_rc (ts ! j)) else k = 0))"
proof -
  show ?thesis
    using assms free_slot_None [of ts 0] free_slot_Some [of ts 0]
    by (auto simp: get_ecmtask_def put_client_def tasks_of_def split: option.splits)
qed

theorem get_ecmtask_slot_witness:
  "\<exists>w' k. get_ecmtask True (clk_ex 0) 0 (an_world_ex [(an_client_ex [open_ex, zero_task])\<lparr>an_multi := True\<rparr>]) = Some (w', Some k) \<and> k = 1"
proof -
  let ?w = "an_world_ex [(an_client_ex [open_ex, zero_task])\<lparr>an_multi := True\<rparr>]"
  have e: "0 < length (an_clients ?w)" "an_tasks (an_clients ?w ! 0) = Some [open_ex, zero_task]" "an_multi (an_clients ?w ! 0)"
    by (simp_all add: an_world_ex_def an_client_ex_def an_client.defs an_world.defs gc_client.defs gc_world.defs gc_world_ex_def)
  have rc: "E_99 \<le> er_rc open_ex" "\<not> E_99 \<le> er_rc zero_task" by code_simp+
  obtain w' r where r: "get_ecmtask True (clk_ex 0) 0 ?w = Some (w', r)"
    "case r of
       None \<Rightarrow> an_multi (an_clients ?w ! 0) \<and> (\<forall>er \<in> set [open_ex, zero_task]. E_99 \<le> er_rc er) \<and> tasks_of w' 0 = [open_ex, zero_task]
     | Some k \<Rightarrow> k < length [open_ex, zero_task] \<and> tasks_of w' 0 = [open_ex, zero_task][k := new_task (clk_ex 0) k] \<and>
         (if an_multi (an_clients ?w ! 0) then er_rc ([open_ex, zero_task] ! k) < E_99 \<and> (\<forall>j < k. E_99 \<le> er_rc ([open_ex, zero_task] ! j)) else k = 0)"
    using get_ecmtask_slot [OF e(1,2), of True "clk_ex 0"] by blast
  have "r = Some 1"
  proof (cases r)
    case None then show ?thesis using r(2) rc by simp
  next
    case (Some k) then show ?thesis using r(2) rc e(3) by (cases k) auto
  qed
  with r(1) show ?thesis by auto
qed

text \<open>Every answer is counted once: exactly one of found, cached, not found, ignored and timed out grows.\<close>

definition cw_total :: "cw_counts \<Rightarrow> int" where
  "cw_total c = cwfound c + cwcache c + cwnot c + cwignored c + cwtout c"

definition cw_small :: "cw_counts \<Rightarrow> bool" where
  "cw_small c \<longleftrightarrow> (\<forall>x \<in> {cwfound c, cwcache c, cwnot c, cwignored c, cwtout c}. 0 \<le> x \<and> x < 2 ^ 31 - 1)"

lemma count_cw_total: "cw_small c \<Longrightarrow> cw_total (count_cw k c) = cw_total c + 1"
  by (cases k) (simp_all add: cw_total_def cw_small_def s32_id)

section \<open>Where the code does not do what it means to\<close>

text \<open>A reader that drops bad control words: the client that asked gets "not found", but a client that
  waits for the same ECM is sent the bad control word as found.\<close>

definition bad_world_ex :: an_world where
  "bad_world_ex = (an_world_ex [an_client_ex [open_ex], an_client_ex [open_ex\<lparr>er_rc := E_99\<rparr>]])
     \<lparr>gw_lb := lb_world_ex [(lb_reader_ex 0x21 0 300)\<lparr>rdr_dropbadcws := True\<rparr>]\<rparr>"

lemma bad_cw_distributed:
  "case write_ecm_answer (\<lambda>_. True) (clk_ex 0) 0 (Some 0) bad_world_ex
          (open_ex\<lparr>er_rc := E_RDR_FOUND, er_cw := replicate 16 1, matching_rdr := [(0, 0)]\<rparr>) of
     None \<Rightarrow> False
   | Some (w1, er1) \<Rightarrow>
       (case chk_dcw gc_config_ex True (\<lambda>_. True) (clk_ex 0) 0 er1 (put_task 0 0 (open_ex\<lparr>matching_rdr := [(0, 0)]\<rparr>) w1) of
          None \<Rightarrow> False
        | Some w2 \<Rightarrow>
            (case chk_dcw gc_config_ex True (\<lambda>_. True) (clk_ex 0) 1 (snd (last (an_pipes w2))) w2 of
               None \<Rightarrow> False
             | Some w3 \<Rightarrow> map (\<lambda>(c, e). (c, er_rc e, er_cw e)) (an_answers w3) =
                 [(0, E_NOTFOUND, replicate 16 0), (1, E_FOUND, replicate 16 1)]))"
  by code_simp

text \<open>The codes of a cccam reader have no text.\<close>

lemma rejected_overrun: "rejected E2_CCCAM_NOK1 = None \<and> rejected E2_CCCAM_NOK2 = None"
  by code_simp

text \<open>Without the carry a timeout of 5.6 seconds is over after 5.1.\<close>

lemma timeout_early:
  "comp_timeb \<lparr>tb_time = 16, tb_millitm = 0\<rparr> (add_ms \<lparr>tb_time = 10, tb_millitm = 900\<rparr> 5600) = 1"
  by code_simp

end
