(* ===== verification/Emm.thy ===== *)
theory Emm
  imports Chk
begin

text \<open>
  The EMM side of the card systems: \<open>get_emm_type\<close>, which says whom an EMM is for, and
  \<open>get_emm_filter\<close>, which tells the demultiplexer which sections to hand over, for each
  \<open>reader-*.c\<close>. An EMM is the 258-byte array \<open>ep->emm\<close>; the fixed indices of the code all lie
  inside it. The first component of a result is the packet, the second what the function returns.
\<close>

section \<open>Packets and readers\<close>

datatype emm_type = UNKNOWN | UNIQUE | SHARED | GLOBAL

record emm_packet =
  ep_emm :: "u8 list"
  ep_l :: u8
  ep_caid :: "u8 list"
  ep_provid :: "u8 list"
  ep_hexserial :: "u8 list"
  ep_type :: emm_type

text \<open>\<open>rdr_sa\<close> are the \<open>CS_MAXPROV\<close> rows of \<open>sa\<close>; \<open>rdr_prid\<close> the first \<open>nprov\<close> rows of \<open>prid\<close>.\<close>

record emm_reader = s_reader +
  rdr_sa :: "u8 list list"

text \<open>\<open>bs[k..k+n]\<close>, the operand of a \<open>memcmp\<close> or \<open>memcpy\<close> of \<open>n\<close> bytes.\<close>

definition slice :: "'a list \<Rightarrow> nat \<Rightarrow> nat \<Rightarrow> 'a list" where
  "slice bs k n = take n (drop k bs)"

definition nprov :: "emm_reader \<Rightarrow> nat" where
  "nprov rdr = length (rdr_prid rdr)"

text \<open>The eight bytes of \<open>ep->hexserial\<close>: cleared, then \<open>bs\<close> copied to \<open>off\<close>.\<close>

definition serial8 :: "nat \<Rightarrow> u8 list \<Rightarrow> u8 list" where
  "serial8 off bs = replicate off 0 @ bs @ replicate (8 - off - length bs) 0"

section \<open>The addressee of an EMM\<close>

definition conax_get_emm_type :: "emm_packet \<Rightarrow> emm_reader \<Rightarrow> emm_packet \<times> bool" where
  "conax_get_emm_type ep rdr =
     (let a = slice (ep_emm ep) 6 4 in
      if a \<in> set (take (nprov rdr) (rdr_sa rdr))
      then (ep\<lparr>ep_type := SHARED, ep_hexserial := serial8 0 a\<rparr>, True)
      else if a = slice (rdr_hexserial rdr) 2 4
      then (ep\<lparr>ep_type := UNIQUE, ep_hexserial := serial8 2 a\<rparr>, True)
      else (ep\<lparr>ep_type := GLOBAL, ep_hexserial := replicate 8 0\<rparr>, True))"

definition get_prov_index :: "emm_reader \<Rightarrow> u8 list \<Rightarrow> nat option" where
  "get_prov_index rdr provid = find (\<lambda>i. slice (rdr_prid rdr ! i) 2 2 = provid) [0..<nprov rdr]"

definition seca_get_emm_type :: "emm_packet \<Rightarrow> emm_reader \<Rightarrow> emm_packet \<times> bool" where
  "seca_get_emm_type ep rdr =
     (let e = ep_emm ep in
      if e ! 0 = 0x82 then
        (ep\<lparr>ep_type := UNIQUE, ep_hexserial := serial8 0 (slice e 3 6)\<rparr>, slice (rdr_hexserial rdr) 0 6 = slice e 3 6)
      else if e ! 0 = 0x84 then
        (ep\<lparr>ep_type := SHARED, ep_hexserial := serial8 0 (slice e 5 3)\<rparr>,
         case get_prov_index rdr (slice e 3 2) of None \<Rightarrow> False
         | Some i \<Rightarrow> slice (rdr_sa rdr ! i) 0 3 = slice e 5 3)
      else (ep\<lparr>ep_type := UNKNOWN\<rparr>, e ! 0 \<notin> {0x83, 0x88, 0x89}))"

definition irdeto_get_emm_type :: "emm_packet \<Rightarrow> emm_reader \<Rightarrow> emm_packet \<times> bool" where
  "irdeto_get_emm_type ep rdr =
     (let e = ep_emm ep; l = e ! 3 AND 0x07; base = drop_bit 3 (e ! 3); hs = rdr_hexserial rdr in
      if l = 0 then (ep\<lparr>ep_type := GLOBAL\<rparr>, True)
      else if l = 2 then
        (ep\<lparr>ep_type := SHARED, ep_hexserial := serial8 0 (slice e 4 2)\<rparr>,
         if base AND 0x10 \<noteq> 0 then base = hs ! 3 \<and> slice e 4 2 = slice hs 0 2
         else base = 0 \<or> (\<exists>p \<in> set (rdr_prid rdr). base = p ! 0 \<and> slice e 4 2 = slice p 1 2))
      else if l = 3 then
        (ep\<lparr>ep_type := UNIQUE, ep_hexserial := serial8 0 (slice e 4 3)\<rparr>, base = hs ! 3 \<and> slice e 4 3 = slice hs 0 3)
      else (ep\<lparr>ep_type := UNKNOWN\<rparr>, True))"

text \<open>\<open>cryptoworks_get_emm_provid\<close>; \<open>None\<close> is a read outside the buffer.\<close>

function (sequential) cryptoworks_get_emm_provid :: "u8 list \<Rightarrow> nat \<Rightarrow> nat \<Rightarrow> u32 option" where
  "cryptoworks_get_emm_provid buf n i =
     (if i < n then do {
        t \<leftarrow> fetch buf i;
        if t = 0x83 then map_option (\<lambda>b. ucast b AND 0xFC) (fetch buf (i + 2))
        else do { l \<leftarrow> fetch buf (i + 1); cryptoworks_get_emm_provid buf n (i + unat l + 2) } }
      else Some 0)"
  by pat_completeness auto
termination by (relation "measure (\<lambda>(buf, n, i). n - i)") auto

declare cryptoworks_get_emm_provid.simps [simp del]

text \<open>The provider from the nanos at \<open>off\<close>, with the length \<open>ep->l - off\<close>.\<close>

definition cw_provider :: "emm_packet \<Rightarrow> nat \<Rightarrow> emm_packet option" where
  "cw_provider ep off = do {
     p \<leftarrow> cryptoworks_get_emm_provid (drop off (ep_emm ep)) (unat (ep_l ep) - off) 0;
     b \<leftarrow> i2b_buf 4 p (ep_provid ep);
     Some (ep\<lparr>ep_provid := b\<rparr>) }"

definition cryptoworks_get_emm_type :: "emm_packet \<Rightarrow> emm_reader \<Rightarrow> (emm_packet \<times> bool) option" where
  "cryptoworks_get_emm_type ep rdr =
     (let e = ep_emm ep; hs = rdr_hexserial rdr; nano = (e ! 3 = 0xA9 \<and> e ! 4 = 0xFF) in
      if e ! 0 = 0x82 then
        (if nano \<and> e ! 13 = 0x80 \<and> e ! 14 = 0x05 then
           map_option (\<lambda>p. (p, slice e 5 5 = slice hs 0 5))
             (cw_provider (ep\<lparr>ep_type := UNIQUE, ep_hexserial := serial8 0 (slice e 5 5)\<rparr>) 12)
         else Some (ep, False))
      else if e ! 0 = 0x84 then
        (if nano \<and> e ! 12 = 0x80 \<and> e ! 13 = 0x04 then
           map_option (\<lambda>p. (p, slice e 5 4 = slice hs 0 4))
             (cw_provider (ep\<lparr>ep_type := SHARED, ep_hexserial := serial8 0 (slice e 5 4)\<rparr>) 12)
         else Some (ep, False))
      else if e ! 0 = 0x86 then
        (if nano \<and> e ! 5 = 0x83 \<and> e ! 6 = 0x01 \<and> e ! 8 = 0x85
         then map_option (\<lambda>p. (p, False)) (cw_provider (ep\<lparr>ep_type := SHARED\<rparr>) 8) else Some (ep, False))
      else if e ! 0 = 0x88 \<or> e ! 0 = 0x89 then
        (if nano \<and> e ! 8 = 0x83 \<and> e ! 9 = 0x01
         then map_option (\<lambda>p. (p, True)) (cw_provider (ep\<lparr>ep_type := GLOBAL\<rparr>) 8) else Some (ep, False))
      else if e ! 0 = 0x8F then
        map_option (\<lambda>p. (p, True))
          (if e ! 4 = 0x44 then cw_provider (ep\<lparr>ep_type := GLOBAL\<rparr>) 8
           else if e ! 4 = 0x48 then cw_provider (ep\<lparr>ep_type := SHARED\<rparr>) 12
           else if e ! 4 = 0x42 then cw_provider (ep\<lparr>ep_type := UNIQUE\<rparr>) 12
           else Some (ep\<lparr>ep_type := UNKNOWN\<rparr>))
      else Some (ep\<lparr>ep_type := UNKNOWN\<rparr>, False))"

definition dre_get_emm_type :: "emm_packet \<Rightarrow> emm_reader \<Rightarrow> emm_packet \<times> bool" where
  "dre_get_emm_type ep rdr =
     (let e = ep_emm ep in
      if e ! 0 = 0x87 then (ep\<lparr>ep_type := UNIQUE\<rparr>, True)
      else if e ! 0 = 0x89 then
        (if rdr_caid rdr = 0x4AE1
         then (ep\<lparr>ep_type := SHARED, ep_hexserial := serial8 0 (slice e 3 4)\<rparr>, slice (rdr_sa rdr ! 0) 0 4 = slice e 3 4)
         else (ep\<lparr>ep_type := SHARED\<rparr>, True))
      else (ep\<lparr>ep_type := UNKNOWN\<rparr>, True))"

definition nagra2_get_emm_type :: "emm_packet \<Rightarrow> emm_reader \<Rightarrow> emm_packet \<times> bool" where
  "nagra2_get_emm_type ep rdr =
     (let e = ep_emm ep; s = [e ! 5, e ! 4, e ! 3] in
      if e ! 0 = 0x83 then
        (if e ! 7 = 0x10
         then (ep\<lparr>ep_type := SHARED, ep_hexserial := serial8 0 s\<rparr>, slice (rdr_hexserial rdr) 2 3 = s)
         else (ep\<lparr>ep_type := UNIQUE, ep_hexserial := serial8 0 (s @ [e ! 6])\<rparr>, slice (rdr_hexserial rdr) 2 4 = s @ [e ! 6]))
      else if e ! 0 = 0x82 then (ep\<lparr>ep_type := GLOBAL\<rparr>, True)
      else (ep\<lparr>ep_type := UNKNOWN\<rparr>, True))"

definition viaccess_get_emm_type :: "emm_packet \<Rightarrow> emm_reader \<Rightarrow> (emm_packet \<times> bool) option" where
  "viaccess_get_emm_type ep0 rdr = do {
     let e = ep_emm ep0;
     ep \<leftarrow> (if e ! 3 = 0x90 \<and> e ! 4 = 0x03
            then map_option (\<lambda>b. ep0\<lparr>ep_provid := b\<rparr>)
                   (i2b_buf 4 (push_bit 16 (ucast (e ! 5)) OR push_bit 8 (ucast (e ! 6)) OR ucast (e ! 7 AND 0xFE)) (ep_provid ep0))
            else Some ep0);
     Some (
       if e ! 0 = 0x88
       then (ep\<lparr>ep_type := UNIQUE, ep_hexserial := serial8 0 (slice e 4 4)\<rparr>, slice (rdr_hexserial rdr) 1 4 = slice e 4 4)
       else if e ! 0 = 0x8A \<or> e ! 0 = 0x8B then (ep\<lparr>ep_type := GLOBAL\<rparr>, True)
       else if e ! 0 = 0x8C \<or> e ! 0 = 0x8D then (ep\<lparr>ep_type := SHARED\<rparr>, False)
       else if e ! 0 = 0x8E
       then (ep\<lparr>ep_type := SHARED, ep_hexserial := serial8 0 (slice e 3 3)\<rparr>,
             (\<exists>p \<in> set (rdr_prid rdr). slice p 1 3 = slice e 3 3) \<or> slice (rdr_sa rdr ! 0) 0 3 = slice e 3 3)
       else (ep\<lparr>ep_type := UNKNOWN\<rparr>, True)) }"

text \<open>The serials of a videoguard EMM follow each other from byte 4 on.\<close>

definition videoguard_get_emm_type :: "emm_packet \<Rightarrow> emm_reader \<Rightarrow> emm_packet \<times> bool" where
  "videoguard_get_emm_type ep rdr =
     (let e = ep_emm ep; cnt = unat (drop_bit 4 (e ! 3) AND 3) + 1; len = (if e ! 3 AND 0x80 \<noteq> 0 then 3 else 4);
          typ = drop_bit 6 (e ! 3 AND 0xC0); ep1 = ep\<lparr>ep_type := if typ = 1 then UNIQUE else SHARED\<rparr> in
      if typ = 0 then (ep\<lparr>ep_type := GLOBAL\<rparr>, True)
      else if typ = 1 \<or> typ = 2 then
        (if e ! 1 = 0 then (ep1, True)
         else case find (\<lambda>i. slice e (i * 4 + 4) len = slice (rdr_hexserial rdr) 2 len) [0..<cnt] of
           None \<Rightarrow> (ep1, False)
         | Some i \<Rightarrow> (ep1\<lparr>ep_hexserial := slice e (i * 4 + 4) len @ drop len (ep_hexserial ep)\<rparr>, True))
      else (ep\<lparr>ep_type := UNKNOWN\<rparr>, True))"

definition tongfang_get_emm_type :: "emm_packet \<Rightarrow> emm_packet \<times> bool" where
  "tongfang_get_emm_type ep = (ep\<lparr>ep_type := UNKNOWN\<rparr>, True)"

datatype cardsystem = Conax | Seca | Irdeto | Cryptoworks | Dre | Nagra | Viaccess | Videoguard | Tongfang

definition get_emm_type :: "cardsystem \<Rightarrow> emm_packet \<Rightarrow> emm_reader \<Rightarrow> (emm_packet \<times> bool) option" where
  "get_emm_type cs ep rdr = (case cs of
     Conax \<Rightarrow> Some (conax_get_emm_type ep rdr)
   | Seca \<Rightarrow> Some (seca_get_emm_type ep rdr)
   | Irdeto \<Rightarrow> Some (irdeto_get_emm_type ep rdr)
   | Cryptoworks \<Rightarrow> cryptoworks_get_emm_type ep rdr
   | Dre \<Rightarrow> Some (dre_get_emm_type ep rdr)
   | Nagra \<Rightarrow> Some (nagra2_get_emm_type ep rdr)
   | Viaccess \<Rightarrow> viaccess_get_emm_type ep rdr
   | Videoguard \<Rightarrow> Some (videoguard_get_emm_type ep rdr)
   | Tongfang \<Rightarrow> Some (tongfang_get_emm_type ep))"

section \<open>Filters for the demultiplexer\<close>

text \<open>An entry of the filter list: its type, whether it is switched off, sixteen bytes and their mask.
  The list starts with \<open>0xFF\<close> and the number of entries.\<close>

record emm_filter =
  fl_type :: emm_type
  fl_off :: bool
  fl_data :: "u8 list"
  fl_mask :: "u8 list"

text \<open>\<open>put k ds m\<close> copies \<open>ds\<close> to position \<open>k\<close> and sets the mask of these bytes to \<open>m\<close>.\<close>

definition overlay :: "'a list \<Rightarrow> nat \<Rightarrow> 'a list \<Rightarrow> 'a list" where
  "overlay bs k ds = take k bs @ ds @ drop (k + length ds) bs"

definition put :: "nat \<Rightarrow> u8 list \<Rightarrow> u8 \<Rightarrow> emm_filter \<Rightarrow> emm_filter" where
  "put k ds m f = f\<lparr>fl_data := overlay (fl_data f) k ds, fl_mask := overlay (fl_mask f) k (replicate (length ds) m)\<rparr>"

definition masked_filter :: "emm_type \<Rightarrow> u8 \<Rightarrow> u8 \<Rightarrow> emm_filter" where
  "masked_filter t table m = put 0 [table] m \<lparr>fl_type = t, fl_off = False, fl_data = replicate 16 0, fl_mask = replicate 16 0\<rparr>"

definition new_filter :: "emm_type \<Rightarrow> u8 \<Rightarrow> emm_filter" where
  "new_filter t table = masked_filter t table 0xFF"

definition conax_filters :: "emm_reader \<Rightarrow> emm_filter list" where
  "conax_filters rdr =
     [put 8 [0x70] 0xFF ((new_filter GLOBAL 0x82)\<lparr>fl_off := True\<rparr>),
      put 4 (slice (rdr_sa rdr ! 0) 0 4) 0xFF (put 8 [0x70] 0xFF (new_filter SHARED 0x82)),
      put 4 (slice (rdr_hexserial rdr) 2 4) 0xFF (put 8 [0x70] 0xFF (new_filter UNIQUE 0x82))]"

text \<open>The loops over the providers stop when the list has ten entries.\<close>

definition seca_filters :: "emm_reader \<Rightarrow> emm_filter list" where
  "seca_filters rdr = take 10
     (put 1 (slice (rdr_hexserial rdr) 0 6) 0xFF (new_filter UNIQUE 0x82) #
      map (\<lambda>i. put 3 (slice (rdr_sa rdr ! i) 0 3) 0xFF (put 1 (slice (rdr_prid rdr ! i) 2 2) 0xFF (new_filter SHARED 0x84)))
        [0..<nprov rdr])"

definition irdeto_filters :: "emm_reader \<Rightarrow> emm_filter list" where
  "irdeto_filters rdr =
     (let hs = rdr_hexserial rdr; base8 = hs ! 3 * 8 in
      take 10
        ([put 1 [base8] 0xFF (new_filter GLOBAL 0x82),
          put 2 (slice hs 0 1) 0xFF (put 1 [0x81] 0xFF (new_filter GLOBAL 0x82)),
          put 2 (slice hs 0 3) 0xFF (put 1 [base8 + 3] 0xFF (new_filter UNIQUE 0x82)),
          put 2 (slice hs 0 2) 0xFF (put 1 [base8 + 2] 0xFF (new_filter SHARED 0x82))] @
         map (\<lambda>p. put 2 (slice p 1 2) 0xFF (new_filter SHARED 0x82)) (filter (\<lambda>p. p ! 1 \<noteq> 0xFF) (rdr_prid rdr))))"

definition cryptoworks_filters :: "emm_reader \<Rightarrow> emm_filter list" where
  "cryptoworks_filters rdr =
     (let hs = rdr_hexserial rdr; nano = put 1 [0xA9, 0xFF] 0xFF in
      [nano (masked_filter GLOBAL 0x88 0xFE),
       nano (new_filter SHARED 0x86),
       put 3 (slice hs 0 4) 0xFF (nano (new_filter SHARED 0x84)),
       put 3 (slice hs 0 5) 0xFF (nano (new_filter UNIQUE 0x82))])"

definition dre_filters :: "emm_reader \<Rightarrow> emm_filter list" where
  "dre_filters rdr =
     [(new_filter GLOBAL 0xFF)\<lparr>fl_off := True\<rparr>,
      (if rdr_caid rdr = 0x4AE1 then put 1 (slice (rdr_sa rdr ! 0) 0 4) 0xFF (new_filter SHARED 0x89) else new_filter SHARED 0x89),
      new_filter UNIQUE 0x87]"

definition nagra2_filters :: "emm_reader \<Rightarrow> emm_filter list" where
  "nagra2_filters rdr =
     (let hs = rdr_hexserial rdr in
      [new_filter GLOBAL 0x82,
       put 1 [hs ! 4, hs ! 3, hs ! 2, 0x00, 0x10] 0xFF (new_filter SHARED 0x83),
       put 1 [hs ! 4, hs ! 3, hs ! 2, hs ! 5, 0x00] 0xFF (new_filter UNIQUE 0x83)])"

definition viaccess_filters :: "emm_reader \<Rightarrow> emm_filter list" where
  "viaccess_filters rdr =
     [masked_filter GLOBAL 0x8D 0xFE,
      put 1 (slice (rdr_sa rdr ! 0) 0 3) 0xFF (new_filter SHARED 0x8E),
      put 1 (slice (rdr_hexserial rdr) 1 4) 0xFF (new_filter UNIQUE 0x88)]"

definition videoguard_filters :: "emm_reader \<Rightarrow> emm_filter list" where
  "videoguard_filters rdr =
     (let hs = rdr_hexserial rdr in
      map (\<lambda>n. put (2 + 4 * n) (slice hs 2 4) 0xFF (put 1 [0x40] 0xC0 (new_filter UNIQUE 0x82))) [0, 1, 2] @
      map (\<lambda>n. put (2 + 4 * n) (slice hs 2 3) 0xFF (put 1 [0x80] 0xC0 (new_filter SHARED 0x82))) [0, 1, 2] @
      [put 1 [0x00] 0xC0 (new_filter GLOBAL 0x82)])"

definition get_emm_filters :: "cardsystem \<Rightarrow> emm_reader \<Rightarrow> emm_filter list" where
  "get_emm_filters cs rdr = (case cs of
     Conax \<Rightarrow> conax_filters rdr
   | Seca \<Rightarrow> seca_filters rdr
   | Irdeto \<Rightarrow> irdeto_filters rdr
   | Cryptoworks \<Rightarrow> cryptoworks_filters rdr
   | Dre \<Rightarrow> dre_filters rdr
   | Nagra \<Rightarrow> nagra2_filters rdr
   | Viaccess \<Rightarrow> viaccess_filters rdr
   | Videoguard \<Rightarrow> videoguard_filters rdr
   | Tongfang \<Rightarrow> [])"

fun emm_code :: "emm_type \<Rightarrow> u8" where
  "emm_code UNIQUE = 1" | "emm_code SHARED = 2" | "emm_code GLOBAL = 4" | "emm_code UNKNOWN = 8"

text \<open>The bytes that \<open>get_emm_filter\<close> writes. Tongfang installs no such function: \<open>None\<close> is the call through the null
  pointer.\<close>

definition filter_image :: "emm_filter list \<Rightarrow> u8 list" where
  "filter_image fs = 0xFF # of_nat (length fs) #
     concat (map (\<lambda>f. [emm_code (fl_type f), if fl_off f then 1 else 0] @ fl_data f @ fl_mask f) fs)"

definition get_emm_filter :: "cardsystem \<Rightarrow> emm_reader \<Rightarrow> u8 list option" where
  "get_emm_filter cs rdr = (if cs = Tongfang then None else Some (filter_image (get_emm_filters cs rdr)))"

section \<open>The demultiplexer\<close>

text \<open>A section filter of the DVB API looks at the table id and at the bytes behind the length field.\<close>

definition section_byte :: "u8 list \<Rightarrow> nat \<Rightarrow> u8" where
  "section_byte emm i = emm ! (if i = 0 then 0 else i + 2)"

definition passes :: "emm_filter \<Rightarrow> u8 list \<Rightarrow> bool" where
  "passes f emm \<longleftrightarrow> \<not> fl_off f \<and>
     list_all (\<lambda>i. fl_mask f ! i AND section_byte emm i = fl_mask f ! i AND fl_data f ! i) [0..<16]"

section \<open>Matching as a comparison of slices\<close>

lemma ff_and [simp]: "(0xFF :: u8) AND x = x"
proof -
  have "(0xFF :: u8) = - 1" by simp
  then show ?thesis by (simp only: and.left_neutral)
qed

lemma slice_nth: "k + n \<le> length bs \<Longrightarrow> slice bs k n = map ((!) bs) [k..<k + n]"
  by (rule nth_equalityI) (simp_all add: slice_def)

lemma slice_length: "k + n \<le> length bs \<Longrightarrow> length (slice bs k n) = n"
  by (simp add: slice_def)

definition tested :: "emm_filter \<Rightarrow> nat \<Rightarrow> bool" where
  "tested f i \<longleftrightarrow> fl_mask f ! i \<noteq> 0"

definition filter_ok :: "emm_filter \<Rightarrow> bool" where
  "filter_ok f \<longleftrightarrow> length (fl_data f) = 16 \<and> length (fl_mask f) = 16"

lemma overlay_nth:
  "k + length ds \<le> length bs \<Longrightarrow> i < length bs \<Longrightarrow>
   overlay bs k ds ! i = (if k \<le> i \<and> i < k + length ds then ds ! (i - k) else bs ! i)"
  by (auto simp: overlay_def nth_append)

lemma overlay_length: "k + length ds \<le> length bs \<Longrightarrow> length (overlay bs k ds) = length bs"
  by (simp add: overlay_def)

lemma filter_ok_put: "filter_ok f \<Longrightarrow> k + length ds \<le> 16 \<Longrightarrow> filter_ok (put k ds m f)"
  by (simp add: filter_ok_def put_def overlay_length)

lemma filter_ok_masked: "filter_ok (masked_filter t b m)"
  unfolding masked_filter_def by (rule filter_ok_put) (simp_all add: filter_ok_def)

lemma filter_ok_off [simp]: "filter_ok (f\<lparr>fl_off := b\<rparr>) = filter_ok f"
  by (simp add: filter_ok_def)

text \<open>Bytes written to fresh positions add their own condition.\<close>

lemma passes_put:
  assumes "filter_ok f" "k + length ds \<le> 16" "\<forall>i. k \<le> i \<longrightarrow> i < k + length ds \<longrightarrow> fl_mask f ! i = 0"
  shows "passes (put k ds m f) emm \<longleftrightarrow> passes f emm \<and>
    (\<forall>j < length ds. m AND section_byte emm (k + j) = m AND ds ! j)"
proof -
  let ?g = "put k ds m f"
  have n: "i < 16 \<Longrightarrow> fl_mask ?g ! i = (if k \<le> i \<and> i < k + length ds then m else fl_mask f ! i)"
    "i < 16 \<Longrightarrow> fl_data ?g ! i = (if k \<le> i \<and> i < k + length ds then ds ! (i - k) else fl_data f ! i)" for i
    using assms(1,2) by (auto simp: put_def filter_ok_def overlay_nth)
  have "(\<forall>i < 16. fl_mask ?g ! i AND section_byte emm i = fl_mask ?g ! i AND fl_data ?g ! i) \<longleftrightarrow>
    (\<forall>i < 16. fl_mask f ! i AND section_byte emm i = fl_mask f ! i AND fl_data f ! i) \<and>
    (\<forall>j < length ds. m AND section_byte emm (k + j) = m AND ds ! j)" (is "?L = (?A \<and> ?B)")
  proof
    assume L: ?L
    have ?A
    proof (intro allI impI)
      fix i :: nat assume "i < 16"
      then show "fl_mask f ! i AND section_byte emm i = fl_mask f ! i AND fl_data f ! i"
        using L [rule_format, of i] n [of i] assms(3) by (cases "k \<le> i \<and> i < k + length ds") auto
    qed
    moreover have ?B
    proof (intro allI impI)
      fix j assume "j < length ds"
      then show "m AND section_byte emm (k + j) = m AND ds ! j"
        using L [rule_format, of "k + j"] n [of "k + j"] assms(2) by auto
    qed
    ultimately show "?A \<and> ?B" ..
  next
    assume R: "?A \<and> ?B"
    show ?L
    proof (intro allI impI)
      fix i :: nat assume "i < 16"
      then show "fl_mask ?g ! i AND section_byte emm i = fl_mask ?g ! i AND fl_data ?g ! i"
        using R n [of i] le_add_diff_inverse [of k i]
        by (cases "k \<le> i \<and> i < k + length ds") (auto dest: spec [of _ "i - k"])
    qed
  qed
  then show ?thesis by (auto simp: passes_def list_all_iff put_def)
qed

lemma passes_masked: "passes (masked_filter t b m) emm \<longleftrightarrow> m AND emm ! 0 = m AND b"
proof -
  have "passes (masked_filter t b m) emm \<longleftrightarrow>
    passes \<lparr>fl_type = t, fl_off = False, fl_data = replicate 16 0, fl_mask = replicate 16 0\<rparr> emm \<and>
      (\<forall>j < length [b]. m AND section_byte emm (0 + j) = m AND [b] ! j)"
    unfolding masked_filter_def by (rule passes_put) (simp_all add: filter_ok_def)
  then show ?thesis by (simp add: passes_def list_all_iff section_byte_def)
qed

lemma mask_put:
  "filter_ok f \<Longrightarrow> k + length ds \<le> 16 \<Longrightarrow> i < 16 \<Longrightarrow>
   fl_mask (put k ds m f) ! i = (if k \<le> i \<and> i < k + length ds then m else fl_mask f ! i)"
  by (auto simp: put_def filter_ok_def overlay_nth)

lemma mask_masked: "0 < i \<Longrightarrow> i < 16 \<Longrightarrow> fl_mask (masked_filter t b m) ! i = 0"
  by (simp add: masked_filter_def mask_put filter_ok_def)

lemma section_slice:
  assumes "0 < k" "k + 2 + length ds \<le> length emm"
  shows "(\<forall>j < length ds. section_byte emm (k + j) = ds ! j) \<longleftrightarrow> slice emm (k + 2) (length ds) = ds"
proof -
  have n: "j < length ds \<Longrightarrow> slice emm (k + 2) (length ds) ! j = section_byte emm (k + j)" for j
    using assms by (simp add: slice_def section_byte_def)
  have "length (slice emm (k + 2) (length ds)) = length ds" using assms(2) by (simp add: slice_length)
  then show ?thesis unfolding list_eq_iff_nth_eq using n by simp
qed

text \<open>The two shapes of filters: one or two fields behind the table id.\<close>

lemma passes_one:
  assumes "0 < k" "k + length ds \<le> 16"
  shows "passes (put k ds m1 (masked_filter t b m)) emm \<longleftrightarrow> m AND emm ! 0 = m AND b \<and>
    (\<forall>j < length ds. m1 AND section_byte emm (k + j) = m1 AND ds ! j)"
proof -
  have "\<forall>i. k \<le> i \<longrightarrow> i < k + length ds \<longrightarrow> fl_mask (masked_filter t b m) ! i = 0" using assms by (simp add: mask_masked)
  from passes_put [OF filter_ok_masked assms(2) this] passes_masked show ?thesis by simp
qed

lemma passes_two:
  assumes "0 < k" "k + length ds \<le> 16" "0 < k1" "k1 + length ds1 \<le> 16" "k1 + length ds1 \<le> k \<or> k + length ds \<le> k1"
  shows "passes (put k ds m2 (put k1 ds1 m1 (masked_filter t b m))) emm \<longleftrightarrow> m AND emm ! 0 = m AND b \<and>
    (\<forall>j < length ds1. m1 AND section_byte emm (k1 + j) = m1 AND ds1 ! j) \<and>
    (\<forall>j < length ds. m2 AND section_byte emm (k + j) = m2 AND ds ! j)"
proof -
  have "\<forall>i. k \<le> i \<longrightarrow> i < k + length ds \<longrightarrow> fl_mask (put k1 ds1 m1 (masked_filter t b m)) ! i = 0"
    using assms by (auto simp: mask_put [OF filter_ok_masked] mask_masked)
  from passes_put [OF filter_ok_put [OF filter_ok_masked assms(4)] assms(2) this] passes_one [OF assms(3,4)]
  show ?thesis by simp
qed

lemma passes_field:
  assumes "length emm = 258" "0 < k" "k + length ds \<le> 16" "k + 2 = p"
  shows "passes (put k ds 0xFF (new_filter t b)) emm \<longleftrightarrow> emm ! 0 = b \<and> slice emm p (length ds) = ds"
  unfolding new_filter_def passes_one [OF assms(2,3)] using section_slice [of k ds emm] assms by simp

lemma passes_fields:
  assumes "length emm = 258" "0 < k" "k + length ds \<le> 16" "0 < k1" "k1 + length ds1 \<le> 16"
    and "k1 + length ds1 \<le> k \<or> k + length ds \<le> k1" "k + 2 = p" "k1 + 2 = p1"
  shows "passes (put k ds 0xFF (put k1 ds1 0xFF (new_filter t b))) emm \<longleftrightarrow>
    emm ! 0 = b \<and> slice emm p1 (length ds1) = ds1 \<and> slice emm p (length ds) = ds"
  unfolding new_filter_def passes_two [OF assms(2-6)] using section_slice [of k ds emm] section_slice [of k1 ds1 emm] assms by simp

lemma passes_table: "passes (new_filter t b) emm \<longleftrightarrow> emm ! 0 = b"
  by (simp add: new_filter_def passes_masked)

section \<open>Who is let through\<close>

text \<open>The sizes of the arrays of a reader.\<close>

definition reader_ok :: "emm_reader \<Rightarrow> bool" where
  "reader_ok rdr \<longleftrightarrow> length (rdr_hexserial rdr) = 8 \<and> length (rdr_sa rdr) = 32 \<and> nprov rdr \<le> 32 \<and>
     (\<forall>s \<in> set (rdr_sa rdr). length s = 4) \<and> (\<forall>p \<in> set (rdr_prid rdr). length p = 8)"

text \<open>How a section for one card looks on the air: its table and what stands around the serial; a
  videoguard section with four serials does not fit into a filter.\<close>

definition on_air :: "cardsystem \<Rightarrow> u8 list \<Rightarrow> bool" where
  "on_air cs emm \<longleftrightarrow> length emm = 258 \<and> (case cs of
     Conax \<Rightarrow> emm ! 0 = 0x82 \<and> emm ! 10 = 0x70
   | Irdeto \<Rightarrow> emm ! 0 = 0x82
   | Cryptoworks \<Rightarrow> emm ! 0 = 0x82
   | Nagra \<Rightarrow> emm ! 7 = 0
   | Videoguard \<Rightarrow> emm ! 0 = 0x82 \<and> emm ! 1 \<noteq> 0 \<and> drop_bit 4 (emm ! 3) AND 3 \<noteq> 3
   | _ \<Rightarrow> True)"

definition let_through :: "cardsystem \<Rightarrow> emm_reader \<Rightarrow> emm_type \<Rightarrow> u8 list \<Rightarrow> bool" where
  "let_through cs rdr t emm \<longleftrightarrow> (\<exists>f \<in> set (get_emm_filters cs rdr). fl_type f = t \<and> passes f emm)"

lemma fl_type_put [simp]: "fl_type (put k ds m f) = fl_type f"
  by (simp add: put_def)

lemma fl_type_new [simp]: "fl_type (masked_filter t b m) = t" "fl_type (new_filter t b) = t"
  by (simp_all add: masked_filter_def new_filter_def)

lemma fl_type_off [simp]: "fl_type (f\<lparr>fl_off := b\<rparr>) = fl_type f"
  by simp

lemma drop3: "drop_bit 3 x * 8 + (x AND 7) = (x :: u8)"
proof -
  have "x AND 7 = x mod 8" using take_bit_eq_mask [of 3 x] by (simp add: mask_eq_exp_minus_1 take_bit_eq_mod)
  moreover have "drop_bit 3 x = x div 8" by (simp add: drop_bit_eq_div)
  ultimately show ?thesis by (simp only: div_mult_mod_eq)
qed

lemma slice4: "length s = 4 \<Longrightarrow> slice s 0 4 = s"
  by (simp add: slice_def)

text \<open>A statement on a byte is checked for all of them.\<close>

lemma byte_exhaust: "list_all (\<lambda>n. P (word_of_nat n)) [0..<256] \<Longrightarrow> P (x :: u8)"
proof -
  assume a: "list_all (\<lambda>n. P (word_of_nat n)) [0..<256]"
  have "unat x < 256" using unsigned_less [of x] by simp
  then have "unat x \<in> {0..<256}" by simp
  then have "P (word_of_nat (unat x))" using a by (simp only: list_all_iff set_upt)
  then show "P x" by simp
qed

lemma find_upt_Some: "find P [0..<n] = Some i \<Longrightarrow> i < n \<and> P i"
proof -
  assume "find P [0..<n] = Some i"
  then obtain k where "k < n" "P ([0..<n] ! k)" "i = [0..<n] ! k" by (auto simp: find_Some_iff)
  then show ?thesis by simp
qed

lemma videoguard_unique: "drop_bit 6 (x AND 0xC0) = 1 \<longrightarrow> 0xC0 AND x = 0xC0 AND 0x40 \<and> x AND 0x80 = (0 :: u8)"
  by (rule byte_exhaust) code_simp

lemma videoguard_count: "drop_bit 4 x AND 3 \<noteq> 3 \<longrightarrow> unat (drop_bit 4 x AND 3) + 1 \<le> 3" for x :: u8
  by (rule byte_exhaust) code_simp

lemma length_literal: "length [a, b] = 2" "length [a, b, c, d, e] = 5"
  by simp_all

lemma unique_complete:
  assumes "reader_ok rdr" "on_air cs (ep_emm ep)" "get_emm_type cs ep rdr = Some (ep', True)" "ep_type ep' = UNIQUE"
    and "cs \<noteq> Viaccess"
  shows "let_through cs rdr UNIQUE (ep_emm ep)"
proof -
  let ?e = "ep_emm ep" and ?hs = "rdr_hexserial rdr"
  have l: "length ?e = 258" "length ?hs = 8" using assms(1,2) by (simp_all add: on_air_def reader_ok_def)
  have sl: "length (slice ?hs k n) = n" if "k + n \<le> 8" for k n using slice_length [of k n ?hs] that l(2) by simp
  consider "cs = Conax" | "cs = Seca" | "cs = Irdeto" | "cs = Cryptoworks" | "cs = Dre" | "cs = Nagra" | "cs = Videoguard"
    | "cs = Tongfang" using assms(5) by (cases cs) auto
  then show ?thesis
  proof cases
    case 1
    then have e: "?e ! 0 = 0x82" "?e ! 10 = 0x70" "slice ?e 6 4 = slice ?hs 2 4"
      using assms(2-4) by (auto simp: on_air_def get_emm_type_def conax_get_emm_type_def Let_def split: if_splits)
    have "slice ?e 10 1 = [0x70]" using e(2) l(1) slice_nth [of 10 1 ?e] by simp
    then have "passes (put 4 (slice ?hs 2 4) 0xFF (put 8 [0x70] 0xFF (new_filter UNIQUE 0x82))) ?e"
      using e l passes_fields [of ?e 4 "slice ?hs 2 4" 8 "[0x70]" 6 10 UNIQUE "0x82"] sl [of 2 4] by simp
    then show ?thesis using 1 by (simp add: let_through_def get_emm_filters_def conax_filters_def)
  next
    case 2
    then have e: "?e ! 0 = 0x82" "slice ?e 3 6 = slice ?hs 0 6"
      using assms(2-4) by (auto simp: on_air_def get_emm_type_def seca_get_emm_type_def Let_def split: if_splits)
    have "passes (put 1 (slice ?hs 0 6) 0xFF (new_filter UNIQUE 0x82)) ?e"
      using e l passes_field [of ?e 1 "slice ?hs 0 6" 3 UNIQUE "0x82"] sl [of 0 6] by simp
    then show ?thesis using 2 by (simp add: let_through_def get_emm_filters_def seca_filters_def)
  next
    case 3
    then have e: "?e ! 0 = 0x82" "?e ! 3 AND 7 = 3" "drop_bit 3 (?e ! 3) = ?hs ! 3" "slice ?e 4 3 = slice ?hs 0 3"
      using assms(2-4) by (auto simp: on_air_def get_emm_type_def irdeto_get_emm_type_def Let_def split: if_splits)
    have "?hs ! 3 * 8 + 3 = ?e ! 3" using drop3 [of "?e ! 3"] e(2,3) by simp
    then have "slice ?e 3 1 = [?hs ! 3 * 8 + 3]" using l(1) slice_nth [of 3 1 ?e] by simp
    then have "passes (put 2 (slice ?hs 0 3) 0xFF (put 1 [?hs ! 3 * 8 + 3] 0xFF (new_filter UNIQUE 0x82))) ?e"
      using e l passes_fields [of ?e 2 "slice ?hs 0 3" 1 "[?hs ! 3 * 8 + 3]" 4 3 UNIQUE "0x82"] sl [of 0 3] by simp
    then show ?thesis using 3 by (simp add: let_through_def get_emm_filters_def irdeto_filters_def Let_def)
  next
    case 4
    then have e: "?e ! 0 = 0x82" "?e ! 3 = 0xA9" "?e ! 4 = 0xFF" "slice ?e 5 5 = slice ?hs 0 5"
      using assms(2-4) by (auto simp: on_air_def get_emm_type_def cryptoworks_get_emm_type_def Let_def split: if_splits)
    have "slice ?e 3 2 = [0xA9, 0xFF]" using e(2,3) l(1) slice_nth [of 3 2 ?e] by (simp add: upt_rec_numeral)
    then have "passes (put 3 (slice ?hs 0 5) 0xFF (put 1 [0xA9, 0xFF] 0xFF (new_filter UNIQUE 0x82))) ?e"
      using e l passes_fields [of ?e 3 "slice ?hs 0 5" 1 "[0xA9, 0xFF]" 5 3 UNIQUE "0x82"] sl [of 0 5] by (simp add: length_literal del: list.size)
    then show ?thesis using 4 by (simp add: let_through_def get_emm_filters_def cryptoworks_filters_def Let_def)
  next
    case 5
    then have "?e ! 0 = 0x87"
      using assms(2-4) by (auto simp: on_air_def get_emm_type_def dre_get_emm_type_def Let_def split: if_splits)
    then show ?thesis using 5 by (simp add: let_through_def get_emm_filters_def dre_filters_def passes_table)
  next
    case 6
    then have e: "?e ! 0 = 0x83" "?e ! 7 = 0" "slice ?hs 2 4 = [?e ! 5, ?e ! 4, ?e ! 3, ?e ! 6]"
      using assms(2-4) by (auto simp: on_air_def get_emm_type_def nagra2_get_emm_type_def Let_def split: if_splits)
    have "slice ?hs 2 4 = [?hs ! 2, ?hs ! 3, ?hs ! 4, ?hs ! 5]" using slice_nth [of 2 4 ?hs] l(2) by (simp add: upt_rec_numeral)
    with e(3) have h: "?hs ! 2 = ?e ! 5" "?hs ! 3 = ?e ! 4" "?hs ! 4 = ?e ! 3" "?hs ! 5 = ?e ! 6" by simp_all
    have "slice ?e 3 5 = [?hs ! 4, ?hs ! 3, ?hs ! 2, ?hs ! 5, 0]"
      using slice_nth [of 3 5 ?e] l(1) h e(2) by (simp add: upt_rec_numeral)
    then have "passes (put 1 [?hs ! 4, ?hs ! 3, ?hs ! 2, ?hs ! 5, 0x00] 0xFF (new_filter UNIQUE 0x83)) ?e"
      using e(1) l passes_field [of ?e 1 "[?hs ! 4, ?hs ! 3, ?hs ! 2, ?hs ! 5, 0]" 3 UNIQUE "0x83"] by (simp add: length_literal del: list.size)
    then show ?thesis using 6 by (simp add: let_through_def get_emm_filters_def nagra2_filters_def Let_def)
  next
    case 7
    have a: "?e ! 0 = 0x82" "?e ! 1 \<noteq> 0" "drop_bit 4 (?e ! 3) AND 3 \<noteq> 3" using assms(2) 7 by (simp_all add: on_air_def)
    have t: "drop_bit 6 (?e ! 3 AND 0xC0) = 1"
      using assms(3,4) 7 a by (auto simp: get_emm_type_def videoguard_get_emm_type_def Let_def split: if_splits option.splits)
    have b: "0xC0 AND ?e ! 3 = 0xC0 AND 0x40" "?e ! 3 AND 0x80 = 0" using videoguard_unique [of "?e ! 3"] t by blast+
    obtain i where "find (\<lambda>i. slice ?e (i * 4 + 4) 4 = slice ?hs 2 4) [0..<unat (drop_bit 4 (?e ! 3) AND 3) + 1] = Some i"
      using assms(3) 7 a t b(2) by (auto simp: get_emm_type_def videoguard_get_emm_type_def Let_def split: if_splits option.splits)
    from find_upt_Some [OF this]
    have i: "i < unat (drop_bit 4 (?e ! 3) AND 3) + 1" "slice ?e (i * 4 + 4) 4 = slice ?hs 2 4" by blast+
    then have i3: "i \<in> {0, 1, 2}" using videoguard_count [of "?e ! 3"] a(3) by auto
    have k: "2 + 4 * i + 4 \<le> 16" using i3 by auto
    have s3: "section_byte ?e (Suc 0) = ?e ! 3" by (simp add: section_byte_def numeral_3_eq_3)
    have kk: "2 + 4 * i + 2 = i * 4 + 4" for i :: nat by simp
    have "2 + 4 * i + 2 + length (slice ?hs 2 4) \<le> length ?e" using l sl [of 2 4] k by simp
    from section_slice [OF _ this] i(2) sl [of 2 4]
    have "\<forall>j < 4. section_byte ?e (2 + 4 * i + j) = slice ?hs 2 4 ! j" by (simp only: kk)
    then have "passes (put (2 + 4 * i) (slice ?hs 2 4) 0xFF (put 1 [0x40] 0xC0 (new_filter UNIQUE 0x82))) ?e"
      using passes_two [of "2 + 4 * i" "slice ?hs 2 4" 1 "[0x40]"] k sl [of 2 4] a(1) b(1)
      by (simp add: new_filter_def s3)
    then show ?thesis using 7 i3 by (auto simp: let_through_def get_emm_filters_def videoguard_filters_def Let_def)
  next
    case 8
    then show ?thesis using assms(3,4) by (auto simp: get_emm_type_def tongfang_get_emm_type_def)
  qed
qed


lemma filter_ok_new [simp]: "filter_ok (new_filter t b)" "filter_ok (masked_filter t b m)"
  by (simp_all add: new_filter_def filter_ok_masked)

lemma slice_le: "length (slice bs k n) \<le> n"
  by (simp add: slice_def)

lemma filter_ok_slice [simp]: "k + n \<le> 16 \<Longrightarrow> filter_ok f \<Longrightarrow> filter_ok (put k (slice bs j n) m f)"
  using slice_le [of bs j n] by (intro filter_ok_put) simp_all

lemma filter_ok_bytes [simp]:
  "k + 1 \<le> 16 \<Longrightarrow> filter_ok f \<Longrightarrow> filter_ok (put k [a] m f)"
  "k + 2 \<le> 16 \<Longrightarrow> filter_ok f \<Longrightarrow> filter_ok (put k [a, b] m f)"
  "k + 5 \<le> 16 \<Longrightarrow> filter_ok f \<Longrightarrow> filter_ok (put k [a, b, c, d, e] m f)"
  by (intro filter_ok_put; simp)+

lemma filters_ok: "f \<in> set (get_emm_filters cs rdr) \<Longrightarrow> filter_ok f"
  by (cases cs)
    (auto simp: get_emm_filters_def conax_filters_def seca_filters_def irdeto_filters_def cryptoworks_filters_def dre_filters_def
      nagra2_filters_def viaccess_filters_def videoguard_filters_def Let_def dest!: in_set_takeD split: if_splits)

lemma filters_ten: "length (get_emm_filters cs rdr) \<le> 10"
  by (cases cs)
    (simp_all add: get_emm_filters_def conax_filters_def seca_filters_def irdeto_filters_def cryptoworks_filters_def dre_filters_def
      nagra2_filters_def viaccess_filters_def videoguard_filters_def Let_def)

lemma filter_image_length:
  "\<forall>f \<in> set fs. filter_ok f \<Longrightarrow> length (filter_image fs) = 2 + 34 * length fs"
proof -
  assume "\<forall>f \<in> set fs. filter_ok f"
  then have "length (concat (map (\<lambda>f. [emm_code (fl_type f), if fl_off f then 1 else 0] @ fl_data f @ fl_mask f) fs)) = 34 * length fs"
    by (induction fs) (simp_all add: filter_ok_def)
  then show ?thesis by (simp add: filter_image_def)
qed

section \<open>The properties of the filters\<close>


definition emm_reader_ex :: emm_reader where
  "emm_reader_ex = s_reader.extend (reader_ex\<lparr>rdr_hexserial := [0, 7, 7, 7, 7, 5, 0, 0],
     rdr_prid := [[0, 2, 8, 0x10, 0, 0, 0, 0]]\<rparr>) \<lparr>rdr_sa = replicate 32 (replicate 4 0)\<rparr>"

definition packet_ex :: "u8 list \<Rightarrow> emm_packet" where
  "packet_ex bs = \<lparr>ep_emm = bs @ replicate (258 - length bs) 0, ep_l = 40, ep_caid = [0x05, 0x00], ep_provid = replicate 4 0,
     ep_hexserial = replicate 8 0, ep_type = UNKNOWN\<rparr>"


text \<open>The filters of every card system fit into the 342 bytes that the callers reserve, whatever the reader holds: 34 bytes
  for each entry behind the two of the header, the second of which is their number. Tongfang alone has no function to call.\<close>

theorem emm_filters_fit:
  "case get_emm_filter cs rdr of
     None \<Rightarrow> cs = Tongfang
   | Some img \<Rightarrow> length img = 2 + 34 * unat (img ! 1) \<and> length img \<le> 342"
proof (cases "cs = Tongfang")
  case False
  let ?fs = "get_emm_filters cs rdr"
  have n: "length ?fs \<le> 10" and l: "length (filter_image ?fs) = 2 + 34 * length ?fs"
    using filters_ten filter_image_length filters_ok by blast+
  have "unat (filter_image ?fs ! 1) = length ?fs" using n by (simp add: filter_image_def unat_of_nat)
  then show ?thesis using False n l by (simp add: get_emm_filter_def)
qed (simp add: get_emm_filter_def)

text \<open>The unique filter of Viaccess and \<open>viaccess_get_emm_type\<close> look at different bytes: a unique EMM that passes the one
  and is accepted by the other shows bytes 1 to 4 of the serial at 3 and at 4, so that these four are equal. A card whose
  serial is not of this form gets no unique EMM.\<close>

theorem viaccess_unique_filter:
  assumes "reader_ok rdr" "length (ep_emm ep) = 258" "get_emm_type Viaccess ep rdr = Some (ep', True)" "ep_type ep' = UNIQUE"
    and "f \<in> set (get_emm_filters Viaccess rdr)" "fl_type f = UNIQUE" "passes f (ep_emm ep)"
  shows "\<forall>i \<in> {1, 2, 3, 4}. rdr_hexserial rdr ! i = rdr_hexserial rdr ! 1"
proof -
  let ?e = "ep_emm ep" and ?hs = "rdr_hexserial rdr"
  have l: "length ?hs = 8" using assms(1) by (simp add: reader_ok_def)
  have h: "slice ?hs 1 4 = [?hs ! 1, ?hs ! 2, ?hs ! 3, ?hs ! 4]" using slice_nth [of 1 4 ?hs] l by (simp add: upt_conv_Cons eval_nat_numeral)
  have "slice ?hs 1 4 = slice ?e 4 4"
    using assms(3,4) by (auto simp: get_emm_type_def viaccess_get_emm_type_def Let_def bind_eq_Some_conv split: if_splits)
  moreover have "slice ?e 4 4 = [?e ! 4, ?e ! 5, ?e ! 6, ?e ! 7]" using slice_nth [of 4 4 ?e] assms(2) by (simp add: upt_rec_numeral)
  ultimately have a: "?e ! 4 = ?hs ! 1" "?e ! 5 = ?hs ! 2" "?e ! 6 = ?hs ! 3" using h by simp_all
  have "f = put 1 (slice ?hs 1 4) 0xFF (new_filter UNIQUE 0x88)"
    using assms(5,6) by (auto simp: get_emm_filters_def viaccess_filters_def)
  then have "slice ?e 3 4 = slice ?hs 1 4"
    using assms(7) passes_field [of ?e 1 "slice ?hs 1 4" 3 UNIQUE "0x88"] assms(2) slice_length [of 1 4 ?hs] l by simp
  moreover have "slice ?e 3 4 = [?e ! 3, ?e ! 4, ?e ! 5, ?e ! 6]" using slice_nth [of 3 4 ?e] assms(2) by (simp add: upt_rec_numeral)
  ultimately have "?e ! 4 = ?hs ! 2" "?e ! 5 = ?hs ! 3" "?e ! 6 = ?hs ! 4" using h by simp_all
  then show ?thesis using a by simp
qed

theorem viaccess_unique_filter_witness:
  "list_all (\<lambda>i. rdr_hexserial emm_reader_ex ! i = rdr_hexserial emm_reader_ex ! 1) [1, 2, 3, 4]"
proof -
  let ?p = "packet_ex [0x88, 0x70, 0x20, 7, 7, 7, 7, 7]" and ?f = "put 1 (slice (rdr_hexserial emm_reader_ex) 1 4) 0xFF (new_filter UNIQUE 0x88)"
  have a: "reader_ok emm_reader_ex" and b: "length (ep_emm ?p) = 258" by code_simp+
  have c: "get_emm_type Viaccess ?p emm_reader_ex = Some (?p\<lparr>ep_type := UNIQUE, ep_hexserial := [7, 7, 7, 7, 0, 0, 0, 0]\<rparr>, True)"
    by code_simp
  have d: "?f \<in> set (get_emm_filters Viaccess emm_reader_ex)" by (simp add: get_emm_filters_def viaccess_filters_def)
  have e: "passes ?f (ep_emm ?p)" by code_simp
  have "\<forall>i \<in> {1, 2, 3, 4}. rdr_hexserial emm_reader_ex ! i = rdr_hexserial emm_reader_ex ! 1"
    by (rule viaccess_unique_filter [OF a b c _ d _ e]) simp_all
  then show ?thesis by simp
qed

end
