(* ===== verification/EmmRoute.thy ===== *)
theory EmmRoute
  imports Emm
begin

text \<open>
  The way of an EMM: \<open>do_emm\<close> of \<open>oscam.c\<close>, which offers it to the readers of a client, and
  \<open>reader_do_emm\<close> with its cache of digests (\<open>oscam-reader.c\<close>), which has it written. The digest, the
  card, the network and the pipes are parameters; log files are left out.
\<close>

section \<open>State\<close>

text \<open>\<open>rr_csystem\<close> is the active card system; \<open>rr_send_emm\<close> says that the protocol has \<open>c_send_emm\<close>; the four
  counters are indexed by the EMM type.\<close>

record route_reader = emm_reader +
  rr_enable :: bool
  rr_csystem :: "cardsystem option"
  rr_send_emm :: bool
  rr_s_nano :: u16
  rr_b_nano :: u16
  rr_blockemm :: u8
  rr_blockemmbylen :: "int list"
  rr_cachemm :: bool
  rr_rewritemm :: int
  rr_emmblocked :: "int list"

record emm_counts =
  emmok :: int
  emmnok :: int

record route_world =
  rw_readers :: "route_reader list"
  rw_client :: emm_counts
  rw_account :: "emm_counts option"
  rw_server :: emm_counts
  rw_last :: int
  rw_lastemm :: int
  rw_saved :: "(nat \<times> emm_packet) list"
  rw_pipe :: "(nat \<times> emm_packet) list"

fun type_index :: "emm_type \<Rightarrow> nat" where
  "type_index UNKNOWN = 0" | "type_index UNIQUE = 1" | "type_index SHARED = 2" | "type_index GLOBAL = 3"

section \<open>Card systems and blocking\<close>

text \<open>The card systems in the order of \<open>cardsystem_def\<close> with their two CAID bytes; an unused byte is 0.\<close>

definition cardsystem_caids :: "(cardsystem \<times> u8 list) list" where
  "cardsystem_caids =
     [(Nagra, [0x18, 0]), (Irdeto, [0x06, 0x17]), (Conax, [0x0B, 0]), (Cryptoworks, [0x0D, 0]), (Seca, [0x01, 0]), (Viaccess, [0x05, 0]),
      (Videoguard, [0x09, 0]), (Dre, [0x4A, 0]), (Tongfang, [0x4B, 0])]"

definition get_cardsystem_by_caid :: "u16 \<Rightarrow> cardsystem option" where
  "get_cardsystem_by_caid caid = map_option fst (find (\<lambda>(cs, caids). ucast (drop_bit 8 caid) \<in> set caids) cardsystem_caids)"

definition cs_emmlen_is_blocked :: "route_reader \<Rightarrow> int \<Rightarrow> bool" where
  "cs_emmlen_is_blocked rdr len \<longleftrightarrow> len \<in> set (rr_blockemmbylen rdr)"

text \<open>\<open>(1 << (table % 0x80)) & nano\<close> of an \<open>int\<close> and 16 bits: \<open>None\<close> is a shift that is undefined.\<close>

definition nano_set :: "u8 \<Rightarrow> u16 \<Rightarrow> bool option" where
  "nano_set table nano =
     (let n = unat table mod 0x80 in if 31 \<le> n then None else Some ((push_bit n 1 :: u32) AND ucast nano \<noteq> 0))"

definition type_blocked :: "route_reader \<Rightarrow> emm_type \<Rightarrow> bool" where
  "type_blocked rdr t \<longleftrightarrow> rr_blockemm rdr AND emm_code t \<noteq> 0"

definition emm_is_blocked :: "route_reader \<Rightarrow> emm_packet \<Rightarrow> bool" where
  "emm_is_blocked rdr ep \<longleftrightarrow> type_blocked rdr (ep_type ep) \<or> cs_emmlen_is_blocked rdr (uint (ep_emm ep ! 2))"

section \<open>Offering an EMM to the readers of a client\<close>

definition bump :: "nat \<Rightarrow> int list \<Rightarrow> int list" where
  "bump k cs = cs[k := cs ! k + 1]"

definition R_IS_CASCADING :: int where "R_IS_CASCADING = 0xE0"

text \<open>The conditions before the type is asked for: \<open>Some None\<close> skips the reader, \<open>Some (Some c)\<close> goes on with
  the card system \<open>c\<close>.\<close>

definition emm_candidate :: "u64 \<Rightarrow> emm_packet \<Rightarrow> route_reader \<Rightarrow> cardsystem option option option" where
  "emm_candidate grp ep rdr =
     (if \<not> rr_enable rdr then Some None
      else do {
        caid \<leftarrow> map_option ucast (b2i 2 (ep_caid ep));
        provid \<leftarrow> b2i 4 (ep_provid ep);
        Some (
          if rdr_audisabled rdr \<or> rdr_grp rdr AND grp = 0 \<or> \<not> emm_reader_match rdr caid provid then None
          else if rdr_typ rdr AND R_IS_CASCADING \<noteq> 0 then
            (if \<not> rr_send_emm rdr then None else map_option Some (get_cardsystem_by_caid caid))
          else Some (rr_csystem rdr)) })"

definition ask_type :: "cardsystem option \<Rightarrow> emm_packet \<Rightarrow> route_reader \<Rightarrow> (emm_packet \<times> bool) option" where
  "ask_type c ep rdr = (case c of None \<Rightarrow> Some (ep, True) | Some cs \<Rightarrow> get_emm_type cs ep (emm_reader.truncate rdr))"

definition count_nok :: "route_world \<Rightarrow> route_world" where
  "count_nok w = w\<lparr>rw_client := (rw_client w)\<lparr>emmnok := emmnok (rw_client w) + 1\<rparr>,
     rw_account := map_option (\<lambda>a. a\<lparr>emmnok := emmnok a + 1\<rparr>) (rw_account w),
     rw_server := (rw_server w)\<lparr>emmnok := emmnok (rw_server w) + 1\<rparr>\<rparr>"

definition count_ok :: "route_world \<Rightarrow> route_world" where
  "count_ok w = w\<lparr>rw_client := (rw_client w)\<lparr>emmok := emmok (rw_client w) + 1\<rparr>,
     rw_account := map_option (\<lambda>a. a\<lparr>emmok := emmok a + 1\<rparr>) (rw_account w),
     rw_server := (rw_server w)\<lparr>emmok := emmok (rw_server w) + 1\<rparr>\<rparr>"

text \<open>The body of the loop for reader \<open>i\<close>; the packet is passed on to the next reader.\<close>

definition route_one ::
  "(nat \<Rightarrow> bool) \<Rightarrow> int \<Rightarrow> u64 \<Rightarrow> nat \<Rightarrow> emm_packet \<Rightarrow> route_world \<Rightarrow> (emm_packet \<times> route_world) option" where
  "route_one pipe now grp i ep w = do {
     rdr \<leftarrow> fetch (rw_readers w) i;
     cand \<leftarrow> emm_candidate grp ep rdr;
     (case cand of
        None \<Rightarrow> Some (ep, w)
      | Some c \<Rightarrow> do {
          (ep1, accepted) \<leftarrow> ask_type c ep rdr;
          (if \<not> accepted then Some (ep1, count_nok w)
           else do {
             save \<leftarrow> nano_set (ep_emm ep1 ! 0) (rr_s_nano rdr);
             let w1 = w\<lparr>rw_last := now, rw_saved := rw_saved w @ (if save then [(i, ep1)] else [])\<rparr>;
             Some (ep1,
               if emm_is_blocked rdr ep1
               then w1\<lparr>rw_readers := (rw_readers w)[i := rdr\<lparr>rr_emmblocked := bump (type_index (ep_type ep1)) (rr_emmblocked rdr)\<rparr>]\<rparr>
               else (count_ok w1)\<lparr>rw_lastemm := now, rw_pipe := rw_pipe w @ (if pipe i then [(i, ep1)] else [])\<rparr>) }) }) }"

fun do_emm ::
  "(nat \<Rightarrow> bool) \<Rightarrow> int \<Rightarrow> u64 \<Rightarrow> nat list \<Rightarrow> emm_packet \<Rightarrow> route_world \<Rightarrow> (emm_packet \<times> route_world) option" where
  "do_emm pipe now grp [] ep w = Some (ep, w)"
| "do_emm pipe now grp (i # is) ep w = do {
     (ep1, w1) \<leftarrow> route_one pipe now grp i ep w;
     do_emm pipe now grp is ep1 w1 }"

section \<open>The reader writes an EMM\<close>

text \<open>A slot of the cache: digest, type, count. \<open>wr_done\<close> collects the packets that went to the card or
  the server, with what they returned.\<close>

record emm_slot =
  es_md5 :: "u8 list"
  es_type :: emm_type
  es_count :: int

record writer =
  wr_cache :: "emm_slot list"
  wr_rotate :: nat
  wr_done :: "(emm_packet \<times> int) list"
  wr_lastemm :: int
  wr_results :: "int list list"

definition CS_EMMCACHESIZE :: nat where "CS_EMMCACHESIZE = 64"

text \<open>What is hashed: the first \<open>emm[2]\<close> bytes.\<close>

definition digest :: "(u8 list \<Rightarrow> u8 list) \<Rightarrow> emm_packet \<Rightarrow> u8 list" where
  "digest md5 ep = md5 (take (unat (ep_emm ep ! 2)) (ep_emm ep))"

definition reader_emm ::
  "bool \<Rightarrow> (emm_packet \<Rightarrow> int) option \<Rightarrow> route_reader \<Rightarrow> emm_packet \<Rightarrow> (int \<times> bool) option" where
  "reader_emm healthy icc rdr ep =
     (if \<not> healthy then Some (0, False)
      else do {
        blocked \<leftarrow> nano_set (ep_emm ep ! 0) (rr_b_nano rdr);
        (if blocked then Some (3, False)
         else case icc of None \<Rightarrow> Some (0, False) | Some f \<Rightarrow> Some (f ep, True)) })"

text \<open>A network reader sends, a local one asks its card; the second component says whether a packet left.\<close>

definition emm_out ::
  "bool \<Rightarrow> (emm_packet \<Rightarrow> int) option \<Rightarrow> (emm_packet \<Rightarrow> int) \<Rightarrow> route_reader \<Rightarrow> emm_packet \<Rightarrow> (int \<times> bool) option" where
  "emm_out healthy icc send rdr ep =
     (if rdr_typ rdr AND R_IS_CASCADING \<noteq> 0
      then Some (if rr_send_emm rdr then (send ep, True) else (0, False))
      else reader_emm healthy icc rdr ep)"

definition reader_store_emm :: "(u8 list \<Rightarrow> u8 list) \<Rightarrow> emm_packet \<Rightarrow> writer \<Rightarrow> writer" where
  "reader_store_emm md5 ep s =
     s\<lparr>wr_cache := (wr_cache s)[wr_rotate s := \<lparr>es_md5 = digest md5 ep, es_type = ep_type ep, es_count = 1\<rparr>],
       wr_rotate := (if wr_rotate s + 1 < CS_EMMCACHESIZE then wr_rotate s + 1 else 0)\<rparr>"

text \<open>\<open>ecs\<close> and the cache after the search; 0 says that the EMM is new.\<close>

definition cache_lookup :: "(u8 list \<Rightarrow> u8 list) \<Rightarrow> route_reader \<Rightarrow> emm_packet \<Rightarrow> writer \<Rightarrow> int \<times> writer" where
  "cache_lookup md5 rdr ep s =
     (case find (\<lambda>i. es_md5 (wr_cache s ! i) = digest md5 ep) [0..<length (wr_cache s)] of
        None \<Rightarrow> (0, s)
      | Some i \<Rightarrow>
          (let e = wr_cache s ! i in
           (if rr_cachemm rdr then (if es_count e < rr_rewritemm rdr then 1 else 2) else 1,
            s\<lparr>wr_cache := (wr_cache s)[i := e\<lparr>es_count := es_count e + 1\<rparr>]\<rparr>)))"

text \<open>The counters of the results 0 to 3 (\<open>emmerror\<close>, \<open>emmwritten\<close>, \<open>emmskipped\<close>, \<open>emmblocked\<close>).\<close>

definition count_result :: "int \<Rightarrow> emm_type \<Rightarrow> writer \<Rightarrow> writer" where
  "count_result rc t s =
     (if rc \<in> {0, 1, 2, 3} then s\<lparr>wr_results := (wr_results s)[nat rc := bump (type_index t) (wr_results s ! nat rc)]\<rparr> else s)"

definition reader_do_emm ::
  "(u8 list \<Rightarrow> u8 list) \<Rightarrow> bool \<Rightarrow> (emm_packet \<Rightarrow> int) option \<Rightarrow> (emm_packet \<Rightarrow> int) \<Rightarrow> int \<Rightarrow> route_reader \<Rightarrow>
   emm_packet \<Rightarrow> writer \<Rightarrow> (int \<times> writer) option" where
  "reader_do_emm md5 healthy icc send now rdr ep s = do {
     let (ecs, s1) = cache_lookup md5 rdr ep s;
     (rc, s2) \<leftarrow> (if ecs < 2 then do {
         (rc, out) \<leftarrow> emm_out healthy icc send rdr ep;
         let s2 = s1\<lparr>wr_done := wr_done s1 @ (if out then [(ep, rc)] else [])\<rparr>;
         Some (rc, if ecs = 0 then reader_store_emm md5 ep s2 else s2) }
       else Some (ecs, s1));
     Some (rc, count_result rc (ep_type ep) (if rc \<noteq> 0 then s2\<lparr>wr_lastemm := now\<rparr> else s2)) }"

section \<open>Who gets an EMM\<close>

definition keeps :: "emm_packet \<Rightarrow> emm_packet \<Rightarrow> bool" where
  "keeps p ep \<longleftrightarrow> ep_emm p = ep_emm ep \<and> ep_caid p = ep_caid ep"

lemma keeps_refl [simp]: "keeps ep ep"
  by (simp add: keeps_def)

lemma keeps_upd [simp]:
  "keeps (p\<lparr>ep_type := t\<rparr>) ep = keeps p ep" "keeps (p\<lparr>ep_hexserial := h\<rparr>) ep = keeps p ep" "keeps (p\<lparr>ep_provid := v\<rparr>) ep = keeps p ep"
  "keeps p (ep\<lparr>ep_type := t\<rparr>) = keeps p ep" "keeps p (ep\<lparr>ep_hexserial := h\<rparr>) = keeps p ep"
  by (simp_all add: keeps_def)

lemma keeps_cw: "cw_provider ep off = Some p \<Longrightarrow> keeps p ep"
  by (auto simp: cw_provider_def bind_eq_Some_conv)

lemma keeps_cw' [simp]: "cw_provider ep off = Some p \<Longrightarrow> ep_type p = ep_type ep \<and> ep_emm p = ep_emm ep"
  by (auto simp: cw_provider_def bind_eq_Some_conv)

lemma keeps_conax: "keeps (fst (conax_get_emm_type ep rdr)) ep"
  by (simp add: conax_get_emm_type_def Let_def)

lemma keeps_seca: "keeps (fst (seca_get_emm_type ep rdr)) ep"
  by (simp add: seca_get_emm_type_def Let_def)

lemma keeps_irdeto: "keeps (fst (irdeto_get_emm_type ep rdr)) ep"
  by (simp add: irdeto_get_emm_type_def Let_def)

lemma keeps_dre: "keeps (fst (dre_get_emm_type ep rdr)) ep"
  by (simp add: dre_get_emm_type_def Let_def)

lemma keeps_nagra: "keeps (fst (nagra2_get_emm_type ep rdr)) ep"
  by (simp add: nagra2_get_emm_type_def Let_def)

lemma keeps_videoguard: "keeps (fst (videoguard_get_emm_type ep rdr)) ep"
  by (simp add: videoguard_get_emm_type_def Let_def split: option.split)

lemma keeps_cryptoworks:
  assumes "cryptoworks_get_emm_type ep rdr = Some (p, b)"
  shows "keeps p ep"
  using assms unfolding cryptoworks_get_emm_type_def Let_def
  by (simp split: if_split_asm) (auto dest: keeps_cw)

lemma keeps_viaccess:
  assumes "viaccess_get_emm_type ep rdr = Some (p, b)"
  shows "keeps p ep"
proof (cases "ep_emm ep ! 3 = 0x90 \<and> ep_emm ep ! 4 = 0x03")
  case True
  then show ?thesis using assms unfolding viaccess_get_emm_type_def Let_def
    by (simp add: bind_eq_Some_conv) (elim exE conjE; simp split: if_split_asm; elim conjE; hypsubst; simp)
next
  case False
  then show ?thesis using assms unfolding viaccess_get_emm_type_def Let_def
    by (simp split: if_split_asm; elim conjE; hypsubst; simp)
qed

lemma get_emm_type_keeps:
  assumes "get_emm_type cs ep rdr = Some (p, b)"
  shows "keeps p ep"
  using assms keeps_conax [of ep rdr] keeps_seca [of ep rdr] keeps_irdeto [of ep rdr] keeps_dre [of ep rdr] keeps_nagra [of ep rdr]
    keeps_videoguard [of ep rdr] keeps_cryptoworks [of ep rdr p b] keeps_viaccess [of ep rdr p b]
  by (cases cs) (simp_all add: get_emm_type_def tongfang_get_emm_type_def split: prod.splits, auto)

text \<open>What a unique EMM says of its card: the place of the serial in each system. A Cryptoworks EMM of table \<open>0x8F\<close>, a
  videoguard EMM with \<open>emm[1] = 0\<close> and the EMMs of Dre are not compared with the serial.\<close>

definition carries_serial :: "cardsystem \<Rightarrow> emm_reader \<Rightarrow> u8 list \<Rightarrow> bool" where
  "carries_serial cs rdr e = (let hs = rdr_hexserial rdr in case cs of
     Conax \<Rightarrow> slice e 6 4 = slice hs 2 4
   | Seca \<Rightarrow> slice e 3 6 = slice hs 0 6
   | Irdeto \<Rightarrow> drop_bit 3 (e ! 3) = hs ! 3 \<and> slice e 4 3 = slice hs 0 3
   | Cryptoworks \<Rightarrow> e ! 0 = 0x8F \<or> slice e 5 5 = slice hs 0 5
   | Dre \<Rightarrow> True
   | Nagra \<Rightarrow> slice hs 2 4 = [e ! 5, e ! 4, e ! 3, e ! 6]
   | Viaccess \<Rightarrow> slice e 4 4 = slice hs 1 4
   | Videoguard \<Rightarrow> e ! 1 = 0 \<or> (\<exists>i < 4. slice e (i * 4 + 4) 3 = slice hs 2 3)
   | Tongfang \<Rightarrow> False)"

lemma slice_shorter: "slice xs k m = slice ys j m \<Longrightarrow> n \<le> m \<Longrightarrow> slice xs k n = slice ys j n"
  by (metis min.absorb1 slice_def take_take)

lemma videoguard_four: "unat (drop_bit 4 x AND 3) + 1 \<le> 4" for x :: u8
  by (rule byte_exhaust) code_simp

lemma unique_carries_serial:
  assumes "get_emm_type cs ep rdr = Some (p, True)" "ep_type p = UNIQUE"
  shows "carries_serial cs rdr (ep_emm p)"
proof (cases "cs = Videoguard")
  case True
  let ?e = "ep_emm ep" and ?hs = "rdr_hexserial rdr"
  obtain n where n: "n = unat (drop_bit 4 (?e ! 3) AND 3) + 1" by simp
  obtain m where m: "m = (if ?e ! 3 AND 0x80 \<noteq> 0 then 3 else 4 :: nat)" by simp
  have "?e ! 1 = 0 \<or> (\<exists>i. find (\<lambda>i. slice ?e (i * 4 + 4) m = slice ?hs 2 m) [0..<n] = Some i)"
    using assms True by (auto simp: get_emm_type_def videoguard_get_emm_type_def Let_def n m split: if_splits option.splits)
  then have "?e ! 1 = 0 \<or> (\<exists>i < 4. slice ?e (i * 4 + 4) 3 = slice ?hs 2 3)"
  proof
    assume "\<exists>i. find (\<lambda>i. slice ?e (i * 4 + 4) m = slice ?hs 2 m) [0..<n] = Some i"
    then obtain i where i: "find (\<lambda>i. slice ?e (i * 4 + 4) m = slice ?hs 2 m) [0..<n] = Some i" ..
    from find_upt_Some [OF i] have "i < n" "slice ?e (i * 4 + 4) m = slice ?hs 2 m" by blast+
    moreover have "n \<le> 4" using videoguard_four [of "?e ! 3"] n by simp
    moreover have "3 \<le> m" using m by simp
    ultimately have "i < 4 \<and> slice ?e (i * 4 + 4) 3 = slice ?hs 2 3" using slice_shorter [of ?e "i * 4 + 4" m ?hs 2 3] by simp
    then show ?thesis by blast
  qed simp
  then show ?thesis using True get_emm_type_keeps [OF assms(1)] by (simp add: carries_serial_def keeps_def Let_def)
next
  case False
  have e: "ep_emm p = ep_emm ep" using get_emm_type_keeps [OF assms(1)] by (simp add: keeps_def)
  show ?thesis
  proof (cases cs)
    case Conax
    then show ?thesis using assms unfolding e
      by (auto simp: carries_serial_def get_emm_type_def conax_get_emm_type_def Let_def split: if_splits)
  next
    case Seca
    then show ?thesis using assms unfolding e
      by (auto simp: carries_serial_def get_emm_type_def seca_get_emm_type_def Let_def split: if_splits)
  next
    case Irdeto
    then show ?thesis using assms unfolding e
      by (auto simp: carries_serial_def get_emm_type_def irdeto_get_emm_type_def Let_def split: if_splits)
  next
    case Cryptoworks
    then show ?thesis using assms unfolding e
      by (auto simp: carries_serial_def get_emm_type_def cryptoworks_get_emm_type_def Let_def split: if_splits)
  next
    case Nagra
    then show ?thesis using assms unfolding e
      by (auto simp: carries_serial_def get_emm_type_def nagra2_get_emm_type_def Let_def split: if_splits)
  next
    case Viaccess
    then show ?thesis using assms unfolding e
      by (auto simp: carries_serial_def get_emm_type_def viaccess_get_emm_type_def Let_def bind_eq_Some_conv split: if_splits)
  qed (use False assms in \<open>auto simp: carries_serial_def get_emm_type_def tongfang_get_emm_type_def\<close>)
qed

text \<open>The card system that is asked for an EMM of a CAID.\<close>

definition system_of :: "route_reader \<Rightarrow> u16 \<Rightarrow> cardsystem option" where
  "system_of rdr caid = (if rdr_typ rdr AND R_IS_CASCADING \<noteq> 0 then get_cardsystem_by_caid caid else rr_csystem rdr)"

text \<open>What a reader must be to receive the packet \<open>p\<close>.\<close>

definition receives :: "u64 \<Rightarrow> route_reader \<Rightarrow> emm_packet \<Rightarrow> bool" where
  "receives grp rdr p \<longleftrightarrow>
     rr_enable rdr \<and> \<not> rdr_audisabled rdr \<and> rdr_grp rdr AND grp \<noteq> 0 \<and>
     map_option ucast (b2i 2 (ep_caid p)) = Some (rdr_caid rdr) \<and> \<not> emm_is_blocked rdr p \<and>
     (rdr_typ rdr AND R_IS_CASCADING \<noteq> 0 \<longrightarrow> rr_send_emm rdr \<and> system_of rdr (rdr_caid rdr) \<noteq> None) \<and>
     (\<forall>cs. system_of rdr (rdr_caid rdr) = Some cs \<longrightarrow> ep_type p = UNIQUE \<longrightarrow> carries_serial cs (emm_reader.truncate rdr) (ep_emm p))"

lemma receives_blocked [simp]: "receives grp (rdr\<lparr>rr_emmblocked := b\<rparr>) p = receives grp rdr p"
  by (simp add: receives_def emm_is_blocked_def type_blocked_def cs_emmlen_is_blocked_def system_of_def emm_reader.truncate_def)

lemma candidate_sound:
  assumes "emm_candidate grp ep rdr = Some (Some c)"
  shows "rr_enable rdr \<and> \<not> rdr_audisabled rdr \<and> rdr_grp rdr AND grp \<noteq> 0 \<and>
    map_option ucast (b2i 2 (ep_caid ep)) = Some (rdr_caid rdr) \<and> c = system_of rdr (rdr_caid rdr) \<and>
    (rdr_typ rdr AND R_IS_CASCADING \<noteq> 0 \<longrightarrow> rr_send_emm rdr \<and> c \<noteq> None)"
proof -
  obtain caid provid where v: "map_option ucast (b2i 2 (ep_caid ep)) = Some caid" "emm_reader_match rdr caid provid"
    and r: "rr_enable rdr" "\<not> rdr_audisabled rdr" "rdr_grp rdr AND grp \<noteq> 0"
    and c: "(if rdr_typ rdr AND R_IS_CASCADING \<noteq> 0
      then if \<not> rr_send_emm rdr then None else map_option Some (get_cardsystem_by_caid caid) else Some (rr_csystem rdr)) = Some c"
    using assms by (auto simp: emm_candidate_def bind_eq_Some_conv split: if_split_asm)
  have "rdr_caid rdr = caid" using v(2) by (simp add: emm_reader_match_def split: if_splits)
  then show ?thesis using v(1) r c by (auto simp: system_of_def split: if_splits)
qed

definition same_but_counts :: "route_reader \<Rightarrow> route_reader \<Rightarrow> bool" where
  "same_but_counts r r' \<longleftrightarrow> (\<exists>b. r' = r\<lparr>rr_emmblocked := b\<rparr>)"

lemma same_but_counts_refl [simp]: "same_but_counts r r"
  unfolding same_but_counts_def by (rule exI [of _ "rr_emmblocked r"]) simp

lemma same_but_counts_blocked [simp]: "same_but_counts r (r\<lparr>rr_emmblocked := b\<rparr>)"
  by (auto simp: same_but_counts_def)

lemma same_but_counts_receives: "same_but_counts r r' \<Longrightarrow> receives grp r' p = receives grp r p"
  by (auto simp: same_but_counts_def)

lemma same_but_counts_trans: "same_but_counts r r' \<Longrightarrow> same_but_counts r' r'' \<Longrightarrow> same_but_counts r r''"
  by (auto simp: same_but_counts_def)

lemma route_one_sound:
  assumes "route_one pipe now grp i ep w = Some (ep1, w1)"
  shows "keeps ep1 ep \<and> list_all2 same_but_counts (rw_readers w) (rw_readers w1) \<and>
    (\<exists>ms. rw_pipe w1 = rw_pipe w @ ms \<and>
      (\<forall>m \<in> set ms. m = (i, ep1) \<and> i < length (rw_readers w) \<and> pipe i \<and> receives grp (rw_readers w ! i) ep1) \<and>
      int (length ms) \<le> emmok (rw_client w1) - emmok (rw_client w))"
proof -
  obtain rdr where r: "i < length (rw_readers w)" "rdr = rw_readers w ! i"
    using assms by (auto simp: route_one_def bind_eq_Some_conv fetch_def split: if_splits)
  have refl: "list_all2 same_but_counts xs xs" for xs by (simp add: list.rel_refl)
  obtain cand where cand: "emm_candidate grp ep rdr = Some cand"
    using assms r by (auto simp: route_one_def bind_eq_Some_conv fetch_def)
  show ?thesis
  proof (cases cand)
    case None
    then show ?thesis using assms r cand refl by (simp add: route_one_def fetch_def)
  next
    case (Some c)
    from candidate_sound [of grp ep rdr c] cand Some
    have s: "rr_enable rdr \<and> \<not> rdr_audisabled rdr \<and> rdr_grp rdr AND grp \<noteq> 0 \<and>
      map_option ucast (b2i 2 (ep_caid ep)) = Some (rdr_caid rdr) \<and> c = system_of rdr (rdr_caid rdr) \<and>
      (rdr_typ rdr AND R_IS_CASCADING \<noteq> 0 \<longrightarrow> rr_send_emm rdr \<and> c \<noteq> None)" by blast
    obtain p accepted where p: "ask_type c ep rdr = Some (p, accepted)"
      using assms r cand Some by (auto simp: route_one_def bind_eq_Some_conv fetch_def)
    have k: "keeps p ep" using p get_emm_type_keeps by (auto simp: ask_type_def split: option.splits)
    show ?thesis
    proof (cases accepted)
      case False
      then show ?thesis using assms r cand Some p k refl by (auto simp: route_one_def fetch_def count_nok_def)
    next
      case True
      obtain save where save: "nano_set (ep_emm p ! 0) (rr_s_nano rdr) = Some save"
        using assms r cand Some p True by (auto simp: route_one_def bind_eq_Some_conv fetch_def)
      show ?thesis
      proof (cases "emm_is_blocked rdr p")
        case blocked: True
        have "list_all2 same_but_counts (rw_readers w) ((rw_readers w)[i := rdr\<lparr>rr_emmblocked := b\<rparr>])" for b
          unfolding list_all2_conv_all_nth by (simp add: nth_list_update r)
        moreover have "route_one pipe now grp i ep w = Some (p, w\<lparr>rw_last := now, rw_saved := rw_saved w @ (if save then [(i, p)] else []),
            rw_readers := (rw_readers w)[i := rdr\<lparr>rr_emmblocked := bump (type_index (ep_type p)) (rr_emmblocked rdr)\<rparr>]\<rparr>)"
          using r cand Some p save blocked True by (simp add: route_one_def fetch_def)
        then have "ep1 = p \<and> rw_pipe w1 = rw_pipe w \<and> rw_client w1 = rw_client w \<and>
          rw_readers w1 = (rw_readers w)[i := rdr\<lparr>rr_emmblocked := bump (type_index (ep_type p)) (rr_emmblocked rdr)\<rparr>]"
          unfolding assms by (simp only: option.inject prod.inject) simp
        ultimately show ?thesis using k by simp
      next
        case False
        have "carries_serial cs (emm_reader.truncate rdr) (ep_emm p)" if "c = Some cs" "ep_type p = UNIQUE" for cs
          using p that True unique_carries_serial [of cs ep "emm_reader.truncate rdr" p] by (simp add: ask_type_def)
        then have "receives grp rdr p" using s False k by (auto simp: receives_def keeps_def)
        then show ?thesis using assms r cand Some p k save False True refl by (auto simp: route_one_def fetch_def count_ok_def)
      qed
    qed
  qed
qed

lemma do_emm_sound:
  "do_emm pipe now grp is ep w = Some (ep', w') \<Longrightarrow> keeps ep' ep \<and> list_all2 same_but_counts (rw_readers w) (rw_readers w') \<and>
    (\<exists>ms. rw_pipe w' = rw_pipe w @ ms \<and>
      (\<forall>(i, p) \<in> set ms. i \<in> set is \<and> i < length (rw_readers w) \<and> pipe i \<and> keeps p ep \<and> receives grp (rw_readers w ! i) p) \<and>
      int (length ms) \<le> emmok (rw_client w') - emmok (rw_client w))"
proof (induction "is" arbitrary: ep w)
  case Nil
  then show ?case by (simp add: list.rel_refl)
next
  case (Cons i rs)
  obtain ep1 w1 where 1: "route_one pipe now grp i ep w = Some (ep1, w1)" "do_emm pipe now grp rs ep1 w1 = Some (ep', w')"
    using Cons.prems by (auto simp: bind_eq_Some_conv)
  obtain ms1 where m1: "keeps ep1 ep" "list_all2 same_but_counts (rw_readers w) (rw_readers w1)" "rw_pipe w1 = rw_pipe w @ ms1"
    "\<forall>m \<in> set ms1. m = (i, ep1) \<and> i < length (rw_readers w) \<and> pipe i \<and> receives grp (rw_readers w ! i) ep1"
    "int (length ms1) \<le> emmok (rw_client w1) - emmok (rw_client w)"
    using route_one_sound [OF 1(1)] by blast
  obtain ms2 where m2: "keeps ep' ep1" "list_all2 same_but_counts (rw_readers w1) (rw_readers w')" "rw_pipe w' = rw_pipe w1 @ ms2"
    "\<forall>(i, p) \<in> set ms2. i \<in> set rs \<and> i < length (rw_readers w1) \<and> pipe i \<and> keeps p ep1 \<and> receives grp (rw_readers w1 ! i) p"
    "int (length ms2) \<le> emmok (rw_client w') - emmok (rw_client w1)"
    using Cons.IH [OF 1(2)] by blast
  have "(\<forall>(j, p) \<in> set (ms1 @ ms2). j \<in> set (i # rs) \<and> j < length (rw_readers w) \<and> pipe j \<and> keeps p ep \<and> receives grp (rw_readers w ! j) p)"
    using m1(1,2,4) m2(4) same_but_counts_receives by (fastforce simp: keeps_def list_all2_conv_all_nth)
  moreover have "list_all2 same_but_counts (rw_readers w) (rw_readers w')"
    using m1(2) m2(2) list_all2_trans same_but_counts_trans by blast
  ultimately show ?case using m1(1,3,5) m2(1,3,5) by (intro conjI exI [of _ "ms1 @ ms2"]) (auto simp: keeps_def)
qed


section \<open>How often an EMM is written\<close>

text \<open>The packets of a reader, one after the other.\<close>

fun feed ::
  "(u8 list \<Rightarrow> u8 list) \<Rightarrow> bool \<Rightarrow> (emm_packet \<Rightarrow> int) option \<Rightarrow> (emm_packet \<Rightarrow> int) \<Rightarrow> int \<Rightarrow> route_reader \<Rightarrow>
   emm_packet list \<Rightarrow> writer \<Rightarrow> writer option" where
  "feed md5 healthy icc send now rdr [] s = Some s"
| "feed md5 healthy icc send now rdr (ep # eps) s = do {
     (rc, s1) \<leftarrow> reader_do_emm md5 healthy icc send now rdr ep s;
     feed md5 healthy icc send now rdr eps s1 }"

definition no_digest :: "u8 list" where
  "no_digest = replicate 16 0"

definition fresh_writer :: writer where
  "fresh_writer = \<lparr>wr_cache = replicate CS_EMMCACHESIZE \<lparr>es_md5 = no_digest, es_type = UNKNOWN, es_count = 0\<rparr>, wr_rotate = 0, wr_done = [],
     wr_lastemm = 0, wr_results = replicate 4 (replicate 4 0)\<rparr>"

text \<open>The digests in the order of their first appearance.\<close>

definition firsts :: "'a list \<Rightarrow> 'a list" where
  "firsts ds = rev (remdups (rev ds))"

lemma firsts_snoc: "firsts (ds @ [d]) = (if d \<in> set ds then firsts ds else firsts ds @ [d])"
  by (simp add: firsts_def)

lemma set_firsts [simp]: "set (firsts ds) = set ds" and distinct_firsts [simp]: "distinct (firsts ds)"
  by (simp_all add: firsts_def)

lemma length_firsts: "length (firsts ds) = card (set ds)"
  by (simp add: firsts_def length_remdups_card_conv)

text \<open>How often an EMM that came \<open>n\<close> times is written.\<close>

definition writes :: "route_reader \<Rightarrow> nat \<Rightarrow> nat" where
  "writes rdr n = (if rr_cachemm rdr then min n (max 1 (nat (rr_rewritemm rdr))) else n)"

definition written :: "(u8 list \<Rightarrow> u8 list) \<Rightarrow> u8 list \<Rightarrow> writer \<Rightarrow> nat" where
  "written md5 d s = length (filter (\<lambda>(p, rc). digest md5 p = d) (wr_done s))"

text \<open>The cache after the digests \<open>ds\<close>: a slot for each, in the order of their first appearance, with its count.\<close>

definition cache_ok :: "(u8 list \<Rightarrow> u8 list) \<Rightarrow> route_reader \<Rightarrow> u8 list list \<Rightarrow> writer \<Rightarrow> bool" where
  "cache_ok md5 rdr ds s \<longleftrightarrow>
     length (wr_cache s) = CS_EMMCACHESIZE \<and> length (firsts ds) \<le> CS_EMMCACHESIZE \<and> no_digest \<notin> set ds \<and>
     wr_rotate s = length (firsts ds) mod CS_EMMCACHESIZE \<and>
     (\<forall>i < CS_EMMCACHESIZE. es_md5 (wr_cache s ! i) = (if i < length (firsts ds) then firsts ds ! i else no_digest)) \<and>
     (\<forall>i < length (firsts ds). es_count (wr_cache s ! i) = int (count_list ds (firsts ds ! i))) \<and>
     (\<forall>d. written md5 d s = writes rdr (count_list ds d))"

lemma cache_ok_fresh: "cache_ok md5 rdr [] fresh_writer"
  by (simp add: cache_ok_def fresh_writer_def firsts_def written_def writes_def CS_EMMCACHESIZE_def)

lemma writes_Suc:
  "0 < n \<Longrightarrow> writes rdr (n + 1) = (if rr_cachemm rdr \<and> rr_rewritemm rdr \<le> int n then writes rdr n else writes rdr n + 1)"
  by (auto simp: writes_def)

lemma writes_1: "writes rdr 1 = 1" and writes_0: "writes rdr 0 = 0"
  by (simp_all add: writes_def)

lemma count_list_snoc: "count_list (ds @ [d]) x = count_list ds x + (if x = d then 1 else 0)"
  by simp

lemma written_upd [simp]:
  "written md5 d (s\<lparr>wr_cache := c\<rparr>) = written md5 d s" "written md5 d (s\<lparr>wr_rotate := r\<rparr>) = written md5 d s"
  "written md5 d (s\<lparr>wr_lastemm := n\<rparr>) = written md5 d s" "written md5 d (s\<lparr>wr_results := rs\<rparr>) = written md5 d s"
  "written md5 d (s\<lparr>wr_done := xs @ [(ep, rc)]\<rparr>) = length (filter (\<lambda>(p, rc). digest md5 p = d) xs) + (if digest md5 ep = d then 1 else 0)"
  by (simp_all add: written_def)

text \<open>What does not depend on the counters and times.\<close>

definition core :: "writer \<Rightarrow> emm_slot list \<times> nat \<times> (emm_packet \<times> int) list" where
  "core s = (wr_cache s, wr_rotate s, wr_done s)"

lemma cache_ok_core: "core s = core s' \<Longrightarrow> cache_ok md5 rdr ds s = cache_ok md5 rdr ds s'"
  by (simp add: cache_ok_def core_def written_def)

lemma core_upd [simp]: "core (count_result rc t s) = core s" "core (s\<lparr>wr_lastemm := n\<rparr>) = core s"
  by (simp_all add: core_def count_result_def)

text \<open>A new digest.\<close>

lemma cache_new:
  assumes "cache_ok md5 rdr ds s" "d = digest md5 ep" "d \<notin> set ds" "d \<noteq> no_digest" "card (set (ds @ [d])) \<le> CS_EMMCACHESIZE"
  shows "cache_lookup md5 rdr ep s = (0, s)"
    and "cache_ok md5 rdr (ds @ [d]) (reader_store_emm md5 ep (s\<lparr>wr_done := wr_done s @ [(ep, rc)]\<rparr>))"
proof -
  let ?k = "length (firsts ds)"
  have k: "?k < CS_EMMCACHESIZE" using assms(3,5) by (simp add: length_firsts)
  have md: "es_md5 (wr_cache s ! i) \<noteq> d" if "i < CS_EMMCACHESIZE" for i
    using assms(1,3,4) that nth_mem [of i "firsts ds"] by (auto simp: cache_ok_def split: if_splits)
  have len: "length (wr_cache s) = CS_EMMCACHESIZE" using assms(1) by (simp add: cache_ok_def)
  have "find (\<lambda>i. es_md5 (wr_cache s ! i) = digest md5 ep) [0..<length (wr_cache s)] = None"
    unfolding find_None_iff using md len assms(2) by auto
  then show "cache_lookup md5 rdr ep s = (0, s)" by (simp add: cache_lookup_def)
  have rot: "wr_rotate s = ?k" using assms(1) k by (simp add: cache_ok_def)
  have f: "firsts (ds @ [d]) = firsts ds @ [d]" using assms(3) by (simp add: firsts_snoc)
  let ?c = "(wr_cache s)[?k := \<lparr>es_md5 = d, es_type = ep_type ep, es_count = 1\<rparr>]"
  let ?s = "reader_store_emm md5 ep (s\<lparr>wr_done := wr_done s @ [(ep, rc)]\<rparr>)"
  have c: "wr_cache ?s = ?c" using rot assms(2) by (simp add: reader_store_emm_def)
  have "wr_rotate ?s = length (firsts (ds @ [d])) mod CS_EMMCACHESIZE"
    using rot k by (cases "?k = 63") (simp_all add: reader_store_emm_def f CS_EMMCACHESIZE_def)
  moreover have "es_md5 (?c ! i) = (if i < length (firsts (ds @ [d])) then firsts (ds @ [d]) ! i else no_digest)"
    if "i < CS_EMMCACHESIZE" for i
    using assms(1) that len by (auto simp: cache_ok_def f nth_list_update nth_append less_Suc_eq)
  moreover have "es_count (?c ! i) = int (count_list (ds @ [d]) (firsts (ds @ [d]) ! i))" if i: "i < length (firsts (ds @ [d]))" for i
  proof (cases "i = ?k")
    case True
    then show ?thesis using k len assms(3) by (simp add: f count_list_0_iff)
  next
    case False
    then have "i < ?k" using i by (simp add: f)
    moreover from this have "firsts ds ! i \<noteq> d" using nth_mem [of i "firsts ds"] assms(3) by auto
    ultimately show ?thesis using assms(1) False by (simp add: cache_ok_def f nth_append)
  qed
  moreover have "written md5 x ?s = writes rdr (count_list (ds @ [d]) x)" for x
    using assms(1-3) writes_1 [of rdr] writes_0 [of rdr]
    by (simp add: cache_ok_def reader_store_emm_def written_def count_list_0_iff) (metis add.right_neutral count_list_0_iff)
  ultimately show "cache_ok md5 rdr (ds @ [d]) ?s"
    using assms(1,4) k len c by (simp add: cache_ok_def f)
qed

text \<open>A digest that was seen.\<close>

lemma cache_seen:
  assumes "cache_ok md5 rdr ds s" "d = digest md5 ep" "d \<in> set ds"
  obtains s1 where "cache_lookup md5 rdr ep s = (if rr_cachemm rdr \<and> rr_rewritemm rdr \<le> int (count_list ds d) then 2 else 1, s1)"
    and "cache_ok md5 rdr (ds @ [d])
      (if rr_cachemm rdr \<and> rr_rewritemm rdr \<le> int (count_list ds d) then s1 else s1\<lparr>wr_done := wr_done s1 @ [(ep, rc)]\<rparr>)"
proof -
  have F: "length (wr_cache s) = CS_EMMCACHESIZE" "length (firsts ds) \<le> CS_EMMCACHESIZE"
    "\<And>i. i < CS_EMMCACHESIZE \<Longrightarrow> es_md5 (wr_cache s ! i) = (if i < length (firsts ds) then firsts ds ! i else no_digest)"
    "\<And>i. i < length (firsts ds) \<Longrightarrow> es_count (wr_cache s ! i) = int (count_list ds (firsts ds ! i))"
    "\<And>x. written md5 x s = writes rdr (count_list ds x)" "no_digest \<notin> set ds"
    using assms(1) by (simp_all add: cache_ok_def)
  obtain k where k: "k < length (firsts ds)" "firsts ds ! k = d" using assms(3) by (metis in_set_conv_nth set_firsts)
  have uniq: "j = k" if "j < CS_EMMCACHESIZE" "es_md5 (wr_cache s ! j) = d" for j
    using that F(3) [OF that(1)] k assms(3) F(6) nth_eq_iff_index_eq [of "firsts ds" j k] by (auto split: if_splits)
  have md: "es_md5 (wr_cache s ! k) = d" using F(2,3) k by simp
  have "find (\<lambda>i. es_md5 (wr_cache s ! i) = digest md5 ep) [0..<length (wr_cache s)] = Some k"
  proof (cases "find (\<lambda>i. es_md5 (wr_cache s ! i) = digest md5 ep) [0..<length (wr_cache s)]")
    case None
    then show ?thesis using md k F(1,2) assms(2) by (auto simp: find_None_iff)
  next
    case (Some j)
    from find_upt_Some [OF Some] show ?thesis using uniq [of j] F(1) assms(2) Some by simp
  qed
  note fnd = this
  define e where "e = wr_cache s ! k"
  define s1 where "s1 = s\<lparr>wr_cache := (wr_cache s)[k := e\<lparr>es_count := es_count e + 1\<rparr>]\<rparr>"
  have n: "es_count e = int (count_list ds d)" using F(4) k e_def by simp
  have l: "cache_lookup md5 rdr ep s = (if rr_cachemm rdr \<and> rr_rewritemm rdr \<le> int (count_list ds d) then 2 else 1, s1)"
    using fnd n by (simp add: cache_lookup_def e_def s1_def Let_def not_less)
  have f: "firsts (ds @ [d]) = firsts ds" using assms(3) by (simp add: firsts_snoc)
  have pos: "0 < count_list ds d" using assms(3) by (metis count_list_0_iff gr0I)
  have w: "writes rdr (count_list (ds @ [d]) x) =
    writes rdr (count_list ds x) + (if x = d \<and> \<not> (rr_cachemm rdr \<and> rr_rewritemm rdr \<le> int (count_list ds d)) then 1 else 0)" for x
    using writes_Suc [OF pos, of rdr] by (cases "x = d") simp_all
  let ?s = "if rr_cachemm rdr \<and> rr_rewritemm rdr \<le> int (count_list ds d) then s1 else s1\<lparr>wr_done := wr_done s1 @ [(ep, rc)]\<rparr>"
  have c: "wr_cache ?s = (wr_cache s)[k := e\<lparr>es_count := es_count e + 1\<rparr>]" "wr_rotate ?s = wr_rotate s" by (simp_all add: s1_def)
  have dn: "written md5 x ?s = writes rdr (count_list (ds @ [d]) x)" for x
    unfolding w using F(5) [of x] assms(2) by (simp add: s1_def written_def)
  have cnt: "es_count ((wr_cache s)[k := e\<lparr>es_count := es_count e + 1\<rparr>] ! i) = int (count_list (ds @ [d]) (firsts ds ! i))"
    if "i < length (firsts ds)" for i
  proof (cases "i = k")
    case True
    then show ?thesis using k F(1,2) n by simp
  next
    case False
    then have "firsts ds ! i \<noteq> d" using nth_eq_iff_index_eq [of "firsts ds" i k] k that by auto
    then show ?thesis using False F(4) [OF that] by simp
  qed
  have md5s: "es_md5 ((wr_cache s)[k := e\<lparr>es_count := es_count e + 1\<rparr>] ! i) = es_md5 (wr_cache s ! i)" for i
    by (cases "k < length (wr_cache s)"; cases "i = k") (simp_all add: e_def not_less list_update_beyond)
  have "cache_ok md5 rdr (ds @ [d]) ?s"
    unfolding cache_ok_def c f using assms(1,3) F cnt md5s dn by (auto simp: cache_ok_def)
  then show ?thesis using that l by blast
qed

lemma feed_snoc:
  "feed md5 healthy icc send now rdr (eps @ [ep]) s = do {
     s1 \<leftarrow> feed md5 healthy icc send now rdr eps s;
     map_option snd (reader_do_emm md5 healthy icc send now rdr ep s1) }"
proof (induction eps arbitrary: s)
  case Nil
  then show ?case by (cases "reader_do_emm md5 healthy icc send now rdr ep s") auto
next
  case (Cons e eps)
  then show ?case by (cases "reader_do_emm md5 healthy icc send now rdr e s") auto
qed

lemma reader_do_emm_step:
  assumes "cache_ok md5 rdr ds s" "d = digest md5 ep" "d \<noteq> no_digest" "card (set (ds @ [d])) \<le> CS_EMMCACHESIZE"
    and "emm_out healthy icc send rdr ep = Some (r, True)"
  shows "\<exists>rc s'. reader_do_emm md5 healthy icc send now rdr ep s = Some (rc, s') \<and> cache_ok md5 rdr (ds @ [d]) s'"
proof (cases "d \<in> set ds")
  case False
  note new = cache_new [OF assms(1,2) False assms(3,4)]
  let ?s = "reader_store_emm md5 ep (s\<lparr>wr_done := wr_done s @ [(ep, r)]\<rparr>)"
  have "reader_do_emm md5 healthy icc send now rdr ep s =
    Some (r, count_result r (ep_type ep) (if r \<noteq> 0 then ?s\<lparr>wr_lastemm := now\<rparr> else ?s))"
    using assms(5) new(1) by (simp add: reader_do_emm_def)
  moreover have "cache_ok md5 rdr (ds @ [d]) (count_result r (ep_type ep) (if r \<noteq> 0 then ?s\<lparr>wr_lastemm := now\<rparr> else ?s))"
    by (rule cache_ok_core [THEN iffD1, OF _ new(2) [of r]]) simp
  ultimately show ?thesis by blast
next
  case True
  let ?skip = "rr_cachemm rdr \<and> rr_rewritemm rdr \<le> int (count_list ds d)"
  obtain s1 where s1: "cache_lookup md5 rdr ep s = (if ?skip then 2 else 1, s1)"
    "cache_ok md5 rdr (ds @ [d]) (if ?skip then s1 else s1\<lparr>wr_done := wr_done s1 @ [(ep, r)]\<rparr>)"
    using cache_seen [OF assms(1,2) True, of r] by blast
  let ?s = "if ?skip then s1 else s1\<lparr>wr_done := wr_done s1 @ [(ep, r)]\<rparr>" and ?r = "if ?skip then 2 else r"
  have "reader_do_emm md5 healthy icc send now rdr ep s =
    Some (?r, count_result ?r (ep_type ep) (if ?r \<noteq> 0 then ?s\<lparr>wr_lastemm := now\<rparr> else ?s))"
    using assms(5) s1(1) by (simp add: reader_do_emm_def)
  moreover have "cache_ok md5 rdr (ds @ [d]) (count_result ?r (ep_type ep) (if ?r \<noteq> 0 then ?s\<lparr>wr_lastemm := now\<rparr> else ?s))"
    by (rule cache_ok_core [THEN iffD1, OF _ s1(2)]) simp
  ultimately show ?thesis by blast
qed

lemma feed_ok:
  assumes "\<forall>ep \<in> set eps. digest md5 ep \<noteq> no_digest \<and> (\<exists>r. emm_out healthy icc send rdr ep = Some (r, True))"
    and "card (digest md5 ` set eps) \<le> CS_EMMCACHESIZE"
  shows "\<exists>s. feed md5 healthy icc send now rdr eps fresh_writer = Some s \<and> cache_ok md5 rdr (map (digest md5) eps) s"
  using assms
proof (induction eps rule: rev_induct)
  case Nil
  then show ?case by (simp add: cache_ok_fresh)
next
  case (snoc ep eps)
  have "card (digest md5 ` set eps) \<le> CS_EMMCACHESIZE"
    using snoc.prems(2) card_mono [of "digest md5 ` set (eps @ [ep])" "digest md5 ` set eps"] by (simp add: image_mono subset_insertI)
  then obtain s where s: "feed md5 healthy icc send now rdr eps fresh_writer = Some s" "cache_ok md5 rdr (map (digest md5) eps) s"
    using snoc.IH snoc.prems(1) by auto
  obtain r where r: "emm_out healthy icc send rdr ep = Some (r, True)" using snoc.prems(1) by auto
  have "card (set (map (digest md5) eps @ [digest md5 ep])) \<le> CS_EMMCACHESIZE" using snoc.prems(2) by simp
  then obtain rc s' where "reader_do_emm md5 healthy icc send now rdr ep s = Some (rc, s')"
    "cache_ok md5 rdr (map (digest md5) eps @ [digest md5 ep]) s'"
    using reader_do_emm_step [OF s(2) refl _ _ r] snoc.prems(1) by fastforce
  then show ?case using s(1) by (simp add: feed_snoc)
qed

text \<open>C13. A reader writes an EMM as often as it is configured to: of any sequence of packets with at most 64 different
  digests, in any order, each EMM is written at its first appearance and again until it was written \<open>rewritemm\<close> times when the
  reader caches, and every time when it does not. The digest of no packet is the sixteen zero bytes of an empty slot.\<close>

theorem emm_rewrites:
  assumes "\<forall>ep \<in> set eps. digest md5 ep \<noteq> no_digest \<and> (\<exists>r. emm_out healthy icc send rdr ep = Some (r, True))"
    and "card (digest md5 ` set eps) \<le> CS_EMMCACHESIZE"
  shows "\<exists>s. feed md5 healthy icc send now rdr eps fresh_writer = Some s \<and>
    (\<forall>d. length (filter (\<lambda>(p, rc). digest md5 p = d) (wr_done s)) =
      (let n = count_list (map (digest md5) eps) d in if rr_cachemm rdr then min n (max 1 (nat (rr_rewritemm rdr))) else n))"
  using feed_ok [OF assms, of now] by (auto simp: cache_ok_def written_def writes_def Let_def)

text \<open>The last three bytes of a section are not hashed, so an EMM that differs from an earlier one there alone is skipped.\<close>

lemma emm_tail_not_hashed:
  assumes "ep_emm e1 ! 2 = ep_emm e2 ! 2" "take (unat (ep_emm e1 ! 2)) (ep_emm e1) = take (unat (ep_emm e1 ! 2)) (ep_emm e2)"
    and "digest md5 e1 \<noteq> no_digest" "emm_out healthy icc send rdr e1 = Some (r, True)" "rr_cachemm rdr" "rr_rewritemm rdr \<le> 1"
    and "feed md5 healthy icc send now rdr [e1] fresh_writer = Some s"
  shows "\<exists>s'. reader_do_emm md5 healthy icc send now rdr e2 s = Some (2, s') \<and> wr_done s' = wr_done s"
proof -
  have c: "cache_ok md5 rdr [digest md5 e1] s"
    using feed_ok [of "[e1]" md5 healthy icc send rdr now] assms(3,4,7) by (simp add: CS_EMMCACHESIZE_def)
  have d: "digest md5 e2 = digest md5 e1" using assms(1,2) by (simp add: digest_def)
  obtain s1 where "cache_lookup md5 rdr e2 s = (2, s1)" "wr_done s1 = wr_done s"
  proof -
    obtain s1 where "cache_lookup md5 rdr e2 s = (if rr_cachemm rdr \<and> rr_rewritemm rdr \<le> int (count_list [digest md5 e1] (digest md5 e2)) then 2 else 1, s1)"
      using cache_seen [OF c refl, of e2] d by auto
    moreover from this have "wr_done s1 = wr_done s" by (auto simp: cache_lookup_def Let_def split: option.splits)
    ultimately show ?thesis using that d assms(5,6) by simp
  qed
  then show ?thesis by (simp add: reader_do_emm_def count_result_def)
qed

section \<open>Examples\<close>

definition route_reader_ex :: route_reader where
  "route_reader_ex = emm_reader.extend emm_reader_ex
     \<lparr>rr_enable = True, rr_csystem = None, rr_send_emm = True, rr_s_nano = 0, rr_b_nano = 0, rr_blockemm = 2,
      rr_blockemmbylen = replicate 10 0, rr_cachemm = True, rr_rewritemm = 2, rr_emmblocked = [0, 0, 0, 0]\<rparr>"

definition route_world_ex :: route_world where
  "route_world_ex = \<lparr>rw_readers = [route_reader_ex, route_reader_ex\<lparr>rr_blockemm := 4\<rparr>], rw_client = \<lparr>emmok = 0, emmnok = 0\<rparr>, rw_account = None,
     rw_server = \<lparr>emmok = 0, emmnok = 0\<rparr>, rw_last = 0, rw_lastemm = 0, rw_saved = [], rw_pipe = []\<rparr>"


definition md5_ex :: "u8 list \<Rightarrow> u8 list" where
  "md5_ex bs = take 16 (bs @ replicate 16 0)"

theorem emm_rewrites_witness:
  "\<exists>s. feed md5_ex True None (\<lambda>p. 1) 5 route_reader_ex
      [packet_ex [0x82, 0x70, 9], packet_ex [0x83, 0x70, 9], packet_ex [0x82, 0x70, 9], packet_ex [0x82, 0x70, 9]] fresh_writer = Some s \<and>
    length (filter (\<lambda>(p, rc). digest md5_ex p = digest md5_ex (packet_ex [0x82, 0x70, 9])) (wr_done s)) = 2"
proof -
  let ?es = "[packet_ex [0x82, 0x70, 9], packet_ex [0x83, 0x70, 9], packet_ex [0x82, 0x70, 9], packet_ex [0x82, 0x70, 9]]"
  have o: "emm_out True None (\<lambda>p. 1) route_reader_ex ep = Some (1, True)" for ep
  proof -
    have "rdr_typ route_reader_ex AND R_IS_CASCADING \<noteq> 0" "rr_send_emm route_reader_ex" by code_simp+
    then show ?thesis by (simp add: emm_out_def)
  qed
  have d: "list_all (\<lambda>ep. digest md5_ex ep \<noteq> no_digest) ?es" by code_simp
  have c: "card (digest md5_ex ` set ?es) \<le> CS_EMMCACHESIZE"
    using card_image_le [of "set ?es" "digest md5_ex"] card_length [of ?es] by (simp add: CS_EMMCACHESIZE_def)
  have n: "count_list (map (digest md5_ex) ?es) (digest md5_ex (packet_ex [0x82, 0x70, 9])) = 3" by code_simp
  have r: "rr_cachemm route_reader_ex" "rr_rewritemm route_reader_ex = 2" by code_simp+
  have "\<forall>ep \<in> set ?es. digest md5_ex ep \<noteq> no_digest \<and> (\<exists>r. emm_out True None (\<lambda>p. 1) route_reader_ex ep = Some (r, True))"
    using d o by simp
  from emm_rewrites [OF this c, of 5] show ?thesis using n r by (auto simp: Let_def)
qed

end
