(* ===== verification/Reader.thy ===== *)
theory Reader
  imports Answer
begin

text \<open>
  The reader thread of \<open>oscam-reader.c\<close>: the table of requests that a network reader has sent on
  (\<open>casc_process_ecm\<close>, \<open>casc_check_dcw\<close>, \<open>casc_do_sock\<close>, \<open>casc_get_dcw\<close>), the loss of a connection, the
  limit of services of a local card and the delay between attempts to connect. The functions of the
  protocol (\<open>c_send_ecm\<close>, \<open>c_recv_chk\<close>, \<open>c_idle\<close>, \<open>c_init\<close>) and the card are parameters. \<open>None\<close> is an access
  outside an array or through a dangling pointer, or the end of the thread in \<open>cs_exit\<close>.
\<close>

section \<open>State\<close>

text \<open>A slot of the table: the request, its index on the wire and the client that waits for it.\<close>

record casc_task =
  ct_er :: lb_request
  ct_idx :: int
  ct_client :: "nat option"

record casc =
  ca_tasks :: "casc_task list"
  ca_idx :: u16
  ca_last_idx :: int
  ca_pending :: int
  ca_last_s :: int
  ca_last_g :: int
  ca_ncd_msgid :: u16
  ca_connected :: bool
  ca_sent :: "casc_task list"

text \<open>What is fixed for one reader.\<close>

record casc_env =
  ce_rid :: nat
  ce_newcamd :: bool
  ce_tcp :: bool
  ce_radegast :: bool
  ce_multi :: bool
  ce_rto :: int
  ce_srtimeout :: int
  ce_send :: "casc_task \<Rightarrow> u16 \<Rightarrow> int \<times> u16"
  ce_idle :: "(casc \<Rightarrow> casc) option"
  ce_init :: "casc \<Rightarrow> casc option"

section \<open>Answers from the network\<close>

text \<open>\<open>t - tps.time > ((ctimeout + 500) / 1000) + 1\<close>.\<close>

definition timed_out :: "gc_config \<Rightarrow> timeb \<Rightarrow> lb_request \<Rightarrow> bool" where
  "timed_out cfg t er \<longleftrightarrow> tb_time t - tb_time (tps er) > uint ((ctimeout (gc_lb cfg) + 500) div 1000 + 1)"

definition same_ecm :: "lb_request \<Rightarrow> lb_request \<Rightarrow> bool" where
  "same_ecm a b \<longleftrightarrow> er_caid a = er_caid b \<and> er_ecmd5 a = er_ecmd5 b"

text \<open>The answer to slot \<open>i\<close>, if it waits for the ECM of slot \<open>k\<close>.\<close>

definition answer_slot ::
  "(nat \<Rightarrow> bool) \<Rightarrow> timeb \<Rightarrow> nat \<Rightarrow> nat \<Rightarrow> int \<Rightarrow> u8 list \<Rightarrow> nat \<Rightarrow> casc_task list \<Rightarrow> an_world \<Rightarrow> (casc_task list \<times> an_world) option" where
  "answer_slot pipe t rid k rc cw i ts w = do {
     e \<leftarrow> fetch ts i;
     x \<leftarrow> fetch ts k;
     (if 10 \<le> er_rc (ct_er e) \<and> same_ecm (ct_er e) (ct_er x) then do {
        (w', er) \<leftarrow> write_ecm_answer pipe t rid (ct_client e) w
          (if rc \<noteq> 0 then (ct_er e)\<lparr>er_rc := if i = k then 1 else 2, er_cw := cw\<rparr> else (ct_er e)\<lparr>er_rc := 0\<rparr>);
        Some (ts[i := e\<lparr>ct_er := er, ct_idx := 0\<rparr>], w') }
      else Some (ts, w)) }"

text \<open>A request that waits too long is dropped.\<close>

definition drop_slot ::
  "gc_config \<Rightarrow> bool \<Rightarrow> timeb \<Rightarrow> nat \<Rightarrow> nat \<Rightarrow> casc_task list \<Rightarrow> an_world \<Rightarrow> (casc_task list \<times> an_world) option" where
  "drop_slot cfg mem t rid i ts w = do {
     e \<leftarrow> fetch ts i;
     (if 10 \<le> er_rc (ct_er e) \<and> timed_out cfg t (ct_er e) then do {
        let er = (ct_er e)\<lparr>er_rc := 0\<rparr>;
        lbw \<leftarrow> send_reader_stat (gc_lb cfg) mem t (Some rid) er E_TIMEOUT (gw_lb w);
        Some (ts[i := e\<lparr>ct_er := er\<rparr>], w\<lparr>gw_lb := lbw\<rparr>) }
      else Some (ts, w)) }"

definition check_slot ::
  "gc_config \<Rightarrow> bool \<Rightarrow> (nat \<Rightarrow> bool) \<Rightarrow> timeb \<Rightarrow> nat \<Rightarrow> nat \<Rightarrow> int \<Rightarrow> u8 list \<Rightarrow> nat \<Rightarrow> casc_task list \<Rightarrow> an_world \<Rightarrow>
   (casc_task list \<times> an_world) option" where
  "check_slot cfg mem pipe t rid k rc cw i ts w = do {
     (ts1, w1) \<leftarrow> answer_slot pipe t rid k rc cw i ts w;
     drop_slot cfg mem t rid i ts1 w1 }"

fun check_loop ::
  "gc_config \<Rightarrow> bool \<Rightarrow> (nat \<Rightarrow> bool) \<Rightarrow> timeb \<Rightarrow> nat \<Rightarrow> nat \<Rightarrow> int \<Rightarrow> u8 list \<Rightarrow> nat list \<Rightarrow> casc_task list \<Rightarrow> an_world \<Rightarrow>
   (casc_task list \<times> an_world) option" where
  "check_loop cfg mem pipe t rid k rc cw [] ts w = Some (ts, w)"
| "check_loop cfg mem pipe t rid k rc cw (i # is) ts w = do {
     (ts1, w1) \<leftarrow> check_slot cfg mem pipe t rid k rc cw i ts w;
     check_loop cfg mem pipe t rid k rc cw is ts1 w1 }"

definition open_count :: "casc_task list \<Rightarrow> nat" where
  "open_count ts = length (filter (\<lambda>e. 10 \<le> er_rc (ct_er e)) ts)"

definition casc_check_dcw ::
  "gc_config \<Rightarrow> bool \<Rightarrow> (nat \<Rightarrow> bool) \<Rightarrow> timeb \<Rightarrow> nat \<Rightarrow> nat \<Rightarrow> int \<Rightarrow> u8 list \<Rightarrow> casc \<Rightarrow> an_world \<Rightarrow> (casc \<times> an_world) option" where
  "casc_check_dcw cfg mem pipe t rid k rc cw c w = do {
     (ts, w') \<leftarrow> check_loop cfg mem pipe t rid k rc cw [0..<length (ca_tasks c)] (ca_tasks c) w;
     Some (c\<lparr>ca_tasks := ts, ca_pending := int (open_count ts)\<rparr>, w') }"

section \<open>The connection\<close>

text \<open>A reader's connection is closed and opened again; every open request is forgotten.\<close>

definition network_tcp_connection_close :: "casc_env \<Rightarrow> casc \<Rightarrow> casc option" where
  "network_tcp_connection_close env c =
     ce_init env (c\<lparr>ca_connected := False,
       ca_tasks := map (\<lambda>e. e\<lparr>ct_idx := 0, ct_er := (ct_er e)\<lparr>er_rc := 0\<rparr>\<rparr>) (ca_tasks c),
       ca_ncd_msgid := 0, ca_last_s := 0, ca_last_g := 0\<rparr>)"

definition idle_or_close :: "casc_env \<Rightarrow> casc \<Rightarrow> casc option" where
  "idle_or_close env c = (case ce_idle env of Some f \<Rightarrow> Some (f c) | None \<Rightarrow> network_tcp_connection_close env c)"

text \<open>One reading of the socket: the number of bytes and what \<open>c_recv_chk\<close> makes of them.\<close>

record sock =
  sk_n :: int
  sk_idx :: int
  sk_rc :: int
  sk_dcw :: "u8 list"

definition casc_do_sock ::
  "casc_env \<Rightarrow> gc_config \<Rightarrow> bool \<Rightarrow> (nat \<Rightarrow> bool) \<Rightarrow> timeb \<Rightarrow> sock \<Rightarrow> casc \<Rightarrow> an_world \<Rightarrow> (casc \<times> an_world) option" where
  "casc_do_sock env cfg mem pipe t ev c w =
     (if sk_n ev \<le> 0 \<and> ce_tcp env \<and> \<not> ce_radegast env then map_option (\<lambda>c'. (c', w)) (idle_or_close env c)
      else if sk_idx ev < 0 then Some (c, w)
      else
        (let c1 = c\<lparr>ca_last_g := tb_time t\<rparr>; wire = (if sk_idx ev = 0 then ca_last_idx c else sk_idx ev) in
         case find (\<lambda>i. ct_idx (ca_tasks c ! i) = wire) [0..<length (ca_tasks c)] of
           None \<Rightarrow> Some (c1, w)
         | Some i \<Rightarrow> casc_check_dcw cfg mem pipe t (ce_rid env) i (sk_rc ev) (sk_dcw ev) (c1\<lparr>ca_pending := ca_pending c - 1\<rparr>) w))"

text \<open>The loop that waits for the answer to slot \<open>n\<close>: each round reads the clock after the socket. \<open>Inr\<close> is the end of
  the loop, \<open>Inl\<close> a loop that goes on after the readings given.\<close>

definition wait_left :: "casc_env \<Rightarrow> timeb \<Rightarrow> timeb \<Rightarrow> int" where
  "wait_left env start t =
     s32 (1000 * (tb_time start + ce_srtimeout env div 1000 - tb_time t) + tb_millitm start + ce_srtimeout env mod 1000 - tb_millitm t)"

fun wait_loop ::
  "casc_env \<Rightarrow> gc_config \<Rightarrow> bool \<Rightarrow> (nat \<Rightarrow> bool) \<Rightarrow> nat \<Rightarrow> timeb \<Rightarrow> timeb \<Rightarrow> (timeb \<times> sock) list \<Rightarrow> casc \<Rightarrow> an_world \<Rightarrow>
   (unit + timeb \<times> casc \<times> an_world) option" where
  "wait_loop env cfg mem pipe n start t evs c w = do {
     e \<leftarrow> fetch (ca_tasks c) n;
     (if 0 < wait_left env start t \<and> 10 \<le> er_rc (ct_er e) then
        (case evs of
           [] \<Rightarrow> Some (Inl ())
         | (t', ev) # evs' \<Rightarrow> do {
             (c', w') \<leftarrow> casc_do_sock env cfg mem pipe t ev c w;
             wait_loop env cfg mem pipe n start t' evs' c' w' })
      else Some (Inr (t, c, w))) }"

declare wait_loop.simps [simp del]

definition casc_get_dcw ::
  "casc_env \<Rightarrow> gc_config \<Rightarrow> bool \<Rightarrow> (nat \<Rightarrow> bool) \<Rightarrow> nat \<Rightarrow> timeb \<Rightarrow> (timeb \<times> sock) list \<Rightarrow> casc \<Rightarrow> an_world \<Rightarrow>
   (unit + casc \<times> an_world) option" where
  "casc_get_dcw env cfg mem pipe n t evs c w = do {
     e0 \<leftarrow> fetch (ca_tasks c) n;
     r \<leftarrow> wait_loop env cfg mem pipe n (tps (ct_er e0)) t evs c w;
     (case r of
        Inl u \<Rightarrow> Some (Inl u)
      | Inr (t', c', w') \<Rightarrow> do {
          e \<leftarrow> fetch (ca_tasks c') n;
          (if 10 \<le> er_rc (ct_er e)
           then map_option Inr (casc_check_dcw cfg mem pipe t' (ce_rid env) n 0 (er_cw (ct_er e)) c' w')
           else Some (Inr (c', w'))) }) }"

section \<open>A request for the network\<close>

text \<open>The pass over the table: dropped timeouts, the first free slot, and whether the same ECM is open already
  at this level.\<close>

fun scan_slots ::
  "gc_config \<Rightarrow> bool \<Rightarrow> timeb \<Rightarrow> nat \<Rightarrow> lb_request \<Rightarrow> nat list \<Rightarrow> casc_task list \<times> nat option \<times> bool \<Rightarrow> an_world \<Rightarrow>
   ((casc_task list \<times> nat option \<times> bool) \<times> an_world) option" where
  "scan_slots cfg mem t rid er [] st w = Some (st, w)"
| "scan_slots cfg mem t rid er (i # is) (ts, n, sflag) w = do {
     (ts1, w1) \<leftarrow> drop_slot cfg mem t rid i ts w;
     e \<leftarrow> fetch ts1 i;
     scan_slots cfg mem t rid er is
       (ts1,
        if n = None \<and> er_rc (ct_er e) < 10 then Some i else n,
        sflag \<and> \<not> (10 \<le> er_rc (ct_er e) \<and> same_ecm er (ct_er e) \<and> level er \<le> level (ct_er e))) w1 }"

text \<open>The index on the wire and the next one of the client; both have 16 bits.\<close>

definition wire_index :: "casc_env \<Rightarrow> casc \<Rightarrow> int \<times> u16" where
  "wire_index env c =
     (if ce_newcamd env then (if ca_ncd_msgid c = 0 then 2 else uint (ca_ncd_msgid c + 1), ca_idx c)
      else (let i = (if ca_idx c = 0 then 1 else ca_idx c) in (uint i, i + 1)))"

text \<open>The reconnect when the server has been silent for too long.\<close>

definition check_rto :: "casc_env \<Rightarrow> casc \<Rightarrow> casc option" where
  "check_rto env c =
     (if ce_tcp env \<and> ce_rto env \<noteq> 0 \<and> ce_rto env * 60 \<le> \<bar>s32 (ca_last_s c - ca_last_g c)\<bar> then idle_or_close env c else Some c)"

definition send_ecm ::
  "casc_env \<Rightarrow> gc_config \<Rightarrow> bool \<Rightarrow> (nat \<Rightarrow> bool) \<Rightarrow> timeb \<Rightarrow> nat \<Rightarrow> casc \<Rightarrow> an_world \<Rightarrow> (int \<times> casc \<times> an_world) option" where
  "send_ecm env cfg mem pipe t n c w = do {
     e \<leftarrow> fetch (ca_tasks c) n;
     let (rc, msgid) = ce_send env e (ca_ncd_msgid c);
     let c1 = c\<lparr>ca_ncd_msgid := msgid, ca_sent := ca_sent c @ [e]\<rparr>;
     (c2, w2) \<leftarrow> (if rc \<noteq> 0 then casc_check_dcw cfg mem pipe t (ce_rid env) n 0 (er_cw (ct_er e)) c1 w
                 else Some (c1\<lparr>ca_last_idx := ct_idx e\<rparr>, w));
     Some (rc, c2\<lparr>ca_last_s := tb_time t\<rparr>, w2) }"

definition wrap_idx :: "casc \<Rightarrow> casc" where
  "wrap_idx c = (if 0x1ffe < ca_idx c then c\<lparr>ca_idx := 1\<rparr> else c)"

definition casc_process_ecm ::
  "casc_env \<Rightarrow> gc_config \<Rightarrow> bool \<Rightarrow> (nat \<Rightarrow> bool) \<Rightarrow> timeb \<Rightarrow> (timeb \<times> sock) list \<Rightarrow> lb_request \<Rightarrow> nat option \<Rightarrow> casc \<Rightarrow> an_world \<Rightarrow>
   (unit + int \<times> casc \<times> an_world) option" where
  "casc_process_ecm env cfg mem pipe t evs er client c w = do {
     ((ts, slot, sflag), w1) \<leftarrow> scan_slots cfg mem t (ce_rid env) er [0..<length (ca_tasks c)] (ca_tasks c, None, True) w;
     let c1 = c\<lparr>ca_tasks := ts, ca_pending := int (open_count ts)\<rparr>;
     (case slot of
        None \<Rightarrow> Some (Inr (-2, c1, w1))
      | Some n \<Rightarrow> do {
          let (i, next) = wire_index env c1;
          let e = \<lparr>ct_er = er\<lparr>matching_rdr := [], er_rc := 10\<rparr>, ct_idx = i, ct_client = client\<rparr>;
          c2 \<leftarrow> check_rto env (c1\<lparr>ca_tasks := ts[n := e], ca_idx := next\<rparr>);
          (if sflag then do {
             (rc, c3, w3) \<leftarrow> send_ecm env cfg mem pipe t n c2 w1;
             (if ce_multi env then Some (Inr (rc, wrap_idx c3, w3))
              else do {
                r \<leftarrow> casc_get_dcw env cfg mem pipe n t evs c3 w3;
                Some (case r of Inl u \<Rightarrow> Inl u | Inr (c4, w4) \<Rightarrow> Inr (rc, wrap_idx c4, w4)) }) }
           else Some (Inr (0, wrap_idx c2, w1))) }) }"

section \<open>The limit of services of a card\<close>

text \<open>The first \<open>ratelimitecm\<close> entries of \<open>rlecmh\<close>.\<close>

record rl_slot =
  rl_srvid :: u16
  rl_last :: int

definition rl_space :: "int \<Rightarrow> int \<Rightarrow> u16 \<Rightarrow> rl_slot list \<Rightarrow> nat option" where
  "rl_space secs tm srvid rl =
     (case find (\<lambda>h. rl_srvid (rl ! h) = srvid) [0..<length rl] of
        Some h \<Rightarrow> Some h
      | None \<Rightarrow> find (\<lambda>h. rl_last (rl ! h) = -1 \<or> secs < tm - rl_last (rl ! h)) [0..<length rl])"

definition rl_admit :: "int \<Rightarrow> int \<Rightarrow> u16 \<Rightarrow> rl_slot list \<Rightarrow> bool \<times> rl_slot list" where
  "rl_admit secs tm srvid rl =
     (case rl_space secs tm srvid rl of
        None \<Rightarrow> (False, rl)
      | Some h \<Rightarrow> (True, rl[h := \<lparr>rl_srvid = srvid, rl_last = tm\<rparr>]))"

section \<open>A request for a reader\<close>

text \<open>\<open>rci\<close> is the client of the reader itself, \<open>client\<close> the one that waits; \<open>icc\<close> is \<open>reader_ecm\<close>, the request
  with the answer of the card.\<close>

record reader_state =
  rs_casc :: casc
  rs_rl :: "rl_slot list"

definition E_STOPPED :: int where "E_STOPPED = 13"
definition E2_CAID :: u8 where "E2_CAID = 2"

definition local_ecm ::
  "(lb_request \<Rightarrow> lb_request) \<Rightarrow> int \<Rightarrow> (nat \<Rightarrow> bool) \<Rightarrow> timeb \<Rightarrow> nat \<Rightarrow> lb_request \<Rightarrow> nat option \<Rightarrow> reader_state \<Rightarrow> an_world \<Rightarrow>
   (reader_state \<times> an_world) option" where
  "local_ecm icc secs pipe t rid er client s w =
     (let (ok, rl) = (if rs_rl s = [] then (True, []) else rl_admit secs (tb_time t) (er_srvid er) (rs_rl s)) in
      if ok then map_option (\<lambda>(w', er'). (s\<lparr>rs_rl := rl\<rparr>, w')) (write_ecm_answer pipe t rid client w (icc er))
      else map_option (\<lambda>(w', er'). (s, w'))
             (write_ecm_answer pipe t rid client w (er\<lparr>er_rcEx := 32, er_rc := E_RDR_NOTFOUND, er_cw := replicate 16 0\<rparr>)))"

definition reader_get_ecm ::
  "casc_env \<Rightarrow> gc_config \<Rightarrow> bool \<Rightarrow> (nat \<Rightarrow> bool) \<Rightarrow> (lb_request \<Rightarrow> lb_request) \<Rightarrow> int \<Rightarrow> cmaptab \<Rightarrow> bool \<Rightarrow> timeb \<Rightarrow> (timeb \<times> sock) list \<Rightarrow>
   nat \<Rightarrow> lb_request \<Rightarrow> nat option \<Rightarrow> reader_state \<Rightarrow> an_world \<Rightarrow> (unit + reader_state \<times> an_world) option" where
  "reader_get_ecm env cfg mem pipe icc secs ctab cascading t evs rci er0 client s w =
     (if er_rc er0 \<le> E_STOPPED then map_option (\<lambda>(w', er'). Inr (s, w')) (send_dcw cfg mem t rci er0 w)
      else do {
        rdr \<leftarrow> fetch (readers (gw_lb w)) (ce_rid env);
        let er1 = er0\<lparr>er_ocaid := er_caid er0\<rparr>;
        let (ok, er2) = chk_bcaid er1 ctab;
        (if \<not> ok then
           map_option (\<lambda>(w', er'). Inr (s, w'))
             (write_ecm_answer pipe t (ce_rid env) client w (er2\<lparr>er_rcEx := E2_CAID, er_rc := E_RDR_NOTFOUND\<rparr>))
         else do {
           let (cache, er3, hit) = check_cwcache2 (ctimeout (gc_lb cfg)) (tb_time t) (rdr_grp rdr) (gw_cache w) er2;
           let w1 = w\<lparr>gw_cache := cache\<rparr>;
           (if hit then map_option (\<lambda>(w', er'). Inr (s, w')) (write_ecm_answer pipe t (ce_rid env) client w1 (er3\<lparr>er_rc := E_CACHE2\<rparr>))
            else if cascading then do {
              r \<leftarrow> casc_process_ecm env cfg mem pipe t evs er3 client (rs_casc s) w1;
              Some (case r of Inl u \<Rightarrow> Inl u | Inr (rc, c, w') \<Rightarrow> Inr (s\<lparr>rs_casc := c\<rparr>, w')) }
            else map_option Inr (local_ecm icc secs pipe t (ce_rid env) er3 client s w1)) }) })"

section \<open>Attempts to connect\<close>

record conn =
  tcp_block_delay :: int
  tcp_block_connect_till :: timeb

definition clear_block_delay :: "timeb \<Rightarrow> conn \<Rightarrow> conn" where
  "clear_block_delay t c = c\<lparr>tcp_block_delay := 0, tcp_block_connect_till := t\<rparr>"

definition block_connect :: "conn \<Rightarrow> conn" where
  "block_connect c =
     (let d = (if tcp_block_delay c = 0 then 100 else tcp_block_delay c); till = tcp_block_connect_till c in
      \<lparr>tcp_block_delay = (if 60 * 1000 \<le> d * 4 then 60 * 1000 else d * 4),
       tcp_block_connect_till = \<lparr>tb_time = tb_time till + d div 1000, tb_millitm = tb_millitm till + d mod 1000\<rparr>\<rparr>)"

definition is_connect_blocked :: "timeb \<Rightarrow> conn \<Rightarrow> bool" where
  "is_connect_blocked t c \<longleftrightarrow> tcp_block_delay c \<noteq> 0 \<and> comp_timeb t (tcp_block_connect_till c) < 0"

text \<open>\<open>resolved\<close> is the address found, \<open>up\<close> whether \<open>connect\<close> succeeds.\<close>

definition network_tcp_connection_open :: "nat option \<Rightarrow> nat \<Rightarrow> bool \<Rightarrow> timeb \<Rightarrow> timeb \<Rightarrow> conn \<Rightarrow> bool \<times> conn" where
  "network_tcp_connection_open resolved last_ip up t t' c =
     (case resolved of
        None \<Rightarrow> (False, c)
      | Some ip \<Rightarrow>
          (let c1 = (if last_ip \<noteq> ip then clear_block_delay t c else c) in
           if is_connect_blocked t c1 then (False, c1)
           else if up then (True, clear_block_delay t' c1)
           else (False, block_connect c1)))"

section \<open>Who is answered\<close>

lemma write_answer_facts:
  assumes "write_ecm_answer pipe t rid ci w er = Some (w', er')"
  shows "er_rc er' = er_rc er \<or> er_rc er' = 0" "er_caid er' = er_ocaid er" "er_ocaid er' = er_ocaid er" "er_ecmd5 er' = er_ecmd5 er"
    "gw_lb w' = gw_lb w" "an_pipes w' = an_pipes w @ (case ci of Some c \<Rightarrow> if pipe c then [(c, er')] else [] | None \<Rightarrow> [])"
proof -
  let ?r = "cw_check (rdr_dropbadcws (readers (gw_lb w) ! rid)) (er_cw er) [0, 4, 8, 12]"
  have "(er_rc er' = er_rc er \<or> er_rc er' = 0) \<and> er_caid er' = er_ocaid er \<and> er_ocaid er' = er_ocaid er \<and> er_ecmd5 er' = er_ecmd5 er \<and>
    gw_lb w' = gw_lb w \<and> an_pipes w' = an_pipes w @ (case ci of Some c \<Rightarrow> if pipe c then [(c, er')] else [] | None \<Rightarrow> [])"
    using assms unfolding write_ecm_answer_def Let_def
    by (cases "fst ?r"; cases ci) (auto simp del: cw_check.simps simp: buf_simps E_RDR_NOTFOUND_def split: bind_splits)
  then show "er_rc er' = er_rc er \<or> er_rc er' = 0" "er_caid er' = er_ocaid er" "er_ocaid er' = er_ocaid er" "er_ecmd5 er' = er_ecmd5 er"
    "gw_lb w' = gw_lb w" "an_pipes w' = an_pipes w @ (case ci of Some c \<Rightarrow> if pipe c then [(c, er')] else [] | None \<Rightarrow> [])" by blast+
qed

text \<open>The slot waits for the ECM.\<close>

definition waits :: "lb_request \<Rightarrow> casc_task \<Rightarrow> bool" where
  "waits x e \<longleftrightarrow> 10 \<le> er_rc (ct_er e) \<and> same_ecm (ct_er e) x"

definition recipients :: "(nat \<Rightarrow> bool) \<Rightarrow> lb_request \<Rightarrow> casc_task \<Rightarrow> nat list" where
  "recipients pipe x e = (if waits x e then (case ct_client e of Some c \<Rightarrow> if pipe c then [c] else [] | None \<Rightarrow> []) else [])"

definition slot_after :: "gc_config \<Rightarrow> timeb \<Rightarrow> lb_request \<Rightarrow> casc_task \<Rightarrow> casc_task \<Rightarrow> bool" where
  "slot_after cfg t x e e' \<longleftrightarrow>
     (if waits x e then er_rc (ct_er e') < 10 \<and> ct_idx e' = 0
      else if 10 \<le> er_rc (ct_er e) \<and> timed_out cfg t (ct_er e) then e' = e\<lparr>ct_er := (ct_er e)\<lparr>er_rc := 0\<rparr>\<rparr> else e' = e)"

definition key_ok :: "lb_request \<Rightarrow> lb_request \<Rightarrow> bool" where
  "key_ok x y \<longleftrightarrow> same_ecm y x \<and> er_ocaid y = er_caid y"

lemma same_ecm_key: "key_ok x y \<Longrightarrow> same_ecm e y = same_ecm e x"
  by (auto simp: key_ok_def same_ecm_def)

lemma drop_slot_cases:
  assumes "drop_slot cfg mem t rid i ts w = Some (ts', w')"
  shows "i < length ts \<and> an_pipes w' = an_pipes w \<and>
    ts' = (if 10 \<le> er_rc (ct_er (ts ! i)) \<and> timed_out cfg t (ct_er (ts ! i))
           then ts[i := (ts ! i)\<lparr>ct_er := (ct_er (ts ! i))\<lparr>er_rc := 0\<rparr>\<rparr>] else ts)"
  using assms by (auto simp: drop_slot_def fetch_def Let_def bind_eq_Some_conv split: if_splits)

lemma answer_slot_cases:
  assumes "answer_slot pipe t rid k rc cw i ts w = Some (ts', w')"
  shows "i < length ts \<and> k < length ts \<and>
    (if waits (ct_er (ts ! k)) (ts ! i)
     then \<exists>er. (er_rc er \<in> {0, 1, 2} \<and> (rc = 0 \<longrightarrow> er_rc er = 0)) \<and> er_caid er = er_ocaid (ct_er (ts ! i)) \<and> er_ocaid er = er_ocaid (ct_er (ts ! i)) \<and>
       er_ecmd5 er = er_ecmd5 (ct_er (ts ! i)) \<and> ts' = ts[i := (ts ! i)\<lparr>ct_er := er, ct_idx := 0\<rparr>] \<and>
       an_pipes w' = an_pipes w @ (case ct_client (ts ! i) of Some c \<Rightarrow> if pipe c then [(c, er)] else [] | None \<Rightarrow> [])
     else ts' = ts \<and> w' = w)"
proof (cases "i < length ts \<and> k < length ts \<and> waits (ct_er (ts ! k)) (ts ! i)")
  case False
  then show ?thesis using assms by (auto simp: answer_slot_def fetch_def waits_def bind_eq_Some_conv split: if_splits)
next
  case True
  define r where "r = (if rc \<noteq> 0 then (ct_er (ts ! i))\<lparr>er_rc := if i = k then 1 else 2, er_cw := cw\<rparr> else (ct_er (ts ! i))\<lparr>er_rc := 0\<rparr>)"
  obtain er where er: "write_ecm_answer pipe t rid (ct_client (ts ! i)) w r = Some (w', er)" "ts' = ts[i := (ts ! i)\<lparr>ct_er := er, ct_idx := 0\<rparr>]"
    using assms True by (auto simp: answer_slot_def fetch_def waits_def bind_eq_Some_conv r_def)
  have "er_rc er \<in> {0, 1, 2} \<and> (rc = 0 \<longrightarrow> er_rc er = 0)" using write_answer_facts(1) [OF er(1)] by (auto simp: r_def split: if_splits)
  moreover have "er_ocaid r = er_ocaid (ct_er (ts ! i))" "er_ecmd5 r = er_ecmd5 (ct_er (ts ! i))" by (simp_all add: r_def)
  ultimately show ?thesis using True write_answer_facts [OF er(1)] er(2) by auto
qed

lemma check_slot_step:
  assumes "check_slot cfg mem pipe t rid k rc cw i ts w = Some (ts', w')" "key_ok x (ct_er (ts ! k))"
  shows "i < length ts \<and> k < length ts \<and> length ts' = length ts \<and> (\<forall>j. j \<noteq> i \<longrightarrow> ts' ! j = ts ! j) \<and> slot_after cfg t x (ts ! i) (ts' ! i) \<and>
    key_ok x (ct_er (ts' ! k)) \<and>
    (\<exists>ms. an_pipes w' = an_pipes w @ ms \<and> map fst ms = recipients pipe x (ts ! i) \<and>
      (\<forall>m \<in> set ms. er_rc (snd m) \<in> {0, 1, 2} \<and> (rc = 0 \<longrightarrow> er_rc (snd m) = 0)))"
proof -
  obtain ts1 w1 where a: "answer_slot pipe t rid k rc cw i ts w = Some (ts1, w1)" and d: "drop_slot cfg mem t rid i ts1 w1 = Some (ts', w')"
    using assms(1) by (auto simp: check_slot_def bind_eq_Some_conv)
  note A = answer_slot_cases [OF a] and D = drop_slot_cases [OF d]
  have ik: "i < length ts" "k < length ts" using A by blast+
  have wx: "waits (ct_er (ts ! k)) (ts ! i) = waits x (ts ! i)" using same_ecm_key [OF assms(2)] by (simp add: waits_def)
  show ?thesis
  proof (cases "waits x (ts ! i)")
    case False
    then have "ts1 = ts" "w1 = w" using A wx by simp_all
    moreover have "key_ok x (ct_er (ts' ! k))" using D \<open>ts1 = ts\<close> assms(2) ik
      by (cases "i = k") (auto simp: key_ok_def same_ecm_def split: if_splits)
    ultimately show ?thesis using D ik False by (auto simp: slot_after_def recipients_def)
  next
    case True
    then obtain er where er: "er_rc er \<in> {0, 1, 2}" "rc = 0 \<longrightarrow> er_rc er = 0" "er_caid er = er_ocaid (ct_er (ts ! i))"
      "er_ocaid er = er_ocaid (ct_er (ts ! i))" "er_ecmd5 er = er_ecmd5 (ct_er (ts ! i))" "ts1 = ts[i := (ts ! i)\<lparr>ct_er := er, ct_idx := 0\<rparr>]"
      "an_pipes w1 = an_pipes w @ (case ct_client (ts ! i) of Some c \<Rightarrow> if pipe c then [(c, er)] else [] | None \<Rightarrow> [])"
      using A wx by auto
    have n: "ts1 ! i = (ts ! i)\<lparr>ct_er := er, ct_idx := 0\<rparr>" using er(6) ik by simp
    have "\<not> 10 \<le> er_rc (ct_er (ts1 ! i))" using er(1) n by auto
    then have t': "ts' = ts1" "an_pipes w' = an_pipes w1" using D by auto
    have "key_ok x (ct_er (ts1 ! k))"
      using assms(2) er(3-5) n ik er(6) by (cases "i = k") (auto simp: key_ok_def same_ecm_def)
    then show ?thesis using ik n t' er(1,2,6,7) True by (auto simp: slot_after_def recipients_def split: option.splits)
  qed
qed

lemma check_loop_spec:
  assumes "check_loop cfg mem pipe t rid k rc cw is ts w = Some (ts', w')" "key_ok x (ct_er (ts ! k))" "distinct is"
  shows "length ts' = length ts \<and> (\<forall>j. j \<notin> set is \<longrightarrow> ts' ! j = ts ! j) \<and> (\<forall>i \<in> set is. slot_after cfg t x (ts ! i) (ts' ! i)) \<and>
    (\<exists>ms. an_pipes w' = an_pipes w @ ms \<and> map fst ms = concat (map (\<lambda>i. recipients pipe x (ts ! i)) is) \<and>
      (\<forall>m \<in> set ms. er_rc (snd m) \<in> {0, 1, 2} \<and> (rc = 0 \<longrightarrow> er_rc (snd m) = 0)))"
  using assms
proof (induction "is" arbitrary: ts w)
  case Nil
  then show ?case by simp
next
  case (Cons i rest)
  obtain ts1 w1 where 1: "check_slot cfg mem pipe t rid k rc cw i ts w = Some (ts1, w1)"
    "check_loop cfg mem pipe t rid k rc cw rest ts1 w1 = Some (ts', w')" using Cons.prems(1) by (auto simp: bind_eq_Some_conv)
  obtain ms where s: "length ts1 = length ts" "\<forall>j. j \<noteq> i \<longrightarrow> ts1 ! j = ts ! j" "slot_after cfg t x (ts ! i) (ts1 ! i)"
    "key_ok x (ct_er (ts1 ! k))" "an_pipes w1 = an_pipes w @ ms" "map fst ms = recipients pipe x (ts ! i)"
    "\<forall>m \<in> set ms. er_rc (snd m) \<in> {0, 1, 2} \<and> (rc = 0 \<longrightarrow> er_rc (snd m) = 0)"
    using check_slot_step [OF 1(1) Cons.prems(2)] by blast
  have d: "distinct rest" "i \<notin> set rest" using Cons.prems(3) by simp_all
  obtain ms' where s': "length ts' = length ts1" "\<forall>j. j \<notin> set rest \<longrightarrow> ts' ! j = ts1 ! j"
    "\<forall>i \<in> set rest. slot_after cfg t x (ts1 ! i) (ts' ! i)" "an_pipes w' = an_pipes w1 @ ms'"
    "map fst ms' = concat (map (\<lambda>i. recipients pipe x (ts1 ! i)) rest)"
    "\<forall>m \<in> set ms'. er_rc (snd m) \<in> {0, 1, 2} \<and> (rc = 0 \<longrightarrow> er_rc (snd m) = 0)"
    using Cons.IH [OF 1(2) s(4) d(1)] by blast
  have r: "map (\<lambda>j. recipients pipe x (ts1 ! j)) rest = map (\<lambda>j. recipients pipe x (ts ! j)) rest"
    using s(2) d(2) by (intro map_cong refl) metis
  have "\<forall>j \<in> set rest. slot_after cfg t x (ts ! j) (ts' ! j)" using s'(3) s(2) d(2) by metis
  moreover have "slot_after cfg t x (ts ! i) (ts' ! i)" using s'(2) d(2) s(3) by simp
  ultimately show ?case
    using s(1,2,5-7) s'(1,2,4-6) r by (intro conjI exI [of _ "ms @ ms'"]) auto
qed

lemma casc_check_dcw_ok:
  assumes "casc_check_dcw cfg mem pipe t rid k rc cw c w = Some (c', w')"
    and "er_ocaid (ct_er (ca_tasks c ! k)) = er_caid (ct_er (ca_tasks c ! k))" "x = ct_er (ca_tasks c ! k)"
  shows "length (ca_tasks c') = length (ca_tasks c) \<and> (\<forall>i < length (ca_tasks c). slot_after cfg t x (ca_tasks c ! i) (ca_tasks c' ! i)) \<and>
    ca_pending c' = int (open_count (ca_tasks c')) \<and>
    (\<exists>ms. an_pipes w' = an_pipes w @ ms \<and> map fst ms = concat (map (recipients pipe x) (ca_tasks c)) \<and>
      (\<forall>m \<in> set ms. er_rc (snd m) \<in> {0, 1, 2} \<and> (rc = 0 \<longrightarrow> er_rc (snd m) = 0)))"
proof -
  obtain ts where l: "check_loop cfg mem pipe t rid k rc cw [0..<length (ca_tasks c)] (ca_tasks c) w = Some (ts, w')"
    and c': "c' = c\<lparr>ca_tasks := ts, ca_pending := int (open_count ts)\<rparr>"
    using assms(1) by (auto simp: casc_check_dcw_def bind_eq_Some_conv)
  have k: "key_ok x (ct_er (ca_tasks c ! k))" using assms(2,3) by (simp add: key_ok_def same_ecm_def)
  have "map (\<lambda>i. recipients pipe x (ca_tasks c ! i)) [0..<length (ca_tasks c)] = map (recipients pipe x) (ca_tasks c)"
    by (rule nth_equalityI) simp_all
  then show ?thesis using check_loop_spec [OF l k] c' by simp
qed

section \<open>The end of the wait\<close>

lemma check_slot_others:
  assumes "check_slot cfg mem pipe t rid k rc cw i ts w = Some (ts', w')"
  shows "length ts' = length ts \<and> (\<forall>j. j \<noteq> i \<longrightarrow> ts' ! j = ts ! j) \<and> (i = k \<longrightarrow> er_rc (ct_er (ts' ! k)) < 10)"
proof -
  obtain ts1 w1 where a: "answer_slot pipe t rid k rc cw i ts w = Some (ts1, w1)" and d: "drop_slot cfg mem t rid i ts1 w1 = Some (ts', w')"
    using assms by (auto simp: check_slot_def bind_eq_Some_conv)
  note A = answer_slot_cases [OF a] and D = drop_slot_cases [OF d]
  have o: "length ts1 = length ts \<and> (\<forall>j. j \<noteq> i \<longrightarrow> ts1 ! j = ts ! j)" using A by (auto split: if_splits)
  have "er_rc (ct_er (ts1 ! k)) < 10" if "i = k"
  proof (cases "10 \<le> er_rc (ct_er (ts ! k))")
    case True
    then have "waits (ct_er (ts ! k)) (ts ! i)" using that by (simp add: waits_def same_ecm_def)
    then show ?thesis using A that by auto
  next
    case False
    then show ?thesis using A that by (simp add: waits_def)
  qed
  then show ?thesis using o D by (cases "i = k") auto
qed

lemma check_loop_closes:
  assumes "check_loop cfg mem pipe t rid k rc cw is ts w = Some (ts', w')"
  shows "length ts' = length ts \<and> (k \<in> set is \<or> er_rc (ct_er (ts ! k)) < 10 \<longrightarrow> er_rc (ct_er (ts' ! k)) < 10)"
  using assms
proof (induction "is" arbitrary: ts w)
  case Nil
  then show ?case by simp
next
  case (Cons i rest)
  obtain ts1 w1 where 1: "check_slot cfg mem pipe t rid k rc cw i ts w = Some (ts1, w1)"
    "check_loop cfg mem pipe t rid k rc cw rest ts1 w1 = Some (ts', w')" using Cons.prems by (auto simp: bind_eq_Some_conv)
  show ?case using check_slot_others [OF 1(1)] Cons.IH [OF 1(2)] by (cases "i = k") auto
qed

lemma casc_check_dcw_closes:
  assumes "casc_check_dcw cfg mem pipe t rid k rc cw c w = Some (c', w')" "k < length (ca_tasks c)"
  shows "length (ca_tasks c') = length (ca_tasks c) \<and> er_rc (ct_er (ca_tasks c' ! k)) < 10"
proof -
  obtain ts where "check_loop cfg mem pipe t rid k rc cw [0..<length (ca_tasks c)] (ca_tasks c) w = Some (ts, w')"
    and "c' = c\<lparr>ca_tasks := ts, ca_pending := int (open_count ts)\<rparr>"
    using assms(1) by (auto simp: casc_check_dcw_def bind_eq_Some_conv)
  then show ?thesis using check_loop_closes assms(2) by fastforce
qed

lemma wait_loop_open:
  "wait_loop env cfg mem pipe n start t evs c w = Some (Inl u) \<Longrightarrow> 0 < wait_left env start t \<and> (\<forall>e \<in> set evs. 0 < wait_left env start (fst e))"
proof (induction evs arbitrary: t c w)
  case Nil
  then show ?case by (subst (asm) wait_loop.simps) (auto simp: bind_eq_Some_conv split: if_splits)
next
  case (Cons e evs)
  then show ?case by (subst (asm) (2) wait_loop.simps) (auto simp: bind_eq_Some_conv split: if_splits prod.splits)
qed

lemma wait_loop_end:
  "wait_loop env cfg mem pipe n start t evs c w = Some (Inr (t', c', w')) \<Longrightarrow> n < length (ca_tasks c')"
proof (induction evs arbitrary: t c w)
  case Nil
  then show ?case by (subst (asm) wait_loop.simps) (auto simp: bind_eq_Some_conv fetch_def split: if_splits)
next
  case (Cons e evs)
  then show ?case by (subst (asm) (2) wait_loop.simps) (auto simp: bind_eq_Some_conv fetch_def split: if_splits prod.splits)
qed

section \<open>One ECM on the wire\<close>

definition dropped :: "gc_config \<Rightarrow> timeb \<Rightarrow> casc_task \<Rightarrow> casc_task" where
  "dropped cfg t e = (if 10 \<le> er_rc (ct_er e) \<and> timed_out cfg t (ct_er e) then e\<lparr>ct_er := (ct_er e)\<lparr>er_rc := 0\<rparr>\<rparr> else e)"

lemma scan_slots_loop:
  assumes "scan_slots cfg mem t rid er [j..<length ts0] (ts, slot, sflag) w = Some ((ts', slot', sflag'), w')"
    and "length ts = length ts0" "j \<le> length ts0" "\<forall>i < length ts0. ts ! i = (if i < j then dropped cfg t (ts0 ! i) else ts0 ! i)"
  shows "ts' = map (dropped cfg t) ts0 \<and> an_pipes w' = an_pipes w \<and>
    slot' = (case slot of None \<Rightarrow> find (\<lambda>i. er_rc (ct_er (dropped cfg t (ts0 ! i))) < 10) [j..<length ts0] | Some n \<Rightarrow> Some n) \<and>
    (sflag' \<longleftrightarrow> sflag \<and> (\<forall>i \<in> {j..<length ts0}. \<not> (10 \<le> er_rc (ct_er (dropped cfg t (ts0 ! i))) \<and> same_ecm er (ct_er (dropped cfg t (ts0 ! i))) \<and>
       level er \<le> level (ct_er (dropped cfg t (ts0 ! i))))))"
  using assms
proof (induction "length ts0 - j" arbitrary: j ts slot sflag w)
  case 0
  then have "j = length ts0" by simp
  moreover from this have "ts = map (dropped cfg t) ts0" using 0 by (intro nth_equalityI) simp_all
  ultimately show ?case using 0(2) by (auto split: option.splits)
next
  case (Suc d)
  then have j: "j < length ts0" by simp
  then have u: "[j..<length ts0] = j # [Suc j..<length ts0]" by (simp add: upt_conv_Cons)
  obtain ts1 w1 where 1: "drop_slot cfg mem t rid j ts w = Some (ts1, w1)"
    and e: "fetch ts1 j = Some (ts1 ! j)"
    and 2: "scan_slots cfg mem t rid er [Suc j..<length ts0]
       (ts1, if slot = None \<and> er_rc (ct_er (ts1 ! j)) < 10 then Some j else slot,
        sflag \<and> \<not> (10 \<le> er_rc (ct_er (ts1 ! j)) \<and> same_ecm er (ct_er (ts1 ! j)) \<and> level er \<le> level (ct_er (ts1 ! j)))) w1 =
      Some ((ts', slot', sflag'), w')"
    using Suc.prems(1) unfolding u by (auto simp: bind_eq_Some_conv fetch_def split: if_splits)
  note D = drop_slot_cases [OF 1]
  have tj: "ts ! j = ts0 ! j" using Suc.prems(4) j by simp
  have l: "length ts1 = length ts0" using D Suc.prems(2) by (auto split: if_splits)
  have n: "ts1 ! i = (if i < Suc j then dropped cfg t (ts0 ! i) else ts0 ! i)" if "i < length ts0" for i
    using D Suc.prems(2,4) tj that j by (auto simp: dropped_def nth_list_update less_Suc_eq split: if_splits)
  have d: "ts1 ! j = dropped cfg t (ts0 ! j)" using n [OF j] by simp
  have s: "{j..<length ts0} = insert j {Suc j..<length ts0}" using j by auto
  have "d = length ts0 - Suc j" using Suc.hyps(2) by simp
  from Suc.hyps(1) [OF this 2 l] j n D
  show ?case unfolding d u s by (auto split: option.splits if_splits)
qed

lemma scan_slots_spec:
  assumes "scan_slots cfg mem t rid er [0..<length ts] (ts, None, True) w = Some ((ts', slot, sflag), w')"
  shows "ts' = map (dropped cfg t) ts \<and> an_pipes w' = an_pipes w \<and>
    slot = find (\<lambda>i. er_rc (ct_er (ts' ! i)) < 10) [0..<length ts] \<and>
    (sflag \<longleftrightarrow> \<not> (\<exists>e \<in> set ts'. 10 \<le> er_rc (ct_er e) \<and> same_ecm er (ct_er e) \<and> level er \<le> level (ct_er e)))"
proof -
  note S = scan_slots_loop [OF assms, simplified]
  have f: "find (\<lambda>i. P (map f ts ! i)) [0..<length ts] = find (\<lambda>i. P (f (ts ! i))) [0..<length ts]" for P and f :: "casc_task \<Rightarrow> casc_task"
    by (rule find_cong) simp_all
  show ?thesis using S f [of "\<lambda>e. er_rc (ct_er e) < 10" "dropped cfg t"] by (auto simp: in_set_conv_nth Ball_def)
qed

lemma find_upt_first: "find P [0..<n] = Some i \<Longrightarrow> i < n \<and> P i" for n :: nat
  by (auto simp: find_Some_iff)

lemma find_upt_None: "find P [0..<n] = None \<Longrightarrow> i < n \<Longrightarrow> \<not> P i" for n :: nat
  by (auto simp: find_None_iff)

section \<open>The properties of the table\<close>

text \<open>C8. An answer from the network ends every open request for the same ECM and no other one: their clients, in the order of
  the table, get one message each, with the code 0, 1 or 2, and 0 when nothing was found; of the other requests at most those
  are dropped that waited too long, and the number of open requests is right. The CAID of the answered slot is not mapped.\<close>

theorem casc_answers_all:
  assumes "casc_check_dcw cfg mem pipe t rid k rc cw c w = Some (c', w')" "x = ct_er (ca_tasks c ! k)" "er_ocaid x = er_caid x"
  shows "(\<forall>i < length (ca_tasks c).
      (if waits x (ca_tasks c ! i) then er_rc (ct_er (ca_tasks c' ! i)) < 10 \<and> ct_idx (ca_tasks c' ! i) = 0
       else ca_tasks c' ! i = dropped cfg t (ca_tasks c ! i))) \<and>
    ca_pending c' = int (open_count (ca_tasks c')) \<and>
    (\<exists>ms. an_pipes w' = an_pipes w @ ms \<and> map fst ms = concat (map (recipients pipe x) (ca_tasks c)) \<and>
      (\<forall>m \<in> set ms. er_rc (snd m) \<in> {0, 1, 2} \<and> (rc = 0 \<longrightarrow> er_rc (snd m) = 0)))"
  using casc_check_dcw_ok [OF assms(1) _ assms(2)] assms(2,3) by (simp add: slot_after_def dropped_def)

text \<open>C10. A reader that handles one request at a time does not wait for ever: when the clock of a reading is past the timeout of
  the request, \<open>casc_get_dcw\<close> has ended, and the slot is closed.\<close>

theorem casc_get_dcw_ends:
  assumes "casc_get_dcw env cfg mem pipe n t evs c w = Some r"
    and "\<exists>e \<in> set ((t, ev0) # evs). wait_left env (tps (ct_er (ca_tasks c ! n))) (fst e) \<le> 0"
  shows "\<exists>c' w'. r = Inr (c', w') \<and> er_rc (ct_er (ca_tasks c' ! n)) < 10"
proof -
  obtain e0 q where e0: "fetch (ca_tasks c) n = Some e0"
    and q0: "wait_loop env cfg mem pipe n (tps (ct_er e0)) t evs c w = Some q"
    and r: "(case q of Inl u \<Rightarrow> Some (Inl u)
      | Inr (t', c', w') \<Rightarrow> do {
          e \<leftarrow> fetch (ca_tasks c') n;
          (if 10 \<le> er_rc (ct_er e)
           then map_option Inr (casc_check_dcw cfg mem pipe t' (ce_rid env) n 0 (er_cw (ct_er e)) c' w')
           else Some (Inr (c', w'))) }) = Some r"
    using assms(1) unfolding casc_get_dcw_def bind_eq_Some_conv by blast
  have q: "wait_loop env cfg mem pipe n (tps (ct_er (ca_tasks c ! n))) t evs c w = Some q"
    using e0 q0 by (simp add: fetch_Some_iff)
  show ?thesis
  proof (cases q)
    case (Inl u)
    from wait_loop_open [OF q [unfolded Inl]] assms(2) show ?thesis by auto
  next
    case (Inr s)
    obtain t' c' w' where s: "s = (t', c', w')" by (cases s)
    have n: "n < length (ca_tasks c')" using wait_loop_end q Inr s by blast
    show ?thesis
    proof (cases "10 \<le> er_rc (ct_er (ca_tasks c' ! n))")
      case True
      then obtain c2 w2 where "casc_check_dcw cfg mem pipe t' (ce_rid env) n 0 (er_cw (ct_er (ca_tasks c' ! n))) c' w' = Some (c2, w2)" "r = Inr (c2, w2)"
        using r Inr s n by (auto simp: fetch_def)
      then show ?thesis using casc_check_dcw_closes n by blast
    next
      case False
      then show ?thesis using r Inr s n by (auto simp: fetch_def)
    qed
  qed
qed

text \<open>Sending the request in slot \<open>n\<close>: it stays there when the protocol has taken it, and is closed when not.\<close>

lemma send_ecm_result:
  assumes s: "send_ecm env cfg mem pipe t n c w = Some (rc, c', w')" and n: "n < length (ca_tasks c)"
  defines "e \<equiv> ca_tasks c ! n"
  shows "rc = fst (ce_send env e (ca_ncd_msgid c)) \<and> ca_sent c' = ca_sent c @ [e] \<and>
    (if rc = 0 then ca_tasks c' = ca_tasks c \<and> ca_last_idx c' = ct_idx e \<and> w' = w else er_rc (ct_er (ca_tasks c' ! n)) < 10)"
proof -
  have f: "fetch (ca_tasks c) n = Some e" using n by (simp add: e_def)
  define c1 where "c1 = c\<lparr>ca_ncd_msgid := snd (ce_send env e (ca_ncd_msgid c)), ca_sent := ca_sent c @ [e]\<rparr>"
  have rc: "rc = fst (ce_send env e (ca_ncd_msgid c))"
    using s f by (auto simp: send_ecm_def split_beta Let_def bind_eq_Some_conv)
  show ?thesis
  proof (cases "rc = 0")
    case True
    then have "c' = c1\<lparr>ca_last_idx := ct_idx e, ca_last_s := tb_time t\<rparr>" "w' = w"
      using s f rc by (auto simp: send_ecm_def split_beta Let_def c1_def)
    then show ?thesis using rc True by (simp add: c1_def)
  next
    case False
    then obtain c2 where c2: "casc_check_dcw cfg mem pipe t (ce_rid env) n 0 (er_cw (ct_er e)) c1 w = Some (c2, w')"
      and c': "c' = c2\<lparr>ca_last_s := tb_time t\<rparr>"
      using s f rc by (auto simp: send_ecm_def split_beta Let_def c1_def bind_eq_Some_conv)
    have "ca_sent c2 = ca_sent c1" using c2 by (auto simp: casc_check_dcw_def bind_eq_Some_conv)
    moreover have "er_rc (ct_er (ca_tasks c2 ! n)) < 10" using casc_check_dcw_closes [OF c2] n by (simp add: c1_def)
    ultimately show ?thesis using False rc by (simp add: c' c1_def)
  qed
qed

text \<open>C9. A new request goes into the first slot that is free once the requests that waited too long are dropped, all other slots
  are kept, and nothing is sent when the same ECM is open at this level already. Without a free slot the request is refused and
  nothing changes. (A reader with several requests, and a server that has not been silent for too long.)\<close>

theorem casc_process_ecm_slot:
  assumes "casc_process_ecm env cfg mem pipe t evs er client c w = Some (Inr (rc, c', w'))" "ce_multi env"
    and "ce_rto env = 0 \<or> \<not> ce_tcp env"
  shows "let ts = map (dropped cfg t) (ca_tasks c);
      dup = (\<exists>e \<in> set ts. 10 \<le> er_rc (ct_er e) \<and> same_ecm er (ct_er e) \<and> level er \<le> level (ct_er e)) in
    case find (\<lambda>i. er_rc (ct_er (ts ! i)) < 10) [0..<length ts] of
      None \<Rightarrow> rc = -2 \<and> ca_tasks c' = ts \<and> ca_sent c' = ca_sent c \<and> an_pipes w' = an_pipes w
    | Some n \<Rightarrow>
        (let e = \<lparr>ct_er = er\<lparr>matching_rdr := [], er_rc := 10\<rparr>, ct_idx = fst (wire_index env c), ct_client = client\<rparr> in
         if dup then rc = 0 \<and> ca_tasks c' = ts[n := e] \<and> ca_sent c' = ca_sent c \<and> an_pipes w' = an_pipes w
         else ca_sent c' = ca_sent c @ [e] \<and> rc = fst (ce_send env e (ca_ncd_msgid c)) \<and>
           (if rc = 0 then ca_tasks c' = ts[n := e] \<and> ca_last_idx c' = ct_idx e \<and> an_pipes w' = an_pipes w
            else er_rc (ct_er (ca_tasks c' ! n)) < 10))"
proof -
  obtain ts slot sflag w1 where sc: "scan_slots cfg mem t (ce_rid env) er [0..<length (ca_tasks c)] (ca_tasks c, None, True) w = Some ((ts, slot, sflag), w1)"
    using assms(1) by (auto simp: casc_process_ecm_def bind_eq_Some_conv)
  note S0 = scan_slots_spec [OF sc]
  have S: "an_pipes w1 = an_pipes w" "slot = find (\<lambda>i. er_rc (ct_er (ts ! i)) < 10) [0..<length (ca_tasks c)]"
    "sflag \<longleftrightarrow> \<not> (\<exists>e \<in> set ts. 10 \<le> er_rc (ct_er e) \<and> same_ecm er (ct_er e) \<and> level er \<le> level (ct_er e))" using S0 by blast+
  define c1 where "c1 = c\<lparr>ca_tasks := ts, ca_pending := int (open_count ts)\<rparr>"
  define e where "e = \<lparr>ct_er = er\<lparr>matching_rdr := [], er_rc := 10\<rparr>, ct_idx = fst (wire_index env c), ct_client = client\<rparr>"
  have wi: "wire_index env c1 = wire_index env c" by (simp add: wire_index_def c1_def)
  have rto: "check_rto env d = Some d" for d using assms(3) by (auto simp: check_rto_def)
  have ts: "map (dropped cfg t) (ca_tasks c) = ts" and l: "length ts = length (ca_tasks c)" using S0 by simp_all
  have wr: "ca_tasks (wrap_idx d) = ca_tasks d" "ca_sent (wrap_idx d) = ca_sent d" "ca_last_idx (wrap_idx d) = ca_last_idx d" for d
    by (simp_all add: wrap_idx_def)
  show ?thesis
  proof (cases slot)
    case None
    then show ?thesis using assms(1) sc S(1,2) l by (simp add: casc_process_ecm_def ts) auto
  next
    case (Some n)
    have n: "n < length ts" using S(2) Some find_upt_first l by metis
    define c2 where "c2 = c1\<lparr>ca_tasks := ts[n := e], ca_idx := snd (wire_index env c)\<rparr>"
    have eq: "casc_process_ecm env cfg mem pipe t evs er client c w =
      (if sflag then do {
         (rc, c3, w3) \<leftarrow> send_ecm env cfg mem pipe t n c2 w1;
         Some (Inr (rc, wrap_idx c3, w3)) }
       else Some (Inr (0, wrap_idx c2, w1)))"
      using sc Some assms(2) wi rto by (simp add: casc_process_ecm_def c1_def [symmetric] c2_def e_def split_beta Let_def)
    have fnd: "find (\<lambda>i. er_rc (ct_er (ts ! i)) < 10) [0..<length ts] = Some n" using S(2) Some l by simp
    show ?thesis
    proof (cases sflag)
      case False
      then have "rc = 0" "c' = wrap_idx c2" "w' = w1" using assms(1) eq by simp_all
      moreover have "\<exists>e \<in> set ts. 10 \<le> er_rc (ct_er e) \<and> same_ecm er (ct_er e) \<and> level er \<le> level (ct_er e)" using False S(3) by blast
      ultimately show ?thesis using S(1) fnd by (simp add: ts e_def [symmetric] wr c2_def c1_def Let_def)
    next
      case True
      then have nd: "\<not> (\<exists>e \<in> set ts. 10 \<le> er_rc (ct_er e) \<and> same_ecm er (ct_er e) \<and> level er \<le> level (ct_er e))" using S(3) by simp
      obtain c3 where snd: "send_ecm env cfg mem pipe t n c2 w1 = Some (rc, c3, w')" and c': "c' = wrap_idx c3"
        using assms(1) eq True by (auto simp: bind_eq_Some_conv)
      have c2: "n < length (ca_tasks c2)" "ca_tasks c2 ! n = e" "ca_ncd_msgid c2 = ca_ncd_msgid c" "ca_sent c2 = ca_sent c"
        "ca_tasks c2 = ts[n := e]" using n by (simp_all add: c2_def c1_def)
      show ?thesis using send_ecm_result [OF snd c2(1)] nd fnd S(1) unfolding c2(2-4)
        by (auto simp: ts e_def [symmetric] c' wr c2(5) Let_def)
    qed
  qed
qed

text \<open>When the server has been silent for too long, the connection is closed after the new request was put into the table, which
  empties its slot as well: it is sent without an index, and no answer to it will be taken.\<close>

lemma rto_loses_request:
  assumes "casc_process_ecm env cfg mem pipe t evs er client c w = Some (Inr (rc, c', w'))" "ce_multi env" "ce_idle env = None"
    and "ce_tcp env" "ce_rto env \<noteq> 0" "ce_rto env * 60 \<le> \<bar>s32 (ca_last_s c - ca_last_g c)\<bar>" "\<And>d. ce_init env d = Some d"
    and "\<And>e m. fst (ce_send env e m) = 0" "rc = 0" "ca_sent c' \<noteq> ca_sent c"
  shows "\<exists>e. ca_sent c' = ca_sent c @ [e] \<and> ct_idx e = 0 \<and> (\<forall>d \<in> set (ca_tasks c'). er_rc (ct_er d) = 0) \<and> an_pipes w' = an_pipes w"
proof -
  obtain ts slot sflag w1 where sc: "scan_slots cfg mem t (ce_rid env) er [0..<length (ca_tasks c)] (ca_tasks c, None, True) w = Some ((ts, slot, sflag), w1)"
    using assms(1) by (auto simp: casc_process_ecm_def bind_eq_Some_conv)
  have p: "an_pipes w1 = an_pipes w" using scan_slots_spec [OF sc] by blast
  have wr: "ca_tasks (wrap_idx d) = ca_tasks d" "ca_sent (wrap_idx d) = ca_sent d" for d by (simp_all add: wrap_idx_def)
  define c1 where "c1 = c\<lparr>ca_tasks := ts, ca_pending := int (open_count ts)\<rparr>"
  obtain n where n: "slot = Some n" using assms(1,9) sc by (cases slot) (simp_all add: casc_process_ecm_def)
  define e where "e = \<lparr>ct_er = er\<lparr>matching_rdr := [], er_rc := 10\<rparr>, ct_idx = fst (wire_index env c1), ct_client = client\<rparr>"
  define c2 where "c2 = c1\<lparr>ca_tasks := ts[n := e], ca_idx := snd (wire_index env c1)\<rparr>"
  define c3 where "c3 = c2\<lparr>ca_connected := False,
       ca_tasks := map (\<lambda>e. e\<lparr>ct_idx := 0, ct_er := (ct_er e)\<lparr>er_rc := 0\<rparr>\<rparr>) (ca_tasks c2), ca_ncd_msgid := 0, ca_last_s := 0, ca_last_g := 0\<rparr>"
  have rto: "check_rto env c2 = Some c3"
    using assms(3-7) by (simp add: check_rto_def idle_or_close_def network_tcp_connection_close_def c2_def c1_def c3_def)
  have eq: "casc_process_ecm env cfg mem pipe t evs er client c w =
    (if sflag then do {
       (rc, c3, w3) \<leftarrow> send_ecm env cfg mem pipe t n c3 w1;
       Some (Inr (rc, wrap_idx c3, w3)) }
     else Some (Inr (0, wrap_idx c3, w1)))"
    using sc n assms(2) rto by (simp add: casc_process_ecm_def c1_def [symmetric] c2_def [symmetric] e_def [symmetric] split_beta Let_def)
  have sent: "ca_sent c3 = ca_sent c" by (simp add: c3_def c2_def c1_def)
  then have fl: sflag using assms(1,10) eq wr(2) by (cases sflag) auto
  obtain d where d: "fetch (ca_tasks c3) n = Some d" using assms(1) eq fl by (auto simp: send_ecm_def bind_eq_Some_conv)
  have z: "\<forall>d \<in> set (ca_tasks c3). ct_idx d = 0 \<and> er_rc (ct_er d) = 0" by (auto simp: c3_def)
  then have "ct_idx d = 0" using d by (auto simp: fetch_Some_iff)
  moreover have "ca_sent c' = ca_sent c @ [d]" "ca_tasks c' = ca_tasks c3" "w' = w1"
    using assms(1,8) eq fl d sent by (auto simp: send_ecm_def split_beta Let_def wr)
  ultimately show ?thesis using z p by auto
qed

section \<open>The rate of services and of connections\<close>

text \<open>The requests of a local card with the clock, and those that are admitted.\<close>

fun rl_run :: "int \<Rightarrow> (int \<times> u16) list \<Rightarrow> rl_slot list \<Rightarrow> (int \<times> u16) list \<Rightarrow> (int \<times> u16) list \<times> rl_slot list" where
  "rl_run secs [] rl adm = (adm, rl)"
| "rl_run secs ((tm, sid) # rs) rl adm =
     (let (ok, rl') = rl_admit secs tm sid rl in rl_run secs rs rl' (if ok then adm @ [(tm, sid)] else adm))"

definition rl_inv :: "int \<Rightarrow> int \<Rightarrow> rl_slot list \<Rightarrow> (int \<times> u16) list \<Rightarrow> bool" where
  "rl_inv secs T rl adm \<longleftrightarrow>
     (\<forall>(tm, sid) \<in> set adm. 0 \<le> tm \<and> tm \<le> T \<and> (T - tm \<le> secs \<longrightarrow> (\<exists>s \<in> set rl. rl_srvid s = sid \<and> tm \<le> rl_last s)))"

lemma rl_inv_later: "rl_inv secs T rl adm \<Longrightarrow> T \<le> T' \<Longrightarrow> rl_inv secs T' rl adm"
  by (fastforce simp: rl_inv_def)

lemma rl_admit_length: "length (snd (rl_admit secs tm sid rl)) = length rl"
  by (simp add: rl_admit_def split: option.split)

lemma rl_space_cases:
  assumes "rl_space secs tm sid rl = Some h"
  shows "h < length rl \<and> (rl_srvid (rl ! h) = sid \<or> rl_last (rl ! h) = -1 \<or> secs < tm - rl_last (rl ! h))"
proof (cases "find (\<lambda>h. rl_srvid (rl ! h) = sid) [0..<length rl]")
  case None
  then have "find (\<lambda>h. rl_last (rl ! h) = -1 \<or> secs < tm - rl_last (rl ! h)) [0..<length rl] = Some h" using assms by (simp add: rl_space_def)
  from find_upt_first [OF this] show ?thesis by blast
next
  case (Some k)
  then have "k = h" using assms by (simp add: rl_space_def)
  then show ?thesis using find_upt_first [OF Some] by blast
qed

lemma rl_admit_inv:
  assumes "rl_inv secs tm rl adm" "0 \<le> tm" "rl_admit secs tm sid rl = (ok, rl')"
  shows "rl_inv secs tm rl' (if ok then adm @ [(tm, sid)] else adm)"
proof (cases "rl_space secs tm sid rl")
  case None
  then show ?thesis using assms by (simp add: rl_admit_def)
next
  case (Some h)
  note h = rl_space_cases [OF Some]
  have ok: "ok" "rl' = rl[h := \<lparr>rl_srvid = sid, rl_last = tm\<rparr>]" using assms(3) Some by (simp_all add: rl_admit_def)
  have new: "\<exists>s \<in> set rl'. rl_srvid s = sid \<and> tm \<le> rl_last s"
    using h ok(2) by (intro bexI [of _ "\<lparr>rl_srvid = sid, rl_last = tm\<rparr>"]) (auto simp: set_update_memI)
  have old: "\<exists>s \<in> set rl'. rl_srvid s = sid' \<and> tm' \<le> rl_last s"
    if a: "(tm', sid') \<in> set adm" "tm - tm' \<le> secs" for tm' sid'
  proof -
    have t': "0 \<le> tm'" "tm' \<le> tm" using assms(1) a(1) by (auto simp: rl_inv_def)
    obtain s where s: "s \<in> set rl" "rl_srvid s = sid'" "tm' \<le> rl_last s" using assms(1) a by (auto simp: rl_inv_def)
    obtain i where i: "i < length rl" "rl ! i = s" using s(1) by (auto simp: in_set_conv_nth)
    show ?thesis
    proof (cases "i = h")
      case False
      then have "rl' ! i = s" using i ok(2) by simp
      then show ?thesis using s i ok(2) by (metis length_list_update nth_mem)
    next
      case True
      then have "sid' = sid" using h s t' a(2) i by auto
      then show ?thesis using new t'(2) by auto
    qed
  qed
  show ?thesis using assms(1,2) ok new old by (auto simp: rl_inv_def)
qed

lemma rl_run_inv:
  "rl_run secs rs rl adm = (adm', rl') \<Longrightarrow> rl_inv secs T rl adm \<Longrightarrow> \<forall>r \<in> set rs. T \<le> fst r \<and> 0 \<le> fst r \<and> fst r \<le> T' \<Longrightarrow>
   sorted (map fst rs) \<Longrightarrow> T \<le> T' \<Longrightarrow> rl_inv secs T' rl' adm' \<and> length rl' = length rl"
proof (induction rs arbitrary: rl adm T)
  case Nil
  then show ?case using rl_inv_later by auto
next
  case (Cons r rs)
  obtain tm sid where r: "r = (tm, sid)" by (cases r)
  obtain ok rl1 where a: "rl_admit secs tm sid rl = (ok, rl1)" by (cases "rl_admit secs tm sid rl")
  have run: "rl_run secs rs rl1 (if ok then adm @ [(tm, sid)] else adm) = (adm', rl')" using Cons.prems(1) r a by simp
  have "rl_inv secs tm rl adm" using rl_inv_later Cons.prems(2,3) r by fastforce
  then have "rl_inv secs tm rl1 (if ok then adm @ [(tm, sid)] else adm)" using rl_admit_inv a Cons.prems(3) r by fastforce
  from Cons.IH [OF run this] Cons.prems(3-5) r have "rl_inv secs T' rl' adm' \<and> length rl' = length rl1" by auto
  then show ?case using rl_admit_length [of secs tm sid rl] a by simp
qed

text \<open>C37. The limit of a card holds: of any requests in the order of their times, those admitted within the last
  \<open>ratelimitseconds\<close> are for at most \<open>ratelimitecm\<close> different services, seen from any later moment. The slots are free at the
  start.\<close>

theorem ratelimit_window:
  assumes "rl_run secs rs rl [] = (adm, rl')" "sorted (map fst rs)" "\<forall>r \<in> set rs. 0 \<le> fst r \<and> fst r \<le> T"
  shows "card {sid. \<exists>tm. (tm, sid) \<in> set adm \<and> T - tm \<le> secs} \<le> length rl"
proof -
  let ?t0 = "if rs = [] then T else 0"
  have "rl_inv secs ?t0 rl []" by (simp add: rl_inv_def)
  moreover have "\<forall>r \<in> set rs. ?t0 \<le> fst r \<and> 0 \<le> fst r \<and> fst r \<le> T" using assms(3) by auto
  moreover have "?t0 \<le> T" using assms(3) by (cases rs) auto
  ultimately have I: "rl_inv secs T rl' adm" "length rl' = length rl" using rl_run_inv [OF assms(1) _ _ assms(2)] by blast+
  then have "{sid. \<exists>tm. (tm, sid) \<in> set adm \<and> T - tm \<le> secs} \<subseteq> rl_srvid ` set rl'" by (fastforce simp: rl_inv_def)
  then have "card {sid. \<exists>tm. (tm, sid) \<in> set adm \<and> T - tm \<le> secs} \<le> card (rl_srvid ` set rl')" by (simp add: card_mono)
  also have "\<dots> \<le> length rl'" using card_image_le [of "set rl'" rl_srvid] card_length [of rl'] by simp
  finally show ?thesis using I(2) by simp
qed

definition ms :: "timeb \<Rightarrow> int" where
  "ms t = 1000 * tb_time t + tb_millitm t"

lemma block_connect_ms: "0 < tcp_block_delay c \<Longrightarrow> ms (tcp_block_connect_till (block_connect c)) = ms (tcp_block_connect_till c) + tcp_block_delay c"
  by (simp add: block_connect_def Let_def ms_def)

lemma block_connect_delay: "0 < d \<Longrightarrow> tcp_block_delay c = d \<Longrightarrow> tcp_block_delay (block_connect c) = min 60000 (d * 4)"
  by (auto simp: block_connect_def Let_def)

text \<open>The delay before the \<open>n\<close>-th failure is booked.\<close>

definition backoff :: "nat \<Rightarrow> int" where
  "backoff n = min 60000 (100 * 4 ^ n)"

lemma backoff_Suc: "min 60000 (backoff n * 4) = backoff (Suc n)"
  by (auto simp: backoff_def min_def)

lemma backoff_run:
  assumes "tcp_block_delay c = 0"
  shows "tcp_block_delay ((block_connect ^^ Suc n) c) = backoff (Suc n) \<and>
    ms (tcp_block_connect_till ((block_connect ^^ Suc n) c)) = ms (tcp_block_connect_till c) + (\<Sum>i\<le>n. backoff i)"
proof (induction n)
  case 0
  show ?case using assms by (simp add: block_connect_def Let_def backoff_def ms_def)
next
  case (Suc n)
  let ?c = "(block_connect ^^ Suc n) c"
  have p: "0 < tcp_block_delay ?c" using Suc by (simp add: backoff_def)
  have s: "(block_connect ^^ Suc (Suc n)) c = block_connect ?c" by simp
  show ?case unfolding s using Suc block_connect_ms [OF p] block_connect_delay [OF p refl] backoff_Suc [of "Suc n"] by simp
qed

text \<open>The delay between attempts to connect grows: the \<open>n\<close>-th failure in a row puts the end of the block off by
  \<open>100 * 4 ^ n\<close> milliseconds, but by no more than a minute. It is counted from the end of the last block, not from the failure:
  when that lies back far enough, a failed attempt blocks nothing.\<close>

theorem connect_backoff:
  assumes "tcp_block_delay c = 0"
  shows "tcp_block_delay ((block_connect ^^ Suc n) c) = min 60000 (100 * 4 ^ Suc n) \<and>
    ms (tcp_block_connect_till ((block_connect ^^ Suc n) c)) = ms (tcp_block_connect_till c) + (\<Sum>i\<le>n. min 60000 (100 * 4 ^ i)) \<and>
    (tb_time (tcp_block_connect_till ((block_connect ^^ n) c)) + 60 < tb_time t \<longrightarrow> \<not> is_connect_blocked t ((block_connect ^^ Suc n) c))"
proof -
  let ?c = "(block_connect ^^ n) c"
  have d: "tcp_block_delay ?c \<le> 60000"
    using assms backoff_run [OF assms, of "n - 1"] by (cases n) (auto simp: backoff_def)
  have "tb_time (tcp_block_connect_till (block_connect ?c)) \<le> tb_time (tcp_block_connect_till ?c) + 60"
    using d zdiv_mono1 [of "tcp_block_delay ?c" 60000 1000] by (auto simp: block_connect_def Let_def)
  then show ?thesis using backoff_run [OF assms, of n] by (auto simp: backoff_def is_connect_blocked_def comp_timeb_def)
qed

section \<open>Examples\<close>

definition rd_world_ex :: an_world where
  "rd_world_ex = gc_world.extend gc_world_ex
     (an_world.fields [] [] \<lparr>cwfound = 0, cwcache = 0, cwnot = 0, cwignored = 0, cwtout = 0\<rparr> [] [] [] [])"

definition rd_task_ex :: "u8 \<Rightarrow> nat \<Rightarrow> casc_task" where
  "rd_task_ex b i = \<lparr>ct_er = (lb_request_ex [])\<lparr>er_rc := 10, er_ocaid := 0x0500, er_ecmd5 := replicate 16 b, er_cw := replicate 16 0, tps := clk_ex 0\<rparr>,
     ct_idx = int i + 1, ct_client = Some i\<rparr>"

definition casc_ex :: casc where
  "casc_ex = \<lparr>ca_tasks = [rd_task_ex 1 0, rd_task_ex 1 1, rd_task_ex 2 2, (rd_task_ex 3 3)\<lparr>ct_er := (lb_request_ex [])\<lparr>er_rc := 0\<rparr>\<rparr>],
     ca_idx = 4, ca_last_idx = 3, ca_pending = 3, ca_last_s = 0, ca_last_g = 0, ca_ncd_msgid = 0, ca_connected = True, ca_sent = []\<rparr>"

definition casc_env_ex :: casc_env where
  "casc_env_ex = \<lparr>ce_rid = 0, ce_newcamd = False, ce_tcp = False, ce_radegast = False, ce_multi = True, ce_rto = 30, ce_srtimeout = 1500,
     ce_send = (\<lambda>e m. (0, m)), ce_idle = None, ce_init = Some\<rparr>"

theorem casc_answers_all_witness:
  "\<exists>c' w'. casc_check_dcw gc_config_ex True (\<lambda>_. True) (clk_ex 5) 0 0 1 (replicate 16 0) casc_ex rd_world_ex = Some (c', w') \<and>
     map fst (an_pipes w') = [0, 1] \<and> er_rc (ct_er (ca_tasks c' ! 1)) < 10"
proof -
  let ?r = "casc_check_dcw gc_config_ex True (\<lambda>_. True) (clk_ex 5) 0 0 1 (replicate 16 0) casc_ex rd_world_ex"
  have "?r \<noteq> None" by code_simp
  then obtain c' w' where r: "?r = Some (c', w')" by auto
  have o: "er_ocaid (ct_er (ca_tasks casc_ex ! 0)) = er_caid (ct_er (ca_tasks casc_ex ! 0))" by code_simp
  have m: "concat (map (recipients (\<lambda>_. True) (ct_er (ca_tasks casc_ex ! 0))) (ca_tasks casc_ex)) = [0, 1]" "an_pipes rd_world_ex = []"
    "1 < length (ca_tasks casc_ex)" "waits (ct_er (ca_tasks casc_ex ! 0)) (ca_tasks casc_ex ! 1)" by code_simp+
  from casc_answers_all [OF r refl o] m r show ?thesis by (metis append_Nil)
qed

text \<open>With a mapped CAID the first answer changes the CAID of its own slot, and the second request for the same ECM is not found.\<close>

lemma mapped_duplicate_missed:
  "case casc_check_dcw gc_config_ex True (\<lambda>_. True) (clk_ex 5) 0 0 1 (replicate 16 0)
     (casc_ex\<lparr>ca_tasks := map (\<lambda>e. e\<lparr>ct_er := (ct_er e)\<lparr>er_ocaid := 0x1702\<rparr>\<rparr>) (ca_tasks casc_ex)\<rparr>) rd_world_ex of
     None \<Rightarrow> False | Some (c', w') \<Rightarrow> map fst (an_pipes w') = [0] \<and> er_rc (ct_er (ca_tasks c' ! 1)) = 10"
  by code_simp

theorem casc_get_dcw_ends_witness:
  "\<exists>c' w'. casc_get_dcw casc_env_ex gc_config_ex True (\<lambda>_. True) 0 (clk_ex 5)
     [(\<lparr>tb_time = 2001, tb_millitm = 0\<rparr>, \<lparr>sk_n = 10, sk_idx = 3, sk_rc = 0, sk_dcw = replicate 16 0\<rparr>),
      (\<lparr>tb_time = 2002, tb_millitm = 0\<rparr>, \<lparr>sk_n = 0, sk_idx = -1, sk_rc = 0, sk_dcw = replicate 16 0\<rparr>)] casc_ex rd_world_ex = Some (Inr (c', w')) \<and>
     er_rc (ct_er (ca_tasks c' ! 0)) < 10"
proof -
  let ?evs = "[(\<lparr>tb_time = 2001, tb_millitm = 0\<rparr>, \<lparr>sk_n = 10, sk_idx = 3, sk_rc = 0, sk_dcw = replicate 16 0\<rparr>),
      (\<lparr>tb_time = 2002, tb_millitm = 0\<rparr>, \<lparr>sk_n = 0, sk_idx = -1, sk_rc = 0, sk_dcw = replicate 16 0\<rparr>)]"
  let ?r = "casc_get_dcw casc_env_ex gc_config_ex True (\<lambda>_. True) 0 (clk_ex 5) ?evs casc_ex rd_world_ex"
  have "?r \<noteq> None" by code_simp
  then obtain r where r: "?r = Some r" by auto
  have "wait_left casc_env_ex (tps (ct_er (ca_tasks casc_ex ! 0))) \<lparr>tb_time = 2002, tb_millitm = 0\<rparr> \<le> 0" by code_simp
  then have "\<exists>e \<in> set ((clk_ex 5, snd (hd ?evs)) # ?evs). wait_left casc_env_ex (tps (ct_er (ca_tasks casc_ex ! 0))) (fst e) \<le> 0" by simp
  from casc_get_dcw_ends [OF r this] r show ?thesis by auto
qed

theorem casc_process_ecm_slot_witness:
  "\<exists>rc c' w'. casc_process_ecm casc_env_ex gc_config_ex True (\<lambda>_. True) (clk_ex 5) [] (ct_er (rd_task_ex 2 5)) (Some 5) casc_ex rd_world_ex =
       Some (Inr (rc, c', w')) \<and> ca_sent c' = [] \<and> ct_client (ca_tasks c' ! 3) = Some 5"
proof -
  let ?r = "casc_process_ecm casc_env_ex gc_config_ex True (\<lambda>_. True) (clk_ex 5) [] (ct_er (rd_task_ex 2 5)) (Some 5) casc_ex rd_world_ex"
  have "case ?r of Some (Inr q) \<Rightarrow> True | _ \<Rightarrow> False" by code_simp
  then obtain q where q: "?r = Some (Inr q)" by (auto split: option.splits sum.splits)
  obtain rc c' w' where "q = (rc, c', w')" by (cases q)
  then have r: "?r = Some (Inr (rc, c', w'))" using q by simp
  have e: "ce_multi casc_env_ex" "ce_rto casc_env_ex = 0 \<or> \<not> ce_tcp casc_env_ex" by code_simp+
  have f: "find (\<lambda>i. er_rc (ct_er (map (dropped gc_config_ex (clk_ex 5)) (ca_tasks casc_ex) ! i)) < 10)
      [0..<length (map (dropped gc_config_ex (clk_ex 5)) (ca_tasks casc_ex))] = Some 3"
    "\<exists>e \<in> set (map (dropped gc_config_ex (clk_ex 5)) (ca_tasks casc_ex)). 10 \<le> er_rc (ct_er e) \<and> same_ecm (ct_er (rd_task_ex 2 5)) (ct_er e) \<and>
       level (ct_er (rd_task_ex 2 5)) \<le> level (ct_er e)" "ca_sent casc_ex = []"
    "length (map (dropped gc_config_ex (clk_ex 5)) (ca_tasks casc_ex)) = 4" by code_simp+
  from casc_process_ecm_slot [OF r e] f r show ?thesis by (simp add: Let_def)
qed

theorem ratelimit_window_witness:
  "case rl_run 10 [(1, 7), (2, 8), (5, 9), (13, 9)] (replicate 2 \<lparr>rl_srvid = 0, rl_last = -1\<rparr>) [] of
     (adm, rl) \<Rightarrow> adm = [(1, 7), (2, 8), (13, 9)] \<and> card {sid. \<exists>tm. (tm, sid) \<in> set adm \<and> 13 - tm \<le> 10} \<le> 2"
proof -
  let ?r = "rl_run 10 [(1, 7), (2, 8), (5, 9), (13, 9)] (replicate 2 \<lparr>rl_srvid = 0, rl_last = -1\<rparr>) []"
  have a: "fst ?r = [(1, 7), (2, 8), (13, 9)]" by code_simp
  obtain adm rl where r: "?r = (adm, rl)" by (cases ?r)
  have "card {sid. \<exists>tm. (tm, sid) \<in> set adm \<and> 13 - tm \<le> 10} \<le> length (replicate 2 \<lparr>rl_srvid = (0 :: u16), rl_last = -1\<rparr>)"
    by (rule ratelimit_window [OF r]) simp_all
  then show ?thesis using a r by simp
qed

theorem connect_backoff_witness:
  "\<not> is_connect_blocked \<lparr>tb_time = 2000, tb_millitm = 0\<rparr> ((block_connect ^^ Suc 2) \<lparr>tcp_block_delay = 0, tcp_block_connect_till = \<lparr>tb_time = 0, tb_millitm = 0\<rparr>\<rparr>) \<and>
   tcp_block_delay ((block_connect ^^ Suc 2) \<lparr>tcp_block_delay = 0, tcp_block_connect_till = \<lparr>tb_time = 0, tb_millitm = 0\<rparr>\<rparr>) = 6400"
proof -
  let ?c = "\<lparr>tcp_block_delay = 0, tcp_block_connect_till = \<lparr>tb_time = 0, tb_millitm = 0\<rparr>\<rparr>"
  have z: "tcp_block_delay ?c = 0" by simp
  have "tb_time (tcp_block_connect_till ((block_connect ^^ 2) ?c)) + 60 < tb_time \<lparr>tb_time = 2000, tb_millitm = 0\<rparr>" by code_simp
  with connect_backoff [OF z, of 2 "\<lparr>tb_time = 2000, tb_millitm = 0\<rparr>"] show ?thesis by simp
qed

end
