(* ===== verification/Atr.thy ===== *)
theory Atr
  imports Prelude Complex_Main
begin

unbundle bit_operations_syntax

text \<open>
  The answer to reset of a smartcard, \<open>csctapi/atr.c\<close>: the parser \<open>ATR_InitFromArray\<close>, the accessors and the
  printer \<open>ATR_GetRaw\<close>. An interface byte is an option (\<open>present\<close>). The outer \<open>None\<close> is an access outside
  an array; \<open>Inl\<close> is a return code other than \<open>ATR_OK\<close>, after which the callers do not use the structure.
\<close>

section \<open>Data\<close>

record atr =
  a_length :: nat
  a_TS :: u8
  a_T0 :: u8
  a_ib :: "u8 option list list"
  a_TCK :: "u8 option"
  a_pn :: nat
  a_hb :: "u8 list"

datatype atr_error = ATR_NOT_FOUND | ATR_MALFORMED

definition ATR_MAX_SIZE :: nat where "ATR_MAX_SIZE = 33"
definition ATR_MAX_PROTOCOLS :: nat where "ATR_MAX_PROTOCOLS = 7"

definition atr_num_ib_table :: "nat list" where
  "atr_num_ib_table = [0, 1, 1, 2, 1, 2, 2, 3, 1, 2, 2, 3, 2, 3, 3, 4]"

definition atr_fs_table :: "nat list" where
  "atr_fs_table = [4000000, 5000000, 6000000, 8000000, 12000000, 16000000, 20000000, 0, 0, 5000000, 7500000, 10000000, 15000000, 20000000, 0, 0]"

definition atr_f_table :: "nat list" where
  "atr_f_table = [372, 372, 558, 744, 1116, 1488, 1860, 0, 0, 512, 768, 1024, 1536, 2048, 0, 0]"

definition atr_d_table :: "rat list" where
  "atr_d_table = [0, 1, 2, 4, 8, 16, 32, 64, 12, 20, 1 / 2, 1 / 4, 1 / 8, 1 / 16, 1 / 32, 1 / 64]"

definition atr_i_table :: "nat list" where
  "atr_i_table = [25, 50, 100, 0]"

text \<open>The macro \<open>INVERT_BYTE\<close>.\<close>

definition invert_byte :: "u8 \<Rightarrow> u8" where
  "invert_byte a = (push_bit 7 a AND 0x80) OR (push_bit 5 a AND 0x40) OR (push_bit 3 a AND 0x20) OR (push_bit 1 a AND 0x10) OR
     (drop_bit 1 a AND 0x08) OR (drop_bit 3 a AND 0x04) OR (drop_bit 5 a AND 0x02) OR (drop_bit 7 a AND 0x01)"

section \<open>The parser\<close>

text \<open>The bytes as they are read: a card of inverse convention starts with 3.\<close>

definition atr_convention :: "u8 list \<Rightarrow> u8 list" where
  "atr_convention bs = (if bs ! 0 = 0x03 then map (\<lambda>b. NOT (invert_byte b)) bs else bs)"

text \<open>An interface byte follows when its bit is set in the last \<open>T0\<close> or \<open>TD\<close>.\<close>

definition interface_byte :: "u8 list \<Rightarrow> u8 \<Rightarrow> u8 \<Rightarrow> nat \<Rightarrow> (u8 option \<times> nat) option" where
  "interface_byte buf td m p =
     (if td OR m = 0xFF then map_option (\<lambda>b. (Some b, p + 1)) (fetch buf (p + 1)) else Some (None, p))"

definition atr_row :: "u8 list \<Rightarrow> u8 \<Rightarrow> nat \<Rightarrow> (u8 option list \<times> nat) option" where
  "atr_row buf td p = do {
     (ta, p1) \<leftarrow> interface_byte buf td 0xEF p;
     (tb, p2) \<leftarrow> interface_byte buf td 0xDF p1;
     (tc, p3) \<leftarrow> interface_byte buf td 0xBF p2;
     (td', p4) \<leftarrow> interface_byte buf td 0x7F p3;
     Some ([ta, tb, tc, td'], p4) }"

text \<open>The loop over the protocols: \<open>p\<close> is the position, \<open>ib\<close> the rows so far, \<open>tck\<close> whether a check byte is due. A row
  behind the last one of the structure is written outside of it.\<close>

function atr_loop ::
  "u8 list \<Rightarrow> u8 \<Rightarrow> nat \<Rightarrow> u8 option list list \<Rightarrow> bool \<Rightarrow> (atr_error + nat \<times> u8 option list list \<times> bool) option" where
  "atr_loop buf td p ib tck =
     (if p < length buf then
        (if length buf \<le> p + atr_num_ib_table ! unat (drop_bit 4 (td AND 0xF0)) then Some (Inl ATR_MALFORMED)
         else if ATR_MAX_PROTOCOLS \<le> length ib then None
         else (case atr_row buf td p of
             None \<Rightarrow> None
           | Some (row, p') \<Rightarrow>
               (case row ! 3 of
                  None \<Rightarrow> Some (Inr (p', ib @ [row], tck))
                | Some td' \<Rightarrow> if p < p' then atr_loop buf td' p' (ib @ [row]) (td' AND 0x0F \<noteq> 0) else None)))
      else Some (Inr (p, ib, tck)))"
  by pat_completeness auto
termination by (relation "measure (\<lambda>(buf, td, p, ib, tck). length buf - p)") auto

declare atr_loop.simps [simp del]

text \<open>What follows the interface bytes: historical bytes, of which as many are taken as fit, and the check byte.\<close>

definition atr_tail ::
  "u8 list \<Rightarrow> nat \<Rightarrow> u8 option list list \<Rightarrow> bool \<Rightarrow> (atr_error + atr) option" where
  "atr_tail buf p ib tck = do {
     ts \<leftarrow> fetch buf 0;
     t0 \<leftarrow> fetch buf 1;
     let hbn0 = unat (t0 AND 0x0F);
     (if length buf \<le> p + hbn0 \<and> length buf - p < 2 then Some (Inl ATR_MALFORMED)
      else do {
        let hbn = (if length buf \<le> p + hbn0 then length buf - p - 2 else hbn0);
        let hb = take hbn (drop (p + 1) buf);
        let q = p + hbn;
        (if tck \<and> length buf \<le> q + 1 then Some (Inl ATR_MALFORMED)
         else do {
           let q' = (if tck then q + 1 else q);
           let a = \<lparr>a_length = q' + 1, a_TS = ts, a_T0 = t0, a_ib = ib, a_TCK = (if tck then Some (buf ! q') else None),
                    a_pn = length ib, a_hb = hb\<rparr>;
           (if length ib = 1 \<and> (case ib ! 0 ! 0 of Some ta \<Rightarrow> atr_fs_table ! unat (drop_bit 4 (ta AND 0xF0)) = 0 | None \<Rightarrow> False)
            then Some (Inl ATR_MALFORMED)
            else if length ib = 1 \<and> (case ib ! 0 ! 1 of Some tb \<Rightarrow> 0x80 < tb | None \<Rightarrow> False) then Some (Inl ATR_MALFORMED)
            else Some (Inr a)) }) }) }"

definition ATR_InitFromArray :: "u8 list \<Rightarrow> nat \<Rightarrow> (atr_error + atr) option" where
  "ATR_InitFromArray atr_buffer n =
     (if n < 2 then Some (Inl ATR_MALFORMED)
      else if ATR_MAX_SIZE < n \<or> length atr_buffer < n then None
      else do {
        let buf = atr_convention (take n atr_buffer);
        r \<leftarrow> atr_loop buf (buf ! 1) 1 [] False;
        (case r of Inl e \<Rightarrow> Some (Inl e) | Inr (p, ib, tck) \<Rightarrow> atr_tail buf p ib tck) })"

section \<open>Accessors\<close>

definition ATR_CONVENTION_DIRECT :: nat where "ATR_CONVENTION_DIRECT = 0"
definition ATR_CONVENTION_INVERSE :: nat where "ATR_CONVENTION_INVERSE = 1"

definition ATR_GetConvention :: "atr \<Rightarrow> atr_error + nat" where
  "ATR_GetConvention a =
     (if a_TS a = 0x3B then Inr ATR_CONVENTION_DIRECT else if a_TS a = 0x3F then Inr ATR_CONVENTION_INVERSE else Inl ATR_MALFORMED)"

definition ib_cell :: "atr \<Rightarrow> nat \<Rightarrow> nat \<Rightarrow> u8 option option" where
  "ib_cell a i k = do { row \<leftarrow> fetch (a_ib a) i; fetch row k }"

definition ATR_GetProtocolType :: "atr \<Rightarrow> nat \<Rightarrow> (atr_error + u8) option" where
  "ATR_GetProtocolType a n =
     (if a_pn a < n \<or> n < 1 then Some (Inl ATR_NOT_FOUND)
      else map_option (\<lambda>c. Inr (case c of Some td \<Rightarrow> td AND 0x0F | None \<Rightarrow> 0)) (ib_cell a (n - 1) 3))"

definition ATR_GetInterfaceByte :: "atr \<Rightarrow> nat \<Rightarrow> nat \<Rightarrow> (atr_error + u8) option" where
  "ATR_GetInterfaceByte a n k =
     (if a_pn a < n \<or> n < 1 then Some (Inl ATR_NOT_FOUND)
      else map_option (\<lambda>c. case c of Some v \<Rightarrow> Inr v | None \<Rightarrow> Inl ATR_NOT_FOUND) (ib_cell a (n - 1) k))"

datatype integer_value = Val_FI | Val_DI | Val_II | Val_PI1 | Val_N | Val_PI2

text \<open>\<open>ib[1]\<close> is looked up without a test of \<open>pn\<close>: \<open>None\<close> is a row that was never written.\<close>

definition ATR_GetIntegerValue :: "atr \<Rightarrow> integer_value \<Rightarrow> (atr_error + u8) option" where
  "ATR_GetIntegerValue a name =
     (let get = (\<lambda>i k f. map_option (\<lambda>c. case c of Some v \<Rightarrow> Inr (f v) | None \<Rightarrow> Inl ATR_NOT_FOUND) (ib_cell a i k)) in
      case name of
        Val_FI \<Rightarrow> get 0 0 (\<lambda>v. drop_bit 4 (v AND 0xF0))
      | Val_DI \<Rightarrow> get 0 0 (\<lambda>v. v AND 0x0F)
      | Val_II \<Rightarrow> get 0 1 (\<lambda>v. drop_bit 5 (v AND 0x60))
      | Val_PI1 \<Rightarrow> get 0 1 (\<lambda>v. v AND 0x1F)
      | Val_PI2 \<Rightarrow> get 1 1 id
      | Val_N \<Rightarrow> get 0 2 id)"

datatype parameter = Par_F | Par_D | Par_I | Par_P | Par_N

definition ATR_GetParameter :: "atr \<Rightarrow> parameter \<Rightarrow> rat option" where
  "ATR_GetParameter a name = (case name of
     Par_F \<Rightarrow> do { r \<leftarrow> ATR_GetIntegerValue a Val_FI; Some (of_nat (atr_f_table ! (case r of Inr v \<Rightarrow> unat v | Inl e \<Rightarrow> 1))) }
   | Par_D \<Rightarrow> do { r \<leftarrow> ATR_GetIntegerValue a Val_DI; Some (case r of Inr v \<Rightarrow> atr_d_table ! unat v | Inl e \<Rightarrow> 1) }
   | Par_I \<Rightarrow> do { r \<leftarrow> ATR_GetIntegerValue a Val_II; Some (case r of Inr v \<Rightarrow> of_nat (atr_i_table ! unat v) | Inl e \<Rightarrow> 50) }
   | Par_P \<Rightarrow> do {
       r2 \<leftarrow> ATR_GetIntegerValue a Val_PI2;
       (case r2 of
          Inr v \<Rightarrow> Some (of_nat (unat v))
        | Inl e \<Rightarrow> do { r1 \<leftarrow> ATR_GetIntegerValue a Val_PI1; Some (case r1 of Inr v \<Rightarrow> of_nat (unat v) | Inl e \<Rightarrow> 5) }) }
   | Par_N \<Rightarrow> do { r \<leftarrow> ATR_GetIntegerValue a Val_N; Some (case r of Inr v \<Rightarrow> of_nat (unat v) | Inl e \<Rightarrow> 0) })"

definition ATR_GetHistoricalBytes :: "atr \<Rightarrow> atr_error + u8 list" where
  "ATR_GetHistoricalBytes a = (if a_hb a = [] then Inl ATR_NOT_FOUND else Inr (a_hb a))"

definition ATR_GetCheckByte :: "atr \<Rightarrow> atr_error + u8" where
  "ATR_GetCheckByte a = (case a_TCK a of None \<Rightarrow> Inl ATR_NOT_FOUND | Some b \<Rightarrow> Inr b)"

definition ATR_GetFsMax :: "atr \<Rightarrow> nat option" where
  "ATR_GetFsMax a = do { r \<leftarrow> ATR_GetIntegerValue a Val_FI; Some (atr_fs_table ! (case r of Inr v \<Rightarrow> unat v | Inl e \<Rightarrow> 1)) }"

definition opt_bytes :: "u8 option \<Rightarrow> u8 list" where
  "opt_bytes x = (case x of None \<Rightarrow> [] | Some b \<Rightarrow> [b])"

definition ATR_GetRaw :: "atr \<Rightarrow> u8 list" where
  "ATR_GetRaw a = [a_TS a, a_T0 a] @ concat (map (\<lambda>row. concat (map opt_bytes row)) (take (a_pn a) (a_ib a))) @ a_hb a @ opt_bytes (a_TCK a)"

section \<open>Printing what was parsed\<close>

lemma take_Suc_nth: "i < length xs \<Longrightarrow> take (Suc i) xs = take i xs @ [xs ! i]"
  by (rule take_Suc_conv_app_nth)

lemma interface_byte_ok:
  assumes "interface_byte buf td m p = Some (x, p')" "p < length buf"
  shows "p \<le> p' \<and> p' < length buf \<and> take (Suc p') buf = take (Suc p) buf @ opt_bytes x \<and> (x \<noteq> None \<longrightarrow> p < p')"
  using assms by (auto simp: interface_byte_def fetch_def opt_bytes_def take_Suc_nth split: if_splits)

lemma atr_row_ok:
  assumes "atr_row buf td p = Some (row, p')" "p < length buf"
  shows "p \<le> p' \<and> p' < length buf \<and> take (Suc p') buf = take (Suc p) buf @ concat (map opt_bytes row) \<and> length row = 4 \<and>
    (row ! 3 \<noteq> None \<longrightarrow> p < p')"
proof -
  obtain ta p1 tb p2 tc p3 td' where r: "interface_byte buf td 0xEF p = Some (ta, p1)" "interface_byte buf td 0xDF p1 = Some (tb, p2)"
    "interface_byte buf td 0xBF p2 = Some (tc, p3)" "interface_byte buf td 0x7F p3 = Some (td', p')" "row = [ta, tb, tc, td']"
    using assms(1) by (auto simp: atr_row_def bind_eq_Some_conv)
  note 1 = interface_byte_ok [OF r(1) assms(2)]
  note 2 = interface_byte_ok [OF r(2)] and 3 = interface_byte_ok [OF r(3)] and 4 = interface_byte_ok [OF r(4)]
  show ?thesis using 1 2 3 4 r(5) by (auto simp: numeral_3_eq_3)
qed

lemma atr_loop_ok:
  "atr_loop buf td p ib tck = Some (Inr (p', ib', tck')) \<Longrightarrow> p < length buf \<Longrightarrow>
   p' < length buf \<and> (\<exists>rows. rows \<noteq> [] \<and> ib' = ib @ rows \<and> (\<forall>row \<in> set rows. length row = 4) \<and> length ib' \<le> ATR_MAX_PROTOCOLS \<and>
     take (Suc p') buf = take (Suc p) buf @ concat (map (\<lambda>row. concat (map opt_bytes row)) rows))"
proof (induction buf td p ib tck rule: atr_loop.induct)
  case (1 buf td p ib tck)
  obtain row q where row: "atr_row buf td p = Some (row, q)" and l: "length ib < ATR_MAX_PROTOCOLS" and nm: "\<not> length buf \<le> p + atr_num_ib_table ! unat (drop_bit 4 (td AND 0xF0))"
    and c: "(case row ! 3 of None \<Rightarrow> Some (Inr (q, ib @ [row], tck))
      | Some td' \<Rightarrow> if p < q then atr_loop buf td' q (ib @ [row]) (td' AND 0x0F \<noteq> 0) else None) = Some (Inr (p', ib', tck'))"
    using "1.prems" by (subst (asm) (2) atr_loop.simps) (auto split: if_splits option.splits)
  note R = atr_row_ok [OF row "1.prems"(2)]
  show ?case
  proof (cases "row ! 3")
    case None
    then show ?thesis using c R l by (intro conjI exI [of _ "[row]"]) auto
  next
    case (Some td')
    then have "p < q" and n: "atr_loop buf td' q (ib @ [row]) (td' AND 0x0F \<noteq> 0) = Some (Inr (p', ib', tck'))" using R c by simp_all
    from "1.IH" [OF "1.prems"(2) nm _ row refl Some \<open>p < q\<close> n] R l obtain rows where
      "p' < length buf" "rows \<noteq> []" "ib' = (ib @ [row]) @ rows" "\<forall>row \<in> set rows. length row = 4" "length ib' \<le> ATR_MAX_PROTOCOLS"
      "take (Suc p') buf = take (Suc q) buf @ concat (map (\<lambda>row. concat (map opt_bytes row)) rows)" by auto
    then show ?thesis using R by (intro conjI exI [of _ "row # rows"]) simp_all
  qed
qed

lemma atr_tail_ok:
  assumes "atr_tail buf p ib tck = Some (Inr a)" "1 \<le> p" "p < length buf"
  shows "a_length a \<le> length buf \<and> a_ib a = ib \<and> a_pn a = length ib \<and> a_TS a = buf ! 0 \<and> a_T0 a = buf ! 1 \<and>
    take (a_length a) buf = take (Suc p) buf @ a_hb a @ opt_bytes (a_TCK a) \<and> length (a_hb a) \<le> 15"
proof -
  obtain t0 where t0: "fetch buf 1 = Some t0" using assms by (auto simp: fetch_def)
  define hbn0 where "hbn0 = unat (t0 AND 0x0F)"
  define hbn where "hbn = (if length buf \<le> p + hbn0 then length buf - p - 2 else hbn0)"
  define q' where "q' = (if tck then p + hbn + 1 else p + hbn)"
  have n1: "\<not> (length buf \<le> p + hbn0 \<and> length buf - p < 2)" and n2: "\<not> (tck \<and> length buf \<le> p + hbn + 1)"
    and a: "a = \<lparr>a_length = q' + 1, a_TS = buf ! 0, a_T0 = t0, a_ib = ib, a_TCK = (if tck then Some (buf ! q') else None),
        a_pn = length ib, a_hb = take hbn (drop (p + 1) buf)\<rparr>"
    using assms(1) t0
    by (simp_all add: atr_tail_def fetch_Some_iff hbn0_def [symmetric] Let_def bind_eq_Some_conv hbn_def [symmetric] q'_def [symmetric]
        split: if_split_asm) (auto simp: hbn_def q'_def)
  have "t0 AND 0x0F \<le> 0x0F" by (rule word_and_le1)
  then have h15: "hbn0 \<le> 15" unfolding hbn0_def using word_le_nat_alt [of "t0 AND 0x0F" "0x0F"] by simp
  have hb: "hbn \<le> hbn0 \<and> p + hbn < length buf" using n1 assms(3) by (auto simp: hbn_def)
  have q: "q' < length buf" using hb n2 by (auto simp: q'_def)
  have t: "take (Suc p + hbn) buf = take (Suc p) buf @ take hbn (drop (Suc p) buf)" by (rule take_add)
  have "take (Suc q') buf = take (Suc p) buf @ take hbn (drop (Suc p) buf) @ opt_bytes (if tck then Some (buf ! q') else None)"
  proof (cases tck)
    case True
    then have e: "q' = Suc p + hbn" by (simp add: q'_def)
    then have "take (Suc q') buf = take (Suc p + hbn) buf @ [buf ! q']" using q take_Suc_nth [of q' buf] by simp
    then show ?thesis using t True by (simp add: opt_bytes_def)
  next
    case False
    then have "Suc q' = Suc p + hbn" by (simp add: q'_def)
    then show ?thesis using t False by (simp add: opt_bytes_def)
  qed
  then show ?thesis using a t0 q hb h15 by (simp add: fetch_Some_iff min_le_iff_disj)
qed

lemma length_convention [simp]: "length (atr_convention bs) = length bs"
  by (simp add: atr_convention_def)

text \<open>C35. The parser and the printer of the answer to reset agree: from the structure that \<open>ATR_InitFromArray\<close> leaves,
  \<open>ATR_GetRaw\<close> prints exactly the first \<open>length\<close> bytes that were received, read in the convention of the card; they are at
  most as many as were received, and there are at most seven protocols and fifteen historical bytes.\<close>

theorem atr_raw_roundtrip:
  assumes "ATR_InitFromArray bs n = Some (Inr a)"
  shows "ATR_GetRaw a = take (a_length a) (atr_convention (take n bs)) \<and> length (ATR_GetRaw a) = a_length a \<and> a_length a \<le> n \<and>
    1 \<le> a_pn a \<and> a_pn a = length (a_ib a) \<and> a_pn a \<le> ATR_MAX_PROTOCOLS \<and> length (a_hb a) \<le> 15"
proof -
  define buf where "buf = atr_convention (take n bs)"
  have n: "2 \<le> n" "length buf = n" using assms by (auto simp: ATR_InitFromArray_def buf_def split: if_splits)
  obtain r where r: "atr_loop buf (buf ! 1) 1 [] False = Some r"
    "(case r of Inl e \<Rightarrow> Some (Inl e) | Inr (p, ib, tck) \<Rightarrow> atr_tail buf p ib tck) = Some (Inr a)"
    using assms unfolding ATR_InitFromArray_def buf_def [symmetric] Let_def
    by (cases "atr_loop buf (buf ! 1) 1 [] False") (simp_all split: if_splits)
  then obtain p ib tck where l: "atr_loop buf (buf ! 1) 1 [] False = Some (Inr (p, ib, tck))" and t: "atr_tail buf p ib tck = Some (Inr a)"
    by (cases r) auto
  from atr_loop_ok [OF l] n obtain rows where L: "p < length buf" "rows \<noteq> []" "ib = rows" "length ib \<le> ATR_MAX_PROTOCOLS"
    "take (Suc p) buf = take (Suc 1) buf @ concat (map (\<lambda>row. concat (map opt_bytes row)) rows)" by auto
  have "2 \<le> length (take (Suc p) buf)" using L(5) n by simp
  then have p1: "1 \<le> p" by simp
  note T = atr_tail_ok [OF t p1 L(1)]
  have "take (Suc 1) buf = [buf ! 0, buf ! 1]" using n take_Suc_nth [of 1 buf] take_Suc_nth [of 0 buf] by simp
  then have raw: "ATR_GetRaw a = take (a_length a) buf" using T L(3,5) by (simp add: ATR_GetRaw_def)
  have "a_length a \<le> length buf" using T by blast
  then have "length (ATR_GetRaw a) = a_length a" unfolding raw by simp
  moreover have "1 \<le> length ib" using L(2,3) by (cases rows) simp_all
  ultimately show ?thesis using T L(4) n raw unfolding buf_def [symmetric] by (simp only:)
qed

theorem atr_raw_roundtrip_witness:
  "\<exists>a. ATR_InitFromArray ([0x3B, 0x92, 0x11, 0x81, 0x21, 0xAA, 0xBB, 0x5C, 0, 0] @ replicate 23 0) 10 = Some (Inr a) \<and>
     ATR_GetRaw a = [0x3B, 0x92, 0x11, 0x81, 0x21, 0xAA, 0xBB, 0x5C, 0] \<and> a_pn a = 3"
proof -
  let ?bs = "[0x3B, 0x92, 0x11, 0x81, 0x21, 0xAA, 0xBB, 0x5C, 0, 0] @ replicate 23 0" 
  have "(case ATR_InitFromArray ?bs 10 of Some (Inr a) \<Rightarrow> a_length a = 9 \<and> a_pn a = 3 | _ \<Rightarrow> False)" by code_simp
  then obtain a where a: "ATR_InitFromArray ?bs 10 = Some (Inr a)" "a_length a = 9" "a_pn a = 3"
    by (auto split: option.splits sum.splits)
  have "take 9 (atr_convention (take 10 ?bs)) = [0x3B, 0x92, 0x11, 0x81, 0x21, 0xAA, 0xBB, 0x5C, 0]" by code_simp
  then show ?thesis using atr_raw_roundtrip [OF a(1)] a by auto
qed

text \<open>The parser never reads behind the bytes it is given.\<close>

lemma interface_byte_defined: "interface_byte buf td m p = None \<longleftrightarrow> td OR m = 0xFF \<and> length buf \<le> p + 1"
  by (simp add: interface_byte_def fetch_def)

text \<open>The number of bytes that a row takes is the entry of the table.\<close>

lemma row_count:
  "atr_num_ib_table ! unat (drop_bit 4 (td AND 0xF0)) =
     (if td OR 0xEF = 0xFF then 1 else 0) + (if td OR 0xDF = 0xFF then 1 else 0) + (if td OR 0xBF = 0xFF then 1 else 0) +
     (if td OR 0x7F = 0xFF then 1 else 0)" for td :: u8
proof -
  have e: "P td" if "list_all (\<lambda>n. P (word_of_nat n :: u8)) [0..<256]" for P
  proof -
    have "unat td \<in> {0..<256}" using unsigned_less [of td] by simp
    then have "P (word_of_nat (unat td))" using that by (simp only: list_all_iff set_upt)
    then show ?thesis by simp
  qed
  show ?thesis by (rule e) code_simp
qed

lemma atr_row_defined:
  assumes "p + atr_num_ib_table ! unat (drop_bit 4 (td AND 0xF0)) < length buf"
  shows "\<exists>row p'. atr_row buf td p = Some (row, p')"
proof -
  have i: "interface_byte buf td m q = (if td OR m = 0xFF then Some (Some (buf ! (q + 1)), q + 1) else Some (None, q))"
    if "td OR m = 0xFF \<Longrightarrow> q + 1 < length buf" for m q
    using that by (simp add: interface_byte_def fetch_def)
  show ?thesis using assms unfolding row_count atr_row_def by (simp add: i split: if_splits)
qed

lemma atr_loop_defined:
  "atr_loop buf td p ib tck = None \<Longrightarrow> ATR_MAX_PROTOCOLS + p \<le> length buf - 1 + length ib"
proof (induction buf td p ib tck rule: atr_loop.induct)
  case (1 buf td p ib tck)
  show ?case
  proof (cases "p < length buf \<and> \<not> length buf \<le> p + atr_num_ib_table ! unat (drop_bit 4 (td AND 0xF0)) \<and> length ib < ATR_MAX_PROTOCOLS")
    case False
    then show ?thesis using "1.prems" by (auto simp: atr_loop.simps [of buf td p ib tck] split: if_splits)
  next
    case True
    then obtain row q where row: "atr_row buf td p = Some (row, q)" using atr_row_defined [of p td buf] by fastforce
    note R = atr_row_ok [OF row]
    have c: "(case row ! 3 of None \<Rightarrow> Some (Inr (q, ib @ [row], tck))
      | Some td' \<Rightarrow> if p < q then atr_loop buf td' q (ib @ [row]) (td' AND 0x0F \<noteq> 0) else None) = None"
      using "1.prems" True row by (simp add: atr_loop.simps [of buf td p ib tck])
    then obtain td' where td': "row ! 3 = Some td'" by (auto split: option.splits)
    then have "p < q" and n: "atr_loop buf td' q (ib @ [row]) (td' AND 0x0F \<noteq> 0) = None" using R True c by auto
    from "1.IH" [OF _ _ _ row refl td' \<open>p < q\<close> n] True \<open>p < q\<close> show ?thesis by auto
  qed
qed

text \<open>The parser of the answer to reset is total on up to eight bytes: it reads nothing behind them and writes nothing outside the
  structure. (With nine bytes, seven of them \<open>TD\<close>, the row behind the last one is written.)\<close>

theorem atr_init_defined:
  assumes "n \<le> 8" "n \<le> length bs"
  shows "ATR_InitFromArray bs n \<noteq> None"
proof (cases "n < 2")
  case False
  define buf where "buf = atr_convention (take n bs)"
  have l: "length buf = n" using assms by (simp add: buf_def)
  obtain r where r: "atr_loop buf (buf ! 1) 1 [] False = Some r"
    using atr_loop_defined [of buf "buf ! 1" 1 "[]" False] assms l by (cases "atr_loop buf (buf ! 1) 1 [] False") (auto simp: ATR_MAX_PROTOCOLS_def)
  have "atr_tail buf p ib tck \<noteq> None" for p ib tck
    using False l by (simp add: atr_tail_def fetch_def Let_def)
  then show ?thesis using r False assms by (simp add: ATR_InitFromArray_def buf_def [symmetric] ATR_MAX_SIZE_def Let_def split: sum.split)
qed (simp add: ATR_InitFromArray_def)

theorem atr_init_defined_witness: "ATR_InitFromArray [0x3B, 0x90, 0x11, 0x81, 0x21, 0xAA, 0, 0] 8 \<noteq> None"
  using atr_init_defined [of 8 "[0x3B, 0x90, 0x11, 0x81, 0x21, 0xAA, 0, 0]"] by simp

lemma atr_overrun: "ATR_InitFromArray [0x3B, 0x80, 0x80, 0x80, 0x80, 0x80, 0x80, 0x80, 0x00] 9 = None"
  by code_simp

text \<open>Whether a check byte is expected depends on the last \<open>TD\<close> alone, though every \<open>TD\<close> but those for T=0 calls for one.\<close>

lemma tck_of_last_td:
  "case ATR_InitFromArray [0x3B, 0x80, 0x81, 0x00, 0x01] 5 of Some (Inr a) \<Rightarrow> a_TCK a = None | _ \<Rightarrow> False"
  by code_simp

end
