(* ===== verification/Card.thy ===== *)
theory Card
  imports Atr
begin

unbundle bit_operations_syntax

text \<open>
  The line to a smartcard as \<open>csctapi/icc_async.c\<close> gives it to the protocols T=0, T=1 and T=14: sending and receiving
  bytes in the convention of the card, the choice of the information field size, and the exchange of a protocol and
  parameters selection (PPS). The driver of the card reader is a parameter of everything here: two functions over a state of
  its own. Waiting times are kept in elementary time units, as \<open>ICC_Async_SetTimings\<close> takes them.
\<close>

section \<open>Data\<close>

text \<open>The fields of \<open>s_reader\<close> that the protocols use. \<open>c_inverts\<close>: the driver leaves the inversion of the bytes to the caller
  (\<open>crdr.need_inverse\<close>, or a reader type up to \<open>R_MOUSE\<close>); \<open>c_mouse\<close>: the type is up to \<open>R_MOUSE\<close>.\<close>

record icc =
  c_convention :: nat
  c_inverts :: bool
  c_mouse :: bool
  c_protocol :: nat
  c_ns :: u8
  c_ifsc :: nat
  c_BWT :: nat
  c_CWT :: nat
  c_wait :: nat

text \<open>The driver: sending bytes (\<open>True\<close> is \<open>OK\<close>), and receiving a number of bytes within a time.\<close>

record 'e driver =
  d_transmit :: "u8 list \<Rightarrow> 'e \<Rightarrow> bool \<times> 'e"
  d_receive :: "nat \<Rightarrow> nat \<Rightarrow> 'e \<Rightarrow> u8 list option \<times> 'e"

text \<open>What a driver promises: it fills the buffer it is given.\<close>

definition fills :: "'e driver \<Rightarrow> bool" where
  "fills d \<longleftrightarrow> (\<forall>w n e bs. fst (d_receive d w n e) = Some bs \<longrightarrow> length bs = n)"

text \<open>The result of an exchange: the response, a return code other than \<open>OK\<close>, or an access outside an array.\<close>

datatype icc_result = OK "u8 list" | ERROR | FAULT

definition DEFAULT_IFSC :: nat where "DEFAULT_IFSC = 32"
definition MAX_IFSC :: nat where "MAX_IFSC = 251"
definition CTA_RES_LEN :: nat where "CTA_RES_LEN = 512"

section \<open>Sending and receiving\<close>

definition ICC_Async_InvertBuffer :: "u8 list \<Rightarrow> u8 list" where
  "ICC_Async_InvertBuffer bs = map (\<lambda>b. NOT (invert_byte b)) bs"

definition ICC_Async_SetTimings :: "nat \<Rightarrow> icc \<Rightarrow> icc" where
  "ICC_Async_SetTimings w r = r\<lparr>c_wait := w\<rparr>"

definition ICC_Async_Transmit :: "'e driver \<Rightarrow> icc \<Rightarrow> u8 list \<Rightarrow> 'e \<Rightarrow> bool \<times> 'e" where
  "ICC_Async_Transmit d r bs e =
     d_transmit d (if c_convention r = ATR_CONVENTION_INVERSE \<and> c_inverts r then ICC_Async_InvertBuffer bs else bs) e"

definition ICC_Async_Receive :: "'e driver \<Rightarrow> icc \<Rightarrow> nat \<Rightarrow> 'e \<Rightarrow> u8 list option \<times> 'e" where
  "ICC_Async_Receive d r n e = (case d_receive d (c_wait r) n e of
     (None, e') \<Rightarrow> (None, e')
   | (Some bs, e') \<Rightarrow>
       (Some (if c_convention r = ATR_CONVENTION_INVERSE \<and> c_inverts r then ICC_Async_InvertBuffer bs else bs), e'))"

lemma receive_length:
  assumes "fills d" "ICC_Async_Receive d r n e = (Some bs, e')"
  shows "length bs = n"
proof -
  obtain cs where "d_receive d (c_wait r) n e = (Some cs, e')" "length bs = length cs"
    using assms(2) by (auto simp: ICC_Async_Receive_def ICC_Async_InvertBuffer_def split: prod.splits option.splits if_splits)
  then show ?thesis using assms(1) unfolding fills_def by (metis fst_conv)
qed

lemma direct_transmit [simp]: "c_convention r = ATR_CONVENTION_DIRECT \<Longrightarrow> ICC_Async_Transmit d r bs e = d_transmit d bs e"
  by (simp add: ICC_Async_Transmit_def ATR_CONVENTION_DIRECT_def ATR_CONVENTION_INVERSE_def)

lemma direct_receive [simp]: "c_convention r = ATR_CONVENTION_DIRECT \<Longrightarrow> ICC_Async_Receive d r n e = d_receive d (c_wait r) n e"
  by (auto simp: ICC_Async_Receive_def ATR_CONVENTION_DIRECT_def ATR_CONVENTION_INVERSE_def split: prod.splits option.splits)

text \<open>Inverting twice gives the byte back, so both sides of the line may do it.\<close>

lemma bit_invert_byte: "n < 8 \<Longrightarrow> bit (invert_byte b) n = bit b (7 - n)"
proof -
  assume "n < 8"
  then have "n = 0 \<or> n = 1 \<or> n = 2 \<or> n = 3 \<or> n = 4 \<or> n = 5 \<or> n = 6 \<or> n = 7" by arith
  then show ?thesis
    by (elim disjE) (simp_all add: invert_byte_def bit_or_iff bit_and_iff bit_push_bit_iff bit_drop_bit_eq bit_double_iff [simplified mult.commute])
qed

lemma invert_byte_involutive: "NOT (invert_byte (NOT (invert_byte b))) = b"
proof (rule bit_word_eqI)
  fix n assume "n < LENGTH(8)"
  then have "n < 8" "7 - n < 8" "7 - (7 - n) = n" by auto
  then show "bit (NOT (invert_byte (NOT (invert_byte b)))) n = bit b n"
    by (simp add: bit_not_iff bit_invert_byte)
qed

lemma invert_buffer_involutive: "ICC_Async_InvertBuffer (ICC_Async_InvertBuffer bs) = bs"
  by (simp add: ICC_Async_InvertBuffer_def comp_def invert_byte_involutive)

section \<open>A line of recorded bytes\<close>

text \<open>A driver whose card says what is written down beforehand; it keeps what is sent to it.\<close>

record line =
  l_sent :: "u8 list"
  l_coming :: "u8 list"

definition line_driver :: "line driver" where
  "line_driver = \<lparr>
     d_transmit = (\<lambda>bs s. (True, s\<lparr>l_sent := l_sent s @ bs\<rparr>)),
     d_receive = (\<lambda>w n s. if n \<le> length (l_coming s) then (Some (take n (l_coming s)), s\<lparr>l_coming := drop n (l_coming s)\<rparr>) else (None, s))\<rparr>"

lemma line_driver_fills: "fills line_driver"
  by (auto simp: fills_def line_driver_def)

lemma line_transmit [simp]:
  "c_convention r = ATR_CONVENTION_DIRECT \<Longrightarrow> ICC_Async_Transmit line_driver r bs s = (True, s\<lparr>l_sent := l_sent s @ bs\<rparr>)"
  by (simp add: line_driver_def)

lemma line_receive [simp]:
  "c_convention r = ATR_CONVENTION_DIRECT \<Longrightarrow> l_coming s = bs @ rest \<Longrightarrow> n = length bs \<Longrightarrow>
   ICC_Async_Receive line_driver r n s = (Some bs, s\<lparr>l_coming := rest\<rparr>)"
  by (simp add: line_driver_def)

end
