(* ===== verification/T0.thy ===== *)
theory T0
  imports Card
begin

unbundle bit_operations_syntax

text \<open>
  The protocols T=0 and T=14, \<open>csctapi/protocol_t0.c\<close>: the case of a command, the exchange of one TPDU with its procedure
  bytes, and the extended cases that are mapped onto several TPDUs. In \<open>Protocol_T0_ExchangeTPDU\<close> a command of case 2S sends data and one
  of case 3S receives them. Its loop ends only when the card lets it: \<open>None\<close> is a command that never returns.
\<close>

section \<open>The case of a command\<close>

datatype apdu_case = APDU_CASE_1 | APDU_CASE_2S | APDU_CASE_3S | APDU_CASE_4S | APDU_CASE_2E | APDU_CASE_3E | APDU_CASE_4E | APDU_MALFORMED

definition APDU_Cmd_Case :: "u8 list \<Rightarrow> apdu_case" where
  "APDU_Cmd_Case command =
     (let L = length command - 4 in
      if L = 0 then APDU_CASE_1
      else
        (let B1 = command ! 4 in
         if B1 \<noteq> 0 \<and> L = unat B1 + 1 then APDU_CASE_2S
         else if L = 1 then APDU_CASE_3S
         else if B1 \<noteq> 0 \<and> L = unat B1 + 2 then APDU_CASE_4S
         else if B1 = 0 \<and> 2 < L then
           (let B2B3 = 256 * unat (command ! 5) + unat (command ! 6) in
            if B2B3 \<noteq> 0 \<and> L = B2B3 + 3 then APDU_CASE_2E
            else if L = 3 then APDU_CASE_3E
            else if B2B3 \<noteq> 0 \<and> L = B2B3 + 5 then APDU_CASE_4E
            else APDU_MALFORMED)
         else APDU_MALFORMED))"

section \<open>One TPDU\<close>

definition PROTOCOL_T0_MAX_NULLS :: nat where "PROTOCOL_T0_MAX_NULLS = 200"
definition PROTOCOL_T0_MAX_SHORT_RESPONSE :: nat where "PROTOCOL_T0_MAX_SHORT_RESPONSE = 258"

text \<open>What a byte from the card means to the loop.\<close>

datatype procedure_byte = P_NULL | P_SW1 | P_ACK | P_NACK | P_BAD

definition procedure_byte :: "u8 \<Rightarrow> u8 \<Rightarrow> procedure_byte" where
  "procedure_byte ins p =
     (if p = 0x60 then P_NULL
      else if p AND 0xF0 = 0x60 \<or> p AND 0xF0 = 0x90 then P_SW1
      else if p AND 0x0E = ins AND 0x0E then P_ACK
      else if p AND 0x0E = NOT ins AND 0x0E then P_NACK
      else P_BAD)"

text \<open>The loop: \<open>buf\<close> holds the \<open>recv\<close> bytes of the response so far, \<open>data\<close> is what a command of case 2S sends (\<open>None\<close> for case 3S,
  which expects \<open>le\<close> bytes).\<close>

partial_function (option) t0_loop ::
  "'e driver \<Rightarrow> icc \<Rightarrow> u8 \<Rightarrow> u8 list option \<Rightarrow> nat \<Rightarrow> u8 list \<Rightarrow> nat \<Rightarrow> nat \<Rightarrow> 'e \<Rightarrow> (icc_result \<times> 'e) option" where
  "t0_loop d r ins data le buf nulls sent e =
     (if PROTOCOL_T0_MAX_SHORT_RESPONSE \<le> length buf then Some (OK buf, e)
      else (case ICC_Async_Receive d r 1 e of
          (None, e1) \<Rightarrow> Some (ERROR, e1)
        | (Some bs, e1) \<Rightarrow> (case procedure_byte ins (bs ! 0) of
            P_NULL \<Rightarrow>
              (if PROTOCOL_T0_MAX_NULLS \<le> nulls + 1 then Some (ERROR, e1)
               else t0_loop d r ins data le buf (nulls + 1) sent e1)
          | P_SW1 \<Rightarrow>
              (if PROTOCOL_T0_MAX_SHORT_RESPONSE \<le> length buf + 1 then Some (ERROR, e1)
               else (case ICC_Async_Receive d r 1 e1 of
                   (None, e2) \<Rightarrow> Some (ERROR, e2)
                 | (Some sw2, e2) \<Rightarrow> Some (OK (buf @ [bs ! 0] @ sw2), e2)))
          | P_ACK \<Rightarrow> (case data of
              Some D \<Rightarrow>
                (if length D \<le> sent then Some (ERROR, e1)
                 else (case ICC_Async_Transmit d r (drop sent D) e1 of
                     (ok, e2) \<Rightarrow> (if ok then t0_loop d r ins data le buf 0 (length D) e2 else Some (ERROR, e2))))
            | None \<Rightarrow> (case ICC_Async_Receive d r (le - length buf) e1 of
                (None, e2) \<Rightarrow> Some (ERROR, e2)
              | (Some xs, e2) \<Rightarrow> t0_loop d r ins data le (take le buf @ xs) 0 sent e2))
          | P_NACK \<Rightarrow> (case data of
              Some D \<Rightarrow>
                (if length D \<le> sent then Some (ERROR, e1)
                 else (case ICC_Async_Transmit d r [D ! sent] e1 of
                     (ok, e2) \<Rightarrow> (if ok then t0_loop d r ins data le buf 0 (sent + 1) e2 else Some (ERROR, e2))))
            | None \<Rightarrow> (case ICC_Async_Receive d r 1 e1 of
                (None, e2) \<Rightarrow> Some (ERROR, e2)
              | (Some xs, e2) \<Rightarrow> t0_loop d r ins data le (buf @ xs) 0 sent e2))
          | P_BAD \<Rightarrow> Some (ERROR, e1))))"

declare t0_loop.simps [code]

definition Protocol_T0_ExchangeTPDU :: "'e driver \<Rightarrow> icc \<Rightarrow> u8 list \<Rightarrow> 'e \<Rightarrow> (icc_result \<times> 'e) option" where
  "Protocol_T0_ExchangeTPDU d r command e =
     (let start = (\<lambda>data le. case ICC_Async_Transmit d r (take 5 command) e of
          (ok, e1) \<Rightarrow> (if ok then t0_loop d r (command ! 1) data le [] 0 0 e1 else Some (ERROR, e1))) in
      case APDU_Cmd_Case command of
        APDU_CASE_2S \<Rightarrow> start (Some (take (unat (command ! 4)) (drop 5 command))) 0
      | APDU_CASE_3S \<Rightarrow> start None (unat (command ! 4))
      | _ \<Rightarrow> Some (ERROR, e))"

section \<open>Extended commands\<close>

text \<open>These work on the buffer of the caller: the return code, the buffer and the length that is reported.\<close>

datatype icc_code = C_OK | C_ERROR | C_FAULT

type_synonym 'e t0_out = "(icc_code \<times> u8 list \<times> nat \<times> 'e) option"

definition put :: "u8 list \<Rightarrow> nat \<Rightarrow> u8 list \<Rightarrow> u8 list option" where
  "put rsp off bs = (if off + length bs \<le> length rsp then Some (take off rsp @ bs @ drop (off + length bs) rsp) else None)"

definition respond :: "u8 list \<Rightarrow> u8 list \<Rightarrow> 'e \<Rightarrow> icc_code \<times> u8 list \<times> nat \<times> 'e" where
  "respond rsp bs e = (case put rsp 0 bs of None \<Rightarrow> (C_FAULT, rsp, 0, e) | Some rsp' \<Rightarrow> (C_OK, rsp', length bs, e))"

text \<open>A TPDU whose response is the response.\<close>

definition t0_tpdu :: "'e driver \<Rightarrow> icc \<Rightarrow> u8 list \<Rightarrow> u8 list \<Rightarrow> 'e \<Rightarrow> 'e t0_out" where
  "t0_tpdu d r command rsp e = map_option (\<lambda>(x, e1). case x of
     OK bs \<Rightarrow> respond rsp bs e1 | ERROR \<Rightarrow> (C_ERROR, rsp, 0, e1) | FAULT \<Rightarrow> (C_FAULT, rsp, 0, e1))
     (Protocol_T0_ExchangeTPDU d r command e)"

definition sw1 :: "u8 list \<Rightarrow> u8" where "sw1 bs = bs ! (length bs - 2)"
definition sw2 :: "u8 list \<Rightarrow> u8" where "sw2 bs = bs ! (length bs - 1)"

definition envelope :: "u8 list \<Rightarrow> nat \<Rightarrow> u8 list" where
  "envelope command i = (let part = take 255 (drop i command) in [command ! 0, 0xC2, 0, 0, of_nat (length part)] @ part)"

function t0_envelopes :: "'e driver \<Rightarrow> icc \<Rightarrow> u8 list \<Rightarrow> nat \<Rightarrow> u8 list \<Rightarrow> nat \<Rightarrow> 'e \<Rightarrow> 'e t0_out" where
  "t0_envelopes d r command i rsp lr e =
     (if i < length command then
        (let n = min 255 (length command - i) in
         case Protocol_T0_ExchangeTPDU d r (envelope command i) e of
           None \<Rightarrow> None
         | Some (x, e1) \<Rightarrow> (case x of
             OK bs \<Rightarrow>
               (if sw1 bs = 0x90 \<and> n + i < length command then t0_envelopes d r command (i + n) rsp lr e1
                else Some (respond rsp bs e1))
           | ERROR \<Rightarrow> Some (C_ERROR, rsp, lr, e1)
           | FAULT \<Rightarrow> Some (C_FAULT, rsp, lr, e1)))
      else Some (C_OK, rsp, lr, e))"
  by pat_completeness auto
termination by (relation "measure (\<lambda>(d, r, command, i, rsp, lr, e). length command - i)") auto

declare t0_envelopes.simps [simp del]

definition long_length :: "u8 list \<Rightarrow> nat \<Rightarrow> nat" where
  "long_length command i = 256 * unat (command ! i) + unat (command ! (i + 1))"

definition Protocol_T0_Case2E :: "'e driver \<Rightarrow> icc \<Rightarrow> u8 list \<Rightarrow> u8 list \<Rightarrow> nat \<Rightarrow> 'e \<Rightarrow> 'e t0_out" where
  "Protocol_T0_Case2E d r command rsp lr e =
     (let Lc = long_length command 5 in
      if Lc < 256 then t0_tpdu d r (take 4 command @ [of_nat Lc] @ take Lc (drop 7 command)) rsp e
      else t0_envelopes d r command 0 rsp lr e)"

text \<open>Fetching the rest of a response. The status bytes of each part are overwritten by the next, but the length counts them.\<close>

partial_function (option) t0_get_response ::
  "'e driver \<Rightarrow> icc \<Rightarrow> u8 \<Rightarrow> nat \<Rightarrow> nat \<Rightarrow> u8 list \<Rightarrow> nat \<Rightarrow> 'e \<Rightarrow> 'e t0_out" where
  "t0_get_response d r cla Lx Le rsp lr e =
     (if lr < Le + 2 then
        (case Protocol_T0_ExchangeTPDU d r [cla, 0xC0, 0, 0, of_nat (min (Le + 2 - lr) Lx)] e of
           None \<Rightarrow> None
         | Some (x, e1) \<Rightarrow> (case x of
             OK bs \<Rightarrow>
               (if CTA_RES_LEN < lr + length bs then Some (C_ERROR, rsp, lr, e1)
                else (case put rsp (lr - 2) bs of
                    None \<Rightarrow> Some (C_FAULT, rsp, lr, e1)
                  | Some rsp' \<Rightarrow> t0_get_response d r cla Lx Le rsp' (lr + length bs) e1))
           | ERROR \<Rightarrow> Some (C_ERROR, rsp, lr, e1)
           | FAULT \<Rightarrow> Some (C_FAULT, rsp, lr, e1)))
      else Some (C_OK, rsp, lr, e))"

declare t0_get_response.simps [code]

definition or_64k :: "nat \<Rightarrow> nat" where
  "or_64k n = (if n = 0 then 65536 else n)"

definition Protocol_T0_Case3E :: "'e driver \<Rightarrow> icc \<Rightarrow> u8 list \<Rightarrow> u8 list \<Rightarrow> nat \<Rightarrow> 'e \<Rightarrow> 'e t0_out" where
  "Protocol_T0_Case3E d r command rsp lr e =
     (let Le = or_64k (long_length command 5); head = take 4 command in
      if Le \<le> 256 then t0_tpdu d r (head @ [of_nat Le]) rsp e
      else (case Protocol_T0_ExchangeTPDU d r (head @ [0]) e of
          None \<Rightarrow> None
        | Some (x, e1) \<Rightarrow> (case x of
            OK bs \<Rightarrow>
              (if sw1 bs = 0x6C then t0_tpdu d r (head @ [sw2 bs]) rsp e1
               else (case respond rsp bs e1 of
                   (C_OK, rsp', lr', e2) \<Rightarrow>
                     (if sw1 bs = 0x61 then
                        t0_get_response d r (command ! 0) (if sw2 bs = 0 then 256 else unat (sw2 bs)) Le rsp' lr' e2
                      else Some (C_OK, rsp', lr', e2))
                 | out \<Rightarrow> Some out))
          | ERROR \<Rightarrow> Some (C_ERROR, rsp, lr, e1)
          | FAULT \<Rightarrow> Some (C_FAULT, rsp, lr, e1))))"

definition t0_after_4e :: "'e driver \<Rightarrow> icc \<Rightarrow> u8 list \<Rightarrow> u8 list \<Rightarrow> u8 list \<Rightarrow> nat \<Rightarrow> 'e \<Rightarrow> 'e t0_out" where
  "t0_after_4e d r command bs rsp lr e =
     (let Le = or_64k (long_length command (length command - 2)); get = (\<lambda>hi lo. [command ! 0, 0xC0, 0, 0, 0, hi, lo]) in
      if sw1 bs = 0x61 then
        (let n = (if sw2 bs \<noteq> 0 then min (unat (sw2 bs)) Le else Le) in
         Protocol_T0_Case3E d r (get (of_nat (n div 256)) (of_nat (n mod 256))) rsp lr e)
      else if sw1 bs AND 0xF0 = 0x60 then Some (respond rsp bs e)
      else Protocol_T0_Case3E d r (get 0 (of_nat Le)) rsp lr e)"

definition Protocol_T0_Case4E :: "'e driver \<Rightarrow> icc \<Rightarrow> u8 list \<Rightarrow> u8 list \<Rightarrow> nat \<Rightarrow> 'e \<Rightarrow> 'e t0_out" where
  "Protocol_T0_Case4E d r command rsp lr e =
     (let Lc = long_length command 5 in
      Option.bind
        (if Lc < 256 then t0_tpdu d r (take 4 command @ [of_nat Lc] @ take Lc command) (replicate CTA_RES_LEN 0) e
         else Protocol_T0_Case2E d r command (replicate CTA_RES_LEN 0) 0 e)
        (\<lambda>(code, tpdu_rsp, tpdu_lr, e1).
           if code = C_OK then t0_after_4e d r command (take tpdu_lr tpdu_rsp) rsp lr e1 else Some (code, rsp, lr, e1)))"

definition Protocol_T0_Command :: "'e driver \<Rightarrow> icc \<Rightarrow> u8 list \<Rightarrow> u8 list \<Rightarrow> 'e \<Rightarrow> 'e t0_out" where
  "Protocol_T0_Command d r command rsp e =
     (if length command < 5 then Some (C_ERROR, rsp, 0, e)
      else (case APDU_Cmd_Case command of
          APDU_CASE_2E \<Rightarrow> Protocol_T0_Case2E d r command rsp 0 e
        | APDU_CASE_3E \<Rightarrow> Protocol_T0_Case3E d r command rsp 0 e
        | APDU_CASE_4E \<Rightarrow> Protocol_T0_Case4E d r command rsp 0 e
        | APDU_CASE_4S \<Rightarrow> t0_tpdu d r (butlast command) rsp e
        | APDU_CASE_2S \<Rightarrow> t0_tpdu d r command rsp e
        | APDU_CASE_3S \<Rightarrow> t0_tpdu d r command rsp e
        | _ \<Rightarrow> Some (C_ERROR, rsp, 0, e)))"

section \<open>T=14\<close>

definition xors :: "u8 list \<Rightarrow> u8 \<Rightarrow> u8" where
  "xors bs x = fold (\<lambda>b y. y XOR b) bs x"

text \<open>The response has a head of eight bytes, the last of which is the number of data bytes, and a check byte; the status is in the
  head. The buffer has 258 bytes.\<close>

definition t14_receive :: "'e driver \<Rightarrow> icc \<Rightarrow> 'e \<Rightarrow> icc_result \<times> 'e" where
  "t14_receive d r e = (case ICC_Async_Receive d r 8 e of
     (None, e1) \<Rightarrow> (ERROR, e1)
   | (Some head, e1) \<Rightarrow>
       (let recv = unat (head ! 7) in
        if PROTOCOL_T0_MAX_SHORT_RESPONSE < 8 + recv then (FAULT, e1)
        else (case (if recv = 0 then (Some [], e1) else ICC_Async_Receive d r recv e1) of
            (None, e2) \<Rightarrow> (ERROR, e2)
          | (Some body, e2) \<Rightarrow> (case ICC_Async_Receive d r 1 e2 of
              (None, e3) \<Rightarrow> (ERROR, e3)
            | (Some check, e3) \<Rightarrow>
                (if xors (head @ body) 0x3F \<noteq> check ! 0 then (ERROR, e3)
                 else if PROTOCOL_T0_MAX_SHORT_RESPONSE < 8 + recv + 2 then (FAULT, e3)
                 else (OK (body @ [head ! 2, head ! 3]), e3))))))"

definition Protocol_T14_ExchangeTPDU :: "'e driver \<Rightarrow> icc \<Rightarrow> u8 list \<Rightarrow> 'e \<Rightarrow> icc_result \<times> 'e" where
  "Protocol_T14_ExchangeTPDU d r command e =
     (let ixor = xors command 0x3E in
      if APDU_Cmd_Case command \<noteq> APDU_CASE_2S \<and> APDU_Cmd_Case command \<noteq> APDU_CASE_3S then (ERROR, e)
      else if c_mouse r then
        (case ICC_Async_Transmit d r [0x01] e of
           (False, e1) \<Rightarrow> (ERROR, e1)
         | (True, e1) \<Rightarrow> (case ICC_Async_Transmit d r command e1 of
             (False, e2) \<Rightarrow> (ERROR, e2)
           | (True, e2) \<Rightarrow> (case ICC_Async_Transmit d r [ixor] e2 of
               (False, e3) \<Rightarrow> (ERROR, e3)
             | (True, e3) \<Rightarrow> t14_receive d r e3)))
      else if PROTOCOL_T0_MAX_SHORT_RESPONSE < length command + 2 then (FAULT, e)
      else (case ICC_Async_Transmit d r ([0x01] @ command @ [ixor]) e of
          (False, e1) \<Rightarrow> (ERROR, e1)
        | (True, e1) \<Rightarrow> t14_receive d r e1))"

section \<open>A card that follows T=0\<close>

text \<open>How a card goes through the data of a command: a byte that asks for patience, the rest of the data at once, or one byte of it.
  \<open>t0_left\<close> is what remains (\<open>None\<close>: there was nothing left to go on with), \<open>t0_patient\<close> says that fewer than 200 bytes in a row ask
  for patience.\<close>

datatype t0_step = Null | All | One

fun t0_left :: "'a list \<Rightarrow> t0_step list \<Rightarrow> 'a list option" where
  "t0_left D [] = Some D"
| "t0_left D (Null # s) = t0_left D s"
| "t0_left [] (x # s) = None"
| "t0_left (b # D) (All # s) = t0_left [] s"
| "t0_left (b # D) (One # s) = t0_left D s"

fun t0_patient :: "nat \<Rightarrow> t0_step list \<Rightarrow> bool" where
  "t0_patient n [] = True"
| "t0_patient n (Null # s) = (n + 1 < PROTOCOL_T0_MAX_NULLS \<and> t0_patient (n + 1) s)"
| "t0_patient n (x # s) = t0_patient 0 s"

text \<open>The bytes the card sends on the way, for a command that reads \<open>D\<close> from it and for one that sends.\<close>

fun t0_wire :: "bool \<Rightarrow> u8 \<Rightarrow> u8 list \<Rightarrow> t0_step list \<Rightarrow> u8 list" where
  "t0_wire reads ins D [] = []"
| "t0_wire reads ins D (Null # s) = 0x60 # t0_wire reads ins D s"
| "t0_wire reads ins D (All # s) = ins # (if reads then D else []) @ t0_wire reads ins [] s"
| "t0_wire reads ins D (One # s) = NOT ins # (if reads then take 1 D else []) @ t0_wire reads ins (tl D) s"

definition t0_ins :: "u8 \<Rightarrow> bool" where
  "t0_ins ins \<longleftrightarrow> ins AND 0xF0 \<noteq> 0x60 \<and> ins AND 0xF0 \<noteq> 0x90"

lemma u8_all:
  assumes "list_all (\<lambda>n. P (word_of_nat n :: u8)) [0..<256]"
  shows "P b"
proof -
  have "unat b \<in> {0..<256}" using unsigned_less [of b] by simp
  then have "P (word_of_nat (unat b))" using assms by (simp only: list_all_iff set_upt)
  then show ?thesis by simp
qed

lemma nibble_not: "NOT b AND 0xF0 = 0x60 \<longleftrightarrow> b AND 0xF0 = 0x90" for b :: u8
  by (rule u8_all) code_simp

lemma ack_not: "NOT b AND 0x0E \<noteq> b AND 0x0E" for b :: u8
  by (rule u8_all) code_simp

lemma procedure_null: "procedure_byte ins 0x60 = P_NULL"
  by (simp add: procedure_byte_def)

lemma procedure_ack: "t0_ins ins \<Longrightarrow> procedure_byte ins ins = P_ACK"
  by (auto simp: procedure_byte_def t0_ins_def)

lemma procedure_nack:
  assumes "t0_ins ins" shows "procedure_byte ins (NOT ins) = P_NACK"
proof -
  have "NOT ins AND 0xF0 \<noteq> 0x60" "NOT ins AND 0xF0 \<noteq> 0x90"
    using assms nibble_not [of ins] nibble_not [of "NOT ins"] by (simp_all add: t0_ins_def)
  moreover from this(1) have "NOT ins \<noteq> 0x60" by auto
  ultimately show ?thesis using ack_not [of ins] by (simp add: procedure_byte_def)
qed

definition t0_status :: "u8 \<Rightarrow> bool" where
  "t0_status b \<longleftrightarrow> b \<noteq> 0x60 \<and> (b AND 0xF0 = 0x60 \<or> b AND 0xF0 = 0x90)"

lemma procedure_status: "t0_status b \<Longrightarrow> procedure_byte ins b = P_SW1"
  by (auto simp: procedure_byte_def t0_status_def)

text \<open>The loop over such a card, from any point of the data on.\<close>

lemma line_byte:
  assumes "c_convention r = ATR_CONVENTION_DIRECT" "l_coming s = b # rest"
  shows "ICC_Async_Receive line_driver r (Suc 0) s = (Some [b], s\<lparr>l_coming := rest\<rparr>)"
  using assms by (simp add: line_receive [of r s "[b]" rest] del: direct_receive)

lemma t0_reads:
  assumes "c_convention r = ATR_CONVENTION_DIRECT" "t0_ins ins" "t0_status s1"
    "t0_left D steps = Some []" "t0_patient nulls steps" "length buf + length D = le" "le \<le> 255"
    "l_coming s = t0_wire True ins D steps @ [s1, s2] @ rest"
  shows "t0_loop line_driver r ins None le buf nulls sent s = Some (OK (buf @ D @ [s1, s2]), s\<lparr>l_coming := rest\<rparr>)"
  using assms(4-)
proof (induction steps arbitrary: D nulls buf s)
  case Nil
  then show ?case using assms(1-3)
    by (subst t0_loop.simps)
      (simp add: PROTOCOL_T0_MAX_SHORT_RESPONSE_def procedure_status [OF assms(3)] line_byte del: direct_receive direct_transmit)
next
  case (Cons x steps)
  have l: "\<not> PROTOCOL_T0_MAX_SHORT_RESPONSE \<le> length buf" using Cons.prems by (simp add: PROTOCOL_T0_MAX_SHORT_RESPONSE_def)
  show ?case
  proof (cases x)
    case Null
    let ?w = "t0_wire True ins D steps @ [s1, s2] @ rest"
    from Cons.IH [of D "nulls + 1" buf "s\<lparr>l_coming := ?w\<rparr>"] show ?thesis using Cons.prems Null l assms(1)
      by (subst t0_loop.simps) (simp add: line_byte procedure_null del: direct_receive direct_transmit)
  next
    case All
    then obtain b D' where D: "D = b # D'" using Cons.prems by (cases D) auto
    let ?w = "t0_wire True ins [] steps @ [s1, s2] @ rest"
    have L: "t0_left ([] :: u8 list) steps = Some []" "t0_patient 0 steps" using Cons.prems All D by simp_all
    have n: "le - length buf = length D" "take le buf = buf" using Cons.prems by simp_all
    have R: "ICC_Async_Receive line_driver r (length D) (s\<lparr>l_coming := D @ ?w\<rparr>) = (Some D, s\<lparr>l_coming := ?w\<rparr>)"
      using assms(1) by (simp add: line_receive del: direct_receive direct_transmit)
    from Cons.IH [of "[]" 0 "buf @ D" "s\<lparr>l_coming := ?w\<rparr>"] show ?thesis using Cons.prems(3,4,5) All l assms(1,2) L
      by (subst t0_loop.simps) (simp add: n R line_byte procedure_ack del: direct_receive direct_transmit)
  next
    case One
    then obtain b D' where D: "D = b # D'" using Cons.prems by (cases D) auto
    let ?w = "t0_wire True ins D' steps @ [s1, s2] @ rest"
    from Cons.IH [of D' 0 "buf @ [b]" "s\<lparr>l_coming := ?w\<rparr>"] show ?thesis using Cons.prems One l assms(1,2) D
      by (subst t0_loop.simps) (simp add: line_byte procedure_nack del: direct_receive direct_transmit)
  qed
qed

lemma t0_sends:
  assumes "c_convention r = ATR_CONVENTION_DIRECT" "t0_ins ins" "t0_status s1"
    "t0_left (drop sent D) steps = Some []" "t0_patient nulls steps" "l_coming s = t0_wire False ins (drop sent D) steps @ [s1, s2] @ rest"
  shows "t0_loop line_driver r ins (Some D) le [] nulls sent s = Some (OK [s1, s2], s\<lparr>l_sent := l_sent s @ drop sent D, l_coming := rest\<rparr>)"
  using assms(4-)
proof (induction steps arbitrary: nulls sent s)
  case Nil
  then show ?case using assms(1-3)
    by (subst t0_loop.simps)
      (simp add: PROTOCOL_T0_MAX_SHORT_RESPONSE_def procedure_status [OF assms(3)] line_byte del: direct_receive direct_transmit)
next
  case (Cons x steps)
  have l: "\<not> PROTOCOL_T0_MAX_SHORT_RESPONSE \<le> length ([] :: u8 list)" by (simp add: PROTOCOL_T0_MAX_SHORT_RESPONSE_def)
  show ?case
  proof (cases x)
    case Null
    let ?w = "t0_wire False ins (drop sent D) steps @ [s1, s2] @ rest"
    from Cons.IH [of sent "nulls + 1" "s\<lparr>l_coming := ?w\<rparr>"] show ?thesis using Cons.prems Null l assms(1)
      by (subst t0_loop.simps) (simp add: line_byte procedure_null del: direct_receive direct_transmit)
  next
    case All
    then have D: "sent < length D" using Cons.prems by (cases "length D \<le> sent") auto
    let ?w = "t0_wire False ins [] steps @ [s1, s2] @ rest"
    have L: "t0_left ([] :: u8 list) steps = Some []" "t0_patient 0 steps" using Cons.prems All D by (cases "drop sent D", simp_all)+
    from Cons.IH [of "length D" 0 "s\<lparr>l_coming := ?w, l_sent := l_sent s @ drop sent D\<rparr>"] show ?thesis
      using Cons.prems(3) All l assms(1,2) D L
      by (subst t0_loop.simps) (simp add: line_byte procedure_ack del: direct_receive direct_transmit)
  next
    case One
    then have D: "sent < length D" using Cons.prems by (cases "length D \<le> sent") auto
    then have D': "drop sent D = D ! sent # drop (sent + 1) D" by (simp add: Cons_nth_drop_Suc)
    let ?w = "t0_wire False ins (drop (sent + 1) D) steps @ [s1, s2] @ rest"
    from Cons.IH [of "sent + 1" 0 "s\<lparr>l_coming := ?w, l_sent := l_sent s @ [D ! sent]\<rparr>"] show ?thesis
      using Cons.prems One l assms(1,2) D D'
      by (subst t0_loop.simps) (simp add: line_byte procedure_nack del: direct_receive direct_transmit)
  qed
qed

section \<open>Properties\<close>

text \<open>C16. A TPDU over a card that follows T=0, however the card paces it (all at once, byte by byte, with requests for patience in
  between): a command with data delivers exactly its header and its data and returns the status; a command that expects data returns
  exactly the data and the status; nothing else is read from the line.\<close>

theorem t0_exchange_conforms:
  assumes "c_convention r = ATR_CONVENTION_DIRECT" "t0_ins ins" "t0_status s1"
    and "t0_left D steps = Some []" "t0_patient 0 steps" "1 \<le> length D" "length D \<le> 255"
  shows "Protocol_T0_ExchangeTPDU line_driver r [cla, ins, p1, p2, of_nat (length D)]
      \<lparr>l_sent = [], l_coming = t0_wire True ins D steps @ [s1, s2] @ rest\<rparr> =
    Some (OK (D @ [s1, s2]), \<lparr>l_sent = [cla, ins, p1, p2, of_nat (length D)], l_coming = rest\<rparr>) \<and>
    Protocol_T0_ExchangeTPDU line_driver r ([cla, ins, p1, p2, of_nat (length D)] @ D)
      \<lparr>l_sent = [], l_coming = t0_wire False ins D steps @ [s1, s2] @ rest\<rparr> =
    Some (OK [s1, s2], \<lparr>l_sent = [cla, ins, p1, p2, of_nat (length D)] @ D, l_coming = rest\<rparr>)"
proof -
  have u: "unat (of_nat (length D) :: u8) = length D" using assms(7) by (simp add: unat_of_nat)
  then have nz: "(of_nat (length D) :: u8) \<noteq> 0" using assms(6) by (metis One_nat_def not_one_le_zero unat_0)
  have c: "APDU_Cmd_Case [cla, ins, p1, p2, of_nat (length D)] = APDU_CASE_3S"
    "APDU_Cmd_Case ([cla, ins, p1, p2, of_nat (length D)] @ D) = APDU_CASE_2S"
    using u nz assms(6) by (cases D; simp add: APDU_Cmd_Case_def Let_def)+
  show ?thesis
    using t0_reads [OF assms(1-5), of "[]" "length D" "\<lparr>l_sent = [cla, ins, p1, p2, of_nat (length D)], l_coming = t0_wire True ins D steps @ [s1, s2] @ rest\<rparr>" s2 rest 0]
      t0_sends [OF assms(1-3), of 0 D steps 0 "\<lparr>l_sent = [cla, ins, p1, p2, of_nat (length D)], l_coming = t0_wire False ins D steps @ [s1, s2] @ rest\<rparr>" s2 rest 0]
      assms(1,4,5,7) u
    by (simp add: Protocol_T0_ExchangeTPDU_def c [simplified] del: direct_transmit direct_receive)
qed

theorem t0_exchange_conforms_witness:
  "\<exists>r. Protocol_T0_ExchangeTPDU line_driver r [0x81, 0xCA, 0, 0, 3] \<lparr>l_sent = [], l_coming = [0x60, NOT 0xCA, 7, 0xCA, 8, 9, 0x90, 0]\<rparr> =
     Some (OK [7, 8, 9, 0x90, 0], \<lparr>l_sent = [0x81, 0xCA, 0, 0, 3], l_coming = []\<rparr>)"
proof -
  define r where "r = \<lparr>c_convention = ATR_CONVENTION_DIRECT, c_inverts = False, c_mouse = True, c_protocol = 0, c_ns = 0, c_ifsc = 0,
    c_BWT = 0, c_CWT = 0, c_wait = 0\<rparr>"
  show ?thesis
    using t0_exchange_conforms [of r "0xCA" "0x90" "[7, 8, 9]" "[Null, One, All]" "0x81" 0 0 0 "[]"]
    by (auto simp: r_def t0_ins_def t0_status_def PROTOCOL_T0_MAX_NULLS_def intro!: exI [of _ r])
qed

text \<open>The loop keeps within its buffer whatever the card does.\<close>

lemma t0_loop_bounded:
  assumes "t0_loop d r ins data le buf nulls sent e = Some res"
  shows "fills d \<longrightarrow> le \<le> 255 \<longrightarrow> length buf \<le> 258 \<longrightarrow> (\<forall>bs. fst res = OK bs \<longrightarrow> 2 \<le> length bs \<and> length bs \<le> 258)"
proof (rule t0_loop.raw_induct [where P = "\<lambda>d r ins data le buf nulls sent e res.
    fills d \<longrightarrow> le \<le> 255 \<longrightarrow> length buf \<le> 258 \<longrightarrow> (\<forall>bs. fst res = OK bs \<longrightarrow> 2 \<le> length bs \<and> length bs \<le> 258)", OF _ assms])
  fix f :: "'e driver \<Rightarrow> icc \<Rightarrow> u8 \<Rightarrow> u8 list option \<Rightarrow> nat \<Rightarrow> u8 list \<Rightarrow> nat \<Rightarrow> nat \<Rightarrow> 'e \<Rightarrow> (icc_result \<times> 'e) option"
  fix d :: "'e driver" and r ins data le buf nulls sent e res
  assume IH: "\<And>d r ins data le buf nulls sent e res. f d r ins data le buf nulls sent e = Some res \<Longrightarrow>
      fills d \<longrightarrow> le \<le> 255 \<longrightarrow> length buf \<le> 258 \<longrightarrow> (\<forall>bs. fst res = OK bs \<longrightarrow> 2 \<le> length bs \<and> length bs \<le> 258)"
    and eq: "(if PROTOCOL_T0_MAX_SHORT_RESPONSE \<le> length buf then Some (OK buf, e)
      else (case ICC_Async_Receive d r 1 e of
          (None, e1) \<Rightarrow> Some (ERROR, e1)
        | (Some bs, e1) \<Rightarrow> (case procedure_byte ins (bs ! 0) of
            P_NULL \<Rightarrow>
              (if PROTOCOL_T0_MAX_NULLS \<le> nulls + 1 then Some (ERROR, e1)
               else f d r ins data le buf (nulls + 1) sent e1)
          | P_SW1 \<Rightarrow>
              (if PROTOCOL_T0_MAX_SHORT_RESPONSE \<le> length buf + 1 then Some (ERROR, e1)
               else (case ICC_Async_Receive d r 1 e1 of
                   (None, e2) \<Rightarrow> Some (ERROR, e2)
                 | (Some b2, e2) \<Rightarrow> Some (OK (buf @ [bs ! 0] @ b2), e2)))
          | P_ACK \<Rightarrow> (case data of
              Some D \<Rightarrow>
                (if length D \<le> sent then Some (ERROR, e1)
                 else (case ICC_Async_Transmit d r (drop sent D) e1 of
                     (ok, e2) \<Rightarrow> (if ok then f d r ins data le buf 0 (length D) e2 else Some (ERROR, e2))))
            | None \<Rightarrow> (case ICC_Async_Receive d r (le - length buf) e1 of
                (None, e2) \<Rightarrow> Some (ERROR, e2)
              | (Some xs, e2) \<Rightarrow> f d r ins data le (take le buf @ xs) 0 sent e2))
          | P_NACK \<Rightarrow> (case data of
              Some D \<Rightarrow>
                (if length D \<le> sent then Some (ERROR, e1)
                 else (case ICC_Async_Transmit d r [D ! sent] e1 of
                     (ok, e2) \<Rightarrow> (if ok then f d r ins data le buf 0 (sent + 1) e2 else Some (ERROR, e2))))
            | None \<Rightarrow> (case ICC_Async_Receive d r 1 e1 of
                (None, e2) \<Rightarrow> Some (ERROR, e2)
              | (Some xs, e2) \<Rightarrow> f d r ins data le (buf @ xs) 0 sent e2))
          | P_BAD \<Rightarrow> Some (ERROR, e1)))) = Some res"
  show "fills d \<longrightarrow> le \<le> 255 \<longrightarrow> length buf \<le> 258 \<longrightarrow> (\<forall>bs. fst res = OK bs \<longrightarrow> 2 \<le> length bs \<and> length bs \<le> 258)"
  proof (intro impI)
    assume d: "fills d" "le \<le> 255" "length buf \<le> 258"
    note R = receive_length [OF d(1)] and IH' = IH [THEN mp, THEN mp, THEN mp, OF _ d(1,2)]
    show "\<forall>bs. fst res = OK bs \<longrightarrow> 2 \<le> length bs \<and> length bs \<le> 258"
    proof (cases "PROTOCOL_T0_MAX_SHORT_RESPONSE \<le> length buf")
      case True
      then show ?thesis using eq d(3) by (auto simp: PROTOCOL_T0_MAX_SHORT_RESPONSE_def)
    next
      case False
      then have lb: "length buf < 258" by (simp add: PROTOCOL_T0_MAX_SHORT_RESPONSE_def)
      obtain x e1 where x: "ICC_Async_Receive d r 1 e = (x, e1)" by fastforce
      show ?thesis
      proof (cases x)
        case None
        then show ?thesis using eq False x by auto
      next
        case (Some bs)
        obtain y e2 where y: "ICC_Async_Receive d r 1 e1 = (y, e2)" by fastforce
        obtain z e3 where z: "ICC_Async_Receive d r (le - length buf) e1 = (z, e3)" by fastforce
        show ?thesis
          using eq False x Some y z R lb d
          by (cases "procedure_byte ins (bs ! 0)"; cases data)
            (auto simp: PROTOCOL_T0_MAX_SHORT_RESPONSE_def split: if_split_asm option.split_asm prod.split_asm dest!: IH')
      qed
    qed
  qed
qed

text \<open>Whatever the card sends, a response has at least its two status bytes, which the callers index from its end, and fits into the
  258 bytes of the buffer.\<close>

theorem t0_exchange_bounded:
  assumes "fills d" "Protocol_T0_ExchangeTPDU d r command e = Some (OK bs, e')"
  shows "2 \<le> length bs \<and> length bs \<le> 258"
proof -
  obtain data le e1 where "le \<le> 255" "t0_loop d r (command ! 1) data le [] 0 0 e1 = Some (OK bs, e')"
  proof (cases "APDU_Cmd_Case command")
    case APDU_CASE_3S
    have "unat (command ! 4) \<le> 255" using unsigned_less [where 'a = nat, of "command ! 4"] by simp
    then show ?thesis using that APDU_CASE_3S assms(2) by (auto simp: Protocol_T0_ExchangeTPDU_def Let_def split: prod.split_asm if_split_asm)
  qed (use that [of 0] assms(2) in \<open>auto simp: Protocol_T0_ExchangeTPDU_def Let_def split: prod.split_asm if_split_asm\<close>)
  from t0_loop_bounded [OF this(2)] this(1) assms(1) show ?thesis by simp
qed

theorem t0_exchange_bounded_witness:
  "\<exists>r bs e'. Protocol_T0_ExchangeTPDU line_driver r [0x81, 0xCA, 0, 0, 1] \<lparr>l_sent = [], l_coming = [0xCA, 7, 0x90, 0]\<rparr> = Some (OK bs, e') \<and>
     2 \<le> length bs"
proof -
  define r where "r = \<lparr>c_convention = ATR_CONVENTION_DIRECT, c_inverts = False, c_mouse = True, c_protocol = 0, c_ns = 0, c_ifsc = 0,
    c_BWT = 0, c_CWT = 0, c_wait = 0\<rparr>"
  have "c_convention r = ATR_CONVENTION_DIRECT" by (simp add: r_def)
  then have "Protocol_T0_ExchangeTPDU line_driver r [0x81, 0xCA, 0, 0, 1] \<lparr>l_sent = [], l_coming = [0xCA, 7, 0x90, 0]\<rparr> =
    Some (OK [7, 0x90, 0], \<lparr>l_sent = [0x81, 0xCA, 0, 0, 1], l_coming = []\<rparr>)"
    using t0_reads [of r "0xCA" "0x90" "[7]" "[All]" 0 "[]" 1 "\<lparr>l_sent = [0x81, 0xCA, 0, 0, 1], l_coming = [0xCA, 7, 0x90, 0]\<rparr>" 0 "[]" 0]
    by (simp add: Protocol_T0_ExchangeTPDU_def APDU_Cmd_Case_def t0_ins_def t0_status_def del: direct_transmit direct_receive)
  from this t0_exchange_bounded [OF line_driver_fills this] show ?thesis by blast
qed

text \<open>A GET RESPONSE of two bytes: the status of the part stays inside the response, and two bytes that were there before are
  reported at its end, where the callers look for the status.\<close>

lemma get_response_stale:
  assumes "c_convention r = ATR_CONVENTION_DIRECT"
  shows "map_option (\<lambda>(code, rsp, lr, e). (code, take lr rsp)) (t0_get_response line_driver r 0x81 2 2 (replicate 512 0xEE) 2
    \<lparr>l_sent = [], l_coming = [0xC0, 7, 8, 0x90, 0]\<rparr>) = Some (C_OK, [7, 8, 0x90, 0, 0xEE, 0xEE])"
proof -
  have "Protocol_T0_ExchangeTPDU line_driver r [0x81, 0xC0, 0, 0, 2] \<lparr>l_sent = [], l_coming = [0xC0, 7, 8, 0x90, 0]\<rparr> =
    Some (OK [7, 8, 0x90, 0], \<lparr>l_sent = [0x81, 0xC0, 0, 0, 2], l_coming = []\<rparr>)"
    using assms t0_reads [of r "0xC0" "0x90" "[7, 8]" "[All]" 0 "[]" 2 "\<lparr>l_sent = [0x81, 0xC0, 0, 0, 2], l_coming = [0xC0, 7, 8, 0x90, 0]\<rparr>" 0 "[]" 0]
    by (simp add: Protocol_T0_ExchangeTPDU_def APDU_Cmd_Case_def t0_ins_def t0_status_def del: direct_transmit direct_receive)
  then show ?thesis
    by (subst t0_get_response.simps, simp, subst t0_get_response.simps) (simp add: CTA_RES_LEN_def put_def numeral_2_eq_2)
qed

text \<open>T=14 hands on the data and the status when the check byte is right, and nothing when it is not.\<close>

lemma t14_conforms:
  assumes "c_convention r = ATR_CONVENTION_DIRECT" "length head = 8" "unat (head ! 7) = length body" "length body \<le> 248"
    and "l_coming s = head @ body @ [check]"
  shows "t14_receive line_driver r s = (if check = xors (head @ body) 0x3F then OK (body @ [head ! 2, head ! 3]) else ERROR, s\<lparr>l_coming := []\<rparr>)"
proof -
  let ?s = "s\<lparr>l_coming := body @ [check]\<rparr>"
  have a: "ICC_Async_Receive line_driver r 8 s = (Some head, ?s)"
    using assms by (simp add: line_receive [of r s head "body @ [check]"] del: direct_receive)
  have b: "(if length body = 0 then (Some [], ?s) else ICC_Async_Receive line_driver r (length body) ?s) = (Some body, s\<lparr>l_coming := [check]\<rparr>)"
    using assms(1) line_receive [of r ?s body "[check]" "length body"] by (cases "body = []") simp_all
  have c: "ICC_Async_Receive line_driver r 1 (s\<lparr>l_coming := [check]\<rparr>) = (Some [check], s\<lparr>l_coming := []\<rparr>)"
    using assms(1) line_byte [of r "s\<lparr>l_coming := [check]\<rparr>" check "[]"] by simp
  show ?thesis using assms(3,4)
    unfolding t14_receive_def a prod.case option.case Let_def assms(3) b c by (auto simp: PROTOCOL_T0_MAX_SHORT_RESPONSE_def)
qed

text \<open>With more than 248 data bytes the status is copied behind the buffer, with more than 250 the data as well.\<close>

lemma t14_overrun:
  assumes "c_convention r = ATR_CONVENTION_DIRECT" "length head = 8" "250 < unat (head ! 7)" "l_coming s = head @ rest"
  shows "fst (t14_receive line_driver r s) = FAULT"
  using assms line_receive [of r s head rest 8] by (simp add: t14_receive_def PROTOCOL_T0_MAX_SHORT_RESPONSE_def Let_def del: direct_receive)

end
