(* ===== verification/T1.thy ===== *)
theory T1
  imports Card
begin

unbundle bit_operations_syntax

text \<open>
  The protocol T=1, \<open>csctapi/t1_block.c\<close> and \<open>csctapi/protocol_t1.c\<close>: blocks as byte lists, and \<open>Protocol_T1_Command\<close> with
  its three uses (a request for the information field size, a resynchronisation, a command with chaining both ways). The two
  loops run as long as the card keeps them busy: \<open>None\<close> is a command that never returns. A response of the card is a result
  \<open>OK\<close>; after the two requests, which leave the buffer of the caller alone, it is \<open>OK []\<close>.
\<close>

section \<open>Blocks\<close>

definition T1_BLOCK_MAX_SIZE :: nat where "T1_BLOCK_MAX_SIZE = 259"
definition T1_BLOCK_I :: u8 where "T1_BLOCK_I = 0x00"
definition T1_BLOCK_R_OK :: u8 where "T1_BLOCK_R_OK = 0x80"
definition T1_BLOCK_S_RESYNCH_REQ :: u8 where "T1_BLOCK_S_RESYNCH_REQ = 0xC0"
definition T1_BLOCK_S_RESYNCH_RES :: u8 where "T1_BLOCK_S_RESYNCH_RES = 0xE0"
definition T1_BLOCK_S_IFS_REQ :: u8 where "T1_BLOCK_S_IFS_REQ = 0xC1"
definition T1_BLOCK_S_IFS_RES :: u8 where "T1_BLOCK_S_IFS_RES = 0xE1"
definition T1_BLOCK_S_WTX_REQ :: u8 where "T1_BLOCK_S_WTX_REQ = 0xC3"
definition T1_BLOCK_S_WTX_RES :: u8 where "T1_BLOCK_S_WTX_RES = 0xE3"

lemmas t1_block_consts = T1_BLOCK_I_def T1_BLOCK_R_OK_def T1_BLOCK_S_RESYNCH_REQ_def T1_BLOCK_S_RESYNCH_RES_def
  T1_BLOCK_S_IFS_REQ_def T1_BLOCK_S_IFS_RES_def T1_BLOCK_S_WTX_REQ_def T1_BLOCK_S_WTX_RES_def

definition T1_Block_LRC :: "u8 list \<Rightarrow> nat \<Rightarrow> u8" where
  "T1_Block_LRC bs n = fold (\<lambda>b lrc. lrc XOR b) (take n bs) 0"

definition T1_Block_New :: "u8 list \<Rightarrow> nat \<Rightarrow> u8 list option" where
  "T1_Block_New buffer n = (if n < 4 then None else Some (take (min n T1_BLOCK_MAX_SIZE) buffer))"

text \<open>A block of the three kinds: node address, control byte, length, information, check byte.\<close>

definition sealed :: "u8 \<Rightarrow> u8 \<Rightarrow> u8 list \<Rightarrow> u8 list" where
  "sealed control len info = (let head = [0, control, len] @ info in head @ [T1_Block_LRC head (unat len + 3)])"

definition T1_Block_NewIBlock :: "u8 \<Rightarrow> u8 list \<Rightarrow> u8 \<Rightarrow> bool \<Rightarrow> u8 list" where
  "T1_Block_NewIBlock len info ns chain =
     (let control = T1_BLOCK_I OR (push_bit 6 ns AND 0x40) in
      sealed (if chain then control OR 0x20 else control) len (take (unat len) info))"

definition T1_Block_NewRBlock :: "u8 \<Rightarrow> u8 \<Rightarrow> u8 list" where
  "T1_Block_NewRBlock type nr = sealed (type OR (push_bit 4 nr AND 0x10)) 0 []"

definition T1_Block_NewSBlock :: "u8 \<Rightarrow> u8 \<Rightarrow> u8 list \<Rightarrow> u8 list" where
  "T1_Block_NewSBlock type len info = sealed type len (take (unat len) info)"

definition T1_Block_GetType :: "u8 list \<Rightarrow> u8" where
  "T1_Block_GetType b = (if b ! 1 AND 0x80 = T1_BLOCK_I then T1_BLOCK_I else b ! 1 AND 0xEF)"

definition T1_Block_GetNS :: "u8 list \<Rightarrow> u8" where
  "T1_Block_GetNS b = drop_bit 6 (b ! 1) AND 0x01"

definition T1_Block_GetMore :: "u8 list \<Rightarrow> bool" where
  "T1_Block_GetMore b \<longleftrightarrow> drop_bit 5 (b ! 1) AND 0x01 \<noteq> 0"

definition T1_Block_GetNR :: "u8 list \<Rightarrow> u8" where
  "T1_Block_GetNR b = drop_bit 4 (b ! 1) AND 0x01"

definition T1_Block_GetLen :: "u8 list \<Rightarrow> u8" where
  "T1_Block_GetLen b = b ! 2"

definition T1_Block_GetInf :: "u8 list \<Rightarrow> u8 list option" where
  "T1_Block_GetInf b = (if length b < 5 then None else Some (drop 3 b))"

section \<open>Sending and receiving blocks\<close>

definition Protocol_T1_SendBlock :: "'e driver \<Rightarrow> icc \<Rightarrow> u8 list \<Rightarrow> 'e \<Rightarrow> bool \<times> 'e" where
  "Protocol_T1_SendBlock d r b e = ICC_Async_Transmit d r b e"

definition Protocol_T1_ReceiveBlock :: "'e driver \<Rightarrow> icc \<Rightarrow> 'e \<Rightarrow> u8 list option \<times> icc \<times> 'e" where
  "Protocol_T1_ReceiveBlock d r e = (case ICC_Async_Receive d r 4 e of
     (None, e1) \<Rightarrow> (None, r, e1)
   | (Some head, e1) \<Rightarrow>
       (if head ! 2 \<noteq> 0 then
          (let r1 = ICC_Async_SetTimings (c_CWT r) r; r2 = ICC_Async_SetTimings (c_BWT r) r1 in
           case ICC_Async_Receive d r1 (unat (head ! 2)) e1 of
             (None, e2) \<Rightarrow> (None, r2, e2)
           | (Some rest, e2) \<Rightarrow> (T1_Block_New (head @ rest) (unat (head ! 2) + 4), r2, e2))
        else (T1_Block_New head 4, r, e1)))"

section \<open>The command\<close>

text \<open>The two requests: what is sent, and what the answer changes.\<close>

definition t1_ifs_request :: "'e driver \<Rightarrow> icc \<Rightarrow> u8 \<Rightarrow> 'e \<Rightarrow> icc_result \<times> icc \<times> 'e" where
  "t1_ifs_request d r info e =
     (let (_, e1) = Protocol_T1_SendBlock d r (T1_Block_NewSBlock T1_BLOCK_S_IFS_REQ 1 [info]) e in
      case Protocol_T1_ReceiveBlock d r e1 of
        (None, r2, e2) \<Rightarrow> (ERROR, r2, e2)
      | (Some b, r2, e2) \<Rightarrow>
          (if T1_Block_GetType b = T1_BLOCK_S_IFS_RES \<and> T1_Block_GetInf b = None then FAULT else OK [], r2, e2))"

definition t1_resynch_request :: "'e driver \<Rightarrow> icc \<Rightarrow> 'e \<Rightarrow> icc_result \<times> icc \<times> 'e" where
  "t1_resynch_request d r e =
     (let (_, e1) = Protocol_T1_SendBlock d r (T1_Block_NewSBlock T1_BLOCK_S_RESYNCH_REQ 0 []) e in
      case Protocol_T1_ReceiveBlock d r e1 of
        (None, r2, e2) \<Rightarrow> (ERROR, r2, e2)
      | (Some b, r2, e2) \<Rightarrow>
          (OK [], if T1_Block_GetType b = T1_BLOCK_S_RESYNCH_RES then r2\<lparr>c_ns := 0\<rparr> else r2, e2))"

definition toggle_ns :: "icc \<Rightarrow> icc" where
  "toggle_ns r = r\<lparr>c_ns := (if c_ns r = 1 then 0 else 1)\<rparr>"

text \<open>One step of sending: the sequence number is toggled, the next part of the command goes out. The part is a byte, so a
  field size above 255 is cut.\<close>

definition t1_part :: "icc \<Rightarrow> u8 list \<Rightarrow> nat \<Rightarrow> u8" where
  "t1_part r command counter = of_nat (min (length command - counter) (c_ifsc r))"

definition t1_more :: "icc \<Rightarrow> u8 list \<Rightarrow> nat \<Rightarrow> bool" where
  "t1_more r command counter \<longleftrightarrow> c_ifsc r < length command - counter"

definition t1_send_part :: "'e driver \<Rightarrow> icc \<Rightarrow> u8 list \<Rightarrow> nat \<Rightarrow> 'e \<Rightarrow> bool \<times> 'e" where
  "t1_send_part d r command counter e =
     Protocol_T1_SendBlock d r
       (T1_Block_NewIBlock (t1_part r command counter) (drop counter command) (c_ns r) (t1_more r command counter)) e"

partial_function (option) t1_send_loop ::
  "'e driver \<Rightarrow> u8 list \<Rightarrow> nat \<Rightarrow> icc \<Rightarrow> 'e \<Rightarrow> (bool \<times> icc \<times> 'e) option" where
  "t1_send_loop d command counter r e =
     (if \<not> t1_more r command counter then Some (True, r, e)
      else (case Protocol_T1_ReceiveBlock d r e of
          (None, r1, e1) \<Rightarrow> Some (False, r1, e1)
        | (Some b, r1, e1) \<Rightarrow>
            (if T1_Block_GetType b = T1_BLOCK_R_OK then
               (let r2 = toggle_ns r1; counter2 = counter + unat (t1_part r command counter) in
                case t1_send_part d r2 command counter2 e1 of
                  (ok, e2) \<Rightarrow> (if ok then t1_send_loop d command counter2 r2 e2 else Some (False, r2, e2)))
             else Some (False, r1, e1))))"

text \<open>The answer. \<open>buffer\<close> is reallocated to \<open>counter + bytes\<close> for each block, and \<open>counter\<close> has 16 bits.\<close>

definition t1_append :: "u8 list \<Rightarrow> nat \<Rightarrow> u8 list \<Rightarrow> u8 list" where
  "t1_append buffer counter info = take counter buffer @ info"

partial_function (option) t1_receive_loop ::
  "'e driver \<Rightarrow> u8 list \<Rightarrow> nat \<Rightarrow> u8 \<Rightarrow> icc \<Rightarrow> 'e \<Rightarrow> (icc_result \<times> icc \<times> 'e) option" where
  "t1_receive_loop d buffer counter wtx r e =
     (case Protocol_T1_ReceiveBlock d (if 1 < wtx then ICC_Async_SetTimings (unat wtx * c_BWT r) r else r) e of
        (blk, r1, e1) \<Rightarrow>
       (let r2 = (if 1 < wtx then ICC_Async_SetTimings (c_BWT r) r1 else r1) in
        case blk of
          None \<Rightarrow> Some (ERROR, r2, e1)
        | Some b \<Rightarrow>
            (if T1_Block_GetType b = T1_BLOCK_I then
               (let n = unat (T1_Block_GetLen b);
                    buffer2 = t1_append buffer counter (case T1_Block_GetInf b of None \<Rightarrow> [] | Some info \<Rightarrow> take n info);
                    counter2 = (counter + n) mod 2 ^ 16 in
                if T1_Block_GetMore b then
                  (case Protocol_T1_SendBlock d r2 (T1_Block_NewRBlock T1_BLOCK_R_OK ((T1_Block_GetNS b + 1) mod 2)) e1 of
                     (ok, e2) \<Rightarrow>
                       (if ok then t1_receive_loop d buffer2 counter2 (if 1 < wtx then 0 else wtx) r2 e2 else Some (ERROR, r2, e2)))
                else Some (OK (take counter2 buffer2), r2, e1))
             else if T1_Block_GetType b = T1_BLOCK_S_WTX_REQ then
               (case T1_Block_GetInf b of
                  None \<Rightarrow> Some (FAULT, r2, e1)
                | Some info \<Rightarrow>
                    (case Protocol_T1_SendBlock d r2 (T1_Block_NewSBlock T1_BLOCK_S_WTX_RES 1 [info ! 0]) e1 of
                       (ok, e2) \<Rightarrow>
                         (if ok then t1_receive_loop d buffer counter (info ! 0) r2 e2 else Some (ERROR, r2, e2))))
             else Some (ERROR, r2, e1))))"

definition Protocol_T1_Command :: "'e driver \<Rightarrow> icc \<Rightarrow> u8 list \<Rightarrow> 'e \<Rightarrow> (icc_result \<times> icc \<times> 'e) option" where
  "Protocol_T1_Command d r command e = (case fetch command 1 of
     None \<Rightarrow> Some (FAULT, r, e)
   | Some ins \<Rightarrow>
       (if ins = T1_BLOCK_S_IFS_REQ then
          (case fetch command 3 of None \<Rightarrow> Some (FAULT, r, e) | Some info \<Rightarrow> Some (t1_ifs_request d r info e))
        else if ins = T1_BLOCK_S_RESYNCH_REQ then Some (t1_resynch_request d r e)
        else
          (let r1 = toggle_ns r in
           case t1_send_part d r1 command 0 e of
             (False, e1) \<Rightarrow> Some (ERROR, r1, e1)
           | (True, e1) \<Rightarrow>
               Option.bind (t1_send_loop d command 0 r1 e1) (\<lambda>(ok, r2, e2).
                 if ok then t1_receive_loop d [] 0 0 r2 e2 else Some (ERROR, r2, e2)))))"

section \<open>A card that follows the protocol\<close>

text \<open>The other side of the line, after ISO 7816-3: the card collects a chained command, checks the check byte, the length and the
  sequence number of each block, and answers with a list of blocks (information, or a request for more time) that it may choose by
  all commands so far. \<open>k_line\<close> holds the bytes on their way to the reader.\<close>

datatype t1_item = Wait u8 | Part "u8 list"

record t1_card =
  k_in :: "u8 list"
  k_ns :: u8
  k_seq :: u8
  k_wtx :: u8
  k_out :: "t1_item list"
  k_line :: "u8 list"
  k_log :: "u8 list list"

definition iso_block :: "u8 \<Rightarrow> u8 list \<Rightarrow> u8 list" where
  "iso_block control info = (let head = [0, control, of_nat (length info)] @ info in head @ [foldr (XOR) head 0])"

definition iso_valid :: "u8 list \<Rightarrow> bool" where
  "iso_valid b \<longleftrightarrow> 4 \<le> length b \<and> length b = 4 + unat (b ! 2) \<and> foldr (XOR) b 0 = 0"

definition card_emit :: "t1_card \<Rightarrow> t1_card" where
  "card_emit k = (case k_out k of
     [] \<Rightarrow> k
   | Wait w # xs \<Rightarrow> k\<lparr>k_out := xs, k_wtx := w, k_line := iso_block 0xC3 [w]\<rparr>
   | Part bs # xs \<Rightarrow> k\<lparr>k_out := xs, k_seq := 1 - k_seq k,
       k_line := iso_block ((if k_seq k = 1 then 0x40 else 0) OR (if xs = [] then 0 else 0x20)) bs\<rparr>)"

definition card_receive :: "(u8 list list \<Rightarrow> u8 list \<Rightarrow> t1_item list) \<Rightarrow> u8 list \<Rightarrow> t1_card \<Rightarrow> t1_card" where
  "card_receive reply b k =
     (let control = b ! 1; info = take (unat (b ! 2)) (drop 3 b) in
      if \<not> iso_valid b then k\<lparr>k_line := iso_block 0x81 []\<rparr>
      else if control AND 0x80 = 0 then
        (if (if control AND 0x40 = 0 then 0 else 1) \<noteq> k_ns k then k\<lparr>k_line := iso_block 0x82 []\<rparr>
         else if control AND 0x20 \<noteq> 0 then
           k\<lparr>k_in := k_in k @ info, k_ns := 1 - k_ns k, k_line := iso_block (if k_ns k = 1 then 0x80 else 0x90) []\<rparr>
         else card_emit (k\<lparr>k_in := [], k_ns := 1 - k_ns k, k_log := k_log k @ [k_in k @ info],
           k_out := reply (k_log k) (k_in k @ info)\<rparr>))
      else if control = (if k_seq k = 1 then 0x90 else 0x80) then card_emit k
      else if control = 0xE3 \<and> info = [k_wtx k] then card_emit k
      else k\<lparr>k_line := iso_block 0x82 []\<rparr>)"

definition card_driver :: "(u8 list list \<Rightarrow> u8 list \<Rightarrow> t1_item list) \<Rightarrow> t1_card driver" where
  "card_driver reply = \<lparr>
     d_transmit = (\<lambda>b k. (True, card_receive reply b k)),
     d_receive = (\<lambda>w n k. if n \<le> length (k_line k) then (Some (take n (k_line k)), k\<lparr>k_line := drop n (k_line k)\<rparr>) else (None, k))\<rparr>"

text \<open>The answer that the blocks carry, and the lists of blocks that are an answer.\<close>

primrec card_answer :: "t1_item list \<Rightarrow> u8 list" where
  "card_answer [] = []"
| "card_answer (i # xs) = (case i of Wait w \<Rightarrow> [] | Part bs \<Rightarrow> bs) @ card_answer xs"

definition answers :: "t1_item list \<Rightarrow> bool" where
  "answers xs \<longleftrightarrow> xs \<noteq> [] \<and> (case last xs of Wait w \<Rightarrow> False | Part bs \<Rightarrow> True) \<and>
     list_all (\<lambda>i. case i of Wait w \<Rightarrow> True | Part bs \<Rightarrow> length bs \<le> 254) xs"

section \<open>Blocks of both sides\<close>

lemma foldr_xor_start: "foldr (XOR) bs x = foldr (XOR) bs 0 XOR x" for x :: u8
  by (induction bs) (simp_all add: xor.assoc)

lemma foldr_xor_fold: "fold (\<lambda>b x. x XOR b) bs a = foldr (XOR) bs a" for a :: u8
proof (induction bs arbitrary: a)
  case (Cons b bs)
  have "foldr (XOR) bs (a XOR b) = b XOR foldr (XOR) bs a"
    by (subst (1 2) foldr_xor_start) (simp add: ac_simps)
  then show ?case using Cons by simp
qed simp

lemma unat_of_length: "length info \<le> 255 \<Longrightarrow> unat (of_nat (length info) :: u8) = length info"
  by (simp add: unat_of_nat)

lemma sealed_iso: "length info \<le> 255 \<Longrightarrow> sealed c (of_nat (length info)) info = iso_block c info"
  by (simp add: sealed_def iso_block_def T1_Block_LRC_def foldr_xor_fold unat_of_length Let_def)

lemma length_iso_block [simp]: "length (iso_block c info) = length info + 4"
  by (simp add: iso_block_def Let_def)

lemma iso_block_nth [simp]:
  "iso_block c info ! 0 = 0" "iso_block c info ! 1 = c" "iso_block c info ! Suc 0 = c" "iso_block c info ! 2 = of_nat (length info)"
  "take (length info) (drop 3 (iso_block c info)) = info"
  by (simp_all add: iso_block_def Let_def numeral_2_eq_2 numeral_3_eq_3)

lemma foldr_xor_snoc: "foldr (XOR) (bs @ [foldr (XOR) bs 0]) 0 = (0 :: u8)"
  using foldr_xor_start [of bs "foldr (XOR) bs 0"] by simp

lemma iso_block_valid: "length info \<le> 255 \<Longrightarrow> iso_valid (iso_block c info)"
proof -
  assume l: "length info \<le> 255"
  have "foldr (XOR) (iso_block c info) 0 = 0"
    unfolding iso_block_def Let_def by (rule foldr_xor_snoc)
  then show ?thesis using l by (simp add: iso_valid_def unat_of_length)
qed

lemma receive_iso_block:
  assumes "c_convention r = ATR_CONVENTION_DIRECT" "length info \<le> 255" "k_line k = iso_block c info"
  shows "\<exists>w. Protocol_T1_ReceiveBlock (card_driver reply) r k = (Some (iso_block c info), r\<lparr>c_wait := w\<rparr>, k\<lparr>k_line := []\<rparr>)"
proof (cases "info = []")
  case True
  have "iso_block c [] ! 2 = 0" by (simp add: iso_block_nth(4))
  then have "Protocol_T1_ReceiveBlock (card_driver reply) r k = (Some (iso_block c info), r\<lparr>c_wait := c_wait r\<rparr>, k\<lparr>k_line := []\<rparr>)"
    using assms True by (simp add: Protocol_T1_ReceiveBlock_def card_driver_def T1_Block_New_def T1_BLOCK_MAX_SIZE_def)
  then show ?thesis by blast
next
  case False
  then have n: "(of_nat (length info) :: u8) \<noteq> 0"
    using unat_of_length [OF assms(2)] by (metis length_0_conv unat_0)
  have t: "take 4 (iso_block c info) @ take (length info) (drop 4 (iso_block c info)) = iso_block c info"
    by simp
  have "take 4 (iso_block c info) ! 2 = of_nat (length info)" by simp
  then show ?thesis using assms n t
    by (auto simp: Protocol_T1_ReceiveBlock_def card_driver_def T1_Block_New_def T1_BLOCK_MAX_SIZE_def unat_of_length
      ICC_Async_SetTimings_def Let_def ATR_CONVENTION_DIRECT_def)
qed

section \<open>The answer of the card\<close>

lemma waits [simp]: "ICC_Async_SetTimings w r = r\<lparr>c_wait := w\<rparr>"
  by (simp add: ICC_Async_SetTimings_def)

lemma card_transmit [simp]:
  "c_convention r = ATR_CONVENTION_DIRECT \<Longrightarrow> Protocol_T1_SendBlock (card_driver reply) r b k = (True, card_receive reply b k)"
  by (simp add: Protocol_T1_SendBlock_def card_driver_def)

lemma type_iso_block: "T1_Block_GetType (iso_block c info) = (if c AND 0x80 = 0 then T1_BLOCK_I else c AND 0xEF)"
  by (simp add: T1_Block_GetType_def T1_BLOCK_I_def)

lemma inf_iso_block:
  assumes "length info \<le> 255"
  shows "(case T1_Block_GetInf (iso_block c info) of None \<Rightarrow> [] | Some i \<Rightarrow> take (unat (T1_Block_GetLen (iso_block c info))) i) = info"
proof (cases info)
  case (Cons a as)
  then show ?thesis using assms iso_block_nth(5) [of info c] unat_of_length [OF assms] by (simp add: T1_Block_GetInf_def T1_Block_GetLen_def del: iso_block_nth(5))
qed (simp add: T1_Block_GetInf_def)

lemma rblock_iso: "T1_Block_NewRBlock T1_BLOCK_R_OK nr = iso_block (0x80 OR (push_bit 4 nr AND 0x10)) []"
  using sealed_iso [of "[]"] by (simp add: T1_Block_NewRBlock_def T1_BLOCK_R_OK_def)

lemma wtx_iso: "T1_Block_NewSBlock T1_BLOCK_S_WTX_RES 1 [w] = iso_block 0xE3 [w]"
  using sealed_iso [of "[w]"] by (simp add: T1_Block_NewSBlock_def T1_BLOCK_S_WTX_RES_def)

text \<open>An information block is added to the answer, and acknowledged when another one follows.\<close>

lemma receive_part:
  assumes dir: "c_convention r = ATR_CONVENTION_DIRECT" and k: "k_line k = iso_block c bs" "length bs \<le> 254"
    and fits: "length buffer + length bs < 2 ^ 16" and c: "c AND 0x80 = 0"
  shows "\<exists>w v. t1_receive_loop (card_driver reply) buffer (length buffer) wtx r k =
    (if drop_bit 5 c AND 1 \<noteq> 0 then
       t1_receive_loop (card_driver reply) (buffer @ bs) (length (buffer @ bs)) v (r\<lparr>c_wait := w\<rparr>)
         (card_receive reply (iso_block (0x80 OR (push_bit 4 (((drop_bit 6 c AND 1) + 1) mod 2) AND 0x10)) []) (k\<lparr>k_line := []\<rparr>))
     else Some (OK (buffer @ bs), r\<lparr>c_wait := w\<rparr>, k\<lparr>k_line := []\<rparr>))"
proof -
  let ?r = "if 1 < wtx then r\<lparr>c_wait := unat wtx * c_BWT r\<rparr> else r"
  have "c_convention ?r = ATR_CONVENTION_DIRECT" "length bs \<le> 255" using dir k(2) by simp_all
  from receive_iso_block [OF this k(1), of reply]
  obtain w where R: "Protocol_T1_ReceiveBlock (card_driver reply) ?r k = (Some (iso_block c bs), ?r\<lparr>c_wait := w\<rparr>, k\<lparr>k_line := []\<rparr>)"
    by blast
  have i: "(case T1_Block_GetInf (iso_block c bs) of None \<Rightarrow> [] | Some x \<Rightarrow> take (unat (T1_Block_GetLen (iso_block c bs))) x) = bs"
    by (rule inf_iso_block) (use k(2) in simp)
  have n: "unat (T1_Block_GetLen (iso_block c bs)) = length bs" using unat_of_length [of bs] k(2) by (simp add: T1_Block_GetLen_def)
  have m: "(length buffer + length bs) mod 2 ^ 16 = length buffer + length bs" using fits by simp
  have ty: "T1_Block_GetType (iso_block c bs) = T1_BLOCK_I" using c by (simp add: type_iso_block)
  have ns: "T1_Block_GetNS (iso_block c bs) = drop_bit 6 c AND 1" "T1_Block_GetMore (iso_block c bs) \<longleftrightarrow> drop_bit 5 c AND 1 \<noteq> 0"
    by (simp_all add: T1_Block_GetNS_def T1_Block_GetMore_def)
  show ?thesis
    unfolding t1_receive_loop.simps [of "card_driver reply" buffer "length buffer" wtx r k] waits R prod.case option.case Let_def n i [unfolded n] m ns
      t1_append_def rblock_iso if_P [OF ty]
    using dir by (cases "1 < wtx") (auto intro!: exI)
qed

text \<open>A request for more time is granted.\<close>

lemma receive_wait:
  assumes dir: "c_convention r = ATR_CONVENTION_DIRECT" and k: "k_line k = iso_block 0xC3 [v]"
  shows "\<exists>w. t1_receive_loop (card_driver reply) buffer n wtx r k =
    t1_receive_loop (card_driver reply) buffer n v (r\<lparr>c_wait := w\<rparr>) (card_receive reply (iso_block 0xE3 [v]) (k\<lparr>k_line := []\<rparr>))"
proof -
  let ?r = "if 1 < wtx then r\<lparr>c_wait := unat wtx * c_BWT r\<rparr> else r"
  have "c_convention ?r = ATR_CONVENTION_DIRECT" "length [v] \<le> 255" using dir by simp_all
  from receive_iso_block [OF this k, of reply]
  obtain w where R: "Protocol_T1_ReceiveBlock (card_driver reply) ?r k = (Some (iso_block 0xC3 [v]), ?r\<lparr>c_wait := w\<rparr>, k\<lparr>k_line := []\<rparr>)"
    by blast
  have ty: "T1_Block_GetType (iso_block 0xC3 [v]) = T1_BLOCK_S_WTX_REQ" "T1_BLOCK_S_WTX_REQ \<noteq> T1_BLOCK_I"
    by (simp_all add: type_iso_block t1_block_consts)
  have "T1_Block_GetInf (iso_block 0xC3 [v]) = Some (drop 3 (iso_block 0xC3 [v]))" "drop 3 (iso_block 0xC3 [v]) ! 0 = v"
    by (simp_all add: T1_Block_GetInf_def iso_block_def Let_def numeral_3_eq_3)
  then show ?thesis
    unfolding t1_receive_loop.simps [of "card_driver reply" buffer n wtx r k] waits R prod.case option.case Let_def
    using dir by (cases "1 < wtx") (auto simp: ty wtx_iso intro!: exI)
qed

definition bit_valued :: "u8 \<Rightarrow> bool" where
  "bit_valued b \<longleftrightarrow> b = 0 \<or> b = 1"

lemma answers_Wait [simp]: "answers (Wait w # xs) \<longleftrightarrow> answers xs"
  by (cases xs) (auto simp: answers_def)

lemma answers_Part [simp]: "answers (Part bs # xs) \<longleftrightarrow> length bs \<le> 254 \<and> (xs = [] \<or> answers xs)"
  by (cases xs) (auto simp: answers_def)

lemma receive_answer:
  assumes "answers xs" "c_convention r = ATR_CONVENTION_DIRECT" "k_out k = xs" "bit_valued (k_seq k)"
    "length buffer + length (card_answer xs) < 2 ^ 16"
  shows "\<exists>w k'. t1_receive_loop (card_driver reply) buffer (length buffer) wtx r (card_emit k) =
      Some (OK (buffer @ card_answer xs), r\<lparr>c_wait := w\<rparr>, k') \<and>
    k_line k' = [] \<and> k_in k' = k_in k \<and> k_ns k' = k_ns k \<and> k_log k' = k_log k \<and> bit_valued (k_seq k')"
  using assms
proof (induction xs arbitrary: k buffer r wtx)
  case Nil
  then show ?case by (simp add: answers_def)
next
  case (Cons x xs)
  show ?case
  proof (cases x)
    case (Wait v)
    let ?k = "k\<lparr>k_out := xs, k_wtx := v, k_line := []\<rparr>"
    have e: "card_emit k = k\<lparr>k_out := xs, k_wtx := v, k_line := iso_block 0xC3 [v]\<rparr>" using Cons.prems Wait by (simp add: card_emit_def)
    have "take (unat (of_nat (length [v]) :: u8)) (drop 3 (iso_block 0xE3 [v])) = [v]" using iso_block_nth(5) [of "[v]" "0xE3"] by simp
    then have "card_receive reply (iso_block 0xE3 [v]) ?k = card_emit ?k"
      using iso_block_valid [of "[v]" "0xE3"] by (simp add: card_receive_def)
    then obtain w where w: "t1_receive_loop (card_driver reply) buffer (length buffer) wtx r (card_emit k) =
        t1_receive_loop (card_driver reply) buffer (length buffer) v (r\<lparr>c_wait := w\<rparr>) (card_emit ?k)"
      using receive_wait [of r "card_emit k" v reply buffer "length buffer" wtx] Cons.prems(2) e by auto
    show ?thesis using Cons.IH [of "r\<lparr>c_wait := w\<rparr>" ?k buffer v] Cons.prems Wait w by auto
  next
    case (Part bs)
    let ?c = "(if k_seq k = 1 then 0x40 else 0) OR (if xs = [] then 0 else 0x20) :: u8"
    let ?k = "k\<lparr>k_out := xs, k_seq := 1 - k_seq k, k_line := []\<rparr>"
    have e: "card_emit k = k\<lparr>k_out := xs, k_seq := 1 - k_seq k, k_line := iso_block ?c bs\<rparr>"
      using Cons.prems Part by (simp add: card_emit_def)
    have kl: "k_line (card_emit k) = iso_block ?c bs" "(card_emit k)\<lparr>k_line := []\<rparr> = ?k" by (simp_all add: e)
    have bs: "length bs \<le> 254" "length buffer + length bs < 2 ^ 16" "?c AND 0x80 = 0" "xs = [] \<or> answers xs"
      using Cons.prems Part by auto
    obtain w v where w: "t1_receive_loop (card_driver reply) buffer (length buffer) wtx r (card_emit k) =
      (if drop_bit 5 ?c AND 1 \<noteq> 0 then
         t1_receive_loop (card_driver reply) (buffer @ bs) (length (buffer @ bs)) v (r\<lparr>c_wait := w\<rparr>)
           (card_receive reply (iso_block (0x80 OR (push_bit 4 (((drop_bit 6 ?c AND 1) + 1) mod 2) AND 0x10)) []) ?k)
       else Some (OK (buffer @ bs), r\<lparr>c_wait := w\<rparr>, ?k))"
      using receive_part [OF Cons.prems(2) kl(1) bs(1,2,3), of reply wtx] unfolding kl(2) by blast
    show ?thesis
    proof (cases "xs = []")
      case True
      then have "drop_bit 5 ?c AND 1 = 0" by auto
      then show ?thesis using w True Part Cons.prems(4) by (auto simp: bit_valued_def)
    next
      case False
      then have d: "drop_bit 5 ?c AND 1 \<noteq> 0" by auto
      have "card_receive reply (iso_block (0x80 OR (push_bit 4 (((drop_bit 6 ?c AND 1) + 1) mod 2) AND 0x10)) []) ?k = card_emit ?k"
        using iso_block_valid [of "[]"] Cons.prems(4) False by (auto simp: card_receive_def bit_valued_def)
      then show ?thesis using Cons.IH [of "r\<lparr>c_wait := w\<rparr>" ?k "buffer @ bs" v] Cons.prems Part w d bs(4) False
        by (auto simp: bit_valued_def)
    qed
  qed
qed

section \<open>The command reaches the card\<close>

lemma send_part:
  assumes "c_convention r = ATR_CONVENTION_DIRECT" "c_ifsc r \<le> 254" "bit_valued (c_ns r)"
  shows "t1_send_part (card_driver reply) r cmd n k =
    (True, card_receive reply (iso_block ((if c_ns r = 1 then 0x40 else 0) OR (if t1_more r cmd n then 0x20 else 0))
      (take (c_ifsc r) (drop n cmd))) k)"
proof -
  let ?i = "take (c_ifsc r) (drop n cmd)"
  have l: "length ?i = min (length cmd - n) (c_ifsc r)" "length ?i \<le> 255" using assms(2) by auto
  have p: "t1_part r cmd n = of_nat (length ?i)" by (simp add: t1_part_def min.commute)
  have "take (unat (of_nat (length ?i) :: u8)) (drop n cmd) = ?i"
    unfolding unat_of_length [OF l(2)] by (simp add: min_def)
  moreover define i where "i = ?i"
  ultimately have q: "take (unat (of_nat (length i) :: u8)) (drop n cmd) = i" "length i \<le> 255" "t1_part r cmd n = of_nat (length i)"
    using l(2) p by simp_all
  have "T1_Block_NewIBlock (t1_part r cmd n) (drop n cmd) (c_ns r) (t1_more r cmd n) =
      iso_block ((if c_ns r = 1 then 0x40 else 0) OR (if t1_more r cmd n then 0x20 else 0)) i"
    unfolding q(3) T1_Block_NewIBlock_def Let_def q(1) sealed_iso [OF q(2)]
    using assms(3) by (auto simp: T1_BLOCK_I_def bit_valued_def)
  then show ?thesis using assms(1) by (simp add: t1_send_part_def i_def)
qed

lemma card_takes_part:
  assumes "bit_valued (k_ns k)" "length info \<le> 254"
  shows "card_receive reply (iso_block ((if k_ns k = 1 then 0x40 else 0) OR (if chain then 0x20 else 0)) info) k =
    (if chain then k\<lparr>k_in := k_in k @ info, k_ns := 1 - k_ns k, k_line := iso_block (if k_ns k = 1 then 0x80 else 0x90) []\<rparr>
     else card_emit (k\<lparr>k_in := [], k_ns := 1 - k_ns k, k_log := k_log k @ [k_in k @ info],
       k_out := reply (k_log k) (k_in k @ info)\<rparr>))"
proof -
  have "length info \<le> 255" using assms(2) by simp
  note v = iso_block_valid [OF this] unat_of_length [OF this]
  show ?thesis using assms(1) v by (auto simp: card_receive_def bit_valued_def)
qed

text \<open>The whole loop: from the block at \<open>n\<close> on, the card has the rest of the command in the end, and has begun to answer.\<close>

lemma send_loop:
  assumes "c_convention r = ATR_CONVENTION_DIRECT" "1 \<le> c_ifsc r" "c_ifsc r \<le> 254" "bit_valued (c_ns r)"
    "k_ns k = c_ns r" "k_in k = take n cmd" "n \<le> length cmd"
  shows "\<exists>w s k'. t1_send_loop (card_driver reply) cmd n r (snd (t1_send_part (card_driver reply) r cmd n k)) =
      Some (True, r\<lparr>c_ns := s, c_wait := w\<rparr>, card_emit k') \<and>
    k_in k' = [] \<and> k_ns k' = 1 - s \<and> bit_valued s \<and> k_log k' = k_log k @ [cmd] \<and> k_out k' = reply (k_log k) cmd \<and> k_seq k' = k_seq k"
  using assms
proof (induction "length cmd - n" arbitrary: n r k rule: less_induct)
  case less
  let ?i = "take (c_ifsc r) (drop n cmd)"
  have i: "length ?i \<le> 254" using less.prems(3) by simp
  have ns: "bit_valued (k_ns k)" "k_ns k = 1 \<longleftrightarrow> c_ns r = 1" using less.prems by simp_all
  have s: "snd (t1_send_part (card_driver reply) r cmd n k) =
    (if t1_more r cmd n then k\<lparr>k_in := k_in k @ ?i, k_ns := 1 - k_ns k, k_line := iso_block (if k_ns k = 1 then 0x80 else 0x90) []\<rparr>
     else card_emit (k\<lparr>k_in := [], k_ns := 1 - k_ns k, k_log := k_log k @ [k_in k @ ?i], k_out := reply (k_log k) (k_in k @ ?i)\<rparr>))"
    unfolding send_part [OF less.prems(1,3,4)] snd_conv ns(2) [symmetric] by (rule card_takes_part [OF ns(1) i])
  show ?case
  proof (cases "t1_more r cmd n")
    case False
    then have "k_in k @ ?i = cmd" using less.prems by (simp add: t1_more_def)
    then show ?thesis unfolding s t1_send_loop.simps [of "card_driver reply" cmd n r]
      using False less.prems(4,5)
      by (intro exI [of _ "c_wait r"] exI [of _ "c_ns r"] exI [of _ "k\<lparr>k_in := [], k_ns := 1 - k_ns k, k_log := k_log k @ [k_in k @ ?i],
        k_out := reply (k_log k) (k_in k @ ?i)\<rparr>"]) simp
  next
    case True
    let ?k = "k\<lparr>k_in := k_in k @ ?i, k_ns := 1 - k_ns k, k_line := iso_block (if k_ns k = 1 then 0x80 else 0x90) []\<rparr>"
    let ?k1 = "?k\<lparr>k_line := []\<rparr>"
    have part: "unat (t1_part r cmd n) = c_ifsc r" using True less.prems(3) by (simp add: t1_part_def t1_more_def unat_of_nat)
    obtain w where R: "Protocol_T1_ReceiveBlock (card_driver reply) r ?k =
        (Some (iso_block (if k_ns k = 1 then 0x80 else 0x90) []), r\<lparr>c_wait := w\<rparr>, ?k1)"
      using receive_iso_block [OF less.prems(1), of "[]" ?k] by auto
    let ?r = "toggle_ns (r\<lparr>c_wait := w\<rparr>)"
    have ty: "T1_Block_GetType (iso_block (if k_ns k = 1 then 0x80 else 0x90) []) = T1_BLOCK_R_OK"
      by (simp add: type_iso_block t1_block_consts)
    have r: "c_ifsc ?r = c_ifsc r" "c_convention ?r = c_convention r" "c_ns ?r = 1 - c_ns r" "bit_valued (c_ns ?r)"
      using less.prems(4) by (auto simp: toggle_ns_def bit_valued_def)
    have l: "length cmd - (n + c_ifsc r) < length cmd - n" "n + c_ifsc r \<le> length cmd" using True less.prems(2) by (auto simp: t1_more_def)
    have kk: "k_ns ?k1 = c_ns ?r" "k_in ?k1 = take (n + c_ifsc r) cmd" using r(3) less.prems(5,6) by (simp_all add: take_add)
    have p: "t1_send_part (card_driver reply) ?r cmd (n + c_ifsc r) ?k1 = (True, snd (t1_send_part (card_driver reply) ?r cmd (n + c_ifsc r) ?k1))"
      using r less.prems by (simp add: send_part)
    have step: "t1_send_loop (card_driver reply) cmd n r (snd (t1_send_part (card_driver reply) r cmd n k)) =
      t1_send_loop (card_driver reply) cmd (n + c_ifsc r) ?r (snd (t1_send_part (card_driver reply) ?r cmd (n + c_ifsc r) ?k1))"
      unfolding s if_P [OF True] t1_send_loop.simps [of "card_driver reply" cmd n r] R option.case prod.case Let_def part if_P [OF ty]
      by (subst p) (simp add: True)
    from less.hyps [OF l(1), of ?r ?k1] r less.prems(1,2,3) kk l(2) obtain w' s' k' where
      IH: "t1_send_loop (card_driver reply) cmd (n + c_ifsc r) ?r (snd (t1_send_part (card_driver reply) ?r cmd (n + c_ifsc r) ?k1)) =
        Some (True, ?r\<lparr>c_ns := s', c_wait := w'\<rparr>, card_emit k')"
      "k_in k' = []" "k_ns k' = 1 - s'" "bit_valued s'" "k_log k' = k_log k @ [cmd]" "k_out k' = reply (k_log k) cmd" "k_seq k' = k_seq k"
      by auto
    have "?r\<lparr>c_ns := s', c_wait := w'\<rparr> = r\<lparr>c_ns := s', c_wait := w'\<rparr>" by (simp add: toggle_ns_def)
    then show ?thesis using step IH by auto
  qed
qed

section \<open>Commands and answers\<close>

definition t1_plain :: "u8 list \<Rightarrow> bool" where
  "t1_plain cmd \<longleftrightarrow> 2 \<le> length cmd \<and> cmd ! 1 \<noteq> T1_BLOCK_S_IFS_REQ \<and> cmd ! 1 \<noteq> T1_BLOCK_S_RESYNCH_REQ"

lemma t1_command:
  assumes r: "c_convention r = ATR_CONVENTION_DIRECT" "1 \<le> c_ifsc r" "c_ifsc r \<le> 254" "k_ns k = (if c_ns r = 1 then 0 else 1)"
    and k: "k_in k = []" "bit_valued (k_seq k)" and c: "t1_plain cmd"
    and a: "answers (reply (k_log k) cmd)" "length (card_answer (reply (k_log k) cmd)) < 2 ^ 16"
  shows "\<exists>s w k'. Protocol_T1_Command (card_driver reply) r cmd k =
      Some (OK (card_answer (reply (k_log k) cmd)), r\<lparr>c_ns := s, c_wait := w\<rparr>, k') \<and>
    k_line k' = [] \<and> k_in k' = [] \<and> k_ns k' = (if s = 1 then 0 else 1) \<and> k_log k' = k_log k @ [cmd] \<and> bit_valued (k_seq k')"
proof -
  let ?r = "toggle_ns r"
  have t: "c_convention ?r = ATR_CONVENTION_DIRECT" "1 \<le> c_ifsc ?r" "c_ifsc ?r \<le> 254" "bit_valued (c_ns ?r)" "k_ns k = c_ns ?r"
    using r by (auto simp: toggle_ns_def bit_valued_def)
  have p: "t1_send_part (card_driver reply) ?r cmd 0 k = (True, snd (t1_send_part (card_driver reply) ?r cmd 0 k))"
    using t by (simp add: send_part)
  from send_loop [OF t(1,2,3,4,5), of 0 cmd reply] k(1) obtain w s k1 where
    S: "t1_send_loop (card_driver reply) cmd 0 ?r (snd (t1_send_part (card_driver reply) ?r cmd 0 k)) = Some (True, ?r\<lparr>c_ns := s, c_wait := w\<rparr>, card_emit k1)"
    and k1: "k_in k1 = []" "k_ns k1 = 1 - s" "bit_valued s" "k_log k1 = k_log k @ [cmd]" "k_out k1 = reply (k_log k) cmd" "k_seq k1 = k_seq k"
    by auto
  have d: "c_convention (?r\<lparr>c_ns := s, c_wait := w\<rparr>) = ATR_CONVENTION_DIRECT" using t(1) by simp
  from receive_answer [OF a(1) d k1(5), of "[]" reply 0] k1(6) k(2) a(2) obtain w2 k2 where
    R: "t1_receive_loop (card_driver reply) [] 0 0 (?r\<lparr>c_ns := s, c_wait := w\<rparr>) (card_emit k1) =
      Some (OK (card_answer (reply (k_log k) cmd)), ?r\<lparr>c_ns := s, c_wait := w, c_wait := w2\<rparr>, k2)"
    and k2: "k_line k2 = []" "k_in k2 = k_in k1" "k_ns k2 = k_ns k1" "k_log k2 = k_log k1" "bit_valued (k_seq k2)"
    by auto
  have x: "?r\<lparr>c_ns := s, c_wait := w, c_wait := w2\<rparr> = r\<lparr>c_ns := s, c_wait := w2\<rparr>" by (simp add: toggle_ns_def)
  have "Protocol_T1_Command (card_driver reply) r cmd k = Some (OK (card_answer (reply (k_log k) cmd)), r\<lparr>c_ns := s, c_wait := w2\<rparr>, k2)"
    using c R S unfolding Protocol_T1_Command_def Let_def x by (subst p) (simp add: t1_plain_def)
  moreover have "k_ns k2 = (if s = 1 then 0 else 1)" using k1 k2 by (auto simp: bit_valued_def)
  ultimately show ?thesis using k1 k2 by (intro exI [of _ s] exI [of _ w2] exI [of _ k2]) simp
qed

text \<open>A sequence of commands, as the card code of a reader sends them one after the other.\<close>

primrec t1_session :: "'e driver \<Rightarrow> icc \<Rightarrow> u8 list list \<Rightarrow> 'e \<Rightarrow> (icc_result list \<times> icc \<times> 'e) option" where
  "t1_session d r [] e = Some ([], r, e)"
| "t1_session d r (c # cs) e =
     Option.bind (Protocol_T1_Command d r c e) (\<lambda>(x, r1, e1).
       Option.bind (t1_session d r1 cs e1) (\<lambda>(xs, r2, e2). Some (x # xs, r2, e2)))"

text \<open>What it comes to: every command is answered by what the card says to it.\<close>

primrec card_session :: "(u8 list list \<Rightarrow> u8 list \<Rightarrow> t1_item list) \<Rightarrow> u8 list list \<Rightarrow> u8 list list \<Rightarrow> icc_result list" where
  "card_session reply hist [] = []"
| "card_session reply hist (c # cs) = OK (card_answer (reply hist c)) # card_session reply (hist @ [c]) cs"

text \<open>C15. T=1 implements an exchange of commands and answers: over a card that follows the protocol, every command of a sequence,
  cut into blocks by the reader, arrives at the card exactly once, in order and complete, and its caller gets exactly the bytes that the
  card answers, in however many blocks and with however many requests for more time; the sequence numbers of the two sides stay
  in step and nothing is left on the line.\<close>

theorem t1_session_answers:
  assumes "c_convention r = ATR_CONVENTION_DIRECT" "1 \<le> c_ifsc r" "c_ifsc r \<le> 254" "k_ns k = (if c_ns r = 1 then 0 else 1)"
    and "k_in k = []" "k_line k = []" "bit_valued (k_seq k)" "list_all t1_plain cmds"
    and "\<And>hist c. answers (reply hist c) \<and> length (card_answer (reply hist c)) < 2 ^ 16"
  shows "\<exists>r' k'. t1_session (card_driver reply) r cmds k = Some (card_session reply (k_log k) cmds, r', k') \<and>
    k_log k' = k_log k @ cmds \<and> k_line k' = [] \<and> k_in k' = [] \<and> k_ns k' = (if c_ns r' = 1 then 0 else 1)"
  using assms(1-8)
proof (induction cmds arbitrary: r k)
  case (Cons c cs)
  have c: "t1_plain c" using Cons.prems(8) by simp
  obtain s w k1 where 1: "Protocol_T1_Command (card_driver reply) r c k = Some (OK (card_answer (reply (k_log k) c)), r\<lparr>c_ns := s, c_wait := w\<rparr>, k1)"
    "k_line k1 = []" "k_in k1 = []" "k_ns k1 = (if s = 1 then 0 else 1)" "k_log k1 = k_log k @ [c]" "bit_valued (k_seq k1)"
    using t1_command [OF Cons.prems(1-4,5,7) c] assms(9) by blast
  from Cons.IH [of "r\<lparr>c_ns := s, c_wait := w\<rparr>" k1] Cons.prems 1 show ?case by auto
qed simp

text \<open>A card that answers every command with its length, in one block after a request for more time and an empty block.\<close>

definition echo_card :: "u8 list list \<Rightarrow> u8 list \<Rightarrow> t1_item list" where
  "echo_card hist c = [Part [], Wait 3, Part [of_nat (length c), 0x90, 0x00]]"

definition t1_reader :: icc where
  "t1_reader = \<lparr>c_convention = ATR_CONVENTION_DIRECT, c_inverts = False, c_mouse = True, c_protocol = 1, c_ns = 1, c_ifsc = 3, c_BWT = 100, c_CWT = 10, c_wait = 0\<rparr>"

definition t1_fresh :: t1_card where
  "t1_fresh = \<lparr>k_in = [], k_ns = 0, k_seq = 0, k_wtx = 0, k_out = [], k_line = [], k_log = []\<rparr>"

theorem t1_session_answers_witness:
  "\<exists>r' k'. t1_session (card_driver echo_card) t1_reader [[0xDD, 0xCA, 0, 0, 4, 1, 2, 3], [0xDD, 0xCB]] t1_fresh =
     Some ([OK [8, 0x90, 0], OK [2, 0x90, 0]], r', k') \<and> k_log k' = [[0xDD, 0xCA, 0, 0, 4, 1, 2, 3], [0xDD, 0xCB]]"
  using t1_session_answers [of t1_reader t1_fresh "[[0xDD, 0xCA, 0, 0, 4, 1, 2, 3], [0xDD, 0xCB]]" echo_card]
  by (auto simp: t1_reader_def t1_fresh_def echo_card_def bit_valued_def t1_plain_def t1_block_consts answers_def)

section \<open>What the code does not check\<close>

text \<open>A command with the instruction code of GET RESPONSE is taken for a request to resynchronise and never sent.\<close>

lemma get_response_is_resynch: "Protocol_T1_Command d r (cla # 0xC0 # rest) e = Some (t1_resynch_request d r e)"
  by (simp add: Protocol_T1_Command_def fetch_def t1_block_consts)

text \<open>The check byte of a received block is not looked at, and a request for more time without its length byte is dereferenced.\<close>

lemma lrc_not_checked:
  assumes "c_convention r = ATR_CONVENTION_DIRECT"
  shows "fst (Protocol_T1_ReceiveBlock line_driver r \<lparr>l_sent = [], l_coming = [0, 0, 1, 7, x]\<rparr>) = Some [0, 0, 1, 7, x]"
  using assms by (simp add: Protocol_T1_ReceiveBlock_def T1_Block_New_def T1_BLOCK_MAX_SIZE_def line_driver_def ATR_CONVENTION_DIRECT_def)

lemma empty_wtx_faults:
  assumes "c_convention r = ATR_CONVENTION_DIRECT"
  shows "\<exists>r' s'. t1_receive_loop line_driver [] 0 0 r \<lparr>l_sent = [], l_coming = [0, 0xC3, 0, 0xC3]\<rparr> = Some (FAULT, r', s')"
proof -
  have "Protocol_T1_ReceiveBlock line_driver r \<lparr>l_sent = [], l_coming = [0, 0xC3, 0, 0xC3]\<rparr> = (Some [0, 0xC3, 0, 0xC3], r, \<lparr>l_sent = [], l_coming = []\<rparr>)"
    using assms by (simp add: Protocol_T1_ReceiveBlock_def T1_Block_New_def T1_BLOCK_MAX_SIZE_def line_driver_def)
  then show ?thesis
    by (simp add: t1_receive_loop.simps T1_Block_GetType_def T1_Block_GetInf_def t1_block_consts Let_def)
qed

end
