(* ===== verification/Icc.thy ===== *)
theory Icc
  imports T0 T1
begin

unbundle bit_operations_syntax

text \<open>
  The rest of \<open>csctapi/icc_async.c\<close> that decides: the protocol and parameters selection, what \<open>Parse_ATR\<close> makes of an answer to
  reset (protocol, speed), the information field size that \<open>InitCard\<close> takes for T=1, and \<open>ICC_Async_CardWrite\<close>, the one entry of
  the card code, with its second attempt. The programming of the reader hardware is left to the driver; the doubles are rationals.
\<close>

section \<open>Protocol and parameters selection\<close>

definition PPS_GetLength :: "u8 list \<Rightarrow> nat" where
  "PPS_GetLength block = 3 + (if block ! 1 AND 0x10 = 0x10 then 1 else 0) + (if block ! 1 AND 0x20 = 0x20 then 1 else 0) +
     (if block ! 1 AND 0x40 = 0x40 then 1 else 0)"

definition PPS_GetPCK :: "u8 list \<Rightarrow> nat \<Rightarrow> u8" where
  "PPS_GetPCK block n = fold (\<lambda>b p. p XOR b) (take (n - 1) (drop 1 block)) (block ! 0)"

text \<open>The request has room for six bytes. The result: whether the card agreed, the bytes it sent, their number.\<close>

definition PPS_Exchange :: "'e driver \<Rightarrow> icc \<Rightarrow> u8 list \<Rightarrow> 'e \<Rightarrow> (bool \<times> u8 list \<times> nat) \<times> 'e" where
  "PPS_Exchange d r params0 e =
     (let len_request = PPS_GetLength params0;
          params = params0[len_request - 1 := PPS_GetPCK params0 (len_request - 1)] in
      case ICC_Async_Transmit d r (take len_request params) e of
        (False, e1) \<Rightarrow> ((False, params, 0), e1)
      | (True, e1) \<Rightarrow> (case ICC_Async_Receive d r 2 e1 of
          (None, e2) \<Rightarrow> ((False, params, 0), e2)
        | (Some head, e2) \<Rightarrow>
            (let len_confirm = PPS_GetLength head in
             case ICC_Async_Receive d r (len_confirm - 2) e2 of
               (None, e3) \<Rightarrow> ((False, params, 0), e3)
             | (Some rest, e3) \<Rightarrow>
                 (let confirm = head @ rest in
                  ((len_request = len_confirm \<and> take len_request params = take len_request confirm,
                    confirm @ drop len_confirm params, len_confirm), e3)))))"

section \<open>The answer to reset\<close>

definition ATR_DEFAULT_FI :: u8 where "ATR_DEFAULT_FI = 1"
definition ATR_DEFAULT_D :: rat where "ATR_DEFAULT_D = 1"

text \<open>An interface byte, when it is there; the outer \<open>None\<close> is a row that was never written.\<close>

definition iface :: "atr \<Rightarrow> nat \<Rightarrow> nat \<Rightarrow> u8 option option" where
  "iface a n k = map_option (\<lambda>x. case x of Inr v \<Rightarrow> Some v | Inl e \<Rightarrow> None) (ATR_GetInterfaceByte a n k)"

text \<open>Which of T=0, T=1 and T=14 are offered; \<open>None\<close> when the array of three flags is left.\<close>

definition offer :: "bool list \<Rightarrow> u8 option \<Rightarrow> bool list option" where
  "offer ts td = (case td of
     None \<Rightarrow> store ts 0 True
   | Some tx \<Rightarrow> (let t = unat (tx AND 0x0F) in if t = 14 then store ts 2 True else store ts t True))"

primrec atr_offers_from :: "atr \<Rightarrow> nat list \<Rightarrow> bool list \<Rightarrow> bool list option" where
  "atr_offers_from a [] ts = Some ts"
| "atr_offers_from a (i # js) ts = do { td \<leftarrow> iface a i 3; ts' \<leftarrow> offer ts td; atr_offers_from a js ts' }"

definition atr_offers :: "atr \<Rightarrow> bool list option" where
  "atr_offers a = do {
     last_td \<leftarrow> iface a (a_pn a - 1) 3;
     let numprot = (case last_td of Some tx \<Rightarrow> if tx AND 0xF0 = 0 then a_pn a - 1 else a_pn a | None \<Rightarrow> a_pn a);
     atr_offers_from a [1..<numprot + 1] [False, False, False] }"

text \<open>The speed that \<open>TA1\<close> gives.\<close>

definition ta1_speed :: "atr \<Rightarrow> (u8 \<times> rat) option" where
  "ta1_speed a = do {
     ta1 \<leftarrow> iface a 1 0;
     (case ta1 of
        Some v \<Rightarrow> do { d \<leftarrow> ATR_GetParameter a Par_D; Some (drop_bit 4 v, d) }
      | None \<Rightarrow> Some (ATR_DEFAULT_FI, ATR_DEFAULT_D)) }"

record 'e parsed =
  p_protocol :: nat
  p_FI :: u8
  p_d :: rat
  p_n :: rat
  p_env :: 'e

text \<open>The negotiation. \<open>pps\<close> is the setting of the parity and the exchange above: \<open>None\<close> when the parity could not be set.\<close>

definition negotiate ::
  "(u8 list \<Rightarrow> 'e \<Rightarrow> ((bool \<times> u8 list \<times> nat) option) \<times> 'e) \<Rightarrow> atr \<Rightarrow> bool \<Rightarrow> bool \<Rightarrow> u8 \<Rightarrow> 'e \<Rightarrow> (u8 \<times> rat) option option \<times> 'e" where
  "negotiate pps a deprecated needs protocol e =
     (let (result, e1) =
        (if needs \<and> \<not> deprecated then
           (case iface a 1 0 of
              None \<Rightarrow> (None, e)
            | Some ta1 \<Rightarrow> (case pps [0xFF, 0x10 OR protocol, case ta1 of Some v \<Rightarrow> v | None \<Rightarrow> 0x11, 0, 0, 0] e of
                (None, e1) \<Rightarrow> (None, e1)
              | (Some (ok, req, n), e1) \<Rightarrow> (Some (ok, req), e1)))
         else (Some (False, []), e)) in
      case result of
        None \<Rightarrow> (None, e1)
      | Some (True, req) \<Rightarrow> (Some (Some (drop_bit 4 (req ! 2), atr_d_table ! unat (req ! 2 AND 0x0F))), e1)
      | Some (False, _) \<Rightarrow>
          (Some (map_option (\<lambda>(FI, d). (FI, if needs \<and> (d = 32 \<or> d = 12 \<or> d = 20) then 0 else d)) (ta1_speed a)), e1))"

text \<open>No zero values.\<close>

definition usable_speed :: "bool \<Rightarrow> nat \<Rightarrow> rat \<Rightarrow> 'e \<Rightarrow> u8 \<times> rat \<Rightarrow> 'e parsed" where
  "usable_speed deprecated protocol n e x = (case x of (FI, d) \<Rightarrow>
     (let FI' = (if atr_f_table ! unat FI = 0 then ATR_DEFAULT_FI else FI); d' = (if d = 0 then ATR_DEFAULT_D else d) in
      \<lparr>p_protocol = protocol, p_FI = (if deprecated then ATR_DEFAULT_FI else FI'), p_d = (if deprecated then ATR_DEFAULT_D else d'),
       p_n = n, p_env = e\<rparr>))"

text \<open>What \<open>InitCard\<close> is called with: \<open>None\<close> is an access outside an array, \<open>Inl\<close> the error return.\<close>

definition Parse_ATR ::
  "(u8 list \<Rightarrow> 'e \<Rightarrow> ((bool \<times> u8 list \<times> nat) option) \<times> 'e) \<Rightarrow> atr \<Rightarrow> bool \<Rightarrow> 'e \<Rightarrow> ('e + 'e parsed) option" where
  "Parse_ATR pps a deprecated e = do {
     ts \<leftarrow> atr_offers a;
     n \<leftarrow> ATR_GetParameter a Par_N;
     p1 \<leftarrow> ATR_GetProtocolType a 1;
     ta2 \<leftarrow> iface a 2 0;
     ta1 \<leftarrow> iface a 1 0;
     let protocol1 = (case p1 of Inr p \<Rightarrow> p | Inl _ \<Rightarrow> 0);
     let protocol = (case ta2 of Some v \<Rightarrow> v AND 0x0F | None \<Rightarrow> protocol1);
     let types = length (filter id ts);
     let (speed, e1) = (case ta2 of
       Some v \<Rightarrow> (Some (if v AND 0x10 \<noteq> 0x10 then ta1_speed a else Some (ATR_DEFAULT_FI, ATR_DEFAULT_D)), e)
     | None \<Rightarrow>
         negotiate pps a deprecated (protocol \<noteq> 14 \<and> (1 < types \<or> (case ta1 of Some v \<Rightarrow> v \<noteq> 0x11 | None \<Rightarrow> False) \<or> n = 255)) protocol e);
     (case speed of
        None \<Rightarrow> Some (Inl e1)
      | Some s \<Rightarrow> map_option (\<lambda>x. Inr (usable_speed deprecated (unat protocol) n e1 x)) s) }"

section \<open>The information field size\<close>

definition t1_ifsc :: "atr \<Rightarrow> bool \<Rightarrow> nat option" where
  "t1_ifsc a smargopatch = do {
     ta \<leftarrow> iface a 3 0;
     let ifsc = (case ta of None \<Rightarrow> DEFAULT_IFSC | Some v \<Rightarrow> if v \<noteq> 0 \<and> v \<noteq> 0xFF then unat v else DEFAULT_IFSC);
     Some (if smargopatch then min ifsc 28 else min ifsc MAX_IFSC) }"

text \<open>The request for the field size that follows when it is not the default one.\<close>

definition t1_announce_ifsc :: "'e driver \<Rightarrow> icc \<Rightarrow> 'e \<Rightarrow> (icc_result \<times> icc \<times> 'e) option" where
  "t1_announce_ifsc d r e =
     (if c_protocol r = 1 \<and> c_ifsc r \<noteq> DEFAULT_IFSC
      then Protocol_T1_Command d r [0x21, 0xC1, 0x01, of_nat (c_ifsc r), of_nat (c_ifsc r) XOR 0xE1] e
      else Some (OK [], r, e))"

section \<open>Writing to the card\<close>

text \<open>One attempt, in the protocol of the card; after a failure in T=1 the two sides are synchronised again and the default field
  size is taken.\<close>

definition card_attempt :: "'e driver \<Rightarrow> icc \<Rightarrow> u8 list \<Rightarrow> u8 list \<Rightarrow> 'e \<Rightarrow> (icc_code \<times> u8 list \<times> nat \<times> icc \<times> 'e) option" where
  "card_attempt d r command rsp e =
     (if c_protocol r = 0 then map_option (\<lambda>(c, rsp', lr, e1). (c, rsp', lr, r, e1)) (Protocol_T0_Command d r command rsp e)
      else if c_protocol r = 1 then do {
        (x, r1, e1) \<leftarrow> Protocol_T1_Command d r command e;
        (case x of
           OK bs \<Rightarrow> (case respond rsp bs e1 of (c, rsp', lr, e2) \<Rightarrow> Some (c, rsp', lr, r1, e2))
         | FAULT \<Rightarrow> Some (C_FAULT, rsp, 0, r1, e1)
         | ERROR \<Rightarrow> do {
             (y, r2, e2) \<leftarrow> Protocol_T1_Command d r1 [0x21, 0xC0, 0x00, 0xE1] e1;
             Some (if y = FAULT then C_FAULT else C_ERROR, rsp, 0, r2\<lparr>c_ifsc := DEFAULT_IFSC\<rparr>, e2) }) }
      else if c_protocol r = 14 then
        (case Protocol_T14_ExchangeTPDU d r command e of
           (OK bs, e1) \<Rightarrow> (case respond rsp bs e1 of (c, rsp', lr, e2) \<Rightarrow> Some (c, rsp', lr, r, e2))
         | (ERROR, e1) \<Rightarrow> Some (C_ERROR, rsp, 0, r, e1)
         | (FAULT, e1) \<Rightarrow> Some (C_FAULT, rsp, 0, r, e1))
      else Some (C_ERROR, rsp, 0, r, e))"

definition ICC_Async_CardWrite :: "'e driver \<Rightarrow> icc \<Rightarrow> u8 list \<Rightarrow> u8 list \<Rightarrow> 'e \<Rightarrow> (icc_code \<times> u8 list \<times> nat \<times> icc \<times> 'e) option" where
  "ICC_Async_CardWrite d r command rsp e = do {
     (c, rsp1, lr, r1, e1) \<leftarrow> card_attempt d r command rsp e;
     (if c = C_ERROR then card_attempt d r1 command rsp1 e1 else Some (c, rsp1, lr, r1, e1)) }"

section \<open>Properties\<close>

lemma t1_ifsc_bounds: "t1_ifsc a smargo = Some n \<Longrightarrow> 1 \<le> n \<and> n \<le> 251"
proof -
  assume "t1_ifsc a smargo = Some n"
  moreover have "1 \<le> unat v" if "v \<noteq> 0" for v :: u8 using that by (simp add: unat_gt_0 Suc_le_eq)
  ultimately show ?thesis
    by (cases "iface a 3 0") (auto simp: t1_ifsc_def Let_def DEFAULT_IFSC_def MAX_IFSC_def split: option.splits if_splits)
qed

text \<open>The speed that is handed on to the reader is usable: no zero factor and no zero divisor, whatever the answer to reset and the
  card's answer to the negotiation were.\<close>

theorem parse_atr_speed:
  assumes "Parse_ATR pps a deprecated e = Some (Inr p)"
  shows "atr_f_table ! unat (p_FI p) \<noteq> 0 \<and> p_d p \<noteq> 0"
proof -
  have fin: "\<exists>protocol n e1 x. p = usable_speed deprecated protocol n e1 x"
    if "(case S of (speed, e1) \<Rightarrow> case speed of None \<Rightarrow> Some (Inl e1)
        | Some s \<Rightarrow> map_option (\<lambda>x. Inr (usable_speed deprecated pr n e1 x)) s) = Some (Inr p)" for S pr n
    using that by (cases S) (auto simp del: split_paired_Ex split: option.split_asm)
  obtain protocol n e1 x where "p = usable_speed deprecated protocol n e1 x"
    using assms unfolding Parse_ATR_def bind_eq_Some_conv Let_def by (elim exE conjE) (drule fin, blast)
  then show ?thesis by (auto simp: usable_speed_def Let_def ATR_DEFAULT_FI_def ATR_DEFAULT_D_def atr_f_table_def split: prod.split)
qed

definition irdeto_like :: atr where
  "irdeto_like = \<lparr>a_length = 5, a_TS = 0x3B, a_T0 = 0x90, a_ib = [[Some 0x95, None, None, Some 0x00], [None, None, None, None]], a_TCK = None,
     a_pn = 2, a_hb = []\<rparr>"

definition refusing_pps :: "u8 list \<Rightarrow> unit \<Rightarrow> ((bool \<times> u8 list \<times> nat) option) \<times> unit" where
  "refusing_pps req e = (Some (False, req, 4), e)"

theorem parse_atr_speed_witness:
  "\<exists>p. Parse_ATR refusing_pps irdeto_like False () = Some (Inr p) \<and> atr_f_table ! unat (p_FI p) \<noteq> 0 \<and> p_d p = 16"
proof -
  have "(case Parse_ATR refusing_pps irdeto_like False () of Some (Inr p) \<Rightarrow> p_d p = 16 | _ \<Rightarrow> False)" by code_simp
  then obtain p where "Parse_ATR refusing_pps irdeto_like False () = Some (Inr p)" "p_d p = 16"
    by (auto split: option.splits sum.splits)
  then show ?thesis using parse_atr_speed [of refusing_pps irdeto_like False "()" p] by blast
qed

text \<open>A card that offers a protocol other than 0, 1, 2 or 14 (such as 15, which announces global interface bytes) makes
  \<open>Parse_ATR\<close> write behind its array of three flags.\<close>

lemma t15_overrun: "Parse_ATR refusing_pps (irdeto_like\<lparr>a_ib := [[None, None, None, Some 0x1F], [Some 0x05, None, None, None]]\<rparr>) False () = None"
  by code_simp

text \<open>C17. From the answer to reset to the card code: with the field size that is taken from the answer to reset, \<open>ICC_Async_CardWrite\<close>
  on a T=1 card that follows the protocol succeeds at the first attempt, whatever the command and however long it is, and puts exactly
  the card's answer at the start of the buffer of the caller.\<close>

theorem card_write_answers:
  assumes "t1_ifsc a smargo = Some (c_ifsc r)" "c_protocol r = 1" "c_convention r = ATR_CONVENTION_DIRECT"
    and "k_ns k = (if c_ns r = 1 then 0 else 1)" "k_in k = []" "bit_valued (k_seq k)" "t1_plain command"
    and "answers (reply (k_log k) command)" "length (card_answer (reply (k_log k) command)) \<le> length rsp" "length rsp \<le> CTA_RES_LEN"
  shows "\<exists>rsp' r' k'. ICC_Async_CardWrite (card_driver reply) r command rsp k =
      Some (C_OK, rsp', length (card_answer (reply (k_log k) command)), r', k') \<and>
    take (length (card_answer (reply (k_log k) command))) rsp' = card_answer (reply (k_log k) command) \<and> length rsp' = length rsp \<and>
    k_log k' = k_log k @ [command]"
proof -
  let ?x = "card_answer (reply (k_log k) command)"
  have i: "1 \<le> c_ifsc r" "c_ifsc r \<le> 254" using t1_ifsc_bounds [OF assms(1)] by simp_all
  have l: "length ?x < 2 ^ 16" using assms(9,10) by (simp add: CTA_RES_LEN_def)
  from t1_command [of r k command reply, OF assms(3) i assms(4-8) l]
  obtain s w k1 where c: "Protocol_T1_Command (card_driver reply) r command k = Some (OK ?x, r\<lparr>c_ns := s, c_wait := w\<rparr>, k1)"
    "k_log k1 = k_log k @ [command]" by blast
  have p: "respond rsp ?x k1 = (C_OK, ?x @ drop (length ?x) rsp, length ?x, k1)" using assms(9) by (simp add: respond_def put_def)
  have "card_attempt (card_driver reply) r command rsp k =
      Some (C_OK, ?x @ drop (length ?x) rsp, length ?x, r\<lparr>c_ns := s, c_wait := w\<rparr>, k1)"
    using assms(2) c p by (simp add: card_attempt_def)
  then have "ICC_Async_CardWrite (card_driver reply) r command rsp k =
      Some (C_OK, ?x @ drop (length ?x) rsp, length ?x, r\<lparr>c_ns := s, c_wait := w\<rparr>, k1)"
    by (simp add: ICC_Async_CardWrite_def)
  then show ?thesis using c(2) assms(9) by simp
qed

definition t1_atr :: atr where
  "t1_atr = irdeto_like\<lparr>a_ib := [[None, None, None, Some 0x81], [None, None, None, Some 0x31], [Some 3, Some 0x45, None, None]], a_pn := 3\<rparr>"

theorem card_write_answers_witness:
  "\<exists>rsp' r' k'. ICC_Async_CardWrite (card_driver echo_card) t1_reader [0xDD, 0xCA, 0, 0, 4, 1, 2, 3] (replicate 512 0) t1_fresh =
     Some (C_OK, rsp', 3, r', k') \<and> take 3 rsp' = [8, 0x90, 0]"
proof -
  have "t1_ifsc t1_atr False = Some 3" by code_simp
  then show ?thesis
    using card_write_answers [of t1_atr False t1_reader t1_fresh "[0xDD, 0xCA, 0, 0, 4, 1, 2, 3]" echo_card "replicate 512 0"]
    by (auto simp: t1_reader_def t1_fresh_def echo_card_def bit_valued_def t1_plain_def t1_block_consts answers_def CTA_RES_LEN_def numeral_3_eq_3)
qed

end
