(* ===== verification/CCcrypt.thy ===== *)
theory CCcrypt
  imports Simples Contracts
begin

unbundle bit_operations_syntax

text \<open>
  The ciphers and the framing of the CCcam protocol, \<open>module-cccam.c\<close>: the stream cipher with its two modes, the scrambling of the control
  words with node and card, the layer of command 0x0C over three block ciphers that the repository takes from elsewhere (they are
  parameters), the messages with their encrypted header, and the conversions of card serials.
\<close>

section \<open>The stream cipher\<close>

record cc_crypt_block =
  keytable :: "u8 list"
  cb_state :: u8
  cb_counter :: u8
  cb_sum :: u8

datatype cc_crypt_mode = DECRYPT | ENCRYPT

text \<open>The macro \<open>SWAPC\<close> on two entries of the table.\<close>

definition swapc :: "u8 list \<Rightarrow> u8 \<Rightarrow> u8 \<Rightarrow> u8 list" where
  "swapc t i j = t[unat i := t ! unat j, unat j := t ! unat i]"

primrec init_rounds :: "nat list \<Rightarrow> u8 list \<Rightarrow> u8 \<Rightarrow> u8 list \<Rightarrow> u8 list" where
  "init_rounds [] key j t = t"
| "init_rounds (i # is) key j t =
     (let j' = j + (key ! (i mod length key) + t ! i) in init_rounds is key j' (swapc t (of_nat i) j'))"

definition cc_init_crypt :: "u8 list \<Rightarrow> cc_crypt_block option" where
  "cc_init_crypt key =
     (if key = [] then None
      else Some \<lparr>keytable = init_rounds [0..<256] key 0 (map of_nat [0..<256]), cb_state = key ! 0, cb_counter = 0, cb_sum = 0\<rparr>)"

text \<open>What happens to the table for each byte, and the byte of the key stream that comes out.\<close>

definition cc_advance :: "cc_crypt_block \<Rightarrow> cc_crypt_block" where
  "cc_advance b =
     (let c = cb_counter b + 1; s = cb_sum b + keytable b ! unat c in
      b\<lparr>cb_counter := c, cb_sum := s, keytable := swapc (keytable b) c s\<rparr>)"

definition cc_keybyte :: "cc_crypt_block \<Rightarrow> u8" where
  "cc_keybyte b = keytable b ! unat (keytable b ! unat (cb_counter b) + keytable b ! unat (cb_sum b))"

text \<open>The encrypted or decrypted byte, and the state after it: both modes add the plain byte to the running state.\<close>

definition cc_out :: "cc_crypt_block \<Rightarrow> u8 \<Rightarrow> u8" where
  "cc_out b z = z XOR cc_keybyte (cc_advance b) XOR cb_state (cc_advance b)"

definition cc_after :: "cc_crypt_block \<Rightarrow> u8 \<Rightarrow> cc_crypt_block" where
  "cc_after b plain = (cc_advance b)\<lparr>cb_state := cb_state (cc_advance b) XOR plain\<rparr>"

primrec cc_crypt :: "cc_crypt_block \<Rightarrow> u8 list \<Rightarrow> cc_crypt_mode \<Rightarrow> u8 list \<times> cc_crypt_block" where
  "cc_crypt b [] mode = ([], b)"
| "cc_crypt b (z # zs) mode =
     (let (xs, b') = cc_crypt (cc_after b (if mode = DECRYPT then cc_out b z else z)) zs mode in (cc_out b z # xs, b'))"

primrec cc_rc4_crypt :: "cc_crypt_block \<Rightarrow> u8 list \<Rightarrow> cc_crypt_mode \<Rightarrow> u8 list \<times> cc_crypt_block" where
  "cc_rc4_crypt b [] mode = ([], b)"
| "cc_rc4_crypt b (z # zs) mode =
     (let x = z XOR cc_keybyte (cc_advance b);
          (xs, b') = cc_rc4_crypt (cc_after b (if mode = DECRYPT then x else z)) zs mode in (x # xs, b'))"

text \<open>The seed of the login: the first half is multiplied into the second, then \<open>CCcam\<close> with its terminating zero is added.\<close>

definition cccam_text :: "u8 list" where
  "cccam_text = [0x43, 0x43, 0x63, 0x61, 0x6D, 0]"

definition cc_xor :: "u8 list \<Rightarrow> u8 list option" where
  "cc_xor buf =
     (if length buf < 16 then None
      else Some (map (\<lambda>i. if i < 6 then buf ! i XOR cccam_text ! i else buf ! i) [0..<8] @ map (\<lambda>i. of_nat i * buf ! i) [0..<8] @ drop 16 buf))"

section \<open>Control words\<close>

text \<open>The node is a signed number, so its shift fills up with the sign.\<close>

definition cw_mask :: "u64 \<Rightarrow> u32 \<Rightarrow> nat \<Rightarrow> u8" where
  "cw_mask node cardid i =
     (let m = ucast (signed_drop_bit (4 * i) node) XOR ucast (drop_bit (2 * i) cardid) in if odd i then NOT m else m)"

definition cc_cw_crypt :: "u64 \<Rightarrow> u8 list \<Rightarrow> u32 \<Rightarrow> u8 list" where
  "cc_cw_crypt node cws cardid = map (\<lambda>i. cws ! i XOR cw_mask node cardid i) [0..<16]"

text \<open>Which node identifies the connection: the one the client sent.\<close>

definition cw_node :: "bool \<Rightarrow> u8 list \<Rightarrow> u8 list \<Rightarrow> u64 option" where
  "cw_node reader node_id peer_node_id = b2ll 8 (if reader then node_id else peer_node_id)"

section \<open>Command 0x0C\<close>

datatype cmd0c_mode = MODE_CMD_0x0C_NONE | MODE_CMD_0x0C_RC6 | MODE_CMD_0x0C_RC4 | MODE_CMD_0x0C_CC_CRYPT | MODE_CMD_0x0C_AES | MODE_CMD_0x0C_IDEA

text \<open>The block ciphers with their keys: the set-up from the key bytes, and the decryption of one block. RC6 and AES have blocks of 16
  bytes, IDEA of 8.\<close>

record ('k1, 'k2, 'k3) ciphers =
  rc6_setup :: "u8 list \<Rightarrow> 'k1"
  rc6_block :: "'k1 \<Rightarrow> u8 list \<Rightarrow> u8 list"
  aes_setup :: "u8 list \<Rightarrow> 'k2"
  aes_block :: "'k2 \<Rightarrow> u8 list \<Rightarrow> u8 list"
  idea_setup :: "u8 list \<Rightarrow> 'k3"
  idea_block :: "'k3 \<Rightarrow> u8 list \<Rightarrow> u8 list"

record ('k1, 'k2, 'k3) cmd0c =
  c0_mode :: cmd0c_mode
  c0_key :: cc_crypt_block
  c0_rc6 :: 'k1
  c0_aes :: 'k2
  c0_idea :: 'k3

definition blocks :: "nat \<Rightarrow> u8 list \<Rightarrow> u8 list list" where
  "blocks k bs = map (\<lambda>i. take k (drop (i * k) bs)) [0..<length bs div k]"

text \<open>The result has the length of the buffer: for RC6 and AES what follows the last full block is uninitialised, so such a length has no
  result here. The bytes of IDEA are chained with the encrypted bytes before them.\<close>

definition cc_crypt_cmd0c :: "('k1, 'k2, 'k3) ciphers \<Rightarrow> ('k1, 'k2, 'k3) cmd0c \<Rightarrow> u8 list \<Rightarrow> (u8 list \<times> ('k1, 'k2, 'k3) cmd0c) option" where
  "cc_crypt_cmd0c ci c buf = (case c0_mode c of
     MODE_CMD_0x0C_NONE \<Rightarrow> Some (buf, c)
   | MODE_CMD_0x0C_RC6 \<Rightarrow> if length buf mod 16 \<noteq> 0 then None else Some (concat (map (rc6_block ci (c0_rc6 c)) (blocks 16 buf)), c)
   | MODE_CMD_0x0C_RC4 \<Rightarrow> (let (out, k) = cc_rc4_crypt (c0_key c) buf ENCRYPT in Some (out, c\<lparr>c0_key := k\<rparr>))
   | MODE_CMD_0x0C_CC_CRYPT \<Rightarrow> (let (out, k) = cc_crypt (c0_key c) buf DECRYPT in Some (out, c\<lparr>c0_key := k\<rparr>))
   | MODE_CMD_0x0C_AES \<Rightarrow> if length buf mod 16 \<noteq> 0 then None else Some (concat (map (aes_block ci (c0_aes c)) (blocks 16 buf)), c)
   | MODE_CMD_0x0C_IDEA \<Rightarrow>
       if length buf mod 8 \<noteq> 0 then None
       else (let out = concat (map (idea_block ci (c0_idea c)) (blocks 8 buf)) in
             Some (map (\<lambda>i. if i < 8 then out ! i else out ! i XOR buf ! (i - 8)) [0..<length buf], c)))"

definition key_buffer :: "u8 list \<Rightarrow> u8 list" where
  "key_buffer key = take 32 key @ replicate (32 - length key) 0"

text \<open>The length of the key arrives in a byte.\<close>

definition set_cmd0c_cryptkey :: "('k1, 'k2, 'k3) ciphers \<Rightarrow> ('k1, 'k2, 'k3) cmd0c \<Rightarrow> u8 list \<Rightarrow> ('k1, 'k2, 'k3) cmd0c" where
  "set_cmd0c_cryptkey ci c key =
     (let k = key_buffer (take (length key mod 256) key) in
      case c0_mode c of
        MODE_CMD_0x0C_NONE \<Rightarrow> c
      | MODE_CMD_0x0C_RC6 \<Rightarrow> c\<lparr>c0_rc6 := rc6_setup ci k\<rparr>
      | MODE_CMD_0x0C_AES \<Rightarrow> c\<lparr>c0_aes := aes_setup ci k\<rparr>
      | MODE_CMD_0x0C_IDEA \<Rightarrow> c\<lparr>c0_idea := idea_setup ci (take 16 k)\<rparr>
      | _ \<Rightarrow> (case cc_init_crypt k of None \<Rightarrow> c | Some b \<Rightarrow> c\<lparr>c0_key := b\<rparr>))"

text \<open>The reader's side of the commands 0x0C and 0x0D: a new mode with its key, and a new key for the mode.\<close>

definition cmd0c_of_byte :: "u8 \<Rightarrow> cmd0c_mode" where
  "cmd0c_of_byte b =
     (if b = 0 then MODE_CMD_0x0C_RC6 else if b = 1 then MODE_CMD_0x0C_RC4 else if b = 2 then MODE_CMD_0x0C_CC_CRYPT
      else if b = 3 then MODE_CMD_0x0C_AES else if b = 4 then MODE_CMD_0x0C_IDEA else MODE_CMD_0x0C_NONE)"

definition cmd_0c :: "('k1, 'k2, 'k3) ciphers \<Rightarrow> ('k1, 'k2, 'k3) cmd0c \<Rightarrow> u8 list \<Rightarrow> ('k1, 'k2, 'k3) cmd0c option" where
  "cmd_0c ci c payload = do {
     (out, c1) \<leftarrow> cc_crypt_cmd0c ci c payload;
     b \<leftarrow> fetch out 0;
     Some (set_cmd0c_cryptkey ci (c1\<lparr>c0_mode := cmd0c_of_byte b\<rparr>) out) }"

definition cmd_0d :: "('k1, 'k2, 'k3) ciphers \<Rightarrow> ('k1, 'k2, 'k3) cmd0c \<Rightarrow> u8 list \<Rightarrow> ('k1, 'k2, 'k3) cmd0c option" where
  "cmd_0d ci c payload =
     (if c0_mode c = MODE_CMD_0x0C_NONE then Some c
      else do { (out, c1) \<leftarrow> cc_crypt_cmd0c ci c payload; Some (set_cmd0c_cryptkey ci c1 out) })"

section \<open>Messages\<close>

definition MSG_NO_HEADER :: nat where "MSG_NO_HEADER = 0xFFFF"
definition CC_MAXMSGSIZE :: nat where "CC_MAXMSGSIZE = 1024"

text \<open>What goes out for a message, and the cipher after it. The state of the connection and the result of \<open>send\<close> are the caller's.\<close>

definition cc_cmd_send :: "cc_crypt_block \<Rightarrow> u8 \<Rightarrow> nat \<Rightarrow> u8 list \<Rightarrow> u8 list \<times> cc_crypt_block" where
  "cc_cmd_send b g_flag cmd buf =
     cc_crypt b (if cmd = MSG_NO_HEADER then buf
                 else [g_flag, of_nat cmd, of_nat (length buf div 256), of_nat (length buf)] @ buf) ENCRYPT"

text \<open>What comes in: the connection is closed, the message is too big, or the bytes of the message; \<open>Cc_fault\<close> is a write behind the buffer.
  The bytes that wait on the connection and the cipher are the state.\<close>

datatype cc_received = Cc_closed | Cc_too_big | Cc_fault | Cc_msg "u8 list"

definition cc_msg_recv :: "cc_crypt_block \<Rightarrow> nat \<Rightarrow> u8 list \<Rightarrow> cc_received \<times> cc_crypt_block \<times> u8 list" where
  "cc_msg_recv b maxlen net =
     (if maxlen < 4 \<or> length net < 4 then (Cc_closed, b, net)
      else
        (let (head, b1) = cc_crypt b (take 4 net) DECRYPT; size = 256 * unat (head ! 2) + unat (head ! 3); net1 = drop 4 net in
         if size = 0 then (Cc_msg head, b1, net1)
         else if maxlen < size then (Cc_too_big, b1, net1)
         else if maxlen < size + 4 then (Cc_fault, b1, net1)
         else if length net1 < size then (Cc_closed, b1, [])
         else (let (body, b2) = cc_crypt b1 (take size net1) DECRYPT in (Cc_msg (head @ body), b2, drop size net1))))"

section \<open>Card serials\<close>

definition get_UA_ofs :: "u16 \<Rightarrow> nat" where
  "get_UA_ofs caid =
     (let c = drop_bit 8 caid in
      if c = 0x05 \<or> c = 0x0D then 1
      else if c = 0x4B \<or> c = 0x09 \<or> c = 0x0B \<or> c = 0x18 \<or> c = 0x17 \<or> c = 0x06 then 2 else 0)"

definition cc_UA_valid :: "u8 list \<Rightarrow> bool" where
  "cc_UA_valid ua \<longleftrightarrow> list_ex (\<lambda>b. b \<noteq> 0) (take 8 ua)"

text \<open>Moving a serial to the left or right end of eight bytes: \<open>len\<close> bytes are looked at.\<close>

function UA_left_loop :: "u8 list \<Rightarrow> nat \<Rightarrow> nat \<Rightarrow> nat \<Rightarrow> nat \<Rightarrow> u8 list \<Rightarrow> u8 list" where
  "UA_left_loop inp orglen ofs maxlen len out =
     (if len = 0 \<or> maxlen = 0 then out
      else (let out' = take len (drop ofs inp) @ replicate (orglen - len) 0 in
            if out' ! 0 \<noteq> 0 then out'
            else UA_left_loop inp orglen (ofs + 1) (maxlen - 1) (min len (maxlen - 1)) out'))"
  by pat_completeness auto
termination by (relation "measure (\<lambda>(inp, orglen, ofs, maxlen, len, out). maxlen)") auto

declare UA_left_loop.simps [simp del]

definition UA_left :: "u8 list \<Rightarrow> nat \<Rightarrow> u8 list \<Rightarrow> u8 list" where
  "UA_left inp len out = UA_left_loop inp len 0 8 len out"

function UA_right_loop :: "u8 list \<Rightarrow> nat \<Rightarrow> nat \<Rightarrow> u8 list \<Rightarrow> u8 list" where
  "UA_right_loop inp ofs len out =
     (if len = 0 then out
      else (let out1 = take ofs out @ take len inp @ drop (ofs + len) out in
            if out1 ! (len - 1) \<noteq> 0 then out1 else UA_right_loop inp (ofs + 1) (len - 1) (out1[0 := 0])))"
  by pat_completeness auto
termination by (relation "measure (\<lambda>(inp, ofs, len, out). len)") auto

declare UA_right_loop.simps [simp del]

definition UA_right :: "u8 list \<Rightarrow> nat \<Rightarrow> u8 list \<Rightarrow> u8 list" where
  "UA_right inp len out = UA_right_loop inp 0 len out"

definition cc_UA_oscam2cccam :: "u8 list \<Rightarrow> u16 \<Rightarrow> u8 list option" where
  "cc_UA_oscam2cccam inp caid = do {
     t \<leftarrow> hexserial_to_newcamd inp (replicate 6 0) caid;
     Some (UA_right ([0, 0] @ t) 8 (replicate 8 0)) }"

definition cc_UA_cccam2oscam :: "u8 list \<Rightarrow> u16 \<Rightarrow> u8 list option" where
  "cc_UA_cccam2oscam inp caid =
     (let ofs = get_UA_ofs caid in
      newcamd_to_hexserial (replicate ofs 0 @ UA_left inp (8 - ofs) (replicate (8 - ofs) 0)) (replicate 8 0) caid)"

section \<open>The table stays a permutation\<close>

definition permutes :: "u8 list \<Rightarrow> bool" where
  "permutes t \<longleftrightarrow> length t = 256 \<and> distinct t"

lemma unat_u8 [simp]: "unat (b :: u8) < 256"
  using unsigned_less [where 'a = nat, of b] by simp

lemma swapc_permutes [simp]: "permutes t \<Longrightarrow> permutes (swapc t i j)"
  by (simp add: permutes_def swapc_def distinct_swap)

lemma init_rounds_permutes: "permutes t \<Longrightarrow> permutes (init_rounds is key j t)"
  by (induction "is" arbitrary: j t) (simp_all add: Let_def)

lemma advance_permutes [simp]: "permutes (keytable b) \<Longrightarrow> permutes (keytable (cc_advance b))"
  by (simp add: cc_advance_def Let_def)

lemma crypt_fst: "fst (cc_crypt b (z # zs) mode) =
    cc_out b z # fst (cc_crypt (cc_after b (if mode = DECRYPT then cc_out b z else z)) zs mode)"
  by (simp split: prod.split)

lemma crypt_snd: "snd (cc_crypt b (z # zs) mode) = snd (cc_crypt (cc_after b (if mode = DECRYPT then cc_out b z else z)) zs mode)"
  by (simp split: prod.split)

lemma after_keytable [simp]: "keytable (cc_after b p) = keytable (cc_advance b)"
  by (simp add: cc_after_def)

lemma crypt_permutes: "permutes (keytable b) \<Longrightarrow> permutes (keytable (snd (cc_crypt b bs mode)))"
proof (induction bs arbitrary: b)
  case (Cons z zs)
  then show ?case by (simp only: crypt_snd after_keytable advance_permutes)
qed simp

lemma init_crypt_permutes: "cc_init_crypt key = Some b \<Longrightarrow> permutes (keytable b)"
proof -
  have "inj_on (of_nat :: nat \<Rightarrow> u8) {0..<256}"
    by (rule inj_on_inverseI [of _ unat]) (simp add: unat_of_nat)
  then have "permutes (map of_nat [0..<256])" by (simp add: permutes_def distinct_map)
  then show "cc_init_crypt key = Some b \<Longrightarrow> permutes (keytable b)"
    by (auto simp: cc_init_crypt_def init_rounds_permutes split: if_splits)
qed

lemma length_crypt [simp]: "length (fst (cc_crypt b bs mode)) = length bs"
proof (induction bs arbitrary: b)
  case (Cons z zs)
  then show ?case by (simp only: crypt_fst length_Cons)
qed simp

section \<open>Both ends of a connection\<close>

text \<open>Two cipher states that differ in the running state alone, by \<open>d\<close>.\<close>

definition apart :: "u8 \<Rightarrow> cc_crypt_block \<Rightarrow> cc_crypt_block \<Rightarrow> bool" where
  "apart d b c \<longleftrightarrow> c = b\<lparr>cb_state := cb_state b XOR d\<rparr>"

lemma apart_0 [simp]: "apart 0 b c \<longleftrightarrow> c = b"
  by (simp add: apart_def)

lemma advance_apart:
  assumes "apart d b c"
  shows "cc_advance c = (cc_advance b)\<lparr>cb_state := cb_state (cc_advance b) XOR d\<rparr>" "cc_keybyte (cc_advance c) = cc_keybyte (cc_advance b)"
  using assms by (simp_all add: apart_def cc_advance_def cc_keybyte_def Let_def)

lemma after_apart: "apart d b c \<Longrightarrow> apart (d XOR x XOR y) (cc_after b x) (cc_after c y)"
  by (simp add: cc_after_def advance_apart(1)) (simp add: apart_def ac_simps)

lemma out_out: "cc_out b (cc_out b z) = z"
  by (simp add: cc_out_def ac_simps)

lemma out_apart: "apart d b c \<Longrightarrow> cc_out c (cc_out b z) = z XOR d"
  using advance_apart [of d b c] by (simp add: cc_out_def ac_simps)

lemma crypt_append:
  "cc_crypt b (xs @ ys) mode = (let (us, b1) = cc_crypt b xs mode; (vs, b2) = cc_crypt b1 ys mode in (us @ vs, b2))"
  by (induction xs arbitrary: b) (simp_all add: Let_def split: prod.splits)

lemma crypt_same: "cc_crypt b (fst (cc_crypt b bs ENCRYPT)) DECRYPT = (bs, snd (cc_crypt b bs ENCRYPT))"
proof (induction bs arbitrary: b)
  case (Cons z zs)
  show ?case using Cons.IH [of "cc_after b z"] by (simp only: crypt_fst crypt_snd) (simp add: out_out)
qed simp

text \<open>A receiver whose state is off by \<open>d\<close> gets the first byte wrong by \<open>d\<close>, and is in step again after it.\<close>

lemma crypt_resync:
  assumes "apart d b c"
  shows "cc_crypt c (fst (cc_crypt b (z # zs) ENCRYPT)) DECRYPT = ((z XOR d) # zs, snd (cc_crypt b (z # zs) ENCRYPT))"
proof -
  have "apart (d XOR z XOR (z XOR d)) (cc_after b z) (cc_after c (z XOR d))" by (rule after_apart [OF assms])
  then have "cc_after c (z XOR d) = cc_after b z" by (simp add: ac_simps)
  then show ?thesis using crypt_same [of "cc_after b z" zs]
    by (simp only: crypt_fst crypt_snd) (simp add: out_apart [OF assms])
qed

definition xor_all :: "u8 list \<Rightarrow> u8" where
  "xor_all bs = foldr (XOR) bs 0"

text \<open>The extra step after a control word runs both ciphers over bytes that need not be the same.\<close>

lemma crypt_extra:
  assumes "apart d b c" "length xs = length ys"
  shows "apart (d XOR xor_all xs XOR xor_all ys) (snd (cc_crypt b xs ENCRYPT)) (snd (cc_crypt c ys ENCRYPT))"
  using assms(2,1)
proof (induction xs ys arbitrary: b c d rule: list_induct2)
  case Nil
  then show ?case by (simp add: xor_all_def)
next
  case (Cons x xs y ys)
  from Cons.IH [OF after_apart [OF Cons.prems, of x y]]
  have "apart (d XOR x XOR y XOR xor_all xs XOR xor_all ys) (snd (cc_crypt (cc_after b x) xs ENCRYPT)) (snd (cc_crypt (cc_after c y) ys ENCRYPT))"
    by (simp add: ac_simps)
  then show ?case by (simp only: crypt_snd) (simp add: xor_all_def ac_simps)
qed

section \<open>A connection\<close>

text \<open>What happens on one direction of a connection: messages, and the extra steps that both ends make after a control word, each over the
  bytes it holds.\<close>

datatype cc_event = Send u8 nat "u8 list" | Extra "u8 list" "u8 list"

primrec cc_talk :: "nat \<Rightarrow> cc_crypt_block \<Rightarrow> cc_crypt_block \<Rightarrow> cc_event list \<Rightarrow> cc_received list" where
  "cc_talk maxlen s r [] = []"
| "cc_talk maxlen s r (ev # evs) = (case ev of
     Send flag cmd payload \<Rightarrow>
       (let (net, s') = cc_cmd_send s flag cmd payload; (got, r', rest) = cc_msg_recv r maxlen net in got # cc_talk maxlen s' r' evs)
   | Extra xs ys \<Rightarrow> cc_talk maxlen (snd (cc_crypt s xs ENCRYPT)) (snd (cc_crypt r ys ENCRYPT)) evs)"

text \<open>What should arrive: every message, with its flag byte off by what the extra steps before it differ.\<close>

primrec cc_expect :: "u8 \<Rightarrow> cc_event list \<Rightarrow> cc_received list" where
  "cc_expect d [] = []"
| "cc_expect d (ev # evs) = (case ev of
     Send flag cmd payload \<Rightarrow>
       Cc_msg ([flag XOR d, of_nat cmd, of_nat (length payload div 256), of_nat (length payload)] @ payload) # cc_expect 0 evs
   | Extra xs ys \<Rightarrow> cc_expect (d XOR xor_all xs XOR xor_all ys) evs)"

definition cc_event_ok :: "nat \<Rightarrow> cc_event \<Rightarrow> bool" where
  "cc_event_ok maxlen ev = (case ev of
     Send flag cmd payload \<Rightarrow> cmd \<noteq> MSG_NO_HEADER \<and> length payload + 4 \<le> maxlen | Extra xs ys \<Rightarrow> length xs = length ys)"

lemma size_bytes: "n < 65536 \<Longrightarrow> 256 * unat (of_nat (n div 256) :: u8) + unat (of_nat n :: u8) = n"
  by (simp add: unat_of_nat)

lemma recv_sent:
  assumes "apart d s r" "cmd \<noteq> MSG_NO_HEADER" "length p + 4 \<le> maxlen" "maxlen \<le> 65536"
  shows "cc_msg_recv r maxlen (fst (cc_cmd_send s flag cmd p)) =
    (Cc_msg ([flag XOR d, of_nat cmd, of_nat (length p div 256), of_nat (length p)] @ p), snd (cc_cmd_send s flag cmd p), [])"
proof -
  let ?h = "[flag, of_nat cmd, of_nat (length p div 256), of_nat (length p)] :: u8 list"
  let ?h' = "[flag XOR d, of_nat cmd, of_nat (length p div 256), of_nat (length p)] :: u8 list"
  obtain hs b1 where H: "cc_crypt s ?h ENCRYPT = (hs, b1)" by fastforce
  obtain ps b2 where P: "cc_crypt b1 p ENCRYPT = (ps, b2)" by fastforce
  have S: "cc_cmd_send s flag cmd p = (hs @ ps, b2)"
    unfolding cc_cmd_send_def if_not_P [OF assms(2)] crypt_append by (simp only: H P Let_def prod.case)
  have l: "length hs = 4" "length ps = length p"
    using length_crypt [of s ?h ENCRYPT] length_crypt [of b1 p ENCRYPT] by (simp_all only: H P fst_conv) simp_all
  have h: "cc_crypt r hs DECRYPT = (?h', b1)" using crypt_resync [OF assms(1), of flag "tl ?h", unfolded list.sel, unfolded H fst_conv snd_conv] .
  have p: "cc_crypt b1 ps DECRYPT = (p, b2)" using crypt_same [of b1 p] P by simp
  have hn: "?h' ! 2 = of_nat (length p div 256)" "?h' ! 3 = of_nat (length p)" by (simp_all only: nth_Cons_0 nth_Cons_Suc numeral_2_eq_2 numeral_3_eq_3)
  have n: "256 * unat (?h' ! 2) + unat (?h' ! 3) = length p" unfolding hn by (rule size_bytes) (use assms(3,4) in linarith)
  have t: "take 4 (hs @ ps) = hs" "drop 4 (hs @ ps) = ps" "(maxlen < 4 \<or> length (hs @ ps) < 4) = False" using l assms(3) by simp_all
  have q: "take (length p) ps = ps" "drop (length p) ps = []" "(maxlen < length p) = False" "(maxlen < length p + 4) = False"
    "(length ps < length p) = False" using l assms(3) by simp_all
  show ?thesis
    unfolding S fst_conv snd_conv cc_msg_recv_def Let_def t h prod.case n q p if_False using l P by (cases p) simp_all
qed

text \<open>C27. The framing of CCcam survives its own extra steps: over one direction of a connection whose ends started with the same key, every
  message arrives with its command and its payload, whatever was sent before and whatever bytes the two ends fed to their ciphers after
  control words; only the flag byte of the first message after such steps is changed, by exactly the difference of these bytes.\<close>

theorem cc_connection:
  assumes "apart d s r" "list_all (cc_event_ok maxlen) evs" "maxlen \<le> 65536"
  shows "cc_talk maxlen s r evs = cc_expect d evs"
  using assms(1,2)
proof (induction evs arbitrary: d s r)
  case (Cons ev evs)
  show ?case
  proof (cases ev)
    case (Send flag cmd p)
    have "cc_event_ok maxlen ev" "list_all (cc_event_ok maxlen) evs" using Cons.prems by simp_all
    then have ok: "cmd \<noteq> MSG_NO_HEADER" "length p + 4 \<le> maxlen" "list_all (cc_event_ok maxlen) evs"
      using Send by (simp_all add: cc_event_ok_def [of maxlen "Send flag cmd p"])
    note R = recv_sent [OF Cons.prems(1) ok(1,2) assms(3), of flag]
    obtain net s' where "cc_cmd_send s flag cmd p = (net, s')" by fastforce
    then show ?thesis using Send R Cons.IH [of 0 s' s'] ok(3) by simp
  next
    case (Extra xs ys)
    have "cc_event_ok maxlen ev" "list_all (cc_event_ok maxlen) evs" using Cons.prems by simp_all
    then have "length xs = length ys" "list_all (cc_event_ok maxlen) evs"
      using Extra by (simp_all add: cc_event_ok_def [of maxlen "Extra xs ys"])
    then show ?thesis using Extra Cons.IH [OF crypt_extra [OF Cons.prems(1)]] by simp
  qed
qed simp

definition cc_key1 :: cc_crypt_block where
  "cc_key1 = \<lparr>keytable = map of_nat (rev [0..<256]), cb_state = 7, cb_counter = 0, cb_sum = 0\<rparr>"

theorem cc_connection_witness:
  "cc_talk 1024 cc_key1 cc_key1 [Send 0 1 [1, 2, 3], Extra [9, 8] [7, 7], Send 5 255 []] =
     [Cc_msg [0, 1, 0, 3, 1, 2, 3], Cc_msg [4, 255, 0, 0]]"
  using cc_connection [of 0 cc_key1 cc_key1 1024 "[Send 0 1 [1, 2, 3], Extra [9, 8] [7, 7], Send 5 255 []]"]
  by (simp add: cc_event_ok_def MSG_NO_HEADER_def xor_all_def)

text \<open>A message between the size of the buffer less four and the size of the buffer is written behind it.\<close>

lemma big_message_overrun:
  assumes "4 \<le> maxlen" "maxlen < 65536" "apart 0 s r" "length p = maxlen" "cmd \<noteq> MSG_NO_HEADER"
  shows "fst (cc_msg_recv r maxlen (fst (cc_cmd_send s flag cmd p))) = Cc_fault"
proof -
  let ?h = "[flag, of_nat cmd, of_nat (length p div 256), of_nat (length p)] :: u8 list"
  obtain hs b1 where H: "cc_crypt s ?h ENCRYPT = (hs, b1)" by fastforce
  have l: "length hs = 4" using length_crypt [of s ?h ENCRYPT] by (simp only: H fst_conv) simp
  have h: "cc_crypt r hs DECRYPT = (?h, b1)" using crypt_same [of s ?h, unfolded H fst_conv snd_conv] assms(3) by (simp only: apart_0)
  have hn: "?h ! 2 = of_nat (length p div 256)" "?h ! 3 = of_nat (length p)" by (simp_all only: nth_Cons_0 nth_Cons_Suc numeral_2_eq_2 numeral_3_eq_3)
  have n: "256 * unat (?h ! 2) + unat (?h ! 3) = length p" unfolding hn by (rule size_bytes) (use assms(2,4) in linarith)
  obtain ps b2 where P: "cc_crypt b1 p ENCRYPT = (ps, b2)" by fastforce
  have S: "fst (cc_cmd_send s flag cmd p) = hs @ ps"
    unfolding cc_cmd_send_def if_not_P [OF assms(5)] crypt_append by (simp only: H P Let_def prod.case fst_conv)
  have t: "take 4 (hs @ ps) = hs" "(maxlen < 4 \<or> length (hs @ ps) < 4) = False" using l assms(1) by simp_all
  show ?thesis unfolding S cc_msg_recv_def Let_def t h prod.case n if_False using assms(1,4) by simp
qed

section \<open>Control words on both ends\<close>

lemma cc_cw_back:
  assumes "length cw = 16"
  shows "cc_cw_crypt node (cc_cw_crypt node cw cardid) cardid = cw"
  using assms by (intro nth_equalityI) (simp_all add: cc_cw_crypt_def ac_simps)

interpretation cw_codec: exact_codec "\<lambda>cw. Some (cc_cw_crypt node cw cardid)" "\<lambda>b. Some (cc_cw_crypt node b cardid)" "\<lambda>cw. length cw = 16"
  for node cardid
  by unfold_locales (simp add: cc_cw_back)



section \<open>Card serials on both ends\<close>

lemma UA_left_zero:
  "\<lbrakk>0 < len; 0 < maxlen; ofs < length inp; inp ! ofs = 0\<rbrakk> \<Longrightarrow> UA_left_loop inp orglen ofs maxlen len out =
    UA_left_loop inp orglen (Suc ofs) (maxlen - 1) (min len (maxlen - 1)) (take len (drop ofs inp) @ replicate (orglen - len) 0)"
  by (subst UA_left_loop.simps) (simp add: nth_append)

lemma UA_left_found:
  "\<lbrakk>0 < len; 0 < maxlen; ofs < length inp; inp ! ofs \<noteq> 0\<rbrakk> \<Longrightarrow>
    UA_left_loop inp orglen ofs maxlen len out = take len (drop ofs inp) @ replicate (orglen - len) 0"
  by (subst UA_left_loop.simps) (simp add: nth_append)

lemma replicate_two: "replicate 2 x = [x, x]"
  by (simp add: numeral_2_eq_2)

lemma UA_right_full: "\<lbrakk>length inp = 8; length out = 8; inp ! 7 \<noteq> 0\<rbrakk> \<Longrightarrow> UA_right inp 8 out = inp"
  unfolding UA_right_def by (subst UA_right_loop.simps) (simp add: Let_def)

text \<open>The serial of a card survives the way through CCcam's layout and back, for the systems that keep four bytes behind two zeros, for Irdeto
  and Betacrypt, which keep the number of the provider last, and for Viaccess and Cryptoworks with five bytes, as long as the first and the
  last byte in CCcam's order are not zero.\<close>

theorem ua_roundtrip:
  assumes "a \<noteq> 0" "z \<noteq> 0"
  shows "(drop_bit 8 caid \<in> {0x0B, 0x18, 0x09, 0x4B} \<longrightarrow>
      Option.bind (cc_UA_oscam2cccam [0, 0, a, b, c, z, 0, 0] caid) (\<lambda>u. cc_UA_cccam2oscam u caid) = Some [0, 0, a, b, c, z, 0, 0]) \<and>
    (drop_bit 8 caid \<in> {0x06, 0x17} \<longrightarrow>
      Option.bind (cc_UA_oscam2cccam [b, c, z, a, 0, 0, 0, 0] caid) (\<lambda>u. cc_UA_cccam2oscam u caid) = Some [b, c, z, a, 0, 0, 0, 0]) \<and>
    (drop_bit 8 caid \<in> {0x05, 0x0D} \<longrightarrow>
      Option.bind (cc_UA_oscam2cccam [a, b, c, d, z, 0, 0, 0] caid) (\<lambda>u. cc_UA_cccam2oscam u caid) = Some [a, b, c, d, z, 0, 0, 0])"
proof (intro conjI impI)
  assume "drop_bit 8 caid \<in> {0x0B, 0x18, 0x09, 0x4B}"
  then obtain k where k: "drop_bit 8 caid = k" "k = 0x0B \<or> k = 0x18 \<or> k = 0x09 \<or> k = 0x4B" by blast
  have c1: "hexserial_to_newcamd [0, 0, a, b, c, z, 0, 0] (replicate 6 0) caid = Some [0, 0, a, b, c, z]"
    unfolding hexserial_to_newcamd_def newcamd_to_hexserial_def get_UA_ofs_def Let_def k(1)
    using k(2) by (elim disjE) (simp_all add: memcpy_def replicate_two)
  have c2: "get_UA_ofs caid = 2"
    unfolding hexserial_to_newcamd_def newcamd_to_hexserial_def get_UA_ofs_def Let_def k(1)
    using k(2) by (elim disjE) (simp_all add: memcpy_def replicate_two)
  have c3: "newcamd_to_hexserial [0, 0, a, b, c, z, 0, 0] (replicate 8 0) caid = Some [0, 0, a, b, c, z, 0, 0]"
    unfolding hexserial_to_newcamd_def newcamd_to_hexserial_def get_UA_ofs_def Let_def k(1)
    using k(2) by (elim disjE) (simp_all add: memcpy_def replicate_two)
  note c = c1 c2 c3
  have "UA_left [0, 0, 0, 0, a, b, c, z] 6 out = [a, b, c, z, 0, 0]" for out
    using assms by (simp add: UA_left_def UA_left_zero UA_left_found replicate_two)
  then show "Option.bind (cc_UA_oscam2cccam [0, 0, a, b, c, z, 0, 0] caid) (\<lambda>u. cc_UA_cccam2oscam u caid) = Some [0, 0, a, b, c, z, 0, 0]"
    using assms c by (simp add: cc_UA_oscam2cccam_def cc_UA_cccam2oscam_def UA_right_full replicate_two)
next
  assume "drop_bit 8 caid \<in> {0x06, 0x17}"
  then obtain k where k: "drop_bit 8 caid = k" "k = 0x06 \<or> k = 0x17" by blast
  have c1: "hexserial_to_newcamd [b, c, z, a, 0, 0, 0, 0] (replicate 6 0) caid = Some [0, 0, a, b, c, z]"
    unfolding hexserial_to_newcamd_def newcamd_to_hexserial_def get_UA_ofs_def Let_def k(1)
    using k(2) by (elim disjE) (simp_all add: memcpy_def replicate_two)
  have c2: "get_UA_ofs caid = 2"
    unfolding hexserial_to_newcamd_def newcamd_to_hexserial_def get_UA_ofs_def Let_def k(1)
    using k(2) by (elim disjE) (simp_all add: memcpy_def replicate_two)
  have c3: "newcamd_to_hexserial [0, 0, a, b, c, z, 0, 0] (replicate 8 0) caid = Some [b, c, z, a, 0, 0, 0, 0]"
    unfolding hexserial_to_newcamd_def newcamd_to_hexserial_def get_UA_ofs_def Let_def k(1)
    using k(2) by (elim disjE) (simp_all add: memcpy_def replicate_two)
  note c = c1 c2 c3
  have "UA_left [0, 0, 0, 0, a, b, c, z] 6 out = [a, b, c, z, 0, 0]" for out
    using assms by (simp add: UA_left_def UA_left_zero UA_left_found replicate_two)
  then show "Option.bind (cc_UA_oscam2cccam [b, c, z, a, 0, 0, 0, 0] caid) (\<lambda>u. cc_UA_cccam2oscam u caid) = Some [b, c, z, a, 0, 0, 0, 0]"
    using assms c by (simp add: cc_UA_oscam2cccam_def cc_UA_cccam2oscam_def UA_right_full replicate_two)
next
  assume "drop_bit 8 caid \<in> {0x05, 0x0D}"
  then obtain k where k: "drop_bit 8 caid = k" "k = 0x05 \<or> k = 0x0D" by blast
  have c1: "hexserial_to_newcamd [a, b, c, d, z, 0, 0, 0] (replicate 6 0) caid = Some [0, a, b, c, d, z]"
    unfolding hexserial_to_newcamd_def newcamd_to_hexserial_def get_UA_ofs_def Let_def k(1)
    using k(2) by (elim disjE) (simp_all add: memcpy_def replicate_two)
  have c2: "get_UA_ofs caid = 1"
    unfolding hexserial_to_newcamd_def newcamd_to_hexserial_def get_UA_ofs_def Let_def k(1)
    using k(2) by (elim disjE) (simp_all add: memcpy_def replicate_two)
  have c3: "newcamd_to_hexserial [0, a, b, c, d, z, 0, 0] (replicate 8 0) caid = Some [a, b, c, d, z, 0, 0, 0]"
    unfolding hexserial_to_newcamd_def newcamd_to_hexserial_def get_UA_ofs_def Let_def k(1)
    using k(2) by (elim disjE) (simp_all add: memcpy_def replicate_two)
  note c = c1 c2 c3
  have "UA_left [0, 0, 0, a, b, c, d, z] 7 out = [a, b, c, d, z, 0, 0]" for out
    using assms by (simp add: UA_left_def UA_left_zero UA_left_found replicate_two)
  then show "Option.bind (cc_UA_oscam2cccam [a, b, c, d, z, 0, 0, 0] caid) (\<lambda>u. cc_UA_cccam2oscam u caid) = Some [a, b, c, d, z, 0, 0, 0]"
    using assms c by (simp add: cc_UA_oscam2cccam_def cc_UA_cccam2oscam_def UA_right_full)
qed

theorem ua_roundtrip_witness:
  "Option.bind (cc_UA_oscam2cccam [0, 0, 1, 2, 3, 4, 0, 0] 0x0B00) (\<lambda>u. cc_UA_cccam2oscam u 0x0B00) = Some [0, 0, 1, 2, 3, 4, 0, 0]"
proof -
  have "drop_bit 8 (0x0B00 :: u16) \<in> {0x0B, 0x18, 0x09, 0x4B}" by simp
  then show ?thesis using ua_roundtrip [of 1 4 "0x0B00" 2 3] by simp
qed

text \<open>\<open>UA_right\<close> looks at the byte that moves left as the copy moves right, so a serial that ends in two zeros stops one byte short.\<close>

lemma ua_right_stops_early: "UA_right [0, 0, 1, 2, 3, 4, 0, 0] 8 (replicate 8 0) = [0, 0, 0, 1, 2, 3, 4, 0]"
  by code_simp

end
