(* ===== verification/CCcam.thy ===== *)
theory CCcam
  imports CCcrypt Chk
begin

unbundle bit_operations_syntax

text \<open>
  The reader's end of a CCcam connection, \<open>module-cccam.c\<close>: the list of cards that the server offers, the choice of a card for an ECM
  (\<open>cc_send_ecm\<close>), the table that connects the index on the wire with a request, and the handling of the server's messages. A card
  is known by its address \<open>cd_ref\<close>, as the code compares pointers. What leaves the reader (messages, answers to requests, the loss of
  the connection) is collected in \<open>cr_out\<close>. \<open>None\<close> is an access outside an array or through a pointer to a card that was removed.
\<close>

section \<open>Data\<close>

record cc_srvid =
  sv_sid :: u16
  sv_ecmlen :: u8

record cc_provider =
  pv_prov :: u32
  pv_sa :: "u8 list"

record cc_card =
  cd_ref :: nat
  cd_id :: u32
  cd_remote_id :: u32
  cd_caid :: u16
  cd_hop :: u8
  cd_reshare :: u8
  cd_hexserial :: "u8 list"
  cd_providers :: "cc_provider list"
  cd_badsids :: "cc_srvid list"
  cd_goodsids :: "cc_srvid list"
  cd_nodes :: "u8 list list"
  cd_grp :: u64
  cd_remote :: bool
  cd_is_ext :: bool

text \<open>The index on the wire, the index of the request, the card it was sent to.\<close>

record cc_eei =
  ee_send_idx :: u8
  ee_ecm_idx :: u16
  ee_card :: nat
  ee_srvid :: cc_srvid

text \<open>The fields of a pending request that the module uses; \<open>tk_loop\<close>: its client is the server itself; \<open>tk_origin\<close>: the card that the
  client asked for, when it is one of this reader.\<close>

record cc_task =
  tk_rc :: nat
  tk_rcEx :: u8
  tk_idx :: u16
  tk_caid :: u16
  tk_prid :: u32
  tk_srvid :: u16
  tk_ecm :: "u8 list"
  tk_time :: int
  tk_loop :: bool
  tk_origin :: "nat option"

datatype cc_effect =
    Sent u8 u8 "u8 list"
  | Answered nat nat u8
  | Timed_out nat
  | Closed

text \<open>The data that EMMs need of the card used last.\<close>

record cc_au =
  au_disabled :: bool
  au_card :: "nat option"
  au_hexserial :: "u8 list"
  au_providers :: "(u32 \<times> u8 list) list"
  au_caid :: u16
  au_provid :: u32

text \<open>Command 05, the check of the client: the payload that is sent back later, and how.\<close>

datatype cc_cmd05_mode = MODE_UNKNOWN | MODE_PLAIN | MODE_AES | MODE_CC_CRYPT | MODE_RC4_CRYPT | MODE_LEN0

record cc_cmd05 =
  c5_active :: u8
  c5_data :: "u8 list"
  c5_mode :: cc_cmd05_mode
  c5_offset :: nat
  c5_aeskey :: "u8 list"
  c5_key :: cc_crypt_block

text \<open>\<open>cr_extended\<close> is \<open>extended_mode\<close>, \<open>cr_sidinfo\<close> is \<open>cccam220\<close>, \<open>cr_busy\<close> the lock \<open>ecm_busy\<close>, \<open>cr_flag\<close> is \<open>g_flag\<close>; \<open>cr_counts\<close> holds
  the seven counters \<open>num_hop1\<close> \<dots> \<open>num_resharex\<close>; \<open>cr_next\<close> is an address that no card has had yet.\<close>

record cc_reader =
  cr_tasks :: "cc_task list"
  cr_pending :: int
  cr_cards :: "cc_card list"
  cr_eei :: "cc_eei list"
  cr_emms :: "u8 list list"
  cr_extended :: bool
  cr_server_idx :: nat
  cr_flag :: u8
  cr_busy :: bool
  cr_available :: bool
  cr_connected :: nat
  cr_last_msg :: u8
  cr_just_logged_in :: bool
  cr_cmd05NOK :: bool
  cr_recv_ecmtask :: int
  cr_dcw :: "u8 list"
  cr_hops :: u8
  cr_ecm_time :: timeb
  cr_au :: cc_au
  cr_counts :: "int list"
  cr_cmd05 :: cc_cmd05
  cr_max_ecms :: int
  cr_ecm_counter :: int
  cr_is_oscam :: bool
  cr_cmd0b_key :: "u8 list"
  cr_buffer :: "u8 list"
  cr_sidinfo :: bool
  cr_next :: nat
  cr_out :: "cc_effect list"

definition E2_CCCAM_NOCARD :: u8 where "E2_CCCAM_NOCARD = 0x27"

definition MSG_CW_ECM :: u8 where "MSG_CW_ECM = 1"
definition MSG_EMM_ACK :: u8 where "MSG_EMM_ACK = 2"
definition MSG_CARD_REMOVED :: u8 where "MSG_CARD_REMOVED = 4"
definition MSG_NEW_CARD :: u8 where "MSG_NEW_CARD = 7"
definition MSG_NEW_CARD_SIDINFO :: u8 where "MSG_NEW_CARD_SIDINFO = 0x0F"
definition MSG_CW_NOK1 :: u8 where "MSG_CW_NOK1 = 0xFE"
definition MSG_CW_NOK2 :: u8 where "MSG_CW_NOK2 = 0xFF"

section \<open>Services that a card can and cannot decode\<close>

definition sid_eq :: "cc_srvid \<Rightarrow> cc_srvid \<Rightarrow> bool" where
  "sid_eq a b \<longleftrightarrow> sv_sid a = sv_sid b \<and> (sv_ecmlen a = sv_ecmlen b \<or> sv_ecmlen a = 0 \<or> sv_ecmlen b = 0)"

definition is_sid_blocked :: "cc_card \<Rightarrow> cc_srvid \<Rightarrow> bool" where
  "is_sid_blocked c s \<longleftrightarrow> list_ex (\<lambda>x. sid_eq x s) (cd_badsids c)"

definition is_good_sid :: "cc_card \<Rightarrow> cc_srvid \<Rightarrow> bool" where
  "is_good_sid c s \<longleftrightarrow> list_ex (\<lambda>x. sid_eq x s) (cd_goodsids c)"

definition add_sid_block :: "cc_srvid \<Rightarrow> cc_card \<Rightarrow> cc_card" where
  "add_sid_block s c = (if is_sid_blocked c s then c else c\<lparr>cd_badsids := cd_badsids c @ [s]\<rparr>)"

definition remove_sid_block :: "cc_srvid \<Rightarrow> cc_card \<Rightarrow> cc_card" where
  "remove_sid_block s c = c\<lparr>cd_badsids := filter (\<lambda>x. \<not> sid_eq x s) (cd_badsids c)\<rparr>"

definition remove_good_sid :: "cc_srvid \<Rightarrow> cc_card \<Rightarrow> cc_card" where
  "remove_good_sid s c = c\<lparr>cd_goodsids := filter (\<lambda>x. \<not> sid_eq x s) (cd_goodsids c)\<rparr>"

definition add_good_sid :: "cc_srvid \<Rightarrow> cc_card \<Rightarrow> cc_card" where
  "add_good_sid s c =
     (if is_good_sid c s then c
      else (let c1 = remove_sid_block s c in c1\<lparr>cd_goodsids := cd_goodsids c1 @ [s]\<rparr>))"

text \<open>A change of the card behind a pointer.\<close>

definition card_at :: "nat \<Rightarrow> cc_card list \<Rightarrow> cc_card option" where
  "card_at a cs = find (\<lambda>c. cd_ref c = a) cs"

definition on_card :: "nat \<Rightarrow> (cc_card \<Rightarrow> cc_card) \<Rightarrow> cc_reader \<Rightarrow> cc_reader" where
  "on_card a f r = r\<lparr>cr_cards := map (\<lambda>c. if cd_ref c = a then f c else c) (cr_cards r)\<rparr>"

section \<open>The table of indices\<close>

definition get_extended_ecm_idx :: "u8 \<Rightarrow> cc_eei list \<Rightarrow> cc_eei option" where
  "get_extended_ecm_idx i es = find (\<lambda>e. ee_send_idx e = i) es"

definition get_extended_ecm_idx_by_idx :: "u16 \<Rightarrow> cc_eei list \<Rightarrow> cc_eei option" where
  "get_extended_ecm_idx_by_idx i es = find (\<lambda>e. ee_ecm_idx e = i) es"

text \<open>The same with \<open>remove\<close>: the first entry that fits is taken out.\<close>

fun remove_first :: "('a \<Rightarrow> bool) \<Rightarrow> 'a list \<Rightarrow> 'a list" where
  "remove_first P [] = []"
| "remove_first P (x # xs) = (if P x then xs else x # remove_first P xs)"

definition add_extended_ecm_idx :: "cc_eei \<Rightarrow> cc_eei list \<Rightarrow> cc_eei list" where
  "add_extended_ecm_idx e es = es @ [e]"

definition cc_reset_pending :: "u16 \<Rightarrow> cc_task list \<Rightarrow> cc_task list" where
  "cc_reset_pending i ts = map (\<lambda>t. if tk_idx t = i \<and> tk_rc t = 101 then t\<lparr>tk_rc := 100\<rparr> else t) ts"

definition free_extended_ecm_idx_by_card :: "nat \<Rightarrow> cc_reader \<Rightarrow> cc_reader" where
  "free_extended_ecm_idx_by_card a r =
     (let gone = filter (\<lambda>e. ee_card e = a) (cr_eei r) in
      r\<lparr>cr_tasks := fold (\<lambda>e. cc_reset_pending (ee_ecm_idx e)) gone (cr_tasks r), cr_eei := filter (\<lambda>e. ee_card e \<noteq> a) (cr_eei r)\<rparr>)"

definition free_extended_ecm_idx :: "cc_reader \<Rightarrow> cc_reader" where
  "free_extended_ecm_idx r = r\<lparr>cr_eei := []\<rparr>"

section \<open>The next request\<close>

text \<open>Big-endian bytes.\<close>

definition be2 :: "u16 \<Rightarrow> u8 list" where
  "be2 w = [ucast (drop_bit 8 w), ucast w]"

definition be4 :: "u32 \<Rightarrow> u8 list" where
  "be4 w = [ucast (drop_bit 24 w), ucast (drop_bit 16 w), ucast (drop_bit 8 w), ucast w]"

text \<open>A request that still waits to be sent.\<close>

definition waiting :: "cc_task \<Rightarrow> bool" where
  "waiting t \<longleftrightarrow> 10 \<le> tk_rc t \<and> tk_rc t \<le> 100"

definition put_task :: "nat \<Rightarrow> cc_task \<Rightarrow> cc_reader \<Rightarrow> cc_reader" where
  "put_task i t r = r\<lparr>cr_tasks := (cr_tasks r)[i := t]\<rparr>"

definition emit :: "cc_effect \<Rightarrow> cc_reader \<Rightarrow> cc_reader" where
  "emit x r = r\<lparr>cr_out := cr_out r @ [x]\<rparr>"

text \<open>In the extended mode a request is to be left alone while another one for the same ECM is on its way. The code compares the addresses of
  the two arrays \<open>ecmd5\<close> and not their contents: they are equal for the same slot only.\<close>

definition same_on_its_way :: "nat \<Rightarrow> cc_task list \<Rightarrow> bool" where
  "same_on_its_way i ts \<longleftrightarrow> list_ex (\<lambda>j. i \<noteq> j \<and> tk_rc (ts ! j) = 101 \<and> tk_caid (ts ! i) = tk_caid (ts ! j) \<and> i = j) [0..<length ts]"

lemma same_never_found: "\<not> same_on_its_way i ts"
  by (auto simp: same_on_its_way_def list_ex_iff)

fun nxt_loop :: "int \<Rightarrow> int \<Rightarrow> nat list \<Rightarrow> nat option \<Rightarrow> nat \<Rightarrow> cc_reader \<Rightarrow> nat option \<times> nat \<times> cc_reader" where
  "nxt_loop now limit [] n p r = (n, p, r)"
| "nxt_loop now limit (i # is) n p r =
     (let ts = cr_tasks r; er = ts ! i in
      if limit < now - tk_time er \<and> 10 \<le> tk_rc er then
        nxt_loop now limit is n p (emit (Timed_out i) (put_task i (er\<lparr>tk_rc := 0\<rparr>) r))
      else if waiting er then
        (if tk_loop er then
           nxt_loop now limit is n (p + 1) (emit (Answered i 0 E2_CCCAM_LOOP) (put_task i (er\<lparr>tk_rc := 0, tk_rcEx := E2_CCCAM_LOOP\<rparr>) r))
         else if (case n of None \<Rightarrow> True | Some k \<Rightarrow> tk_time (ts ! k) < tk_time er) \<and> \<not> (cr_extended r \<and> same_on_its_way i ts) then
           nxt_loop now limit is (Some i) (p + 1) r
         else nxt_loop now limit is n (p + 1) r)
      else nxt_loop now limit is n p r)"

definition cc_get_nxt_ecm :: "int \<Rightarrow> int \<Rightarrow> cc_reader \<Rightarrow> nat option \<times> cc_reader" where
  "cc_get_nxt_ecm now limit r =
     (let (n, p, r') = nxt_loop now limit [0..<length (cr_tasks r)] None 0 r in (n, r'\<lparr>cr_pending := int p\<rparr>))"

section \<open>The card for a request\<close>

text \<open>Nearer than the best card so far, whose distance is \<open>h\<close>; at the same distance a card with a serial wins.\<close>

definition closer :: "u8 option \<Rightarrow> cc_card \<Rightarrow> bool" where
  "closer h c \<longleftrightarrow> (case h of None \<Rightarrow> True | Some d \<Rightarrow> cd_hop c < d \<or> cd_hop c = d \<and> cc_UA_valid (cd_hexserial c))"

definition take_if_closer :: "cc_card \<Rightarrow> cc_card option \<times> u8 option \<Rightarrow> cc_card option \<times> u8 option" where
  "take_if_closer c ch = (if closer (snd ch) c then (Some c, Some (cd_hop c)) else ch)"

definition match_card :: "u32 \<Rightarrow> cc_card \<Rightarrow> cc_card option \<times> u8 option \<Rightarrow> cc_card option \<times> u8 option" where
  "match_card prid c ch =
     (if prid = 0 \<and> cd_providers c = [] then take_if_closer c ch
      else fold (\<lambda>p ch. if pv_prov p = prid then take_if_closer c ch else ch) (cd_providers c) ch)"

text \<open>The walk over the cards; the last component is the nearest card of Nagra, for a request whose provider no card has.\<close>

fun pick_card :: "cc_task \<Rightarrow> cc_srvid \<Rightarrow> cc_card list \<Rightarrow> cc_card option \<times> u8 option \<Rightarrow> cc_card option \<Rightarrow> cc_card option \<times> u8 option \<times> cc_card option" where
  "pick_card t s [] ch x = (fst ch, snd ch, x)"
| "pick_card t s (c # cs) ch x =
     (if cd_caid c \<noteq> tk_caid t \<or> is_sid_blocked c s then pick_card t s cs ch x
      else pick_card t s cs (match_card (tk_prid t) c ch)
        (if drop_bit 8 (cd_caid c) = 0x18 \<and> (case x of None \<Rightarrow> True | Some y \<Rightarrow> cd_hop c < cd_hop y) then Some c else x))"

definition task_srvid :: "cc_task \<Rightarrow> cc_srvid" where
  "task_srvid t = \<lparr>sv_sid = tk_srvid t, sv_ecmlen = of_nat (length (tk_ecm t))\<rparr>"

text \<open>\<open>cur\<close> (\<open>card\<close> in the code) and \<open>h\<close> are variables of the function and keep their values from one request to the next.\<close>

definition choose_card :: "bool \<Rightarrow> cc_task \<Rightarrow> cc_card list \<Rightarrow> cc_card option \<Rightarrow> u8 option \<Rightarrow> cc_card option \<times> u8 option" where
  "choose_card forward t cards cur h =
     (let card1 = (case (if forward then Option.bind (tk_origin t) (\<lambda>a. card_at a cards) else None) of Some c \<Rightarrow> Some c | None \<Rightarrow> cur) in
      case card1 of
        Some c \<Rightarrow> (Some c, h)
      | None \<Rightarrow> (let (c, h', x) = pick_card t (task_srvid t) cards (None, h) None in (if c = None then x else c, h')))"

section \<open>Sending\<close>

text \<open>The serial is converted with the CAID of the card before, which is replaced afterwards.\<close>

definition CS_MAXPROV :: nat where "CS_MAXPROV = 32"

definition set_au_data :: "cc_card \<Rightarrow> u32 option \<Rightarrow> cc_reader \<Rightarrow> cc_reader option" where
  "set_au_data c prid r =
     (if au_disabled (cr_au r) \<or> \<not> cc_UA_valid (cd_hexserial c) then Some r
      else do {
        hs \<leftarrow> cc_UA_cccam2oscam (cd_hexserial c) (au_caid (cr_au r));
        let ps = take CS_MAXPROV (map (\<lambda>p. (pv_prov p, pv_sa p))
          (filter (\<lambda>p. case prid of None \<Rightarrow> True | Some x \<Rightarrow> pv_prov p = x \<or> pv_prov p = 0 \<or> x = 0) (cd_providers c)));
        let ps' = (if ps = [] then [(0, case au_providers (cr_au r) of [] \<Rightarrow> replicate 4 0 | p # _ \<Rightarrow> snd p)] else ps);
        Some (r\<lparr>cr_au := (cr_au r)\<lparr>au_card := Some (cd_ref c), au_hexserial := hs, au_providers := ps', au_caid := cd_caid c,
          au_provid := (case prid of None \<Rightarrow> au_provid (cr_au r) | Some x \<Rightarrow> x)\<rparr>\<rparr>) })"

definition ecm_message :: "cc_card \<Rightarrow> cc_task \<Rightarrow> u8 list" where
  "ecm_message c t = be2 (cd_caid c) @ be4 (tk_prid t) @ be4 (cd_id c) @ be2 (tk_srvid t) @ [of_nat (length (tk_ecm t))] @ tk_ecm t"

definition next_server_idx :: "nat \<Rightarrow> nat" where
  "next_server_idx i = (let j = (i + 1) mod 65536 in if 256 \<le> j then 1 else j)"

text \<open>An entry with the same index on the wire is taken over.\<close>

definition put_eei :: "cc_eei \<Rightarrow> cc_eei list \<Rightarrow> cc_eei list" where
  "put_eei e es =
     (case find (\<lambda>k. ee_send_idx (es ! k) = ee_send_idx e) [0..<length es] of
        Some k \<Rightarrow> es[k := e]
      | None \<Rightarrow> add_extended_ecm_idx e es)"

definition send_to_card :: "cc_card \<Rightarrow> cc_task \<Rightarrow> cc_reader \<Rightarrow> cc_reader option" where
  "send_to_card c t r =
     (let j = next_server_idx (cr_server_idx r);
          r1 = (if cr_extended r then r\<lparr>cr_server_idx := j, cr_flag := of_nat j\<rparr> else r);
          send_idx = (if cr_extended r then of_nat j else 1);
          r2 = r1\<lparr>cr_eei := put_eei \<lparr>ee_send_idx = send_idx, ee_ecm_idx = tk_idx t, ee_card = cd_ref c, ee_srvid = task_srvid t\<rparr> (cr_eei r1),
                  cr_hops := cd_hop c\<rparr> in
      set_au_data c (Some (tk_prid t)) (emit (Sent (cr_flag r2) MSG_CW_ECM (ecm_message c t)) r2))"

text \<open>No card for a request: unless cards are still on their way, it is answered, and the services blocked for it are opened again.\<close>

definition cards_on_their_way :: "cc_reader \<Rightarrow> bool" where
  "cards_on_their_way r \<longleftrightarrow> cr_last_msg r = MSG_NEW_CARD \<or> cr_last_msg r = MSG_NEW_CARD_SIDINFO \<or> cr_last_msg r = MSG_CARD_REMOVED \<or> cr_just_logged_in r"

definition no_card :: "nat \<Rightarrow> cc_task \<Rightarrow> cc_reader \<Rightarrow> cc_reader" where
  "no_card n t r =
     (if cards_on_their_way r then put_task n (t\<lparr>tk_rc := 102\<rparr>) r
      else
        (let r1 = emit (Answered n 0 E2_CCCAM_NOCARD) (put_task n (t\<lparr>tk_rc := 0, tk_rcEx := E2_CCCAM_NOCARD\<rparr>) r) in
         r1\<lparr>cr_cards := map (\<lambda>c. if cd_caid c = tk_caid t
             then c\<lparr>cd_badsids := filter (\<lambda>s. \<not> (0 < sv_ecmlen s \<and> sid_eq s (task_srvid t))) (cd_badsids c)\<rparr> else c) (cr_cards r1)\<rparr>))"

text \<open>A pending EMM goes out when there is no ECM. Its third byte holds the high byte of the length.\<close>

definition cc_send_pending_emms :: "timeb \<Rightarrow> cc_reader \<Rightarrow> (bool \<times> cc_reader) option" where
  "cc_send_pending_emms now r = (case cr_emms r of
     [] \<Rightarrow> Some (False, r)
   | m # ms \<Rightarrow>
       (if \<not> cr_extended r \<and> cr_busy r then Some (False, r)
        else do {
          hi \<leftarrow> fetch m 2;
          lo \<leftarrow> fetch m 11;
          let size = 256 * unat hi + unat lo + 12;
          (if length m < size then None
           else Some (True, emit (Sent (cr_flag r) MSG_EMM_ACK (take size (m[2 := 0])))
             (r\<lparr>cr_busy := (if cr_extended r then cr_busy r else True), cr_available := (if cr_extended r then cr_available r else False),
                cr_just_logged_in := False, cr_ecm_time := now, cr_emms := ms\<rparr>))) }))"

section \<open>Command 05\<close>

text \<open>The configuration of the server and of the reader, and what the sockets and AES do: \<open>env_connect\<close> is \<open>cc_cli_connect\<close>,
  \<open>env_aes\<close> encrypts a block of 16 bytes with a key of 16 bytes.\<close>

record cc_env =
  env_connect :: "cc_reader \<Rightarrow> cc_reader"
  env_aes :: "u8 list \<Rightarrow> u8 list \<Rightarrow> u8 list"
  env_forward :: bool
  env_ctimeout :: u32
  env_ftimeout :: u32
  env_node :: "u8 list"
  env_maxhop :: int
  env_mindown :: int
  env_ctab :: caidtab
  env_ftab :: ftab
  env_grp :: u64
  env_usr_len :: nat
  env_pwd_len :: nat
  env_version :: "u8 list"

definition MSG_CMD_05 :: u8 where "MSG_CMD_05 = 5"

text \<open>The answer to a payload of 256 bytes in a mode, and the command's data after it: the stream ciphers work in place. The mode that
  cannot be answered gives no bytes.\<close>

definition cmd05_bytes :: "cc_env \<Rightarrow> cc_cmd05 \<Rightarrow> (u8 list \<times> cc_cmd05) option" where
  "cmd05_bytes ev c = (case c5_mode c of
     MODE_PLAIN \<Rightarrow> Some (c5_data c, c)
   | MODE_AES \<Rightarrow> Some (concat (map (env_aes ev (c5_aeskey c)) (blocks 16 (c5_data c))), c)
   | MODE_CC_CRYPT \<Rightarrow> (let (out, k) = cc_crypt (c5_key c) (c5_data c) ENCRYPT in Some (out, c\<lparr>c5_data := out, c5_key := k\<rparr>))
   | MODE_RC4_CRYPT \<Rightarrow> (let (out, k) = cc_rc4_crypt (c5_key c) (c5_data c) DECRYPT in Some (out, c\<lparr>c5_data := out, c5_key := k\<rparr>))
   | _ \<Rightarrow> None)"

definition send_cmd05_answer :: "cc_env \<Rightarrow> cc_reader \<Rightarrow> cc_reader option" where
  "send_cmd05_answer ev r =
     (let c = cr_cmd05 r in
      if c5_active c = 0 \<or> \<not> cr_available r then Some r
      else
        (let c1 = c\<lparr>c5_active := c5_active c - 1\<rparr>; r1 = r\<lparr>cr_cmd05 := c1\<rparr>; l = length (c5_data c1) in
         if c5_active c1 \<noteq> 0 then Some r1
         else if l = 0 then Some ((emit (Sent (cr_flag r1) MSG_CMD_05 []) r1)\<lparr>cr_cmd05NOK := True\<rparr>)
         else
           (case (if l = 256 then cmd05_bytes ev c1 else None) of
              Some (out, c2) \<Rightarrow> Some ((emit (Sent (cr_flag r1) MSG_CMD_05 out) r1)\<lparr>cr_cmd05 := c2, cr_cmd05NOK := True\<rparr>)
            | None \<Rightarrow>
                (let r2 = emit (Sent (cr_flag r1) MSG_CMD_05 []) r1 in
                 Some (r2\<lparr>cr_max_ecms := (if cr_max_ecms r2 = 0 then 50 else cr_max_ecms r2),
                   cr_ecm_counter := (if cr_max_ecms r2 = 0 then 0 else cr_ecm_counter r2), cr_cmd05NOK := True\<rparr>)))))"

section \<open>The loop of \<open>cc_send_ecm\<close>\<close>

definition open_tasks :: "cc_reader \<Rightarrow> nat" where
  "open_tasks r = length (filter waiting (cr_tasks r))"

text \<open>When nothing waits: an EMM, or the answer to command 05.\<close>

definition nothing_waits :: "cc_env \<Rightarrow> timeb \<Rightarrow> cc_reader \<Rightarrow> cc_reader option" where
  "nothing_waits ev now r =
     (let r1 = (if cr_extended r then r else r\<lparr>cr_available := True, cr_busy := False\<rparr>) in do {
        (sent, r2) \<leftarrow> cc_send_pending_emms now r1;
        if sent then Some r2 else send_cmd05_answer ev r2 })"

lemma waiting_update_le:
  "\<not> waiting x \<Longrightarrow> length (filter waiting (ts[i := x])) \<le> length (filter waiting ts)"
proof (cases "i < length ts")
  case True
  assume "\<not> waiting x"
  then show ?thesis unfolding upd_conv_take_nth_drop [OF True] by (subst (3) id_take_nth_drop [OF True]) simp
qed (simp add: list_update_beyond)

lemma waiting_update_less:
  assumes "\<not> waiting x" "i < length ts" "waiting (ts ! i)"
  shows "length (filter waiting (ts[i := x])) < length (filter waiting ts)"
  using assms(1,3) unfolding upd_conv_take_nth_drop [OF assms(2)] by (subst (3) id_take_nth_drop [OF assms(2)]) simp

lemma nxt_loop_keeps:
  assumes "nxt_loop now limit is n p r = (n', p', r')" "distinct is" "list_all (\<lambda>i. i < length (cr_tasks r)) is"
    "\<And>k. n = Some k \<Longrightarrow> k < length (cr_tasks r) \<and> waiting (cr_tasks r ! k) \<and> k \<notin> set is"
  shows "open_tasks r' \<le> open_tasks r \<and> length (cr_tasks r') = length (cr_tasks r) \<and>
    (\<forall>k. n' = Some k \<longrightarrow> k < length (cr_tasks r) \<and> waiting (cr_tasks r' ! k))"
  using assms
proof (induction "is" arbitrary: n p r)
  case (Cons i "is")
  let ?er = "cr_tasks r ! i"
  have d: "distinct is" "i \<notin> set is" "i < length (cr_tasks r)" "list_all (\<lambda>i. i < length (cr_tasks r)) is" using Cons.prems by auto
  have dead: "open_tasks r' \<le> open_tasks r \<and> length (cr_tasks r') = length (cr_tasks r) \<and>
      (\<forall>k. n' = Some k \<longrightarrow> k < length (cr_tasks r) \<and> waiting (cr_tasks r' ! k))"
    if "nxt_loop now limit is n q (emit x (put_task i y r)) = (n', p', r')" "\<not> waiting y" for q x y
  proof -
    let ?r = "emit x (put_task i y r)"
    have l: "length (cr_tasks ?r) = length (cr_tasks r)" by (simp add: emit_def put_task_def)
    have le: "open_tasks ?r \<le> open_tasks r" using waiting_update_le [OF that(2)] by (simp add: open_tasks_def emit_def put_task_def)
    have kp: "k < length (cr_tasks ?r) \<and> waiting (cr_tasks ?r ! k) \<and> k \<notin> set is" if "n = Some k" for k
    proof -
      have "k < length (cr_tasks r)" "waiting (cr_tasks r ! k)" "k \<notin> set (i # is)" using Cons.prems(4) [OF that] by blast+
      then show ?thesis by (simp add: emit_def put_task_def)
    qed
    have la: "list_all (\<lambda>i. i < length (cr_tasks ?r)) is" using d(4) unfolding l .
    have "open_tasks r' \<le> open_tasks ?r \<and> length (cr_tasks r') = length (cr_tasks ?r) \<and>
      (\<forall>k. n' = Some k \<longrightarrow> k < length (cr_tasks ?r) \<and> waiting (cr_tasks r' ! k))"
      by (rule Cons.IH [OF that(1) d(1) la]) (rule kp)
    then show ?thesis unfolding l using le by (meson order_trans)
  qed
  show ?case
  proof (cases "limit < now - tk_time ?er \<and> 10 \<le> tk_rc ?er")
    case True
    then show ?thesis using Cons.prems(1) by (intro dead [of p "Timed_out i" "?er\<lparr>tk_rc := 0\<rparr>"]) (auto simp: Let_def waiting_def)
  next
    case F1: False
    show ?thesis
    proof (cases "waiting ?er")
      case False
      then show ?thesis using Cons.IH [of n p r] Cons.prems d F1 by (auto simp: Let_def)
    next
      case W: True
      show ?thesis
      proof (cases "tk_loop ?er")
        case True
        then show ?thesis using Cons.prems(1) F1 W
          by (intro dead [of "p + 1" "Answered i 0 E2_CCCAM_LOOP" "?er\<lparr>tk_rc := 0, tk_rcEx := E2_CCCAM_LOOP\<rparr>"]) (auto simp: Let_def waiting_def)
      next
        case L: False
        show ?thesis
        proof (cases "(case n of None \<Rightarrow> True | Some k \<Rightarrow> tk_time (cr_tasks r ! k) < tk_time ?er) \<and> \<not> (cr_extended r \<and> same_on_its_way i (cr_tasks r))")
          case True
          then have "nxt_loop now limit is (Some i) (p + 1) r = (n', p', r')" using Cons.prems(1) F1 W L by (simp add: Let_def)
          then show ?thesis using Cons.IH [of "Some i" "p + 1" r] d W by auto
        next
          case False
          then have "nxt_loop now limit is n (p + 1) r = (n', p', r')" using Cons.prems(1) F1 W L by (auto simp: Let_def)
          then show ?thesis using Cons.IH [of n "p + 1" r] d Cons.prems(4) by auto
        qed
      qed
    qed
  qed
qed simp

lemma get_nxt_open:
  assumes "cc_get_nxt_ecm now limit r = (n, r')"
  shows "open_tasks r' \<le> open_tasks r" "n = Some k \<Longrightarrow> k < length (cr_tasks r') \<and> waiting (cr_tasks r' ! k)"
proof -
  obtain p r1 where x: "nxt_loop now limit [0..<length (cr_tasks r)] None 0 r = (n, p, r1)" "r' = r1\<lparr>cr_pending := int p\<rparr>"
    using assms by (auto simp: cc_get_nxt_ecm_def split: prod.splits)
  have "list_all (\<lambda>i. i < length (cr_tasks r)) [0..<length (cr_tasks r)]" by (simp add: list_all_iff)
  from nxt_loop_keeps [OF x(1) _ this] have "open_tasks r1 \<le> open_tasks r \<and> length (cr_tasks r1) = length (cr_tasks r) \<and>
    (\<forall>k. n = Some k \<longrightarrow> k < length (cr_tasks r) \<and> waiting (cr_tasks r1 ! k))" by simp
  then show "open_tasks r' \<le> open_tasks r" "n = Some k \<Longrightarrow> k < length (cr_tasks r') \<and> waiting (cr_tasks r' ! k)"
    by (simp_all add: x(2) open_tasks_def)
qed

lemma no_card_open: "\<lbrakk>n < length (cr_tasks r); waiting (cr_tasks r ! n)\<rbrakk> \<Longrightarrow> open_tasks (no_card n t r) < open_tasks r"
  using waiting_update_less [of _ n "cr_tasks r"]
  by (auto simp: no_card_def put_task_def emit_def open_tasks_def Let_def waiting_def)

lemma set_au_data_only: "set_au_data c prid r = Some r' \<Longrightarrow> \<exists>au. r' = r\<lparr>cr_au := au\<rparr>"
proof (cases "au_disabled (cr_au r) \<or> \<not> cc_UA_valid (cd_hexserial c)")
  case True
  assume "set_au_data c prid r = Some r'"
  then have "r' = r\<lparr>cr_au := cr_au r\<rparr>" using True by (simp add: set_au_data_def)
  then show ?thesis by blast
next
  case False
  assume "set_au_data c prid r = Some r'"
  then show ?thesis unfolding set_au_data_def if_not_P [OF False] Let_def bind_eq_Some_conv
    by (elim exE conjE, simp only: option.inject) (rule exI, erule sym)
qed

text \<open>What sending to a card does to the rest of the state.\<close>

definition sent_index :: "cc_reader \<Rightarrow> u8" where
  "sent_index r = (if cr_extended r then of_nat (next_server_idx (cr_server_idx r)) else 1)"

definition sent_flag :: "cc_reader \<Rightarrow> u8" where
  "sent_flag r = (if cr_extended r then sent_index r else cr_flag r)"

lemma send_to_card_cases:
  assumes "send_to_card c t r = Some r'"
  shows "\<exists>au. r' = r\<lparr>cr_server_idx := (if cr_extended r then next_server_idx (cr_server_idx r) else cr_server_idx r), cr_flag := sent_flag r,
    cr_eei := put_eei \<lparr>ee_send_idx = sent_index r, ee_ecm_idx = tk_idx t, ee_card = cd_ref c, ee_srvid = task_srvid t\<rparr> (cr_eei r),
    cr_hops := cd_hop c, cr_out := cr_out r @ [Sent (sent_flag r) MSG_CW_ECM (ecm_message c t)], cr_au := au\<rparr>"
proof (cases "cr_extended r")
  case True
  from set_au_data_only [OF assms [unfolded send_to_card_def Let_def]] True show ?thesis
    by (auto simp: emit_def sent_index_def sent_flag_def)
next
  case False
  from set_au_data_only [OF assms [unfolded send_to_card_def Let_def]] False show ?thesis
    by (auto simp: emit_def sent_index_def sent_flag_def)
qed

lemma sent_open: "send_to_card c t r = Some r' \<Longrightarrow> cr_tasks r' = cr_tasks r"
  by (drule send_to_card_cases) auto


text \<open>The loop. What was chosen for one request, \<open>cur\<close>, is tried first for the next one: only a request without a card sets it back.\<close>

definition ecm_limit :: "cc_env \<Rightarrow> int" where
  "ecm_limit ev = uint ((env_ctimeout ev + 500) div 1000 + 1)"

definition begin_round :: "timeb \<Rightarrow> cc_reader \<Rightarrow> cc_reader" where
  "begin_round now r = r\<lparr>cr_ecm_time := now, cr_available := cr_extended r\<rparr>"

definition take_task :: "nat \<Rightarrow> cc_reader \<Rightarrow> cc_reader" where
  "take_task n r = put_task n ((cr_tasks r ! n)\<lparr>tk_rc := 101\<rparr>) r"

lemma open_tasks_begin [simp]: "open_tasks (begin_round now r) = open_tasks r"
  by (simp add: begin_round_def open_tasks_def)

lemma open_tasks_take: "\<lbrakk>n < length (cr_tasks r); waiting (cr_tasks r ! n)\<rbrakk> \<Longrightarrow> open_tasks (take_task n r) < open_tasks r"
  using waiting_update_less [of "(cr_tasks r ! n)\<lparr>tk_rc := 101\<rparr>" n "cr_tasks r"]
  by (simp add: take_task_def put_task_def open_tasks_def waiting_def)

lemma open_tasks_no_card: "open_tasks (no_card n t (take_task n r)) \<le> open_tasks (take_task n r)"
proof -
  have "open_tasks (put_task n (t\<lparr>tk_rc := v\<rparr>) (take_task n r)) \<le> open_tasks (take_task n r)"
    "open_tasks (put_task n (t\<lparr>tk_rc := v, tk_rcEx := x\<rparr>) (take_task n r)) \<le> open_tasks (take_task n r)"
    if "v = 102 \<or> v = 0" for v x
    using that waiting_update_le [of "t\<lparr>tk_rc := v\<rparr>" "cr_tasks (take_task n r)" n]
      waiting_update_le [of "t\<lparr>tk_rc := v, tk_rcEx := x\<rparr>" "cr_tasks (take_task n r)" n]
    by (auto simp: open_tasks_def put_task_def waiting_def)
  then show ?thesis by (simp add: no_card_def emit_def Let_def open_tasks_def)
qed

function cc_send_loop :: "cc_env \<Rightarrow> timeb \<Rightarrow> cc_card option \<Rightarrow> u8 option \<Rightarrow> cc_reader \<Rightarrow> cc_reader option" where
  "cc_send_loop ev now cur h r =
     (case cc_get_nxt_ecm (tb_time now) (ecm_limit ev) (begin_round now r) of
        (None, r1) \<Rightarrow> nothing_waits ev now r1
      | (Some n, r1) \<Rightarrow>
          (let r2 = take_task n r1; t = cr_tasks r2 ! n in
           case choose_card (env_forward ev) t (cr_cards r2) cur h of
             (Some c, h') \<Rightarrow>
               (case send_to_card c t r2 of
                  None \<Rightarrow> None
                | Some r3 \<Rightarrow> if cr_extended r3 then cc_send_loop ev now (Some c) h' r3 else Some r3)
           | (None, h') \<Rightarrow> cc_send_loop ev now None h' (no_card n t r2)))"
  by pat_completeness auto
termination
proof (relation "measure (\<lambda>(ev, now, cur, h, r). open_tasks r)", goal_cases)
  case (2 ev now cur h r x r1 n r2 t c h')
  then have "n < length (cr_tasks r1)" "waiting (cr_tasks r1 ! n)" "open_tasks r1 \<le> open_tasks r"
    using get_nxt_open [of "tb_time now" "ecm_limit ev" "begin_round now r" x r1] by auto
  then show ?case using 2 open_tasks_take [of n r1] open_tasks_no_card [of n t r1] by simp
next
  case (3 ev now cur h r x r1 n r2 t c h' card r3)
  then have "n < length (cr_tasks r1)" "waiting (cr_tasks r1 ! n)" "open_tasks r1 \<le> open_tasks r"
    using get_nxt_open [of "tb_time now" "ecm_limit ev" "begin_round now r" x r1] by auto
  moreover have "open_tasks r3 = open_tasks r2" using 3 sent_open by (simp add: open_tasks_def)
  ultimately show ?case using 3 open_tasks_take [of n r1] by simp
qed simp

declare cc_send_loop.simps [simp del]

end
