(* ===== verification/CCmsg.thy ===== *)
theory CCmsg
  imports CCcam
begin

unbundle bit_operations_syntax

text \<open>
  What the reader of a CCcam connection does on an event, \<open>module-cccam.c\<close>: a request to send (\<open>cc_send_ecm\<close>), and the messages of the
  server (\<open>cc_parse_msg\<close>, the branches of a reader): new and removed cards, control words, refusals, EMM acknowledgements, the data of the
  server, the partner string and the commands 05 and 0B.
\<close>

section \<open>Sending an ECM\<close>

definition cc_cli_close :: "cc_reader \<Rightarrow> cc_reader" where
  "cc_cli_close r = emit Closed (r\<lparr>cr_connected := 0, cr_available := False, cr_just_logged_in := False\<rparr>)"

text \<open>The end of the time for an answer; the milliseconds are added without a carry.\<close>

definition busy_until :: "cc_env \<Rightarrow> timeb \<Rightarrow> timeb" where
  "busy_until ev t =
     (let tt = env_ctimeout ev + 500 in
      \<lparr>tb_time = tb_time t + uint (tt div 1000), tb_millitm = (tb_millitm t + uint (tt mod 1000)) mod 65536\<rparr>)"

definition cc_send_ecm :: "cc_env \<Rightarrow> timeb \<Rightarrow> nat option \<Rightarrow> cc_reader \<Rightarrow> cc_reader option" where
  "cc_send_ecm ev now er r =
     (let r0 = (if cr_connected r = 0 then env_connect ev r else r) in
      if cr_connected r0 = 0 then
        Some (case er of
            None \<Rightarrow> r0
          | Some i \<Rightarrow> emit (Answered i 0 E2_CCCAM_NOCARD) (put_task i ((cr_tasks r0 ! i)\<lparr>tk_rc := 0, tk_rcEx := E2_CCCAM_NOCARD\<rparr>) r0))
      else if cr_connected r0 \<noteq> 2 then Some r0
      else if cr_cards r0 = [] then Some r0
      else
        (let r1 = r0\<lparr>cr_just_logged_in := False\<rparr> in
         if \<not> cr_extended r1 \<and> cr_busy r1 then
           (if comp_timeb now (busy_until ev (cr_ecm_time r1)) < 0 then Some r1 else Some (cc_cli_close r1))
         else cc_send_loop ev now None None (if cr_extended r1 then r1 else r1\<lparr>cr_busy := True\<rparr>)))"

section \<open>Cards that come and go\<close>

definition read_provider :: "u16 \<Rightarrow> u8 list \<Rightarrow> nat \<Rightarrow> nat \<Rightarrow> cc_provider option" where
  "read_provider caid b ofs i =
     (let o2 = ofs + 7 * i in do {
        p \<leftarrow> b2i 3 (drop o2 b);
        (if length b < o2 + 7 then None
         else Some \<lparr>pv_prov = (if p = 0xFFFFFF \<and> drop_bit 8 caid = 0x17 then of_nat i else p), pv_sa = take 4 (drop (o2 + 3) b)\<rparr>) })"

definition read_sid :: "u8 list \<Rightarrow> nat \<Rightarrow> nat \<Rightarrow> cc_srvid option" where
  "read_sid b ofs i = do { s \<leftarrow> b2i 2 (drop (ofs + 2 * i) b); Some \<lparr>sv_sid = ucast s, sv_ecmlen = 0\<rparr> }"

definition read_node :: "u8 list \<Rightarrow> nat \<Rightarrow> nat \<Rightarrow> u8 list option" where
  "read_node b ofs i = (let n = take 8 (drop (ofs + 8 * i) b) in if length n < 8 then None else Some n)"

definition read_all :: "(nat \<Rightarrow> 'a option) \<Rightarrow> nat \<Rightarrow> 'a list option" where
  "read_all f n = those (map f [0..<n])"

text \<open>\<open>a\<close> is the address of the new card. What lies behind the bytes of the message is not known, so a message that is too short has no
  result.\<close>

definition read_card :: "nat \<Rightarrow> u64 \<Rightarrow> u8 list \<Rightarrow> bool \<Rightarrow> cc_card option" where
  "read_card a grp b ext = do {
     i \<leftarrow> b2i 4 b;
     remote \<leftarrow> b2i 4 (drop 4 b);
     caid \<leftarrow> map_option ucast (b2i 2 (drop 8 b));
     hop \<leftarrow> fetch b 10;
     reshare \<leftarrow> fetch b 11;
     nprov \<leftarrow> fetch b 20;
     nassign \<leftarrow> (if ext then fetch b 21 else Some 0);
     nreject \<leftarrow> (if ext then fetch b 22 else Some 0);
     let ofs1 = (if ext then 23 else 21);
     provs \<leftarrow> read_all (read_provider caid b ofs1) (unat nprov);
     let ofs2 = ofs1 + 7 * unat nprov;
     good \<leftarrow> read_all (read_sid b ofs2) (unat nassign);
     let ofs3 = ofs2 + 2 * unat nassign;
     bad \<leftarrow> read_all (read_sid b ofs3) (unat nreject);
     let ofs4 = ofs3 + 2 * unat nreject;
     nodes \<leftarrow> fetch b ofs4;
     ns \<leftarrow> read_all (read_node b (ofs4 + 1)) (unat nodes);
     Some \<lparr>cd_ref = a, cd_id = i, cd_remote_id = remote, cd_caid = caid, cd_hop = hop, cd_reshare = reshare,
       cd_hexserial = take 8 (drop 12 b), cd_providers = provs, cd_badsids = bad, cd_goodsids = good, cd_nodes = ns, cd_grp = grp,
       cd_remote = True, cd_is_ext = ext\<rparr> }"

text \<open>The counters of cards by distance and by how far they may be shared; \<open>d\<close> is 1 or -1.\<close>

definition hop_slot :: "cc_card \<Rightarrow> nat" where
  "hop_slot c = (if cd_hop c = 1 then 0 else if cd_hop c = 2 then 1 else 2)"

definition reshare_slot :: "cc_card \<Rightarrow> nat" where
  "reshare_slot c = (if cd_reshare c = 0 then 3 else if cd_reshare c = 1 then 4 else if cd_reshare c = 2 then 5 else 6)"

definition count_card :: "int \<Rightarrow> cc_card \<Rightarrow> int list \<Rightarrow> int list" where
  "count_card d c ns =
     (let n1 = ns[hop_slot c := ns ! hop_slot c + d] in n1[reshare_slot c := n1 ! reshare_slot c + d])"

definition remove_card :: "cc_card \<Rightarrow> cc_reader \<Rightarrow> cc_reader" where
  "remove_card c r =
     (let r1 = r\<lparr>cr_cards := filter (\<lambda>x. cd_ref x \<noteq> cd_ref c) (cr_cards r),
                 cr_au := (if au_card (cr_au r) = Some (cd_ref c) then (cr_au r)\<lparr>au_card := None\<rparr> else cr_au r)\<rparr>;
          r2 = free_extended_ecm_idx_by_card (cd_ref c) r1 in
      r2\<lparr>cr_counts := count_card (-1) c (cr_counts r2)\<rparr>)"

text \<open>Every card with the number goes.\<close>

definition cc_card_removed :: "u32 \<Rightarrow> cc_reader \<Rightarrow> cc_reader" where
  "cc_card_removed i r = fold remove_card (filter (\<lambda>c. cd_id c = i) (cr_cards r)) r"

definition move_card_to_end :: "nat \<Rightarrow> cc_reader \<Rightarrow> cc_reader" where
  "move_card_to_end a r = (case card_at a (cr_cards r) of
     None \<Rightarrow> r
   | Some c \<Rightarrow>
       (let r1 = free_extended_ecm_idx_by_card a (r\<lparr>cr_cards := filter (\<lambda>x. cd_ref x \<noteq> a) (cr_cards r)\<rparr>) in
        r1\<lparr>cr_cards := cr_cards r1 @ [c]\<rparr>))"

definition same_first_node :: "cc_card \<Rightarrow> cc_card \<Rightarrow> bool" where
  "same_first_node c d = (case (cd_nodes c, cd_nodes d) of ([], []) \<Rightarrow> True | (n # _, m # _) \<Rightarrow> n = m | _ \<Rightarrow> False)"

text \<open>A card of a reader has no services of its own, \<open>sidtab\<close>.\<close>

definition same_card2 :: "cc_card \<Rightarrow> cc_card \<Rightarrow> bool" where
  "same_card2 c d \<longleftrightarrow> cd_caid c = cd_caid d \<and> cd_remote c = cd_remote d \<and> cd_grp c = cd_grp d"

definition same_card :: "cc_card \<Rightarrow> cc_card \<Rightarrow> bool" where
  "same_card c d \<longleftrightarrow> cd_remote_id c = cd_remote_id d \<and> same_card2 c d \<and> same_first_node c d"

fun chk_ident_loop :: "ftab \<Rightarrow> cc_card \<Rightarrow> bool \<Rightarrow> bool" where
  "chk_ident_loop [] c res = res"
| "chk_ident_loop (f # fs) c res =
     (if f_caid f = 0 then chk_ident_loop fs c res
      else if f_caid f = cd_caid c \<and> (f_prids f = [] \<or> list_ex (\<lambda>p. list_ex (\<lambda>x. x = pv_prov p) (f_prids f)) (cd_providers c)) then True
      else chk_ident_loop fs c False)"

definition chk_ident :: "ftab \<Rightarrow> cc_card \<Rightarrow> bool" where
  "chk_ident tab c = chk_ident_loop tab c True"

section \<open>Messages about cards\<close>

text \<open>A card that was read is dropped when it has passed this program before, when the filter for identities forbids it, and when it is in
  the list already.\<close>

definition accept_card :: "cc_env \<Rightarrow> cc_card \<Rightarrow> cc_reader \<Rightarrow> cc_reader option" where
  "accept_card ev c r =
     (if list_ex (\<lambda>n. n = env_node ev) (cd_nodes c) then Some r
      else if \<not> chk_ident (env_ftab ev) c then Some r
      else if list_ex (\<lambda>old. cd_id old = cd_id c \<or> same_card old c) (cr_cards r) then Some r
      else do {
        let c1 = c\<lparr>cd_hop := cd_hop c + 1\<rparr>;
        r1 \<leftarrow> set_au_data c1 None (r\<lparr>cr_cards := cr_cards r @ [c1]\<rparr>);
        Some (r1\<lparr>cr_counts := count_card 1 c1 (cr_counts r1)\<rparr>) })"

text \<open>A new card: \<open>d\<close> is the payload.\<close>

definition msg_new_card :: "cc_env \<Rightarrow> bool \<Rightarrow> u8 list \<Rightarrow> cc_reader \<Rightarrow> cc_reader option" where
  "msg_new_card ev ext d r = do {
     caid \<leftarrow> map_option ucast (b2i 2 (drop 8 d));
     hop \<leftarrow> fetch d 10;
     reshare \<leftarrow> fetch d 11;
     (if caid = 0 \<or> env_maxhop ev + 1 \<le> uint hop then Some r
      else if uint reshare < env_mindown ev then Some r
      else if \<not> chk_ctab caid (env_ctab ev) then Some r
      else do {
        c \<leftarrow> read_card (cr_next r) (env_grp ev) d ext;
        accept_card ev c (r\<lparr>cr_connected := 2, cr_next := cr_next r + 1\<rparr>) }) }"

definition msg_card_removed :: "u8 list \<Rightarrow> cc_reader \<Rightarrow> cc_reader option" where
  "msg_card_removed d r = map_option (\<lambda>i. cc_card_removed i r) (b2i 4 d)"

section \<open>Answers\<close>

text \<open>The index on the wire of the message that is handled.\<close>

definition msg_index :: "cc_reader \<Rightarrow> u8" where
  "msg_index r = (if cr_extended r then cr_flag r else 1)"

definition take_index :: "cc_reader \<Rightarrow> cc_reader" where
  "take_index r = r\<lparr>cr_eei := remove_first (\<lambda>e. ee_send_idx e = msg_index r) (cr_eei r)\<rparr>"

text \<open>What a refusal does to the card. A card that the entry names and that is not in the list would be a dangling pointer.\<close>

definition refused_card :: "bool \<Rightarrow> cc_eei \<Rightarrow> cc_card \<Rightarrow> cc_reader \<Rightarrow> cc_reader" where
  "refused_card nok1 e c r =
     (if nok1 then cc_card_removed (cd_id c) r
      else if cr_cmd05NOK r then on_card (ee_card e) (add_sid_block (ee_srvid e)) (move_card_to_end (ee_card e) r)
      else if \<not> is_good_sid c (ee_srvid e) then on_card (ee_card e) (add_sid_block (ee_srvid e)) r
      else on_card (ee_card e) (remove_good_sid (ee_srvid e)) r)"

text \<open>What it does to the request: it is answered when the origin of the card is to be told, and otherwise tried again. The cards of a reader
  all have the reader as their origin.\<close>

definition refused_task :: "cc_env \<Rightarrow> bool \<Rightarrow> u16 \<Rightarrow> cc_reader \<Rightarrow> cc_reader" where
  "refused_task ev nok1 i r =
     (if env_forward ev then
        (case find (\<lambda>k. tk_idx (cr_tasks r ! k) = i) [0..<length (cr_tasks r)] of
           None \<Rightarrow> r
         | Some k \<Rightarrow>
             (let x = (if nok1 then E2_CCCAM_NOK1 else E2_CCCAM_NOK2) in
              emit (Answered k 0 x) ((put_task k ((cr_tasks r ! k)\<lparr>tk_rc := 0, tk_rcEx := x\<rparr>) r)\<lparr>cr_pending := cr_pending r - 1\<rparr>)))
      else r\<lparr>cr_tasks := cc_reset_pending i (cr_tasks r)\<rparr>)"

definition refused :: "cc_env \<Rightarrow> bool \<Rightarrow> cc_reader \<Rightarrow> cc_reader option" where
  "refused ev nok1 r = (case get_extended_ecm_idx (msg_index r) (cr_eei r) of
     None \<Rightarrow> Some (r\<lparr>cr_cmd05NOK := False\<rparr>)
   | Some e \<Rightarrow> do {
       let r1 = (take_index r)\<lparr>cr_recv_ecmtask := uint (ee_ecm_idx e)\<rparr>;
       c \<leftarrow> card_at (ee_card e) (cr_cards r1);
       Some ((refused_task ev nok1 (ee_ecm_idx e) (refused_card nok1 e c r1))\<lparr>cr_cmd05NOK := False\<rparr>) })"

text \<open>After an answer the connection is free for the next request.\<close>

definition free_for_next :: "cc_reader \<Rightarrow> cc_reader" where
  "free_for_next r = (if cr_extended r then r else r\<lparr>cr_available := True, cr_busy := False\<rparr>)"

text \<open>A refusal right after the login gives -1, and the connection is closed.\<close>

definition msg_nok :: "cc_env \<Rightarrow> timeb \<Rightarrow> bool \<Rightarrow> cc_reader \<Rightarrow> (bool \<times> cc_reader) option" where
  "msg_nok ev now nok1 r =
     (let r1 = r\<lparr>cr_recv_ecmtask := -1\<rparr> in
      if cr_just_logged_in r1 then Some (False, r1)
      else do {
        r2 \<leftarrow> refused ev nok1 r1;
        r3 \<leftarrow> cc_send_ecm ev now None (free_for_next r2);
        Some (True, r3) })"

section \<open>Control words\<close>

text \<open>The ciphers of the connection. A word that arrives without the extended mode is decrypted in three steps, and the cipher of the
  connection then takes in the payload as it is in the buffer.\<close>

record ('k1, 'k2, 'k3) cc_link =
  lk_decrypt :: cc_crypt_block
  lk_cmd0c :: "('k1, 'k2, 'k3) cmd0c"
  lk_node :: u64

definition decode_cw ::
  "('k1, 'k2, 'k3) ciphers \<Rightarrow> bool \<Rightarrow> u32 \<Rightarrow> u8 list \<Rightarrow> ('k1, 'k2, 'k3) cc_link \<Rightarrow> (u8 list \<times> ('k1, 'k2, 'k3) cc_link) option" where
  "decode_cw ci ext cardid d lk =
     (if length d < 16 then None
      else if ext then Some (take 16 d, lk)
      else do {
        (cw, k) \<leftarrow> cc_crypt_cmd0c ci (lk_cmd0c lk) (cc_cw_crypt (lk_node lk) (take 16 d) cardid);
        Some (cw, lk\<lparr>lk_cmd0c := k, lk_decrypt := snd (cc_crypt (lk_decrypt lk) (cw @ drop 16 d) ENCRYPT)\<rparr>) })"

definition is_null_dcw :: "u8 list \<Rightarrow> bool" where
  "is_null_dcw dcw \<longleftrightarrow> list_all (\<lambda>b. b = 0) (take 15 dcw)"

text \<open>The time since the ECM was sent, in milliseconds.\<close>

definition resp_time :: "timeb \<Rightarrow> timeb \<Rightarrow> u32" where
  "resp_time now t = word_of_int (1000 * (tb_time now - tb_time t) + tb_millitm now - tb_millitm t)"

text \<open>The word is taken, or, when it is null, handled like a refusal.\<close>

definition take_cw :: "cc_env \<Rightarrow> timeb \<Rightarrow> cc_eei \<Rightarrow> u8 list \<Rightarrow> cc_reader \<Rightarrow> u8 \<times> cc_reader" where
  "take_cw ev now e dcw r =
     (let r1 = r\<lparr>cr_dcw := dcw\<rparr> in
      if is_null_dcw dcw then
        (let r2 = on_card (ee_card e) (add_sid_block (ee_srvid e)) r1 in
         (MSG_CW_NOK2, r2\<lparr>cr_tasks := cc_reset_pending (ee_ecm_idx e) (cr_tasks r2)\<rparr>))
      else
        (let r2 = on_card (ee_card e) (add_good_sid (ee_srvid e)) r1 in
         (MSG_CW_ECM,
          if env_ftimeout ev < resp_time now (cr_ecm_time r2) \<and> \<not> cr_extended r2 then move_card_to_end (ee_card e) r2 else r2)))"

definition msg_cw ::
  "('k1, 'k2, 'k3) ciphers \<Rightarrow> cc_env \<Rightarrow> timeb \<Rightarrow> u8 list \<Rightarrow> cc_reader \<times> ('k1, 'k2, 'k3) cc_link \<Rightarrow> (u8 \<times> cc_reader \<times> ('k1, 'k2, 'k3) cc_link) option" where
  "msg_cw ci ev now d st =
     (let r = (fst st)\<lparr>cr_just_logged_in := False, cr_recv_ecmtask := -1\<rparr> in do {
        (b, r1, lk) \<leftarrow> (case get_extended_ecm_idx (msg_index r) (cr_eei r) of
            None \<Rightarrow> Some (MSG_CW_ECM, r, snd st)
          | Some e \<Rightarrow> do {
              let r1 = (take_index r)\<lparr>cr_recv_ecmtask := uint (ee_ecm_idx e)\<rparr>;
              c \<leftarrow> card_at (ee_card e) (cr_cards r1);
              (dcw, lk) \<leftarrow> decode_cw ci (cr_extended r1) (cd_id c) d (snd st);
              let (b, r2) = take_cw ev now e dcw r1;
              Some (b, r2, lk) });
        r2 \<leftarrow> cc_send_ecm ev now None (free_for_next r1);
        Some (b, r2\<lparr>cr_ecm_counter := (if cr_max_ecms r2 = 0 then cr_ecm_counter r2 else cr_ecm_counter r2 + 1)\<rparr>, lk) })"

text \<open>What the module reports for a message: the request and its result.\<close>

definition cc_recv_chk :: "cc_env \<Rightarrow> u8 \<Rightarrow> cc_reader \<Rightarrow> int \<times> (nat \<times> u8 list) option" where
  "cc_recv_chk ev b r =
     (if b = MSG_CW_ECM then (cr_recv_ecmtask r, Some (1, cr_dcw r))
      else if b = MSG_CW_NOK1 \<or> b = MSG_CW_NOK2 then ((if env_forward ev then cr_recv_ecmtask r else -1), Some (0, []))
      else (-1, None))"

section \<open>The partner at the other end\<close>

definition ascii :: "string \<Rightarrow> u8 list" where
  "ascii s = map of_char s"

text \<open>The identity of the server: the last two bytes are a checksum of the others.\<close>

definition node_sum :: "u8 list \<Rightarrow> u16" where
  "node_sum bs = foldl (\<lambda>s b. s + ucast b) 0x1234 bs"

definition peer_is_oscam :: "u8 list \<Rightarrow> bool" where
  "peer_is_oscam node \<longleftrightarrow> node_sum (take 6 node) = push_bit 8 (ucast (node ! 6)) OR ucast (node ! 7)"

text \<open>\<open>rnd\<close> gives the first four bytes.\<close>

definition fresh_nodeid :: "u8 list \<Rightarrow> u8 list" where
  "fresh_nodeid rnd =
     (let n5 = take 4 rnd @ [0x10]; n6 = n5 @ [foldl (XOR) 0xAA n5]; sum = node_sum n6 in n6 @ be2 sum)"

definition cc_update_nodeid :: "bool \<Rightarrow> u8 list \<Rightarrow> u8 list \<Rightarrow> u8 list" where
  "cc_update_nodeid use_fixed fixed rnd = (if use_fixed \<and> list_ex (\<lambda>b. b \<noteq> 0) (take 8 fixed) then take 8 fixed else fresh_nodeid rnd)"

text \<open>\<open>strtok_r\<close>: the next token and the rest.\<close>

definition strtok :: "u8 list \<Rightarrow> u8 list \<Rightarrow> (u8 list \<times> u8 list) option" where
  "strtok delim s =
     (let s1 = dropWhile (\<lambda>b. b \<in> set delim) s in
      if s1 = [] then None else Some (takeWhile (\<lambda>b. b \<notin> set delim) s1, drop 1 (dropWhile (\<lambda>b. b \<notin> set delim) s1)))"

lemma strtok_shorter: "strtok delim s = Some (t, s') \<Longrightarrow> length s' < length s"
proof -
  assume a: "strtok delim s = Some (t, s')"
  define s1 where "s1 = dropWhile (\<lambda>b. b \<in> set delim) s"
  have "s1 \<noteq> []" "s' = drop 1 (dropWhile (\<lambda>b. b \<notin> set delim) s1)" "length s1 \<le> length s"
    using a by (auto simp: strtok_def Let_def s1_def length_dropWhile_le split: if_splits)
  moreover have "length (dropWhile (\<lambda>b. b \<notin> set delim) s1) \<le> length s1" by (rule length_dropWhile_le)
  ultimately show ?thesis by (cases s1) auto
qed

text \<open>The parameters between brackets: the modes \<open>EXT\<close> and \<open>SID\<close> that the partner knows.\<close>

record cc_params =
  pa_ext :: bool
  pa_sid :: bool
  pa_any :: bool

function param_loop :: "u8 list \<Rightarrow> cc_params \<Rightarrow> cc_params" where
  "param_loop s p = (case strtok (ascii '',]'') s of
     None \<Rightarrow> p
   | Some (t, s') \<Rightarrow>
       param_loop s'
         (if take 3 t = ascii ''EXT'' then p\<lparr>pa_ext := True, pa_any := True\<rparr>
          else if take 3 t = ascii ''SID'' then p\<lparr>pa_sid := True, pa_any := True\<rparr> else p))"
  by pat_completeness auto
termination by (relation "measure (\<lambda>(s, p). length s)") (auto dest: strtok_shorter)

declare param_loop.simps [simp del]

definition check_extended_mode :: "u8 list \<Rightarrow> cc_params \<Rightarrow> cc_params" where
  "check_extended_mode msg p = (case strtok (ascii ''['') msg of None \<Rightarrow> p | Some (_, rest) \<Rightarrow> param_loop rest p)"

definition addParam :: "u8 list \<Rightarrow> u8 list \<Rightarrow> u8 list" where
  "addParam param value = (if length param < 4 then param @ value else param @ ascii '','' @ value)"

definition partner_params :: "cc_params \<Rightarrow> u8 list" where
  "partner_params p =
     (if \<not> pa_any p then []
      else
        (let p1 = ascii '' [''; p2 = (if pa_ext p then addParam p1 (ascii ''EXT'') else p1);
             p3 = (if pa_sid p then addParam p2 (ascii ''SID'') else p2) in p3 @ ascii '']''))"

text \<open>The string that names the program, cut to the 255 bytes of its buffer, with its final zero.\<close>

definition partner_token :: "cc_env \<Rightarrow> u8 list \<Rightarrow> u8 list" where
  "partner_token ev params = take 255 (ascii ''PARTNER: '' @ env_version ev @ params) @ [0]"

definition msg_partner :: "cc_env \<Rightarrow> u8 list \<Rightarrow> cc_reader \<Rightarrow> cc_reader option" where
  "msg_partner ev d r =
     (if 0 \<notin> set d then None
      else
        (let text = takeWhile (\<lambda>b. b \<noteq> 0) d in
         if take 8 text \<noteq> ascii ''PARTNER:'' then Some r
         else
           (let p = check_extended_mode text \<lparr>pa_ext = cr_extended r, pa_sid = cr_sidinfo r, pa_any = False\<rparr>;
                r1 = r\<lparr>cr_extended := pa_ext p, cr_sidinfo := pa_sid p\<rparr> in
            Some (if cr_is_oscam r1 then r1
                  else emit (Sent (cr_flag r1) MSG_CW_NOK1 (partner_token ev (partner_params p))) (r1\<lparr>cr_is_oscam := True\<rparr>)))))"

section \<open>The data of the server\<close>

definition slice :: "nat \<Rightarrow> nat \<Rightarrow> u8 list \<Rightarrow> u8 list option" where
  "slice i n b = (if i + n \<le> length b then Some (take n (drop i b)) else None)"

text \<open>72 bytes are the server's identity; shorter messages choose the way in which command 05 is answered. The bytes come from the receive
  buffer, which keeps what longer messages left behind.\<close>

definition srv_identity :: "cc_env \<Rightarrow> cc_reader \<Rightarrow> cc_reader option" where
  "srv_identity ev r = do {
     node \<leftarrow> slice 0 8 (cr_buffer r);
     version \<leftarrow> slice 8 8 (cr_buffer r);
     let r1 = r\<lparr>cr_cards := [], cr_eei := [], cr_au := (cr_au r)\<lparr>au_card := None\<rparr>, cr_counts := replicate 7 0,
                cr_cmd0b_key := node @ version, cr_is_oscam := (cr_is_oscam r \<or> peer_is_oscam node)\<rparr>;
     let r2 = (if cr_is_oscam r1 then emit (Sent (cr_flag r1) MSG_CW_NOK1 (partner_token ev (ascii '' [EXT,SID]''))) r1 else r1);
     Some (r2\<lparr>cr_cmd05 := (cr_cmd05 r2)\<lparr>c5_mode := MODE_PLAIN\<rparr>\<rparr>) }"

definition msg_srv_data :: "cc_env \<Rightarrow> nat \<Rightarrow> cc_reader \<Rightarrow> cc_reader option" where
  "msg_srv_data ev l r =
     (let c = cr_cmd05 r; b = cr_buffer r in
      if l = 0x48 then srv_identity ev r
      else if l \<le> 0x0F then Some (r\<lparr>cr_cmd05 := c\<lparr>c5_offset := l\<rparr>\<rparr>)
      else if l \<le> 0x1F \<or> 0x24 \<le> l \<and> l \<le> 0x2B then do {
        key \<leftarrow> slice 0 l b;
        k \<leftarrow> cc_init_crypt key;
        Some (r\<lparr>cr_cmd05 := c\<lparr>c5_key := k, c5_mode := MODE_RC4_CRYPT\<rparr>\<rparr>) }
      else if l = 0x20 then do {
        key \<leftarrow> slice (c5_offset c) 16 b;
        Some (r\<lparr>cr_cmd05 := c\<lparr>c5_aeskey := key, c5_mode := MODE_AES\<rparr>\<rparr>) }
      else if l = 0x21 then do {
        key \<leftarrow> slice (c5_offset c) l b;
        k \<leftarrow> cc_init_crypt key;
        Some (r\<lparr>cr_cmd05 := c\<lparr>c5_key := k, c5_mode := MODE_CC_CRYPT\<rparr>\<rparr>) }
      else if l = 0x22 then Some (r\<lparr>cr_cmd05 := c\<lparr>c5_mode := MODE_PLAIN\<rparr>\<rparr>)
      else if l = 0x23 then Some (cc_cli_close (r\<lparr>cr_cmd05 := c\<lparr>c5_mode := MODE_UNKNOWN\<rparr>\<rparr>))
      else if l = 0x2C then do {
        key \<leftarrow> slice (env_pwd_len ev) 16 b;
        Some (r\<lparr>cr_cmd05 := c\<lparr>c5_aeskey := key, c5_mode := MODE_AES\<rparr>\<rparr>) }
      else if l = 0x2D then do {
        key \<leftarrow> slice (env_usr_len ev) 16 b;
        Some (r\<lparr>cr_cmd05 := c\<lparr>c5_aeskey := key, c5_mode := MODE_AES\<rparr>\<rparr>) }
      else Some r)"

text \<open>Command 05: the buffer for its payload has 256 bytes.\<close>

definition msg_cmd_05 :: "cc_env \<Rightarrow> u8 list \<Rightarrow> cc_reader \<Rightarrow> cc_reader option" where
  "msg_cmd_05 ev d r =
     (if 256 < length d then None
      else
        (let r1 = r\<lparr>cr_just_logged_in := False, cr_cmd05 := (cr_cmd05 r)\<lparr>c5_active := 1, c5_data := d\<rparr>\<rparr> in
         if cr_available r1 \<and> cr_cards r1 \<noteq> [] then send_cmd05_answer ev r1 else Some r1))"

definition MSG_CMD_0B :: u8 where "MSG_CMD_0B = 0x0B"

definition msg_cmd_0b :: "cc_env \<Rightarrow> u8 list \<Rightarrow> cc_reader \<Rightarrow> cc_reader option" where
  "msg_cmd_0b ev d r = do {
     b \<leftarrow> slice 0 16 d;
     Some (emit (Sent (cr_flag r) MSG_CMD_0B (env_aes ev (cr_cmd0b_key r) b)) r) }"

definition msg_emm_ack :: "cc_env \<Rightarrow> timeb \<Rightarrow> cc_reader \<Rightarrow> cc_reader option" where
  "msg_emm_ack ev now r = cc_send_ecm ev now None (free_for_next (r\<lparr>cr_just_logged_in := False\<rparr>))"

section \<open>Every message\<close>

definition MSG_KEEPALIVE :: u8 where "MSG_KEEPALIVE = 6"
definition MSG_SRV_DATA :: u8 where "MSG_SRV_DATA = 8"
definition MSG_CMD_0C :: u8 where "MSG_CMD_0C = 0x0C"
definition MSG_CMD_0D :: u8 where "MSG_CMD_0D = 0x0D"
definition MSG_CMD_0E :: u8 where "MSG_CMD_0E = 0x0E"

lemmas msg_defs = MSG_CW_ECM_def MSG_EMM_ACK_def MSG_CARD_REMOVED_def MSG_CMD_05_def MSG_KEEPALIVE_def MSG_NEW_CARD_def MSG_SRV_DATA_def
  MSG_CMD_0B_def MSG_CMD_0C_def MSG_CMD_0D_def MSG_CMD_0E_def MSG_NEW_CARD_SIDINFO_def MSG_CW_NOK1_def MSG_CW_NOK2_def

text \<open>After 50 control words, or what \<open>cr_max_ecms\<close> says, the connection starts anew.\<close>

definition after_msg :: "cc_reader \<Rightarrow> cc_reader" where
  "after_msg r = (if cr_max_ecms r \<noteq> 0 \<and> cr_max_ecms r < cr_ecm_counter r then cc_cli_close r else r)"

type_synonym ('k1, 'k2, 'k3) cc_state = "cc_reader \<times> ('k1, 'k2, 'k3) cc_link"

text \<open>The result: -1 or not, the kind of message that \<open>cc_recv_chk\<close> sees afterwards, and the state.\<close>

definition parse_rest ::
  "('k1, 'k2, 'k3) ciphers \<Rightarrow> cc_env \<Rightarrow> timeb \<Rightarrow> u8 \<Rightarrow> u8 list \<Rightarrow> ('k1, 'k2, 'k3) cc_state \<Rightarrow> (u8 \<times> ('k1, 'k2, 'k3) cc_state) option" where
  "parse_rest ci ev now b d st =
     (let r = fst st; lk = snd st; only = map_option (\<lambda>r'. (b, r', lk)) in
      if b = MSG_SRV_DATA then only (msg_srv_data ev (length d) r)
      else if b = MSG_NEW_CARD \<or> b = MSG_NEW_CARD_SIDINFO then only (msg_new_card ev (b = MSG_NEW_CARD_SIDINFO) d r)
      else if b = MSG_CARD_REMOVED then only (msg_card_removed d r)
      else if b = MSG_CW_ECM then msg_cw ci ev now d st
      else if b = MSG_KEEPALIVE then Some (b, r\<lparr>cr_just_logged_in := False\<rparr>, lk)
      else if b = MSG_CMD_05 then only (msg_cmd_05 ev d r)
      else if b = MSG_CMD_0B then only (msg_cmd_0b ev d r)
      else if b = MSG_CMD_0C then map_option (\<lambda>k. (b, r, lk\<lparr>lk_cmd0c := k\<rparr>)) (cmd_0c ci (lk_cmd0c lk) d)
      else if b = MSG_CMD_0D then map_option (\<lambda>k. (b, r, lk\<lparr>lk_cmd0c := k\<rparr>)) (cmd_0d ci (lk_cmd0c lk) d)
      else if b = MSG_CMD_0E then Some (b, cc_cli_close r, lk)
      else if b = MSG_EMM_ACK then only (msg_emm_ack ev now r)
      else Some (b, r, lk))"

definition cc_parse_msg ::
  "('k1, 'k2, 'k3) ciphers \<Rightarrow> cc_env \<Rightarrow> timeb \<Rightarrow> u8 list \<Rightarrow> ('k1, 'k2, 'k3) cc_state \<Rightarrow> (bool \<times> u8 \<times> ('k1, 'k2, 'k3) cc_state) option" where
  "cc_parse_msg ci ev now m st =
     (let b = m ! 1; d = drop 4 m; lk = snd st;
          r = (fst st)\<lparr>cr_flag := m ! 0, cr_last_msg := b, cr_buffer := d @ drop (length d) (cr_buffer (fst st))\<rparr> in
      if b = MSG_CW_NOK1 \<or> b = MSG_CW_NOK2 then
        (if d \<noteq> [] then map_option (\<lambda>r'. (True, b, r', lk)) (msg_partner ev d r)
         else map_option (\<lambda>(ok, r'). (ok, b, (if ok then after_msg r' else r'), lk)) (msg_nok ev now (b = MSG_CW_NOK1) r))
      else map_option (\<lambda>(b', r', lk'). (True, b', after_msg r', lk')) (parse_rest ci ev now b d (r, lk)))"

text \<open>A decrypted message, as \<open>cc_recv\<close> handles it; one that fails closes the connection.\<close>

definition cc_recv ::
  "('k1, 'k2, 'k3) ciphers \<Rightarrow> cc_env \<Rightarrow> timeb \<Rightarrow> u8 list \<Rightarrow> ('k1, 'k2, 'k3) cc_state \<Rightarrow> (int \<times> u8 \<times> ('k1, 'k2, 'k3) cc_state) option" where
  "cc_recv ci ev now m st =
     (if length m < 4 then Some (-1, 0, cc_cli_close (fst st), snd st)
      else map_option (\<lambda>(ok, b, r, lk). if ok then (uint (m ! 1), b, r, lk) else (-1, b, cc_cli_close r, lk)) (cc_parse_msg ci ev now m st))"

end
