(* ===== verification/CCinv.thy ===== *)
theory CCinv
  imports CCmsg
begin

unbundle bit_operations_syntax

text \<open>
  The reader of a CCcam connection over its whole life: the pointers to cards that its tables hold are never dangling, the indices on the wire
  are unique, the counters of cards are right, and no event leaves the arrays. The events are the messages of the server, ECMs and EMMs to
  be sent, and the changes that the other parts of the program make to the pending requests.
\<close>

section \<open>EMMs to be sent\<close>

text \<open>\<open>cc_send_emm\<close> puts the message together: \<open>caid\<close>, \<open>provid\<close> and \<open>emm\<close> are those of the EMM, \<open>c\<close> is the card.\<close>

definition emm_message :: "u8 list \<Rightarrow> u8 list \<Rightarrow> cc_card \<Rightarrow> u8 list \<Rightarrow> u8 list" where
  "emm_message caid provid c emm =
     take 2 caid @ [of_nat (length emm div 256)] @ take 4 provid @ be4 (cd_id c) @ [of_nat (length emm)] @ emm"

definition get_card_by_hexserial :: "u8 list \<Rightarrow> u16 \<Rightarrow> cc_card list \<Rightarrow> cc_card option" where
  "get_card_by_hexserial hs caid cs = find (\<lambda>c. cd_caid c = caid \<and> take 8 (cd_hexserial c) = take 8 hs) cs"

text \<open>The result is false when the EMM was not taken. The card used last is a pointer into the list.\<close>

definition cc_send_emm :: "cc_env \<Rightarrow> timeb \<Rightarrow> u8 list \<Rightarrow> u8 list \<Rightarrow> u8 list \<Rightarrow> u8 list \<Rightarrow> cc_reader \<Rightarrow> (bool \<times> cc_reader) option" where
  "cc_send_emm ev now caid provid hexserial emm r =
     (let r0 = (if cr_connected r = 0 then env_connect ev r else r) in
      if cr_connected r0 = 0 then Some (False, r0)
      else if au_disabled (cr_au r0) then Some (False, r0)
      else do {
        id \<leftarrow> map_option ucast (b2i 2 caid);
        c \<leftarrow> (case au_card (cr_au r0) of
            Some a \<Rightarrow> map_option Some (card_at a (cr_cards r0))
          | None \<Rightarrow> map_option (\<lambda>hs. get_card_by_hexserial hs id (cr_cards r0)) (cc_UA_oscam2cccam hexserial id));
        (case c of
           None \<Rightarrow> Some (False, r0)
         | Some x \<Rightarrow> do {
             (sent, r1) \<leftarrow> cc_send_pending_emms now (r0\<lparr>cr_emms := cr_emms r0 @ [emm_message caid provid x emm]\<rparr>);
             Some (True, r1) }) })"

section \<open>The invariant\<close>

definition emm_wf :: "u8 list \<Rightarrow> bool" where
  "emm_wf m \<longleftrightarrow> 12 \<le> length m \<and> 256 * unat (m ! 2) + unat (m ! 11) + 12 \<le> length m"

definition in_slot :: "nat \<Rightarrow> cc_card \<Rightarrow> bool" where
  "in_slot k c \<longleftrightarrow> hop_slot c = k \<or> reshare_slot c = k"

definition counts_ok :: "cc_card list \<Rightarrow> int list \<Rightarrow> bool" where
  "counts_ok cs ns \<longleftrightarrow> ns = map (\<lambda>k. int (length (filter (in_slot k) cs))) [0..<7]"

definition cards_ok :: "nat \<Rightarrow> cc_card list \<Rightarrow> bool" where
  "cards_ok next cs \<longleftrightarrow> distinct (map cd_ref cs) \<and> distinct (map cd_id cs) \<and> list_all (\<lambda>c. cd_ref c < next \<and> length (cd_hexserial c) = 8) cs"

text \<open>The invariant as a fact about the parts it speaks of.\<close>

definition cc_inv :: "nat \<Rightarrow> cc_card list \<Rightarrow> cc_eei list \<Rightarrow> int list \<Rightarrow> nat option \<Rightarrow> u8 list list \<Rightarrow> bool" where
  "cc_inv next cs es ns au emms \<longleftrightarrow> cards_ok next cs \<and> distinct (map ee_send_idx es) \<and> list_all (\<lambda>e. ee_card e \<in> cd_ref ` set cs) es \<and>
     counts_ok cs ns \<and> (case au of None \<Rightarrow> True | Some a \<Rightarrow> a \<in> cd_ref ` set cs) \<and> list_all emm_wf emms"

definition cc_ok :: "cc_reader \<Rightarrow> bool" where
  "cc_ok r \<longleftrightarrow> cc_inv (cr_next r) (cr_cards r) (cr_eei r) (cr_counts r) (au_card (cr_au r)) (cr_emms r)"

named_theorems ok

text \<open>Operations that change other parts only.\<close>

lemma ok_1 [ok]: "cc_ok (put_task i t r) = cc_ok r" by (simp add: cc_ok_def put_task_def)
lemma ok_2 [ok]: "cc_ok (emit x r) = cc_ok r" by (simp add: cc_ok_def emit_def)
lemma ok_3 [ok]: "cc_ok (cc_cli_close r) = cc_ok r" by (simp add: cc_ok_def emit_def cc_cli_close_def)
lemma ok_4 [ok]: "cc_ok (begin_round now r) = cc_ok r" by (simp add: cc_ok_def begin_round_def)
lemma ok_5 [ok]: "cc_ok (take_task n r) = cc_ok r" by (simp add: ok take_task_def)
lemma ok_6 [ok]: "cc_ok (free_for_next r) = cc_ok r" by (simp add: cc_ok_def free_for_next_def)
lemma ok_7 [ok]: "cc_ok (after_msg r) = cc_ok r" by (simp add: after_msg_def ok)

lemma ok_8 [ok]: "cc_ok (r\<lparr>cr_pending := x1\<rparr>) = cc_ok r" "cc_ok (r\<lparr>cr_tasks := x2\<rparr>) = cc_ok r" "cc_ok (r\<lparr>cr_recv_ecmtask := x3\<rparr>) = cc_ok r"
  "cc_ok (r\<lparr>cr_cmd05NOK := x4\<rparr>) = cc_ok r" "cc_ok (r\<lparr>cr_just_logged_in := x5\<rparr>) = cc_ok r" "cc_ok (r\<lparr>cr_busy := x6\<rparr>) = cc_ok r"
  "cc_ok (r\<lparr>cr_ecm_counter := x7\<rparr>) = cc_ok r" "cc_ok (r\<lparr>cr_dcw := x8\<rparr>) = cc_ok r" "cc_ok (r\<lparr>cr_cmd05 := x9\<rparr>) = cc_ok r"
  "cc_ok (r\<lparr>cr_max_ecms := x10\<rparr>) = cc_ok r" "cc_ok (r\<lparr>cr_available := x11\<rparr>) = cc_ok r" "cc_ok (r\<lparr>cr_ecm_time := x12\<rparr>) = cc_ok r"
  "cc_ok (r\<lparr>cr_connected := x13\<rparr>) = cc_ok r" "cc_ok (r\<lparr>cr_extended := x14\<rparr>) = cc_ok r" "cc_ok (r\<lparr>cr_sidinfo := x15\<rparr>) = cc_ok r"
  "cc_ok (r\<lparr>cr_is_oscam := x16\<rparr>) = cc_ok r" "cc_ok (r\<lparr>cr_flag := x17\<rparr>) = cc_ok r" "cc_ok (r\<lparr>cr_last_msg := x18\<rparr>) = cc_ok r"
  "cc_ok (r\<lparr>cr_buffer := x19\<rparr>) = cc_ok r" "cc_ok (r\<lparr>cr_hops := x20\<rparr>) = cc_ok r" "cc_ok (r\<lparr>cr_server_idx := x21\<rparr>) = cc_ok r"
  by (simp_all add: cc_ok_def)

text \<open>Changing a card in place.\<close>

definition same_shape :: "(cc_card \<Rightarrow> cc_card) \<Rightarrow> bool" where
  "same_shape f \<longleftrightarrow> (\<forall>c. cd_ref (f c) = cd_ref c \<and> cd_id (f c) = cd_id c \<and> cd_hexserial (f c) = cd_hexserial c \<and>
     cd_hop (f c) = cd_hop c \<and> cd_reshare (f c) = cd_reshare c)"

lemma shape_sids [simp]: "same_shape (add_sid_block s)" "same_shape (remove_good_sid s)" "same_shape (add_good_sid s)"
  by (simp_all add: same_shape_def add_sid_block_def remove_good_sid_def add_good_sid_def remove_sid_block_def)

lemma shape_if [simp]: "same_shape f \<Longrightarrow> same_shape (\<lambda>c. if P c then f c else c)"
  by (simp add: same_shape_def)

lemma in_slot_shape: "same_shape f \<Longrightarrow> in_slot k (f c) = in_slot k c"
  by (simp add: same_shape_def in_slot_def hop_slot_def reshare_slot_def)

lemma inv_map:
  assumes "same_shape f"
  shows "cc_inv n (map f cs) es ns au emms = cc_inv n cs es ns au emms"
proof -
  have m: "map cd_ref (map f cs) = map cd_ref cs" "map cd_id (map f cs) = map cd_id cs" "cd_ref ` set (map f cs) = cd_ref ` set cs"
    using assms by (simp_all add: same_shape_def image_image)
  have "cards_ok n (map f cs) = cards_ok n cs"
    unfolding cards_ok_def m using assms by (simp add: same_shape_def list_all_iff)
  moreover have "counts_ok (map f cs) ns = counts_ok cs ns"
    using assms by (simp add: counts_ok_def filter_map comp_def in_slot_shape)
  ultimately show ?thesis unfolding cc_inv_def m by simp
qed

lemma on_card_ok [ok]: "same_shape f \<Longrightarrow> cc_ok (on_card a f r) = cc_ok r"
  using inv_map [of "\<lambda>c. if cd_ref c = a then f c else c"] by (simp add: on_card_def cc_ok_def)

lemma no_card_ok [ok]: "cc_ok (no_card n t r) = cc_ok r"
proof -
  let ?f = "\<lambda>c. if cd_caid c = tk_caid t then c\<lparr>cd_badsids := filter (\<lambda>s. \<not> (0 < sv_ecmlen s \<and> sid_eq s (task_srvid t))) (cd_badsids c)\<rparr> else c"
  have "same_shape ?f" by (simp add: same_shape_def)
  from inv_map [OF this] show ?thesis by (simp add: no_card_def Let_def ok) (simp add: cc_ok_def emit_def put_task_def)
qed

lemma nxt_loop_only: "nxt_loop now limit is n p r = (n', p', r') \<Longrightarrow> \<exists>ts out. r' = r\<lparr>cr_tasks := ts, cr_out := out\<rparr>"
proof (induction "is" arbitrary: n p r)
  case (Cons i "is")
  have step: "\<exists>ts out. r' = r\<lparr>cr_tasks := ts, cr_out := out\<rparr>" if "nxt_loop now limit is m q (emit x (put_task i y r)) = (n', p', r')" for m q x y
    using Cons.IH [OF that] by (auto simp: emit_def put_task_def)
  show ?case
    using Cons.prems step Cons.IH by (simp add: Let_def split: if_splits)
next
  case Nil
  then have "r' = r\<lparr>cr_tasks := cr_tasks r, cr_out := cr_out r\<rparr>" by simp
  then show ?case by blast
qed

lemma get_nxt_only: "cc_get_nxt_ecm now limit r = (n, r') \<Longrightarrow> \<exists>ts out p. r' = r\<lparr>cr_tasks := ts, cr_out := out, cr_pending := p\<rparr>"
  using nxt_loop_only [of now limit _ None 0 r] by (fastforce simp: cc_get_nxt_ecm_def split: prod.splits)

lemma get_nxt_ok: "cc_get_nxt_ecm now limit r = (n, r') \<Longrightarrow> cc_ok r' = cc_ok r"
  by (drule get_nxt_only) (auto simp: cc_ok_def)

text \<open>Cards that go.\<close>

definition without :: "nat \<Rightarrow> cc_card list \<Rightarrow> cc_card list" where
  "without a cs = filter (\<lambda>x. cd_ref x \<noteq> a) cs"

lemma without_refs: "cd_ref ` set (without a cs) = cd_ref ` set cs - {a}"
  by (auto simp: without_def)

lemma distinct_map_filter': "distinct (map f xs) \<Longrightarrow> distinct (map f (filter P xs))"
  by (rule distinct_map_filter)

lemma cards_ok_without: "cards_ok n cs \<Longrightarrow> cards_ok n (without a cs)"
  by (auto simp: cards_ok_def without_def distinct_map_filter list_all_iff)

lemma filter_without:
  "\<lbrakk>distinct (map cd_ref cs); c \<in> set cs\<rbrakk> \<Longrightarrow>
     length (filter P (without (cd_ref c) cs)) = length (filter P cs) - (if P c then 1 else 0)"
proof (induction cs)
  case (Cons d cs)
  show ?case
  proof (cases "d = c")
    case True
    then have "cd_ref x \<noteq> cd_ref c" if "x \<in> set cs" for x using Cons.prems(1) that by (metis image_eqI distinct.simps(2) list.map(2) list.set_map)
    then have "without (cd_ref c) cs = cs" by (simp add: without_def filter_id_conv)
    then show ?thesis using True by (simp add: without_def)
  next
    case False
    then have c: "c \<in> set cs" "cd_ref d \<noteq> cd_ref c" using Cons.prems by auto
    have pos: "0 < length (filter P cs)" if "P c" using that c(1) by (auto simp: filter_empty_conv)
    show ?thesis using Cons c pos by (auto simp: without_def)
  qed
qed simp

lemma slot_lt [simp]: "hop_slot c < 7" "reshare_slot c < 7" "hop_slot c \<noteq> reshare_slot c"
  by (auto simp: hop_slot_def reshare_slot_def)

lemma count_card_nth: "\<lbrakk>length ns = 7; k < 7\<rbrakk> \<Longrightarrow> count_card d c ns ! k = ns ! k + (if in_slot k c then d else 0)"
  using slot_lt(3) [of c] by (auto simp: count_card_def Let_def in_slot_def nth_list_update)

lemma length_count_card [simp]: "length (count_card d c ns) = length ns"
  by (simp add: count_card_def Let_def)

lemma counts_ok_iff: "counts_ok cs ns \<longleftrightarrow> length ns = 7 \<and> (\<forall>k < 7. ns ! k = int (length (filter (in_slot k) cs)))"
  by (auto simp: counts_ok_def intro!: nth_equalityI)

lemma counts_ok_without:
  assumes "counts_ok cs ns" "distinct (map cd_ref cs)" "c \<in> set cs"
  shows "counts_ok (without (cd_ref c) cs) (count_card (-1) c ns)"
proof -
  have pos: "1 \<le> length (filter (in_slot k) cs)" if "in_slot k c" for k
    using assms(3) that by (auto simp: Suc_le_eq filter_empty_conv)
  show ?thesis using assms pos by (auto simp: counts_ok_iff count_card_nth filter_without of_nat_diff)
qed

lemma counts_ok_append: "counts_ok cs ns \<Longrightarrow> counts_ok (cs @ [c]) (count_card 1 c ns)"
  by (auto simp: counts_ok_iff count_card_nth)

lemma inv_remove:
  assumes "cc_inv n cs es ns au emms" "c \<in> set cs"
  shows "cc_inv n (without (cd_ref c) cs) (filter (\<lambda>e. ee_card e \<noteq> cd_ref c) es) (count_card (-1) c ns)
    (if au = Some (cd_ref c) then None else au) emms"
proof -
  have "distinct (map cd_ref cs)" using assms(1) by (simp add: cc_inv_def cards_ok_def)
  then show ?thesis using assms cards_ok_without counts_ok_without
    by (auto simp: cc_inv_def without_refs list_all_iff distinct_map_filter split: option.splits)
qed

lemma remove_card_ok: "\<lbrakk>cc_ok r; c \<in> set (cr_cards r)\<rbrakk> \<Longrightarrow> cc_ok (remove_card c r)"
  using inv_remove [of "cr_next r" "cr_cards r" "cr_eei r" "cr_counts r" "au_card (cr_au r)" "cr_emms r" c]
  by (auto simp: cc_ok_def remove_card_def free_extended_ecm_idx_by_card_def Let_def without_def)

lemma remove_card_cards: "cr_cards (remove_card c r) = without (cd_ref c) (cr_cards r)"
  by (simp add: remove_card_def free_extended_ecm_idx_by_card_def Let_def without_def)

lemma cards_removed_ok:
  "\<lbrakk>cc_ok r; set ds \<subseteq> set (cr_cards r); distinct (map cd_ref ds)\<rbrakk> \<Longrightarrow> cc_ok (fold remove_card ds r)"
proof (induction ds arbitrary: r)
  case (Cons d ds)
  have "cd_ref x \<noteq> cd_ref d" if "x \<in> set ds" for x using Cons.prems(3) that by (metis image_eqI distinct.simps(2) list.map(2) list.set_map)
  then have "set ds \<subseteq> set (cr_cards (remove_card d r))" using Cons.prems by (auto simp: remove_card_cards without_def)
  then show ?case using Cons remove_card_ok by simp
qed simp

lemma cc_card_removed_ok: "cc_ok r \<Longrightarrow> cc_ok (cc_card_removed i r)"
  unfolding cc_card_removed_def
  by (rule cards_removed_ok) (auto simp: cc_ok_def cc_inv_def cards_ok_def distinct_map_filter)

lemma inv_to_end:
  assumes "cc_inv n cs es ns au emms" "c \<in> set cs"
  shows "cc_inv n (without (cd_ref c) cs @ [c]) (filter (\<lambda>e. ee_card e \<noteq> cd_ref c) es) ns au emms"
proof -
  have d: "distinct (map cd_ref cs)" "distinct (map cd_id cs)" using assms(1) by (simp_all add: cc_inv_def cards_ok_def)
  have "cards_ok n (without (cd_ref c) cs @ [c])"
    using assms d cards_ok_without [of n cs "cd_ref c"]
    by (auto simp: cc_inv_def cards_ok_def without_def list_all_iff distinct_map inj_on_def)
  moreover have "counts_ok (without (cd_ref c) cs @ [c]) ns"
  proof -
    have pos: "1 \<le> length (filter (in_slot k) cs)" if "in_slot k c" for k
      using assms(2) that by (auto simp: Suc_le_eq filter_empty_conv)
    show ?thesis using assms d pos by (auto simp: cc_inv_def counts_ok_iff filter_without of_nat_diff)
  qed
  moreover have "cd_ref ` set (without (cd_ref c) cs @ [c]) = cd_ref ` set cs" using assms(2) by (auto simp: without_def)
  ultimately show ?thesis using assms unfolding cc_inv_def by (simp only:) (auto simp: list_all_iff distinct_map_filter)
qed

lemma card_at_Some: "card_at a cs = Some c \<Longrightarrow> c \<in> set cs \<and> cd_ref c = a"
  by (auto simp: card_at_def find_Some_iff)

lemma card_at_ok: "a \<in> cd_ref ` set cs \<Longrightarrow> \<exists>c. card_at a cs = Some c"
  by (cases "card_at a cs") (auto simp: card_at_def find_None_iff)

lemma move_card_ok: "cc_ok r \<Longrightarrow> cc_ok (move_card_to_end a r)"
proof (cases "card_at a (cr_cards r)")
  case (Some c)
  assume "cc_ok r"
  with Some card_at_Some [OF Some] show ?thesis
    using inv_to_end [of "cr_next r" "cr_cards r" "cr_eei r" "cr_counts r" "au_card (cr_au r)" "cr_emms r" c]
    by (auto simp: cc_ok_def move_card_to_end_def free_extended_ecm_idx_by_card_def Let_def without_def)
qed (simp add: move_card_to_end_def)

lemma find_first_None: "find P [0..<n] = None \<longleftrightarrow> (\<forall>k < n. \<not> P k)"
  by (auto simp: find_None_iff)

lemma put_eei_ok:
  assumes "distinct (map ee_send_idx es)"
  shows "distinct (map ee_send_idx (put_eei e es))" "set (put_eei e es) \<subseteq> insert e (set es)" "e \<in> set (put_eei e es)"
proof -
  have "distinct (map ee_send_idx (put_eei e es)) \<and> set (put_eei e es) \<subseteq> insert e (set es) \<and> e \<in> set (put_eei e es)"
  proof (cases "find (\<lambda>k. ee_send_idx (es ! k) = ee_send_idx e) [0..<length es]")
    case None
    then have "ee_send_idx e \<notin> set (map ee_send_idx es)" by (auto simp: find_None_iff in_set_conv_nth)
    then show ?thesis using assms None by (auto simp: put_eei_def add_extended_ecm_idx_def)
  next
    case (Some k)
    then have k: "k < length es" "ee_send_idx (es ! k) = ee_send_idx e" by (auto simp: find_Some_iff)
    then have "map ee_send_idx (es[k := e]) = map ee_send_idx es" by (metis list_update_id length_map map_update nth_map)
    then show ?thesis using assms Some k by (auto simp: put_eei_def set_update_subset_insert set_update_memI dest!: set_update_subset_insert [THEN subsetD])
  qed
  then show "distinct (map ee_send_idx (put_eei e es))" "set (put_eei e es) \<subseteq> insert e (set es)" "e \<in> set (put_eei e es)" by simp_all
qed

section \<open>Sending keeps it\<close>

lemma length_UA_left_loop:
  "\<lbrakk>length inp = 8; ofs + len \<le> 8; len \<le> orglen; length out = orglen; ofs + maxlen = 8\<rbrakk> \<Longrightarrow>
     length (UA_left_loop inp orglen ofs maxlen len out) = orglen"
proof (induction inp orglen ofs maxlen len out rule: UA_left_loop.induct)
  case (1 inp orglen ofs maxlen len out)
  show ?case
  proof (cases "len = 0 \<or> maxlen = 0")
    case False
    define out' where "out' = take len (drop ofs inp) @ replicate (orglen - len) 0"
    have l: "length out' = orglen" using 1 by (simp add: out'_def)
    show ?thesis
    proof (cases "out' ! 0 \<noteq> 0")
      case True
      then show ?thesis using False l by (subst UA_left_loop.simps) (simp add: Let_def out'_def)
    next
      case N: False
      have "length (UA_left_loop inp orglen (ofs + 1) (maxlen - 1) (min len (maxlen - 1)) out') = orglen"
        by (rule "1.IH" [OF False out'_def N]) (use 1 False l in auto)
      then show ?thesis using False N by (subst UA_left_loop.simps) (simp add: Let_def out'_def)
    qed
  qed (use 1 in \<open>simp add: UA_left_loop.simps\<close>)
qed

lemma ua_defined:
  assumes "length hs = 8"
  shows "\<exists>x. cc_UA_cccam2oscam hs caid = Some x"
proof -
  have "length (UA_left hs (8 - get_UA_ofs caid) (replicate (8 - get_UA_ofs caid) 0)) = 8 - get_UA_ofs caid"
    unfolding UA_left_def by (rule length_UA_left_loop) (use assms in auto)
  moreover have "get_UA_ofs caid \<le> 2" by (simp add: get_UA_ofs_def Let_def)
  ultimately show ?thesis by (simp add: cc_UA_cccam2oscam_def newcamd_to_hexserial_def memcpy_def Let_def)
qed

lemma set_au_ok:
  assumes "cc_ok r" "c \<in> set (cr_cards r)"
  shows "\<exists>r'. set_au_data c prid r = Some r' \<and> cc_ok r'"
proof (cases "au_disabled (cr_au r) \<or> \<not> cc_UA_valid (cd_hexserial c)")
  case False
  have "length (cd_hexserial c) = 8" using assms by (auto simp: cc_ok_def cc_inv_def cards_ok_def list_all_iff)
  from ua_defined [OF this] obtain hs where hs: "cc_UA_cccam2oscam (cd_hexserial c) (au_caid (cr_au r)) = Some hs" by blast
  have "cc_ok (r\<lparr>cr_au := (cr_au r)\<lparr>au_card := Some (cd_ref c), au_hexserial := hs, au_providers := ps, au_caid := i, au_provid := p\<rparr>\<rparr>)"
    for ps i p using assms by (auto simp: cc_ok_def cc_inv_def)
  then show ?thesis using hs unfolding set_au_data_def if_not_P [OF False] Let_def by simp
qed (use assms in \<open>simp add: set_au_data_def\<close>)

lemma cc_ok_cong:
  "\<lbrakk>cr_next r' = cr_next r; cr_cards r' = cr_cards r; cr_eei r' = cr_eei r; cr_counts r' = cr_counts r; au_card (cr_au r') = au_card (cr_au r);
     cr_emms r' = cr_emms r\<rbrakk> \<Longrightarrow> cc_ok r' = cc_ok r"
  by (simp add: cc_ok_def)

lemma put_eei_inv:
  assumes "cc_ok r" "c \<in> set (cr_cards r)" "ee_card e = cd_ref c"
  shows "cc_ok (r\<lparr>cr_eei := put_eei e (cr_eei r)\<rparr>)"
  using assms put_eei_ok [of "cr_eei r" e] by (auto simp: cc_ok_def cc_inv_def list_all_iff)

lemma send_to_card_ok:
  assumes "cc_ok r" "c \<in> set (cr_cards r)"
  shows "\<exists>r'. send_to_card c t r = Some r' \<and> cc_ok r'"
proof -
  define e where "e = \<lparr>ee_send_idx = sent_index r, ee_ecm_idx = tk_idx t, ee_card = cd_ref c, ee_srvid = task_srvid t\<rparr>"
  define r1 where "r1 = r\<lparr>cr_eei := put_eei e (cr_eei r)\<rparr>"
  define r2 where "r2 = (let j = next_server_idx (cr_server_idx r);
          r1 = (if cr_extended r then r\<lparr>cr_server_idx := j, cr_flag := of_nat j\<rparr> else r);
          send_idx = (if cr_extended r then of_nat j else 1);
          r2 = r1\<lparr>cr_eei := put_eei \<lparr>ee_send_idx = send_idx, ee_ecm_idx = tk_idx t, ee_card = cd_ref c, ee_srvid = task_srvid t\<rparr> (cr_eei r1),
                  cr_hops := cd_hop c\<rparr> in emit (Sent (cr_flag r2) MSG_CW_ECM (ecm_message c t)) r2)"
  have "cc_ok r1" unfolding r1_def by (rule put_eei_inv [OF assms]) (simp add: e_def)
  moreover have "cc_ok r2 = cc_ok r1"
    by (rule cc_ok_cong) (simp_all add: r2_def r1_def e_def Let_def emit_def sent_index_def)
  moreover have "cr_cards r2 = cr_cards r" by (simp add: r2_def Let_def emit_def)
  ultimately have "\<exists>r'. set_au_data c (Some (tk_prid t)) r2 = Some r' \<and> cc_ok r'" using set_au_ok [of r2 c] assms(2) by simp
  then show ?thesis by (simp add: send_to_card_def r2_def Let_def)
qed

lemma sent_cards: "send_to_card c t r = Some r' \<Longrightarrow> cr_cards r' = cr_cards r"
  by (drule send_to_card_cases) auto

text \<open>Where the card comes from.\<close>

lemma match_card_from: "fst (match_card p c ch) = Some x \<Longrightarrow> fst ch = Some x \<or> x = c"
proof -
  have f: "fst (fold (\<lambda>q ch. if pv_prov q = p then take_if_closer c ch else ch) ps ch) = Some x \<Longrightarrow> fst ch = Some x \<or> x = c" for ps
  proof (induction ps arbitrary: ch)
    case (Cons q ps)
    have "fst (if pv_prov q = p then take_if_closer c ch else ch) = Some x \<or> x = c" using Cons.IH Cons.prems by simp
    then show ?case by (auto simp: take_if_closer_def split: if_splits)
  qed simp
  assume "fst (match_card p c ch) = Some x"
  then show ?thesis using f by (auto simp: match_card_def take_if_closer_def split: if_splits)
qed

lemma pick_card_from:
  "pick_card t s cs ch x = (a, h, b) \<Longrightarrow> (\<forall>c. a = Some c \<longrightarrow> c \<in> set cs \<or> fst ch = Some c) \<and> (\<forall>c. b = Some c \<longrightarrow> c \<in> set cs \<or> x = Some c)"
proof (induction cs arbitrary: ch x)
  case (Cons c cs)
  show ?case
  proof (cases "cd_caid c \<noteq> tk_caid t \<or> is_sid_blocked c s")
    case True
    then show ?thesis using Cons.IH [of ch x] Cons.prems by auto
  next
    case False
    let ?x = "if drop_bit 8 (cd_caid c) = 0x18 \<and> (case x of None \<Rightarrow> True | Some y \<Rightarrow> cd_hop c < cd_hop y) then Some c else x"
    have "pick_card t s cs (match_card (tk_prid t) c ch) ?x = (a, h, b)" using False Cons.prems by simp
    from Cons.IH [OF this] show ?thesis by (auto dest: match_card_from split: if_splits)
  qed
qed auto

lemma choose_card_from:
  assumes "choose_card f t cs cur h = (Some c, h')"
  shows "c \<in> set cs \<or> cur = Some c"
proof -
  define own where "own = (if f then Option.bind (tk_origin t) (\<lambda>a. card_at a cs) else None)"
  obtain a h2 b where p: "pick_card t (task_srvid t) cs (None, h) None = (a, h2, b)" by (cases "pick_card t (task_srvid t) cs (None, h) None")
  show ?thesis
  proof (cases own)
    case None
    then show ?thesis using assms pick_card_from [OF p] p
      by (auto simp: choose_card_def own_def [symmetric] split: option.splits if_splits)
  next
    case (Some d)
    then have "d \<in> set cs" using card_at_Some by (auto simp: own_def bind_eq_Some_conv split: if_splits)
    then show ?thesis using assms Some by (simp add: choose_card_def own_def [symmetric])
  qed
qed

text \<open>An EMM.\<close>

lemma ex_not [simp]: "\<exists>b. \<not> b" "\<exists>b. b"
  by (rule exI [of _ False], simp) (rule exI [of _ True], simp)

lemma pending_emms_ok:
  assumes "cc_ok r"
  shows "\<exists>b r'. cc_send_pending_emms now r = Some (b, r') \<and> cc_ok r'"
proof (cases "cr_emms r")
  case Nil
  then show ?thesis using assms by (simp add: cc_send_pending_emms_def)
next
  case (Cons m ms)
  then have m: "12 \<le> length m" "256 * unat (m ! 2) + unat (m ! 11) + 12 \<le> length m" using assms by (simp_all add: cc_ok_def cc_inv_def emm_wf_def)
  have f: "fetch m 2 = Some (m ! 2)" "fetch m 11 = Some (m ! 11)" using m(1) by (simp_all add: fetch_def)
  have ok: "cc_ok (emit x (r\<lparr>cr_busy := b, cr_available := a, cr_just_logged_in := False, cr_ecm_time := now, cr_emms := ms\<rparr>))" for x a b
    using assms Cons by (simp add: cc_ok_def cc_inv_def emit_def)
  show ?thesis
  proof (cases "\<not> cr_extended r \<and> cr_busy r")
    case True
    then show ?thesis using assms Cons by (simp add: cc_send_pending_emms_def)
  next
    case False
    then show ?thesis using Cons f m ok by (auto simp: cc_send_pending_emms_def Let_def)
  qed
qed

lemma cmd05_ok: "cc_ok r \<Longrightarrow> \<exists>r'. send_cmd05_answer ev r = Some r' \<and> cc_ok r'"
  by (auto simp: send_cmd05_answer_def Let_def cc_ok_def emit_def split: option.splits prod.splits)

lemma nothing_waits_ok:
  assumes "cc_ok r"
  shows "\<exists>r'. nothing_waits ev now r = Some r' \<and> cc_ok r'"
proof -
  define r1 where "r1 = (if cr_extended r then r else r\<lparr>cr_available := True, cr_busy := False\<rparr>)"
  have "cc_ok r1" using assms by (simp add: r1_def ok)
  then obtain b r2 where e: "cc_send_pending_emms now r1 = Some (b, r2)" "cc_ok r2" using pending_emms_ok by blast
  then show ?thesis using cmd05_ok [OF e(2), of ev] by (cases b) (simp_all add: nothing_waits_def r1_def Let_def)
qed

lemma send_loop_ok:
  "\<lbrakk>cc_ok r; \<And>c. cur = Some c \<Longrightarrow> c \<in> set (cr_cards r)\<rbrakk> \<Longrightarrow> \<exists>r'. cc_send_loop ev now cur h r = Some r' \<and> cc_ok r'"
proof (induction ev now cur h r rule: cc_send_loop.induct)
  case (1 ev now cur h r)
  obtain n r1 where g: "cc_get_nxt_ecm (tb_time now) (ecm_limit ev) (begin_round now r) = (n, r1)"
    by (cases "cc_get_nxt_ecm (tb_time now) (ecm_limit ev) (begin_round now r)")
  have r1: "cc_ok r1" "cr_cards r1 = cr_cards r"
    using get_nxt_ok [OF g] get_nxt_only [OF g] 1(3) by (auto simp: ok begin_round_def)
  show ?case
  proof (cases n)
    case None
    then show ?thesis using nothing_waits_ok [OF r1(1)] g by (subst cc_send_loop.simps) simp
  next
    case n: (Some n')
    define r2 where "r2 = take_task n' r1"
    define t where "t = cr_tasks r2 ! n'"
    have r2: "cc_ok r2" "cr_cards r2 = cr_cards r" using r1 by (simp_all add: r2_def ok take_task_def put_task_def)
    obtain c h' where c: "choose_card (env_forward ev) t (cr_cards r2) cur h = (c, h')" by (cases "choose_card (env_forward ev) t (cr_cards r2) cur h")
    show ?thesis
    proof (cases c)
      case None
      have "\<exists>r'. cc_send_loop ev now None h' (no_card n' t r2) = Some r' \<and> cc_ok r'"
        using "1.IH"(1) [OF g [symmetric] n r2_def t_def c [symmetric] None] r2 by (simp add: ok)
      then show ?thesis using g n c None by (subst cc_send_loop.simps) (simp add: Let_def r2_def t_def)
    next
      case (Some d)
      have d: "d \<in> set (cr_cards r2)" using choose_card_from [OF c [unfolded Some]] 1(4) r2(2) by auto
      then obtain r3 where r3: "send_to_card d t r2 = Some r3" "cc_ok r3" using send_to_card_ok [OF r2(1)] by blast
      have "\<exists>r'. cc_send_loop ev now (Some d) h' r3 = Some r' \<and> cc_ok r'" if "cr_extended r3"
        using "1.IH"(2) [OF g [symmetric] n r2_def t_def c [symmetric] Some r3(1) that r3(2)] d sent_cards [OF r3(1)] by auto
      then show ?thesis using g n c Some r3 by (subst cc_send_loop.simps) (auto simp: Let_def r2_def t_def)
    qed
  qed
qed

text \<open>What the rest of the program must leave alone: the connection comes back with a state in order.\<close>

definition env_ok :: "cc_env \<Rightarrow> bool" where
  "env_ok ev \<longleftrightarrow> (\<forall>r. cc_ok r \<longrightarrow> cc_ok (env_connect ev r))"

lemma send_ecm_ok:
  assumes "env_ok ev" "cc_ok r"
  shows "\<exists>r'. cc_send_ecm ev now er r = Some r' \<and> cc_ok r'"
proof -
  define r0 where "r0 = (if cr_connected r = 0 then env_connect ev r else r)"
  have r0: "cc_ok r0" using assms by (simp add: r0_def env_ok_def)
  have l: "\<exists>r'. cc_send_loop ev now None None (if cr_extended r1 then r1 else r1\<lparr>cr_busy := True\<rparr>) = Some r' \<and> cc_ok r'" if "cc_ok r1" for r1
    by (rule send_loop_ok) (use that in \<open>simp_all add: ok\<close>)
  show ?thesis
    using r0 l [of "r0\<lparr>cr_just_logged_in := False\<rparr>"]
    by (auto simp: cc_send_ecm_def r0_def [symmetric] Let_def ok split: option.split)
qed

section \<open>Messages keep it\<close>

lemma take_index_ok [ok]: "cc_ok r \<Longrightarrow> cc_ok (take_index r)"
proof -
  have sub: "set (remove_first P es) \<subseteq> set es" for P and es :: "cc_eei list" by (induction es) auto
  have "distinct (map ee_send_idx (remove_first P es))" if "distinct (map ee_send_idx es)" for P and es :: "cc_eei list"
    using that
  proof (induction es)
    case (Cons a es)
    then show ?case using sub [of P es] by auto
  qed simp
  then show "cc_ok r \<Longrightarrow> cc_ok (take_index r)" using sub by (fastforce simp: cc_ok_def cc_inv_def take_index_def list_all_iff)
qed

lemma index_card:
  assumes "cc_ok r" "get_extended_ecm_idx i (cr_eei r) = Some e"
  shows "\<exists>c. card_at (ee_card e) (cr_cards r) = Some c"
  using assms by (intro card_at_ok) (auto simp: cc_ok_def cc_inv_def get_extended_ecm_idx_def find_Some_iff list_all_iff)

lemma refused_card_ok: "cc_ok r \<Longrightarrow> cc_ok (refused_card nok1 e c r)"
  by (simp add: refused_card_def ok cc_card_removed_ok move_card_ok)

lemma refused_task_ok [ok]: "cc_ok (refused_task ev nok1 i r) = cc_ok r"
  by (simp add: refused_task_def Let_def ok split: option.split)

lemma take_index_cards [simp]: "cr_cards (take_index r) = cr_cards r"
  by (simp add: take_index_def)

lemma refused_ok:
  assumes "cc_ok r"
  shows "\<exists>r'. refused ev nok1 r = Some r' \<and> cc_ok r'"
proof (cases "get_extended_ecm_idx (msg_index r) (cr_eei r)")
  case None
  then show ?thesis using assms by (simp add: refused_def ok)
next
  case (Some e)
  from index_card [OF assms Some] obtain c where c: "card_at (ee_card e) (cr_cards r) = Some c" by blast
  show ?thesis using Some c assms by (simp add: refused_def Let_def ok refused_card_ok)
qed

lemma msg_nok_ok:
  assumes "env_ok ev" "cc_ok r"
  shows "\<exists>b r'. msg_nok ev now nok1 r = Some (b, r') \<and> cc_ok r'"
proof (cases "cr_just_logged_in r")
  case False
  from refused_ok [of "r\<lparr>cr_recv_ecmtask := -1\<rparr>" ev nok1] obtain r2 where
    r2: "refused ev nok1 (r\<lparr>cr_recv_ecmtask := -1\<rparr>) = Some r2" "cc_ok r2" using assms by (auto simp: ok)
  from send_ecm_ok [OF assms(1), of "free_for_next r2" now None] r2 False show ?thesis by (auto simp: msg_nok_def Let_def ok)
qed (use assms in \<open>simp add: msg_nok_def Let_def ok\<close>)

lemma take_cw_ok: "cc_ok r \<Longrightarrow> cc_ok (snd (take_cw ev now e dcw r))"
  by (simp add: take_cw_def Let_def ok move_card_ok)

lemma msg_cw_ok:
  assumes "env_ok ev" "cc_ok (fst st)" "msg_cw ci ev now d st = Some (b, r', lk')"
  shows "cc_ok r'"
proof -
  define r where "r = (fst st)\<lparr>cr_just_logged_in := False, cr_recv_ecmtask := -1\<rparr>"
  have r: "cc_ok r" using assms(2) by (simp add: r_def ok)
  define q where "q = (case get_extended_ecm_idx (msg_index r) (cr_eei r) of
            None \<Rightarrow> Some (MSG_CW_ECM, r, snd st)
          | Some e \<Rightarrow> do {
              let r1 = (take_index r)\<lparr>cr_recv_ecmtask := uint (ee_ecm_idx e)\<rparr>;
              c \<leftarrow> card_at (ee_card e) (cr_cards r1);
              (dcw, lk) \<leftarrow> decode_cw ci (cr_extended r1) (cd_id c) d (snd st);
              let (b, r2) = take_cw ev now e dcw r1;
              Some (b, r2, lk) })"
  have q: "cc_ok (fst (snd x))" if qx: "q = Some x" for x
  proof (cases "get_extended_ecm_idx (msg_index r) (cr_eei r)")
    case None
    then show ?thesis using qx r by (auto simp: q_def)
  next
    case (Some e)
    have t: "cc_ok ((take_index r)\<lparr>cr_recv_ecmtask := uint (ee_ecm_idx e)\<rparr>)" using r by (simp add: ok)
    from qx Some obtain dcw lk where "x = (fst (take_cw ev now e dcw ((take_index r)\<lparr>cr_recv_ecmtask := uint (ee_ecm_idx e)\<rparr>)),
        snd (take_cw ev now e dcw ((take_index r)\<lparr>cr_recv_ecmtask := uint (ee_ecm_idx e)\<rparr>)), lk)"
      by (auto simp: q_def Let_def bind_eq_Some_conv case_prod_unfold)
    then show ?thesis using take_cw_ok [OF t, of ev now e dcw] by simp
  qed
  obtain b1 r1 lk1 r2 where x: "q = Some (b1, r1, lk1)" "cc_send_ecm ev now None (free_for_next r1) = Some r2"
    "r' = r2\<lparr>cr_ecm_counter := (if cr_max_ecms r2 = 0 then cr_ecm_counter r2 else cr_ecm_counter r2 + 1)\<rparr>"
    using assms(3) unfolding msg_cw_def Let_def r_def [symmetric] q_def [unfolded Let_def, symmetric] bind_eq_Some_conv by (auto simp: bind_eq_Some_conv)
  have "cc_ok (free_for_next r1)" using q [OF x(1)] by (simp add: ok)
  from send_ecm_ok [OF assms(1) this, of now None] x(2,3) show ?thesis by (auto simp: ok)
qed

lemma read_card_ref: "read_card a grp b ext = Some c \<Longrightarrow> cd_ref c = a \<and> length (cd_hexserial c) = 8"
  by (auto simp: read_card_def Let_def bind_eq_Some_conv fetch_Some_iff split: if_splits)

lemma cards_ok_mono: "cards_ok n cs \<Longrightarrow> cards_ok (n + 1) cs"
  by (auto simp: cards_ok_def list_all_iff)

lemma inv_append:
  assumes "cc_inv n cs es ns au emms" "cd_ref c = n" "length (cd_hexserial c) = 8" "\<not> list_ex (\<lambda>x. cd_id x = cd_id c) cs"
  shows "cc_inv (n + 1) (cs @ [c]) es (count_card 1 c ns) au emms"
proof -
  have "cards_ok (n + 1) (cs @ [c])" using assms by (force simp: cc_inv_def cards_ok_def list_all_iff list_ex_iff)
  then show ?thesis using assms counts_ok_append by (auto simp: cc_inv_def list_all_iff split: option.splits)
qed

lemma set_au_only: "set_au_data c prid r = Some r' \<Longrightarrow> \<exists>au. r' = r\<lparr>cr_au := au\<rparr> \<and> (au_card au = Some (cd_ref c) \<or> au = cr_au r)"
proof (cases "au_disabled (cr_au r) \<or> \<not> cc_UA_valid (cd_hexserial c)")
  case True
  assume "set_au_data c prid r = Some r'"
  then have "r' = r\<lparr>cr_au := cr_au r\<rparr>" using True by (simp add: set_au_data_def)
  then show ?thesis by blast
next
  case False
  assume "set_au_data c prid r = Some r'"
  then obtain hs ps i p where "r' = r\<lparr>cr_au := (cr_au r)\<lparr>au_card := Some (cd_ref c), au_hexserial := hs, au_providers := ps, au_caid := i, au_provid := p\<rparr>\<rparr>"
    unfolding set_au_data_def if_not_P [OF False] Let_def bind_eq_Some_conv by blast
  then show ?thesis by (intro exI conjI) auto
qed

lemma accept_card_ok:
  assumes "cc_inv n cs es ns au emms" "r = q\<lparr>cr_next := n + 1\<rparr>" "cr_cards q = cs" "cr_eei q = es" "cr_counts q = ns"
    "au_card (cr_au q) = au" "cr_emms q = emms" "cd_ref c = n" "length (cd_hexserial c) = 8" "accept_card ev c r = Some r'"
  shows "cc_ok r'"
proof -
  have "cards_ok n cs \<Longrightarrow> cards_ok (Suc n) cs" using cards_ok_mono by simp
  then have r: "cc_ok r" using assms(1-7) by (simp add: cc_ok_def cc_inv_def)
  show ?thesis
  proof (cases "list_ex (\<lambda>x. x = env_node ev) (cd_nodes c) \<or> \<not> chk_ident (env_ftab ev) c \<or> list_ex (\<lambda>old. cd_id old = cd_id c \<or> same_card old c) (cr_cards r)")
    case True
    then show ?thesis using assms(10) r by (auto simp: accept_card_def split: if_splits)
  next
    case False
    define c1 where "c1 = c\<lparr>cd_hop := cd_hop c + 1\<rparr>"
    have "\<not> list_ex (\<lambda>x. cd_id x = cd_id c1) cs" using False assms(2,3) by (auto simp: c1_def list_ex_iff)
    then have i: "cc_inv (n + 1) (cs @ [c1]) es (count_card 1 c1 ns) au emms"
      using inv_append [OF assms(1), of c1] assms(8,9) by (simp add: c1_def)
    from False assms(10) obtain r1 where r1: "set_au_data c1 None (r\<lparr>cr_cards := cr_cards r @ [c1]\<rparr>) = Some r1"
      "r' = r1\<lparr>cr_counts := count_card 1 c1 (cr_counts r1)\<rparr>"
      by (simp add: accept_card_def Let_def c1_def bind_eq_Some_conv) blast
    from set_au_only [OF r1(1)] obtain a where
      a: "r1 = r\<lparr>cr_cards := cr_cards r @ [c1], cr_au := a\<rparr>" "au_card a = Some (cd_ref c1) \<or> a = cr_au r" by auto
    have "cc_inv (n + 1) (cs @ [c1]) es (count_card 1 c1 ns) (au_card a) emms" using i a(2) assms(2,6) by (auto simp: cc_inv_def)
    then show ?thesis using a(1) r1(2) assms(2-7) by (simp add: cc_ok_def)
  qed
qed

lemma msg_new_card_ok:
  assumes "cc_ok r" "msg_new_card ev ext d r = Some r'"
  shows "cc_ok r'"
proof -
  consider "r' = r" | c where "read_card (cr_next r) (env_grp ev) d ext = Some c" "accept_card ev c (r\<lparr>cr_connected := 2, cr_next := cr_next r + 1\<rparr>) = Some r'"
    using assms(2) unfolding msg_new_card_def bind_eq_Some_conv by (auto simp: bind_eq_Some_conv split: if_splits)
  then show ?thesis
  proof cases
    case 2
    from read_card_ref [OF 2(1)] 2(2) assms(1) show ?thesis
      by (intro accept_card_ok [where q = "r\<lparr>cr_connected := 2\<rparr>" and c = c and ev = ev and n = "cr_next r" and
            r = "r\<lparr>cr_connected := 2, cr_next := cr_next r + 1\<rparr>"]) (simp_all add: cc_ok_def)
  qed (use assms in simp)
qed

lemma counts_none [simp]: "counts_ok [] (replicate 7 0)"
  by (simp add: counts_ok_iff)

lemma srv_identity_ok:
  assumes "cc_ok r" "srv_identity ev r = Some r'"
  shows "cc_ok r'"
proof -
  from assms(2) obtain node version r1 r2 where
    e: "r1 = r\<lparr>cr_cards := [], cr_eei := [], cr_au := (cr_au r)\<lparr>au_card := None\<rparr>, cr_counts := replicate 7 0,
          cr_cmd0b_key := node @ version, cr_is_oscam := (cr_is_oscam r \<or> peer_is_oscam node)\<rparr>"
      "r2 = (if cr_is_oscam r1 then emit (Sent (cr_flag r1) MSG_CW_NOK1 (partner_token ev (ascii '' [EXT,SID]''))) r1 else r1)"
      "r' = r2\<lparr>cr_cmd05 := (cr_cmd05 r2)\<lparr>c5_mode := MODE_PLAIN\<rparr>\<rparr>"
    unfolding srv_identity_def Let_def bind_eq_Some_conv option.inject by blast
  have "cc_ok r1" using assms(1) unfolding e(1) by (simp add: cc_ok_def cc_inv_def cards_ok_def)
  then have "cc_ok r2" unfolding e(2) by (simp add: ok)
  then show ?thesis unfolding e(3) by (simp add: ok)
qed

lemma srv_data_ok: "\<lbrakk>cc_ok r; msg_srv_data ev l r = Some r'\<rbrakk> \<Longrightarrow> cc_ok r'"
  by (auto simp: msg_srv_data_def Let_def bind_eq_Some_conv ok split: if_splits intro: srv_identity_ok)

lemma partner_ok: "\<lbrakk>cc_ok r; msg_partner ev d r = Some r'\<rbrakk> \<Longrightarrow> cc_ok r'"
  by (auto simp: msg_partner_def Let_def ok split: if_splits)

lemma cmd_05_ok: "\<lbrakk>cc_ok r; msg_cmd_05 ev d r = Some r'\<rbrakk> \<Longrightarrow> cc_ok r'"
  using cmd05_ok [of "r\<lparr>cr_just_logged_in := False, cr_cmd05 := (cr_cmd05 r)\<lparr>c5_active := 1, c5_data := d\<rparr>\<rparr>" ev]
  by (auto simp: msg_cmd_05_def Let_def ok split: if_splits)

lemma cmd_0b_ok: "\<lbrakk>cc_ok r; msg_cmd_0b ev d r = Some r'\<rbrakk> \<Longrightarrow> cc_ok r'"
  by (auto simp: msg_cmd_0b_def bind_eq_Some_conv ok)

lemma emm_ack_ok: "\<lbrakk>env_ok ev; cc_ok r; msg_emm_ack ev now r = Some r'\<rbrakk> \<Longrightarrow> cc_ok r'"
  using send_ecm_ok [of ev "free_for_next (r\<lparr>cr_just_logged_in := False\<rparr>)" now None] by (auto simp: msg_emm_ack_def ok)

lemma parse_rest_ok:
  assumes "env_ok ev" "cc_ok (fst st)" "parse_rest ci ev now b d st = Some (b', r', lk')"
  shows "cc_ok r'"
  using assms unfolding parse_rest_def Let_def
  by (auto split: if_splits simp: ok msg_card_removed_def cc_card_removed_ok
      intro: srv_data_ok msg_new_card_ok msg_cw_ok cmd_05_ok cmd_0b_ok emm_ack_ok)

lemma parse_msg_ok:
  assumes "env_ok ev" "cc_ok (fst st)" "cc_parse_msg ci ev now m st = Some (q, b, r', lk')"
  shows "cc_ok r'"
proof -
  define r where "r = (fst st)\<lparr>cr_flag := m ! 0, cr_last_msg := m ! 1, cr_buffer := drop 4 m @ drop (length (drop 4 m)) (cr_buffer (fst st))\<rparr>"
  have r: "cc_ok r" using assms(2) by (simp add: r_def ok)
  have nok: "cc_ok y" if "msg_nok ev now x r = Some (z, y)" for x y z using msg_nok_ok [OF assms(1) r, of now x] that by auto
  have rest: "cc_ok y" if "parse_rest ci ev now b1 d1 (r, snd st) = Some (x, y, z)" for b1 d1 x y z
    by (rule parse_rest_ok [OF assms(1) _ that]) (simp add: r)
  show ?thesis
    using assms(3) unfolding cc_parse_msg_def Let_def r_def [symmetric]
    by (auto split: if_splits prod.splits simp: ok intro: partner_ok [OF r] nok rest)
qed

section \<open>The life of a connection\<close>

lemma emm_message_wf: "\<lbrakk>length caid = 2; length provid = 4; length emm < 65536\<rbrakk> \<Longrightarrow> emm_wf (emm_message caid provid c emm)"
proof -
  assume a: "length caid = 2" "length provid = 4" "length emm < 65536"
  obtain x y where c: "caid = [x, y]" using a(1) by (auto simp: length_Suc_conv numeral_2_eq_2)
  obtain p q s t where p: "provid = [p, q, s, t]" using a(2) by (auto simp: length_Suc_conv eval_nat_numeral)
  have hi: "emm_message caid provid card emm ! 2 = of_nat (length emm div 256)" for card by (simp add: emm_message_def c)
  have lo: "emm_message caid provid card emm ! 11 = of_nat (length emm)" for card by (simp add: emm_message_def c p be4_def)
  have l: "length (emm_message caid provid card emm) = 12 + length emm" for card by (simp add: emm_message_def c p be4_def)
  have "unat (of_nat (length emm div 256) :: u8) = length emm div 256" using a(3) by (simp add: unat_of_nat)
  moreover have "unat (of_nat (length emm) :: u8) = length emm mod 256" by (simp add: unat_of_nat)
  ultimately show ?thesis by (simp add: emm_wf_def hi lo l)
qed

lemma send_emm_ok:
  assumes "env_ok ev" "cc_ok r" "length caid = 2" "length provid = 4" "length emm < 65536"
    "cc_send_emm ev now caid provid hs emm r = Some (b, r')"
  shows "cc_ok r'"
proof -
  define r0 where "r0 = (if cr_connected r = 0 then env_connect ev r else r)"
  have r0: "cc_ok r0" using assms(1,2) by (simp add: r0_def env_ok_def)
  have q: "cc_ok (r0\<lparr>cr_emms := cr_emms r0 @ [emm_message caid provid x emm]\<rparr>)" for x
    using r0 emm_message_wf [OF assms(3-5)] by (simp add: cc_ok_def cc_inv_def)
  have s: "cc_ok y" if "cc_send_pending_emms now (r0\<lparr>cr_emms := cr_emms r0 @ [emm_message caid provid x emm]\<rparr>) = Some (z, y)" for x y z
    using pending_emms_ok [OF q, of now x] that by auto
  show ?thesis
    using assms(6) unfolding cc_send_emm_def Let_def r0_def [symmetric]
    using r0 by (auto simp: bind_eq_Some_conv split: if_splits option.splits dest!: s)
qed

text \<open>One event. The other parts of the program change the pending requests (\<open>cr_tasks\<close>) at any time; \<open>Idle\<close> stands for what
  \<open>cc_cli_close\<close> does when the connection is lost.\<close>

inductive cc_step :: "('k1, 'k2, 'k3) ciphers \<Rightarrow> cc_env \<Rightarrow> ('k1, 'k2, 'k3) cc_state \<Rightarrow> ('k1, 'k2, 'k3) cc_state \<Rightarrow> bool"
  for ci :: "('k1, 'k2, 'k3) ciphers" and ev :: cc_env where
  Message: "cc_recv ci ev now m st = Some (n, b, st') \<Longrightarrow> cc_step ci ev st st'"
| Send: "cc_send_ecm ev now er r = Some r' \<Longrightarrow> cc_step ci ev (r, lk) (r', lk)"
| Emm: "\<lbrakk>length caid = 2; length provid = 4; length emm < 65536; cc_send_emm ev now caid provid hs emm r = Some (b, r')\<rbrakk> \<Longrightarrow>
    cc_step ci ev (r, lk) (r', lk)"
| Tasks: "cc_step ci ev (r, lk) (r\<lparr>cr_tasks := ts\<rparr>, lk)"
| Lost: "cc_step ci ev (r, lk) (cc_cli_close r, lk)"

lemma step_ok: "\<lbrakk>cc_step ci ev st st'; env_ok ev; cc_ok (fst st)\<rbrakk> \<Longrightarrow> cc_ok (fst st')"
proof (induction rule: cc_step.induct)
  case (Message now m st n b st')
  then show ?case
    by (auto simp: cc_recv_def ok split: if_splits dest: parse_msg_ok)
next
  case (Send now er r r' lk)
  then show ?case using send_ecm_ok [of ev r now er] by auto
qed (auto simp: ok intro: send_emm_ok)

text \<open>The state of a reader that was set up by \<open>cc_cli_init\<close>: no cards, an empty table.\<close>

definition cc_start :: "cc_reader \<Rightarrow> bool" where
  "cc_start r \<longleftrightarrow> cr_cards r = [] \<and> cr_eei r = [] \<and> cr_emms r = [] \<and> cr_counts r = replicate 7 0 \<and> au_card (cr_au r) = None"

lemma start_ok: "cc_start r \<Longrightarrow> cc_ok r"
  by (simp add: cc_start_def cc_ok_def cc_inv_def cards_ok_def)

interpretation connection: machine "\<lambda>st st'. env_ok ev \<and> cc_step ci ev st st'" "\<lambda>st. cc_ok (fst st)" for ci ev
  by unfold_locales (blast intro: step_ok)

end
