(* ===== verification/CCprops.thy ===== *)
theory CCprops
  imports CCinv
begin

unbundle bit_operations_syntax

text \<open>
  What the reader of a CCcam connection promises: the card that an ECM is sent to, an invariant over every run, the end of the retries that
  refusals cause, and the recognition of the partner.
\<close>

section \<open>The nearest card\<close>

definition serves :: "cc_task \<Rightarrow> cc_card \<Rightarrow> bool" where
  "serves t c \<longleftrightarrow> cd_caid c = tk_caid t \<and> \<not> is_sid_blocked c (task_srvid t)"

definition fits :: "cc_task \<Rightarrow> cc_card \<Rightarrow> bool" where
  "fits t c \<longleftrightarrow> serves t c \<and> (tk_prid t = 0 \<and> cd_providers c = [] \<or> list_ex (\<lambda>p. pv_prov p = tk_prid t) (cd_providers c))"

definition is_18xx :: "cc_card \<Rightarrow> bool" where
  "is_18xx c \<longleftrightarrow> drop_bit 8 (cd_caid c) = 0x18"

lemma take_twice: "take_if_closer c (take_if_closer c ch) = take_if_closer c ch"
  by (auto simp: take_if_closer_def closer_def)

lemma match_card_fits:
  "match_card p c ch = (if p = 0 \<and> cd_providers c = [] \<or> list_ex (\<lambda>q. pv_prov q = p) (cd_providers c) then take_if_closer c ch else ch)"
proof -
  have "fold (\<lambda>q ch. if pv_prov q = p then take_if_closer c ch else ch) ps ch =
      (if list_ex (\<lambda>q. pv_prov q = p) ps then take_if_closer c ch else ch)" for ps ch
    by (induction ps arbitrary: ch) (auto simp: take_twice)
  note f = this
  show ?thesis unfolding match_card_def f by simp
qed

text \<open>The best card so far and its distance.\<close>

definition best :: "cc_card option \<times> u8 option \<Rightarrow> bool" where
  "best ch \<longleftrightarrow> snd ch = map_option cd_hop (fst ch)"

lemma best_take:
  assumes "best ch"
  shows "best (take_if_closer c ch)" "\<exists>b. fst (take_if_closer c ch) = Some b \<and> cd_hop b \<le> cd_hop c \<and>
    (\<forall>d. fst ch = Some d \<longrightarrow> cd_hop b \<le> cd_hop d) \<and> (b = c \<or> fst ch = Some b)"
  using assms by (cases "fst ch"; force simp: best_def take_if_closer_def closer_def)+

lemma pick_card_best:
  assumes "pick_card t (task_srvid t) cs ch x = (a, h, z)" "best ch"
  shows "(a = None \<longleftrightarrow> fst ch = None \<and> \<not> list_ex (fits t) cs) \<and>
    (\<forall>b. a = Some b \<longrightarrow> (fst ch = Some b \<or> b \<in> set cs \<and> fits t b) \<and> (\<forall>c \<in> set cs. fits t c \<longrightarrow> cd_hop b \<le> cd_hop c) \<and>
       (\<forall>d. fst ch = Some d \<longrightarrow> cd_hop b \<le> cd_hop d))"
  using assms
proof (induction cs arbitrary: ch x)
  case (Cons c cs)
  show ?case
  proof (cases "serves t c")
    case False
    then have "pick_card t (task_srvid t) cs ch x = (a, h, z)" "\<not> fits t c" using Cons.prems by (auto simp: serves_def fits_def)
    then show ?thesis using Cons.IH [of ch x] Cons.prems(2) by auto
  next
    case True
    define x' where "x' = (if drop_bit 8 (cd_caid c) = 0x18 \<and> (case x of None \<Rightarrow> True | Some y \<Rightarrow> cd_hop c < cd_hop y) then Some c else x)"
    have p: "pick_card t (task_srvid t) cs (match_card (tk_prid t) c ch) x' = (a, h, z)" using True Cons.prems by (simp add: serves_def x'_def)
    show ?thesis
    proof (cases "fits t c")
      case F: True
      then have m: "match_card (tk_prid t) c ch = take_if_closer c ch" by (simp add: match_card_fits fits_def)
      obtain b where b: "fst (take_if_closer c ch) = Some b" "cd_hop b \<le> cd_hop c" "\<forall>d. fst ch = Some d \<longrightarrow> cd_hop b \<le> cd_hop d"
        "b = c \<or> fst ch = Some b" using best_take(2) [OF Cons.prems(2)] by blast
      from Cons.IH [OF p [unfolded m] best_take(1) [OF Cons.prems(2)]] b F show ?thesis by (auto intro: order_trans)
    next
      case F: False
      then have "match_card (tk_prid t) c ch = ch" using True by (auto simp: match_card_fits fits_def)
      with Cons.IH [of ch x'] p Cons.prems(2) F show ?thesis by auto
    qed
  qed
qed simp

lemma pick_card_18:
  "pick_card t (task_srvid t) cs ch x = (a, h, z) \<Longrightarrow>
    (z = None \<longleftrightarrow> x = None \<and> \<not> list_ex (\<lambda>c. serves t c \<and> is_18xx c) cs) \<and>
    (\<forall>b. z = Some b \<longrightarrow> x = Some b \<or> b \<in> set cs \<and> serves t b \<and> is_18xx b)"
proof (induction cs arbitrary: ch x)
  case (Cons c cs)
  show ?case
  proof (cases "serves t c")
    case False
    then have "pick_card t (task_srvid t) cs ch x = (a, h, z)" using Cons.prems by (auto simp: serves_def)
    then show ?thesis using Cons.IH [of ch x] False by auto
  next
    case True
    define x' where "x' = (if drop_bit 8 (cd_caid c) = 0x18 \<and> (case x of None \<Rightarrow> True | Some y \<Rightarrow> cd_hop c < cd_hop y) then Some c else x)"
    have "pick_card t (task_srvid t) cs (match_card (tk_prid t) c ch) x' = (a, h, z)" using True Cons.prems by (simp add: serves_def x'_def)
    from Cons.IH [OF this] True show ?thesis by (auto simp: x'_def is_18xx_def split: if_splits option.splits)
  qed
qed auto

lemma choose_card_spec:
  "case fst (choose_card False t cs None None) of
     Some b \<Rightarrow> b \<in> set cs \<and> serves t b \<and>
       (if list_ex (fits t) cs then fits t b \<and> list_all (\<lambda>c. fits t c \<longrightarrow> cd_hop b \<le> cd_hop c) cs else is_18xx b)
   | None \<Rightarrow> \<not> list_ex (fits t) cs \<and> \<not> list_ex (\<lambda>c. serves t c \<and> is_18xx c) cs"
proof -
  obtain a h z where p: "pick_card t (task_srvid t) cs (None, None) None = (a, h, z)" by (cases "pick_card t (task_srvid t) cs (None, None) None")
  have c: "fst (choose_card False t cs None None) = (if a = None then z else a)" by (simp add: choose_card_def p)
  have "best (None, None)" by (simp add: best_def)
  from pick_card_best [OF p this] pick_card_18 [OF p] show ?thesis
    unfolding c by (cases a; cases z) (auto simp: list_all_iff fits_def list_ex_iff)
qed


definition task_ex :: cc_task where
  "task_ex = \<lparr>tk_rc = 10, tk_rcEx = 0, tk_idx = 3, tk_caid = 0x0B00, tk_prid = 0, tk_srvid = 7, tk_ecm = [0x80, 0, 0], tk_time = 0,
     tk_loop = False, tk_origin = None\<rparr>"

definition card_ex :: "nat \<Rightarrow> u8 \<Rightarrow> cc_card" where
  "card_ex a hop = \<lparr>cd_ref = a, cd_id = of_nat a, cd_remote_id = 0, cd_caid = 0x0B00, cd_hop = hop, cd_reshare = 0, cd_hexserial = replicate 8 0,
     cd_providers = [], cd_badsids = [], cd_goodsids = [], cd_nodes = [], cd_grp = 1, cd_remote = True, cd_is_ext = False\<rparr>"

lemmas ex_defs = task_ex_def card_ex_def


section \<open>Over the life of a connection\<close>


definition block_ex :: cc_crypt_block where
  "block_ex = \<lparr>keytable = map of_nat [0..<256], cb_state = 0, cb_counter = 0, cb_sum = 0\<rparr>"

definition reader_ex :: cc_reader where
  "reader_ex = \<lparr>cr_tasks = [], cr_pending = 0, cr_cards = [], cr_eei = [], cr_emms = [], cr_extended = False, cr_server_idx = 0, cr_flag = 0,
     cr_busy = False, cr_available = True, cr_connected = 1, cr_last_msg = 0, cr_just_logged_in = False, cr_cmd05NOK = False,
     cr_recv_ecmtask = -1, cr_dcw = replicate 16 0, cr_hops = 0, cr_ecm_time = \<lparr>tb_time = 0, tb_millitm = 0\<rparr>,
     cr_au = \<lparr>au_disabled = True, au_card = None, au_hexserial = replicate 8 0, au_providers = [], au_caid = 0, au_provid = 0\<rparr>,
     cr_counts = replicate 7 0,
     cr_cmd05 = \<lparr>c5_active = 0, c5_data = [], c5_mode = MODE_PLAIN, c5_offset = 0, c5_aeskey = replicate 16 0, c5_key = block_ex\<rparr>,
     cr_max_ecms = 0, cr_ecm_counter = 0, cr_is_oscam = False, cr_cmd0b_key = [], cr_buffer = replicate 1024 0, cr_sidinfo = False, cr_next = 0,
     cr_out = []\<rparr>"

definition env_ex :: cc_env where
  "env_ex = \<lparr>env_connect = (\<lambda>r. r), env_aes = (\<lambda>k b. b), env_forward = False, env_ctimeout = 5000, env_ftimeout = 2500, env_node = replicate 8 1,
     env_maxhop = 10, env_mindown = 0, env_ctab = [], env_ftab = [], env_grp = 1, env_usr_len = 4, env_pwd_len = 4, env_version = []\<rparr>"

definition ciphers_ex :: "(unit, unit, unit) ciphers" where
  "ciphers_ex = \<lparr>rc6_setup = (\<lambda>_. ()), rc6_block = (\<lambda>_ b. b), aes_setup = (\<lambda>_. ()), aes_block = (\<lambda>_ b. b), idea_setup = (\<lambda>_. ()), idea_block = (\<lambda>_ b. b)\<rparr>"

definition link_ex :: "(unit, unit, unit) cc_link" where
  "link_ex = \<lparr>lk_decrypt = block_ex, lk_cmd0c = \<lparr>c0_mode = MODE_CMD_0x0C_NONE, c0_key = block_ex, c0_rc6 = (), c0_aes = (), c0_idea = ()\<rparr>, lk_node = 0\<rparr>"

text \<open>A card with the number 5 and no providers, as a message.\<close>

definition new_card_ex :: "u8 list" where
  "new_card_ex = [0, 7, 0, 22] @ [0, 0, 0, 5, 0, 0, 0, 9, 0x0B, 0, 1, 2] @ replicate 8 0 @ [0, 0]"

definition with_card_ex :: cc_reader where
  "with_card_ex = (case cc_recv ciphers_ex env_ex \<lparr>tb_time = 0, tb_millitm = 0\<rparr> new_card_ex (reader_ex, link_ex) of
     Some (_, _, r, _) \<Rightarrow> r | None \<Rightarrow> reader_ex)"

lemma new_card_run:
  "cc_recv ciphers_ex env_ex \<lparr>tb_time = 0, tb_millitm = 0\<rparr> new_card_ex (reader_ex, link_ex) = Some (7, 7, with_card_ex, link_ex)"
  "map cd_id (cr_cards with_card_ex) = [5]" "cr_counts with_card_ex = [0, 1, 0, 0, 0, 1, 0]"
proof -
  show "cc_recv ciphers_ex env_ex \<lparr>tb_time = 0, tb_millitm = 0\<rparr> new_card_ex (reader_ex, link_ex) = Some (7, 7, with_card_ex, link_ex)"
    and "map cd_id (cr_cards with_card_ex) = [5]" "cr_counts with_card_ex = [0, 1, 0, 0, 0, 1, 0]"
    unfolding with_card_ex_def by code_simp+
qed


section \<open>Refusals come to an end\<close>

text \<open>How often a card may still be asked for a request: a service that it has decoded before is given a second chance.\<close>

definition chance :: "cc_task \<Rightarrow> cc_card \<Rightarrow> nat" where
  "chance t c = (if serves t c then if is_good_sid c (task_srvid t) then 2 else 1 else 0)"

definition chances :: "cc_task \<Rightarrow> cc_card list \<Rightarrow> nat" where
  "chances t cs = sum_list (map (chance t) cs)"

lemma chances_le: "chances t cs \<le> 2 * length cs"
  by (induction cs) (auto simp: chances_def chance_def)

lemma chances_without: "\<lbrakk>distinct (map cd_ref cs); c \<in> set cs\<rbrakk> \<Longrightarrow> chances t (without (cd_ref c) cs) + chance t c = chances t cs"
proof (induction cs)
  case (Cons d cs)
  show ?case
  proof (cases "d = c")
    case True
    then have "cd_ref x \<noteq> cd_ref c" if "x \<in> set cs" for x using Cons.prems(1) that by (metis image_eqI distinct.simps(2) list.map(2) list.set_map)
    then have "without (cd_ref c) cs = cs" by (simp add: without_def filter_id_conv)
    then show ?thesis using True by (simp add: without_def chances_def)
  next
    case False
    then have "c \<in> set cs" "cd_ref d \<noteq> cd_ref c" using Cons.prems by auto
    then show ?thesis using Cons by (simp add: without_def chances_def)
  qed
qed simp

lemma chances_update:
  "\<lbrakk>distinct (map cd_ref cs); c \<in> set cs\<rbrakk> \<Longrightarrow>
     chances t (map (\<lambda>x. if cd_ref x = cd_ref c then f x else x) cs) + chance t c = chances t cs + chance t (f c)"
proof (induction cs)
  case (Cons d cs)
  show ?case
  proof (cases "d = c")
    case True
    then have "cd_ref x \<noteq> cd_ref c" if "x \<in> set cs" for x using Cons.prems(1) that by (metis image_eqI distinct.simps(2) list.map(2) list.set_map)
    then have "map (\<lambda>x. if cd_ref x = cd_ref c then f x else x) cs = cs" by (simp add: map_idI)
    then show ?thesis using True by (simp add: chances_def)
  next
    case False
    then have "c \<in> set cs" "cd_ref d \<noteq> cd_ref c" using Cons.prems by auto
    then show ?thesis using Cons by (simp add: chances_def)
  qed
qed simp

lemma sid_eq_refl [simp]: "sid_eq s s"
  by (simp add: sid_eq_def)

lemma blocked_chance: "chance t (add_sid_block (task_srvid t) c) = 0"
  by (auto simp: chance_def serves_def add_sid_block_def is_sid_blocked_def list_ex_iff)

lemma good_chance:
  "\<lbrakk>serves t c; is_good_sid c (task_srvid t)\<rbrakk> \<Longrightarrow> chance t (remove_good_sid (task_srvid t) c) < chance t c"
  by (auto simp: chance_def serves_def remove_good_sid_def is_sid_blocked_def is_good_sid_def list_ex_iff)

lemma add_block_ref [simp]: "cd_ref (add_sid_block s c) = cd_ref c"
  by (simp add: add_sid_block_def)

lemma card_at_in: "\<lbrakk>distinct (map cd_ref cs); c \<in> set cs\<rbrakk> \<Longrightarrow> card_at (cd_ref c) cs = Some c"
  by (induction cs) (auto simp: card_at_def)

text \<open>Whatever the kind of refusal, the request has one chance less afterwards.\<close>

lemma chances_to_end:
  assumes "distinct (map cd_ref cs)" "c \<in> set cs" "0 < chance t c"
  shows "chances t (map (\<lambda>x. if cd_ref x = cd_ref c then add_sid_block (task_srvid t) x else x) (without (cd_ref c) cs @ [c])) < chances t cs"
proof -
  have "map (\<lambda>x. if cd_ref x = cd_ref c then add_sid_block (task_srvid t) x else x) (without (cd_ref c) cs) = without (cd_ref c) cs"
    by (auto simp: without_def intro: map_idI)
  then show ?thesis using chances_without [OF assms(1,2), of t] assms(3) by (simp add: chances_def blocked_chance)
qed

lemma free_eei_cards [simp]: "cr_cards (free_extended_ecm_idx_by_card a r) = cr_cards r"
  by (simp add: free_extended_ecm_idx_by_card_def Let_def)

lemma removed_cards: "cr_cards (fold remove_card ds r) = filter (\<lambda>c. cd_ref c \<notin> cd_ref ` set ds) (cr_cards r)"
  by (induction ds arbitrary: r) (auto simp: remove_card_cards without_def intro: filter_cong)

lemma refusal_progress:
  assumes "cc_ok r" "c \<in> set (cr_cards r)" "ee_card e = cd_ref c" "ee_srvid e = task_srvid t" "serves t c"
  shows "chances t (cr_cards (refused_card nok1 e c r)) < chances t (cr_cards r)"
proof -
  have d: "distinct (map cd_ref (cr_cards r))" "distinct (map cd_id (cr_cards r))" using assms(1) by (simp_all add: cc_ok_def cc_inv_def cards_ok_def)
  have pos: "0 < chance t c" using assms(5) by (simp add: chance_def)
  note up = chances_update [OF d(1) assms(2), of t]
  consider "nok1" | "\<not> nok1" "cr_cmd05NOK r" | "\<not> nok1" "\<not> cr_cmd05NOK r" "is_good_sid c (task_srvid t)"
    | "\<not> nok1" "\<not> cr_cmd05NOK r" "\<not> is_good_sid c (task_srvid t)" by blast
  then show ?thesis
  proof cases
    case 1
    have "x = c" if "x \<in> set (cr_cards r)" "cd_id x = cd_id c" for x using d(2) assms(2) that by (auto simp: distinct_map inj_on_def)
    then have "cd_ref ` set (filter (\<lambda>x. cd_id x = cd_id c) (cr_cards r)) = {cd_ref c}" using assms(2) by auto
    then have "cr_cards (refused_card nok1 e c r) = without (cd_ref c) (cr_cards r)"
      using 1 by (simp add: refused_card_def cc_card_removed_def removed_cards without_def)
    then show ?thesis using chances_without [OF d(1) assms(2), of t] pos by simp
  next
    case 2
    then have "cr_cards (refused_card nok1 e c r) =
        map (\<lambda>x. if cd_ref x = cd_ref c then add_sid_block (task_srvid t) x else x) (without (cd_ref c) (cr_cards r) @ [c])"
      using assms(3,4) card_at_in [OF d(1) assms(2)] by (simp add: refused_card_def move_card_to_end_def on_card_def Let_def without_def)
    then show ?thesis using chances_to_end [OF d(1) assms(2) pos] by simp
  next
    case 3
    then show ?thesis using up [of "remove_good_sid (task_srvid t)"] good_chance [OF assms(5)] assms(3,4) by (simp add: refused_card_def on_card_def)
  next
    case 4
    then show ?thesis using up [of "add_sid_block (task_srvid t)"] pos assms(3,4) by (simp add: refused_card_def on_card_def blocked_chance)
  qed
qed

end
