(* ===== verification/CCretry.thy ===== *)
theory CCretry
  imports CCprops
begin

unbundle bit_operations_syntax

text \<open>
  A request that the server refuses again and again: every refusal takes one chance from the request, and when none is left the client has
  its answer.
\<close>

section \<open>One request on its way\<close>

text \<open>The state while the only request, \<open>t\<close>, is on its way to a card.\<close>

definition pending_at :: "cc_task \<Rightarrow> cc_reader \<Rightarrow> bool" where
  "pending_at t r \<longleftrightarrow> cc_ok r \<and> \<not> cr_extended r \<and> cr_connected r = 2 \<and> \<not> cr_just_logged_in r \<and> cr_tasks r = [t\<lparr>tk_rc := 101\<rparr>] \<and> cr_max_ecms r = 0 \<and>
     (\<exists>c \<in> set (cr_cards r). serves t c \<and>
        cr_eei r = [\<lparr>ee_send_idx = 1, ee_ecm_idx = tk_idx t, ee_card = cd_ref c, ee_srvid = task_srvid t\<rparr>])"

lemma serves_rc [simp]: "serves (t\<lparr>tk_rc := x\<rparr>) c = serves t c" "fits (t\<lparr>tk_rc := x\<rparr>) c = fits t c" "chances (t\<lparr>tk_rc := x\<rparr>) cs = chances t cs"
proof -
  show a: "serves (t\<lparr>tk_rc := x\<rparr>) c = serves t c" for c by (simp add: serves_def task_srvid_def)
  show "fits (t\<lparr>tk_rc := x\<rparr>) c = fits t c" by (simp add: fits_def a)
  have "chance (t\<lparr>tk_rc := x\<rparr>) = chance t" by (rule ext) (simp add: chance_def a task_srvid_def)
  then show "chances (t\<lparr>tk_rc := x\<rparr>) cs = chances t cs" by (simp add: chances_def)
qed

lemma nothing_waits_out: "nothing_waits ev now r = Some r' \<Longrightarrow> set (cr_out r) \<subseteq> set (cr_out r') \<and> cr_tasks r' = cr_tasks r"
proof -
  have c: "send_cmd05_answer ev q = Some q' \<Longrightarrow> set (cr_out q) \<subseteq> set (cr_out q') \<and> cr_tasks q' = cr_tasks q" for q q'
    by (auto simp: send_cmd05_answer_def Let_def emit_def split: if_splits option.splits)
  have e: "cc_send_pending_emms now q = Some (b, q') \<Longrightarrow> set (cr_out q) \<subseteq> set (cr_out q') \<and> cr_tasks q' = cr_tasks q" for q q' b
    by (auto simp: cc_send_pending_emms_def Let_def emit_def bind_eq_Some_conv split: if_splits list.splits)
  assume "nothing_waits ev now r = Some r'"
  then obtain b q where q: "cc_send_pending_emms now (if cr_extended r then r else r\<lparr>cr_available := True, cr_busy := False\<rparr>) = Some (b, q)"
    "(if b then Some q else send_cmd05_answer ev q) = Some r'"
    by (auto simp: nothing_waits_def Let_def bind_eq_Some_conv)
  from e [OF q(1)] c [of q r'] q(2) show ?thesis by (auto split: if_splits)
qed

lemma loop_sends:
  assumes "cc_get_nxt_ecm (tb_time now) (ecm_limit ev) (begin_round now r) = (Some n, r1)" "r2 = take_task n r1"
    "choose_card (env_forward ev) (cr_tasks r2 ! n) (cr_cards r2) cur h = (Some c, h')" "send_to_card c (cr_tasks r2 ! n) r2 = Some r3" "\<not> cr_extended r3"
  shows "cc_send_loop ev now cur h r = Some r3"
  using assms(3-5) unfolding assms(2) by (subst cc_send_loop.simps) (simp add: assms(1) Let_def)

lemma loop_no_card:
  assumes "cc_get_nxt_ecm (tb_time now) (ecm_limit ev) (begin_round now r) = (Some n, r1)" "r2 = take_task n r1"
    "choose_card (env_forward ev) (cr_tasks r2 ! n) (cr_cards r2) cur h = (None, h')"
  shows "cc_send_loop ev now cur h r = cc_send_loop ev now None h' (no_card n (cr_tasks r2 ! n) r2)"
  using assms(3) unfolding assms(2) by (subst cc_send_loop.simps) (simp add: assms(1) Let_def)

lemma loop_done:
  assumes "cc_get_nxt_ecm (tb_time now) (ecm_limit ev) (begin_round now r) = (None, r1)"
  shows "cc_send_loop ev now cur h r = nothing_waits ev now r1"
  by (subst cc_send_loop.simps) (simp add: assms)

text \<open>One request that waits, in time: it goes to a card, or it is answered.\<close>

lemma loop_one:
  assumes "cc_ok r" "\<not> cr_extended r" "cr_tasks r = [t\<lparr>tk_rc := 100\<rparr>]" "\<not> tk_loop t" "tb_time now - tk_time t \<le> ecm_limit ev"
    "\<not> env_forward ev" "\<not> cards_on_their_way r" "cr_eei r = []"
  shows "\<exists>r'. cc_send_loop ev now None None r = Some r' \<and>
    (Answered 0 0 E2_CCCAM_NOCARD \<in> set (cr_out r') \<and> map tk_rc (cr_tasks r') = [0] \<or>
     cr_cards r' = cr_cards r \<and> (cr_connected r = 2 \<and> \<not> cr_just_logged_in r \<and> cr_max_ecms r = 0 \<longrightarrow> pending_at t r'))"
proof -
  define r0 where "r0 = begin_round now r"
  have r0: "cr_tasks r0 = [t\<lparr>tk_rc := 100\<rparr>]" "cc_ok r0" "\<not> cr_extended r0" using assms by (simp_all add: r0_def begin_round_def ok [unfolded begin_round_def])
  have g: "cc_get_nxt_ecm (tb_time now) (ecm_limit ev) r0 = (Some 0, r0\<lparr>cr_pending := 1\<rparr>)"
    using r0 assms(4,5) by (simp add: cc_get_nxt_ecm_def Let_def waiting_def)
  define r1 where "r1 = r0\<lparr>cr_pending := 1\<rparr>"
  define r2 where "r2 = take_task 0 r1"
  have r2: "cr_tasks r2 = [t\<lparr>tk_rc := 101\<rparr>]" "cr_tasks r2 ! 0 = t\<lparr>tk_rc := 101\<rparr>" "cc_ok r2" "\<not> cr_extended r2" "cr_cards r2 = cr_cards r" "cr_eei r2 = []"
    using r0 assms(8) by (simp_all add: r2_def r1_def take_task_def put_task_def ok r0_def begin_round_def)
  have same: "cr_connected r2 = cr_connected r" "cr_just_logged_in r2 = cr_just_logged_in r" "cr_last_msg r2 = cr_last_msg r" "cr_max_ecms r2 = cr_max_ecms r"
    by (simp_all add: r2_def r1_def take_task_def put_task_def r0_def begin_round_def)
  have r2': "r2 = take_task 0 (begin_round now r\<lparr>cr_pending := 1\<rparr>)" by (simp add: r2_def r1_def r0_def)
  obtain c h where ch: "choose_card False (t\<lparr>tk_rc := 101\<rparr>) (cr_cards r2) None None = (c, h)"
    by (cases "choose_card False (t\<lparr>tk_rc := 101\<rparr>) (cr_cards r2) None None")
  note spec = choose_card_spec [of "t\<lparr>tk_rc := 101\<rparr>" "cr_cards r2", unfolded ch fst_conv]
  show ?thesis
  proof (cases c)
    case (Some d)
    have d: "d \<in> set (cr_cards r2)" "serves t d" using spec Some by simp_all
    obtain r3 where s: "send_to_card d (t\<lparr>tk_rc := 101\<rparr>) r2 = Some r3" "cc_ok r3" using send_to_card_ok [OF r2(3) d(1)] by blast
    from send_to_card_cases [OF s(1)] obtain au where
      r3: "r3 = r2\<lparr>cr_server_idx := cr_server_idx r2, cr_flag := sent_flag r2,
        cr_eei := put_eei \<lparr>ee_send_idx = sent_index r2, ee_ecm_idx = tk_idx (t\<lparr>tk_rc := 101\<rparr>), ee_card = cd_ref d, ee_srvid = task_srvid (t\<lparr>tk_rc := 101\<rparr>)\<rparr> (cr_eei r2),
        cr_hops := cd_hop d, cr_out := cr_out r2 @ [Sent (sent_flag r2) MSG_CW_ECM (ecm_message d (t\<lparr>tk_rc := 101\<rparr>))], cr_au := au\<rparr>"
      using r2(4) by auto
    have p: "pending_at t r3" if "cr_connected r = 2" "\<not> cr_just_logged_in r" "cr_max_ecms r = 0"
      unfolding pending_at_def using s(2) d r2 same that
      by (auto simp: r3 put_eei_def add_extended_ecm_idx_def sent_index_def task_srvid_def)
    have n3: "\<not> cr_extended r3" using r2(4) by (simp add: r3)
    have l: "cc_send_loop ev now None None r = Some r3"
      by (rule loop_sends [OF g [unfolded r0_def] r2']) (use ch s(1) n3 Some assms(6) r2(2) in \<open>simp_all add: r2_def [symmetric] r1_def [symmetric]\<close>)
    have "cr_cards r3 = cr_cards r" using r2(5) by (simp add: r3)
    with p l show ?thesis by blast
  next
    case None
    define r3 where "r3 = no_card 0 (t\<lparr>tk_rc := 101\<rparr>) r2"
    have "\<not> cards_on_their_way r2" using assms(7) same by (simp add: cards_on_their_way_def)
    then have r3: "Answered 0 0 E2_CCCAM_NOCARD \<in> set (cr_out r3)" "map tk_rc (cr_tasks r3) = [0]" "cc_ok r3"
      using r2 by (simp_all add: r3_def ok) (simp_all add: no_card_def Let_def emit_def put_task_def)
    define r4 where "r4 = begin_round now r3"
    have r4: "Answered 0 0 E2_CCCAM_NOCARD \<in> set (cr_out r4)" "map tk_rc (cr_tasks r4) = [0]" "cc_ok r4"
      using r3 by (simp_all add: r4_def ok) (simp_all add: begin_round_def)
    obtain u where u: "cr_tasks r4 = [u]" "tk_rc u = 0" using r4(2) by auto
    have g4: "cc_get_nxt_ecm (tb_time now) (ecm_limit ev) r4 = (None, r4\<lparr>cr_pending := 0\<rparr>)"
      using u by (simp add: cc_get_nxt_ecm_def Let_def waiting_def)
    from r4(3) have "cc_ok (r4\<lparr>cr_pending := 0\<rparr>)" by (simp add: ok)
    then obtain r5 where r5: "nothing_waits ev now (r4\<lparr>cr_pending := 0\<rparr>) = Some r5" using nothing_waits_ok by blast
    have "cc_send_loop ev now None None r = cc_send_loop ev now None h (no_card 0 (cr_tasks r2 ! 0) r2)"
      by (rule loop_no_card [OF g [unfolded r0_def] r2']) (use ch None assms(6) r2(2) in simp)
    also have "\<dots> = Some r5" using loop_done [OF g4 [unfolded r4_def], folded r4_def] r5 r2(2) by (simp add: r3_def)
    finally have l: "cc_send_loop ev now None None r = Some r5" .
    have o: "Answered 0 0 E2_CCCAM_NOCARD \<in> set (cr_out r5)" "map tk_rc (cr_tasks r5) = [0]"
      using nothing_waits_out [OF r5] r4(1,2) by auto
    show ?thesis by (rule exI [of _ r5]) (simp add: l o)
  qed
qed

section \<open>A run of refusals\<close>

definition nok2 :: "u8 list" where "nok2 = [0, 0xFF, 0, 0]"

fun refusals :: "('k1, 'k2, 'k3) ciphers \<Rightarrow> cc_env \<Rightarrow> timeb \<Rightarrow> nat \<Rightarrow> ('k1, 'k2, 'k3) cc_state \<Rightarrow> ('k1, 'k2, 'k3) cc_state option" where
  "refusals ci ev now 0 st = Some st"
| "refusals ci ev now (Suc k) st = (case cc_recv ci ev now nok2 st of None \<Rightarrow> None | Some (n, b, st') \<Rightarrow> refusals ci ev now k st')"

definition answered_nocard :: "cc_reader \<Rightarrow> bool" where
  "answered_nocard r \<longleftrightarrow> Answered 0 0 E2_CCCAM_NOCARD \<in> set (cr_out r) \<and> map tk_rc (cr_tasks r) = [0]"

lemma recv_nok2:
  "cc_recv ci ev now nok2 st = (let r = (fst st)\<lparr>cr_flag := 0, cr_last_msg := 0xFF, cr_buffer := cr_buffer (fst st)\<rparr> in
     map_option (\<lambda>(okk, r'). if okk then (255, 0xFF, after_msg r', snd st) else (-1, 0xFF, cc_cli_close r', snd st)) (msg_nok ev now False r))"
  by (simp add: cc_recv_def cc_parse_msg_def nok2_def msg_defs Let_def option.map_comp comp_def case_prod_unfold if_distrib cong: if_cong)


lemma refused_card_only:
  assumes "cr_eei r = []" "c \<in> set (cr_cards r)"
  shows "\<exists>cs. refused_card False e c r = r\<lparr>cr_cards := cs\<rparr> \<and> cs \<noteq> []"
proof -
  have m: "\<exists>cs. move_card_to_end a r = r\<lparr>cr_cards := cs\<rparr> \<and> cs \<noteq> []" for a
  proof (cases "card_at a (cr_cards r)")
    case None
    have "r = r\<lparr>cr_cards := cr_cards r\<rparr>" by simp
    then show ?thesis using None assms(2) by (auto simp: move_card_to_end_def intro!: exI [of _ "cr_cards r"])
  next
    case (Some d)
    have "r\<lparr>cr_eei := [], cr_cards := cs\<rparr> = r\<lparr>cr_cards := cs\<rparr>" for cs using assms(1) by (cases r) simp
    then show ?thesis using Some assms(1)
      by (auto simp: move_card_to_end_def Let_def free_extended_ecm_idx_by_card_def intro!: exI [of _ "filter (\<lambda>x. cd_ref x \<noteq> a) (cr_cards r) @ [d]"])
  qed
  have o: "\<exists>cs. on_card a f q = q\<lparr>cr_cards := cs\<rparr> \<and> cs \<noteq> []" if "cr_cards q \<noteq> []" for a f q
    using that by (intro exI [of _ "map (\<lambda>c. if cd_ref c = a then f c else c) (cr_cards q)"]) (simp add: on_card_def)
  have "cr_cards r \<noteq> []" using assms(2) by auto
  show ?thesis
  proof (cases "cr_cmd05NOK r")
    case True
    obtain cs where cs: "move_card_to_end (ee_card e) r = r\<lparr>cr_cards := cs\<rparr>" "cs \<noteq> []" using m by blast
    then show ?thesis using True o [of "r\<lparr>cr_cards := cs\<rparr>" "ee_card e" "add_sid_block (ee_srvid e)"] by (auto simp: refused_card_def)
  next
    case False
    then show ?thesis using o [OF \<open>cr_cards r \<noteq> []\<close>] by (simp add: refused_card_def)
  qed
qed

lemma answered_keeps [simp]: "answered_nocard (after_msg r) = answered_nocard r" "answered_nocard (r\<lparr>cr_pending := x\<rparr>) = answered_nocard r"
  by (auto simp: answered_nocard_def after_msg_def cc_cli_close_def emit_def)

lemma refuse_step:
  assumes p: "pending_at t r" and t: "\<not> tk_loop t" "tb_time now - tk_time t \<le> ecm_limit ev" and ev: "\<not> env_forward ev"
  shows "\<exists>r'. cc_recv ci ev now nok2 (r, lk) = Some (255, 0xFF, r', lk) \<and>
    (answered_nocard r' \<or> pending_at t r' \<and> chances t (cr_cards r') < chances t (cr_cards r))"
proof -
  from p obtain c where c: "c \<in> set (cr_cards r)" "serves t c"
    "cr_eei r = [\<lparr>ee_send_idx = 1, ee_ecm_idx = tk_idx t, ee_card = cd_ref c, ee_srvid = task_srvid t\<rparr>]" by (auto simp: pending_at_def)
  define e where "e = \<lparr>ee_send_idx = 1, ee_ecm_idx = tk_idx t, ee_card = cd_ref c, ee_srvid = task_srvid t\<rparr>"
  define q where "q = r\<lparr>cr_flag := 0, cr_last_msg := 0xFF, cr_buffer := cr_buffer r, cr_recv_ecmtask := -1\<rparr>"
  define r1 where "r1 = (take_index q)\<lparr>cr_recv_ecmtask := uint (tk_idx t)\<rparr>"
  have q: "cc_ok q" "\<not> cr_extended q" "cr_eei q = [e]" "cr_cards q = cr_cards r" "\<not> cr_just_logged_in q" "cr_tasks q = [t\<lparr>tk_rc := 101\<rparr>]"
    "cr_connected q = 2" "cr_max_ecms q = 0" "cr_last_msg q = 0xFF"
    using p c(3) by (simp_all add: pending_at_def q_def e_def ok)
  have r1: "cc_ok r1" "cr_eei r1 = []" "cr_cards r1 = cr_cards r" "cr_tasks r1 = [t\<lparr>tk_rc := 101\<rparr>]" "\<not> cr_extended r1" "cr_connected r1 = 2"
    "\<not> cr_just_logged_in r1" "cr_max_ecms r1 = 0" "cr_last_msg r1 = 0xFF"
    using q by (simp_all add: r1_def ok) (simp_all add: take_index_def msg_index_def e_def)
  obtain cs where cs: "refused_card False e c r1 = r1\<lparr>cr_cards := cs\<rparr>" "cs \<noteq> []"
    using refused_card_only [OF r1(2), of c e] c(1) r1(3) by auto
  have less: "chances t cs < chances t (cr_cards r)"
    using refusal_progress [OF r1(1), of c e t False] c(1,2) r1(3) cs(1) by (simp add: e_def)
  have okc: "cc_ok (r1\<lparr>cr_cards := cs\<rparr>)" using refused_card_ok [OF r1(1), of False e c] cs(1) by simp
  have ca: "card_at (cd_ref c) (cr_cards r) = Some c" using p c(1) by (intro card_at_in) (auto simp: pending_at_def cc_ok_def cc_inv_def cards_ok_def)
  define r2 where "r2 = r1\<lparr>cr_cards := cs, cr_tasks := [t\<lparr>tk_rc := 100\<rparr>], cr_cmd05NOK := False\<rparr>"
  have "refused ev False q = Some r2"
    using q ca ev cs(1) r1(4)
    by (simp add: refused_def get_extended_ecm_idx_def msg_index_def e_def [symmetric] Let_def r1_def [symmetric] refused_task_def)
      (simp add: e_def r1_def [symmetric] cs(1) [unfolded e_def] refused_task_def ev cc_reset_pending_def r2_def)
  then have nok: "msg_nok ev now False (r\<lparr>cr_flag := 0, cr_last_msg := 0xFF, cr_buffer := cr_buffer r\<rparr>) =
      map_option (\<lambda>x. (True, x)) (cc_send_ecm ev now None (free_for_next r2))"
    using q(5) unfolding q_def by (simp add: msg_nok_def Let_def map_conv_bind_option comp_def)
  define r3 where "r3 = r2\<lparr>cr_available := True, cr_just_logged_in := False, cr_busy := True\<rparr>"
  have send: "cc_send_ecm ev now None (free_for_next r2) = cc_send_loop ev now None None r3"
    using r1 cs(2) by (simp add: cc_send_ecm_def free_for_next_def r2_def r3_def Let_def)
  have "cc_ok r3" using okc by (simp add: r3_def r2_def ok)
  then have "\<exists>r'. cc_send_loop ev now None None r3 = Some r' \<and>
    (Answered 0 0 E2_CCCAM_NOCARD \<in> set (cr_out r') \<and> map tk_rc (cr_tasks r') = [0] \<or>
     cr_cards r' = cr_cards r3 \<and> (cr_connected r3 = 2 \<and> \<not> cr_just_logged_in r3 \<and> cr_max_ecms r3 = 0 \<longrightarrow> pending_at t r'))"
    by (rule loop_one) (use r1 t ev in \<open>simp_all add: r3_def r2_def cards_on_their_way_def msg_defs\<close>)
  then obtain r' where r': "cc_send_loop ev now None None r3 = Some r'" "answered_nocard r' \<or> cr_cards r' = cs \<and> pending_at t r'"
    using r1 by (auto simp: answered_nocard_def r3_def r2_def)
  have run: "cc_recv ci ev now nok2 (r, lk) = Some (255, 0xFF, after_msg r', lk)"
    unfolding recv_nok2 fst_conv snd_conv Let_def nok send r'(1) by simp
  show ?thesis using r'(2)
  proof
    assume "answered_nocard r'"
    then show ?thesis using run by (intro exI [of _ "after_msg r'"]) simp
  next
    assume a: "cr_cards r' = cs \<and> pending_at t r'"
    then have "after_msg r' = r'" by (simp add: pending_at_def after_msg_def)
    then show ?thesis using run a less by (intro exI [of _ r']) simp
  qed
qed

lemma chances_left: "pending_at t r \<Longrightarrow> 0 < chances t (cr_cards r)"
proof -
  assume "pending_at t r"
  then obtain c where "c \<in> set (cr_cards r)" "serves t c" by (auto simp: pending_at_def)
  then have "chance t c \<le> chances t (cr_cards r)" unfolding chances_def by (intro member_le_sum_list) auto
  moreover have "0 < chance t c" using \<open>serves t c\<close> by (simp add: chance_def)
  ultimately show ?thesis by simp
qed

text \<open>A refusal on a connection whose ciphers stay at \<open>lk\<close>.\<close>

definition refusal :: "('k1, 'k2, 'k3) ciphers \<Rightarrow> cc_env \<Rightarrow> timeb \<Rightarrow> ('k1, 'k2, 'k3) cc_state \<Rightarrow> ('k1, 'k2, 'k3) cc_state option" where
  "refusal ci ev now st = map_option (\<lambda>(n, b, st'). st') (cc_recv ci ev now nok2 st)"

definition retried :: "cc_env \<Rightarrow> timeb \<Rightarrow> cc_task \<Rightarrow> 'l \<Rightarrow> cc_reader \<times> 'l \<Rightarrow> bool" where
  "retried ev now t lk st \<longleftrightarrow> snd st = lk \<and> pending_at t (fst st) \<and> \<not> tk_loop t \<and> tb_time now - tk_time t \<le> ecm_limit ev \<and> \<not> env_forward ev"

interpretation retry: draining "refusal ci ev now" "retried ev now t lk" "\<lambda>st. snd st = lk \<and> answered_nocard (fst st)"
  "\<lambda>st. chances t (cr_cards (fst st))" for ci ev now t lk
proof unfold_locales
  fix st assume "retried ev now t lk st"
  then obtain r where st: "st = (r, lk)" and r: "pending_at t r" "\<not> tk_loop t" "tb_time now - tk_time t \<le> ecm_limit ev" "\<not> env_forward ev"
    unfolding retried_def by (cases st) auto
  from refuse_step [OF r, of ci lk] obtain r' where s: "cc_recv ci ev now nok2 (r, lk) = Some (255, 0xFF, r', lk)"
    "answered_nocard r' \<or> pending_at t r' \<and> chances t (cr_cards r') < chances t (cr_cards r)" by blast
  then show "\<exists>s'. refusal ci ev now st = Some s' \<and> (snd s' = lk \<and> answered_nocard (fst s') \<or>
      retried ev now t lk s' \<and> chances t (cr_cards (fst s')) < chances t (cr_cards (fst st)))"
    using r by (intro exI [of _ "(r', lk)"]) (auto simp: refusal_def st retried_def)
next
  fix st assume "retried ev now t lk st"
  then show "0 < chances t (cr_cards (fst st))" by (simp add: retried_def chances_left)
qed

lemma refusals_repeat: "refusals ci ev now k st = repeat_step (refusal ci ev now) k st"
  by (induction k arbitrary: st) (auto simp: refusal_def split: option.splits)

lemma refusals_end:
  assumes "pending_at t r" "\<not> tk_loop t" "tb_time now - tk_time t \<le> ecm_limit ev" "\<not> env_forward ev"
  shows "\<exists>k r'. 0 < k \<and> k \<le> chances t (cr_cards r) \<and> refusals ci ev now k (r, lk) = Some (r', lk) \<and> answered_nocard r'"
proof -
  have "retried ev now t lk (r, lk)" using assms by (simp add: retried_def)
  from retry.ends [OF this, of ci] show ?thesis unfolding refusals_repeat by auto
qed



definition waiting_ex :: cc_reader where
  "waiting_ex = reader_ex\<lparr>cr_connected := 2, cr_tasks := [task_ex\<lparr>tk_rc := 101\<rparr>], cr_cards := [card_ex 1 1], cr_next := 2,
     cr_counts := [1, 0, 0, 1, 0, 0, 0],
     cr_eei := [\<lparr>ee_send_idx = 1, ee_ecm_idx = tk_idx task_ex, ee_card = 1, ee_srvid = task_srvid task_ex\<rparr>]\<rparr>"


end
