(* ===== verification/Ban.thy ===== *)
theory Ban
  imports Prelude
begin

text \<open>
  The list of refused addresses, \<open>cs_check_v\<close> of \<open>oscam.c\<close> with its two callers. \<open>cfg.v_list\<close> is the list of
  its entries in order (\<open>ll_iter_insert\<close> at the end of a walk appends); a list that was not created yet is
  empty. The clock is read once per call, \<open>mem\<close> is the answer of \<open>cs_malloc\<close>.
\<close>

section \<open>Operations\<close>

record v_ban =
  v_count :: int
  v_ip :: u32
  v_port :: int
  v_time :: int

record ban_config =
  failbantime :: int
  failbancount :: int

definition ftime :: "ban_config \<Rightarrow> int" where
  "ftime cfg = s32 (failbantime cfg * 60)"

text \<open>The walk over the list: whether the address is in it, and the list after the housekeeping.\<close>

fun ban_walk :: "ban_config \<Rightarrow> int \<Rightarrow> u32 \<Rightarrow> int \<Rightarrow> bool \<Rightarrow> v_ban list \<Rightarrow> bool \<times> v_ban list" where
  "ban_walk cfg now ip port add [] = (False, [])"
| "ban_walk cfg now ip port add (b # bs) =
     (let (result, rest) = ban_walk cfg now ip port add bs in
      if ftime cfg \<le> now - v_time b then (result, rest)
      else if ip = v_ip b \<and> port = v_port b
      then (True, (if \<not> add \<and> v_count b < failbancount cfg then b\<lparr>v_count := v_count b + 1\<rparr> else b) # rest)
      else (result, b # rest))"

definition cs_check_v :: "ban_config \<Rightarrow> bool \<Rightarrow> int \<Rightarrow> u32 \<Rightarrow> int \<Rightarrow> bool \<Rightarrow> v_ban list \<Rightarrow> int \<times> v_ban list" where
  "cs_check_v cfg mem now ip port add v_list =
     (if failbantime cfg = 0 then (0, v_list)
      else let (result, bs) = ban_walk cfg now ip port add v_list in
        (if result then 1 else 0,
         if add \<and> \<not> result \<and> mem then bs @ [\<lparr>v_count = 1, v_ip = ip, v_port = port, v_time = now\<rparr>] else bs))"

definition cs_check_violation :: "ban_config \<Rightarrow> bool \<Rightarrow> int \<Rightarrow> u32 \<Rightarrow> int \<Rightarrow> v_ban list \<Rightarrow> int \<times> v_ban list" where
  "cs_check_violation cfg mem now ip port v_list = cs_check_v cfg mem now ip port False v_list"

definition cs_add_violation :: "ban_config \<Rightarrow> bool \<Rightarrow> int \<Rightarrow> u32 \<Rightarrow> int \<Rightarrow> v_ban list \<Rightarrow> v_ban list" where
  "cs_add_violation cfg mem now ip port v_list = snd (cs_check_v cfg mem now ip port True v_list)"

section \<open>What the list promises\<close>

text \<open>A history is a sequence of violations and of connections, each at its time. The abstract state holds, for
  each address and port, the time of the violation that started the current ban: one that comes while a ban
  runs changes nothing, and a ban is over \<open>failbantime\<close> minutes after it started.\<close>

datatype ban_event = Violation int u32 int | Connect int u32 int

fun ev_time :: "ban_event \<Rightarrow> int" where
  "ev_time (Violation t ip port) = t"
| "ev_time (Connect t ip port) = t"

definition banned :: "ban_config \<Rightarrow> (u32 \<times> int \<rightharpoonup> int) \<Rightarrow> int \<Rightarrow> u32 \<times> int \<Rightarrow> bool" where
  "banned cfg m t k = (case m k of None \<Rightarrow> False | Some s \<Rightarrow> t - s < ftime cfg)"

fun spec_run :: "ban_config \<Rightarrow> (u32 \<times> int \<rightharpoonup> int) \<Rightarrow> ban_event list \<Rightarrow> bool list" where
  "spec_run cfg m [] = []"
| "spec_run cfg m (Violation t ip port # es) =
     spec_run cfg (if banned cfg m t (ip, port) then m else m((ip, port) \<mapsto> t)) es"
| "spec_run cfg m (Connect t ip port # es) = banned cfg m t (ip, port) # spec_run cfg m es"

fun ban_run :: "ban_config \<Rightarrow> v_ban list \<Rightarrow> ban_event list \<Rightarrow> bool list" where
  "ban_run cfg bs [] = []"
| "ban_run cfg bs (Violation t ip port # es) = ban_run cfg (cs_add_violation cfg True t ip port bs) es"
| "ban_run cfg bs (Connect t ip port # es) =
     (let (refused, bs') = cs_check_violation cfg True t ip port bs in (refused = 1) # ban_run cfg bs' es)"

section \<open>Lemmas\<close>

abbreviation live :: "ban_config \<Rightarrow> int \<Rightarrow> v_ban \<Rightarrow> bool" where
  "live cfg t b \<equiv> t - v_time b < ftime cfg"

abbreviation key :: "v_ban \<Rightarrow> u32 \<times> int" where
  "key b \<equiv> (v_ip b, v_port b)"

definition starts :: "v_ban list \<Rightarrow> ((u32 \<times> int) \<times> int) set" where
  "starts bs = (\<lambda>b. (key b, v_time b)) ` set bs"

lemma walk_result: "fst (ban_walk cfg t ip port add bs) \<longleftrightarrow> (\<exists>b \<in> set bs. live cfg t b \<and> key b = (ip, port))"
  by (induction bs) (auto simp: Let_def case_prod_beta)

lemma walk_map:
  "map (\<lambda>b. (key b, v_time b)) (snd (ban_walk cfg t ip port add bs)) = map (\<lambda>b. (key b, v_time b)) (filter (live cfg t) bs)"
  by (induction bs) (auto simp: Let_def case_prod_beta)

lemma walk_starts: "starts (snd (ban_walk cfg t ip port add bs)) = starts (filter (live cfg t) bs)"
  using arg_cong [OF walk_map, of set] unfolding starts_def set_map by blast

lemma walk_keys: "map key (snd (ban_walk cfg t ip port add bs)) = map key (filter (live cfg t) bs)"
  using arg_cong [OF walk_map, of "map fst" cfg t ip port add bs] by (simp add: comp_def)

lemma check_v_eq:
  assumes "failbantime cfg \<noteq> 0"
  shows "fst (cs_check_v cfg mem t ip port add bs) = (if fst (ban_walk cfg t ip port add bs) then 1 else 0)"
    and "snd (cs_check_v cfg mem t ip port add bs) =
      (let bs' = snd (ban_walk cfg t ip port add bs) in
       if add \<and> \<not> fst (ban_walk cfg t ip port add bs) \<and> mem
       then bs' @ [\<lparr>v_count = 1, v_ip = ip, v_port = port, v_time = t\<rparr>] else bs')"
  using assms by (simp_all add: cs_check_v_def Let_def case_prod_beta)

text \<open>The list stands for the map \<open>m\<close> at time \<open>t\<close>: one entry for each address, the bans that still run are
  those of \<open>m\<close>, and nothing else is in it that would run.\<close>

definition stands_for :: "ban_config \<Rightarrow> int \<Rightarrow> v_ban list \<Rightarrow> (u32 \<times> int \<rightharpoonup> int) \<Rightarrow> bool" where
  "stands_for cfg t bs m \<longleftrightarrow> distinct (map key bs) \<and>
     (\<forall>k s. t - s < ftime cfg \<longrightarrow> ((k, s) \<in> starts bs \<longleftrightarrow> m k = Some s))"

lemma stands_later: "stands_for cfg t bs m \<Longrightarrow> t \<le> u \<Longrightarrow> stands_for cfg u bs m"
  by (auto simp: stands_for_def)

lemma live_starts: "t - s < ftime cfg \<Longrightarrow> (k, s) \<in> starts (filter (live cfg t) bs) \<longleftrightarrow> (k, s) \<in> starts bs"
  by (auto simp: starts_def)

lemma stands_walk: "stands_for cfg t bs m \<Longrightarrow> stands_for cfg t (snd (ban_walk cfg t ip port add bs)) m"
  by (simp add: stands_for_def walk_keys walk_starts live_starts distinct_map_filter)

lemma stands_banned:
  assumes "stands_for cfg t bs m"
  shows "fst (ban_walk cfg t ip port add bs) \<longleftrightarrow> banned cfg m t (ip, port)"
proof -
  have "fst (ban_walk cfg t ip port add bs) \<longleftrightarrow> (\<exists>s. t - s < ftime cfg \<and> ((ip, port), s) \<in> starts bs)"
    by (auto simp: walk_result starts_def)
  also have "\<dots> \<longleftrightarrow> (\<exists>s. t - s < ftime cfg \<and> m (ip, port) = Some s)"
    using assms unfolding stands_for_def by blast
  finally show ?thesis by (auto simp: banned_def split: option.split)
qed

lemma starts_snoc: "starts (bs @ [b]) = insert (key b, v_time b) (starts bs)"
  by (auto simp: starts_def)

lemma stands_new:
  assumes s: "stands_for cfg t bs m" and n: "\<not> banned cfg m t (ip, port)" and e: "\<forall>b \<in> set bs. live cfg t b"
  shows "stands_for cfg t (bs @ [\<lparr>v_count = 1, v_ip = ip, v_port = port, v_time = t\<rparr>]) (m((ip, port) \<mapsto> t))"
proof -
  have k: "((ip, port), s) \<notin> starts bs" for s
  proof
    assume a: "((ip, port), s) \<in> starts bs"
    then have "t - s < ftime cfg" using e by (auto simp: starts_def)
    moreover from this a s have "m (ip, port) = Some s" by (simp add: stands_for_def)
    ultimately show False using n by (simp add: banned_def)
  qed
  then have "(ip, port) \<notin> key ` set bs" by (force simp: starts_def)
  moreover have "m (ip, port) \<noteq> Some s" if "t - s < ftime cfg" for s using n that by (auto simp: banned_def)
  ultimately show ?thesis using s k by (auto simp: stands_for_def starts_snoc)
qed

lemma walk_live: "\<forall>b \<in> set (snd (ban_walk cfg t ip port add bs)). live cfg t b"
proof -
  have "(key b, v_time b) \<in> starts (filter (live cfg t) bs)" if "b \<in> set (snd (ban_walk cfg t ip port add bs))" for b
    using that walk_starts [of cfg t ip port add bs] by (auto simp: starts_def)
  then show ?thesis by (fastforce simp: starts_def)
qed

lemma stands_add:
  assumes "failbantime cfg \<noteq> 0" and s: "stands_for cfg t bs m"
  shows "stands_for cfg t (cs_add_violation cfg True t ip port bs) (if banned cfg m t (ip, port) then m else m((ip, port) \<mapsto> t))"
  using assms(1) stands_walk [OF s, of ip port True] stands_banned [OF s, of ip port True]
    stands_new [OF stands_walk [OF s, of ip port True] _ walk_live, of ip port]
  by (simp add: cs_add_violation_def check_v_eq Let_def)

lemma ban_run_refines:
  assumes "failbantime cfg \<noteq> 0" "sorted (t # map ev_time es)" "stands_for cfg t bs m"
  shows "ban_run cfg bs es = spec_run cfg m es"
  using assms(2,3)
proof (induction es arbitrary: t bs m)
  case (Cons e es)
  then have s: "stands_for cfg (ev_time e) bs m" using stands_later by fastforce
  have o: "sorted (ev_time e # map ev_time es)" using Cons.prems(1) by simp
  show ?case
  proof (cases e)
    case (Violation u ip port)
    then show ?thesis using Cons.IH [OF o] stands_add [OF assms(1), of u bs m ip port] s by simp
  next
    case (Connect u ip port)
    then have "stands_for cfg u (snd (ban_walk cfg u ip port False bs)) m" using stands_walk s by simp
    moreover have "fst (ban_walk cfg u ip port False bs) = banned cfg m u (ip, port)" using stands_banned s Connect by simp
    ultimately show ?thesis using Cons.IH [OF o] Connect assms(1)
      by (simp add: cs_check_violation_def check_v_eq Let_def case_prod_beta)
  qed
qed simp

lemma empty_stands: "stands_for cfg t [] Map.empty"
  by (simp add: stands_for_def starts_def)

section \<open>Properties\<close>


definition ban_cfg0 :: ban_config where
  "ban_cfg0 = \<lparr>failbantime = 5, failbancount = 3\<rparr>"


text \<open>\<open>failbancount\<close> plays no part in it: an address is refused from its first violation on, whatever number of
  chances is configured.\<close>

lemma walk_ignores_count:
  "fst (ban_walk (cfg\<lparr>failbancount := c\<rparr>) t ip port add bs) = fst (ban_walk cfg t ip port add bs)"
  by (simp add: walk_result ftime_def)

lemma chances_ignored:
  "fst (cs_check_v (cfg\<lparr>failbancount := n\<rparr>) mem t ip port add bs) = fst (cs_check_v cfg mem t ip port add bs)"
  using walk_ignores_count [where cfg = cfg and c = n and t = t and ip = ip and port = port and add = add and bs = bs] by (simp add: cs_check_v_def Let_def case_prod_beta)

end
