(* ===== verification/Config.thy ===== *)
theory Config
  imports Simples Globals Contracts
begin

unbundle bit_operations_syntax

text \<open>
  The tables of the configuration, \<open>oscam-config.c\<close>: what the parsers of the values make of a string, what the printers that the
  configuration files and the web interface use make of a table, and that the two fit together. Strings end before the NUL. \<open>None\<close> is an
  access outside an array or a shift by more than the width of the type.
\<close>

section \<open>Cutting strings\<close>

lemma dropWhile_shorter: "dropWhile P s = x # xs \<Longrightarrow> length (dropWhile Q xs) < length s"
  using length_dropWhile_le [of P s] length_dropWhile_le [of Q xs] by simp

text \<open>All that \<open>strtok_r\<close> returns for one separator: the pieces between separators that are not empty.\<close>

function tokens :: "char \<Rightarrow> string \<Rightarrow> string list" where
  "tokens d s =
     (let s1 = dropWhile (\<lambda>c. c = d) s in
      if s1 = [] then [] else takeWhile (\<lambda>c. c \<noteq> d) s1 # tokens d (dropWhile (\<lambda>c. c \<noteq> d) s1))"
  by pat_completeness auto

termination
proof (relation "measure (\<lambda>(d, s). length s)", goal_cases)
  case (2 d s s1)
  then have n: "s1 \<noteq> []" "hd s1 \<noteq> d" using hd_dropWhile [of "\<lambda>c. c = d" s] by simp_all
  then obtain x xs where x: "s1 = x # xs" by (cases s1) auto
  then have "dropWhile (\<lambda>c. c \<noteq> d) s1 = dropWhile (\<lambda>c. c \<noteq> d) xs" using n by simp
  then show ?case using dropWhile_shorter [of "\<lambda>c. c = d" s x xs] 2 x by simp
qed simp

declare tokens.simps [simp del]

text \<open>\<open>strchr\<close> with the separator set to NUL: what stands before it, and after it when there is one.\<close>

definition cut :: "char \<Rightarrow> string \<Rightarrow> string \<times> string option" where
  "cut c s = (if c \<in> set s then (takeWhile (\<lambda>x. x \<noteq> c) s, Some (tl (dropWhile (\<lambda>x. x \<noteq> c) s))) else (s, None))"

definition or_empty :: "string option \<Rightarrow> string" where
  "or_empty s = (case s of None \<Rightarrow> '''' | Some t \<Rightarrow> t)"

definition a2i_val :: "string \<Rightarrow> int \<Rightarrow> u32 option" where
  "a2i_val s n = map_option fst (a2i s n)"

text \<open>\<open>atoi\<close>: blanks, a sign, digits. A number outside \<open>int32_t\<close> has no result.\<close>

definition is_digit :: "char \<Rightarrow> bool" where
  "is_digit c \<longleftrightarrow> 48 \<le> (of_char c :: nat) \<and> (of_char c :: nat) \<le> 57"

definition is_space :: "char \<Rightarrow> bool" where
  "is_space c \<longleftrightarrow> c = CHR '' '' \<or> 9 \<le> (of_char c :: nat) \<and> (of_char c :: nat) \<le> 13"

definition digits_value :: "string \<Rightarrow> int" where
  "digits_value s = foldl (\<lambda>n c. 10 * n + (int (of_char c) - 48)) 0 (takeWhile is_digit s)"

definition atoi :: "string \<Rightarrow> int option" where
  "atoi s =
     (let t = dropWhile is_space s;
          v = (case t of [] \<Rightarrow> 0 | c # r \<Rightarrow> if c = CHR ''-'' then - digits_value r else if c = CHR ''+'' then digits_value r else digits_value t) in
      if - (2 ^ 31) \<le> v \<and> v < 2 ^ 31 then Some v else None)"

section \<open>Printing numbers\<close>

definition hex4 :: "u16 \<Rightarrow> string" where
  "hex4 w = [hexdigit (unat w div 4096), hexdigit (unat w div 256), hexdigit (unat w div 16), hexdigit (unat w)]"

definition hex6 :: "u32 \<Rightarrow> string" where
  "hex6 w = [hexdigit (unat w div 1048576), hexdigit (unat w div 65536), hexdigit (unat w div 4096), hexdigit (unat w div 256),
     hexdigit (unat w div 16), hexdigit (unat w)]"

fun decimal :: "nat \<Rightarrow> string" where
  "decimal n = (if n < 10 then [char_of (n + 48)] else decimal (n div 10) @ [char_of (n mod 10 + 48)])"

declare decimal.simps [simp del]

section \<open>CAIDs\<close>

definition CS_MAXCAIDTAB :: nat where "CS_MAXCAIDTAB = 32"

text \<open>One column of a CAID table: CAID, mask, mapped CAID. The table is the array of its columns; it ends at the first CAID 0.\<close>

type_synonym caid_entry = "u16 \<times> u16 \<times> u16"

definition caid_entry :: "string \<Rightarrow> caid_entry option option" where
  "caid_entry ptr =
     (let (p, p3) = cut (CHR '':'') (trim ptr); (p1, p2) = cut (CHR ''&'') (trim p) in do {
        caid \<leftarrow> a2i_val p1 2;
        m \<leftarrow> a2i_val (or_empty p2) (-2);
        cmap \<leftarrow> a2i_val (or_empty p3) 2;
        Some (if caid OR m OR cmap < 0x10000 then Some (ucast caid, ucast m, ucast cmap) else None) })"

fun caid_entries :: "nat \<Rightarrow> string list \<Rightarrow> caid_entry list option" where
  "caid_entries 0 ps = Some []"
| "caid_entries (Suc n) [] = Some []"
| "caid_entries (Suc n) (p # ps) =
     (case caid_entry p of
        None \<Rightarrow> None
      | Some None \<Rightarrow> caid_entries (Suc n) ps
      | Some (Some e) \<Rightarrow> map_option ((#) e) (caid_entries n ps))"

text \<open>Unused columns have the mask FFFF, but for the first one.\<close>

definition caid_pad :: "nat \<Rightarrow> caid_entry list" where
  "caid_pad k = map (\<lambda>i. (0, if i = 0 then 0 else 0xFFFF, 0)) [k..<CS_MAXCAIDTAB]"

definition chk_caidtab :: "string \<Rightarrow> caid_entry list option" where
  "chk_caidtab s = map_option (\<lambda>es. es @ caid_pad (length es)) (caid_entries CS_MAXCAIDTAB (tokens (CHR '','') s))"

fun join :: "string \<Rightarrow> string list \<Rightarrow> string" where
  "join sep [] = ''''"
| "join sep [p] = p"
| "join sep (p # q # ps) = p @ sep @ join sep (q # ps)"

definition print_caid :: "caid_entry \<Rightarrow> string" where
  "print_caid e = (case e of (caid, m, cmap) \<Rightarrow>
     hex4 caid @ (if m \<noteq> 0 \<and> m \<noteq> 0xFFFF then ''&'' @ hex4 m else '''') @ (if cmap \<noteq> 0 then '':'' @ hex4 cmap else ''''))"

text \<open>A full table has no end: the loop runs on into the masks.\<close>

definition mk_t_caidtab :: "caid_entry list \<Rightarrow> string option" where
  "mk_t_caidtab tab =
     (let es = takeWhile (\<lambda>e. fst e \<noteq> 0) tab in if length es = length tab then None else Some (join '','' (map print_caid es)))"

section \<open>Tunnels\<close>

definition CS_MAXTUNTAB :: nat where "CS_MAXTUNTAB = 20"

text \<open>From, service, to.\<close>

type_synonym tun_entry = "u16 \<times> u16 \<times> u16"

definition tun_entry :: "string \<Rightarrow> tun_entry option option" where
  "tun_entry ptr =
     (let (p, p3) = cut (CHR '':'') (trim ptr); (p1, p2) = cut (CHR ''.'') (trim p) in do {
        from_caid \<leftarrow> a2i_val p1 2;
        srvid \<leftarrow> a2i_val (or_empty p2) (-2);
        to_caid \<leftarrow> a2i_val (or_empty p3) 2;
        Some (if from_caid OR srvid OR to_caid \<noteq> 0 then Some (ucast from_caid, ucast srvid, ucast to_caid) else None) })"

fun tun_entries :: "nat \<Rightarrow> string list \<Rightarrow> tun_entry list option" where
  "tun_entries 0 ps = Some []"
| "tun_entries (Suc n) [] = Some []"
| "tun_entries (Suc n) (p # ps) =
     (case tun_entry p of
        None \<Rightarrow> None
      | Some None \<Rightarrow> tun_entries (Suc n) ps
      | Some (Some e) \<Rightarrow> map_option ((#) e) (tun_entries n ps))"

definition chk_tuntab :: "string \<Rightarrow> tun_entry list option" where
  "chk_tuntab s = tun_entries CS_MAXTUNTAB (tokens (CHR '','') s)"

definition print_tun :: "tun_entry \<Rightarrow> string" where
  "print_tun e = (case e of (a, srvid, b) \<Rightarrow>
     hex4 a @ (if srvid \<noteq> 0 then ''.'' @ hex4 srvid else '''') @ (if b \<noteq> 0 then '':'' @ hex4 b else ''''))"

definition mk_t_tuntab :: "tun_entry list \<Rightarrow> string" where
  "mk_t_tuntab tab = join '','' (map print_tun tab)"

section \<open>Filters for CAIDs and providers\<close>

definition CS_MAXFILTERS :: nat where "CS_MAXFILTERS = 16"
definition CS_MAXPROV :: nat where "CS_MAXPROV = 32"

text \<open>A filter without a CAID: for CHIDs (\<open>chid\<close>) the whole value is given up.\<close>

definition ftab_head :: "string \<Rightarrow> (u16 option \<times> string) option" where
  "ftab_head ptr = (case cut (CHR '':'') (trim ptr) of
     (p, Some q) \<Rightarrow> map_option (\<lambda>c. (Some (ucast c), q)) (a2i_val p 4)
   | (p, None) \<Rightarrow> Some (None, p))"

fun all_some :: "'a option list \<Rightarrow> 'a list option" where
  "all_some [] = Some []"
| "all_some (x # xs) = (case x of None \<Rightarrow> None | Some y \<Rightarrow> map_option ((#) y) (all_some xs))"

definition ftab_filter :: "u16 option \<times> string \<Rightarrow> filter_rec option" where
  "ftab_filter h = map_option (\<lambda>ps. \<lparr>f_caid = (case fst h of None \<Rightarrow> 0 | Some c \<Rightarrow> c), f_prids = ps\<rparr>)
     (all_some (map (\<lambda>p. a2i_val p 6) (take CS_MAXPROV (tokens (CHR '','') (snd h)))))"

text \<open>\<open>old\<close> is the table before.\<close>

definition chk_ftab :: "bool \<Rightarrow> string \<Rightarrow> ftab \<Rightarrow> ftab option" where
  "chk_ftab chid s old = do {
     heads \<leftarrow> all_some (map ftab_head (take CS_MAXFILTERS (tokens (CHR '';'') s)));
     (if chid \<and> list_ex (\<lambda>h. fst h = None) heads then Some old else all_some (map ftab_filter heads)) }"

definition print_filter :: "filter_rec \<Rightarrow> string" where
  "print_filter f = hex4 (f_caid f) @ (if f_prids f = [] then '''' else '':'' @ join '','' (map hex6 (f_prids f)))"

text \<open>A provider with more than six digits shifts what follows; it has no result here.\<close>

definition mk_t_ftab :: "ftab \<Rightarrow> string option" where
  "mk_t_ftab tab =
     (if list_all (\<lambda>f. list_all (\<lambda>p. p < 0x1000000) (f_prids f)) tab then Some (join '';'' (map print_filter tab)) else None)"

section \<open>Classes\<close>

definition class_byte :: "string \<Rightarrow> u8 option" where
  "class_byte s = map_option ucast (a2i_val s 2)"

fun cltab_loop :: "string list \<Rightarrow> classtab \<Rightarrow> classtab option" where
  "cltab_loop [] t = Some t"
| "cltab_loop (p # ps) t =
     (let s = trim p in
      case s of
        CHR ''!'' # r \<Rightarrow> (case class_byte r of None \<Rightarrow> None | Some b \<Rightarrow>
          if length (bclass t) < 31 then cltab_loop ps (t\<lparr>bclass := bclass t @ [b]\<rparr>) else None)
      | _ \<Rightarrow> (case class_byte s of None \<Rightarrow> None | Some b \<Rightarrow>
          if length (aclass t) < 31 then cltab_loop ps (t\<lparr>aclass := aclass t @ [b]\<rparr>) else None))"

text \<open>The number of classes is never compared with the size of the arrays.\<close>

definition chk_cltab :: "string \<Rightarrow> classtab option" where
  "chk_cltab s = cltab_loop (tokens (CHR '','') s) \<lparr>aclass = [], bclass = []\<rparr>"

text \<open>\<open>"%02x"\<close>.\<close>

definition hex02l :: "u8 \<Rightarrow> string" where
  "hex02l b = [to_hex (drop_bit 4 b), to_hex b]"

definition mk_t_cltab :: "classtab \<Rightarrow> string" where
  "mk_t_cltab t = join '','' (map hex02l (aclass t) @ map (\<lambda>b. ''!'' @ hex02l b) (bclass t))"

section \<open>Groups\<close>

definition group_bit :: "int \<Rightarrow> u64" where
  "group_bit g = (if 0 < g \<and> g < 65 then push_bit (nat (g - 1)) 1 else 0)"

definition chk_group :: "string \<Rightarrow> u64 option" where
  "chk_group s = map_option (\<lambda>gs. foldl (\<lambda>w g. w OR group_bit g) 0 gs) (all_some (map atoi (tokens (CHR '','') s)))"

definition mk_t_group :: "u64 \<Rightarrow> string" where
  "mk_t_group grp = join '','' (map (\<lambda>i. decimal (i + 1)) (filter (\<lambda>i. bit grp i) [0..<64]))"

section \<open>Load balancer values by CAID\<close>

definition CS_MAX_CAIDVALUETAB :: nat where "CS_MAX_CAIDVALUETAB = 16"

definition value_entry :: "int \<Rightarrow> string \<Rightarrow> (u16 \<times> u16) option option" where
  "value_entry minvalue ptr =
     (let (p1, p2) = cut (CHR '':'') (trim ptr) in do {
        caid \<leftarrow> a2i_val p1 2;
        v \<leftarrow> atoi (or_empty p2);
        Some (if sint caid < 0xFFFF \<or> v < 10000 then Some (ucast caid, word_of_int (max v minvalue)) else None) })"

fun value_entries :: "int \<Rightarrow> nat \<Rightarrow> string list \<Rightarrow> (u16 \<times> u16) list option" where
  "value_entries mv 0 ps = Some []"
| "value_entries mv (Suc n) [] = Some []"
| "value_entries mv (Suc n) (p # ps) =
     (case value_entry mv p of
        None \<Rightarrow> None
      | Some None \<Rightarrow> value_entries mv (Suc n) ps
      | Some (Some e) \<Rightarrow> map_option ((#) e) (value_entries mv n ps))"

definition chk_caidvaluetab :: "int \<Rightarrow> string \<Rightarrow> (u16 \<times> u16) list option" where
  "chk_caidvaluetab minvalue s = value_entries minvalue CS_MAX_CAIDVALUETAB (tokens (CHR '','') s)"

definition mk_t_caidvaluetab :: "(u16 \<times> u16) list \<Rightarrow> string" where
  "mk_t_caidvaluetab tab = join '','' (map (\<lambda>(c, v). hex4 c @ '':'' @ decimal (unat v)) tab)"

section \<open>Services\<close>

text \<open>\<open>labels\<close> are the labels of the configured services, by number; there are at most 64 of them.\<close>

definition chk_services :: "string list \<Rightarrow> string \<Rightarrow> u64 \<times> u64" where
  "chk_services labels s =
     (let ts = map trim (tokens (CHR '','') s);
          bits = (\<lambda>P. foldl (\<lambda>w i. if list_ex (P (labels ! i)) ts then w OR push_bit i 1 else w) 0 [0..<length labels]) in
      (bits (\<lambda>l t. l = t), bits (\<lambda>l t. t = CHR ''!'' # l)))"

text \<open>The text is cut at 1023 characters.\<close>

definition mk_t_service :: "string list \<Rightarrow> u64 \<Rightarrow> u64 \<Rightarrow> string" where
  "mk_t_service labels ok no =
     take 1023 (join '','' (concat (map (\<lambda>i. (if bit ok i then [labels ! i] else []) @ (if bit no i then [CHR ''!'' # labels ! i] else []))
       [0..<length labels])))"

section \<open>What is printed is read back: the pieces\<close>

lemma tokens_Nil [simp]: "tokens d '''' = []"
  by (simp add: tokens.simps)

lemma tokens_sep [simp]: "tokens d (d # s) = tokens d s"
  by (subst (1 2) tokens.simps) simp

lemma takeWhile_all: "d \<notin> set p \<Longrightarrow> takeWhile (\<lambda>c. c \<noteq> d) (p @ d # s) = p \<and> dropWhile (\<lambda>c. c \<noteq> d) (p @ d # s) = d # s"
  by (induction p) auto

lemma tokens_piece: "\<lbrakk>p \<noteq> []; d \<notin> set p\<rbrakk> \<Longrightarrow> tokens d (p @ d # s) = p # tokens d s"
proof -
  assume a: "p \<noteq> []" "d \<notin> set p"
  then have "dropWhile (\<lambda>c. c = d) (p @ d # s) = p @ d # s" by (cases p) auto
  then show ?thesis using a takeWhile_all [of d p s] by (subst tokens.simps) (simp add: Let_def)
qed

lemma tokens_one: "\<lbrakk>p \<noteq> []; d \<notin> set p\<rbrakk> \<Longrightarrow> tokens d p = [p]"
proof -
  assume a: "p \<noteq> []" "d \<notin> set p"
  then have "dropWhile (\<lambda>c. c = d) p = p" by (cases p) auto
  moreover have t: "takeWhile (\<lambda>c. c \<noteq> d) p = p" and e: "dropWhile (\<lambda>c. c \<noteq> d) p = []" using a(2) by (induction p) auto
  ultimately show ?thesis using a(1) by (subst tokens.simps) (simp only: Let_def t e tokens_Nil if_False)
qed

lemma tokens_join: "list_all (\<lambda>p. p \<noteq> [] \<and> d \<notin> set p) ps \<Longrightarrow> tokens d (join [d] ps) = ps"
  by (induction "[d]" ps rule: join.induct) (simp_all add: tokens_one tokens_piece)

lemma cut_at [simp]: "c \<notin> set a \<Longrightarrow> cut c (a @ c # b) = (a, Some b)"
  using takeWhile_all [of c a b] by (simp add: cut_def)

lemma cut_none [simp]: "c \<notin> set a \<Longrightarrow> cut c a = (a, None)"
  by (simp add: cut_def)

lemma hexdigit_in: "hexdigit n \<in> set ''0123456789ABCDEF''"
  unfolding hexdigit_def by (rule nth_mem) simp

lemma hexdigit_not [simp]: "hexdigit n \<noteq> CHR '',''" "hexdigit n \<noteq> CHR '':''" "hexdigit n \<noteq> CHR '';''" "hexdigit n \<noteq> CHR ''&''"
  "hexdigit n \<noteq> CHR ''.''" "\<not> is_blank (hexdigit n)" "hexdigit n \<noteq> CHR ''!''"
  using hexdigit_in [of n] by (auto simp: is_blank_def)

lemma hexdigit_not_eq [simp]: "CHR '','' \<noteq> hexdigit n" "CHR '':'' \<noteq> hexdigit n" "CHR '';'' \<noteq> hexdigit n" "CHR ''&'' \<noteq> hexdigit n"
  "CHR ''.'' \<noteq> hexdigit n" "CHR ''!'' \<noteq> hexdigit n"
  using hexdigit_not [of n] by metis+

lemma trim_Nil [simp]: "trim '''' = ''''"
  by (simp add: trim_def)

lemma trim_solid: "\<lbrakk>s \<noteq> []; \<not> is_blank (hd s); \<not> is_blank (last s)\<rbrakk> \<Longrightarrow> trim s = s"
proof -
  assume a: "s \<noteq> []" "\<not> is_blank (hd s)" "\<not> is_blank (last s)"
  have "rev (dropWhile is_blank (rev s)) = s" using a(1,3) by (cases s rule: rev_cases) simp_all
  then show ?thesis using a(1,2) by (cases s) (auto simp: trim_def Let_def)
qed

lemma drop_bit_nibble: "int (n div 2 ^ k mod 16) = int (take_bit 4 (drop_bit k n))"
  by (simp add: take_bit_eq_mod drop_bit_eq_div)

lemma nibble_bit: "bit (word_of_int (int (n div 2 ^ k mod 16)) :: u32) i \<longleftrightarrow> i < 4 \<and> bit n (k + i)"
  unfolding drop_bit_nibble by (auto simp: bit_simps)

lemma nibble_push: "i < 32 \<Longrightarrow> bit (push_bit k (word_of_int (int (n div 2 ^ k mod 16))) :: u32) i \<longleftrightarrow> k \<le> i \<and> i < k + 4 \<and> bit n i"
  using nibble_bit [of n k "i - k"] by (auto simp: bit_push_bit_iff)

definition nibble :: "nat \<Rightarrow> nat \<Rightarrow> u32" where
  "nibble k n = push_bit k (word_of_int (int (n div 2 ^ k mod 16)))"

lemma bit_nibble: "i < 32 \<Longrightarrow> bit (nibble k n) i \<longleftrightarrow> k \<le> i \<and> i < k + 4 \<and> bit n i"
  unfolding nibble_def by (rule nibble_push)

lemma hex4_value: "nibble 0 n OR nibble 4 n OR nibble 8 n OR nibble 12 n = (of_nat (take_bit 16 n) :: u32)"
proof (rule bit_word_eqI)
  fix i assume i: "i < LENGTH(32)"
  have "(0 \<le> i \<and> i < 0 + 4 \<or> 4 \<le> i \<and> i < 4 + 4 \<or> 8 \<le> i \<and> i < 8 + 4 \<or> 12 \<le> i \<and> i < 12 + 4) \<longleftrightarrow> i < (16::nat)" by arith
  then show "bit (nibble 0 n OR nibble 4 n OR nibble 8 n OR nibble 12 n) i = bit (of_nat (take_bit 16 n) :: u32) i"
    using i by (simp only: bit_or_iff bit_nibble len_num1 len_bit0 bit_of_nat_iff bit_take_bit_iff) (auto simp: bit_nibble bit_of_nat_iff bit_take_bit_iff)
qed

lemma hex6_value: "nibble 0 n OR nibble 4 n OR nibble 8 n OR nibble 12 n OR nibble 16 n OR nibble 20 n = (of_nat (take_bit 24 n) :: u32)"
proof (rule bit_word_eqI)
  fix i assume i: "i < LENGTH(32)"
  have "(0 \<le> i \<and> i < 0 + 4 \<or> 4 \<le> i \<and> i < 4 + 4 \<or> 8 \<le> i \<and> i < 8 + 4 \<or> 12 \<le> i \<and> i < 12 + 4 \<or> 16 \<le> i \<and> i < 16 + 4 \<or> 20 \<le> i \<and> i < 20 + 4)
      \<longleftrightarrow> i < (24::nat)" by arith
  then show "bit (nibble 0 n OR nibble 4 n OR nibble 8 n OR nibble 12 n OR nibble 16 n OR nibble 20 n) i = bit (of_nat (take_bit 24 n) :: u32) i"
    using i by (auto simp: bit_or_iff bit_nibble bit_of_nat_iff bit_take_bit_iff)
qed

lemma a2i_Nil [simp]: "a2i_val '''' 2 = Some 0" "a2i_val '''' (-2) = Some 0xFFFF"
  by (simp_all add: a2i_val_def a2i_def eval_nat_numeral)

lemma a2i_loop_digit:
  "\<lbrakk>i < length s; s ! (length s - 1 - i) = hexdigit (n div 2 ^ (4 * i)); i < 8\<rbrakk> \<Longrightarrow>
     a2i_loop s neg i (Suc k) rc = a2i_loop s neg (i + 1) k (rc OR nibble (4 * i) n)"
  by (simp add: nibble_def)

lemma a2i_loop_past: "length s \<le> i \<Longrightarrow> a2i_loop s False i k rc = Some (rc, False)"
  by (induction k arbitrary: i) simp_all

lemma trim_hex4 [simp]: "trim (hex4 w) = hex4 w"
  by (rule trim_solid) (simp_all add: hex4_def)

lemma trim_hex6 [simp]: "trim (hex6 w) = hex6 w"
  by (rule trim_solid) (simp_all add: hex6_def)

lemma a2i_hex4 [simp]: "a2i_val (hex4 w) 2 = Some (ucast w)" "a2i_val (hex4 w) (-2) = Some (ucast w)" "a2i_val (hex4 w) 4 = Some (ucast w)"
proof -
  have v: "(of_nat (take_bit 16 (unat w)) :: u32) = ucast w" by (rule bit_word_eqI) (auto simp: bit_of_nat_iff bit_take_bit_iff bit_unsigned_iff dest: bit_imp_le_length)
  have four: "a2i_loop (hex4 w) neg 0 (Suc (Suc (Suc (Suc k)))) 0 = a2i_loop (hex4 w) neg (Suc (Suc (Suc (Suc 0)))) k (ucast w)" for neg k
    unfolding v [symmetric] hex4_value [symmetric]
    by (subst a2i_loop_digit [where n = "unat w"], (simp_all add: hex4_def)[3])+ (simp add: or.assoc)
  show "a2i_val (hex4 w) 2 = Some (ucast w)" "a2i_val (hex4 w) (-2) = Some (ucast w)"
    using four [of _ 0] by (simp_all add: a2i_val_def a2i_def eval_nat_numeral)
  have "a2i_loop (hex4 w) False (Suc (Suc (Suc (Suc 0)))) 4 (ucast w) = Some (ucast w, False)" by (rule a2i_loop_past) (simp add: hex4_def)
  then show "a2i_val (hex4 w) 4 = Some (ucast w)"
    using four [of False 4] by (simp add: a2i_val_def a2i_def eval_nat_numeral)
qed

lemma a2i_hex6: "w < 0x1000000 \<Longrightarrow> a2i_val (hex6 w) 6 = Some w"
proof -
  assume w: "w < 0x1000000"
  have v: "(of_nat (take_bit 24 (unat w)) :: u32) = w" using w by (simp add: take_bit_nat_eq_self word_less_nat_alt)
  have e: "nibble 0 (unat w) OR nibble 4 (unat w) OR nibble 8 (unat w) OR nibble 12 (unat w) OR nibble 16 (unat w) OR nibble 20 (unat w) = w"
    using hex6_value [of "unat w"] v by simp
  have six: "a2i_loop (hex6 w) False 0 (Suc (Suc (Suc (Suc (Suc (Suc k)))))) 0 = a2i_loop (hex6 w) False (Suc (Suc (Suc (Suc (Suc (Suc 0)))))) k w" for k
    by (subst a2i_loop_digit [where n = "unat w"], (simp_all add: hex6_def)[3])+ (simp add: or.assoc e)
  have "a2i_loop (hex6 w) False (Suc (Suc (Suc (Suc (Suc (Suc 0)))))) 6 w = Some (w, False)" by (rule a2i_loop_past) (simp add: hex6_def)
  then show ?thesis using six [of 6] by (simp add: a2i_val_def a2i_def eval_nat_numeral)
qed

section \<open>What is printed is read back\<close>

text \<open>A CAID table as the parser leaves it: the columns in use have a CAID and a mask, at least one column is free.\<close>

definition caid_table :: "caid_entry list \<Rightarrow> bool" where
  "caid_table tab \<longleftrightarrow> (let es = takeWhile (\<lambda>e. fst e \<noteq> 0) tab in
     tab = es @ caid_pad (length es) \<and> length es < CS_MAXCAIDTAB \<and> list_all (\<lambda>(c, m, k). c \<noteq> 0 \<and> m \<noteq> 0) es)"

lemma hex4_sets [simp]: "CHR '','' \<notin> set (hex4 w)" "CHR '':'' \<notin> set (hex4 w)" "CHR ''&'' \<notin> set (hex4 w)" "CHR ''.'' \<notin> set (hex4 w)"
  "CHR '';'' \<notin> set (hex4 w)" "hex4 w \<noteq> []" "\<not> is_blank (hd (hex4 w))" "\<not> is_blank (last (hex4 w))"
  by (simp_all add: hex4_def)

lemma small_or: "ucast (a :: u16) OR ucast (b :: u16) OR ucast (c :: u16) < (0x10000 :: u32)"
proof -
  have "ucast a OR ucast b OR ucast c = (ucast (a OR b OR c) :: u32)" by (simp add: unsigned_or_eq)
  moreover have "unat (ucast (a OR b OR c) :: u32) < 65536" using unsigned_less [of "a OR b OR c", where 'a = nat]
    by (simp add: unsigned_ucast_eq order.strict_trans1 [OF take_bit_nat_less_eq_self])
  ultimately show ?thesis by (simp add: word_less_nat_alt)
qed

lemma ucast_back [simp]: "ucast (ucast (c :: u16) :: u32) = c"
  by (rule bit_word_eqI) (auto simp: bit_unsigned_iff)

lemma trim_print: "\<lbrakk>x = '''' \<or> \<not> is_blank (last x)\<rbrakk> \<Longrightarrow> trim (hex4 w @ x) = hex4 w @ x"
  by (cases "x = ''''") (auto intro!: trim_solid simp: hd_append)

lemma caid_entry_print:
  assumes "m \<noteq> 0"
  shows "caid_entry (print_caid (c, m, k)) = Some (Some (c, m, k))"
proof -
  define x where "x = (if m \<noteq> 0 \<and> m \<noteq> 0xFFFF then ''&'' @ hex4 m else '''')"
  define y where "y = (if k \<noteq> 0 then '':'' @ hex4 k else '''')"
  have x: "CHR '':'' \<notin> set x" "x = '''' \<or> \<not> is_blank (last x)" by (simp_all add: x_def)
  have y: "y = '''' \<or> \<not> is_blank (last y)" by (simp add: y_def)
  have "trim (hex4 c @ x @ y) = hex4 c @ x @ y" using x(2) y by (intro trim_print) (auto simp: last_append)
  moreover have "cut (CHR '':'') (hex4 c @ x @ y) = (hex4 c @ x, if k \<noteq> 0 then Some (hex4 k) else None)"
    using x(1) cut_at [of "CHR '':''" "hex4 c @ x" "hex4 k"] by (simp add: y_def)
  moreover have "trim (hex4 c @ x) = hex4 c @ x" using x(2) by (rule trim_print)
  moreover have "cut (CHR ''&'') (hex4 c @ x) = (hex4 c, if m \<noteq> 0xFFFF then Some (hex4 m) else None)"
    using assms by (simp add: x_def)
  moreover have "ucast c OR (if m \<noteq> 0xFFFF then ucast m else 0xFFFF) OR (if k \<noteq> 0 then ucast k else 0) < (0x10000 :: u32)"
    using small_or [of c m k] small_or [of c "0xFFFF" k] by auto
  ultimately have "caid_entry (hex4 c @ x @ y) = Some (Some (ucast (ucast c :: u32), ucast (if m \<noteq> 0xFFFF then ucast m else 0xFFFF :: u32),
      ucast (if k \<noteq> 0 then ucast k else 0 :: u32)))"
    by (cases "m = 0xFFFF"; cases "k = 0") (simp_all add: caid_entry_def or_empty_def)
  then show ?thesis by (cases "m = 0xFFFF"; cases "k = 0") (simp_all add: print_caid_def x_def y_def)
qed

lemma caid_entries_print:
  "\<lbrakk>list_all (\<lambda>(c, m, k). c \<noteq> 0 \<and> m \<noteq> 0) es; length es \<le> n\<rbrakk> \<Longrightarrow> caid_entries n (map print_caid es) = Some es"
proof (induction es arbitrary: n)
  case Nil
  then show ?case by (cases n) simp_all
next
  case (Cons e es)
  obtain c m k where "e = (c, m, k)" by (cases e)
  with Cons show ?case by (cases n) (simp_all add: caid_entry_print)
qed

lemma caidtab_printed:
  assumes "caid_table tab"
  shows "\<exists>s. mk_t_caidtab tab = Some s \<and> chk_caidtab s = Some tab"
proof -
  define es where "es = takeWhile (\<lambda>e. fst e \<noteq> 0) tab"
  have t: "tab = es @ caid_pad (length es)" "length es < CS_MAXCAIDTAB" "list_all (\<lambda>(c, m, k). c \<noteq> 0 \<and> m \<noteq> 0) es"
    using assms by (simp_all add: caid_table_def es_def Let_def)
  have "length es \<noteq> length tab" using t(2) arg_cong [OF t(1), of length] by (simp add: caid_pad_def)
  then have p: "mk_t_caidtab tab = Some (join '','' (map print_caid es))" by (simp add: mk_t_caidtab_def es_def Let_def)
  have "list_all (\<lambda>p. p \<noteq> [] \<and> CHR '','' \<notin> set p) (map print_caid es)"
    by (auto simp: list_all_iff print_caid_def split: prod.split)
  from tokens_join [OF this] have "tokens (CHR '','') (join '','' (map print_caid es)) = map print_caid es" .
  then have "chk_caidtab (join '','' (map print_caid es)) = Some tab"
    using caid_entries_print [OF t(3), of CS_MAXCAIDTAB] t(1,2) by (simp add: chk_caidtab_def)
  with p show ?thesis by blast
qed

interpretation caid_codec: exact_codec mk_t_caidtab chk_caidtab caid_table
  by unfold_locales (rule caidtab_printed)

text \<open>C36. A CAID table survives the way into the configuration file and back: what \<open>mk_t_caidtab\<close> prints, \<open>chk_caidtab\<close> reads as the same table.\<close>

theorem caidtab_roundtrip:
  assumes "caid_table tab"
  shows "\<exists>s. mk_t_caidtab tab = Some s \<and> chk_caidtab s = Some tab"
  by (rule caid_codec.written_read [OF assms])

theorem caidtab_roundtrip_witness:
  "\<exists>s. mk_t_caidtab ([(0x0500, 0xFF00, 0), (0x1801, 0xFFFF, 0x1702)] @ caid_pad 2) = Some s \<and>
     chk_caidtab s = Some ([(0x0500, 0xFF00, 0), (0x1801, 0xFFFF, 0x1702)] @ caid_pad 2)"
  by (rule caidtab_roundtrip) code_simp

text \<open>Without a free column the printer runs past the end of the array; a mask of 0 is read as FFFF.\<close>

lemma full_caidtab_overruns: "mk_t_caidtab (replicate 32 (1, 0xFFFF, 0)) = None"
  by code_simp

lemma zero_mask_lost: "chk_caidtab (the (mk_t_caidtab ([(0x0500, 0, 0)] @ caid_pad 1))) = Some ([(0x0500, 0xFFFF, 0)] @ caid_pad 1)"
  by code_simp

lemma hex6_sets [simp]: "CHR '','' \<notin> set (hex6 w)" "CHR '':'' \<notin> set (hex6 w)" "CHR '';'' \<notin> set (hex6 w)" "hex6 w \<noteq> []"
  "\<not> is_blank (hd (hex6 w))" "\<not> is_blank (last (hex6 w))"
  by (simp_all add: hex6_def)

lemma set_join: "set (join sep ps) \<subseteq> set sep \<union> \<Union> (set ` set ps)"
  by (induction sep ps rule: join.induct) auto

lemma join_last: "\<lbrakk>ps \<noteq> []; list_all (\<lambda>p. p \<noteq> [] \<and> \<not> is_blank (last p)) ps\<rbrakk> \<Longrightarrow> join sep ps \<noteq> [] \<and> \<not> is_blank (last (join sep ps))"
  by (induction sep ps rule: join.induct) auto

lemma all_some_map: "list_all (\<lambda>x. f x = Some (g x)) xs \<Longrightarrow> all_some (map f xs) = Some (map g xs)"
  by (induction xs) auto

text \<open>A table of filters as the parsers leave it, in which every filter names a provider.\<close>

definition ftab_ok :: "ftab \<Rightarrow> bool" where
  "ftab_ok tab \<longleftrightarrow> length tab \<le> CS_MAXFILTERS \<and>
     list_all (\<lambda>f. f_prids f \<noteq> [] \<and> length (f_prids f) \<le> CS_MAXPROV \<and> list_all (\<lambda>p. p < 0x1000000) (f_prids f)) tab"

lemma print_filter_text:
  assumes "f_prids f \<noteq> []"
  shows "print_filter f = hex4 (f_caid f) @ CHR '':'' # join '','' (map hex6 (f_prids f))"
    "print_filter f \<noteq> []" "CHR '';'' \<notin> set (print_filter f)" "trim (print_filter f) = print_filter f"
proof -
  show p: "print_filter f = hex4 (f_caid f) @ CHR '':'' # join '','' (map hex6 (f_prids f))" using assms by (simp add: print_filter_def)
  then show "print_filter f \<noteq> []" by simp
  show "CHR '';'' \<notin> set (print_filter f)" using set_join [of "'',''" "map hex6 (f_prids f)"] by (auto simp: p)
  have "join '','' (map hex6 (f_prids f)) \<noteq> [] \<and> \<not> is_blank (last (join '','' (map hex6 (f_prids f))))"
    using assms by (intro join_last) (simp_all add: list_all_iff)
  then show "trim (print_filter f) = print_filter f" unfolding p by (intro trim_print) simp
qed

lemma filter_back:
  assumes "f_prids f \<noteq> []" "length (f_prids f) \<le> CS_MAXPROV" "list_all (\<lambda>p. p < 0x1000000) (f_prids f)"
  shows "ftab_head (print_filter f) = Some (Some (f_caid f), join '','' (map hex6 (f_prids f)))"
    "ftab_filter (Some (f_caid f), join '','' (map hex6 (f_prids f))) = Some f"
proof -
  show "ftab_head (print_filter f) = Some (Some (f_caid f), join '','' (map hex6 (f_prids f)))"
    unfolding ftab_head_def print_filter_text(4) [OF assms(1)] unfolding print_filter_text(1) [OF assms(1)] by simp
  have "tokens (CHR '','') (join '','' (map hex6 (f_prids f))) = map hex6 (f_prids f)" by (rule tokens_join) (simp add: list_all_iff)
  moreover have "all_some (map ((\<lambda>p. a2i_val p 6) \<circ> hex6) (f_prids f)) = Some (map (\<lambda>p. p) (f_prids f))"
    using assms(3) by (intro all_some_map) (auto simp: list_all_iff a2i_hex6)
  ultimately show "ftab_filter (Some (f_caid f), join '','' (map hex6 (f_prids f))) = Some f"
    using assms(2) by (simp add: ftab_filter_def)
qed

lemma ftab_printed:
  assumes "ftab_ok tab"
  shows "\<exists>s. mk_t_ftab tab = Some s \<and> chk_ftab chid s old = Some tab"
proof -
  have p: "mk_t_ftab tab = Some (join '';'' (map print_filter tab))" using assms by (auto simp: mk_t_ftab_def ftab_ok_def list_all_iff)
  have "tokens (CHR '';'') (join '';'' (map print_filter tab)) = map print_filter tab"
    using assms by (intro tokens_join) (auto simp: list_all_iff ftab_ok_def print_filter_text(2,3))
  moreover have "all_some (map (ftab_head \<circ> print_filter) tab) = Some (map (\<lambda>f. (Some (f_caid f), join '','' (map hex6 (f_prids f)))) tab)"
    using assms by (intro all_some_map) (auto simp: list_all_iff ftab_ok_def filter_back(1))
  moreover have "all_some (map (ftab_filter \<circ> (\<lambda>f. (Some (f_caid f), join '','' (map hex6 (f_prids f))))) tab) = Some (map (\<lambda>f. f) tab)"
    using assms by (intro all_some_map) (auto simp: list_all_iff ftab_ok_def filter_back(2))
  ultimately have "chk_ftab chid (join '';'' (map print_filter tab)) old = Some tab"
    using assms by (simp add: chk_ftab_def ftab_ok_def list_ex_iff comp_def)
  with p show ?thesis by blast
qed

interpretation ftab_codec: exact_codec mk_t_ftab "\<lambda>s. chk_ftab chid s old" ftab_ok for chid old
  by unfold_locales (rule ftab_printed)

text \<open>A table of CAIDs and providers (identities, CHIDs) survives the way into the configuration file and back, as long as each of its filters
  names a provider.\<close>

theorem ftab_roundtrip:
  assumes "ftab_ok tab"
  shows "\<exists>s. mk_t_ftab tab = Some s \<and> chk_ftab chid s old = Some tab"
  by (rule ftab_codec.written_read [OF assms])

theorem ftab_roundtrip_witness:
  "\<exists>s. mk_t_ftab [\<lparr>f_caid = 0x0500, f_prids = [0x032920, 0x023800]\<rparr>] = Some s \<and>
     chk_ftab False s [] = Some [\<lparr>f_caid = 0x0500, f_prids = [0x032920, 0x023800]\<rparr>]"
  by (rule ftab_roundtrip) code_simp

text \<open>A filter for a whole CAID does not: it comes back as a provider of every CAID.\<close>

lemma caid_filter_lost: "chk_ftab False (the (mk_t_ftab [\<lparr>f_caid = 0x0500, f_prids = []\<rparr>])) [] = Some [\<lparr>f_caid = 0, f_prids = [0x0500]\<rparr>]"
  by code_simp

section \<open>Groups are read back\<close>

lemma digit_of: "n < 10 \<Longrightarrow> of_char (char_of (n + 48) :: char) = n + (48 :: nat)"
  by (simp add: of_char_of)

lemma decimal_digits: "list_all is_digit (decimal n)"
proof (induction n rule: decimal.induct)
  case (1 n)
  have d: "is_digit (char_of (m + 48))" if "m < 10" for m :: nat using that by (simp add: is_digit_def digit_of)
  show ?case using 1 d [of n] d [of "n mod 10"] by (subst decimal.simps) simp
qed

lemma decimal_value: "foldl (\<lambda>n c. 10 * n + (int (of_char c) - 48)) 0 (decimal n) = int n"
proof (induction n rule: decimal.induct)
  case (1 n)
  show ?case
  proof (cases "n < 10")
    case True
    then show ?thesis by (subst decimal.simps) (simp add: digit_of)
  next
    case False
    have "10 * int (n div 10) + int (n mod 10) = int n" by (simp add: zdiv_int zmod_int)
    then show ?thesis using 1 False digit_of [of "n mod 10"] by (subst decimal.simps) simp
  qed
qed

lemma decimal_not_Nil [simp]: "decimal n \<noteq> []"
  by (subst decimal.simps) simp

lemma atoi_decimal: "n < 2 ^ 31 \<Longrightarrow> atoi (decimal n) = Some (int n)"
proof -
  assume n: "n < 2 ^ 31"
  obtain c r where d: "decimal n = c # r" by (cases "decimal n") auto
  have dc: "is_digit c" using decimal_digits [of n] by (simp add: d)
  then have "\<not> is_space c" "c \<noteq> CHR ''-''" "c \<noteq> CHR ''+''" by (auto simp: is_digit_def is_space_def)
  moreover have "takeWhile is_digit (c # r) = c # r" using decimal_digits [of n] by (simp add: d takeWhile_eq_all_conv list_all_iff)
  then have "digits_value (c # r) = int n" using decimal_value [of n] by (simp only: digits_value_def d)
  ultimately show ?thesis using n by (simp add: atoi_def d Let_def)
qed

lemma decimal_no_comma: "CHR '','' \<notin> set (decimal n)"
  using decimal_digits [of n] by (auto simp: list_all_iff is_digit_def)

lemma fold_or_bit: "bit (foldl (\<lambda>w g. w OR group_bit g) w gs) i \<longleftrightarrow> bit w i \<or> (\<exists>g \<in> set gs. bit (group_bit g) i)"
  by (induction gs arbitrary: w) (auto simp: bit_or_iff)

text \<open>The groups of a user or reader survive the way into the configuration file and back, whatever the 64 bits are.\<close>

theorem group_roundtrip: "chk_group (mk_t_group grp) = Some grp"
proof -
  define js where "js = filter (\<lambda>i. bit grp i) [0..<64]"
  have a: "atoi (decimal (i + 1)) = Some (int (i + 1))" if "i < 64" for i by (rule atoi_decimal) (use that in simp)
  have "tokens (CHR '','') (mk_t_group grp) = map (\<lambda>i. decimal (i + 1)) js"
    unfolding mk_t_group_def js_def by (rule tokens_join) (auto simp: list_all_iff decimal_no_comma)
  moreover have "all_some (map (atoi \<circ> (\<lambda>i. decimal (i + 1))) js) = Some (map (\<lambda>i. int (i + 1)) js)"
    by (intro all_some_map) (auto simp: list_all_iff js_def a [simplified])
  moreover have "foldl (\<lambda>w g. w OR group_bit g) 0 (map (\<lambda>i. int (i + 1)) js) = grp"
  proof (rule bit_word_eqI)
    fix n assume "n < LENGTH(64)"
    then show "bit (foldl (\<lambda>w g. w OR group_bit g) 0 (map (\<lambda>i. int (i + 1)) js)) n = bit grp n"
      unfolding fold_or_bit by (auto simp: js_def group_bit_def bit_push_bit_iff bit_1_iff bit_exp_iff)
  qed
  ultimately show ?thesis by (simp add: chk_group_def)
qed

end
