(* ===== verification/Clients.thy ===== *)
theory Clients
  imports AntiCasc Ban Config
begin

text \<open>
  The clients of the server in \<open>oscam.c\<close>: new connections (\<open>accept_connection\<close>, \<open>create_client\<close>), the login
  (\<open>cs_auth_client\<close>), the limit of one connection per user (\<open>cs_fake_client\<close>) and the reload of the accounts
  (\<open>cs_accounts_chk\<close>, \<open>cs_reinit_clients\<close>).

  A client or an account is known by its address (\<open>c_id\<close>, \<open>a_addr\<close>), the pointer 0 is NULL. The state holds the
  list behind \<open>first_client\<close>, the account of the master client, the accounts of \<open>cfg.account\<close> and, during a
  reload, the new ones; reading an account that is in none of them is \<open>None\<close>. The checksum of a password
  (\<open>crc32\<close> of its MD5), the name service, the clock and the module table are given by the environment.
\<close>

section \<open>Clients and accounts\<close>

record account = s_auth +
  a_addr :: nat
  a_usr :: string
  a_pwd :: string
  a_uniq :: int
  a_aureader_list :: nat
  a_autoau :: int
  a_monlvl :: int
  a_grp :: u64
  a_tosleep :: int
  a_ctab :: "caid_entry list"
  a_sidtabok :: u64
  a_sidtabno :: u64
  a_fchid :: ftab
  a_ftab :: ftab
  a_cltab :: classtab
  a_ttab :: "tun_entry list"
  a_dynip :: u32
  a_dyndns :: string
  a_expirationdate :: int
  a_firstlogin :: int
  a_allowedtimeframe :: "int \<times> int"
  a_c35_suppresscmd08 :: int
  a_c35_sleepsend :: int
  a_ncd_keepalive :: int
  a_disabled :: int
  a_failban :: u32
  a_cwfound :: int
  a_cwcache :: int
  a_cwnot :: int
  a_cwtun :: int
  a_cwignored :: int
  a_cwtout :: int
  a_emmok :: int
  a_emmnok :: int

record cw_response =
  rs_duration :: int
  rs_timestamp :: int
  rs_rc :: int

record client = s_client +
  c_id :: nat
  c_ip :: u32
  c_port :: int
  c_ctyp :: nat
  c_dup :: bool
  c_aureader_list :: nat
  c_autoau :: int
  c_monlvl :: int
  c_pcrc :: u32
  c_last :: int
  c_last_caid :: u16
  c_last_srvid :: u16
  c_expirationdate :: int
  c_allowedtimeframe :: "int \<times> int"
  c_ncd_keepalive :: int
  c_ncd_server :: bool
  c_c35_suppresscmd08 :: int
  c_c35_sleepsend :: int
  c_tosleep :: int
  c_disabled :: int
  c_failban :: u32
  c_ctab :: "caid_entry list"
  c_ttab :: "tun_entry list"
  c_cwlastresptimes :: "cw_response list"
  c_cwlastresptimes_last :: nat

record env =
  e_now :: int
  e_self :: nat
  e_mem :: bool
  e_ban :: ban_config
  e_ac :: ac_config
  e_dropdups :: bool
  e_pwcrc :: "string \<Rightarrow> u32"
  e_resolve :: "string \<Rightarrow> u32"
  e_s_port :: "nat \<Rightarrow> nat \<Rightarrow> int"
  e_is_net :: "nat \<Rightarrow> bool"

record server =
  sv_clients :: "client list"
  sv_master :: account
  sv_accounts :: "account list"
  sv_new :: "account list"
  sv_bans :: "v_ban list"

definition BAN_DUPLICATE :: u32 where "BAN_DUPLICATE = 8"

definition CS_ECM_RINGBUFFER_MAX :: nat where "CS_ECM_RINGBUFFER_MAX = 20"

definition deref :: "server \<Rightarrow> nat \<Rightarrow> account option" where
  "deref sv p = (if p = 0 then None else find (\<lambda>a. a_addr a = p) (sv_master sv # sv_accounts sv @ sv_new sv))"

definition client_at :: "server \<Rightarrow> nat \<Rightarrow> client option" where
  "client_at sv i = find (\<lambda>c. c_id c = i) (sv_clients sv)"

definition upd :: "nat \<Rightarrow> (client \<Rightarrow> client) \<Rightarrow> server \<Rightarrow> server" where
  "upd i f sv = sv\<lparr>sv_clients := map (\<lambda>c. if c_id c = i then f c else c) (sv_clients sv)\<rparr>"

definition add_violation :: "env \<Rightarrow> client \<Rightarrow> u32 \<Rightarrow> server \<Rightarrow> server" where
  "add_violation e c ip sv =
     sv\<lparr>sv_bans := cs_add_violation (e_ban e) (e_mem e) (e_now e) ip (e_s_port e (c_ctyp c) (cl_port_idx c)) (sv_bans sv)\<rparr>"

text \<open>\<open>kill_thread_int\<close> and \<open>cleanup_thread\<close>, as far as the list is concerned: another thread is taken out of the
  list, a thread does not kill itself; a thread that ends takes its own client out.\<close>

definition unlink :: "nat \<Rightarrow> server \<Rightarrow> server" where
  "unlink i sv = sv\<lparr>sv_clients := filter (\<lambda>c. c_id c \<noteq> i) (sv_clients sv)\<rparr>"

definition kill_thread :: "env \<Rightarrow> nat \<Rightarrow> server \<Rightarrow> server" where
  "kill_thread e i sv = (if i = e_self e then sv else unlink i sv)"

section \<open>One connection per user\<close>

text \<open>The test of \<open>cs_fake_client\<close> on one client of the list.\<close>

definition duplicate :: "server \<Rightarrow> nat \<Rightarrow> string \<Rightarrow> int \<Rightarrow> u32 \<Rightarrow> client \<Rightarrow> bool option" where
  "duplicate sv cid usr uniq ip cl =
     (if c_id cl \<noteq> cid \<and> cl_typ cl = CHR ''c'' \<and> \<not> c_dup cl \<and> cl_account cl \<noteq> 0 then do {
        account \<leftarrow> deref sv (cl_account cl);
        Some (a_usr account = usr \<and> uniq < 5 \<and> (uniq mod 2 \<noteq> 0 \<or> c_ip cl \<noteq> ip))
      } else Some False)"

text \<open>The loop over the list, \<open>ids\<close> are the clients from the current one on; a client that was taken out is passed.
  The flag of the result tells whether the thread of the client has ended.\<close>

fun fake_loop :: "env \<Rightarrow> nat \<Rightarrow> string \<Rightarrow> int \<Rightarrow> u32 \<Rightarrow> nat list \<Rightarrow> server \<Rightarrow> (bool \<times> server) option" where
  "fake_loop e cid usr uniq ip [] sv = Some (False, sv)"
| "fake_loop e cid usr uniq ip (i # ids) sv =
     (case client_at sv i of
        None \<Rightarrow> fake_loop e cid usr uniq ip ids sv
      | Some cl \<Rightarrow> do {
          dup \<leftarrow> duplicate sv cid usr uniq ip cl;
          if \<not> dup then fake_loop e cid usr uniq ip ids sv
          else if uniq = 3 \<or> uniq = 4 then
            let s1 = upd i (\<lambda>c. c\<lparr>c_dup := True, c_aureader_list := 0\<rparr>) sv;
                s2 = if c_failban cl AND BAN_DUPLICATE \<noteq> 0 then add_violation e cl (c_ip cl) s1 else s1
            in fake_loop e cid usr uniq ip ids (if e_dropdups e then kill_thread e i s2 else s2)
          else do {
            me \<leftarrow> client_at sv cid;
            let s1 = upd cid (\<lambda>c. c\<lparr>c_dup := True, c_aureader_list := 0\<rparr>) sv;
                s2 = if c_failban me AND BAN_DUPLICATE \<noteq> 0 then add_violation e me ip s1 else s1
            in Some (if e_dropdups e then (True, unlink cid s2) else (False, s2))
          }
        })"

definition cs_fake_client :: "env \<Rightarrow> nat \<Rightarrow> string \<Rightarrow> int \<Rightarrow> u32 \<Rightarrow> server \<Rightarrow> (bool \<times> server) option" where
  "cs_fake_client e cid usr uniq ip sv = fake_loop e cid usr uniq ip (map c_id (sv_clients sv)) sv"

section \<open>Login\<close>

datatype auth_account = No_account | Anonymous | Account nat

text \<open>\<open>cs_user_resolve\<close>\<close>

definition cs_user_resolve :: "env \<Rightarrow> account \<Rightarrow> account" where
  "cs_user_resolve e a = a\<lparr>a_dynip := if a_dyndns a \<noteq> '''' then e_resolve e (a_dyndns a) else 0\<rparr>"

definition upd_account :: "nat \<Rightarrow> (account \<Rightarrow> account) \<Rightarrow> server \<Rightarrow> server" where
  "upd_account p f sv =
     (let g = \<lambda>a. if a_addr a = p then f a else a in
      sv\<lparr>sv_master := g (sv_master sv), sv_accounts := map g (sv_accounts sv), sv_new := map g (sv_new sv)\<rparr>)"

text \<open>What a client gets from its account before and after the search for other connections.\<close>

definition grant1 :: "account \<Rightarrow> client \<Rightarrow> client" where
  "grant1 a c = c\<lparr>c_last_caid := 0xFFFE, c_last_srvid := 0xFFFE, c_expirationdate := a_expirationdate a,
     c_disabled := a_disabled a, c_allowedtimeframe := a_allowedtimeframe a, c_failban := a_failban a,
     c_c35_suppresscmd08 := a_c35_suppresscmd08 a, c_ncd_keepalive := a_ncd_keepalive a, cl_grp := a_grp a,
     c_aureader_list := a_aureader_list a, c_autoau := a_autoau a, c_tosleep := 60 * a_tosleep a,
     c_c35_sleepsend := a_c35_sleepsend a, c_ctab := a_ctab a\<rparr>"

definition grant2 :: "env \<Rightarrow> account \<Rightarrow> client \<Rightarrow> client" where
  "grant2 e a c = ac_init_client (e_ac e) (c\<lparr>cl_ftab := a_ftab a, cl_cltab := a_cltab a, cl_fchid := a_fchid a,
     cl_sidtabok := a_sidtabok a, cl_sidtabno := a_sidtabno a, c_ttab := a_ttab a\<rparr>) a"

text \<open>The result is the return code, \<open>None\<close> when the thread has ended, and the new state.\<close>

definition auth_granted :: "env \<Rightarrow> nat \<Rightarrow> nat \<Rightarrow> server \<Rightarrow> (int option \<times> server) option" where
  "auth_granted e cid p sv = do {
     c \<leftarrow> client_at sv cid;
     a \<leftarrow> deref sv p;
     let s1 = upd cid (\<lambda>c. c\<lparr>c_dup := False,
                c_pcrc := if cl_typ c = CHR ''c'' \<or> cl_typ c = CHR ''m'' then e_pwcrc e (a_pwd a) else c_pcrc c\<rparr>) sv;
     if cl_typ c \<noteq> CHR ''c'' then Some (Some 0, s1)
     else do {
       let s2 = upd_account p (\<lambda>a. if a_firstlogin a = 0 then a\<lparr>a_firstlogin := e_now e\<rparr> else a) (upd cid (grant1 a) s1);
       (ended, s3) \<leftarrow> (if a_uniq a \<noteq> 0 then cs_fake_client e cid (a_usr a) (a_uniq a) (c_ip c) s2 else Some (False, s2));
       if ended then Some (None, s3) else Some (Some 0, upd cid (grant2 e a) s3)
     }
   }"

definition auth_account_case :: "env \<Rightarrow> nat \<Rightarrow> nat \<Rightarrow> server \<Rightarrow> (int option \<times> server) option" where
  "auth_account_case e cid p sv = do {
     c \<leftarrow> client_at sv cid;
     a \<leftarrow> deref sv p;
     s1 \<leftarrow> Some (if c_ip c \<noteq> 0 \<and> a_dyndns a \<noteq> '''' \<and> c_ip c \<noteq> a_dynip a then upd_account p (cs_user_resolve e) sv else sv);
     a \<leftarrow> deref s1 p;
     (let bad = c_ip c \<noteq> 0 \<and> a_dyndns a \<noteq> '''' \<and> c_ip c \<noteq> a_dynip a;
          s2 = if bad then add_violation e c (c_ip c) s1 else s1;
          s3 = upd cid (\<lambda>c. c\<lparr>c_monlvl := a_monlvl a, cl_account := p\<rparr>) s2
      in if bad then Some (Some 2, s3) else auth_granted e cid p s3)
   }"

definition cs_auth_client :: "env \<Rightarrow> nat \<Rightarrow> auth_account \<Rightarrow> server \<Rightarrow> (int option \<times> server) option" where
  "cs_auth_client e cid acc sv = do {
     c \<leftarrow> client_at sv cid;
     (let s1 = upd cid (\<lambda>c. c\<lparr>cl_grp := - 1\<rparr>) sv;
          master = upd cid (\<lambda>c. c\<lparr>cl_account := a_addr (sv_master sv)\<rparr>) s1 in
     case acc of
       No_account \<Rightarrow> Some (Some 1, add_violation e c (c_ip c) master)
     | Anonymous \<Rightarrow> Some (Some 0, master)
     | Account p \<Rightarrow> do {
         a \<leftarrow> deref sv p;
         if a_disabled a \<noteq> 0 then Some (Some 1, add_violation e c (c_ip c) s1)
         else auth_account_case e cid p master
       })
   }"

section \<open>Reload of the accounts\<close>

text \<open>What \<open>cs_reinit_clients\<close> copies; only the identities of a newcamd client stay.\<close>

definition regrant :: "env \<Rightarrow> account \<Rightarrow> client \<Rightarrow> client" where
  "regrant e a c = c\<lparr>cl_grp := a_grp a, c_aureader_list := a_aureader_list a, c_autoau := a_autoau a,
     c_expirationdate := a_expirationdate a, c_allowedtimeframe := a_allowedtimeframe a,
     c_ncd_keepalive := a_ncd_keepalive a, c_c35_suppresscmd08 := a_c35_suppresscmd08 a, c_tosleep := 60 * a_tosleep a,
     c_c35_sleepsend := a_c35_sleepsend a, c_monlvl := a_monlvl a, c_disabled := a_disabled a, cl_fchid := a_fchid a,
     cl_cltab := a_cltab a, cl_ftab := if c_ncd_server c then cl_ftab c else a_ftab a, cl_sidtabok := a_sidtabok a,
     cl_sidtabno := a_sidtabno a, c_failban := a_failban a, c_ctab := a_ctab a, c_ttab := a_ttab a,
     c_cwlastresptimes := replicate CS_ECM_RINGBUFFER_MAX \<lparr>rs_duration = 0, rs_timestamp = e_now e, rs_rc = 0\<rparr>,
     c_cwlastresptimes_last := 0\<rparr>"

definition reload_limit :: "env \<Rightarrow> account \<Rightarrow> client \<Rightarrow> client" where
  "reload_limit e a c = c\<lparr>cl_ac_limit := nat (s32 ((ac_users a * 100 + 80) * ac_stime (e_ac e)) mod 65536)\<rparr>"

definition reload_uniq :: "int \<Rightarrow> int" where
  "reload_uniq uniq = (if uniq = 1 \<or> uniq = 2 then uniq + 2 else uniq)"

text \<open>A client whose account is still there, enabled and has the same password; \<open>cs_disconnect_client\<close> on the
  reloading thread has no result.\<close>

definition reinit_keep :: "env \<Rightarrow> nat \<Rightarrow> client \<Rightarrow> account \<Rightarrow> server \<Rightarrow> server option" where
  "reinit_keep e i cl a sv =
     (let s1 = upd i (\<lambda>c. c\<lparr>cl_account := a_addr a\<rparr>) sv in
      if cl_typ cl \<noteq> CHR ''c'' then Some s1
      else do {
        (ended, s2) \<leftarrow> (if a_uniq a \<noteq> 0 then cs_fake_client e i (a_usr a) (reload_uniq (a_uniq a)) (c_ip cl) (upd i (regrant e a) s1)
                        else Some (False, upd i (regrant e a) s1));
        if ended then None else Some (upd i (reload_limit e a) s2)
      })"

definition reinit_drop :: "env \<Rightarrow> nat \<Rightarrow> client \<Rightarrow> server \<Rightarrow> server" where
  "reinit_drop e i cl sv =
     (if e_is_net e (c_ctyp cl) then kill_thread e i sv
      else upd i (\<lambda>c. c\<lparr>cl_account := a_addr (sv_master sv)\<rparr>) sv)"

definition reinit_client :: "env \<Rightarrow> account list \<Rightarrow> nat \<Rightarrow> server \<Rightarrow> server option" where
  "reinit_client e news i sv =
     (case client_at sv i of
        None \<Rightarrow> Some sv
      | Some cl \<Rightarrow>
          if (cl_typ cl = CHR ''c'' \<or> cl_typ cl = CHR ''m'') \<and> cl_account cl \<noteq> 0 then do {
            old \<leftarrow> deref sv (cl_account cl);
            (case find (\<lambda>a. a_usr old = a_usr a) news of
               None \<Rightarrow> Some (reinit_drop e i cl sv)
             | Some a \<Rightarrow>
                 if a_disabled a = 0 \<and> c_pcrc cl = e_pwcrc e (a_pwd a) then reinit_keep e i cl a sv
                 else Some (reinit_drop e i cl sv))
          } else Some (upd i (\<lambda>c. c\<lparr>cl_account := 0\<rparr>) sv))"

fun reinit_loop :: "env \<Rightarrow> account list \<Rightarrow> nat list \<Rightarrow> server \<Rightarrow> server option" where
  "reinit_loop e news [] sv = Some sv"
| "reinit_loop e news (i # ids) sv = do { s1 \<leftarrow> reinit_client e news i sv; reinit_loop e news ids s1 }"

definition cs_reinit_clients :: "env \<Rightarrow> account list \<Rightarrow> server \<Rightarrow> server option" where
  "cs_reinit_clients e news sv = reinit_loop e news (map c_id (sv_clients sv)) sv"

text \<open>What an account keeps of the one of the same name: the statistics, and everything about anti-cascading.\<close>

definition carry1 :: "account \<Rightarrow> account \<Rightarrow> account" where
  "carry1 a1 a2 = (if a_usr a1 = a_usr a2
     then a2\<lparr>a_cwfound := a_cwfound a1, a_cwcache := a_cwcache a1, a_cwnot := a_cwnot a1, a_cwtun := a_cwtun a1,
            a_cwignored := a_cwignored a1, a_cwtout := a_cwtout a1, a_emmok := a_emmok a1, a_emmnok := a_emmnok a1,
            a_firstlogin := a_firstlogin a1, ac_users := ac_users a1, ac_penalty := ac_penalty a1, ac_stat := ac_stat a1\<rparr>
     else a2)"

definition carry :: "account list \<Rightarrow> account list \<Rightarrow> account list" where
  "carry olds news = map (\<lambda>a2. foldl (\<lambda>a a1. carry1 a1 a) a2 olds) news"

text \<open>\<open>news\<close> is what \<open>init_userdb\<close> made of the file.\<close>

definition cs_accounts_chk :: "env \<Rightarrow> account list \<Rightarrow> server \<Rightarrow> server option" where
  "cs_accounts_chk e news sv = do {
     s1 \<leftarrow> cs_reinit_clients e (carry (sv_accounts sv) news) (sv\<lparr>sv_new := carry (sv_accounts sv) news\<rparr>);
     (let (cls, accs) = ac_clear (sv_clients s1) (sv_new s1) in
      Some (s1\<lparr>sv_clients := cls, sv_accounts := accs, sv_new := []\<rparr>))
   }"

section \<open>Connections\<close>

definition idx_from_ip :: "u32 \<Rightarrow> int \<Rightarrow> server \<Rightarrow> client option" where
  "idx_from_ip ip port sv =
     find (\<lambda>c. c_ip c = ip \<and> c_port c = port \<and> (cl_typ c = CHR ''c'' \<or> cl_typ c = CHR ''m'')) (sv_clients sv)"

definition client0 :: "nat \<Rightarrow> u32 \<Rightarrow> nat \<Rightarrow> int \<Rightarrow> client" where
  "client0 i ip acc t =
    \<lparr>cl_typ = CHR 0x00, cl_grp = 0, cl_sidtabok = 0, cl_sidtabno = 0, cl_ftab = [], cl_fchid = [],
     cl_cltab = \<lparr>aclass = [], bclass = []\<rparr>, cl_port_idx = 0, cl_pending = 0, cl_login = t, cl_account = acc, cl_ac_limit = 0,
     cl_acasc = \<lparr>ac_count = 0, ac_deny = False\<rparr>, c_id = i, c_ip = ip, c_port = 0, c_ctyp = 0, c_dup = False,
     c_aureader_list = 0, c_autoau = 0, c_monlvl = 0, c_pcrc = 0, c_last = t, c_last_caid = 0, c_last_srvid = 0,
     c_expirationdate = 0, c_allowedtimeframe = (0, 0), c_ncd_keepalive = 0, c_ncd_server = False,
     c_c35_suppresscmd08 = 0, c_c35_sleepsend = 0, c_tosleep = 0, c_disabled = 0, c_failban = 0,
     c_ctab = replicate CS_MAXCAIDTAB (0, 0, 0), c_ttab = [],
     c_cwlastresptimes = replicate CS_ECM_RINGBUFFER_MAX \<lparr>rs_duration = 0, rs_timestamp = 0, rs_rc = 0\<rparr>,
     c_cwlastresptimes_last = 0\<rparr>"

text \<open>\<open>fresh\<close> is the address of the new client, \<open>None\<close> when there is no memory or no pipe for it.\<close>

definition create_client :: "env \<Rightarrow> nat option \<Rightarrow> u32 \<Rightarrow> server \<Rightarrow> server" where
  "create_client e fresh ip sv =
     (case fresh of None \<Rightarrow> sv
      | Some i \<Rightarrow> sv\<lparr>sv_clients := sv_clients sv @ [client0 i ip (a_addr (sv_master sv)) (e_now e)]\<rparr>)"

datatype accepted = Refused | To_client nat | Created nat

text \<open>\<open>accept_connection\<close> for a packet on a UDP port or a connection on a TCP port; \<open>thread\<close> is the answer of
  \<open>pthread_create\<close>. The packet itself goes to the pipe of the client.\<close>

definition accept_connection ::
  "env \<Rightarrow> bool \<Rightarrow> nat \<Rightarrow> nat \<Rightarrow> u32 \<Rightarrow> int \<Rightarrow> nat option \<Rightarrow> bool \<Rightarrow> server \<Rightarrow> accepted \<times> server" where
  "accept_connection e udp i j ip port fresh thread sv =
     (case (if udp then idx_from_ip ip port sv else None) of
        Some cl \<Rightarrow> (To_client (c_id cl), sv)
      | None \<Rightarrow>
          let (violation, bans) = cs_check_violation (e_ban e) (e_mem e) (e_now e) ip (e_s_port e i j) (sv_bans sv);
              s1 = sv\<lparr>sv_bans := bans\<rparr> in
          if violation \<noteq> 0 then (Refused, s1)
          else case fresh of
            None \<Rightarrow> (Refused, s1)
          | Some n \<Rightarrow>
              let s2 = upd n (\<lambda>c. c\<lparr>c_ctyp := i, cl_port_idx := j, c_port := port, cl_typ := CHR ''c''\<rparr>) (create_client e fresh ip s1)
              in if thread then (Created n, s2) else (Refused, unlink n s2))"

text \<open>The ring of response times of the web interface.\<close>

definition cs_add_lastresponsetime :: "int \<Rightarrow> int \<Rightarrow> int \<Rightarrow> client \<Rightarrow> client option" where
  "cs_add_lastresponsetime ltime timestamp rc cl =
     (let i = if c_cwlastresptimes_last cl = CS_ECM_RINGBUFFER_MAX - 1 then 0 else c_cwlastresptimes_last cl + 1 in do {
        ring \<leftarrow> store (c_cwlastresptimes cl) i \<lparr>rs_duration = (if 9999 < ltime then 9999 else ltime), rs_timestamp = timestamp, rs_rc = rc\<rparr>;
        Some (cl\<lparr>c_cwlastresptimes := ring, c_cwlastresptimes_last := i\<rparr>)
      })"

section \<open>Lemmas\<close>

subsection \<open>Marking and removing clients\<close>

abbreviation mark :: "client \<Rightarrow> client" where
  "mark c \<equiv> c\<lparr>c_dup := True, c_aureader_list := 0\<rparr>"

text \<open>The state after some clients were marked as duplicates or taken out of the list.\<close>

definition shrinks :: "server \<Rightarrow> server \<Rightarrow> bool" where
  "shrinks sv sv' \<longleftrightarrow> sv_master sv' = sv_master sv \<and> sv_accounts sv' = sv_accounts sv \<and> sv_new sv' = sv_new sv \<and>
     (\<forall>c' \<in> set (sv_clients sv'). c' \<in> set (sv_clients sv) \<or> (\<exists>c \<in> set (sv_clients sv). c' = mark c)) \<and>
     (distinct (map c_id (sv_clients sv)) \<longrightarrow> distinct (map c_id (sv_clients sv')))"

lemma shrinks_refl [simp]: "shrinks sv sv"
  by (simp add: shrinks_def)

lemma shrinks_trans: "shrinks a b \<Longrightarrow> shrinks b c \<Longrightarrow> shrinks a c"
  unfolding shrinks_def by (intro conjI; simp) fastforce

lemma upd_ids: "(\<And>c. c_id (f c) = c_id c) \<Longrightarrow> map c_id (sv_clients (upd i f sv)) = map c_id (sv_clients sv)"
  by (simp add: upd_def)

lemma upd_sel [simp]: "sv_master (upd i f sv) = sv_master sv" "sv_accounts (upd i f sv) = sv_accounts sv"
  "sv_new (upd i f sv) = sv_new sv" "sv_bans (upd i f sv) = sv_bans sv"
  by (simp_all add: upd_def)

lemma shrinks_mark: "shrinks sv (upd i mark sv)"
  unfolding shrinks_def by (auto simp: upd_def comp_def if_distrib cong: if_cong)

lemma shrinks_unlink: "shrinks sv (unlink i sv)"
  by (auto simp: shrinks_def unlink_def distinct_map_filter)

lemma shrinks_kill: "shrinks sv (kill_thread e i sv)"
  by (simp add: kill_thread_def shrinks_unlink)

lemma add_violation_sel [simp]: "sv_clients (add_violation e c ip sv) = sv_clients sv"
  "sv_master (add_violation e c ip sv) = sv_master sv" "sv_accounts (add_violation e c ip sv) = sv_accounts sv"
  "sv_new (add_violation e c ip sv) = sv_new sv"
  by (simp_all add: add_violation_def)

lemma shrinks_violation: "shrinks sv (add_violation e c ip sv)"
  by (simp add: shrinks_def)

lemma deref_cong:
  "sv_master sv' = sv_master sv \<Longrightarrow> sv_accounts sv' = sv_accounts sv \<Longrightarrow> sv_new sv' = sv_new sv \<Longrightarrow> deref sv' p = deref sv p"
  by (simp add: deref_def)

lemma shrinks_deref: "shrinks sv sv' \<Longrightarrow> deref sv' p = deref sv p"
  by (simp add: shrinks_def deref_def)

lemma client_at_Some: "client_at sv i = Some c \<Longrightarrow> c \<in> set (sv_clients sv) \<and> c_id c = i"
  by (auto simp: client_at_def find_Some_iff)

lemma find_unique: "distinct (map f xs) \<Longrightarrow> x \<in> set xs \<Longrightarrow> find (\<lambda>y. f y = f x) xs = Some x"
  by (induction xs) auto

lemma client_at_unique:
  "distinct (map c_id (sv_clients sv)) \<Longrightarrow> c \<in> set (sv_clients sv) \<Longrightarrow> client_at sv (c_id c) = Some c"
  unfolding client_at_def by (rule find_unique)

lemma client_at_None: "client_at sv i = None \<longleftrightarrow> (\<forall>c \<in> set (sv_clients sv). c_id c \<noteq> i)"
  by (auto simp: client_at_def find_None_iff)

subsection \<open>Connections of a user\<close>

definition active :: "server \<Rightarrow> string \<Rightarrow> client \<Rightarrow> bool" where
  "active sv usr c \<longleftrightarrow> cl_typ c = CHR ''c'' \<and> \<not> c_dup c \<and> cl_account c \<noteq> 0 \<and>
     (case deref sv (cl_account c) of None \<Rightarrow> False | Some a \<Rightarrow> a_usr a = usr)"

text \<open>Two connections of one user that may not be served together.\<close>

definition rival :: "server \<Rightarrow> string \<Rightarrow> int \<Rightarrow> nat \<Rightarrow> u32 \<Rightarrow> client \<Rightarrow> bool" where
  "rival sv usr uniq cid ip c \<longleftrightarrow> c_id c \<noteq> cid \<and> active sv usr c \<and> (uniq mod 2 \<noteq> 0 \<or> c_ip c \<noteq> ip)"

lemma duplicate_rival:
  "duplicate sv cid usr uniq ip cl = Some d \<Longrightarrow> uniq < 5 \<Longrightarrow> d = rival sv usr uniq cid ip cl"
  by (auto simp: duplicate_def rival_def active_def bind_eq_Some_conv split: if_splits option.splits)

lemma shrinks_rival:
  assumes "shrinks sv sv'" "c \<in> set (sv_clients sv')" "rival sv' usr uniq cid ip c"
  shows "c \<in> set (sv_clients sv) \<and> rival sv usr uniq cid ip c"
  using assms shrinks_deref [OF assms(1)] by (auto simp: shrinks_def rival_def active_def)

lemma shrinks_active:
  assumes "shrinks sv sv'" "c \<in> set (sv_clients sv')" "active sv' usr c"
  shows "c \<in> set (sv_clients sv) \<and> active sv usr c"
  using assms shrinks_deref [OF assms(1)] by (auto simp: shrinks_def active_def)

lemma upd_clients: "c \<in> set (sv_clients (upd i f sv)) \<longleftrightarrow> (\<exists>b \<in> set (sv_clients sv). c = (if c_id b = i then f b else b))"
proof -
  have "sv_clients (upd i f sv) = map (\<lambda>b. if c_id b = i then f b else b) (sv_clients sv)" by (simp add: upd_def)
  then show ?thesis by (simp only: set_map image_iff)
qed

lemma mark_only:
  assumes "c \<in> set (sv_clients (upd i mark sv))" "c_id c = i"
  shows "c_dup c"
proof -
  from assms(1) obtain b where "c = (if c_id b = i then mark b else b)" unfolding upd_clients by blast
  with assms(2) show ?thesis by (cases "c_id b = i") simp_all
qed

lemma shrinks_dup:
  assumes "shrinks sv sv'" "\<forall>c \<in> set (sv_clients sv). c_id c = i \<longrightarrow> c_dup c"
  shows "\<forall>c \<in> set (sv_clients sv'). c_id c = i \<longrightarrow> c_dup c"
  using assms by (auto simp: shrinks_def)

text \<open>One turn of the loop that goes on: the client that was visited is no rival any more.\<close>

lemma fake_turn_shrinks:
  "shrinks sv (let s1 = upd i mark sv; s2 = if b then add_violation e cl ip s1 else s1 in
     if d then kill_thread e i s2 else s2)"
  using shrinks_mark shrinks_violation shrinks_kill shrinks_trans by (simp add: Let_def) meson

lemma fake_turn_dup:
  "\<forall>c \<in> set (sv_clients (let s1 = upd i mark sv; s2 = if b then add_violation e cl ip s1 else s1 in
     if d then kill_thread e i s2 else s2)). c_id c = i \<longrightarrow> c_dup c"
proof -
  have "\<forall>c \<in> set (sv_clients (upd i mark sv)). c_id c = i \<longrightarrow> c_dup c" using mark_only by blast
  then show ?thesis by (auto simp: Let_def kill_thread_def unlink_def)
qed

text \<open>After the loop either the client itself is marked (or gone), or it has no rival among those it has visited.\<close>

lemma fake_loop_result:
  assumes "fake_loop e cid usr uniq ip ids sv = Some (ended, sv')" "uniq < 5" "distinct (map c_id (sv_clients sv))"
  shows "shrinks sv sv' \<and> ((\<forall>c \<in> set (sv_clients sv'). c_id c = cid \<longrightarrow> c_dup c) \<or>
     (\<forall>c \<in> set (sv_clients sv'). c_id c \<in> set ids \<longrightarrow> \<not> rival sv' usr uniq cid ip c))"
  using assms(1,3)
proof (induction ids arbitrary: sv)
  case Nil
  then show ?case by simp
next
  case (Cons i ids)
  show ?case
  proof (cases "client_at sv i")
    case None
    then have r: "fake_loop e cid usr uniq ip ids sv = Some (ended, sv')" using Cons.prems(1) by simp
    note IH = Cons.IH [OF r Cons.prems(2)]
    moreover have "c_id c \<noteq> i" if "c \<in> set (sv_clients sv')" for c
      using that None IH unfolding client_at_None shrinks_def by fastforce
    ultimately show ?thesis by auto
  next
    case (Some cl)
    from Cons.prems(1) Some obtain d where d: "duplicate sv cid usr uniq ip cl = Some d"
      by (auto simp: bind_eq_Some_conv)
    have dr: "d = rival sv usr uniq cid ip cl" using duplicate_rival [OF d assms(2)] .
    consider (pass) "\<not> d" | (other) "d" "uniq = 3 \<or> uniq = 4" | (self) "d" "uniq \<noteq> 3" "uniq \<noteq> 4" by blast
    then show ?thesis
    proof cases
      case pass
      then have r: "fake_loop e cid usr uniq ip ids sv = Some (ended, sv')" using Cons.prems(1) Some d by simp
      note IH = Cons.IH [OF r Cons.prems(2)]
      have "\<not> rival sv' usr uniq cid ip c" if "c \<in> set (sv_clients sv')" "c_id c = i" for c
      proof
        assume "rival sv' usr uniq cid ip c"
        from shrinks_rival [OF conjunct1 [OF IH] that(1) this]
        have "c \<in> set (sv_clients sv)" "rival sv usr uniq cid ip c" by simp_all
        moreover from this(1) have "c = cl" using client_at_unique [OF Cons.prems(2)] Some that(2) by fastforce
        ultimately show False using pass dr by simp
      qed
      with IH show ?thesis by auto
    next
      case other
      define s2 where "s2 = (let s1 = upd i mark sv;
        s2 = if c_failban cl AND BAN_DUPLICATE \<noteq> 0 then add_violation e cl (c_ip cl) s1 else s1 in
        if e_dropdups e then kill_thread e i s2 else s2)"
      have r: "fake_loop e cid usr uniq ip ids s2 = Some (ended, sv')"
        using Cons.prems(1) Some d other by (simp add: s2_def Let_def)
      have s: "shrinks sv s2" unfolding s2_def by (rule fake_turn_shrinks)
      then have "distinct (map c_id (sv_clients s2))" using Cons.prems(2) by (simp add: shrinks_def)
      note IH = Cons.IH [OF r this]
      have "\<forall>c \<in> set (sv_clients s2). c_id c = i \<longrightarrow> c_dup c" unfolding s2_def by (rule fake_turn_dup)
      then have "\<forall>c \<in> set (sv_clients sv'). c_id c = i \<longrightarrow> c_dup c" using shrinks_dup IH by blast
      then have "\<forall>c \<in> set (sv_clients sv'). c_id c = i \<longrightarrow> \<not> rival sv' usr uniq cid ip c"
        by (simp add: rival_def active_def)
      with IH shrinks_trans [OF s] show ?thesis by auto
    next
      case self
      then obtain me where me: "client_at sv cid = Some me" using Cons.prems(1) Some d by (auto simp: bind_eq_Some_conv)
      define s2 where "s2 = (if c_failban me AND BAN_DUPLICATE \<noteq> 0 then add_violation e me ip (upd cid mark sv) else upd cid mark sv)"
      have r: "sv' = (if e_dropdups e then unlink cid s2 else s2)"
        using Cons.prems(1) Some d self me by (auto simp: s2_def Let_def split: if_splits)
      have s: "shrinks sv s2" unfolding s2_def using shrinks_mark [of sv cid] shrinks_trans [OF shrinks_mark shrinks_violation] by simp
      have "\<forall>c \<in> set (sv_clients s2). c_id c = cid \<longrightarrow> c_dup c" unfolding s2_def using mark_only by auto
      then show ?thesis using r s shrinks_trans [OF s shrinks_unlink] by (auto simp: unlink_def)
    qed
  qed
qed

lemma fake_client_result:
  assumes "cs_fake_client e cid usr uniq ip sv = Some (ended, sv')" "uniq < 5" "distinct (map c_id (sv_clients sv))"
  shows "shrinks sv sv' \<and> ((\<forall>c \<in> set (sv_clients sv'). c_id c = cid \<longrightarrow> c_dup c) \<or>
     (\<forall>c \<in> set (sv_clients sv'). \<not> rival sv' usr uniq cid ip c))"
proof -
  note r = fake_loop_result [OF assms(1) [unfolded cs_fake_client_def] assms(2,3)]
  have "c_id c \<in> set (map c_id (sv_clients sv))" if "c \<in> set (sv_clients sv')" for c
    using that conjunct1 [OF r] by (fastforce simp: shrinks_def)
  with r show ?thesis by blast
qed

subsection \<open>The login\<close>

definition ident :: "server \<Rightarrow> nat \<Rightarrow> (string \<times> int) option" where
  "ident sv p = map_option (\<lambda>a. (a_usr a, a_uniq a)) (deref sv p)"

text \<open>Nothing but the client \<open>cid\<close> has changed, and the accounts still belong to the same users; the client still has
  the address \<open>ip\<close>.\<close>

definition only_me :: "nat \<Rightarrow> u32 \<Rightarrow> server \<Rightarrow> server \<Rightarrow> bool" where
  "only_me cid ip sv sv' \<longleftrightarrow> (\<forall>c \<in> set (sv_clients sv'). if c_id c = cid then c_ip c = ip else c \<in> set (sv_clients sv)) \<and>
     ident sv' = ident sv \<and> (distinct (map c_id (sv_clients sv)) \<longrightarrow> distinct (map c_id (sv_clients sv')))"

lemma active_ident:
  "active sv usr c \<longleftrightarrow> cl_typ c = CHR ''c'' \<and> \<not> c_dup c \<and> cl_account c \<noteq> 0 \<and> map_option fst (ident sv (cl_account c)) = Some usr"
  by (auto simp: active_def ident_def split: option.split)

lemma only_me_trans:
  assumes "only_me cid ip a b" "only_me cid ip b c"
  shows "only_me cid ip a c"
proof -
  have "if c_id x = cid then c_ip x = ip else x \<in> set (sv_clients a)" if "x \<in> set (sv_clients c)" for x
  proof (cases "c_id x = cid")
    case True
    then show ?thesis using that assms(2) unfolding only_me_def by auto
  next
    case False
    then have "x \<in> set (sv_clients b)" using that assms(2) unfolding only_me_def by auto
    then show ?thesis using False assms(1) unfolding only_me_def by auto
  qed
  then show ?thesis using assms unfolding only_me_def by simp
qed

lemma only_me_upd:
  assumes "only_me cid ip sv s" "\<And>c. c_id (f c) = c_id c" "\<And>c. c_ip (f c) = c_ip c"
  shows "only_me cid ip sv (upd cid f s)"
proof -
  have "if c_id x = cid then c_ip x = ip else x \<in> set (sv_clients sv)" if x: "x \<in> set (sv_clients (upd cid f s))" for x
  proof -
    from x obtain b where b: "b \<in> set (sv_clients s)" "x = (if c_id b = cid then f b else b)" unfolding upd_clients by blast
    show ?thesis using assms b unfolding only_me_def by (cases "c_id b = cid") auto
  qed
  moreover have "ident (upd cid f s) = ident s" by (auto simp: ident_def deref_def)
  moreover have "map c_id (sv_clients (upd cid f s)) = map c_id (sv_clients s)" by (rule upd_ids) (rule assms(2))
  ultimately show ?thesis using assms(1) unfolding only_me_def by auto
qed

lemma ident_violation [simp]: "ident (add_violation e c k s) = ident s"
  by (rule ext) (simp add: ident_def deref_def)

lemma only_me_violation: "only_me cid ip sv s \<Longrightarrow> only_me cid ip sv (add_violation e c k s)"
  by (simp add: only_me_def)

lemma upd_account_clients [simp]: "sv_clients (upd_account p f sv) = sv_clients sv" "sv_bans (upd_account p f sv) = sv_bans sv"
  by (simp_all add: upd_account_def Let_def)

lemma find_map_same: "(\<And>x. P (f x) = P x) \<Longrightarrow> find P (map f xs) = map_option f (find P xs)"
  by (induction xs) auto

lemma deref_upd_account:
  assumes "\<And>a. a_addr (f a) = a_addr a"
  shows "deref (upd_account p f sv) q = map_option (\<lambda>a. if a_addr a = p then f a else a) (deref sv q)"
proof -
  define g where "g = (\<lambda>a. if a_addr a = p then f a else a)"
  have k: "find (\<lambda>a. a_addr a = q) (map g xs) = map_option g (find (\<lambda>a. a_addr a = q) xs)" for xs
    by (rule find_map_same) (simp add: g_def assms)
  have "deref (upd_account p f sv) q = (if q = 0 then None else find (\<lambda>a. a_addr a = q) (map g (sv_master sv # sv_accounts sv @ sv_new sv)))"
    by (simp add: deref_def upd_account_def g_def Let_def)
  also have "\<dots> = map_option g (deref sv q)"
    unfolding deref_def by (cases "q = 0") (simp_all only: k if_True if_False option.map simp_thms)
  finally show ?thesis by (simp add: g_def)
qed

lemma ident_upd_account:
  assumes "\<And>a. a_addr (f a) = a_addr a" "\<And>a. a_usr (f a) = a_usr a" "\<And>a. a_uniq (f a) = a_uniq a"
  shows "ident (upd_account p f sv) = ident sv"
  by (rule ext) (simp add: ident_def deref_upd_account assms option.map_comp comp_def if_distrib [of a_usr] if_distrib [of a_uniq] cong: if_cong)

lemma only_me_account:
  assumes "only_me cid ip sv s" "\<And>a. a_addr (f a) = a_addr a" "\<And>a. a_usr (f a) = a_usr a" "\<And>a. a_uniq (f a) = a_uniq a"
  shows "only_me cid ip sv (upd_account p f s)"
  using assms(1) ident_upd_account [of f p s, OF assms(2-4)] by (simp add: only_me_def)

lemma grant_sel [simp]: "c_id (grant1 a c) = c_id c" "c_ip (grant1 a c) = c_ip c" "c_id (grant2 e a c) = c_id c"
  "c_ip (grant2 e a c) = c_ip c" "c_dup (grant2 e a c) = c_dup c"
  by (simp_all add: grant1_def grant2_def ac_init_client_def)

text \<open>The connections of a user among which the code wants no two of the same kind: none at all with an odd
  \<open>uniq\<close>, none from different addresses with an even one.\<close>

definition connections :: "server \<Rightarrow> string \<Rightarrow> client list" where
  "connections sv usr = filter (active sv usr) (sv_clients sv)"

definition unrivalled :: "int \<Rightarrow> client list \<Rightarrow> bool" where
  "unrivalled uniq cs = list_all (\<lambda>c. list_all (\<lambda>d. if uniq mod 2 \<noteq> 0 then c_id c = c_id d else c_ip c = c_ip d) cs) cs"

lemma unrivalled_after_fake:
  assumes o: "only_me cid ip sv s2" and sh: "shrinks s2 s3"
    and r: "(\<forall>c \<in> set (sv_clients s3). c_id c = cid \<longrightarrow> c_dup c) \<or> (\<forall>c \<in> set (sv_clients s3). \<not> rival s3 usr uniq cid ip c)"
    and u: "unrivalled uniq (filter (\<lambda>c. c_id c \<noteq> cid) (connections sv usr))"
  shows "unrivalled uniq (connections s3 usr)"
proof -
  let ?ok = "\<lambda>c d. if uniq mod 2 \<noteq> 0 then c_id c = c_id d else c_ip c = c_ip d"
  have old: "c \<in> set (filter (\<lambda>c. c_id c \<noteq> cid) (connections sv usr))" if "c \<in> set (connections s3 usr)" "c_id c \<noteq> cid" for c
  proof -
    have "c \<in> set (sv_clients s2)" "active s2 usr c"
      using shrinks_active [OF sh, of c usr] that(1) by (simp_all add: connections_def)
    then show ?thesis using o that(2) by (auto simp: connections_def only_me_def active_ident)
  qed
  have ip: "c_ip c = ip" if "c \<in> set (connections s3 usr)" "c_id c = cid" for c
  proof -
    have "c \<in> set (sv_clients s2)" using shrinks_active [OF sh, of c usr] that(1) by (simp add: connections_def)
    then show ?thesis using o that(2) unfolding only_me_def by auto
  qed
  have "?ok c d" if c: "c \<in> set (connections s3 usr)" and d: "d \<in> set (connections s3 usr)" for c d
  proof (cases "c_id c = cid \<or> c_id d = cid")
    case False
    then show ?thesis using u old [OF c] old [OF d] by (auto simp: unrivalled_def list_all_iff)
  next
    case True
    then have "\<exists>x \<in> set (sv_clients s3). c_id x = cid \<and> \<not> c_dup x"
      using c d by (auto simp: connections_def active_def)
    then have n: "\<not> rival s3 usr uniq cid ip x" if "x \<in> set (connections s3 usr)" for x
      using r that unfolding connections_def by auto
    have "c_ip x = ip \<and> (uniq mod 2 \<noteq> 0 \<longrightarrow> c_id x = cid)" if x: "x \<in> set (connections s3 usr)" for x
    proof (cases "c_id x = cid")
      case False
      have "active s3 usr x" using x by (simp add: connections_def)
      with n [OF x] False show ?thesis by (simp add: rival_def)
    qed (use ip x in simp)
    from this [OF c] this [OF d] show ?thesis by simp
  qed
  then show ?thesis unfolding unrivalled_def list_all_iff by blast
qed

lemma deref_upd [simp]: "deref (upd i f sv) p = deref sv p"
  by (simp add: deref_def)

lemma connections_grant2:
  assumes "unrivalled uniq (connections s3 usr)"
  shows "unrivalled uniq (connections (upd cid (grant2 e a) s3) usr)"
proof -
  have "\<exists>b \<in> set (connections s3 usr). c_id c = c_id b \<and> c_ip c = c_ip b" if "c \<in> set (connections (upd cid (grant2 e a) s3) usr)" for c
  proof -
    from that have c: "c \<in> set (sv_clients (upd cid (grant2 e a) s3))" "active (upd cid (grant2 e a) s3) usr c"
      by (simp_all add: connections_def)
    from c(1) obtain b where b: "b \<in> set (sv_clients s3)" "c = (if c_id b = cid then grant2 e a b else b)"
      unfolding upd_clients by blast
    have "active s3 usr b"
      using c(2) b(2) by (cases "c_id b = cid") (simp_all add: active_def grant2_def ac_init_client_def)
    with b show ?thesis by (intro bexI [of _ b]) (simp_all add: connections_def)
  qed
  with assms show ?thesis unfolding unrivalled_def list_all_iff by metis
qed

lemma client_at_upd: "(\<And>c. c_id (f c) = c_id c) \<Longrightarrow> client_at (upd i f sv) j = map_option (\<lambda>c. if c_id c = i then f c else c) (client_at sv j)"
  unfolding client_at_def upd_def by (simp, rule find_map_same) simp

lemma client_at_cong: "sv_clients s = sv_clients s' \<Longrightarrow> client_at s = client_at s'"
  by (rule ext) (simp add: client_at_def)

lemma auth_granted_unrivalled:
  assumes a: "auth_granted e cid p s = Some (rc, s')" and o: "only_me cid ip sv s" and d: "distinct (map c_id (sv_clients sv))"
    and i: "ident sv p = Some (usr, uniq)" "0 < uniq" "uniq < 5"
    and c: "client_at s cid = Some c" "cl_typ c = CHR ''c''"
    and u: "unrivalled uniq (filter (\<lambda>c. c_id c \<noteq> cid) (connections sv usr))"
  shows "unrivalled uniq (connections s' usr)"
proof -
  from i(1) o have "ident s p = Some (usr, uniq)" by (simp add: only_me_def)
  then obtain acc where acc: "deref s p = Some acc" "a_usr acc = usr" "a_uniq acc = uniq" by (auto simp: ident_def)
  define s1 where "s1 = upd cid (\<lambda>c. c\<lparr>c_dup := False,
      c_pcrc := if cl_typ c = CHR ''c'' \<or> cl_typ c = CHR ''m'' then e_pwcrc e (a_pwd acc) else c_pcrc c\<rparr>) s"
  define s2 where "s2 = upd_account p (\<lambda>a. if a_firstlogin a = 0 then a\<lparr>a_firstlogin := e_now e\<rparr> else a) (upd cid (grant1 acc) s1)"
  have "only_me cid ip sv s1" unfolding s1_def by (rule only_me_upd [OF o]) simp_all
  then have o2: "only_me cid ip sv s2" unfolding s2_def by (intro only_me_account only_me_upd) simp_all
  have ip: "c_ip c = ip" using client_at_Some [OF c(1)] o unfolding only_me_def by auto
  obtain ended s3 where f: "cs_fake_client e cid usr uniq ip s2 = Some (ended, s3)"
    and s': "s' = s3 \<or> s' = upd cid (grant2 e acc) s3"
    using a acc c i(2) ip unfolding auth_granted_def
    by (auto simp: s1_def s2_def Let_def bind_eq_Some_conv split: if_splits)
  have "distinct (map c_id (sv_clients s2))" using o2 d by (simp add: only_me_def)
  note r = fake_client_result [OF f i(3) this]
  have "unrivalled uniq (connections s3 usr)"
    by (rule unrivalled_after_fake [OF o2 conjunct1 [OF r] conjunct2 [OF r] u])
  then show ?thesis using s' connections_grant2 by blast
qed

lemma auth_unrivalled:
  assumes a: "cs_auth_client e cid (Account p) sv = Some (rc, sv')" and rc: "rc \<noteq> Some 1" "rc \<noteq> Some 2"
    and d: "distinct (map c_id (sv_clients sv))" and c: "client_at sv cid = Some c" "cl_typ c = CHR ''c''"
    and acc: "deref sv p = Some acc" "0 < a_uniq acc" "a_uniq acc < 5"
    and u: "unrivalled (a_uniq acc) (filter (\<lambda>c. c_id c \<noteq> cid) (connections sv (a_usr acc)))"
  shows "unrivalled (a_uniq acc) (connections sv' (a_usr acc))"
proof -
  define s1 where "s1 = upd cid (\<lambda>c. c\<lparr>cl_account := a_addr (sv_master sv)\<rparr>) (upd cid (\<lambda>c. c\<lparr>cl_grp := - 1\<rparr>) sv)"
  have o0: "only_me cid (c_ip c) sv sv"
    using client_at_unique [OF d] c(1) by (fastforce simp: only_me_def)
  have o1: "only_me cid (c_ip c) sv s1" unfolding s1_def by (intro only_me_upd o0) simp_all
  have g: "auth_account_case e cid p s1 = Some (rc, sv')"
    using a c(1) acc(1) rc unfolding cs_auth_client_def s1_def by (auto simp: Let_def split: if_splits)
  obtain c1 where c1: "client_at s1 cid = Some c1" "c_ip c1 = c_ip c" "cl_typ c1 = CHR ''c''"
    using c by (simp add: s1_def client_at_upd)
  define s2 where "s2 = (if c_ip c1 \<noteq> 0 \<and> a_dyndns acc \<noteq> '''' \<and> c_ip c1 \<noteq> a_dynip acc then upd_account p (cs_user_resolve e) s1 else s1)"
  have o2: "only_me cid (c_ip c) sv s2"
    unfolding s2_def using o1 by (auto intro!: only_me_account simp: cs_user_resolve_def)
  have "deref s1 p = Some acc" using acc(1) by (simp add: s1_def)
  then obtain acc2 where "deref s2 p = Some acc2"
    by (cases "c_ip c1 \<noteq> 0 \<and> a_dyndns acc \<noteq> '''' \<and> c_ip c1 \<noteq> a_dynip acc") (simp_all add: s2_def deref_upd_account cs_user_resolve_def)
  then obtain m where g2: "auth_granted e cid p (upd cid (\<lambda>c. c\<lparr>c_monlvl := m, cl_account := p\<rparr>) s2) = Some (rc, sv')"
    using g c1(1) \<open>deref s1 p = Some acc\<close> rc unfolding auth_account_case_def
    by (auto simp: s2_def Let_def split: if_splits)
  have "sv_clients s2 = sv_clients s1" by (simp add: s2_def)
  then have "client_at s2 cid = Some c1" using c1(1) client_at_cong by metis
  then obtain c2 where "client_at (upd cid (\<lambda>c. c\<lparr>c_monlvl := m, cl_account := p\<rparr>) s2) cid = Some c2" "cl_typ c2 = CHR ''c''"
    using c1(3) by (simp add: client_at_upd)
  moreover have "only_me cid (c_ip c) sv (upd cid (\<lambda>c. c\<lparr>c_monlvl := m, cl_account := p\<rparr>) s2)"
    by (intro only_me_upd o2) simp_all
  moreover have "ident sv p = Some (a_usr acc, a_uniq acc)" using acc(1) by (simp add: ident_def)
  ultimately show ?thesis using auth_granted_unrivalled [OF g2 _ d _ acc(2,3) _ _ u] by blast
qed

subsection \<open>The reload\<close>

definition valid_ptr :: "server \<Rightarrow> nat \<Rightarrow> bool" where
  "valid_ptr sv p \<longleftrightarrow> p = 0 \<or> deref sv p \<noteq> None"

text \<open>Every client can read its account, or has none.\<close>

definition accounts_valid :: "server \<Rightarrow> bool" where
  "accounts_valid sv = list_all (\<lambda>c. valid_ptr sv (cl_account c)) (sv_clients sv)"

abbreviation same_accounts :: "server \<Rightarrow> server \<Rightarrow> bool" where
  "same_accounts sv sv' \<equiv> sv_master sv' = sv_master sv \<and> sv_accounts sv' = sv_accounts sv \<and> sv_new sv' = sv_new sv"

lemma valid_ptr_iff:
  "valid_ptr sv p \<longleftrightarrow> p = 0 \<or> p = a_addr (sv_master sv) \<or> p \<in> a_addr ` set (sv_accounts sv) \<or> p \<in> a_addr ` set (sv_new sv)"
proof -
  have "deref sv p \<noteq> None \<longleftrightarrow> p \<noteq> 0 \<and> (\<exists>a \<in> set (sv_master sv # sv_accounts sv @ sv_new sv). a_addr a = p)"
    unfolding deref_def by (cases "p = 0") (simp_all only: if_True if_False find_None_iff simp_thms, blast)
  then show ?thesis by (auto simp: valid_ptr_def image_iff)
qed

lemma valid_shrinks: "accounts_valid sv \<Longrightarrow> shrinks sv sv' \<Longrightarrow> accounts_valid sv'"
  by (fastforce simp: accounts_valid_def list_all_iff valid_ptr_iff shrinks_def)

lemma valid_upd:
  assumes "accounts_valid sv" "\<And>c. valid_ptr sv (cl_account c) \<Longrightarrow> valid_ptr sv (cl_account (f c))"
  shows "accounts_valid (upd i f sv)"
proof -
  have "valid_ptr sv (cl_account c)" if c: "c \<in> set (sv_clients (upd i f sv))" for c
  proof -
    from c obtain b where "b \<in> set (sv_clients sv)" "c = (if c_id b = i then f b else b)" unfolding upd_clients by blast
    then show ?thesis using assms by (cases "c_id b = i") (auto simp: accounts_valid_def list_all_iff)
  qed
  then show ?thesis by (simp add: accounts_valid_def list_all_iff valid_ptr_def)
qed

lemma fake_loop_total:
  assumes "accounts_valid sv" "uniq = 3 \<or> uniq = 4 \<or> 5 \<le> uniq"
  shows "\<exists>sv'. fake_loop e cid usr uniq ip ids sv = Some (False, sv') \<and> shrinks sv sv'"
  using assms(1)
proof (induction ids arbitrary: sv)
  case (Cons i ids)
  show ?case
  proof (cases "client_at sv i")
    case None
    then show ?thesis using Cons by simp
  next
    case (Some cl)
    then have "valid_ptr sv (cl_account cl)"
      using Cons.prems client_at_Some by (auto simp: accounts_valid_def list_all_iff)
    then have "duplicate sv cid usr uniq ip cl \<noteq> None" by (auto simp: duplicate_def valid_ptr_def)
    then obtain d where d: "duplicate sv cid usr uniq ip cl = Some d" by blast
    show ?thesis
    proof (cases d)
      case False
      then show ?thesis using Some d Cons by simp
    next
      case True
      then have "uniq < 5" using d by (auto simp: duplicate_def bind_eq_Some_conv split: if_splits)
      then have u: "uniq = 3 \<or> uniq = 4" using assms(2) by auto
      let ?s = "let s1 = upd i mark sv; s2 = if c_failban cl AND BAN_DUPLICATE \<noteq> 0 then add_violation e cl (c_ip cl) s1 else s1
        in if e_dropdups e then kill_thread e i s2 else s2"
      have s: "shrinks sv ?s" by (rule fake_turn_shrinks)
      then obtain sv' where "fake_loop e cid usr uniq ip ids ?s = Some (False, sv')" "shrinks ?s sv'"
        using Cons.IH [of ?s] valid_shrinks [OF Cons.prems s] by blast
      then show ?thesis using Some d True u shrinks_trans [OF s] by (auto simp: Let_def)
    qed
  qed
qed simp

lemma reinit_keep_valid:
  assumes "accounts_valid sv" "valid_ptr sv (a_addr a)" "0 \<le> a_uniq a"
  shows "\<exists>s. reinit_keep e i cl a sv = Some s \<and> same_accounts sv s \<and> accounts_valid s \<and>
    (\<forall>c \<in> set (sv_clients s). \<exists>b \<in> set (sv_clients sv). c_id c = c_id b \<and> cl_account c = (if c_id b = i then a_addr a else cl_account b))"
proof -
  define s1 where "s1 = upd i (\<lambda>c. c\<lparr>cl_account := a_addr a\<rparr>) sv"
  define s2 where "s2 = upd i (regrant e a) s1"
  have v1: "accounts_valid s1" unfolding s1_def using assms(1,2) by (intro valid_upd) simp_all
  have v2: "accounts_valid s2" unfolding s2_def using v1 by (intro valid_upd) (simp_all add: regrant_def)
  have c1: "\<exists>b \<in> set (sv_clients sv). c_id c = c_id b \<and> cl_account c = (if c_id b = i then a_addr a else cl_account b)"
    if "c \<in> set (sv_clients s1)" for c
    using that unfolding s1_def upd_clients by (force split: if_splits)
  have c2: "\<exists>b \<in> set (sv_clients s1). c_id c = c_id b \<and> cl_account c = cl_account b" if "c \<in> set (sv_clients s2)" for c
    using that unfolding s2_def upd_clients by (force simp: regrant_def split: if_splits)
  obtain s3 where s3: "(if a_uniq a \<noteq> 0 then cs_fake_client e i (a_usr a) (reload_uniq (a_uniq a)) (c_ip cl) s2 else Some (False, s2)) = Some (False, s3)"
    "shrinks s2 s3"
  proof (cases "a_uniq a = 0")
    case False
    then have "reload_uniq (a_uniq a) = 3 \<or> reload_uniq (a_uniq a) = 4 \<or> 5 \<le> reload_uniq (a_uniq a)"
      using assms(3) by (auto simp: reload_uniq_def)
    from fake_loop_total [OF v2 this, of e i "a_usr a" "c_ip cl" "map c_id (sv_clients s2)"]
    obtain s3 where "cs_fake_client e i (a_usr a) (reload_uniq (a_uniq a)) (c_ip cl) s2 = Some (False, s3)" "shrinks s2 s3"
      unfolding cs_fake_client_def by blast
    with False that show ?thesis by simp
  qed (use that in auto)
  let ?s = "upd i (reload_limit e a) s3"
  have c3: "\<exists>b \<in> set (sv_clients s2). c_id c = c_id b \<and> cl_account c = cl_account b" if "c \<in> set (sv_clients ?s)" for c
  proof -
    from that have "\<exists>b \<in> set (sv_clients s3). c_id c = c_id b \<and> cl_account c = cl_account b"
      unfolding upd_clients by (force simp: reload_limit_def split: if_splits)
    then show ?thesis using s3(2) unfolding shrinks_def by fastforce
  qed
  have v3: "accounts_valid ?s" using valid_shrinks [OF v2 s3(2)] by (intro valid_upd) (simp_all add: reload_limit_def)
  have k: "reinit_keep e i cl a sv = Some (if cl_typ cl \<noteq> CHR ''c'' then s1 else ?s)"
    using s3(1) by (cases "a_uniq a = 0"; cases "cl_typ cl = CHR ''c''") (simp_all add: reinit_keep_def s1_def s2_def Let_def)
  show ?thesis
  proof (cases "cl_typ cl = CHR ''c''")
    case True
    have "same_accounts sv ?s" using s3(2) by (simp add: shrinks_def s2_def s1_def)
    moreover have "\<exists>b \<in> set (sv_clients sv). c_id c = c_id b \<and> cl_account c = (if c_id b = i then a_addr a else cl_account b)"
      if "c \<in> set (sv_clients ?s)" for c using c3 [OF that] c2 c1 by metis
    ultimately show ?thesis using k True v3 by (intro exI [of _ ?s]) simp
  next
    case False
    then show ?thesis using k v1 c1 by (intro exI [of _ s1]) (simp add: s1_def)
  qed
qed

text \<open>One turn of the reload: it has a result, the client of this turn refers to the master account, a new one or
  none, the other clients keep their accounts.\<close>

definition settled :: "server \<Rightarrow> account list \<Rightarrow> nat \<Rightarrow> bool" where
  "settled sv news p \<longleftrightarrow> p = 0 \<or> p = a_addr (sv_master sv) \<or> p \<in> a_addr ` set news"

definition turned :: "account list \<Rightarrow> nat \<Rightarrow> server \<Rightarrow> server \<Rightarrow> bool" where
  "turned news i sv s \<longleftrightarrow> same_accounts sv s \<and> accounts_valid s \<and>
     (\<forall>c \<in> set (sv_clients s). if c_id c = i then settled sv news (cl_account c)
        else \<exists>b \<in> set (sv_clients sv). c_id b = c_id c \<and> cl_account b = cl_account c)"

lemma turned_upd:
  assumes "accounts_valid sv" "valid_ptr sv p" "settled sv news p"
  shows "turned news i sv (upd i (\<lambda>c. c\<lparr>cl_account := p\<rparr>) sv)"
proof -
  have "accounts_valid (upd i (\<lambda>c. c\<lparr>cl_account := p\<rparr>) sv)" using assms by (intro valid_upd) simp_all
  moreover have "if c_id c = i then settled sv news (cl_account c) else c \<in> set (sv_clients sv)"
    if c: "c \<in> set (sv_clients (upd i (\<lambda>c. c\<lparr>cl_account := p\<rparr>) sv))" for c
  proof -
    from c obtain b where "b \<in> set (sv_clients sv)" "c = (if c_id b = i then b\<lparr>cl_account := p\<rparr> else b)"
      unfolding upd_clients by blast
    then show ?thesis using assms(3) by (cases "c_id b = i") simp_all
  qed
  ultimately show ?thesis unfolding turned_def by fastforce
qed

lemma turned_drop:
  assumes "accounts_valid sv" "i \<noteq> e_self e"
  shows "turned news i sv (reinit_drop e i cl sv)"
proof (cases "e_is_net e (c_ctyp cl)")
  case True
  then have "reinit_drop e i cl sv = unlink i sv" using assms(2) by (simp add: reinit_drop_def kill_thread_def)
  moreover have "accounts_valid (unlink i sv)" using valid_shrinks [OF assms(1) shrinks_unlink] .
  ultimately show ?thesis by (auto simp: turned_def unlink_def)
next
  case False
  then show ?thesis using turned_upd [OF assms(1), of "a_addr (sv_master sv)" news i]
    by (simp add: reinit_drop_def settled_def valid_ptr_iff)
qed

lemma reinit_client_turned:
  assumes v: "accounts_valid sv" and i: "i \<noteq> e_self e" and n: "\<forall>a \<in> set news. valid_ptr sv (a_addr a) \<and> 0 \<le> a_uniq a"
  shows "\<exists>s. reinit_client e news i sv = Some s \<and> turned news i sv s"
proof (cases "client_at sv i")
  case None
  then have "reinit_client e news i sv = Some sv" by (simp add: reinit_client_def)
  moreover have "turned news i sv sv" using None v by (auto simp: turned_def client_at_None)
  ultimately show ?thesis by blast
next
  case (Some cl)
  then have p: "valid_ptr sv (cl_account cl)" using v client_at_Some by (auto simp: accounts_valid_def list_all_iff)
  show ?thesis
  proof (cases "(cl_typ cl = CHR ''c'' \<or> cl_typ cl = CHR ''m'') \<and> cl_account cl \<noteq> 0")
    case False
    have "reinit_client e news i sv = Some (upd i (\<lambda>c. c\<lparr>cl_account := 0\<rparr>) sv)"
      unfolding reinit_client_def Some option.case if_not_P [OF False] by (rule refl)
    then show ?thesis using turned_upd [OF v, of 0 news i] by (simp add: valid_ptr_def settled_def)
  next
    case True
    then obtain old where old: "deref sv (cl_account cl) = Some old" using p by (auto simp: valid_ptr_def)
    show ?thesis
    proof (cases "\<exists>a. find (\<lambda>a. a_usr old = a_usr a) news = Some a \<and> a_disabled a = 0 \<and> c_pcrc cl = e_pwcrc e (a_pwd a)")
      case False
      then have "reinit_client e news i sv = Some (reinit_drop e i cl sv)"
        using Some True old by (auto simp: reinit_client_def split: option.split)
      then show ?thesis using turned_drop [OF v i] by blast
    next
      case k: True
      then obtain a where a: "find (\<lambda>a. a_usr old = a_usr a) news = Some a" "a_disabled a = 0" "c_pcrc cl = e_pwcrc e (a_pwd a)"
        by blast
      then have an: "a \<in> set news" by (auto simp: find_Some_iff)
      have r: "reinit_client e news i sv = reinit_keep e i cl a sv" using Some True old a by (simp add: reinit_client_def)
      from reinit_keep_valid [OF v, of a e i cl] n an obtain s where s: "reinit_keep e i cl a sv = Some s"
        "same_accounts sv s" "accounts_valid s"
        "\<forall>c \<in> set (sv_clients s). \<exists>b \<in> set (sv_clients sv). c_id c = c_id b \<and> cl_account c = (if c_id b = i then a_addr a else cl_account b)"
        by blast
      have "settled sv news (a_addr a)" using an by (simp add: settled_def)
      with s(4) have "\<forall>c \<in> set (sv_clients s). if c_id c = i then settled sv news (cl_account c)
        else \<exists>b \<in> set (sv_clients sv). c_id b = c_id c \<and> cl_account b = cl_account c" by fastforce
      with r s(1-3) show ?thesis unfolding turned_def by (intro exI [of _ s] conjI) simp_all
    qed
  qed
qed

lemma settled_cong: "sv_master s = sv_master sv \<Longrightarrow> settled s news = settled sv news"
  by (rule ext) (simp add: settled_def)

lemma reinit_loop_settles:
  assumes "accounts_valid sv" "e_self e \<notin> set ids" "\<forall>a \<in> set news. valid_ptr sv (a_addr a) \<and> 0 \<le> a_uniq a"
  shows "\<exists>s. reinit_loop e news ids sv = Some s \<and> same_accounts sv s \<and>
     (\<forall>c \<in> set (sv_clients s). settled sv news (cl_account c) \<or>
        c_id c \<notin> set ids \<and> (\<exists>b \<in> set (sv_clients sv). c_id b = c_id c \<and> cl_account b = cl_account c))"
  using assms
proof (induction ids arbitrary: sv)
  case (Cons i ids)
  then obtain s1 where s1: "reinit_client e news i sv = Some s1" "turned news i sv s1"
    using reinit_client_turned [of sv i e news] by auto
  then have same: "same_accounts sv s1" and v: "accounts_valid s1" by (simp_all add: turned_def)
  have p: "valid_ptr s1 q = valid_ptr sv q" for q using same by (simp add: valid_ptr_iff)
  obtain s where s: "reinit_loop e news ids s1 = Some s" "same_accounts s1 s"
    "\<forall>c \<in> set (sv_clients s). settled s1 news (cl_account c) \<or>
        c_id c \<notin> set ids \<and> (\<exists>b \<in> set (sv_clients s1). c_id b = c_id c \<and> cl_account b = cl_account c)"
    using Cons.IH [OF v] Cons.prems(2,3) p by auto
  have st: "settled s1 news = settled sv news" using same settled_cong by blast
  have "settled sv news (cl_account c) \<or>
      c_id c \<notin> set (i # ids) \<and> (\<exists>b \<in> set (sv_clients sv). c_id b = c_id c \<and> cl_account b = cl_account c)"
    if c: "c \<in> set (sv_clients s)" for c
  proof (cases "settled sv news (cl_account c)")
    case False
    then obtain b where b: "c_id c \<notin> set ids" "b \<in> set (sv_clients s1)" "c_id b = c_id c" "cl_account b = cl_account c"
      using bspec [OF s(3) c] unfolding st by blast
    with s1(2) have "if c_id b = i then settled sv news (cl_account b)
        else \<exists>d \<in> set (sv_clients sv). c_id d = c_id b \<and> cl_account d = cl_account b" unfolding turned_def by blast
    with b False show ?thesis by (cases "c_id b = i") auto
  qed simp
  with s(1,2) s1(1) same show ?case by (intro exI [of _ s]) auto
qed auto

lemma carry1_sel [simp]: "a_addr (carry1 a1 a2) = a_addr a2" "a_uniq (carry1 a1 a2) = a_uniq a2" "a_usr (carry1 a1 a2) = a_usr a2"
  by (simp_all add: carry1_def)

lemma carry_sel:
  "a_addr (foldl (\<lambda>a a1. carry1 a1 a) a2 olds) = a_addr a2 \<and> a_uniq (foldl (\<lambda>a a1. carry1 a1 a) a2 olds) = a_uniq a2"
  by (induction olds arbitrary: a2) simp_all

lemma accounts_chk_valid:
  assumes "accounts_valid sv" "sv_new sv = []" "e_self e \<notin> set (map c_id (sv_clients sv))" "\<forall>a \<in> set news. 0 \<le> a_uniq a"
  shows "case cs_accounts_chk e news sv of None \<Rightarrow> False | Some sv' \<Rightarrow> accounts_valid sv' \<and> sv_new sv' = []"
proof -
  define ns where "ns = carry (sv_accounts sv) news"
  define s0 where "s0 = sv\<lparr>sv_new := ns\<rparr>"
  have v0: "accounts_valid s0"
    using assms(1,2) unfolding accounts_valid_def list_all_iff s0_def by (auto simp: valid_ptr_iff)
  have n0: "\<forall>a \<in> set ns. valid_ptr s0 (a_addr a) \<and> 0 \<le> a_uniq a"
    using assms(4) by (auto simp: ns_def carry_def carry_sel s0_def valid_ptr_iff)
  from reinit_loop_settles [OF v0 _ n0, of e "map c_id (sv_clients s0)"] assms(3)
  obtain s where s: "reinit_loop e ns (map c_id (sv_clients s0)) s0 = Some s" "same_accounts s0 s"
    "\<forall>c \<in> set (sv_clients s). settled s0 ns (cl_account c) \<or>
        c_id c \<notin> set (map c_id (sv_clients s0)) \<and> (\<exists>b \<in> set (sv_clients s0). c_id b = c_id c \<and> cl_account b = cl_account c)"
    by (auto simp: s0_def)
  have st: "settled s0 ns (cl_account c)" if c: "c \<in> set (sv_clients s)" for c
  proof (rule ccontr)
    assume "\<not> settled s0 ns (cl_account c)"
    then obtain b where "c_id c \<notin> c_id ` set (sv_clients s0)" "b \<in> set (sv_clients s0)" "c_id b = c_id c"
      using bspec [OF s(3) c] by (auto simp only: set_map)
    then show False by (metis imageI)
  qed
  define sv' where "sv' = s\<lparr>sv_clients := fst (ac_clear (sv_clients s) (sv_new s)),
     sv_accounts := snd (ac_clear (sv_clients s) (sv_new s)), sv_new := []\<rparr>"
  have r: "cs_accounts_chk e news sv = Some sv'"
    using s(1) by (simp add: cs_accounts_chk_def cs_reinit_clients_def ns_def s0_def sv'_def case_prod_beta)
  have acc: "sv_accounts sv' = map (\<lambda>a. a\<lparr>ac_stat := ac_zero\<rparr>) ns" "sv_master sv' = sv_master s0"
    using s(2) by (simp_all add: sv'_def ac_clear_def s0_def)
  have "\<exists>b \<in> set (sv_clients s). cl_account c = cl_account b" if "c \<in> set (sv_clients sv')" for c
    using that by (auto simp: sv'_def ac_clear_def)
  then have "valid_ptr sv' (cl_account c)" if "c \<in> set (sv_clients sv')" for c
    using that st acc by (fastforce simp: valid_ptr_iff settled_def image_iff)
  then show ?thesis unfolding r by (simp add: accounts_valid_def list_all_iff) (simp add: sv'_def)
qed

section \<open>Properties\<close>

text \<open>A user \<open>u\<close> who may connect once, with one connection (10), a new one (11) and a client of nobody (12).\<close>

definition account0 :: "nat \<Rightarrow> string \<Rightarrow> int \<Rightarrow> account" where
  "account0 p usr uniq =
    \<lparr>ac_users = 0, ac_penalty = 0, ac_stat = ac_zero, a_addr = p, a_usr = usr, a_pwd = ''pw'', a_uniq = uniq, a_aureader_list = 0,
     a_autoau = 0, a_monlvl = 0, a_grp = 1, a_tosleep = 0, a_ctab = [], a_sidtabok = 0, a_sidtabno = 0, a_fchid = [], a_ftab = [],
     a_cltab = \<lparr>aclass = [], bclass = []\<rparr>, a_ttab = [], a_dynip = 0, a_dyndns = '''', a_expirationdate = 0, a_firstlogin = 0,
     a_allowedtimeframe = (0, 0), a_c35_suppresscmd08 = 0, a_c35_sleepsend = 0, a_ncd_keepalive = 0, a_disabled = 0,
     a_failban = 0, a_cwfound = 0, a_cwcache = 0, a_cwnot = 0, a_cwtun = 0, a_cwignored = 0, a_cwtout = 0, a_emmok = 0, a_emmnok = 0\<rparr>"

definition env0 :: env where
  "env0 = \<lparr>e_now = 100, e_self = 0, e_mem = True, e_ban = \<lparr>failbantime = 0, failbancount = 0\<rparr>,
     e_ac = \<lparr>ac_enabled = True, ac_stime = 2, ac_samples = 10, ac_denysamples = 8, cpmap = []\<rparr>, e_dropdups = False,
     e_pwcrc = (\<lambda>s. of_nat (length s)), e_resolve = (\<lambda>h. 0), e_s_port = (\<lambda>i j. 80), e_is_net = (\<lambda>i. True)\<rparr>"

definition user_client :: "nat \<Rightarrow> u32 \<Rightarrow> nat \<Rightarrow> client" where
  "user_client i ip acc = (client0 i ip acc 50)\<lparr>cl_typ := CHR ''c'', c_pcrc := 2\<rparr>"

definition server0 :: "int \<Rightarrow> server" where
  "server0 uniq = \<lparr>sv_clients = [user_client 10 7 2, user_client 11 8 1, user_client 12 9 0], sv_master = account0 1 '''' 0,
     sv_accounts = [account0 2 ''u'' uniq], sv_new = [], sv_bans = []\<rparr>"

lemmas server0_defs = account0_def env0_def user_client_def server0_def client0_def ac_zero_def

text \<open>C24. One connection per user: when a client logs in to an account with \<open>uniq\<close> 1 to 4 and is neither turned
  away nor answered with an error, the connections of that user that are served are unrivalled afterwards if those of
  the other clients were before: there is at most one of them with \<open>uniq\<close> 1 or 3, and none from another address
  with 2 or 4, also when the client is thrown out by it (\<open>dropdups\<close>) and whatever was killed on the way.\<close>

theorem login_unrivalled:
  assumes "cs_auth_client e cid (Account p) sv = Some (rc, sv')" "rc \<noteq> Some 1" "rc \<noteq> Some 2"
    and "distinct (map c_id (sv_clients sv))" "client_at sv cid = Some c" "cl_typ c = CHR ''c''"
    and "deref sv p = Some acc" "0 < a_uniq acc" "a_uniq acc < 5"
    and "unrivalled (a_uniq acc) (filter (\<lambda>c. c_id c \<noteq> cid) (connections sv (a_usr acc)))"
  shows "unrivalled (a_uniq acc) (connections sv' (a_usr acc))"
  by (rule auth_unrivalled [OF assms])

lemma login3_result:
  "\<exists>s. cs_auth_client env0 11 (Account 2) (server0 3) = Some (Some 0, s) \<and> map c_id (connections s ''u'') = [11]"
  by (simp add: server0_defs cs_auth_client_def client_at_def deref_def upd_def auth_account_case_def auth_granted_def
    upd_account_def grant1_def cs_fake_client_def duplicate_def grant2_def ac_init_client_def connections_def active_def Let_def)

theorem login_unrivalled_witness:
  "\<exists>s. cs_auth_client env0 11 (Account 2) (server0 3) = Some (Some 0, s) \<and> map c_id (connections s ''u'') = [11] \<and>
     unrivalled 3 (connections s ''u'')"
proof -
  obtain s where s: "cs_auth_client env0 11 (Account 2) (server0 3) = Some (Some 0, s)" "map c_id (connections s ''u'') = [11]"
    using login3_result by (elim exE conjE)
  have "unrivalled (a_uniq (account0 2 ''u'' 3)) (connections s (a_usr (account0 2 ''u'' 3)))"
    by (rule login_unrivalled [OF s(1), where c = "user_client 11 8 1"])
      (simp_all add: server0_defs client_at_def deref_def connections_def active_def unrivalled_def)
  then show ?thesis using s by (simp add: account0_def)
qed

text \<open>C25. A reload of the accounts always has a result, and after it every client that is left can read its account or
  has none: no client still refers to an account of the old list, which is freed. The reloading thread must not be
  one of the clients (see \<open>monitor_reload_dangles\<close>).\<close>

theorem reload_accounts_valid:
  assumes "accounts_valid sv" "sv_new sv = []" "e_self e \<notin> set (map c_id (sv_clients sv))" "\<forall>a \<in> set news. 0 \<le> a_uniq a"
  shows "case cs_accounts_chk e news sv of None \<Rightarrow> False | Some sv' \<Rightarrow> accounts_valid sv' \<and> sv_new sv' = []"
  by (rule accounts_chk_valid [OF assms])

theorem reload_accounts_valid_witness:
  "case cs_accounts_chk env0 [account0 5 ''u'' 1, account0 6 ''v'' 0] (server0 1) of None \<Rightarrow> False
   | Some sv' \<Rightarrow> accounts_valid sv' \<and> sv_new sv' = []"
  by (rule reload_accounts_valid) (simp_all add: server0_defs accounts_valid_def valid_ptr_def deref_def)

text \<open>A monitor client (0x6D) whose own user was deleted or has a new password triggers the reload: it does not kill itself
  and keeps the pointer to its old account.\<close>

lemma monitor_reload_dangles:
  "\<exists>s. cs_accounts_chk (env0\<lparr>e_self := 10\<rparr>) [account0 5 ''v'' 0]
      ((server0 1)\<lparr>sv_clients := [(user_client 10 7 2)\<lparr>cl_typ := CHR ''m''\<rparr>]\<rparr>) = Some s \<and>
    map cl_account (sv_clients s) = [2] \<and> deref s 2 = None"
  by (simp add: server0_defs cs_accounts_chk_def carry_def carry1_def cs_reinit_clients_def reinit_client_def client_at_def deref_def
    reinit_drop_def kill_thread_def ac_clear_def Let_def)

text \<open>After the login above with \<open>uniq\<close> 1 the connection 10 is served and 11 is a duplicate. A reload that changes nothing
  makes 10 a duplicate as well: \<open>cs_fake_client\<close> is also called for 11, with \<open>uniq\<close> 3. No connection of the user is served
  any more.\<close>

lemma reload_fakes_all:
  "\<exists>s t. cs_auth_client env0 11 (Account 2) (server0 1) = Some (Some 0, s) \<and> map c_id (connections s ''u'') = [10] \<and>
     cs_accounts_chk env0 [account0 5 ''u'' 1] s = Some t \<and> map c_id (sv_clients t) = [10, 11, 12] \<and> connections t ''u'' = []"
  by (simp add: server0_defs cs_auth_client_def client_at_def deref_def upd_def auth_account_case_def auth_granted_def
    upd_account_def grant1_def cs_fake_client_def duplicate_def grant2_def ac_init_client_def connections_def active_def
    cs_accounts_chk_def carry_def carry1_def cs_reinit_clients_def reinit_client_def reinit_keep_def regrant_def reload_uniq_def
    reload_limit_def ac_clear_def Let_def)

text \<open>A duplicate has no AU readers; the reload gives them back to it.\<close>

lemma reload_returns_readers:
  "c_dup c \<Longrightarrow> c_dup (regrant e a c) \<and> c_aureader_list (regrant e a c) = a_aureader_list a"
  by (simp add: regrant_def)

text \<open>An account without a limit of users (\<open>ac_users\<close> 0) gets no limit at the login and the limit of 80 per minute at a reload.\<close>

lemma reload_limits_unlimited:
  "ac_users a = 0 \<Longrightarrow> cl_ac_limit (grant2 env0 a c) = 0 \<and> cl_ac_limit (reload_limit env0 a c) = 160"
  by (simp add: grant2_def ac_init_client_def reload_limit_def env0_def s32_id)

text \<open>The number of users and the penalty of a user that was there before are the old ones, whatever the file says now.\<close>

lemma reload_keeps_ac_users:
  assumes "a_usr a1 = a_usr a2"
  shows "ac_users (carry1 a1 a2) = ac_users a1 \<and> ac_penalty (carry1 a1 a2) = ac_penalty a1"
  using assms by (simp add: carry1_def)

text \<open>A connection from an address that is banned gets no client; a packet of a client that is there already is passed on.\<close>

lemma accept_banned:
  assumes "failbantime (e_ban e) \<noteq> 0" "fst (ban_walk (e_ban e) (e_now e) ip (e_s_port e i j) False (sv_bans sv))"
    and "udp \<longrightarrow> idx_from_ip ip port sv = None"
  shows "fst (accept_connection e udp i j ip port fresh thread sv) = Refused \<and>
    sv_clients (snd (accept_connection e udp i j ip port fresh thread sv)) = sv_clients sv"
  using assms by (cases udp) (simp_all add: accept_connection_def cs_check_violation_def cs_check_v_def case_prod_beta Let_def)

lemma accept_creates:
  assumes "failbantime (e_ban e) = 0" "\<forall>c \<in> set (sv_clients sv). c_id c \<noteq> n" "udp \<longrightarrow> idx_from_ip ip port sv = None"
  shows "accept_connection e udp i j ip port (Some n) True sv = (Created n, sv\<lparr>sv_clients := sv_clients sv @
    [(client0 n ip (a_addr (sv_master sv)) (e_now e))\<lparr>c_ctyp := i, cl_port_idx := j, c_port := port, cl_typ := CHR ''c''\<rparr>]\<rparr>)"
proof -
  have "map (\<lambda>c. if c_id c = n then f c else c) (sv_clients sv) = sv_clients sv" for f
    using assms(2) by (intro map_idI) auto
  moreover have "c_id (client0 n ip p t) = n" for p t by (simp add: client0_def)
  ultimately show ?thesis using assms(1,3)
    by (cases udp) (simp_all add: accept_connection_def cs_check_violation_def cs_check_v_def create_client_def upd_def Let_def)
qed

text \<open>The index into the ring of response times stays inside it.\<close>

lemma lastresponsetime_in_ring:
  assumes "length (c_cwlastresptimes cl) = CS_ECM_RINGBUFFER_MAX" "c_cwlastresptimes_last cl < CS_ECM_RINGBUFFER_MAX"
  shows "\<exists>cl'. cs_add_lastresponsetime ltime t rc cl = Some cl' \<and> length (c_cwlastresptimes cl') = CS_ECM_RINGBUFFER_MAX \<and>
    c_cwlastresptimes_last cl' < CS_ECM_RINGBUFFER_MAX"
  using assms by (auto simp: cs_add_lastresponsetime_def store_def CS_ECM_RINGBUFFER_MAX_def Let_def)

end
