(* ===== verification/Share.thy ===== *)
theory Share
  imports CCmsg
begin

unbundle bit_operations_syntax

text \<open>
  The cards that a CCcam server offers to its clients, \<open>module-cccshare.c\<close>: how a card is written into a message, which client may see
  it, and how the cards of all readers become one list.

  A card is a value here, the copies of \<open>create_card\<close> are equal values; \<open>sc_sidtab\<close> is the position of an entry of \<open>cfg.sidtab\<close>.
  \<open>None\<close> is a write behind the buffer of a message. Memory is always there (\<open>QUITERROR\<close> ends the program).
\<close>

section \<open>Data\<close>

datatype cc_card_type =
    CT_LOCALCARD
  | CT_CARD_BY_SERVICE_READER
  | CT_CARD_BY_SERVICE_USER
  | CT_CARD_BY_CAID1
  | CT_CARD_BY_CAID2
  | CT_CARD_BY_CAID3
  | CT_REMOTECARD

record share_card = cc_card +
  sc_type :: cc_card_type
  sc_sidtab :: "nat option"
  sc_origin_reader :: bool
  sc_rdr_reshare :: u8
  sc_sidtabno :: u64
  sc_timeout :: int

datatype cc_minimize = MINIMIZE_NONE | MINIMIZE_HOPS | MINIMIZE_CAID

record share_cfg =
  cfg_reshare :: int
  cfg_ignore_reshare :: bool
  cfg_reshare_services :: int
  cfg_minimize :: cc_minimize
  cfg_forward_origin :: bool
  cfg_sidtab :: "sidtab list"

datatype cc_mode = CCCAM_MODE_NORMAL | CCCAM_MODE_SHUTDOWN | CCCAM_MODE_OTHER

text \<open>A client with its account. \<open>sl_mode\<close> is \<open>None\<close> without \<open>cl->cc\<close>, \<open>sl_cccam\<close> tells that its module is CCcam, \<open>sl_alive\<close> that
  \<open>cc_cmd_send\<close> works; \<open>sl_out\<close> are the messages that were sent, with their payloads.\<close>

record share_client = s_client +
  sl_cccam :: bool
  sl_mode :: "cc_mode option"
  sl_cccam220 :: bool
  sl_peer :: "u8 list"
  sl_node :: "u8 list"
  sl_reshare :: int
  sl_ignorereshare :: int
  sl_maxhops :: int
  sl_ctab :: caidtab
  sl_aureaders :: nat
  sl_alive :: bool
  sl_out :: "(u8 \<times> u8 list) list"

definition the_card :: "share_card \<Rightarrow> cc_card" where
  "the_card c = cc_card.truncate c"

section \<open>Writing a card\<close>

definition can_use_ext :: "share_cfg \<Rightarrow> share_card \<Rightarrow> bool" where
  "can_use_ext cfg cd =
     (if sc_type cd = CT_REMOTECARD then cd_is_ext cd
      else case sc_sidtab cd of
        Some n \<Rightarrow> st_srvid (cfg_sidtab cfg ! n) \<noteq> []
      | None \<Rightarrow> cd_goodsids cd \<noteq> [] \<and> cd_badsids cd \<noteq> [])"

definition bytes2 :: "u16 \<Rightarrow> u8 list" where
  "bytes2 x = [ucast (drop_bit 8 x), ucast x]"

definition bytes3 :: "u32 \<Rightarrow> u8 list" where
  "bytes3 x = [ucast (drop_bit 16 x), ucast (drop_bit 8 x), ucast x]"

definition bytes4 :: "u32 \<Rightarrow> u8 list" where
  "bytes4 x = [ucast (drop_bit 24 x), ucast (drop_bit 16 x), ucast (drop_bit 8 x), ucast x]"

definition write_provider :: "bool \<Rightarrow> cc_provider \<Rightarrow> u8 list" where
  "write_provider au_allowed p = bytes3 (pv_prov p) @ (if au_allowed then take 4 (pv_sa p) else [0, 0, 0, 0])"

text \<open>The services that a card with a service entry is announced with, at most 240 of each kind; the rejected ones are those of all
  entries for the CAID that the client or the reader excludes.\<close>

definition sidtab_rejects :: "share_cfg \<Rightarrow> share_card \<Rightarrow> u64 \<Rightarrow> u16 list" where
  "sidtab_rejects cfg cd cl_no =
     concat (map (\<lambda>n. let ptr = cfg_sidtab cfg ! n in
        if (bit cl_no n \<or> bit (sc_sidtabno cd) n) \<and> list_ex (\<lambda>x. x = cd_caid cd) (st_caid ptr) then st_srvid ptr else [])
      [0..<length (cfg_sidtab cfg)])"

definition card_sids :: "share_cfg \<Rightarrow> share_card \<Rightarrow> u64 \<Rightarrow> u16 list \<times> u16 list" where
  "card_sids cfg cd cl_no =
     (case sc_sidtab cd of
        Some n \<Rightarrow> (take 240 (st_srvid (cfg_sidtab cfg ! n)), take 240 (sidtab_rejects cfg cd cl_no))
      | None \<Rightarrow> (take 200 (map sv_sid (cd_goodsids cd)), take 200 (map sv_sid (cd_badsids cd))))"

text \<open>The message; every field is written behind the one before, so the writes stay inside the buffer when the last one does. The counts
  of providers and of nodes are bytes that wrap.\<close>

definition write_card ::
  "share_cfg \<Rightarrow> u8 list \<Rightarrow> share_card \<Rightarrow> bool \<Rightarrow> bool \<Rightarrow> bool \<Rightarrow> u64 \<Rightarrow> u8 list option" where
  "write_card cfg node_id cd add_own ext au_allowed cl_no =
     (let (good, bad) = card_sids cfg cd cl_no;
          nodes = cd_nodes cd @ (if add_own then [node_id] else []);
          buf = bytes4 (cd_id cd) @ bytes4 (cd_remote_id cd) @ bytes2 (cd_caid cd) @ [cd_hop cd, cd_reshare cd] @
            (if au_allowed then take 8 (cd_hexserial cd) else replicate 8 0) @ [of_nat (length (cd_providers cd))] @
            (if ext then [of_nat (length good), of_nat (length bad)] else []) @
            concat (map (write_provider au_allowed) (cd_providers cd)) @
            (if ext then concat (map bytes2 good) @ concat (map bytes2 bad) else []) @
            [of_nat (length nodes)] @ concat (map (take 8) nodes)
      in if length buf \<le> CC_MAXMSGSIZE then Some buf else None)"

section \<open>Which client sees a card\<close>

definition usr_ignorereshare :: "share_cfg \<Rightarrow> share_client \<Rightarrow> bool" where
  "usr_ignorereshare cfg cl = (if sl_ignorereshare cl = -1 then cfg_ignore_reshare cfg else sl_ignorereshare cl \<noteq> 0)"

text \<open>Some provider of the card is open to the client; \<open>chk_srvid_by_caid_prov\<close> is asked until one is.\<close>

fun any_provider :: "share_cfg \<Rightarrow> share_client \<Rightarrow> u16 \<Rightarrow> cc_provider list \<Rightarrow> bool option" where
  "any_provider cfg cl caid [] = Some False"
| "any_provider cfg cl caid (p # ps) = do {
     ok \<leftarrow> chk_srvid_by_caid_prov (cfg_sidtab cfg) cl caid (pv_prov p);
     if ok then Some True else any_provider cfg cl caid ps }"

definition service_valid :: "share_client \<Rightarrow> nat \<Rightarrow> bool" where
  "service_valid cl j =
     (if cl_sidtabok cl = 0 \<and> cl_sidtabno cl = 0 then True
      else \<not> bit (cl_sidtabno cl) j \<and> (bit (cl_sidtabok cl) j \<or> cl_sidtabok cl = 0))"

definition card_valid_for_client :: "share_cfg \<Rightarrow> share_client \<Rightarrow> share_card \<Rightarrow> bool option" where
  "card_valid_for_client cfg cl cd =
     (if cd_grp cd \<noteq> 0 \<and> cd_grp cd AND cl_grp cl = 0 then Some False
      else if \<not> chk_ident (cl_ftab cl) (the_card cd) then Some False
      else if \<not> chk_ctab (cd_caid cd) (sl_ctab cl) then Some False
      else if sc_type cd = CT_REMOTECARD \<and> \<not> cfg_ignore_reshare cfg \<and> \<not> usr_ignorereshare cfg cl \<and> cd_reshare cd = 0 then Some False
      else if sl_maxhops cl < uint (cd_hop cd) then Some False
      else if list_ex (\<lambda>node. node = sl_peer cl) (cd_nodes cd) then Some False
      else do {
        found \<leftarrow> (if cd_providers cd = [] then Some True else any_provider cfg cl (cd_caid cd) (cd_providers cd));
        Some (found \<and> (case sc_sidtab cd of None \<Rightarrow> True | Some j \<Rightarrow> service_valid cl j)) })"

text \<open>How far the client may share the card; a negative number keeps the card from it.\<close>

definition new_reshare :: "share_cfg \<Rightarrow> share_client \<Rightarrow> share_card \<Rightarrow> int" where
  "new_reshare cfg cl cd =
     (let usr = (if sl_reshare cl = -1 then cfg_reshare cfg else sl_reshare cl);
          rdr0 = (if sc_origin_reader cd then uint (sc_rdr_reshare cd) else usr);
          rdr = (if rdr0 = -1 then cfg_reshare cfg else rdr0);
          reshare = (if rdr < usr then rdr else usr) in
      if sc_type cd = CT_CARD_BY_SERVICE_USER then usr
      else if cfg_ignore_reshare cfg \<or> usr_ignorereshare cfg cl then reshare
      else let n = (if sc_type cd = CT_REMOTECARD then uint (cd_reshare cd) - 1 else uint (cd_reshare cd))
           in if reshare < n then reshare else n)"

section \<open>Messages to the clients\<close>

definition listens :: "bool \<Rightarrow> share_client \<Rightarrow> bool" where
  "listens one cl \<longleftrightarrow> cl_typ cl = CHR ''c'' \<and>
     (case sl_mode cl of
        None \<Rightarrow> False
      | Some m \<Rightarrow> one \<and> m \<noteq> CCCAM_MODE_SHUTDOWN \<or> sl_cccam cl \<and> m = CCCAM_MODE_NORMAL)"

definition cmd_send :: "u8 \<Rightarrow> u8 list \<Rightarrow> share_client \<Rightarrow> share_client" where
  "cmd_send msg buf cl = (if sl_alive cl then cl\<lparr>sl_out := sl_out cl @ [(msg, buf)]\<rparr> else cl)"

text \<open>One turn of \<open>send_card_to_clients\<close>: the next number is \<open>cc_share_id\<close>, a card gets its number with the first client.\<close>

definition send_card_to_client ::
  "share_cfg \<Rightarrow> bool \<Rightarrow> share_client \<Rightarrow> share_card \<Rightarrow> u32 \<Rightarrow> (share_client \<times> share_card \<times> u32) option" where
  "send_card_to_client cfg one cl cd share_id =
     (if \<not> listens one cl then Some (cl, cd, share_id)
      else do {
        valid \<leftarrow> card_valid_for_client cfg cl cd;
        if \<not> valid \<or> new_reshare cfg cl cd < 0 then Some (cl, cd, share_id)
        else do {
          (let ext = sl_cccam220 cl \<and> can_use_ext cfg cd;
               (card1, next1) = (if cd_id cd = 0 then (cd\<lparr>cd_id := share_id\<rparr>, share_id + 1) else (cd, share_id)) in do {
            buf \<leftarrow> write_card cfg (sl_node cl) card1 True ext (sl_aureaders cl \<noteq> 0) (cl_sidtabno cl);
            (let cl1 = cmd_send (if ext then MSG_NEW_CARD_SIDINFO else MSG_NEW_CARD) (buf[11 := of_int (new_reshare cfg cl cd)]) cl in
             Some (if sl_alive cl then cl1 else cl1\<lparr>sl_mode := Some CCCAM_MODE_SHUTDOWN\<rparr>, card1, next1)) })
        }
      })"

fun send_card_to_clients ::
  "share_cfg \<Rightarrow> share_client list \<Rightarrow> share_card \<Rightarrow> u32 \<Rightarrow> (share_client list \<times> share_card \<times> u32) option" where
  "send_card_to_clients cfg [] cd share_id = Some ([], cd, share_id)"
| "send_card_to_clients cfg (cl # cls) cd share_id = do {
     (cl1, card1, n1) \<leftarrow> send_card_to_client cfg False cl cd share_id;
     (cls2, card2, n2) \<leftarrow> send_card_to_clients cfg cls card1 n1;
     Some (cl1 # cls2, card2, n2) }"

definition send_remove_to_client :: "share_cfg \<Rightarrow> share_card \<Rightarrow> share_client \<Rightarrow> share_client option" where
  "send_remove_to_client cfg cd cl =
     (if \<not> listens False cl then Some cl
      else do {
        valid \<leftarrow> card_valid_for_client cfg cl cd;
        Some (if valid then cmd_send MSG_CARD_REMOVED (bytes4 (cd_id cd)) cl else cl) })"

definition send_remove_card_to_clients :: "share_cfg \<Rightarrow> share_card \<Rightarrow> share_client list \<Rightarrow> share_client list option" where
  "send_remove_card_to_clients cfg cd cls =
     (if cd_id cd = 0 then Some cls else those (map (send_remove_to_client cfg cd) cls))"

section \<open>Lemmas\<close>

subsection \<open>Bytes and blocks\<close>

lemma bytes_length [simp]: "length (bytes2 x) = 2" "length (bytes3 y) = 3" "length (bytes4 z) = 4"
  by (simp_all add: bytes2_def bytes3_def bytes4_def)

lemma b2i_bytes4: "b2i 4 (bytes4 x @ r) = Some x"
proof -
  have "push_bit 24 (ucast (ucast (drop_bit 24 x) :: u8)) OR push_bit 16 (ucast (ucast (drop_bit 16 x) :: u8)) OR
      push_bit 8 (ucast (ucast (drop_bit 8 x) :: u8)) OR ucast (ucast x :: u8) = x"
  proof (rule bit_word_eqI)
    fix n
    assume "n < LENGTH(32)"
    then consider "n < 8" | "8 \<le> n" "n < 16" | "16 \<le> n" "n < 24" | "24 \<le> n" "n < 32" by fastforce
    then show "bit (push_bit 24 (ucast (ucast (drop_bit 24 x) :: u8) :: u32) OR push_bit 16 (ucast (ucast (drop_bit 16 x) :: u8)) OR
      push_bit 8 (ucast (ucast (drop_bit 8 x) :: u8)) OR ucast (ucast x :: u8)) n = bit x n"
      by cases (auto simp: bit_simps dest: bit_imp_le_length)
  qed
  then show ?thesis by (simp add: b2i_def bytes4_def)
qed

lemma three_bytes: "x < 0x1000000 \<Longrightarrow> take_bit 24 x = (x :: u32)"
  by (rule word_uint_eqI) (simp add: unsigned_take_bit_eq take_bit_int_eq_self word_less_def)

lemma b2i_bytes3:
  assumes "x < 0x1000000"
  shows "b2i 3 (bytes3 x @ r) = Some x"
proof -
  have "push_bit 16 (ucast (ucast (drop_bit 16 x) :: u8)) OR push_bit 8 (ucast (ucast (drop_bit 8 x) :: u8)) OR ucast (ucast x :: u8) = take_bit 24 x"
  proof (rule bit_word_eqI)
    fix n
    assume "n < LENGTH(32)"
    then consider "n < 8" | "8 \<le> n" "n < 16" | "16 \<le> n" "n < 24" | "24 \<le> n" by linarith
    then show "bit (push_bit 16 (ucast (ucast (drop_bit 16 x) :: u8) :: u32) OR push_bit 8 (ucast (ucast (drop_bit 8 x) :: u8)) OR ucast (ucast x :: u8)) n
      = bit (take_bit 24 x) n"
      by cases (auto simp: bit_simps dest: bit_imp_le_length)
  qed
  with three_bytes [OF assms] show ?thesis by (simp add: b2i_def bytes3_def)
qed

lemma b2i_bytes2: "b2i 2 (bytes2 x @ r) = Some (ucast x)"
proof -
  have "push_bit 8 (ucast (ucast (drop_bit 8 x) :: u8)) OR ucast (ucast x :: u8) = (ucast x :: u32)"
  proof (rule bit_word_eqI)
    fix n :: nat
    consider "n < 8" | "8 \<le> n" "n < 16" | "16 \<le> n" by linarith
    then show "bit (push_bit 8 (ucast (ucast (drop_bit 8 x) :: u8)) OR ucast (ucast x :: u8) :: u32) n = bit (ucast x :: u32) n"
      by cases (auto simp: bit_simps dest: bit_imp_le_length)
  qed
  then show ?thesis by (simp add: b2i_def bytes2_def)
qed

lemma u16_u32: "ucast (ucast s :: u32) = (s :: u16)"
  by (rule bit_word_eqI) (simp add: bit_simps)

lemma concat_map_length: "\<forall>x \<in> set xs. length (f x) = k \<Longrightarrow> length (concat (map f xs)) = k * length xs"
  by (induction xs) auto

lemma drop_block:
  assumes "\<forall>x \<in> set xs. length (f x) = k" "i < length xs" "length pre = n"
  shows "drop (n + k * i) (pre @ concat (map f xs) @ post) = f (xs ! i) @ concat (map f (drop (Suc i) xs)) @ post"
  using assms
proof (induction xs arbitrary: i n pre)
  case (Cons x xs)
  show ?case
  proof (cases i)
    case 0
    then show ?thesis using Cons.prems by simp
  next
    case (Suc j)
    have "drop (n + k + k * j) ((pre @ f x) @ concat (map f xs) @ post) = f (xs ! j) @ concat (map f (drop (Suc j) xs)) @ post"
      by (rule Cons.IH [of j "pre @ f x" "n + k"]) (use Cons.prems Suc in auto)
    moreover have "n + k * i = n + k + k * j" using Suc by simp
    ultimately show ?thesis unfolding Suc by (simp only: list.map concat.simps append_assoc nth_Cons_Suc drop_Suc_Cons)
  qed
qed simp

lemma those_map_Some: "(\<And>i. i \<in> set is \<Longrightarrow> f i = Some (g i)) \<Longrightarrow> those (map f is) = Some (map g is)"
  by (induction "is") auto

lemma read_all_blocks:
  assumes "\<And>i. i < length xs \<Longrightarrow> f i = Some (g (xs ! i))"
  shows "read_all f (length xs) = Some (map g xs)"
proof -
  have "those (map f [0..<length xs]) = Some (map (\<lambda>i. g (xs ! i)) [0..<length xs])"
    by (rule those_map_Some) (rule assms, simp)
  moreover have "map (\<lambda>i. g (xs ! i)) [0..<length xs] = map g xs" by (rule nth_equalityI) simp_all
  ultimately show ?thesis by (simp only: read_all_def)
qed

subsection \<open>A card on the wire\<close>

text \<open>What fits the format: providers of three bytes that are not the place holder of Mediaguard cards, shared addresses of four, nodes and
  the serial of eight bytes, and counts that fit a byte.\<close>

definition wire_ok :: "share_card \<Rightarrow> bool" where
  "wire_ok c \<longleftrightarrow> length (cd_hexserial c) = 8 \<and> length (cd_providers c) < 256 \<and> length (cd_nodes c) < 255 \<and>
     list_all (\<lambda>p. pv_prov p < 0x1000000 \<and> \<not> (pv_prov p = 0xFFFFFF \<and> drop_bit 8 (cd_caid c) = 0x17) \<and> length (pv_sa p) = 4)
       (cd_providers c) \<and> list_all (\<lambda>n. length n = 8) (cd_nodes c)"

definition sid_of :: "u16 \<Rightarrow> cc_srvid" where
  "sid_of s = \<lparr>sv_sid = s, sv_ecmlen = 0\<rparr>"

text \<open>The card that the reader of the message sees.\<close>

definition seen_card :: "nat \<Rightarrow> u64 \<Rightarrow> share_cfg \<Rightarrow> u8 list \<Rightarrow> bool \<Rightarrow> bool \<Rightarrow> u64 \<Rightarrow> share_card \<Rightarrow> cc_card" where
  "seen_card a grp cfg node ext au no c =
     \<lparr>cd_ref = a, cd_id = cd_id c, cd_remote_id = cd_remote_id c, cd_caid = cd_caid c, cd_hop = cd_hop c, cd_reshare = cd_reshare c,
      cd_hexserial = (if au then cd_hexserial c else replicate 8 0),
      cd_providers = (if au then cd_providers c else map (\<lambda>p. p\<lparr>pv_sa := [0, 0, 0, 0]\<rparr>) (cd_providers c)),
      cd_badsids = (if ext then map sid_of (snd (card_sids cfg c no)) else []),
      cd_goodsids = (if ext then map sid_of (fst (card_sids cfg c no)) else []),
      cd_nodes = cd_nodes c @ [node], cd_grp = grp, cd_remote = True, cd_is_ext = ext\<rparr>"

lemma write_provider_length: "length (pv_sa p) = 4 \<Longrightarrow> length (write_provider au p) = 7"
  by (simp add: write_provider_def)

lemma read_written_provider:
  assumes "\<forall>p \<in> set ps. pv_prov p < 0x1000000 \<and> \<not> (pv_prov p = 0xFFFFFF \<and> drop_bit 8 caid = 0x17) \<and> length (pv_sa p) = 4"
    and "i < length ps" "length pre = ofs"
  shows "read_provider caid (pre @ concat (map (write_provider au) ps) @ post) ofs i =
    Some (if au then ps ! i else (ps ! i)\<lparr>pv_sa := [0, 0, 0, 0]\<rparr>)"
proof -
  let ?p = "ps ! i" and ?b = "pre @ concat (map (write_provider au) ps) @ post"
  have p: "pv_prov ?p < 0x1000000" "\<not> (pv_prov ?p = 0xFFFFFF \<and> drop_bit 8 caid = 0x17)" "length (pv_sa ?p) = 4"
    using assms(1,2) nth_mem by blast+
  have l: "\<forall>p \<in> set ps. length (write_provider au p) = 7" using assms(1) write_provider_length by blast
  define q where "q = concat (map (write_provider au) (drop (Suc i) ps)) @ post"
  have d: "drop (ofs + 7 * i) ?b = write_provider au ?p @ q"
    unfolding q_def by (rule drop_block [OF l assms(2,3)])
  then have "drop (ofs + 7 * i + 3) ?b = drop 3 (write_provider au ?p @ q)" by (metis add.commute drop_drop)
  then have d3: "drop (ofs + 7 * i + 3) ?b = (if au then pv_sa ?p else [0, 0, 0, 0]) @ q" using p(3) by (simp add: write_provider_def)
  have b: "b2i 3 (drop (ofs + 7 * i) ?b) = Some (pv_prov ?p)" unfolding d write_provider_def append_assoc by (rule b2i_bytes3 [OF p(1)])
  have "7 + length q = length ?b - (ofs + 7 * i)" using arg_cong [OF d, of length] write_provider_length [OF p(3)] by simp
  then have "\<not> length ?b < ofs + 7 * i + 7" by linarith
  then have l: "\<not> length ?b < ofs + 7 * i + 7" .
  have t: "take 4 (drop (ofs + 7 * i + 3) ?b) = (if au then pv_sa ?p else [0, 0, 0, 0])" unfolding d3 using p(3) by simp
  show ?thesis
    unfolding read_provider_def Let_def b bind.bind_lunit if_not_P [OF l] if_not_P [OF p(2)] t by (cases "ps ! i") simp
qed

lemma read_written_sid:
  assumes "i < length ss" "length pre = ofs"
  shows "read_sid (pre @ concat (map bytes2 ss) @ post) ofs i = Some (sid_of (ss ! i))"
proof -
  have "drop (ofs + 2 * i) (pre @ concat (map bytes2 ss) @ post) = bytes2 (ss ! i) @ concat (map bytes2 (drop (Suc i) ss)) @ post"
    by (rule drop_block) (use assms in simp_all)
  then show ?thesis by (simp only: read_sid_def b2i_bytes2 sid_of_def u16_u32 bind.bind_lunit)
qed

lemma read_written_node:
  assumes "\<forall>n \<in> set ns. length n = 8" "i < length ns" "length pre = ofs"
  shows "read_node (pre @ concat (map (take 8) ns)) ofs i = Some (ns ! i)"
proof -
  have "drop (ofs + 8 * i) (pre @ concat (map (take 8) ns) @ []) = take 8 (ns ! i) @ concat (map (take 8) (drop (Suc i) ns)) @ []"
    by (rule drop_block) (use assms in auto)
  moreover have "length (ns ! i) = 8" using assms(1,2) by simp
  ultimately show ?thesis by (simp add: read_node_def Let_def)
qed

lemma read_card_blocks:
  assumes b: "b = pre @ concat (map (write_provider au) ps) @ concat (map bytes2 good) @ concat (map bytes2 bad) @ [nn] @ concat (map (take 8) nodes)"
    and pre: "length pre = (if ext then 23 else 21)"
    and heads: "b2i 4 b = Some i" "b2i 4 (drop 4 b) = Some rid" "b2i 2 (drop 8 b) = Some (ucast caid)" "fetch b 10 = Some hop"
      "fetch b 11 = Some reshare" "fetch b 20 = Some np" "ext \<Longrightarrow> fetch b 21 = Some ng" "ext \<Longrightarrow> fetch b 22 = Some nb"
    and counts: "unat np = length ps" "unat (if ext then ng else 0) = length good" "unat (if ext then nb else 0) = length bad" "unat nn = length nodes"
    and ps: "\<forall>p \<in> set ps. pv_prov p < 0x1000000 \<and> \<not> (pv_prov p = 0xFFFFFF \<and> drop_bit 8 caid = 0x17) \<and> length (pv_sa p) = 4"
    and nodes: "\<forall>n \<in> set nodes. length n = 8"
  shows "read_card a grp b ext = Some \<lparr>cd_ref = a, cd_id = i, cd_remote_id = rid, cd_caid = caid, cd_hop = hop, cd_reshare = reshare,
     cd_hexserial = take 8 (drop 12 b), cd_providers = map (\<lambda>p. if au then p else p\<lparr>pv_sa := [0, 0, 0, 0]\<rparr>) ps,
     cd_badsids = map sid_of bad, cd_goodsids = map sid_of good, cd_nodes = nodes, cd_grp = grp, cd_remote = True, cd_is_ext = ext\<rparr>"
proof -
  define o1 where "o1 = (if ext then 23 else 21 :: nat)"
  define o2 where "o2 = o1 + 7 * length ps"
  define o3 where "o3 = o2 + 2 * length good"
  define o4 where "o4 = o3 + 2 * length bad"
  let ?P = "concat (map (write_provider au) ps)" and ?G = "concat (map bytes2 good)" and ?B = "concat (map bytes2 bad)"
    and ?N = "concat (map (take 8) nodes)"
  have lP: "length ?P = 7 * length ps" using ps write_provider_length by (intro concat_map_length) blast
  have lG: "length ?G = 2 * length good" "length ?B = 2 * length bad" by (rule concat_map_length, simp)+
  have p: "read_all (read_provider caid b o1) (unat np) = Some (map (\<lambda>p. if au then p else p\<lparr>pv_sa := [0, 0, 0, 0]\<rparr>) ps)"
    unfolding counts b by (rule read_all_blocks, rule read_written_provider [OF ps]) (simp_all add: pre o1_def)
  have g: "read_all (read_sid b o2) (unat (if ext then ng else 0)) = Some (map sid_of good)"
  proof -
    have e: "b = (pre @ ?P) @ ?G @ (?B @ [nn] @ ?N)" by (simp add: b)
    show ?thesis unfolding counts
    proof (rule read_all_blocks)
      fix k assume "k < length good"
      then show "read_sid b o2 k = Some (sid_of (good ! k))" unfolding e by (rule read_written_sid) (simp add: pre o1_def o2_def lP)
    qed
  qed
  have d: "read_all (read_sid b o3) (unat (if ext then nb else 0)) = Some (map sid_of bad)"
  proof -
    have e: "b = (pre @ ?P @ ?G) @ ?B @ ([nn] @ ?N)" by (simp add: b)
    show ?thesis unfolding counts
    proof (rule read_all_blocks)
      fix k assume "k < length bad"
      then show "read_sid b o3 k = Some (sid_of (bad ! k))" unfolding e by (rule read_written_sid) (simp add: pre o1_def o2_def o3_def lP lG)
    qed
  qed
  have l4: "length (pre @ ?P @ ?G @ ?B) = o4" by (simp add: pre o1_def o2_def o3_def o4_def lP lG)
  have e4: "b = (pre @ ?P @ ?G @ ?B) @ nn # ?N" by (simp add: b)
  have f: "fetch b o4 = Some nn" unfolding e4 l4 [symmetric] by (simp only: fetch_def nth_append_length length_append list.size) simp
  have n: "read_all (read_node b (o4 + 1)) (unat nn) = Some nodes"
  proof -
    have e: "b = ((pre @ ?P @ ?G @ ?B) @ [nn]) @ ?N" by (simp add: b)
    have "read_all (read_node b (o4 + 1)) (length nodes) = Some (map (\<lambda>n. n) nodes)"
    proof (rule read_all_blocks)
      fix k assume "k < length nodes"
      then show "read_node b (o4 + 1) k = Some (nodes ! k)"
        unfolding e by (rule read_written_node [OF nodes]) (use l4 in simp)
    qed
    then show ?thesis by (simp add: counts)
  qed
  have x: "(if ext then fetch b 21 else Some 0) = Some (if ext then ng else 0)" "(if ext then fetch b 22 else Some 0) = Some (if ext then nb else 0)"
    using heads(7,8) by auto
  have o: "o2 = o1 + 7 * unat np" "o3 = o2 + 2 * unat (if ext then ng else 0)" "o4 = o3 + 2 * unat (if ext then nb else 0)"
    by (simp_all only: o2_def o3_def o4_def counts)
  have c: "map_option ucast (b2i 2 (drop 8 b)) = Some caid" using heads(3) by (simp add: u16_u32)
  show ?thesis
    unfolding read_card_def heads(1,2,4,5,6) c x bind.bind_lunit Let_def o1_def [symmetric]
    using p g d f n unfolding o by simp
qed

lemma card_sids_short: "length (fst (card_sids cfg c no)) < 256" "length (snd (card_sids cfg c no)) < 256"
  by (auto simp: card_sids_def split: option.split)

lemma unat_count: "n < 256 \<Longrightarrow> unat (of_nat n :: u8) = n"
  by (simp add: unat_of_nat)

lemma written_card_read:
  assumes w: "write_card cfg node c True ext au no = Some b" and ok: "wire_ok c" and n: "length node = 8"
  shows "read_card a grp b ext = Some (seen_card a grp cfg node ext au no c)"
proof -
  define good where "good = (if ext then fst (card_sids cfg c no) else [])"
  define bad where "bad = (if ext then snd (card_sids cfg c no) else [])"
  define nodes where "nodes = cd_nodes c @ [node]"
  define ser where "ser = (if au then cd_hexserial c else replicate 8 0)"
  define pre where "pre = bytes4 (cd_id c) @ bytes4 (cd_remote_id c) @ bytes2 (cd_caid c) @ [cd_hop c, cd_reshare c] @ ser @
    [of_nat (length (cd_providers c)) :: u8] @ (if ext then [of_nat (length good), of_nat (length bad)] else [])"
  have s8: "length ser = 8" "take 8 (cd_hexserial c) = cd_hexserial c" using ok by (simp_all add: ser_def wire_ok_def)
  have b: "b = pre @ concat (map (write_provider au) (cd_providers c)) @ concat (map bytes2 good) @ concat (map bytes2 bad) @
      [of_nat (length nodes)] @ concat (map (take 8) nodes)"
    using w s8(2) unfolding write_card_def Let_def case_prod_beta
    by (cases ext) (simp_all add: pre_def good_def bad_def nodes_def ser_def split: if_splits)
  define rest where "rest = concat (map (write_provider au) (cd_providers c)) @ concat (map bytes2 good) @ concat (map bytes2 bad) @
      [of_nat (length nodes)] @ concat (map (take 8) nodes)"
  have br: "b = pre @ rest" by (simp only: b rest_def)
  have l: "length pre = (if ext then 23 else 21)" using s8(1) by (simp add: pre_def)
  have h: "b2i 4 b = Some (cd_id c)" unfolding br pre_def append_assoc by (rule b2i_bytes4)
  have "drop 4 b = bytes4 (cd_remote_id c) @ drop 8 pre @ rest" by (simp add: br pre_def bytes4_def)
  then have h4: "b2i 4 (drop 4 b) = Some (cd_remote_id c)" by (simp only: b2i_bytes4)
  have "drop 8 b = bytes2 (cd_caid c) @ drop 10 pre @ rest" by (simp add: br pre_def bytes4_def bytes2_def)
  then have h8: "b2i 2 (drop 8 b) = Some (ucast (cd_caid c))" by (simp only: b2i_bytes2)
  have d12: "drop 12 b = ser @ [of_nat (length (cd_providers c))] @ (if ext then [of_nat (length good), of_nat (length bad)] else []) @ rest"
    by (simp add: br pre_def bytes4_def bytes2_def)
  have f: "fetch b 10 = Some (cd_hop c)" "fetch b 11 = Some (cd_reshare c)"
    by (simp_all add: br pre_def bytes4_def bytes2_def fetch_def)
  have k: "fetch b (12 + j) = fetch (drop 12 b) j" for j
  proof -
    have "12 \<le> length b" using l by (simp add: br)
    then show ?thesis by (auto simp: fetch_def)
  qed
  have f20: "fetch b 20 = Some (of_nat (length (cd_providers c)))" using k [of 8] by (simp add: d12 fetch_def nth_append s8(1))
  have f21: "fetch b 21 = Some (of_nat (length good))" "fetch b 22 = Some (of_nat (length bad))" if ext
    using k [of 9] k [of 10] that by (simp_all add: d12 fetch_def nth_append s8(1))
  have g: "length good < 256" "length bad < 256" using card_sids_short by (simp_all add: good_def bad_def)
  have u: "unat (if ext then of_nat (length good) else 0 :: u8) = length good" "unat (if ext then of_nat (length bad) else 0 :: u8) = length bad"
    using unat_count [OF g(1)] unat_count [OF g(2)] by (cases ext; simp add: good_def bad_def)+
  have ps: "\<forall>p \<in> set (cd_providers c). pv_prov p < 0x1000000 \<and> \<not> (pv_prov p = 0xFFFFFF \<and> drop_bit 8 (cd_caid c) = 0x17) \<and> length (pv_sa p) = 4"
    and cnt: "length (cd_providers c) < 256" "length nodes < 256" and ns: "\<forall>m \<in> set nodes. length m = 8"
    using ok n by (simp_all add: wire_ok_def list_all_iff nodes_def)
  have t: "take 8 (drop 12 b) = ser" by (simp add: d12 s8(1))
  have pm: "map (\<lambda>p. if au then p else p\<lparr>pv_sa := [0, 0, 0, 0]\<rparr>) (cd_providers c) =
      (if au then cd_providers c else map (\<lambda>p. p\<lparr>pv_sa := [0, 0, 0, 0]\<rparr>) (cd_providers c))" by simp
  from read_card_blocks [OF b l h h4 h8 f f20 f21 unat_count [OF cnt(1)] u unat_count [OF cnt(2)] ps ns, of a grp]
  show ?thesis unfolding t pm seen_card_def
    by (simp add: ser_def good_def bad_def nodes_def if_distrib [of "map sid_of"] cong: if_cong)
qed

section \<open>Properties\<close>

text \<open>A message that did not overrun its buffer.\<close>

interpretation card_codec: codec "\<lambda>c. write_card cfg node c True ext au no" "\<lambda>b. read_card a grp b ext"
  "\<lambda>c. wire_ok c \<and> length node = 8 \<and> write_card cfg node c True ext au no \<noteq> None" "seen_card a grp cfg node ext au no"
  for cfg node ext au no a grp
proof unfold_locales
  fix c assume c: "wire_ok c \<and> length node = 8 \<and> write_card cfg node c True ext au no \<noteq> None"
  then obtain b where "write_card cfg node c True ext au no = Some b" by blast
  with c show "\<exists>b. write_card cfg node c True ext au no = Some b \<and> read_card a grp b ext = Some (seen_card a grp cfg node ext au no c)"
    using written_card_read [of cfg node c ext au no b a grp] by simp
qed

text \<open>C21. A card that the server announces arrives: when \<open>write_card\<close> has written a card that fits the format, \<open>read_card\<close> of the
  other side reads the same card, with the server's own node at the end of its path, the services cut to the 200 or 240 that are sent in
  the extended message, none in the plain one, and without serial and shared addresses for a client that may not update.\<close>

theorem card_roundtrip:
  assumes "write_card cfg node c True ext au no = Some b" "wire_ok c" "length node = 8"
  shows "read_card a grp b ext = Some (seen_card a grp cfg node ext au no c)"
  by (rule card_codec.read_back [OF _ assms(1)]) (simp add: assms)

definition share_card0 :: "u32 \<Rightarrow> u16 \<Rightarrow> share_card" where
  "share_card0 remote caid =
    \<lparr>cd_ref = 0, cd_id = 0, cd_remote_id = remote, cd_caid = caid, cd_hop = 1, cd_reshare = 2, cd_hexserial = [1, 2, 3, 4, 5, 6, 7, 8],
     cd_providers = [\<lparr>pv_prov = 0x000604, pv_sa = [9, 9, 9, 9]\<rparr>], cd_badsids = [sid_of 0x0300], cd_goodsids = [sid_of 0x1234],
     cd_nodes = [[8, 7, 6, 5, 4, 3, 2, 1]], cd_grp = 1, cd_remote = True, cd_is_ext = True, sc_type = CT_REMOTECARD, sc_sidtab = None,
     sc_origin_reader = True, sc_rdr_reshare = 2, sc_sidtabno = 0, sc_timeout = 0\<rparr>"

definition share_cfg0 :: share_cfg where
  "share_cfg0 = \<lparr>cfg_reshare = 5, cfg_ignore_reshare = False, cfg_reshare_services = 0, cfg_minimize = MINIMIZE_NONE,
     cfg_forward_origin = False, cfg_sidtab = []\<rparr>"

theorem card_roundtrip_witness:
  "\<exists>b. write_card share_cfg0 [1, 1, 1, 1, 1, 1, 1, 1] (share_card0 7 0x0500) True True False 0 = Some b \<and>
     read_card 3 1 b True = Some (seen_card 3 1 share_cfg0 [1, 1, 1, 1, 1, 1, 1, 1] True False 0 (share_card0 7 0x0500))"
proof -
  obtain b where b: "write_card share_cfg0 [1, 1, 1, 1, 1, 1, 1, 1] (share_card0 7 0x0500) True True False 0 = Some b"
    by (auto simp: write_card_def card_sids_def share_card0_def CC_MAXMSGSIZE_def write_provider_def)
  from card_roundtrip [OF b] show ?thesis using b by (simp add: wire_ok_def share_card0_def)
qed

text \<open>The counts of services do not keep the message inside its buffer: with 240 assigned and 240 rejected services five providers are
  too many.\<close>

lemma write_card_overruns:
  assumes "sc_sidtab c = Some n" "240 \<le> length (st_srvid (cfg_sidtab cfg ! n))" "240 \<le> length (sidtab_rejects cfg c no)"
    "5 \<le> length (cd_providers c)" "length node = 8" "\<forall>p \<in> set (cd_providers c). length (pv_sa p) = 4" "length (cd_hexserial c) = 8"
  shows "write_card cfg node c True True au no = None"
proof -
  have "length (concat (map bytes2 xs)) = 2 * length xs" for xs by (rule concat_map_length) simp
  moreover have "length (concat (map (write_provider au) (cd_providers c))) = 7 * length (cd_providers c)"
    by (rule concat_map_length) (use assms(6) write_provider_length in blast)
  ultimately show ?thesis using assms by (simp add: write_card_def card_sids_def CC_MAXMSGSIZE_def)
qed

text \<open>\<open>rdr_reshare\<close> is a byte, so the -1 of a reader that follows the configuration comes back as 255: the limit of the configuration is
  not applied to a card of another server, a user with a higher limit of its own passes the card on that far.\<close>

lemma default_reshare_lost:
  assumes "sc_origin_reader c" "sc_rdr_reshare c = of_int (- 1)" "sc_type c = CT_REMOTECARD" "\<not> cfg_ignore_reshare cfg"
    "sl_ignorereshare cl = 0" "sl_reshare cl = 9" "cd_reshare c = 10" "cfg_reshare cfg = 0"
  shows "new_reshare cfg cl c = 9"
proof -
  have "uint (- 1 :: u8) = 255" by (simp add: unsigned_minus_1_eq_mask mask_eq_exp_minus_1)
  with assms show ?thesis by (simp add: new_reshare_def usr_ignorereshare_def Let_def)
qed

end
