(* ===== verification/ShareList.thy ===== *)
theory ShareList
  imports Share
begin

text \<open>
  The list of cards that a CCcam server offers, \<open>module-cccshare.c\<close>: how the cards of all readers are collected and merged
  (\<open>update_card_list\<close>, \<open>add_card_to_serverlist\<close>), and how the difference to the list before is told to the clients.

  \<open>reported_carddatas\<close> is \<open>sh_reported\<close>. The cards of the list before and the new ones are different objects, so the comparison of
  addresses with \<open>except\<close> in \<open>cc_clear_reported_carddata\<close> never keeps one of the old cards.
\<close>

section \<open>Copying and merging cards\<close>

definition copy_sids :: "cc_srvid list \<Rightarrow> cc_srvid list \<Rightarrow> cc_srvid list" where
  "copy_sids dst src = fold (\<lambda>s ds. if list_ex (sid_eq s) ds then ds else ds @ [s]) src dst"

definition merge_providers :: "cc_provider list \<Rightarrow> cc_provider list \<Rightarrow> cc_provider list" where
  "merge_providers dst src =
     fold (\<lambda>p ds. if list_ex (\<lambda>x. pv_prov x = pv_prov p) ds then ds else ds @ [p]) src dst"

definition merge_nodes :: "u8 list list \<Rightarrow> u8 list list \<Rightarrow> u8 list list" where
  "merge_nodes dst src = fold (\<lambda>n ds. if n \<in> set ds then ds else ds @ [n]) src dst"

definition add_card_providers :: "share_card \<Rightarrow> share_card \<Rightarrow> bool \<Rightarrow> share_card" where
  "add_card_providers dest c copy_remote_nodes =
     dest\<lparr>cd_providers := merge_providers (cd_providers dest) (cd_providers c),
          cd_nodes := if copy_remote_nodes then merge_nodes (cd_nodes dest) (cd_nodes c) else cd_nodes dest\<rparr>"

text \<open>\<open>create_card\<close> of a card.\<close>

definition copy_card :: "share_card \<Rightarrow> share_card" where
  "copy_card c = c\<lparr>cd_id := 0, cd_providers := [], cd_nodes := [], cd_goodsids := copy_sids [] (cd_goodsids c),
     cd_badsids := copy_sids [] (cd_badsids c)\<rparr>"

definition num_same_providers :: "share_card \<Rightarrow> share_card \<Rightarrow> nat" where
  "num_same_providers c d =
     length (filter (\<lambda>p. list_ex (\<lambda>q. pv_prov q = pv_prov p) (cd_providers d)) (cd_providers c))"

definition equal_providers :: "share_card \<Rightarrow> share_card \<Rightarrow> bool" where
  "equal_providers c d \<longleftrightarrow> length (cd_providers c) = length (cd_providers d) \<and>
     list_all (\<lambda>p. list_ex (\<lambda>q. pv_prov q = pv_prov p) (cd_providers d)) (cd_providers c)"

definition same_share2 :: "share_card \<Rightarrow> share_card \<Rightarrow> bool" where
  "same_share2 c d \<longleftrightarrow> cd_caid c = cd_caid d \<and> sc_type c = sc_type d \<and> sc_sidtab c = sc_sidtab d \<and> cd_grp c = cd_grp d"

definition same_share :: "share_card \<Rightarrow> share_card \<Rightarrow> bool" where
  "same_share c d \<longleftrightarrow> cd_remote_id c = cd_remote_id d \<and> same_share2 c d \<and> same_first_node (the_card c) (the_card d)"

text \<open>The first position of the list with a property, and \<open>ll_iter_insert\<close> after \<open>ll_iter_remove\<close> at a position: at the front the
  iterator has no current node any more and the insertion appends.\<close>

definition first_pos :: "('a \<Rightarrow> bool) \<Rightarrow> 'a list \<Rightarrow> nat option" where
  "first_pos P xs = find (\<lambda>i. P (xs ! i)) [0..<length xs]"

definition replace_at :: "nat \<Rightarrow> 'a \<Rightarrow> 'a list \<Rightarrow> 'a list" where
  "replace_at i x xs = (let ys = take i xs @ drop (Suc i) xs in if i = 0 then ys @ [x] else take i ys @ x # drop i ys)"

text \<open>The new entry for a card: the card itself or a copy.\<close>

definition entry_of :: "bool \<Rightarrow> bool \<Rightarrow> share_card \<Rightarrow> share_card" where
  "entry_of free_card no_hop c =
     (if free_card then c
      else add_card_providers (if no_hop then (copy_card c)\<lparr>cd_hop := 0\<rparr> else copy_card c) c True)"

definition drop_badsids :: "share_card \<Rightarrow> share_card" where
  "drop_badsids c = (if sc_sidtab c = None then c\<lparr>cd_badsids := []\<rparr> else c)"

definition merge_caid :: "bool \<Rightarrow> share_card \<Rightarrow> share_card list \<Rightarrow> share_card list" where
  "merge_caid free_card c cs =
     (case first_pos (\<lambda>d. same_share2 c d \<and>
         length (cd_providers c) - num_same_providers c d + length (cd_providers d) \<le> CS_MAXPROV) cs of
        None \<Rightarrow> cs @ [entry_of free_card True c]
      | Some i \<Rightarrow> cs[i := drop_badsids ((add_card_providers (cs ! i) c False)\<lparr>cd_nodes := []\<rparr>)])"

definition merge_hops :: "bool \<Rightarrow> share_card \<Rightarrow> share_card list \<Rightarrow> share_card list" where
  "merge_hops free_card c cs =
     (case first_pos (\<lambda>d. same_share2 c d \<and> equal_providers c d) cs of
        None \<Rightarrow> cs @ [entry_of free_card False c]
      | Some i \<Rightarrow>
          if cd_hop c < cd_hop (cs ! i) then replace_at i (entry_of free_card False c) cs
          else cs[i := drop_badsids (add_card_providers (cs ! i) c False)])"

definition merge_same :: "bool \<Rightarrow> share_card \<Rightarrow> share_card list \<Rightarrow> share_card list" where
  "merge_same free_card c cs =
     (case first_pos (same_share c) cs of
        None \<Rightarrow> cs @ [entry_of free_card False c]
      | Some i \<Rightarrow> if cd_hop c < cd_hop (cs ! i) then replace_at i (entry_of free_card False c) cs else cs)"

definition add_card_to_serverlist :: "share_cfg \<Rightarrow> bool \<Rightarrow> share_card \<Rightarrow> share_card list \<Rightarrow> share_card list" where
  "add_card_to_serverlist cfg free_card c cs =
     (if cfg_minimize cfg = MINIMIZE_CAID \<and> \<not> cfg_forward_origin cfg then merge_caid free_card c cs
      else if cfg_minimize cfg = MINIMIZE_HOPS \<and> \<not> cfg_forward_origin cfg then merge_hops free_card c cs
      else merge_same free_card c cs)"

section \<open>Telling the difference\<close>

definition card_timed_out :: "int \<Rightarrow> share_card \<Rightarrow> bool" where
  "card_timed_out now c \<longleftrightarrow> sc_type c \<noteq> CT_REMOTECARD \<and> sc_timeout c < now"

text \<open>A card that is in the old list keeps its number and leaves the old list.\<close>

definition find_reported_card :: "int \<Rightarrow> share_card \<Rightarrow> share_card list \<Rightarrow> (share_card \<times> share_card list) option" where
  "find_reported_card now c olds =
     (case first_pos (\<lambda>d. same_share c d \<and> \<not> card_timed_out now d) olds of
        None \<Rightarrow> None
      | Some i \<Rightarrow> Some (c\<lparr>cd_id := cd_id (olds ! i), sc_timeout := sc_timeout (olds ! i)\<rparr>, take i olds @ drop (Suc i) olds))"

text \<open>The new list with a mark on the cards that are also in \<open>new_cards\<close>.\<close>

fun report_cards :: "int \<Rightarrow> share_card list \<Rightarrow> share_card list \<Rightarrow> (share_card \<times> bool) list \<times> share_card list" where
  "report_cards now [] olds = ([], olds)"
| "report_cards now (c # cs) olds =
     (case find_reported_card now c olds of
        None \<Rightarrow> let (rs, olds') = report_cards now cs olds in ((c, True) # rs, olds')
      | Some (c', olds1) \<Rightarrow> let (rs, olds') = report_cards now cs olds1 in ((c', False) # rs, olds'))"

fun remove_all :: "share_cfg \<Rightarrow> share_card list \<Rightarrow> share_client list \<Rightarrow> share_client list option" where
  "remove_all cfg [] cls = Some cls"
| "remove_all cfg (c # cs) cls = do { cls1 \<leftarrow> send_remove_card_to_clients cfg c cls; remove_all cfg cs cls1 }"

fun send_new :: "share_cfg \<Rightarrow> (share_card \<times> bool) list \<Rightarrow> share_client list \<Rightarrow> u32 \<Rightarrow> (share_card list \<times> share_client list \<times> u32) option" where
  "send_new cfg [] cls n = Some ([], cls, n)"
| "send_new cfg ((c, new) # rs) cls n = do {
     (cls1, c1, n1) \<leftarrow> (if new then send_card_to_clients cfg cls c n else Some (cls, c, n));
     (cs, cls2, n2) \<leftarrow> send_new cfg rs cls1 n1;
     Some (c1 # cs, cls2, n2) }"

record share_state =
  sh_reported :: "share_card list"
  sh_clients :: "share_client list"
  sh_next :: u32

text \<open>The second half of \<open>update_card_list\<close>, for the list \<open>cards\<close> that the first half has collected.\<close>

definition report_list :: "share_cfg \<Rightarrow> int \<Rightarrow> share_card list \<Rightarrow> share_state \<Rightarrow> share_state option" where
  "report_list cfg now cards s =
     (let (rs, olds) = report_cards now cards (sh_reported s) in do {
        cls1 \<leftarrow> remove_all cfg olds (sh_clients s);
        (cs, cls2, n) \<leftarrow> send_new cfg rs cls1 (sh_next s);
        Some \<lparr>sh_reported = cs, sh_clients = cls2, sh_next = n\<rparr> })"

text \<open>\<open>cc_srv_report_cards\<close>: a client that has just logged in is told all cards, as long as it is there.\<close>

fun report_to :: "share_cfg \<Rightarrow> share_card list \<Rightarrow> share_client \<Rightarrow> u32 \<Rightarrow> (share_card list \<times> share_client \<times> u32) option" where
  "report_to cfg [] cl n = Some ([], cl, n)"
| "report_to cfg (c # cs) cl n =
     (if sl_mode cl = None \<or> sl_mode cl = Some CCCAM_MODE_SHUTDOWN then Some (c # cs, cl, n)
      else do {
        (cl1, c1, n1) \<leftarrow> send_card_to_client cfg True cl c n;
        (cs2, cl2, n2) \<leftarrow> report_to cfg cs cl1 n1;
        Some (c1 # cs2, cl2, n2) })"

definition cc_srv_report_cards :: "share_cfg \<Rightarrow> nat \<Rightarrow> share_state \<Rightarrow> (bool \<times> share_state) option" where
  "cc_srv_report_cards cfg k s = do {
     (cs, cl, n) \<leftarrow> report_to cfg (sh_reported s) (sh_clients s ! k) (sh_next s);
     Some (sl_mode cl \<noteq> None \<and> sl_mode cl \<noteq> Some CCCAM_MODE_SHUTDOWN,
       \<lparr>sh_reported = cs, sh_clients = (sh_clients s)[k := cl], sh_next = n\<rparr>) }"

section \<open>Collecting the cards of the readers\<close>

text \<open>\<open>rs_cards\<close> are the cards of the connection of a CCcam reader that is up (\<open>None\<close> otherwise) with the checks of its own client,
  \<open>rs_cmap\<close> the third column of its CAID table.\<close>

record share_reader = s_reader +
  rs_cc_id :: nat
  rs_cc_hop :: u8
  rs_reshare :: int
  rs_sidtabok :: u64
  rs_sidtabno :: u64
  rs_cmap :: "u16 list"
  rs_sa :: "u8 list list"
  rs_tcp_connected :: bool
  rs_card_status :: nat
  rs_cards :: "share_card list option"

definition R_CCCAM :: int where "R_CCCAM = 0x35"
definition CARD_INSERTED :: nat where "CARD_INSERTED = 2"
definition CARD_FAILURE :: nat where "CARD_FAILURE = 3"

text \<open>\<open>create_card(NULL)\<close> and \<open>create_card2\<close>; \<open>t\<close> gives the timeouts, by the number that tells the cards of one update apart: the
  time of the update with the random number of \<open>set_card_timeout\<close>.\<close>

definition set_card_timeout :: "int \<Rightarrow> u8 \<Rightarrow> int" where
  "set_card_timeout now rnd = now + 3600 + (uint rnd - 128) * 2"

definition create_card2 :: "(u32 \<Rightarrow> int) \<Rightarrow> share_reader option \<Rightarrow> nat \<Rightarrow> u16 \<Rightarrow> u8 \<Rightarrow> share_card" where
  "create_card2 t rdr j caid reshare =
    (let remote_id = (case rdr of None \<Rightarrow> 0x7F7F8000 | Some r \<Rightarrow> push_bit 16 (of_nat (rs_cc_id r))) OR of_nat j in
    \<lparr>cd_ref = 0, cd_id = 0, cd_remote_id = remote_id,
     cd_caid = caid, cd_hop = (case rdr of None \<Rightarrow> 0 | Some r \<Rightarrow> rs_cc_hop r), cd_reshare = reshare,
     cd_hexserial = replicate 8 0, cd_providers = [], cd_badsids = [], cd_goodsids = [], cd_nodes = [],
     cd_grp = (case rdr of None \<Rightarrow> 0 | Some r \<Rightarrow> rdr_grp r), cd_remote = False, cd_is_ext = False, sc_type = CT_LOCALCARD,
     sc_sidtab = None, sc_origin_reader = (rdr \<noteq> None),
     sc_rdr_reshare = (case rdr of None \<Rightarrow> reshare | Some r \<Rightarrow> of_int (rs_reshare r)),
     sc_sidtabno = (case rdr of None \<Rightarrow> 0 | Some r \<Rightarrow> rs_sidtabno r), sc_timeout = t remote_id\<rparr>)"

definition plain_provider :: "u32 \<Rightarrow> cc_provider" where
  "plain_provider p = \<lparr>pv_prov = p, pv_sa = [0, 0, 0, 0]\<rparr>"

text \<open>\<open>cfg.cc_reshare_services == 3\<close>: a virtual card for every CAID of every service entry.\<close>

definition user_service_cards :: "share_cfg \<Rightarrow> (u32 \<Rightarrow> int) \<Rightarrow> share_card list" where
  "user_service_cards cfg t =
     concat (map (\<lambda>j. let ptr = cfg_sidtab cfg ! j in
       map (\<lambda>k. (create_card2 t None (j * 256 + k) (st_caid ptr ! k) (of_int (cfg_reshare cfg)))
           \<lparr>sc_type := CT_CARD_BY_SERVICE_USER, sc_sidtab := Some j, cd_providers := map plain_provider (st_provid ptr)\<rparr>)
         [0..<length (st_caid ptr)]) [0..<length (cfg_sidtab cfg)])"

definition reader_reshare :: "share_cfg \<Rightarrow> share_reader \<Rightarrow> u8" where
  "reader_reshare cfg r = of_int (if rs_reshare r = -1 then cfg_reshare cfg else rs_reshare r)"

text \<open>\<open>cc_UA_oscam2cccam\<close>, unless the AU of the reader is disabled.\<close>

definition set_ua :: "share_reader \<Rightarrow> share_card \<Rightarrow> share_card option" where
  "set_ua r c = (if rdr_audisabled r then Some c
     else do { ua \<leftarrow> cc_UA_oscam2cccam (rdr_hexserial r) (cd_caid c); Some (c\<lparr>cd_hexserial := ua\<rparr>) })"

text \<open>\<open>add_good_bad_sids\<close> and \<open>add_good_bad_sids_by_rdr\<close>.\<close>

definition add_sid :: "u16 \<Rightarrow> cc_srvid list \<Rightarrow> cc_srvid list" where
  "add_sid sid ss = (let s = \<lparr>sv_sid = sid, sv_ecmlen = 0\<rparr> in if s \<in> set ss then ss else ss @ [s])"

definition add_good_bad_sids :: "share_cfg \<Rightarrow> sidtab \<Rightarrow> u64 \<Rightarrow> share_card \<Rightarrow> share_card" where
  "add_good_bad_sids cfg ptr sidtabno c =
     (let c1 = c\<lparr>cd_goodsids := fold add_sid (st_srvid ptr) (cd_goodsids c)\<rparr> in
      if sidtabno = 0 then c1
      else c1\<lparr>cd_badsids := fold (\<lambda>n bs. let no = cfg_sidtab cfg ! n in
             if bit sidtabno n \<and> list_ex (\<lambda>x. x = cd_caid c) (st_caid no) then fold add_sid (st_srvid no) bs else bs)
           [0..<length (cfg_sidtab cfg)] (cd_badsids c1)\<rparr>)"

definition add_good_bad_sids_by_rdr :: "share_cfg \<Rightarrow> share_reader \<Rightarrow> share_card \<Rightarrow> share_card" where
  "add_good_bad_sids_by_rdr cfg r c =
     (if rs_sidtabok r = 0 then c
      else fold (\<lambda>n d. let ptr = cfg_sidtab cfg ! n in
             if bit (rs_sidtabok r) n
             then fold (\<lambda>x e. if x = cd_caid e then add_good_bad_sids cfg ptr (rs_sidtabno r) e else e) (st_caid ptr) d
             else d) [0..<length (cfg_sidtab cfg)] c)"

definition get_reader_prid :: "share_reader \<Rightarrow> nat \<Rightarrow> u32 option" where
  "get_reader_prid r j = do { p \<leftarrow> fetch (rdr_prid r) j; b2i 3 (drop 1 p) }"

text \<open>Reader services: a virtual card for every CAID of the entries that are assigned to the reader.\<close>

definition service_card :: "share_cfg \<Rightarrow> (u32 \<Rightarrow> int) \<Rightarrow> share_reader \<Rightarrow> nat \<times> nat \<Rightarrow> share_card" where
  "service_card cfg t r = (\<lambda>(j, k). let ptr = cfg_sidtab cfg ! j in
     (create_card2 t (Some r) (j * 256 + k) (st_caid ptr ! k) (reader_reshare cfg r))
       \<lparr>sc_type := CT_CARD_BY_SERVICE_READER, sc_sidtab := Some j, cd_providers := map plain_provider (st_provid ptr)\<rparr>)"

definition service_cards :: "share_cfg \<Rightarrow> (u32 \<Rightarrow> int) \<Rightarrow> share_reader \<Rightarrow> share_card list option" where
  "service_cards cfg t r =
     (if (cfg_reshare_services cfg = 1 \<or> cfg_reshare_services cfg = 2 \<or>
          rdr_caid r = 0 \<and> rdr_typ r \<noteq> R_CCCAM \<and> cfg_reshare_services cfg \<noteq> 4) \<and>
         cfg_sidtab cfg \<noteq> [] \<and> (rs_sidtabno r \<noteq> 0 \<or> rs_sidtabok r \<noteq> 0)
      then those (map (set_ua r) (filter (\<lambda>c. chk_ident (rdr_ftab r) (the_card c) \<and> chk_ctab (cd_caid c) (rdr_ctab r))
        (map (service_card cfg t r) (concat (map (\<lambda>j. map (Pair j) [0..<length (st_caid (cfg_sidtab cfg ! j))])
          (filter (\<lambda>j. \<not> bit (rs_sidtabno r) j \<and> bit (rs_sidtabok r) j) [0..<length (cfg_sidtab cfg)]))))))
      else Some [])"

text \<open>The filters of a reader; a provider that the card of the reader has gets its shared address, the last one if it is there twice.\<close>

definition reader_sa :: "share_reader \<Rightarrow> u32 \<Rightarrow> u8 list" where
  "reader_sa r p = (if rdr_audisabled r then [0, 0, 0, 0]
     else fold (\<lambda>l sa. if get_reader_prid r l = Some p then take 4 (rs_sa r ! l) else sa) [0..<length (rdr_prid r)] [0, 0, 0, 0])"

definition filter_card :: "share_cfg \<Rightarrow> (u32 \<Rightarrow> int) \<Rightarrow> share_reader \<Rightarrow> nat \<Rightarrow> share_card option" where
  "filter_card cfg t r j = do {
     f \<leftarrow> fetch (rdr_ftab r) j;
     c \<leftarrow> set_ua r (create_card2 t (Some r) j (f_caid f) (reader_reshare cfg r));
     Some (add_good_bad_sids_by_rdr cfg r
       (c\<lparr>cd_providers := map (\<lambda>p. \<lparr>pv_prov = p, pv_sa = reader_sa r p\<rparr>) (f_prids f)\<rparr>)) }"

definition filter_cards :: "share_cfg \<Rightarrow> (u32 \<Rightarrow> int) \<Rightarrow> share_reader \<Rightarrow> share_card list option" where
  "filter_cards cfg t r =
     those (map (filter_card cfg t r) (filter (\<lambda>j. f_caid (rdr_ftab r ! j) \<noteq> 0) [0..<length (rdr_ftab r)]))"

text \<open>The CAID table of a reader without a card: an unused or general CAID gives way to the mapped one.\<close>

definition mapped_caid :: "share_reader \<Rightarrow> nat \<Rightarrow> u16" where
  "mapped_caid r j = (let l = fst (rdr_ctab r ! j) in if l = 0 \<or> l = 0xFFFF then rs_cmap r ! j else l)"

definition caid1_cards :: "share_cfg \<Rightarrow> (u32 \<Rightarrow> int) \<Rightarrow> share_reader \<Rightarrow> share_card list option" where
  "caid1_cards cfg t r =
     those (map (\<lambda>j. do {
         c \<leftarrow> set_ua r ((create_card2 t (Some r) j (mapped_caid r j) (reader_reshare cfg r))\<lparr>sc_type := CT_CARD_BY_CAID1\<rparr>);
         Some (add_good_bad_sids_by_rdr cfg r c) })
       (filter (\<lambda>j. mapped_caid r j \<noteq> 0 \<and> mapped_caid r j \<noteq> 0xFFFF) [0..<length (rdr_ctab r)]))"

text \<open>A card with the providers that the reader has found on it.\<close>

definition inserted_card :: "share_cfg \<Rightarrow> (u32 \<Rightarrow> int) \<Rightarrow> share_reader \<Rightarrow> cc_card_type \<Rightarrow> nat \<Rightarrow> u16 \<Rightarrow> share_card option" where
  "inserted_card cfg t r typ j caid = do {
     c \<leftarrow> set_ua r ((create_card2 t (Some r) j caid (reader_reshare cfg r))\<lparr>sc_type := typ\<rparr>);
     ps \<leftarrow> those (map (\<lambda>l. do {
         p \<leftarrow> get_reader_prid r l;
         Some \<lparr>pv_prov = p, pv_sa = if rdr_audisabled r then [0, 0, 0, 0] else take 4 (rs_sa r ! l)\<rparr> }) [0..<length (rdr_prid r)]);
     Some (add_good_bad_sids_by_rdr cfg r (c\<lparr>cd_providers := ps\<rparr>)) }"

definition caid2_cards :: "share_cfg \<Rightarrow> (u32 \<Rightarrow> int) \<Rightarrow> share_reader \<Rightarrow> share_card list option" where
  "caid2_cards cfg t r =
     (if rs_tcp_connected r \<or> rs_card_status r = CARD_INSERTED
      then (let caids = takeWhile (\<lambda>x. x \<noteq> 0) (map fst (rdr_ctab r)) in
            those (map (\<lambda>j. inserted_card cfg t r CT_CARD_BY_CAID2 j (caids ! j)) [0..<length caids]))
      else Some [])"

definition caid3_cards :: "share_cfg \<Rightarrow> (u32 \<Rightarrow> int) \<Rightarrow> share_reader \<Rightarrow> share_card list option" where
  "caid3_cards cfg t r =
     (if rs_tcp_connected r \<or> rs_card_status r = CARD_INSERTED
      then map_option (\<lambda>c. [c]) (inserted_card cfg t r CT_CARD_BY_CAID3 1 (rdr_caid r)) else Some [])"

text \<open>The cards of a CCcam reader that its filters let through: every provider must be open to the client of the reader.\<close>

fun all_providers :: "share_cfg \<Rightarrow> s_client \<Rightarrow> u16 \<Rightarrow> cc_provider list \<Rightarrow> bool option" where
  "all_providers cfg cl caid [] = Some True"
| "all_providers cfg cl caid (p # ps) = do {
     ok \<leftarrow> chk_srvid_by_caid_prov (cfg_sidtab cfg) cl caid (pv_prov p);
     if \<not> ok then Some False else all_providers cfg cl caid ps }"

fun remote_cards :: "share_cfg \<Rightarrow> share_reader \<Rightarrow> s_client \<Rightarrow> share_card list \<Rightarrow> share_card list option" where
  "remote_cards cfg r cl [] = Some []"
| "remote_cards cfg r cl (c # cs) = do {
     ok \<leftarrow> (if chk_ctab (cd_caid c) (rdr_ctab r) then all_providers cfg cl (cd_caid c) (cd_providers c) else Some False);
     rest \<leftarrow> remote_cards cfg r cl cs;
     Some (if ok then c # rest else rest) }"

text \<open>The cards of one reader, with the mark \<open>free_card\<close>; each kind is tried only when the ones before gave nothing (\<open>flt\<close>).\<close>

definition or_else :: "share_card list \<Rightarrow> bool \<Rightarrow> share_card list option \<Rightarrow> share_card list option" where
  "or_else cs b m = (if b \<and> cs = [] then m else Some cs)"

definition reader_cards :: "share_cfg \<Rightarrow> (u32 \<Rightarrow> int) \<Rightarrow> share_reader \<Rightarrow> (bool \<times> share_card) list option" where
  "reader_cards cfg t r =
     (let local = rdr_typ r \<noteq> R_CCCAM in do {
        c1 \<leftarrow> service_cards cfg t r;
        c2 \<leftarrow> or_else c1 local (filter_cards cfg t r);
        c3 \<leftarrow> or_else c2 (local \<and> rdr_caid r = 0) (caid1_cards cfg t r);
        c4 \<leftarrow> or_else c3 (local \<and> (case rdr_ctab r of [] \<Rightarrow> False | (c, m) # _ \<Rightarrow> c \<noteq> 0)) (caid2_cards cfg t r);
        c5 \<leftarrow> or_else c4 (local \<and> rdr_caid r \<noteq> 0) (caid3_cards cfg t r);
        c6 \<leftarrow> (case (rs_cards r, rdr_client r) of
            (Some cards, Some cl) \<Rightarrow>
              if \<not> local \<and> (cfg_reshare_services cfg < 2 \<or> cfg_reshare_services cfg = 4) \<and> rs_card_status r \<noteq> CARD_FAILURE
              then remote_cards cfg r cl cards else Some []
          | _ \<Rightarrow> Some []);
        Some (map (Pair True) c5 @ map (Pair False) c6) })"

text \<open>The numbers of the readers. A collision sends the search back to the first reader, and the step to the next one passes it over.
  \<open>None\<close> stands for the reader itself.\<close>

function cc_id_scan :: "nat option list \<Rightarrow> nat option list \<Rightarrow> nat \<Rightarrow> nat" where
  "cc_id_scan others [] r = r"
| "cc_id_scan others (x # xs) r = (if x = Some r then cc_id_scan others (tl others) (r + 1) else cc_id_scan others xs r)"
  by pat_completeness auto


termination
proof (relation "measures [\<lambda>(others, xs, r). card {y. Some y \<in> set others \<union> set xs \<and> r \<le> y}, \<lambda>(others, xs, r). length xs]", goal_cases)
  case (2 others x xs r)
  have f: "finite {y. Some y \<in> set others \<union> set (x # xs) \<and> r \<le> y}"
    by (rule finite_subset [of _ "the ` (set others \<union> set (x # xs))"]) (force simp: image_iff)+
  have t: "set (tl others) \<subseteq> set others" by (cases others) auto
  let ?A = "{y. Some y \<in> set others \<union> set (tl others) \<and> r + 1 \<le> y}" and ?B = "{y. Some y \<in> set others \<union> set (x # xs) \<and> r \<le> y}"
  have "r \<in> ?B" using 2 by simp
  moreover have "r \<notin> ?A" by simp
  moreover have "?A \<subseteq> ?B" using t by auto
  ultimately have "?A \<subset> ?B" by blast
  from psubset_card_mono [OF f this] show ?case by (simp add: disj_ac)
next
  case (3 others x xs r)
  have f: "finite {y. Some y \<in> set others \<union> set (x # xs) \<and> r \<le> y}"
    by (rule finite_subset [of _ "the ` (set others \<union> set (x # xs))"]) (force simp: image_iff)+
  have "{y. Some y \<in> set others \<union> set xs \<and> r \<le> y} \<subseteq> {y. Some y \<in> set others \<union> set (x # xs) \<and> r \<le> y}" by auto
  from card_mono [OF f this] show ?case by (auto simp: disj_ac)
qed simp

definition set_cc_id :: "nat \<Rightarrow> share_reader list \<times> nat \<Rightarrow> share_reader list \<times> nat" where
  "set_cc_id i = (\<lambda>(rs, r).
     if rs_cc_id (rs ! i) \<noteq> 0 then (rs, r)
     else let others = map (\<lambda>j. if j = i then None else Some (rs_cc_id (rs ! j))) [0..<length rs];
              n = cc_id_scan others others (r + 1)
          in (rs[i := (rs ! i)\<lparr>rs_cc_id := n\<rparr>], n))"

definition set_cc_ids :: "share_reader list \<Rightarrow> share_reader list" where
  "set_cc_ids rs = fst (fold set_cc_id [0..<length rs] (rs, 0))"

definition collect_cards :: "share_cfg \<Rightarrow> (bool \<times> share_card) list \<Rightarrow> share_card list" where
  "collect_cards cfg cs = fold (\<lambda>(free_card, c). add_card_to_serverlist cfg free_card c) cs []"

definition update_card_list ::
  "share_cfg \<Rightarrow> int \<Rightarrow> (u32 \<Rightarrow> int) \<Rightarrow> share_reader list \<Rightarrow> share_state \<Rightarrow> (share_reader list \<times> share_state) option" where
  "update_card_list cfg now t readers s =
     (if cfg_reshare_services cfg = 3 \<and> cfg_sidtab cfg \<noteq> []
      then map_option (Pair readers) (report_list cfg now (collect_cards cfg (map (Pair True) (user_service_cards cfg t))) s)
      else do {
        cs \<leftarrow> those (map (reader_cards cfg t) (set_cc_ids readers));
        s' \<leftarrow> report_list cfg now (collect_cards cfg (concat cs)) s;
        Some (set_cc_ids readers, s') })"

section \<open>Lemmas\<close>

definition share_key :: "share_card \<Rightarrow> u32 \<times> u16 \<times> cc_card_type \<times> nat option \<times> u64 \<times> u8 list option" where
  "share_key c = (cd_remote_id c, cd_caid c, sc_type c, sc_sidtab c, cd_grp c,
     case cd_nodes c of [] \<Rightarrow> None | n # ns \<Rightarrow> Some n)"

lemma the_card_nodes [simp]: "cd_nodes (the_card c) = cd_nodes c"
  by (simp add: the_card_def cc_card.defs)

lemma same_share_key: "same_share c d \<longleftrightarrow> share_key c = share_key d"
  by (auto simp: same_share_def same_share2_def share_key_def same_first_node_def split: list.split)

lemma first_pos_Some: "first_pos P xs = Some i \<Longrightarrow> i < length xs \<and> P (xs ! i)"
  by (auto simp: first_pos_def find_Some_iff)

lemma first_pos_None: "first_pos P xs = None \<longleftrightarrow> (\<forall>x \<in> set xs. \<not> P x)"
proof -
  have "(\<forall>x \<in> set xs. \<not> P x) \<longleftrightarrow> (\<forall>i < length xs. \<not> P (xs ! i))" by (rule all_set_conv_all_nth)
  then show ?thesis by (auto simp: first_pos_def find_None_iff)
qed

lemma merge_nodes_hd: "ns \<noteq> [] \<Longrightarrow> \<exists>rest. fold (\<lambda>n ds. if n \<in> set ds then ds else ds @ [n]) ms ns = hd ns # rest"
proof (induction ms arbitrary: ns)
  case (Cons m ms)
  then show ?case using Cons.IH [of ns] Cons.IH [of "ns @ [m]"] by simp
qed (auto simp: neq_Nil_conv)

lemma merge_nodes_first: "(case merge_nodes [] ns of [] \<Rightarrow> None | n # r \<Rightarrow> Some n) = (case ns of [] \<Rightarrow> None | n # r \<Rightarrow> Some n)"
proof (cases ns)
  case (Cons m ms)
  from merge_nodes_hd [of "[m]" ms] Cons show ?thesis by (auto simp: merge_nodes_def)
qed (simp add: merge_nodes_def)

lemma entry_key: "share_key (entry_of free_card False c) = share_key c" "cd_hop (entry_of free_card False c) = cd_hop c"
  by (simp_all add: entry_of_def share_key_def add_card_providers_def copy_card_def merge_nodes_first)

lemma replace_at_mset:
  assumes "i < length xs"
  shows "mset (replace_at i x xs) = mset (xs[i := x])"
proof -
  have "take i (take i xs @ drop (Suc i) xs) = take i xs" "drop i (take i xs @ drop (Suc i) xs) = drop (Suc i) xs"
    using assms by simp_all
  then show ?thesis using assms by (auto simp: replace_at_def Let_def upd_conv_take_nth_drop)
qed

subsection \<open>Merging\<close>

text \<open>The list \<open>es\<close> offers every card of \<open>cs\<close> once, each at the smallest distance.\<close>

definition nearest :: "share_card list \<Rightarrow> share_card list \<Rightarrow> bool" where
  "nearest cs es \<longleftrightarrow> distinct (map share_key es) \<and>
     list_all (\<lambda>d. list_ex (\<lambda>e. share_key e = share_key d \<and> cd_hop e \<le> cd_hop d) es) cs \<and>
     list_all (\<lambda>e. list_ex (\<lambda>d. share_key d = share_key e \<and> cd_hop d = cd_hop e) cs) es"

lemma nearest_mset:
  assumes "mset es = mset fs"
  shows "nearest cs es = nearest cs fs"
proof -
  have "mset (map share_key es) = mset (map share_key fs)" using assms by simp
  then have "distinct (map share_key es) = distinct (map share_key fs)" by (rule mset_eq_imp_distinct_iff)
  moreover have "set es = set fs" using assms by (rule mset_eq_setD)
  ultimately show ?thesis by (simp add: nearest_def list_all_iff list_ex_iff)
qed

lemma nearest_append:
  assumes "nearest cs es" "\<forall>e \<in> set es. share_key e \<noteq> share_key c" "share_key x = share_key c" "cd_hop x = cd_hop c"
  shows "nearest (cs @ [c]) (es @ [x])"
  using assms by (fastforce simp: nearest_def list_all_iff list_ex_iff)

lemma nearest_keep:
  assumes "nearest cs es" "i < length es" "share_key (es ! i) = share_key c" "cd_hop (es ! i) \<le> cd_hop c"
  shows "nearest (cs @ [c]) es"
proof -
  have "es ! i \<in> set es" using assms(2) by simp
  then have "list_ex (\<lambda>e. share_key e = share_key c \<and> cd_hop e \<le> cd_hop c) es" using assms(3,4) by (auto simp: list_ex_iff)
  then show ?thesis using assms(1) by (auto simp: nearest_def list_all_iff list_ex_iff)
qed

lemma nearest_replace:
  assumes n: "nearest cs es" and i: "i < length es" "share_key (es ! i) = share_key c" "cd_hop c < cd_hop (es ! i)"
    and x: "share_key x = share_key c" "cd_hop x = cd_hop c"
  shows "nearest (cs @ [c]) (es[i := x])"
proof -
  have k: "map share_key (es[i := x]) = map share_key es"
    using i(1,2) x(1) by (simp add: map_update list_update_same_conv)
  have xin: "x \<in> set (es[i := x])" using i(1) by (rule set_update_memI)
  have e: "e \<in> set (es[i := x]) \<or> e = es ! i" if "e \<in> set es" for e
  proof -
    from that obtain j where j: "j < length es" "e = es ! j" by (auto simp: in_set_conv_nth)
    show ?thesis
    proof (cases "j = i")
      case False
      then have "es[i := x] ! j = e" using j by simp
      then show ?thesis using j(1) nth_mem [of j "es[i := x]"] by auto
    qed (use j in simp)
  qed
  have "\<exists>e \<in> set (es[i := x]). share_key e = share_key d \<and> cd_hop e \<le> cd_hop d" if d: "d \<in> set (cs @ [c])" for d
  proof (cases "d \<in> set cs")
    case True
    then obtain f where f: "f \<in> set es" "share_key f = share_key d" "cd_hop f \<le> cd_hop d"
      using n by (auto simp: nearest_def list_all_iff list_ex_iff)
    show ?thesis
    proof (cases "f \<in> set (es[i := x])")
      case True
      with f show ?thesis by blast
    next
      case False
      then have "f = es ! i" using e [OF f(1)] by simp
      then show ?thesis using xin x i(2,3) f(2,3) by (intro bexI [of _ x]) auto
    qed
  next
    case False
    then show ?thesis using d xin x by auto
  qed
  moreover have "\<exists>d \<in> set (cs @ [c]). share_key d = share_key f \<and> cd_hop d = cd_hop f" if "f \<in> set (es[i := x])" for f
    using that n x set_update_subset_insert [of es i x] by (auto simp: nearest_def list_all_iff list_ex_iff)
  ultimately show ?thesis using n unfolding nearest_def k by (simp add: list_all_iff list_ex_iff)
qed

lemma merge_same_nearest:
  assumes "nearest cs es"
  shows "nearest (cs @ [c]) (merge_same free_card c es)"
proof (cases "first_pos (same_share c) es")
  case None
  then have "\<forall>e \<in> set es. share_key e \<noteq> share_key c" by (auto simp: first_pos_None same_share_key)
  then show ?thesis using None nearest_append [OF assms _ entry_key] by (simp add: merge_same_def)
next
  case (Some i)
  then have i: "i < length es" "share_key (es ! i) = share_key c" using first_pos_Some [OF Some] by (simp_all add: same_share_key)
  show ?thesis
  proof (cases "cd_hop c < cd_hop (es ! i)")
    case True
    have "nearest (cs @ [c]) (es[i := entry_of free_card False c])" by (rule nearest_replace [OF assms i True entry_key])
    then show ?thesis using Some True nearest_mset [OF replace_at_mset [OF i(1)]] by (simp add: merge_same_def)
  next
    case False
    then show ?thesis using Some nearest_keep [OF assms i] by (simp add: merge_same_def)
  qed
qed

lemma collect_nearest_from:
  assumes "cfg_minimize cfg = MINIMIZE_NONE \<or> cfg_forward_origin cfg" "nearest cs es"
  shows "nearest (cs @ map snd fs) (fold (\<lambda>(free_card, c). add_card_to_serverlist cfg free_card c) fs es)"
  using assms(2)
proof (induction fs arbitrary: cs es)
  case (Cons f fs)
  obtain b c where f: "f = (b, c)" by (cases f)
  have "add_card_to_serverlist cfg b c es = merge_same b c es" using assms(1) by (auto simp: add_card_to_serverlist_def)
  then show ?case using Cons.IH [OF merge_same_nearest [OF Cons.prems, of c b]] by (simp add: f)
qed simp

section \<open>Properties\<close>

text \<open>C22. The list that is offered, without the two ways of minimising it: whatever the readers bring, and in whatever order, every card is
  offered exactly once (cards are the same with the same number at their origin, first node, CAID, kind, service entry and group), and
  with the smallest of the distances at which it came.\<close>

theorem collect_nearest:
  assumes "cfg_minimize cfg = MINIMIZE_NONE \<or> cfg_forward_origin cfg"
  shows "nearest (map snd fs) (collect_cards cfg fs)"
  unfolding collect_cards_def using collect_nearest_from [OF assms, of "[]" "[]" fs] by (simp add: nearest_def)

theorem collect_nearest_witness:
  "nearest [(share_card0 7 0x0500)\<lparr>cd_hop := 2\<rparr>, share_card0 9 0x0500, share_card0 7 0x0500]
     (collect_cards share_cfg0 [(False, (share_card0 7 0x0500)\<lparr>cd_hop := 2\<rparr>), (True, share_card0 9 0x0500), (False, share_card0 7 0x0500)]) \<and>
   map cd_hop (collect_cards share_cfg0 [(False, (share_card0 7 0x0500)\<lparr>cd_hop := 2\<rparr>), (True, share_card0 9 0x0500), (False, share_card0 7 0x0500)])
     = [1, 1]"
proof -
  let ?fs = "[(False, (share_card0 7 0x0500)\<lparr>cd_hop := 2\<rparr>), (True, share_card0 9 0x0500), (False, share_card0 7 0x0500)]"
  have "map cd_hop (collect_cards share_cfg0 ?fs) = [1, 1]"
    by (simp add: collect_cards_def add_card_to_serverlist_def share_cfg0_def merge_same_def first_pos_def same_share_key share_key_def
      entry_of_def add_card_providers_def copy_card_def merge_nodes_def share_card0_def replace_at_def)
  then show ?thesis using collect_nearest [of share_cfg0 ?fs] by (simp add: share_cfg0_def)
qed

end
