(* ===== verification/ShareView.thy ===== *)
theory ShareView
  imports ShareList
begin

text \<open>
  What the clients of a CCcam server know of its cards: the messages that an update of the list sends keep every client's own list equal
  to the part of the server's list that the client may see.
\<close>

section \<open>The list of a client\<close>

text \<open>A client keeps the numbers of the cards it was told and not told to remove.\<close>

definition apply_msg :: "u8 \<times> u8 list \<Rightarrow> u32 set \<Rightarrow> u32 set" where
  "apply_msg = (\<lambda>(m, b) v. case b2i 4 b of None \<Rightarrow> v | Some i \<Rightarrow> if m = MSG_CARD_REMOVED then v - {i} else insert i v)"

definition client_view :: "share_client \<Rightarrow> u32 set" where
  "client_view cl = fold apply_msg (sl_out cl) {}"

definition hears :: "share_client \<Rightarrow> bool" where
  "hears cl \<longleftrightarrow> listens False cl \<and> sl_alive cl"

definition wants :: "share_cfg \<Rightarrow> share_client \<Rightarrow> share_card \<Rightarrow> bool" where
  "wants cfg cl c \<longleftrightarrow> card_valid_for_client cfg cl c = Some True \<and> 0 \<le> new_reshare cfg cl c"

text \<open>Every part of what the client is to be told fits its message, and its service filters have a result.\<close>

definition sendable :: "share_cfg \<Rightarrow> share_card \<Rightarrow> share_client \<Rightarrow> bool" where
  "sendable cfg c cl \<longleftrightarrow> card_valid_for_client cfg cl c \<noteq> None \<and>
     write_card cfg (sl_node cl) c True False (sl_aureaders cl \<noteq> 0) (cl_sidtabno cl) \<noteq> None \<and>
     write_card cfg (sl_node cl) c True True (sl_aureaders cl \<noteq> 0) (cl_sidtabno cl) \<noteq> None"

text \<open>The state is in order when the cards have different numbers, all below the next one, and every client that hears knows exactly the
  cards that it wants, all of which have a number.\<close>

definition view_ok :: "share_cfg \<Rightarrow> share_card list \<Rightarrow> share_client \<Rightarrow> bool" where
  "view_ok cfg cs cl \<longleftrightarrow> client_view cl = cd_id ` {c \<in> set cs. wants cfg cl c} \<and> list_all (\<lambda>c. wants cfg cl c \<longrightarrow> cd_id c \<noteq> 0) cs"

definition ids_ok :: "share_card list \<Rightarrow> u32 \<Rightarrow> bool" where
  "ids_ok cs n \<longleftrightarrow> n \<noteq> 0 \<and> distinct (filter (\<lambda>i. i \<noteq> 0) (map cd_id cs)) \<and> list_all (\<lambda>c. cd_id c < n) cs"

definition share_ok :: "share_cfg \<Rightarrow> share_state \<Rightarrow> bool" where
  "share_ok cfg s \<longleftrightarrow> ids_ok (sh_reported s) (sh_next s) \<and> list_all (\<lambda>cl. hears cl \<longrightarrow> view_ok cfg (sh_reported s) cl) (sh_clients s)"

section \<open>What does not matter\<close>

definition same_cfg :: "share_client \<Rightarrow> share_client \<Rightarrow> bool" where
  "same_cfg cl cl' \<longleftrightarrow> (\<exists>msgs mode. cl' = cl\<lparr>sl_out := msgs, sl_mode := mode\<rparr>)"

lemma same_cfg_refl [simp]: "same_cfg cl cl"
  unfolding same_cfg_def by (intro exI [of _ "sl_out cl"] exI [of _ "sl_mode cl"]) simp

lemma same_cfg_trans: "same_cfg a b \<Longrightarrow> same_cfg b c \<Longrightarrow> same_cfg a c"
  unfolding same_cfg_def by (elim exE, simp, intro exI, rule refl)

lemma cp_loop_cong:
  "cl_sidtabno cl' = cl_sidtabno cl \<Longrightarrow> cl_sidtabok cl' = cl_sidtabok cl \<Longrightarrow>
   chk_srvid_cp_loop cl' caid p sts nr rc = chk_srvid_cp_loop cl caid p sts nr rc"
  by (induction sts arbitrary: nr rc) (simp_all cong: if_cong)

lemma any_provider_cong:
  assumes "cl_sidtabno cl' = cl_sidtabno cl" "cl_sidtabok cl' = cl_sidtabok cl"
  shows "any_provider cfg cl' caid ps = any_provider cfg cl caid ps"
proof (induction ps)
  case (Cons p ps)
  have "chk_srvid_by_caid_prov (cfg_sidtab cfg) cl' caid (pv_prov p) = chk_srvid_by_caid_prov (cfg_sidtab cfg) cl caid (pv_prov p)"
    unfolding chk_srvid_by_caid_prov_def cp_loop_cong [OF assms] assms by (rule refl)
  then show ?case by (simp add: Cons cong: if_cong)
qed simp

lemma valid_cong:
  assumes "same_cfg cl cl'"
  shows "card_valid_for_client cfg cl' c = card_valid_for_client cfg cl c"
proof -
  obtain msgs mode where m: "cl' = cl\<lparr>sl_out := msgs, sl_mode := mode\<rparr>" using assms by (auto simp: same_cfg_def)
  have "any_provider cfg cl' caid ps = any_provider cfg cl caid ps" for caid ps by (rule any_provider_cong) (simp_all add: m)
  moreover have "service_valid cl' j = service_valid cl j" for j by (simp add: service_valid_def m)
  ultimately show ?thesis by (simp add: card_valid_for_client_def usr_ignorereshare_def m cong: if_cong option.case_cong)
qed

lemma reshare_cong:
  assumes "same_cfg cl cl'"
  shows "new_reshare cfg cl' c = new_reshare cfg cl c"
proof -
  obtain msgs mode where m: "cl' = cl\<lparr>sl_out := msgs, sl_mode := mode\<rparr>" using assms by (auto simp: same_cfg_def)
  then have "sl_reshare cl' = sl_reshare cl" "usr_ignorereshare cfg cl' = usr_ignorereshare cfg cl"
    by (simp_all add: usr_ignorereshare_def)
  then show ?thesis unfolding new_reshare_def by (simp only:)
qed

lemma wants_cong: "same_cfg cl cl' \<Longrightarrow> wants cfg cl' c = wants cfg cl c"
  by (simp add: wants_def valid_cong reshare_cong)

lemma sendable_cong: "same_cfg cl cl' \<Longrightarrow> sendable cfg c cl' = sendable cfg c cl"
  by (auto simp: sendable_def valid_cong) (auto simp: same_cfg_def)

lemma ident_loop_cong: "cd_caid d = cd_caid c \<Longrightarrow> cd_providers d = cd_providers c \<Longrightarrow> chk_ident_loop fs d res = chk_ident_loop fs c res"
  by (induction fs arbitrary: res) (simp_all cong: if_cong)

lemma the_card_sel [simp]: "cd_caid (the_card c) = cd_caid c" "cd_providers (the_card c) = cd_providers c"
  by (simp_all add: the_card_def cc_card.defs)

lemma ident_cong: "cd_caid d = cd_caid c \<Longrightarrow> cd_providers d = cd_providers c \<Longrightarrow> chk_ident tab (the_card d) = chk_ident tab (the_card c)"
  by (simp add: chk_ident_def, rule ident_loop_cong) simp_all

lemma valid_renumber:
  "card_valid_for_client cfg cl (c\<lparr>cd_id := i\<rparr>) = card_valid_for_client cfg cl c"
  "card_valid_for_client cfg cl (c\<lparr>cd_id := i, sc_timeout := t\<rparr>) = card_valid_for_client cfg cl c"
  by (simp_all add: card_valid_for_client_def ident_cong [of "c\<lparr>cd_id := i\<rparr>" c] ident_cong [of "c\<lparr>cd_id := i, sc_timeout := t\<rparr>" c])

lemma wants_renumber [simp]:
  "wants cfg cl (c\<lparr>cd_id := i\<rparr>) = wants cfg cl c" "wants cfg cl (c\<lparr>cd_id := i, sc_timeout := t\<rparr>) = wants cfg cl c"
  by (simp_all add: wants_def valid_renumber new_reshare_def Let_def cong: if_cong)

lemma sids_renumber: "card_sids cfg (c\<lparr>cd_id := i\<rparr>) no = card_sids cfg c no"
  by (simp add: card_sids_def sidtab_rejects_def cong: option.case_cong)

lemma write_renumber: "(write_card cfg node (c\<lparr>cd_id := i\<rparr>) own ext au no = None) = (write_card cfg node c own ext au no = None)"
  by (simp add: write_card_def sids_renumber case_prod_beta Let_def)

lemma sendable_renumber [simp]: "sendable cfg (c\<lparr>cd_id := i\<rparr>) cl = sendable cfg c cl"
  by (simp add: sendable_def valid_renumber write_renumber)

section \<open>One message\<close>

lemma view_send: "client_view (cl\<lparr>sl_out := sl_out cl @ [m]\<rparr>) = apply_msg m (client_view cl)"
  by (simp add: client_view_def)

lemma view_mode [simp]: "client_view (cl\<lparr>sl_mode := m\<rparr>) = client_view cl"
  by (simp add: client_view_def)

lemma written_id:
  assumes "write_card cfg node c own ext au no = Some b"
  shows "b2i 4 (b[11 := x]) = Some (cd_id c)"
proof -
  obtain r where "b = bytes4 (cd_id c) @ r"
    using assms by (auto simp: write_card_def case_prod_beta Let_def split: if_splits)
  then have "b[11 := x] = bytes4 (cd_id c) @ r[7 := x]" by (simp add: list_update_append)
  then show ?thesis by (simp only: b2i_bytes4)
qed

lemma listens_out [simp]: "listens one (cl\<lparr>sl_out := x\<rparr>) = listens one cl"
  by (simp add: listens_def cong: option.case_cong)

lemma hears_out [simp]: "hears (cl\<lparr>sl_out := x\<rparr>) = hears cl"
  by (simp add: hears_def)

lemma same_cfg_out [simp]: "same_cfg cl (cl\<lparr>sl_out := x\<rparr>)" "same_cfg cl (cl\<lparr>sl_mode := m\<rparr>)"
  unfolding same_cfg_def by (intro exI [of _ x] exI [of _ "sl_mode cl"], simp) (intro exI [of _ "sl_out cl"] exI [of _ m], simp)

lemma msg_ids: "MSG_NEW_CARD \<noteq> MSG_CARD_REMOVED" "MSG_NEW_CARD_SIDINFO \<noteq> MSG_CARD_REMOVED"
  by (simp_all add: MSG_NEW_CARD_def MSG_CARD_REMOVED_def MSG_NEW_CARD_SIDINFO_def)

text \<open>What a new card with the number \<open>i\<close> does to a client.\<close>

definition told :: "share_cfg \<Rightarrow> share_card \<Rightarrow> u32 \<Rightarrow> share_client \<Rightarrow> share_client \<Rightarrow> bool" where
  "told cfg c i cl cl' \<longleftrightarrow> same_cfg cl cl' \<and> hears cl' = hears cl \<and>
     (hears cl \<longrightarrow> client_view cl' = (if wants cfg cl c then insert i (client_view cl) else client_view cl))"

lemma told_same: "\<not> (hears cl \<and> wants cfg cl c) \<Longrightarrow> told cfg c i cl cl"
  by (simp add: told_def)

lemma send_card_to_client_told:
  assumes s: "sendable cfg c cl"
  shows "\<exists>cl' c' n'. send_card_to_client cfg False cl c n = Some (cl', c', n') \<and> told cfg c (cd_id c') cl cl' \<and>
    (if listens False cl \<and> wants cfg cl c \<and> cd_id c = 0 then c' = c\<lparr>cd_id := n\<rparr> \<and> n' = n + 1 else c' = c \<and> n' = n)"
proof (cases "listens False cl \<and> wants cfg cl c")
  case False
  then have "send_card_to_client cfg False cl c n = Some (cl, c, n)"
    using s by (auto simp: send_card_to_client_def wants_def sendable_def)
  moreover have "told cfg c (cd_id c) cl cl" using False by (intro told_same) (auto simp: hears_def)
  ultimately show ?thesis using False by auto
next
  case True
  define ext where "ext = (sl_cccam220 cl \<and> can_use_ext cfg c)"
  define c1 where "c1 = (if cd_id c = 0 then c\<lparr>cd_id := n\<rparr> else c)"
  have "write_card cfg (sl_node cl) c True ext (sl_aureaders cl \<noteq> 0) (cl_sidtabno cl) \<noteq> None"
    using s by (cases ext) (simp_all add: sendable_def)
  then have "write_card cfg (sl_node cl) c1 True ext (sl_aureaders cl \<noteq> 0) (cl_sidtabno cl) \<noteq> None"
    using write_renumber [where cfg = cfg and node = "sl_node cl" and c = c and i = n and own = True and ext = ext
      and au = "sl_aureaders cl \<noteq> 0" and no = "cl_sidtabno cl"] unfolding c1_def
    by (cases "cd_id c = 0") (simp_all only: if_True if_False simp_thms)
  then obtain b where b: "write_card cfg (sl_node cl) c1 True ext (sl_aureaders cl \<noteq> 0) (cl_sidtabno cl) = Some b" by blast
  let ?m = "(if ext then MSG_NEW_CARD_SIDINFO else MSG_NEW_CARD, b[11 := of_int (new_reshare cfg cl c)])"
  define cl1 where "cl1 = (if sl_alive cl then cl\<lparr>sl_out := sl_out cl @ [?m]\<rparr> else cl\<lparr>sl_mode := Some CCCAM_MODE_SHUTDOWN\<rparr>)"
  have p: "(if cd_id c = 0 then (c\<lparr>cd_id := n\<rparr>, n + 1) else (c, n)) = (c1, if cd_id c = 0 then n + 1 else n)"
    by (simp add: c1_def)
  have "send_card_to_client cfg False cl c n = Some (cl1, c1, if cd_id c = 0 then n + 1 else n)"
    using True unfolding send_card_to_client_def Let_def ext_def [symmetric] p prod.case b bind.bind_lunit
    by (simp add: wants_def cl1_def cmd_send_def)
  moreover have "told cfg c (cd_id c1) cl cl1"
  proof (cases "sl_alive cl")
    case a: True
    then have "cl1 = cl\<lparr>sl_out := sl_out cl @ [?m]\<rparr>" by (simp add: cl1_def)
    moreover have "apply_msg ?m v = insert (cd_id c1) v" for v
      using msg_ids by (simp add: apply_msg_def written_id [OF b])
    ultimately show ?thesis using True by (simp add: told_def view_send)
  next
    case a: False
    then show ?thesis
      by (simp add: told_def hears_def cl1_def)
  qed
  ultimately show ?thesis using True by (auto simp: c1_def)
qed

text \<open>A card after it was sent: it has kept its number or got the next one.\<close>

definition numbered :: "share_card \<Rightarrow> share_card \<Rightarrow> u32 \<Rightarrow> u32 \<Rightarrow> bool" where
  "numbered c c' n n' \<longleftrightarrow> (c' = c \<and> n' = n) \<or> (cd_id c = 0 \<and> c' = c\<lparr>cd_id := n\<rparr> \<and> n' = n + 1)"

text \<open>Two cards that differ at most in their number and the time they are kept.\<close>

definition same_offer :: "share_card \<Rightarrow> share_card \<Rightarrow> bool" where
  "same_offer c c' \<longleftrightarrow> (\<exists>i t. c' = c\<lparr>cd_id := i, sc_timeout := t\<rparr>)"

lemma same_offer_refl [simp]: "same_offer c c"
  unfolding same_offer_def by (intro exI [of _ "cd_id c"] exI [of _ "sc_timeout c"]) simp

lemma same_offer_trans: "same_offer a b \<Longrightarrow> same_offer b c \<Longrightarrow> same_offer a c"
  unfolding same_offer_def
proof (elim exE)
  fix i t i' t' assume "b = a\<lparr>cd_id := i, sc_timeout := t\<rparr>" "c = b\<lparr>cd_id := i', sc_timeout := t'\<rparr>"
  then show "\<exists>i t. c = a\<lparr>cd_id := i, sc_timeout := t\<rparr>" by (intro exI [of _ i'] exI [of _ t']) simp
qed

lemma numbered_offer: "numbered c c' n n' \<Longrightarrow> same_offer c c'"
  unfolding numbered_def same_offer_def
  by (elim disjE conjE) (intro exI [of _ "cd_id c"] exI [of _ "sc_timeout c"], simp, intro exI [of _ n] exI [of _ "sc_timeout c"], simp)

lemma send_card_told:
  assumes "list_all (sendable cfg c) cls" "cd_id c \<noteq> 0 \<or> n \<noteq> 0"
  shows "\<exists>cls' c' n'. send_card_to_clients cfg cls c n = Some (cls', c', n') \<and> list_all2 (told cfg c (cd_id c')) cls cls' \<and>
    numbered c c' n n' \<and> (cd_id c' = 0 \<longrightarrow> list_all (\<lambda>cl. hears cl \<longrightarrow> \<not> wants cfg cl c) cls)"
  using assms
proof (induction cls arbitrary: c n)
  case Nil
  then show ?case by (simp add: numbered_def)
next
  case (Cons cl cls)
  from send_card_to_client_told [of cfg c cl n] Cons.prems(1) obtain cl1 c1 n1 where
    f: "send_card_to_client cfg False cl c n = Some (cl1, c1, n1)" "told cfg c (cd_id c1) cl cl1"
      "if listens False cl \<and> wants cfg cl c \<and> cd_id c = 0 then c1 = c\<lparr>cd_id := n\<rparr> \<and> n1 = n + 1 else c1 = c \<and> n1 = n" by auto
  show ?case
  proof (cases "cd_id c1 = 0")
    case True
    then have c1: "c1 = c" "n1 = n" and w: "\<not> (hears cl \<and> wants cfg cl c)"
      using f(3) Cons.prems(2) by (auto simp: hears_def split: if_splits)
    from Cons.IH [of c n] Cons.prems obtain cls' c' n' where
      r: "send_card_to_clients cfg cls c n = Some (cls', c', n')" "list_all2 (told cfg c (cd_id c')) cls cls'" "numbered c c' n n'"
        "cd_id c' = 0 \<longrightarrow> list_all (\<lambda>cl. hears cl \<longrightarrow> \<not> wants cfg cl c) cls" by auto
    have "told cfg c (cd_id c') cl cl1" using f(2) w by (auto simp: told_def)
    then show ?thesis using f(1) r w c1 by auto
  next
    case False
    have "sendable cfg c1 = sendable cfg c" using f(3) by (auto split: if_splits)
    then have s: "list_all (sendable cfg c1) cls" using Cons.prems(1) by simp
    have tc: "told cfg c1 = told cfg c" using f(3) by (auto simp: told_def fun_eq_iff split: if_splits)
    from Cons.IH [OF s disjI1 [OF False], of n1] obtain cls' c' n' where
      r: "send_card_to_clients cfg cls c1 n1 = Some (cls', c', n')" "list_all2 (told cfg c1 (cd_id c')) cls cls'" "numbered c1 c' n1 n'"
      by blast
    then have "c' = c1" "n' = n1" using False by (auto simp: numbered_def)
    then show ?thesis using f(1,2,3) r False tc by (auto simp: numbered_def split: if_splits)
  qed
qed

section \<open>All new cards\<close>

definition wanted :: "share_cfg \<Rightarrow> share_client \<Rightarrow> share_card list \<Rightarrow> u32 set" where
  "wanted cfg cl cs = cd_id ` {c \<in> set cs. wants cfg cl c}"

definition old_cards :: "(share_card \<times> bool) list \<Rightarrow> share_card list" where
  "old_cards rs = map fst (filter (\<lambda>r. \<not> snd r) rs)"

lemma wanted_simps [simp]: "wanted cfg cl [] = {}"
  "wanted cfg cl (c # cs) = (if wants cfg cl c then {cd_id c} else {}) \<union> wanted cfg cl cs"
  by (auto simp: wanted_def)

lemma old_cards_simps [simp]: "old_cards [] = []" "old_cards ((c, new) # rs) = (if new then old_cards rs else c # old_cards rs)"
  by (simp_all add: old_cards_def)

text \<open>The numbers of the old cards together with what a client was told make up what it wants of the list.\<close>

definition grown :: "share_cfg \<Rightarrow> (share_card \<times> bool) list \<Rightarrow> share_card list \<Rightarrow> share_client \<Rightarrow> share_client \<Rightarrow> bool" where
  "grown cfg rs cs cl cl' \<longleftrightarrow> same_cfg cl cl' \<and> hears cl' = hears cl \<and> (hears cl \<longrightarrow>
     (\<exists>X. client_view cl' = client_view cl \<union> X \<and> wanted cfg cl cs = X \<union> wanted cfg cl (old_cards rs)) \<and>
     (\<forall>c \<in> set cs. wants cfg cl c \<and> cd_id c = 0 \<longrightarrow> c \<in> set (old_cards rs)))"

lemma grown_new:
  assumes t: "told cfg c (cd_id c') cl cl1" and g: "grown cfg rs cs cl1 cl2" and c: "wants cfg cl c' = wants cfg cl c"
    and z: "cd_id c' = 0 \<Longrightarrow> hears cl \<Longrightarrow> \<not> wants cfg cl c"
  shows "grown cfg ((c, True) # rs) (c' # cs) cl cl2"
proof -
  have s: "same_cfg cl cl1" "hears cl1 = hears cl" using t by (simp_all add: told_def)
  have w: "wants cfg cl1 = wants cfg cl" using wants_cong [OF s(1)] by blast
  then have wd: "wanted cfg cl1 = wanted cfg cl" by (simp add: wanted_def fun_eq_iff)
  show ?thesis
  proof (cases "hears cl")
    case True
    then obtain X where X: "client_view cl2 = client_view cl1 \<union> X" "wanted cfg cl cs = X \<union> wanted cfg cl (old_cards rs)"
      and n: "\<forall>c \<in> set cs. wants cfg cl c \<and> cd_id c = 0 \<longrightarrow> c \<in> set (old_cards rs)"
      using g s(2) unfolding grown_def w wd by blast
    have v: "client_view cl1 = (if wants cfg cl c then insert (cd_id c') (client_view cl) else client_view cl)"
      using t True by (simp add: told_def)
    have "client_view cl2 = client_view cl \<union> ((if wants cfg cl c then {cd_id c'} else {}) \<union> X) \<and>
        wanted cfg cl (c' # cs) = ((if wants cfg cl c then {cd_id c'} else {}) \<union> X) \<union> wanted cfg cl (old_cards ((c, True) # rs))"
      using X v c by auto
    moreover have "\<forall>d \<in> set (c' # cs). wants cfg cl d \<and> cd_id d = 0 \<longrightarrow> d \<in> set (old_cards ((c, True) # rs))"
      using n z True c by auto
    ultimately show ?thesis using g s same_cfg_trans [OF s(1)] unfolding grown_def by blast
  next
    case False
    then show ?thesis using g s same_cfg_trans [OF s(1)] unfolding grown_def by simp
  qed
qed

lemma grown_old:
  assumes "grown cfg rs cs cl cl'"
  shows "grown cfg ((c, False) # rs) (c # cs) cl cl'"
proof (cases "hears cl")
  case True
  then obtain X where X: "client_view cl' = client_view cl \<union> X" "wanted cfg cl cs = X \<union> wanted cfg cl (old_cards rs)"
    and n: "\<forall>c \<in> set cs. wants cfg cl c \<and> cd_id c = 0 \<longrightarrow> c \<in> set (old_cards rs)"
    using assms unfolding grown_def by blast
  have "wanted cfg cl (c # cs) = X \<union> wanted cfg cl (old_cards ((c, False) # rs))" using X(2) by auto
  moreover have "\<forall>d \<in> set (c # cs). wants cfg cl d \<and> cd_id d = 0 \<longrightarrow> d \<in> set (old_cards ((c, False) # rs))" using n by auto
  ultimately show ?thesis using assms X(1) unfolding grown_def by blast
next
  case False
  then show ?thesis using assms unfolding grown_def by simp
qed

lemma grown_refl: "grown cfg [] [] cl cl"
  by (auto simp: grown_def)

subsection \<open>Numbers\<close>

text \<open>The numbers of the list after the new cards were sent, from those before: \<open>n\<close> to \<open>n'\<close> are the ones that were given out.\<close>

definition ids_after :: "u32 list \<Rightarrow> share_card list \<Rightarrow> u32 \<Rightarrow> u32 \<Rightarrow> bool" where
  "ids_after is cs n n' \<longleftrightarrow> n \<le> n' \<and> ids_ok cs n' \<and> (\<forall>c \<in> set cs. cd_id c \<noteq> 0 \<longrightarrow> cd_id c \<in> set is \<or> n \<le> cd_id c)"

lemma ids_after_new:
  assumes a: "ids_after is cs n1 n'" and k: "numbered c c' n n1" "cd_id c = 0" and n: "\<forall>i \<in> set is. i < n" "n \<noteq> 0" "n + 1 \<noteq> 0"
  shows "ids_after (0 # is) (c' # cs) n n'"
proof -
  consider "cd_id c' = 0" "n1 = n" | "cd_id c' = n" "n1 = n + 1" using k by (auto simp: numbered_def)
  then show ?thesis
  proof cases
    case 1
    have "n' \<noteq> 0" using a by (simp add: ids_after_def ids_ok_def)
    then show ?thesis using a 1 by (auto simp: ids_after_def ids_ok_def word_greater_zero_iff)
  next
    case 2
    have l: "n < n + 1" using unatSuc [of n] n(3) by (simp add: word_less_nat_alt add.commute)
    have "cd_id x \<noteq> n" if "x \<in> set cs" for x
    proof
      assume "cd_id x = n"
      then have "n \<in> set is \<or> n + 1 \<le> n" using that a 2 n(2) by (auto simp: ids_after_def)
      then show False using n(1) l by auto
    qed
    then have "n \<notin> cd_id ` set cs" by blast
    moreover have "n < n'" "n \<le> n'" using a 2 l by (auto simp: ids_after_def)
    ultimately show ?thesis using a 2 n(2) l by (auto simp: ids_after_def ids_ok_def)
  qed
qed

lemma ids_after_old:
  assumes a: "ids_after is cs n n'" and k: "cd_id c < n" "cd_id c \<noteq> 0 \<Longrightarrow> cd_id c \<notin> set is"
  shows "ids_after (cd_id c # is) (c # cs) n n'"
proof -
  have "cd_id x \<noteq> cd_id c" if "x \<in> set cs" "cd_id c \<noteq> 0" for x
  proof
    assume "cd_id x = cd_id c"
    then have "cd_id c \<in> set is \<or> n \<le> cd_id c" using that a by (auto simp: ids_after_def)
    then show False using k that(2) by auto
  qed
  then show ?thesis using a k by (auto simp: ids_after_def ids_ok_def)
qed

lemma next_number: "Suc (unat n) < 2 ^ 32 \<Longrightarrow> unat (n + 1) = Suc (unat n) \<and> n + 1 \<noteq> 0" for n :: u32
proof -
  assume l: "Suc (unat n) < 2 ^ 32"
  have "n + 1 \<noteq> 0"
  proof
    assume "n + 1 = 0"
    then have "n = - 1" by (rule max_word_wrap)
    then show False using l by (simp add: unsigned_minus_1_eq_mask mask_eq_exp_minus_1)
  qed
  then show ?thesis using unatSuc [of n] by (simp add: add.commute)
qed

lemma grown_all:
  assumes t: "list_all2 (told cfg c (cd_id c1)) cls cls1" and g: "list_all2 (grown cfg rs cs) cls1 cls'" and k: "numbered c c1 n n1"
    and z: "cd_id c1 = 0 \<longrightarrow> list_all (\<lambda>cl. hears cl \<longrightarrow> \<not> wants cfg cl c) cls"
  shows "list_all2 (grown cfg ((c, True) # rs) (c1 # cs)) cls cls'"
  unfolding list_all2_conv_all_nth
proof (intro conjI allI impI)
  show "length cls = length cls'" using t g by (simp add: list_all2_lengthD)
  fix j assume j: "j < length cls"
  have a: "told cfg c (cd_id c1) (cls ! j) (cls1 ! j)" "grown cfg rs cs (cls1 ! j) (cls' ! j)"
    using t g j by (auto simp: list_all2_conv_all_nth)
  have w: "wants cfg (cls ! j) c1 = wants cfg (cls ! j) c" using k by (auto simp: numbered_def)
  have "\<not> wants cfg (cls ! j) c" if "cd_id c1 = 0" "hears (cls ! j)" using z that j by (auto simp: list_all_length)
  then show "grown cfg ((c, True) # rs) (c1 # cs) (cls ! j) (cls' ! j)" using grown_new [OF a w] by simp
qed

lemma send_new_grown:
  assumes "list_all (\<lambda>(c, new). new \<longrightarrow> cd_id c = 0 \<and> list_all (sendable cfg c) cls) rs"
    and "n \<noteq> 0" "unat n + length rs < 2 ^ 32" "\<forall>r \<in> set rs. cd_id (fst r) < n"
    and "distinct (filter (\<lambda>i. i \<noteq> 0) (map (\<lambda>r. cd_id (fst r)) rs))"
  shows "\<exists>cs cls' n'. send_new cfg rs cls n = Some (cs, cls', n') \<and> list_all2 (grown cfg rs cs) cls cls' \<and>
    ids_after (map (\<lambda>r. cd_id (fst r)) rs) cs n n' \<and> list_all2 (\<lambda>r c. same_offer (fst r) c) rs cs"
  using assms
proof (induction rs arbitrary: cls n)
  case Nil
  then show ?case by (auto simp: list_all2_same grown_refl ids_after_def ids_ok_def)
next
  case (Cons r rs)
  obtain c new where r: "r = (c, new)" by (cases r)
  have u: "unat (n + 1) = Suc (unat n)" "n + 1 \<noteq> 0" using next_number [of n] Cons.prems(3) by simp_all
  show ?case
  proof (cases new)
    case False
    have d: "distinct (filter (\<lambda>i. i \<noteq> 0) (map (\<lambda>r. cd_id (fst r)) rs))" using Cons.prems(5) by (simp split: if_splits)
    from Cons.IH [of cls n, OF _ _ _ _ d] Cons.prems(1-4) r False obtain cs cls' n' where
      s: "send_new cfg rs cls n = Some (cs, cls', n')" "list_all2 (grown cfg rs cs) cls cls'"
        "ids_after (map (\<lambda>r. cd_id (fst r)) rs) cs n n'"
        "list_all2 (\<lambda>r c. same_offer (fst r) c) rs cs" by auto
    have "ids_after (cd_id c # map (\<lambda>r. cd_id (fst r)) rs) (c # cs) n n'"
      by (rule ids_after_old [OF s(3)]) (use Cons.prems(4,5) r in \<open>auto split: if_splits\<close>)
    moreover have "list_all2 (grown cfg (r # rs) (c # cs)) cls cls'"
      using s(2) by (rule list_all2_mono) (simp add: r False grown_old)
    ultimately show ?thesis using s(1,4) r False by simp
  next
    case True
    have z: "cd_id c = 0" and sd: "list_all (sendable cfg c) cls" using Cons.prems(1) r True by auto
    from send_card_told [OF sd] Cons.prems(2) obtain cls1 c1 n1 where
      t: "send_card_to_clients cfg cls c n = Some (cls1, c1, n1)" "list_all2 (told cfg c (cd_id c1)) cls cls1" "numbered c c1 n n1"
        "cd_id c1 = 0 \<longrightarrow> list_all (\<lambda>cl. hears cl \<longrightarrow> \<not> wants cfg cl c) cls" by blast
    have n1: "n \<le> n1" "n1 \<noteq> 0" "unat n1 \<le> Suc (unat n)"
      using t(3) u Cons.prems(2) by (auto simp: numbered_def word_le_nat_alt)
    have "list_all (sendable cfg d) cls1" if "list_all (sendable cfg d) cls" for d
      using t(2) that by (auto simp: list_all_length list_all2_conv_all_nth told_def sendable_cong)
    then have p1: "list_all (\<lambda>(c, new). new \<longrightarrow> cd_id c = 0 \<and> list_all (sendable cfg c) cls1) rs"
      using Cons.prems(1) by (fastforce simp: list_all_iff)
    have p3: "unat n1 + length rs < 2 ^ 32" using n1(3) Cons.prems(3) by simp
    have p4: "\<forall>r \<in> set rs. cd_id (fst r) < n1" using Cons.prems(4) n1(1) by auto
    have p5: "distinct (filter (\<lambda>i. i \<noteq> 0) (map (\<lambda>r. cd_id (fst r)) rs))" using Cons.prems(5) by (simp split: if_splits)
    from Cons.IH [OF p1 n1(2) p3 p4 p5] obtain cs cls' n' where
      s: "send_new cfg rs cls1 n1 = Some (cs, cls', n')" "list_all2 (grown cfg rs cs) cls1 cls'"
        "ids_after (map (\<lambda>r. cd_id (fst r)) rs) cs n1 n'"
        "list_all2 (\<lambda>r c. same_offer (fst r) c) rs cs" by blast
    have "ids_after (0 # map (\<lambda>r. cd_id (fst r)) rs) (c1 # cs) n n'"
      by (rule ids_after_new [OF s(3) t(3) z]) (use Cons.prems(2,4) u in auto)
    moreover have "list_all2 (grown cfg (r # rs) (c1 # cs)) cls cls'"
      using grown_all [OF t(2) s(2) t(3,4)] r True by simp
    ultimately show ?thesis using t(1) s(1,4) r True z numbered_offer [OF t(3)] by simp
  qed
qed

section \<open>Removed cards\<close>

definition removed :: "share_cfg \<Rightarrow> share_client \<Rightarrow> share_card list \<Rightarrow> u32 set" where
  "removed cfg cl cs = cd_id ` {c \<in> set cs. cd_id c \<noteq> 0 \<and> card_valid_for_client cfg cl c = Some True}"

definition shrunk :: "share_cfg \<Rightarrow> share_card list \<Rightarrow> share_client \<Rightarrow> share_client \<Rightarrow> bool" where
  "shrunk cfg cs cl cl' \<longleftrightarrow> same_cfg cl cl' \<and> hears cl' = hears cl \<and>
     (hears cl \<longrightarrow> client_view cl' = client_view cl - removed cfg cl cs)"

definition judged :: "share_cfg \<Rightarrow> share_card \<Rightarrow> share_client \<Rightarrow> bool" where
  "judged cfg c cl \<longleftrightarrow> card_valid_for_client cfg cl c \<noteq> None"

lemma b2i_id: "b2i 4 (bytes4 x) = Some x"
  using b2i_bytes4 [of x "[]"] by simp

lemma send_remove_shrunk:
  assumes "judged cfg c cl" "cd_id c \<noteq> 0"
  shows "\<exists>cl'. send_remove_to_client cfg c cl = Some cl' \<and> shrunk cfg [c] cl cl'"
proof (cases "listens False cl \<and> card_valid_for_client cfg cl c = Some True \<and> sl_alive cl")
  case True
  then have "send_remove_to_client cfg c cl = Some (cl\<lparr>sl_out := sl_out cl @ [(MSG_CARD_REMOVED, bytes4 (cd_id c))]\<rparr>)"
    by (simp add: send_remove_to_client_def cmd_send_def)
  moreover have "removed cfg cl [c] = {cd_id c}" using True assms(2) by (auto simp: removed_def)
  ultimately show ?thesis by (simp add: shrunk_def view_send apply_msg_def b2i_id)
next
  case False
  then have "send_remove_to_client cfg c cl = Some cl"
    using assms(1) by (auto simp: send_remove_to_client_def judged_def cmd_send_def)
  moreover have "shrunk cfg [c] cl cl" using False by (auto simp: shrunk_def removed_def hears_def)
  ultimately show ?thesis by blast
qed

lemma those_list_all2:
  "list_all (\<lambda>x. \<exists>y. f x = Some y \<and> P x y) xs \<Longrightarrow> \<exists>ys. those (map f xs) = Some ys \<and> list_all2 P xs ys"
  by (induction xs) auto

lemma send_remove_card_shrunk:
  assumes "list_all (judged cfg c) cls"
  shows "\<exists>cls'. send_remove_card_to_clients cfg c cls = Some cls' \<and> list_all2 (shrunk cfg [c]) cls cls'"
proof (cases "cd_id c = 0")
  case True
  then show ?thesis by (auto simp: send_remove_card_to_clients_def list_all2_same shrunk_def removed_def)
next
  case False
  have "list_all (\<lambda>cl. \<exists>cl'. send_remove_to_client cfg c cl = Some cl' \<and> shrunk cfg [c] cl cl') cls"
    using assms send_remove_shrunk [OF _ False] by (simp add: list_all_iff)
  from those_list_all2 [OF this] False show ?thesis by (simp add: send_remove_card_to_clients_def)
qed

lemma shrunk_trans: "shrunk cfg [c] a b \<Longrightarrow> shrunk cfg cs b d \<Longrightarrow> shrunk cfg (c # cs) a d"
  by (auto simp: shrunk_def removed_def valid_cong intro: same_cfg_trans)

lemma remove_all_shrunk:
  assumes "list_all (\<lambda>c. list_all (judged cfg c) cls) cs"
  shows "\<exists>cls'. remove_all cfg cs cls = Some cls' \<and> list_all2 (shrunk cfg cs) cls cls'"
  using assms
proof (induction cs arbitrary: cls)
  case Nil
  then show ?case by (auto simp: list_all2_same shrunk_def removed_def)
next
  case (Cons c cs)
  from send_remove_card_shrunk Cons.prems obtain cls1 where
    f: "send_remove_card_to_clients cfg c cls = Some cls1" "list_all2 (shrunk cfg [c]) cls cls1" by fastforce
  have "list_all (judged cfg d) cls1" if "list_all (judged cfg d) cls" for d
    using f(2) that by (auto simp: list_all_length list_all2_conv_all_nth shrunk_def judged_def valid_cong)
  then have "list_all (\<lambda>c. list_all (judged cfg c) cls1) cs" using Cons.prems by (simp add: list_all_iff)
  from Cons.IH [OF this] obtain cls' where s: "remove_all cfg cs cls1 = Some cls'" "list_all2 (shrunk cfg cs) cls1 cls'" by blast
  have "list_all2 (shrunk cfg (c # cs)) cls cls'"
    by (rule list_all2_trans [OF _ f(2) s(2)]) (rule shrunk_trans)
  then show ?case using f(1) s(1) by simp
qed

section \<open>The comparison with the list before\<close>

definition stable :: "share_cfg \<Rightarrow> share_card list \<Rightarrow> share_card list \<Rightarrow> share_client \<Rightarrow> bool" where
  "stable cfg cards olds cl \<longleftrightarrow> list_all (\<lambda>c. list_all (\<lambda>d. same_share c d \<longrightarrow> wants cfg cl c = wants cfg cl d) olds) cards"

lemma mset_without: "i < length xs \<Longrightarrow> mset xs = add_mset (xs ! i) (mset (take i xs @ drop (Suc i) xs))"
  by (subst id_take_nth_drop [of i xs]) simp_all

lemma found_card:
  assumes "find_reported_card now c olds = Some (c', olds1)"
  shows "\<exists>d. mset olds = add_mset d (mset olds1) \<and> same_share c d \<and> c' = c\<lparr>cd_id := cd_id d, sc_timeout := sc_timeout d\<rparr>"
proof -
  from assms obtain i where i: "first_pos (\<lambda>d. same_share c d \<and> \<not> card_timed_out now d) olds = Some i"
    "c' = c\<lparr>cd_id := cd_id (olds ! i), sc_timeout := sc_timeout (olds ! i)\<rparr>" "olds1 = take i olds @ drop (Suc i) olds"
    by (auto simp: find_reported_card_def split: option.splits)
  from first_pos_Some [OF i(1)] mset_without [of i olds] i(2,3) show ?thesis by blast
qed

lemma report_cards_kept:
  assumes "report_cards now cards olds = (rs, olds')"
  shows "mset (map cd_id olds) = mset (map cd_id (old_cards rs)) + mset (map cd_id olds') \<and> set olds' \<subseteq> set olds \<and>
    list_all2 (\<lambda>c r. same_offer c (fst r) \<and> (snd r \<longrightarrow> fst r = c)) cards rs"
  using assms
proof (induction cards arbitrary: olds rs olds')
  case Nil
  then show ?case by simp
next
  case (Cons c cards)
  show ?case
  proof (cases "find_reported_card now c olds")
    case None
    then obtain rs1 where r: "report_cards now cards olds = (rs1, olds')" "rs = (c, True) # rs1"
      using Cons.prems by (auto split: prod.splits)
    from Cons.IH [OF r(1)] r(2) show ?thesis by simp
  next
    case (Some p)
    obtain c' olds1 where p: "p = (c', olds1)" by (cases p)
    then obtain rs1 where r: "report_cards now cards olds1 = (rs1, olds')" "rs = (c', False) # rs1"
      using Cons.prems Some by (auto split: prod.splits)
    from found_card [of now c olds c' olds1] Some p obtain d where d: "mset olds = add_mset d (mset olds1)"
      "c' = c\<lparr>cd_id := cd_id d, sc_timeout := sc_timeout d\<rparr>" by blast
    have "mset (map cd_id olds) = add_mset (cd_id d) (mset (map cd_id olds1))" using d(1) by simp
    moreover have "set olds = insert d (set olds1)" using d(1) by (metis set_mset_add_mset_insert set_mset_mset)
    moreover have "same_offer c c'" using d(2) unfolding same_offer_def by blast
    ultimately show ?thesis using Cons.IH [OF r(1)] r(2) d(2) by auto
  qed
qed

lemma report_cards_wanted:
  assumes "report_cards now cards olds = (rs, olds')" "stable cfg cards olds cl"
  shows "wanted cfg cl olds = wanted cfg cl (old_cards rs) \<union> wanted cfg cl olds'"
  using assms
proof (induction cards arbitrary: olds rs olds')
  case Nil
  then show ?case by simp
next
  case (Cons c cards)
  show ?case
  proof (cases "find_reported_card now c olds")
    case None
    then obtain rs1 where r: "report_cards now cards olds = (rs1, olds')" "rs = (c, True) # rs1"
      using Cons.prems by (auto split: prod.splits)
    from Cons.IH [OF r(1)] r(2) Cons.prems(2) show ?thesis by (simp add: stable_def)
  next
    case (Some p)
    obtain c' olds1 where p: "p = (c', olds1)" by (cases p)
    then obtain rs1 where r: "report_cards now cards olds1 = (rs1, olds')" "rs = (c', False) # rs1"
      using Cons.prems Some by (auto split: prod.splits)
    from found_card [of now c olds c' olds1] Some p obtain d where d: "mset olds = add_mset d (mset olds1)" "same_share c d"
      "c' = c\<lparr>cd_id := cd_id d, sc_timeout := sc_timeout d\<rparr>" by blast
    have so: "set olds = insert d (set olds1)" using d(1) by (metis set_mset_add_mset_insert set_mset_mset)
    then have st: "stable cfg cards olds1 cl" "wants cfg cl c = wants cfg cl d"
      using Cons.prems(2) d(2) by (auto simp: stable_def list_all_iff)
    have "wanted cfg cl olds = (if wants cfg cl d then {cd_id d} else {}) \<union> wanted cfg cl olds1"
      using so by (auto simp: wanted_def)
    then show ?thesis using Cons.IH [OF r(1) st(1)] r(2) d(3) st(2) by auto
  qed
qed


section \<open>A report\<close>

lemma new_ids_zero:
  assumes "list_all2 (\<lambda>c r. same_offer c (fst r) \<and> (snd r \<longrightarrow> fst r = c)) cards rs" "list_all (\<lambda>c. cd_id c = 0) cards"
  shows "list_all (\<lambda>r. snd r \<longrightarrow> cd_id (fst r) = 0) rs"
  using assms by (induction rule: list_all2_induct) auto

lemma new_cards_all:
  assumes "list_all2 (\<lambda>c r. same_offer c (fst r) \<and> (snd r \<longrightarrow> fst r = c)) cards rs" "list_all P cards"
  shows "list_all (\<lambda>r. snd r \<longrightarrow> P (fst r)) rs"
  using assms by (induction rule: list_all2_induct) auto

lemma old_ids:
  assumes "list_all (\<lambda>r. snd r \<longrightarrow> cd_id (fst r) = 0) rs"
  shows "filter (\<lambda>i. i \<noteq> 0) (map (\<lambda>r. cd_id (fst r)) rs) = filter (\<lambda>i. i \<noteq> 0) (map cd_id (old_cards rs))"
  using assms by (induction rs) (auto simp: old_cards_def)

lemma old_below:
  assumes "list_all (\<lambda>r. snd r \<longrightarrow> cd_id (fst r) = 0) rs" "list_all (\<lambda>c. cd_id c < n) (old_cards rs)" "0 < n"
  shows "\<forall>r \<in> set rs. cd_id (fst r) < n"
  using assms by (induction rs) (auto simp: old_cards_def split: if_splits)

lemma kept_ids:
  assumes m: "mset (map cd_id olds) = mset (map cd_id ks) + mset (map cd_id olds')" and i: "ids_ok olds n"
  shows "ids_ok ks n" "\<And>c d. c \<in> set ks \<Longrightarrow> d \<in> set olds' \<Longrightarrow> cd_id c = cd_id d \<Longrightarrow> cd_id d = 0"
proof -
  have "mset (map cd_id olds) = mset (map cd_id ks @ map cd_id olds')" using m by simp
  then have "mset (filter (\<lambda>i. i \<noteq> 0) (map cd_id olds)) = mset (filter (\<lambda>i. i \<noteq> 0) (map cd_id ks @ map cd_id olds'))"
    by (simp only: mset_filter)
  then have d: "distinct (filter (\<lambda>i. i \<noteq> 0) (map cd_id ks) @ filter (\<lambda>i. i \<noteq> 0) (map cd_id olds'))"
    using i unfolding ids_ok_def by (metis filter_append mset_eq_imp_distinct_iff)
  have "set (map cd_id ks) \<subseteq> set (map cd_id olds)"
    using m by (metis mset_subset_eq_add_left set_mset_mono set_mset_mset)
  then show "ids_ok ks n" using i d by (auto simp: ids_ok_def list_all_iff)
  fix c e assume c: "c \<in> set ks" "e \<in> set olds'" "cd_id c = cd_id e"
  show "cd_id e = 0"
  proof (rule ccontr)
    assume z: "cd_id e \<noteq> 0"
    then have "cd_id e \<in> set (filter (\<lambda>i. i \<noteq> 0) (map cd_id ks))" using c by (auto intro: image_eqI [of _ _ c])
    moreover have "cd_id e \<in> set (filter (\<lambda>i. i \<noteq> 0) (map cd_id olds'))" using c z by auto
    ultimately show False using d unfolding distinct_append by blast
  qed
qed

text \<open>One client over the whole report.\<close>

lemma report_one:
  assumes k: "report_cards now cards olds = (rs, olds')" and i: "ids_ok olds n" and st: "stable cfg cards olds cl"
    and v: "view_ok cfg olds cl" and h: "hears cl" and sh: "shrunk cfg olds' cl cl1" and g: "grown cfg rs cs cl1 cl2"
  shows "view_ok cfg cs cl2"
proof -
  have s1: "same_cfg cl cl1" "hears cl1" and v1: "client_view cl1 = client_view cl - removed cfg cl olds'"
    using sh h by (simp_all add: shrunk_def)
  have w: "wants cfg cl1 = wants cfg cl" "wanted cfg cl1 = wanted cfg cl"
    using wants_cong [OF s1(1)] by (simp_all add: wanted_def fun_eq_iff)
  have s2: "same_cfg cl1 cl2" using g by (simp add: grown_def)
  have w2: "wants cfg cl2 = wants cfg cl" using wants_cong [OF s2] w(1) by (simp add: fun_eq_iff)
  obtain X where X: "client_view cl2 = client_view cl1 \<union> X" "wanted cfg cl cs = X \<union> wanted cfg cl (old_cards rs)"
    and n: "\<forall>c \<in> set cs. wants cfg cl c \<and> cd_id c = 0 \<longrightarrow> c \<in> set (old_cards rs)"
    using g s1(2) unfolding grown_def w by blast
  have v0: "client_view cl = wanted cfg cl olds" "0 \<notin> wanted cfg cl olds"
    using v by (auto simp: view_ok_def wanted_def list_all_iff)
  have e: "wanted cfg cl olds = wanted cfg cl (old_cards rs) \<union> wanted cfg cl olds'" by (rule report_cards_wanted [OF k st])
  have m: "mset (map cd_id olds) = mset (map cd_id (old_cards rs)) + mset (map cd_id olds')" using report_cards_kept [OF k] by blast
  have "wanted cfg cl olds' \<subseteq> removed cfg cl olds'"
    using v0(2) e by (fastforce simp: wanted_def removed_def wants_def)
  moreover have "wanted cfg cl (old_cards rs) \<inter> removed cfg cl olds' = {}"
    using kept_ids(2) [OF m i] by (fastforce simp: wanted_def removed_def)
  ultimately have "client_view cl1 = wanted cfg cl (old_cards rs)" using v1 v0(1) e by blast
  then have "client_view cl2 = wanted cfg cl cs" using X by blast
  moreover have "cd_id c \<noteq> 0" if "c \<in> set cs" "wants cfg cl c" for c
  proof
    assume "cd_id c = 0"
    then have "0 \<in> wanted cfg cl (old_cards rs)" using n that unfolding wanted_def by (metis (mono_tags, lifting) image_eqI mem_Collect_eq)
    then show False using v0(2) e by blast
  qed
  ultimately show ?thesis by (simp add: view_ok_def w2 wanted_def list_all_iff)
qed

lemma report_view_spec:
  assumes ok: "share_ok cfg s" and n: "unat (sh_next s) + length cards < 2 ^ 32"
    and cards: "list_all (\<lambda>c. cd_id c = 0 \<and> list_all (sendable cfg c) (sh_clients s)) cards"
    and old: "list_all (\<lambda>c. list_all (judged cfg c) (sh_clients s)) (sh_reported s)"
    and st: "list_all (stable cfg cards (sh_reported s)) (sh_clients s)"
  shows "\<exists>s'. report_list cfg now cards s = Some s' \<and> share_ok cfg s' \<and> list_all2 same_offer cards (sh_reported s')"
proof -
  obtain rs olds' where k: "report_cards now cards (sh_reported s) = (rs, olds')" by fastforce
  note kept = report_cards_kept [OF k]
  have i: "ids_ok (sh_reported s) (sh_next s)" using ok by (simp add: share_ok_def)
  then have nz: "sh_next s \<noteq> 0" by (simp add: ids_ok_def)
  have "list_all (\<lambda>c. list_all (judged cfg c) (sh_clients s)) olds'" using old kept by (auto simp: list_all_iff)
  from remove_all_shrunk [OF this] obtain cls1 where
    r: "remove_all cfg olds' (sh_clients s) = Some cls1" "list_all2 (shrunk cfg olds') (sh_clients s) cls1" by blast
  have zc: "list_all (\<lambda>c. cd_id c = 0) cards" using cards by (simp add: list_all_iff)
  have z: "list_all (\<lambda>r. snd r \<longrightarrow> cd_id (fst r) = 0) rs" using new_ids_zero [OF _ zc] kept by blast
  have sd: "list_all (sendable cfg c) cls1" if "c \<in> set cards" for c
  proof -
    have "list_all (sendable cfg c) (sh_clients s)" using cards that by (simp add: list_all_iff)
    then show ?thesis using r(2) by (auto simp: list_all_length list_all2_conv_all_nth shrunk_def sendable_cong)
  qed
  have e: "list_all2 (\<lambda>c r. same_offer c (fst r) \<and> (snd r \<longrightarrow> fst r = c)) cards rs" using kept by (elim conjE)
  have "list_all (\<lambda>c. list_all (sendable cfg c) cls1) cards" using sd by (simp add: list_all_iff)
  from new_cards_all [OF e this] have "list_all (\<lambda>r. snd r \<longrightarrow> list_all (sendable cfg (fst r)) cls1) rs" .
  then have p1: "list_all (\<lambda>(c, new). new \<longrightarrow> cd_id c = 0 \<and> list_all (sendable cfg c) cls1) rs"
    using z by (simp add: list_all_iff case_prod_beta)
  have l: "length rs = length cards" using kept by (auto dest: list_all2_lengthD)
  have ik: "ids_ok (old_cards rs) (sh_next s)" using kept_ids(1) [OF _ i] kept by blast
  have p4: "\<forall>r \<in> set rs. cd_id (fst r) < sh_next s"
    by (rule old_below [OF z]) (use ik nz in \<open>simp_all add: ids_ok_def word_greater_zero_iff\<close>)
  have p5: "distinct (filter (\<lambda>i. i \<noteq> 0) (map (\<lambda>r. cd_id (fst r)) rs))" using ik unfolding old_ids [OF z] ids_ok_def by blast
  from send_new_grown [OF p1 nz _ p4 p5] n l obtain cs cls2 n' where
    g: "send_new cfg rs cls1 (sh_next s) = Some (cs, cls2, n')" "list_all2 (grown cfg rs cs) cls1 cls2"
      "ids_after (map (\<lambda>r. cd_id (fst r)) rs) cs (sh_next s) n'" "list_all2 (\<lambda>r c. same_offer (fst r) c) rs cs" by auto
  have "list_all (\<lambda>cl. hears cl \<longrightarrow> view_ok cfg cs cl) cls2"
    unfolding list_all_length
  proof (intro allI impI)
    fix j assume j: "j < length cls2" "hears (cls2 ! j)"
    then have a: "shrunk cfg olds' (sh_clients s ! j) (cls1 ! j)" "grown cfg rs cs (cls1 ! j) (cls2 ! j)" "j < length (sh_clients s)"
      using r(2) g(2) by (simp_all add: list_all2_conv_all_nth)
    then have h: "hears (sh_clients s ! j)" using j(2) by (simp add: shrunk_def grown_def)
    have "view_ok cfg (sh_reported s) (sh_clients s ! j)" "stable cfg cards (sh_reported s) (sh_clients s ! j)"
      using ok st h a(3) by (simp_all add: share_ok_def list_all_length)
    then show "view_ok cfg cs (cls2 ! j)" using report_one [OF k i _ _ h a(1,2)] by blast
  qed
  moreover have "ids_ok cs n'" using g(3) by (simp add: ids_after_def)
  moreover have "list_all2 same_offer cards cs"
    by (rule list_all2_trans [OF _ e g(4)]) (blast intro: same_offer_trans)
  ultimately show ?thesis using r(1) g(1) by (simp add: report_list_def k share_ok_def)
qed


text \<open>The server over any sequence of updates.\<close>

definition updated :: "share_cfg \<Rightarrow> share_state \<Rightarrow> share_state \<Rightarrow> bool" where
  "updated cfg s s' \<longleftrightarrow> (\<exists>now cards. unat (sh_next s) + length cards < 2 ^ 32 \<and>
     list_all (\<lambda>c. cd_id c = 0 \<and> list_all (sendable cfg c) (sh_clients s)) cards \<and>
     list_all (\<lambda>c. list_all (judged cfg c) (sh_clients s)) (sh_reported s) \<and>
     list_all (stable cfg cards (sh_reported s)) (sh_clients s) \<and> report_list cfg now cards s = Some s')"

interpretation server_list: machine "updated cfg" "share_ok cfg" for cfg
proof unfold_locales
  fix s s' assume ok: "share_ok cfg s" and "updated cfg s s'"
  then obtain now cards where u: "unat (sh_next s) + length cards < 2 ^ 32"
    "list_all (\<lambda>c. cd_id c = 0 \<and> list_all (sendable cfg c) (sh_clients s)) cards"
    "list_all (\<lambda>c. list_all (judged cfg c) (sh_clients s)) (sh_reported s)"
    "list_all (stable cfg cards (sh_reported s)) (sh_clients s)" and r: "report_list cfg now cards s = Some s'"
    unfolding updated_def by blast
  from report_view_spec [OF ok u, of now] r show "share_ok cfg s'" by simp
qed

lemma updates_keep_view:
  "(updated cfg)\<^sup>*\<^sup>* s s' \<Longrightarrow> share_ok cfg s \<Longrightarrow> cl \<in> set (sh_clients s') \<Longrightarrow> hears cl \<Longrightarrow>
    client_view cl = cd_id ` {c \<in> set (sh_reported s'). wants cfg cl c}"
  using server_list.reach [of cfg s s'] by (simp add: share_ok_def list_all_iff view_ok_def)

text \<open>C23. What every client of the server knows of its cards stays right over an update of the list (\<open>update_card_list\<close>): if the cards
  that were reported have different numbers below the next free one and each client that hears the server knows exactly the numbers of
  the cards it may see, then after the update the same holds for the new list, which consists of exactly the cards that were collected,
  with their numbers, as long as the numbers do not run out, every card fits its message, and a card that is taken for one of the list
  before is seen by the same clients.\<close>

theorem report_view:
  assumes "share_ok cfg s" "unat (sh_next s) + length cards < 2 ^ 32"
    and "list_all (\<lambda>c. cd_id c = 0 \<and> list_all (sendable cfg c) (sh_clients s)) cards"
    and "list_all (\<lambda>c. list_all (judged cfg c) (sh_clients s)) (sh_reported s)"
    and "list_all (stable cfg cards (sh_reported s)) (sh_clients s)"
  shows "\<exists>s'. report_list cfg now cards s = Some s' \<and> share_ok cfg s' \<and> list_all2 same_offer cards (sh_reported s')"
  by (rule report_view_spec [OF assms])

definition share_client0 :: share_client where
  "share_client0 =
    \<lparr>cl_typ = CHR ''c'', cl_grp = 1, cl_sidtabok = 0, cl_sidtabno = 0, cl_ftab = [], cl_fchid = [], cl_cltab = cl_cltab client_ex,
     cl_port_idx = 0, cl_pending = 0, cl_login = 0, cl_account = 0, cl_ac_limit = 0, cl_acasc = cl_acasc client_ex, sl_cccam = True,
     sl_mode = Some CCCAM_MODE_NORMAL, sl_cccam220 = False, sl_peer = [1, 2, 3, 4, 5, 6, 7, 8], sl_node = [1, 1, 1, 1, 1, 1, 1, 1],
     sl_reshare = -1, sl_ignorereshare = -1, sl_maxhops = 10, sl_ctab = [], sl_aureaders = 0, sl_alive = True,
     sl_out = [(MSG_NEW_CARD, [0, 0, 0, 1])]\<rparr>"

definition share_state0 :: share_state where
  "share_state0 = \<lparr>sh_reported = [(share_card0 9 0x0500)\<lparr>cd_id := 1\<rparr>], sh_clients = [share_client0], sh_next = 2\<rparr>"

lemma valid0: "card_valid_for_client share_cfg0 (share_client0\<lparr>sl_out := msgs\<rparr>) ((share_card0 r 0x0500)\<lparr>cd_id := i\<rparr>) = Some True"
  by (simp add: card_valid_for_client_def share_client0_def share_card0_def share_cfg0_def chk_ident_def chk_ctab_def
      chk_srvid_by_caid_prov_def)

lemma client_ok0:
  "card_valid_for_client share_cfg0 share_client0 ((share_card0 r 0x0500)\<lparr>cd_id := i\<rparr>) = Some True"
  "card_valid_for_client share_cfg0 share_client0 (share_card0 r 0x0500) = Some True"
  "wants share_cfg0 share_client0 (share_card0 r 0x0500)"
  "client_view share_client0 = {1}" "hears share_client0" "cd_id (share_card0 r 0x0500) = 0"
proof -
  show v: "card_valid_for_client share_cfg0 share_client0 ((share_card0 r 0x0500)\<lparr>cd_id := i\<rparr>) = Some True"
    using valid0 [where msgs = "sl_out share_client0" and r = r and i = i] by simp
  then show w: "card_valid_for_client share_cfg0 share_client0 (share_card0 r 0x0500) = Some True" by (simp add: valid_renumber)
  show "wants share_cfg0 share_client0 (share_card0 r 0x0500)"
    using w by (simp add: wants_def new_reshare_def share_client0_def share_card0_def share_cfg0_def usr_ignorereshare_def)
  show "client_view share_client0 = {1}" "hears share_client0"
    using msg_ids by (simp_all add: client_view_def share_client0_def apply_msg_def hears_def listens_def b2i_def)
  show "cd_id (share_card0 r 0x0500) = 0" by (simp add: share_card0_def)
qed

theorem report_view_witness:
  "\<exists>s'. report_list share_cfg0 0 [share_card0 7 0x0500] share_state0 = Some s' \<and> share_ok share_cfg0 s' \<and>
     list_all2 same_offer [share_card0 7 0x0500] (sh_reported s')"
proof (rule report_view)
  show "share_ok share_cfg0 share_state0"
    unfolding share_ok_def view_ok_def wanted_def [symmetric] by (simp add: share_state0_def ids_ok_def client_ok0)
  show "unat (sh_next share_state0) + length [share_card0 7 0x0500] < 2 ^ 32" by (simp add: share_state0_def)
  show "list_all (\<lambda>c. cd_id c = 0 \<and> list_all (sendable share_cfg0 c) (sh_clients share_state0)) [share_card0 7 0x0500]"
    by (simp add: share_state0_def client_ok0 sendable_def del: not_None_eq)
      (simp add: write_card_def card_sids_def share_card0_def CC_MAXMSGSIZE_def write_provider_def share_client0_def)
  show "list_all (\<lambda>c. list_all (judged share_cfg0 c) (sh_clients share_state0)) (sh_reported share_state0)"
    by (simp add: share_state0_def judged_def valid_renumber client_ok0 del: not_None_eq)
  show "list_all (stable share_cfg0 [share_card0 7 0x0500] (sh_reported share_state0)) (sh_clients share_state0)"
    by (simp add: share_state0_def stable_def same_share_def share_card0_def)
qed


text \<open>A card that is taken for one of the list before but is not for the client any more, here because its reshare has become 0: the
  client is not told, and keeps the card with the old number.\<close>

lemma report_stale:
  fixes i :: u32
  defines "d \<equiv> (share_card0 9 0x0500)\<lparr>cd_reshare := 0\<rparr>"
  shows "report_list share_cfg0 0 [d] share_state0 = Some (share_state0\<lparr>sh_reported := [d\<lparr>cd_id := 1\<rparr>]\<rparr>)"
    "\<not> wants share_cfg0 share_client0 (d\<lparr>cd_id := i\<rparr>)"
proof -
  have "first_pos (\<lambda>e. same_share d e \<and> \<not> card_timed_out 0 e) (sh_reported share_state0) = Some 0"
    by (simp add: first_pos_def share_state0_def d_def same_share_def same_share2_def card_timed_out_def share_card0_def
        same_first_node_def the_card_def cc_card.defs)
  then show "report_list share_cfg0 0 [d] share_state0 = Some (share_state0\<lparr>sh_reported := [d\<lparr>cd_id := 1\<rparr>]\<rparr>)"
    by (simp add: report_list_def find_reported_card_def) (simp add: share_state0_def d_def share_card0_def)
  show "\<not> wants share_cfg0 share_client0 (d\<lparr>cd_id := i\<rparr>)"
    by (simp add: wants_def card_valid_for_client_def d_def share_client0_def share_card0_def share_cfg0_def chk_ident_def chk_ctab_def
        usr_ignorereshare_def)
qed

end
