(* ===== verification/Spec2Isabelle.thy ===== *)
theory Spec2Isabelle
  imports LList Simples Locks Garbage Delivery EmmRoute Reader Icc CCretry Clients ShareView
begin

text \<open>
  A model of OSCam, the open source conditional access module, and what has been proved of it. All paths below are under \<open>src/\<close>.

  \<^bold>\<open>The program.\<close> OSCam is a server that answers requests for control words. A client (a receiver, or another server) sends an ECM; the
  server checks the client's account, looks for the answer in a cache, chooses readers (smartcards in the house, or connections to other
  servers), passes the ECM on, and sends the first control word that comes back to every client that waits for it. EMMs, which write
  entitlements to cards, go the same way in one direction only. The parts share \<open>struct s_client\<close>, \<open>struct s_reader\<close> and \<open>ECM_REQUEST\<close> of
  \<open>globals.h\<close>, the cache \<open>ecmcwcache\<close>, the statistics in each reader and the lists of \<open>module-datastruct-llist.c\<close>. One thread runs for each
  client and each reader; they pass requests to one another as jobs. The model has one definition for each function, in the order in
  which a thread runs it, on an explicit state; the order in which threads run their jobs is a sequence of steps.

  \<^bold>\<open>Conventions\<close> (\<open>Prelude\<close>). A fixed width matters where the code shifts, masks or lets a value wrap: there integers are words (\<open>u8\<close> to
  \<open>u64\<close>); small \<open>int32_t\<close> values are \<open>int\<close>, cut with \<open>s32\<close> where a product may overflow. A result \<open>None\<close> stands for behaviour that C does not
  define (an index outside an array, a pointer to something freed, a null pointer); a theorem with the conclusion \<open>\<exists>y. f x = Some y\<close>
  says that the code never gets there. Error returns of the code are values: return codes as in the code, or constructors.
  \<open>Contracts\<close> holds the interfaces of more than one part, as locales: \<open>codec\<close> and \<open>exact_codec\<close> (a writer and its reader), \<open>machine\<close> (steps
  that keep an invariant), \<open>draining\<close> (steps that use up chances until they end). \<open>LList\<close> has one more, \<open>cursor\<close> (what a search loop needs of
  an iterator). Each is interpreted by the parts that provide it.

  \<^bold>\<open>Theories.\<close>

  \<^item> \<open>Globals\<close>: the structures of \<open>globals.h\<close> with the fields that the modelled functions use, return codes and limits.
  \<^item> \<open>Simples\<close>: conversions, string helpers and card serials of \<open>oscam-simples.c\<close>. Round trips and bounds of the buffers.
  \<^item> \<open>LList\<close>: the whole of \<open>module-datastruct-llist.c\<close> on an explicit heap of nodes. Each operation refines an operation on the list of the
    objects and keeps the shape of the heap; removed nodes go to the garbage collector.
  \<^item> \<open>Locks\<close>: \<open>cs_writelock\<close>, \<open>cs_readlock\<close>, the try and the unlock functions of \<open>oscam-simples.c\<close> as a machine with one step for every access to
    the shared counters, for any number of threads. \<open>Garbage\<close>: \<open>oscam-garbage.c\<close>.
  \<^item> \<open>Chk\<close>: \<open>oscam-chk.c\<close>, the filters by CAID, provider, service, class, CHID, group and reader. \<open>AntiCasc\<close>: \<open>oscam-ac.c\<close>.
  \<^item> \<open>Stat\<close> and \<open>Balance\<close>: the statistics of \<open>module-stat.c\<close>, and \<open>get_best_reader\<close> in its stages.
  \<^item> \<open>Ecm\<close>, \<open>Cache\<close>, \<open>Request\<close>: \<open>get_cw\<close> of \<open>oscam.c\<close> from the corrections of a request (\<open>Ecm\<close>) and the cache (\<open>Cache\<close>) to the dispatch to
    the readers. \<open>Answer\<close>: \<open>get_ecmtask\<close>, \<open>write_ecm_answer\<close>, \<open>chk_dcw\<close>, \<open>send_dcw\<close>, \<open>distribute_ecm\<close>, \<open>chk_pending\<close>. \<open>Pending\<close> and \<open>Delivery\<close> prove of
    them that every open request is answered, and once: by the time limits, and by what the readers say.
  \<^item> \<open>Emm\<close>: \<open>get_emm_type\<close> and \<open>get_emm_filter\<close> of the card systems (\<open>reader-*.c\<close>). \<open>EmmRoute\<close>: \<open>do_emm\<close> of \<open>oscam.c\<close> and \<open>reader_do_emm\<close> of
    \<open>reader-common.c\<close> and \<open>oscam-reader.c\<close>.
  \<^item> \<open>Reader\<close>: the table of requests of a network reader, reconnects and the limit of services of \<open>oscam-reader.c\<close>.
  \<^item> \<open>Atr\<close>, \<open>Card\<close>, \<open>T0\<close>, \<open>T1\<close>, \<open>Icc\<close>: \<open>csctapi/\<close>, the answer to reset, the protocols T=0, T=1 and T=14, and what \<open>icc_async.c\<close> makes of them.
    The bytes on the line are given by a driver, a pair of functions over a state of its own.
  \<^item> \<open>CCcrypt\<close>, \<open>CCcam\<close>, \<open>CCmsg\<close>: the CCcam protocol of \<open>module-cccam.c\<close>: ciphers and framing; the list of cards, the choice of a card and the
    table of indices; the messages. \<open>CCinv\<close>, \<open>CCprops\<close>, \<open>CCretry\<close>: the invariant of a connection over every run, the choice of the nearest
    card, and the end of a series of refusals.
  \<^item> \<open>Share\<close>, \<open>ShareList\<close>, \<open>ShareView\<close>: \<open>module-cccshare.c\<close>, the server's side of CCcam: the message for a card, which client may see a card;
    collecting the cards of all readers and telling the clients the difference; what the clients then know.
  \<^item> \<open>Config\<close>: the tables of \<open>oscam-config.c\<close>, as they are parsed and printed. \<open>Ban\<close>: refused addresses, \<open>cs_check_v\<close> of \<open>oscam.c\<close>.
    \<open>Clients\<close>: new connections, logins, one connection for each user, and the reload of the accounts, of \<open>oscam.c\<close>.

  \<^bold>\<open>What the lemmas show.\<close> Of the request path: a request reaches a reader only after every check and only readers that match; identical
  requests wait for one answer; the answer reaches each waiting client once; nothing stays open after the time limit. Of the data: what
  is printed, written or scrambled is read back (tables of the configuration, answers to reset, cards, control words). Of the shared
  structures: the list refines a list, the lock excludes, the collector frees once. Of the protocols: T=1 implements a sequence of
  commands over a card that follows the protocol, one TPDU of T=0 arrives however the card paces it, the two ends of a CCcam connection
  stay in step. Of the state over time: the invariants of a CCcam connection, of the accounts over a reload, of the statistics, of the
  bans and of what the clients know of the shared cards. Each theorem with hypotheses has a witness, an instance in which they hold.

  \<^bold>\<open>Loops.\<close> Most loops are structural recursions, or functions with a measure: the loop of \<open>cc_send_ecm\<close> goes down in the requests that
  wait, the choice of readers in the values that are left, the parsers in the bytes that are left. A loop that the code does not bound
  is a \<open>partial_function\<close>, where \<open>None\<close> is the run that does not return as well: the walks over the heap of \<open>LList\<close>, which end on a well-formed
  list, and the loops of T=0 and T=1, which a card can hold up with null bytes and requests for more time. The theorems about them say
  that they return, over a list that is well formed and over a card that follows the protocol. No function has fuel.

  \<^bold>\<open>Parameters.\<close> Code outside of the repository, or vendored in it, is an argument: the block ciphers and AES of command 0C, the driver of
  the card reader, the socket of a CCcam connection (\<open>connect\<close> and what arrives), the clock, the name service, the random numbers. The
  checksum of a password and the answer of \<open>malloc\<close> are inputs as well.

  \<^bold>\<open>Not modelled.\<close> Start and end of the program, signals, sockets, threads and the main loop (\<open>oscam.c\<close>); log and monitor output; the web
  interface; reading and writing the configuration files and the dispatch on the names of their parameters; the DVB interface, which
  drives devices; newcamd, camd 3.3 and 3.5, gbox, radegast, serial and constcw; the login of a CCcam connection and the server's
  messages other than those about cards; the drivers of the card readers; the commands of the card systems to the cards, except types
  and filters of EMMs; vendored algorithms. Inside the modelled functions the log lines, displays and LEDs are left out, and of the
  statistics file only the decisions are kept.
\<close>

end
